(* ===== verification/Float64.thy ===== *)
theory Float64
  imports Prelude
begin

text \<open>
  The \<open>float64\<close> values of the program and the operations of Go and of package \<open>math\<close> that
  the modelled code applies to them. A value is a finite number, an infinity or NaN.
  Not-a-number, the infinities, comparison with NaN (always false), division by zero and the
  special cases of \<open>math.Max\<close>, \<open>math.Min\<close>, \<open>math.Floor\<close> and \<open>math.Sqrt\<close> follow IEEE 754;
  finite arithmetic is exact, so rounding and overflow are abstracted away, and the two zeros
  are one value. Addition is associative and commutative in this model, which
  \<open>float64\<close> addition is only up to rounding.
\<close>

datatype f64 = Fin real | PInf | NInf | NaN

fun fval :: "f64 \<Rightarrow> real" where
  "fval (Fin r) = r"
| "fval _ = 0"

fun isNaN :: "f64 \<Rightarrow> bool" where
  "isNaN NaN = True"
| "isNaN _ = False"

fun isInf :: "f64 \<Rightarrow> bool" where
  "isInf PInf = True"
| "isInf NInf = True"
| "isInf _ = False"

fun fin :: "f64 \<Rightarrow> bool" where
  "fin (Fin _) = True"
| "fin _ = False"

lemma fin_cases: "fin x \<Longrightarrow> (\<And>r. x = Fin r \<Longrightarrow> P) \<Longrightarrow> P"
  by (cases x) auto

lemma fin_iff: "fin x \<longleftrightarrow> (\<exists>r. x = Fin r)"
  by (cases x) auto

lemma fin_iff_not: "fin x \<longleftrightarrow> \<not> isNaN x \<and> \<not> isInf x"
  by (cases x) auto

lemma Fin_fval [simp]: "fin x \<Longrightarrow> Fin (fval x) = x"
  by (cases x) auto

section \<open>Arithmetic\<close>

instantiation f64 :: comm_monoid_add
begin

definition zero_f64 :: f64 where "zero_f64 = Fin 0"

fun plus_f64 :: "f64 \<Rightarrow> f64 \<Rightarrow> f64" where
  "plus_f64 (Fin a) (Fin b) = Fin (a + b)"
| "plus_f64 NaN _ = NaN"
| "plus_f64 _ NaN = NaN"
| "plus_f64 PInf NInf = NaN"
| "plus_f64 NInf PInf = NaN"
| "plus_f64 PInf _ = PInf"
| "plus_f64 NInf _ = NInf"
| "plus_f64 _ PInf = PInf"
| "plus_f64 _ NInf = NInf"

instance
proof
  fix a b c :: f64
  show "a + b + c = a + (b + c)" by (cases a; cases b; cases c; simp)
  show "a + b = b + a" by (cases a; cases b; simp)
  show "0 + a = a" by (cases a; simp add: zero_f64_def)
qed

end

instantiation f64 :: "{one, uminus, minus, times, inverse, ord}"
begin

definition one_f64 :: f64 where "one_f64 = Fin 1"

fun uminus_f64 :: "f64 \<Rightarrow> f64" where
  "uminus_f64 (Fin a) = Fin (- a)"
| "uminus_f64 PInf = NInf"
| "uminus_f64 NInf = PInf"
| "uminus_f64 NaN = NaN"

definition minus_f64 :: "f64 \<Rightarrow> f64 \<Rightarrow> f64" where
  "minus_f64 a b = a + (- b)"

fun times_f64 :: "f64 \<Rightarrow> f64 \<Rightarrow> f64" where
  "times_f64 (Fin a) (Fin b) = Fin (a * b)"
| "times_f64 NaN _ = NaN"
| "times_f64 _ NaN = NaN"
| "times_f64 (Fin a) PInf = (if a = 0 then NaN else if 0 < a then PInf else NInf)"
| "times_f64 (Fin a) NInf = (if a = 0 then NaN else if 0 < a then NInf else PInf)"
| "times_f64 PInf (Fin b) = (if b = 0 then NaN else if 0 < b then PInf else NInf)"
| "times_f64 NInf (Fin b) = (if b = 0 then NaN else if 0 < b then NInf else PInf)"
| "times_f64 PInf PInf = PInf"
| "times_f64 PInf NInf = NInf"
| "times_f64 NInf PInf = NInf"
| "times_f64 NInf NInf = PInf"

fun divide_f64 :: "f64 \<Rightarrow> f64 \<Rightarrow> f64" where
  "divide_f64 (Fin a) (Fin b) =
     (if b = 0 then (if a = 0 then NaN else if 0 < a then PInf else NInf) else Fin (a / b))"
| "divide_f64 NaN _ = NaN"
| "divide_f64 _ NaN = NaN"
| "divide_f64 (Fin _) _ = Fin 0"
| "divide_f64 PInf (Fin b) = (if 0 \<le> b then PInf else NInf)"
| "divide_f64 NInf (Fin b) = (if 0 \<le> b then NInf else PInf)"
| "divide_f64 _ _ = NaN"

definition inverse_f64 :: "f64 \<Rightarrow> f64" where
  "inverse_f64 a = Fin 1 div a"

fun less_f64 :: "f64 \<Rightarrow> f64 \<Rightarrow> bool" where
  "less_f64 (Fin a) (Fin b) = (a < b)"
| "less_f64 NaN _ = False"
| "less_f64 _ NaN = False"
| "less_f64 PInf _ = False"
| "less_f64 _ NInf = False"
| "less_f64 NInf _ = True"
| "less_f64 _ PInf = True"

definition less_eq_f64 :: "f64 \<Rightarrow> f64 \<Rightarrow> bool" where
  "less_eq_f64 a b \<longleftrightarrow> a < b \<or> (a \<noteq> NaN \<and> a = b)"

instance ..

end

instance f64 :: numeral ..

text \<open>\<open>a == b\<close> in Go: NaN is not equal to itself.\<close>

definition feq :: "f64 \<Rightarrow> f64 \<Rightarrow> bool" where
  "feq a b \<longleftrightarrow> a \<noteq> NaN \<and> a = b"

section \<open>Package math\<close>

fun floorF :: "f64 \<Rightarrow> f64" where
  "floorF (Fin a) = Fin (of_int \<lfloor>a\<rfloor>)"
| "floorF x = x"

fun absF :: "f64 \<Rightarrow> f64" where
  "absF (Fin a) = Fin \<bar>a\<bar>"
| "absF NaN = NaN"
| "absF _ = PInf"

text \<open>An infinity of the dominating sign wins over NaN, as the documentation of \<open>math.Max\<close> says.\<close>

fun maxF :: "f64 \<Rightarrow> f64 \<Rightarrow> f64" where
  "maxF PInf _ = PInf"
| "maxF _ PInf = PInf"
| "maxF NaN _ = NaN"
| "maxF _ NaN = NaN"
| "maxF NInf y = y"
| "maxF x NInf = x"
| "maxF (Fin a) (Fin b) = Fin (max a b)"

fun minF :: "f64 \<Rightarrow> f64 \<Rightarrow> f64" where
  "minF NInf _ = NInf"
| "minF _ NInf = NInf"
| "minF NaN _ = NaN"
| "minF _ NaN = NaN"
| "minF PInf y = y"
| "minF x PInf = x"
| "minF (Fin a) (Fin b) = Fin (min a b)"

fun sqrtF :: "f64 \<Rightarrow> f64" where
  "sqrtF (Fin a) = (if a < 0 then NaN else Fin (sqrt a))"
| "sqrtF PInf = PInf"
| "sqrtF _ = NaN"

section \<open>Simplification\<close>

text \<open>Constants are written over \<open>Fin\<close>, so that one set of equations evaluates everything.\<close>

lemma zero_f64_Fin [simp]: "(0::f64) = Fin 0"
  by (simp add: zero_f64_def)

lemma one_f64_Fin [simp]: "(1::f64) = Fin 1"
  by (simp add: one_f64_def)

lemma numeral_f64_Fin [simp]: "(numeral n :: f64) = Fin (numeral n)"
  by (induction n) (simp_all only: numeral.simps one_f64_def plus_f64.simps)

lemma minus_f64_Fin [simp]: "Fin a - Fin b = Fin (a - b)"
  by (simp add: minus_f64_def)

lemma add_Fin0 [simp]: "x + Fin 0 = x" "Fin 0 + x = x"
  by (cases x; simp)+

lemma diff_Fin0 [simp]: "x - Fin 0 = x"
  by (cases x; simp add: minus_f64_def)

lemma less_eq_f64_Fin [simp]: "Fin a \<le> Fin b \<longleftrightarrow> a \<le> b"
  by (auto simp: less_eq_f64_def)

lemma feq_Fin [simp]: "feq (Fin a) (Fin b) \<longleftrightarrow> a = b"
  by (simp add: feq_def)

lemma feq_NaN [simp]: "\<not> feq NaN x" "\<not> feq x NaN"
  by (auto simp: feq_def)

lemma less_NaN [simp]: "\<not> NaN < x" "\<not> x < NaN" "\<not> NaN \<le> x" "\<not> x \<le> NaN"
  by (cases x; simp add: less_eq_f64_def)+

lemma NaN_arith [simp]:
  "NaN + x = NaN" "x + NaN = NaN" "NaN - x = NaN" "x - NaN = NaN"
  "NaN * x = NaN" "x * NaN = NaN" "NaN / x = NaN" "x / NaN = NaN"
  by (cases x; simp add: minus_f64_def)+

lemma not_NaN_Fin: "x \<noteq> NaN \<Longrightarrow> x < Fin b \<Longrightarrow> Fin a < x \<Longrightarrow> fin x"
  by (cases x) auto

section \<open>Finite values\<close>

lemma fin_arith [simp, intro]:
  "fin x \<Longrightarrow> fin y \<Longrightarrow> fin (x + y)"
  "fin x \<Longrightarrow> fin y \<Longrightarrow> fin (x - y)"
  "fin x \<Longrightarrow> fin y \<Longrightarrow> fin (x * y)"
  "fin x \<Longrightarrow> fin (- x)"
  "fin x \<Longrightarrow> fin (floorF x)"
  "fin x \<Longrightarrow> fin (absF x)"
  by (cases x; cases y; simp)+

lemma fin_divide [simp, intro]: "fin x \<Longrightarrow> fin y \<Longrightarrow> fval y \<noteq> 0 \<Longrightarrow> fin (x / y)"
  by (cases x; cases y; simp)

lemma fval_arith [simp]:
  "fin x \<Longrightarrow> fin y \<Longrightarrow> fval (x + y) = fval x + fval y"
  "fin x \<Longrightarrow> fin y \<Longrightarrow> fval (x - y) = fval x - fval y"
  "fin x \<Longrightarrow> fin y \<Longrightarrow> fval (x * y) = fval x * fval y"
  "fval (- x) = - fval x"
  "fin x \<Longrightarrow> fin y \<Longrightarrow> fval y \<noteq> 0 \<Longrightarrow> fval (x / y) = fval x / fval y"
  by (cases x; cases y; simp)+

lemma fin_less: "fin x \<Longrightarrow> fin y \<Longrightarrow> x < y \<longleftrightarrow> fval x < fval y"
  by (cases x; cases y; simp)

lemma fin_less_eq: "fin x \<Longrightarrow> fin y \<Longrightarrow> x \<le> y \<longleftrightarrow> fval x \<le> fval y"
  by (cases x; cases y; simp)

lemma fin_feq: "fin x \<Longrightarrow> fin y \<Longrightarrow> feq x y \<longleftrightarrow> fval x = fval y"
  by (cases x; cases y; simp)

lemma fin_eq_iff: "fin x \<Longrightarrow> fin y \<Longrightarrow> x = y \<longleftrightarrow> fval x = fval y"
  by (cases x; cases y; simp)

lemmas fin_order = fin_less fin_less_eq fin_feq

lemma fin_sum_list: "(\<And>x. x \<in> set xs \<Longrightarrow> fin x) \<Longrightarrow> fin (sum_list xs)"
  by (induction xs) auto

lemma fval_sum_list: "(\<And>x. x \<in> set xs \<Longrightarrow> fin x) \<Longrightarrow> fval (sum_list xs) = sum_list (map fval xs)"
  by (induction xs) (auto simp: fin_sum_list)

text \<open>A running total \<open>for _, x := range xs { total += f(x) }\<close>.\<close>

lemma foldl_plus_f64: "foldl (\<lambda>t x. t + f x) z xs = z + sum_list (map f xs)" for z :: f64
  by (induction xs arbitrary: z) (simp_all add: add.assoc)

lemma f64_le_trans: "x \<le> y \<Longrightarrow> y \<le> z \<Longrightarrow> x \<le> z" for x :: f64
  by (cases x; cases y; cases z) (auto simp: less_eq_f64_def)

lemma f64_le_refl: "\<not> isNaN x \<Longrightarrow> x \<le> x"
  by (cases x) (auto simp: less_eq_f64_def)

lemma less_f64_inf [simp]: "\<not> PInf < x" "\<not> x < NInf"
  by (cases x; simp)+

lemma less_eq_f64_inf [simp]:
  "NInf \<le> x \<longleftrightarrow> \<not> isNaN x" "x \<le> PInf \<longleftrightarrow> \<not> isNaN x"
  "\<not> PInf \<le> Fin a" "\<not> Fin a \<le> NInf" "\<not> PInf \<le> NInf"
  by (cases x; simp add: less_eq_f64_def)+

section \<open>Values that are not negative numbers\<close>

definition nn :: "f64 \<Rightarrow> bool" where
  "nn x \<longleftrightarrow> 0 \<le> fval x"

lemma nn_simps [simp]: "nn NaN" "nn PInf" "nn NInf" "nn (Fin r) \<longleftrightarrow> 0 \<le> r"
  by (simp_all add: nn_def)

lemma nn_plus [intro]: "nn x \<Longrightarrow> nn y \<Longrightarrow> nn (x + y)"
  by (cases x; cases y) auto

lemma nn_times [intro]: "nn x \<Longrightarrow> nn y \<Longrightarrow> nn (x * y)"
  by (cases x; cases y) auto

lemma nn_divide [intro]: "nn x \<Longrightarrow> nn y \<Longrightarrow> nn (x / y)"
  by (cases x; cases y) auto

lemma nn_floor [intro]: "nn x \<Longrightarrow> nn (floorF x)" by (cases x) auto
lemma nn_abs [simp]: "nn (absF x)" by (cases x) auto
lemma nn_pos: "x > 0 \<Longrightarrow> nn x" by (cases x) auto

end
