(* ===== verification/GoTime.thy ===== *)
theory GoTime
  imports Float64
begin

text \<open>
  Package \<open>time\<close> as the program uses it. The command line, the data providers, the trading calendar
  and the engine all put their times in the location America/New\_York, and dates are read in the
  location of the value. A \<open>time.Time\<close> is therefore its reading of the New York clock, in
  nanoseconds from midnight of January 1, 1970 on that clock; \<open>Date\<close>, \<open>Clock\<close>, \<open>AddDate\<close> and date
  keys are exact on readings. \<open>Before\<close>, \<open>Sub\<close> and \<open>Add\<close> compare and shift readings, which differ from
  instants only across a change of the clock, by its hour; Unix seconds serve as keys and are shifted
  by the offset of the location. The zero \<open>time.Time\<close> is the first moment of year 1. A
  \<open>time.Duration\<close> is a 64-bit count of nanoseconds, and \<open>Sub\<close> saturates at its bounds. Calendar fields
  are computed by the proleptic Gregorian day count.
\<close>

type_synonym gotime = int

definition second_ns :: int where "second_ns = 1000000000"
definition minute_ns :: int where "minute_ns = 60 * second_ns"
definition hour_ns :: int where "hour_ns = 60 * minute_ns"
definition day_ns :: int where "day_ns = 24 * hour_ns"

lemmas ns_defs = second_ns_def minute_ns_def hour_ns_def day_ns_def

definition time_zero :: gotime where "time_zero = - (62135596800 * second_ns)"

definition time_isZero :: "gotime \<Rightarrow> bool" where "time_isZero t \<longleftrightarrow> t = time_zero"

definition max_duration :: int where "max_duration = 2 ^ 63 - 1"
definition min_duration :: int where "min_duration = - (2 ^ 63)"

definition time_sub :: "gotime \<Rightarrow> gotime \<Rightarrow> int" where
  "time_sub t u = max min_duration (min max_duration (t - u))"

definition duration_hours :: "int \<Rightarrow> f64" where
  "duration_hours d = Fin (of_int d / of_int hour_ns)"

lemma fin_duration_hours [simp]: "fin (duration_hours d)"
  by (simp add: duration_hours_def)

section \<open>Calendar\<close>

definition days_of :: "gotime \<Rightarrow> int" where "days_of t = t div day_ns"

definition clock_of :: "gotime \<Rightarrow> int" where "clock_of t = t mod day_ns"

text \<open>\<open>Time.Date\<close>: year, month and day of a day count.\<close>

definition civil_of_days :: "int \<Rightarrow> int \<times> int \<times> int" where
  "civil_of_days days =
     (let z = days + 719468;
          era = z div 146097;
          doe = z mod 146097;
          n100 = min 3 (doe div 36524);
          doc = doe - 36524 * n100;
          n4 = doc div 1461;
          doq = doc mod 1461;
          n1 = min 3 (doq div 365);
          doy = doq - 365 * n1;
          mp = (5 * doy + 2) div 153;
          d = doy - (153 * mp + 2) div 5 + 1;
          m = (if mp < 10 then mp + 3 else mp - 9);
          y = 400 * era + 100 * n100 + 4 * n4 + n1 + (if m \<le> 2 then 1 else 0)
      in (y, m, d))"

definition time_date :: "gotime \<Rightarrow> int \<times> int \<times> int" where
  "time_date t = civil_of_days (days_of t)"

text \<open>
  \<open>time.Date\<close>: the day count of a date whose month and day may lie outside their ranges and
  are normalised, as the documentation of \<open>time.Date\<close> says.
\<close>

definition days_of_civil :: "int \<Rightarrow> int \<Rightarrow> int \<Rightarrow> int" where
  "days_of_civil y0 m0 d =
     (let y1 = y0 + (m0 - 1) div 12;
          m = (m0 - 1) mod 12 + 1;
          y = (if m \<le> 2 then y1 - 1 else y1);
          era = y div 400;
          yoe = y mod 400;
          mp = (m + 9) mod 12;
          doy = (153 * mp + 2) div 5 + d - 1;
          doe = yoe * 365 + yoe div 4 - yoe div 100 + doy
      in era * 146097 + doe - 719468)"

definition time_addDate :: "gotime \<Rightarrow> int \<Rightarrow> int \<Rightarrow> int \<Rightarrow> gotime" where
  "time_addDate t years months days =
     (case time_date t of (y, m, d) \<Rightarrow>
        days_of_civil (y + years) (m + months) (d + days) * day_ns + clock_of t)"

definition time_weekday :: "gotime \<Rightarrow> int" where
  "time_weekday t = (days_of t + 4) mod 7"

text \<open>\<open>dateKey\<close> of data/data\_frame.go.\<close>

definition dateKey :: "gotime \<Rightarrow> int" where
  "dateKey t = (case time_date t of (y, m, d) \<Rightarrow> y * 10000 + m * 100 + d)"

lemma dateKey_same_day: "days_of t = days_of u \<Longrightarrow> dateKey t = dateKey u"
  by (simp add: dateKey_def time_date_def)

lemma time_sub_exact:
  "min_duration \<le> t - u \<Longrightarrow> t - u \<le> max_duration \<Longrightarrow> time_sub t u = t - u"
  by (simp add: time_sub_def)

lemma time_sub_mono: "t \<le> t' \<Longrightarrow> time_sub t u \<le> time_sub t' u"
  by (auto simp: time_sub_def)

lemma days_of_civil_day: "days_of_civil y m (d + k) = days_of_civil y m d + k"
  by (simp add: days_of_civil_def Let_def)

section \<open>Dates and day counts\<close>

text \<open>A date computed from a day count names that day again, so adding days to a date adds days to the instant.\<close>

lemma days_of_civil_march:
  assumes "0 \<le> n100" "n100 \<le> 3" "0 \<le> n4" "n4 \<le> 24" "0 \<le> n1" "n1 \<le> 3" "0 \<le> mp" "mp \<le> 11"
  shows "days_of_civil (400 * era + 100 * n100 + 4 * n4 + n1 + (if (if mp < 10 then mp + 3 else mp - 9) \<le> 2 then 1 else 0))
      (if mp < 10 then mp + 3 else mp - 9) d
    = 146097 * era + 36524 * n100 + 1461 * n4 + 365 * n1 + (153 * mp + 2) div 5 + d - 1 - 719468"
proof -
  let ?yoe = "100 * n100 + 4 * n4 + n1"
  have y: "0 \<le> ?yoe" "?yoe < 400" using assms by linarith+
  have q: "?yoe div 4 = 25 * n100 + n4" "?yoe div 100 = n100"
  proof -
    have "?yoe = n1 + 4 * (25 * n100 + n4)" "?yoe = (4 * n4 + n1) + 100 * n100" by simp_all
    moreover have "(n1 + 4 * (25 * n100 + n4)) div 4 = 25 * n100 + n4" using assms by (subst div_mult_self2) auto
    moreover have "((4 * n4 + n1) + 100 * n100) div 100 = n100" using assms by (subst div_mult_self2) auto
    ultimately show "?yoe div 4 = 25 * n100 + n4" "?yoe div 100 = n100" by presburger+
  qed
  have e: "(400 * era + ?yoe) div 400 = era" "(400 * era + ?yoe) mod 400 = ?yoe" using y by simp_all
  show ?thesis
  proof (cases "mp < 10")
    case True
    then have m: "(mp + 3 - 1) div 12 = 0" "(mp + 3 - 1) mod 12 + 1 = mp + 3" "(mp + 3 + 9) mod 12 = mp" "\<not> mp + 3 \<le> 2"
      using assms by simp_all
    show ?thesis using True m e q by (simp add: days_of_civil_def Let_def add.assoc)
  next
    case False
    then have m: "(mp - 9 - 1) div 12 = 0" "(mp - 9 - 1) mod 12 + 1 = mp - 9" "(mp - 9 + 9) mod 12 = mp" "mp - 9 \<le> 2"
      using assms by simp_all
    show ?thesis using False m e q by (simp add: days_of_civil_def Let_def add.assoc)
  qed
qed

lemma days_of_civil_of_days: "(case civil_of_days n of (y, m, d) \<Rightarrow> days_of_civil y m d) = n"
proof -
  define z era doe where "z = n + 719468" and "era = z div 146097" and "doe = z mod 146097"
  define n100 doc where "n100 = min 3 (doe div 36524)" and "doc = doe - 36524 * n100"
  define n4 doq where "n4 = doc div 1461" and "doq = doc mod 1461"
  define n1 doy where "n1 = min 3 (doq div 365)" and "doy = doq - 365 * n1"
  define mp where "mp = (5 * doy + 2) div 153"
  have doe: "0 \<le> doe" "doe < 146097" "z = 146097 * era + doe" by (simp_all add: doe_def era_def)
  have a: "0 \<le> n100" "n100 \<le> 3" using doe by (simp_all add: n100_def)
  have doc: "0 \<le> doc" "doc \<le> 36524" using doe by (auto simp: doc_def n100_def min_def)
  have b: "0 \<le> n4" "n4 \<le> 24" "0 \<le> doq" "doq \<le> 1460" "doc = 1461 * n4 + doq" using doc by (auto simp: n4_def doq_def)
  have c: "0 \<le> n1" "n1 \<le> 3" "0 \<le> doy" "doy \<le> 365" using b by (auto simp: n1_def doy_def min_def)
  have d: "0 \<le> mp" "mp \<le> 11" using c by (auto simp: mp_def)
  have "civil_of_days n = (400 * era + 100 * n100 + 4 * n4 + n1 + (if (if mp < 10 then mp + 3 else mp - 9) \<le> 2 then 1 else 0),
      if mp < 10 then mp + 3 else mp - 9, doy - (153 * mp + 2) div 5 + 1)"
    unfolding civil_of_days_def Let_def mp_def doy_def n1_def doq_def n4_def doc_def n100_def doe_def era_def z_def by (rule refl)
  then show ?thesis using days_of_civil_march [OF a b(1,2) c(1,2) d, of era "doy - (153 * mp + 2) div 5 + 1"]
      b(5) doe(3) by (simp add: doy_def doc_def z_def)
qed


lemma time_split: "days_of t * day_ns + clock_of t = t"
  by (simp add: days_of_def clock_of_def)

lemma time_addDate_days: "time_addDate t 0 0 k = t + k * day_ns"
proof -
  obtain y m d where ymd: "time_date t = (y, m, d)" by (metis prod_cases3)
  have "days_of_civil y m d = days_of t"
    using days_of_civil_of_days [of "days_of t"] ymd by (simp add: time_date_def)
  then show ?thesis using ymd time_split [of t] by (simp add: time_addDate_def days_of_civil_day algebra_simps)
qed

section \<open>Date keys order like days\<close>

lemma digit_less:
  fixes x x' b k :: int
  assumes "0 < b" "x < x'" "q = min k (x div b)" "q' = min k (x' div b)"
  shows "q < q' \<or> q = q' \<and> x - b * q < x' - b * q'"
proof -
  have "x div b \<le> x' div b" using assms(1,2) by (simp add: zdiv_mono1)
  then show ?thesis using assms(2,3,4) by (auto simp: min_def)
qed

lemma div_less:
  fixes x x' b :: int
  assumes "0 < b" "x < x'"
  shows "x div b < x' div b \<or> x div b = x' div b \<and> x mod b < x' mod b"
proof -
  have "x div b \<le> x' div b" using assms by (simp add: zdiv_mono1)
  moreover have "x mod b < x' mod b" if "x div b = x' div b"
  proof -
    have "x = b * (x div b) + x mod b" "x' = b * (x div b) + x' mod b" using mult_div_mod_eq that by metis+
    then show ?thesis using assms(2) by linarith
  qed
  ultimately show ?thesis by auto
qed

definition key_of_days :: "int \<Rightarrow> int" where
  "key_of_days n = (case civil_of_days n of (y, m, d) \<Rightarrow> y * 10000 + m * 100 + d)"

lemma key_of_days_less:
  assumes "n < n'"
  shows "key_of_days n < key_of_days n'"
proof -
  define era where "era = (\<lambda>n :: int. (n + 719468) div 146097)"
  define doe where "doe = (\<lambda>n :: int. (n + 719468) mod 146097)"
  define n100 where "n100 = (\<lambda>n. min 3 (doe n div 36524))"
  define doc where "doc = (\<lambda>n. doe n - 36524 * n100 n)"
  define n4 where "n4 = (\<lambda>n. doc n div 1461)"
  define doq where "doq = (\<lambda>n. doc n mod 1461)"
  define n1 where "n1 = (\<lambda>n. min 3 (doq n div 365))"
  define doy where "doy = (\<lambda>n. doq n - 365 * n1 n)"
  define mp where "mp = (\<lambda>n. (5 * doy n + 2) div 153)"
  define d where "d = (\<lambda>n. doy n - (153 * mp n + 2) div 5 + 1)"
  define Y where "Y = (\<lambda>n. 400 * era n + 100 * n100 n + 4 * n4 n + n1 n)"
  have bounds: "0 \<le> n100 n" "n100 n \<le> 3" "0 \<le> n4 n" "n4 n \<le> 24" "0 \<le> n1 n" "n1 n \<le> 3" "0 \<le> doy n" "doy n \<le> 365" for n
  proof -
    have doe: "0 \<le> doe n" "doe n < 146097" by (simp_all add: doe_def)
    have doc: "0 \<le> doc n" "doc n \<le> 36524" using doe by (auto simp: doc_def n100_def min_def)
    have b: "0 \<le> doq n" "doq n \<le> 1460" by (simp_all add: doq_def)
    show "0 \<le> n100 n" "n100 n \<le> 3" using doe by (simp_all add: n100_def)
    show "0 \<le> n4 n" "n4 n \<le> 24" using doc by (auto simp: n4_def)
    show "0 \<le> n1 n" "n1 n \<le> 3" "0 \<le> doy n" "doy n \<le> 365" using b by (auto simp: n1_def doy_def min_def)
  qed
  have mpd: "0 \<le> mp n" "mp n \<le> 11" "1 \<le> d n" "d n \<le> 31" for n
  proof -
    define r q where "r = (5 * doy n + 2) mod 153" and "q = (153 * mp n + 2) div 5"
    have r: "0 \<le> r" "r \<le> 152" "5 * doy n + 2 = 153 * mp n + r" by (simp_all add: r_def mp_def)
    have q: "5 * q \<le> 153 * mp n + 2" "153 * mp n + 2 < 5 * q + 5" unfolding q_def by presburger+
    have dq: "d n = doy n - q + 1" by (simp add: d_def q_def)
    show "0 \<le> mp n" "mp n \<le> 11" using bounds(7,8) [of n] by (simp_all add: mp_def)
    have five: "0 \<le> x \<and> x \<le> 30" if "- 4 \<le> 5 * x" "5 * x \<le> 152" for x :: int using that by presburger
    have "0 \<le> doy n - q \<and> doy n - q \<le> 30" using five [of "doy n - q"] r q by (simp add: right_diff_distrib)
    then show "1 \<le> d n" "d n \<le> 31" using dq by simp_all
  qed
  have key: "key_of_days n = Y n * 10000 + (if mp n < 10 then (mp n + 3) * 100 else 10000 + (mp n - 9) * 100) + d n" for n
  proof -
    have "civil_of_days n = (Y n + (if (if mp n < 10 then mp n + 3 else mp n - 9) \<le> 2 then 1 else 0), if mp n < 10 then mp n + 3 else mp n - 9, d n)"
      unfolding civil_of_days_def Let_def Y_def d_def mp_def doy_def n1_def doq_def n4_def doc_def n100_def doe_def era_def by (rule refl)
    then show ?thesis using mpd(1,2) [of n] by (simp add: key_of_days_def)
  qed
  have "Y n < Y n' \<or> Y n = Y n' \<and> doy n < doy n'"
  proof -
    have "era n < era n' \<or> era n = era n' \<and> doe n < doe n'"
      unfolding era_def doe_def using assms by (intro div_less) auto
    moreover have "n100 n < n100 n' \<or> n100 n = n100 n' \<and> doc n < doc n'" if "doe n < doe n'"
      unfolding doc_def by (rule digit_less [OF _ that]) (simp_all add: n100_def)
    moreover have "n4 n < n4 n' \<or> n4 n = n4 n' \<and> doq n < doq n'" if "doc n < doc n'"
      unfolding n4_def doq_def by (rule div_less [OF _ that]) simp
    moreover have "n1 n < n1 n' \<or> n1 n = n1 n' \<and> doy n < doy n'" if "doq n < doq n'"
      unfolding doy_def by (rule digit_less [OF _ that]) (simp_all add: n1_def)
    ultimately consider "era n < era n'" | "era n = era n'" "n100 n < n100 n'" | "era n = era n'" "n100 n = n100 n'" "n4 n < n4 n'"
      | "era n = era n'" "n100 n = n100 n'" "n4 n = n4 n'" "n1 n < n1 n'"
      | "era n = era n'" "n100 n = n100 n'" "n4 n = n4 n'" "n1 n = n1 n'" "doy n < doy n'" by blast
    then show ?thesis using bounds [of n] bounds [of n'] by cases (simp_all add: Y_def)
  qed
  then show ?thesis
  proof
    assume "Y n < Y n'"
    then show ?thesis using mpd [of n] mpd [of n'] by (auto simp: key)
  next
    assume e: "Y n = Y n' \<and> doy n < doy n'"
    have "mp n \<le> mp n'" unfolding mp_def using e by (intro zdiv_mono1) auto
    moreover have "d n < d n'" if "mp n = mp n'" using e that by (simp add: d_def)
    ultimately show ?thesis using e mpd [of n] mpd [of n'] by (cases "mp n = mp n'") (auto simp: key)
  qed
qed

lemma dateKey_less_iff: "dateKey t < dateKey u \<longleftrightarrow> days_of t < days_of u"
  and dateKey_le_iff: "dateKey t \<le> dateKey u \<longleftrightarrow> days_of t \<le> days_of u"
  and dateKey_eq_iff: "dateKey t = dateKey u \<longleftrightarrow> days_of t = days_of u"
proof -
  have k: "dateKey t = key_of_days (days_of t)" for t by (simp add: dateKey_def key_of_days_def time_date_def)
  show "dateKey t < dateKey u \<longleftrightarrow> days_of t < days_of u" "dateKey t \<le> dateKey u \<longleftrightarrow> days_of t \<le> days_of u"
    "dateKey t = dateKey u \<longleftrightarrow> days_of t = days_of u"
    using key_of_days_less [of "days_of t" "days_of u"] key_of_days_less [of "days_of u" "days_of t"]
    by (cases "days_of t" "days_of u" rule: linorder_cases; force simp: k)+
qed

lemma dateKey_mono: "t \<le> u \<Longrightarrow> dateKey t \<le> dateKey u"
  by (simp add: dateKey_le_iff days_of_def zdiv_mono1 day_ns_def hour_ns_def minute_ns_def second_ns_def)

section \<open>Month arithmetic\<close>

text \<open>The first day of a month, months counted from March of year 0, as a day count.\<close>

definition year_start :: "int \<Rightarrow> int" where
  "year_start Y = 365 * Y + Y div 4 - Y div 100 + Y div 400 - 719468"

definition month_start :: "int \<Rightarrow> int" where
  "month_start M = year_start (M div 12) + (153 * (M mod 12) + 2) div 5"

lemma days_of_civil_month: "days_of_civil y m d = month_start (12 * y + m - 3) + d - 1"
proof -
  define r where "r = (m - 1) mod 12"
  define k where "k = (m - 1) div 12"
  have m: "m - 1 = 12 * k + r" "0 \<le> r" "r < 12" by (simp_all add: r_def k_def)
  define Y where "Y = (if r + 1 \<le> 2 then y + k - 1 else y + k)"
  define mp where "mp = (r + 10) mod 12"
  have M: "12 * y + m - 3 = 12 * Y + mp"
  proof (cases "r < 2")
    case True
    then have "mp = r + 10" using m by (simp add: mp_def)
    then show ?thesis using True m by (simp add: Y_def)
  next
    case False
    have "(r - 2 + 12) mod 12 = r - 2" using False m by (subst mod_add_self2) simp
    then have "mp = r - 2" by (simp add: mp_def add.commute)
    then show ?thesis using False m by (simp add: Y_def)
  qed
  have mp: "0 \<le> mp" "mp < 12" by (simp_all add: mp_def)
  have dm: "(12 * y + m - 3) div 12 = Y" "(12 * y + m - 3) mod 12 = mp" using mp by (simp_all add: M)
  define e q where "e = Y div 400" and "q = Y mod 400"
  have Y: "Y = 400 * e + q" "0 \<le> q" "q < 400" by (simp_all add: e_def q_def)
  have div: "Y div 4 = 100 * e + q div 4" "Y div 100 = 4 * e + q div 100"
  proof -
    have "Y div 4 = (q + 4 * (100 * e)) div 4" "Y div 100 = (q + 100 * (4 * e)) div 100" by (simp_all add: Y)
    then show "Y div 4 = 100 * e + q div 4" "Y div 100 = 4 * e + q div 100" by (simp_all del: div_mult_self1 div_mult_self2 add: div_mult_self2)
  qed
  have "days_of_civil y m d = e * 146097 + (q * 365 + q div 4 - q div 100 + ((153 * mp + 2) div 5 + d - 1)) - 719468"
    unfolding days_of_civil_def Let_def r_def [symmetric] k_def [symmetric]
    by (simp add: Y_def e_def q_def mp_def ac_simps)
  also have "\<dots> = month_start (12 * y + m - 3) + d - 1"
    unfolding month_start_def dm year_start_def div e_def [symmetric] by (simp add: Y(1))
  finally show ?thesis .
qed

lemma zdiv_zmod_step:
  fixes b x :: int
  assumes "0 < b"
  shows "(if x mod b = b - 1 then (x + 1) div b = x div b + 1 \<and> (x + 1) mod b = 0
     else (x + 1) div b = x div b \<and> (x + 1) mod b = x mod b + 1)"
proof -
  have x: "x + 1 = b * (x div b) + (x mod b + 1)" by simp
  have r: "0 \<le> x mod b" "x mod b < b" using assms by simp_all
  show ?thesis
  proof (cases "x mod b = b - 1")
    case True
    then have "x + 1 = b * (x div b + 1) + 0" using x by (simp add: distrib_left)
    then show ?thesis using True assms int_div_pos_eq int_mod_pos_eq by (metis order_refl)
  next
    case False
    then show ?thesis using x r int_div_pos_eq [OF x] int_mod_pos_eq [OF x] by simp
  qed
qed

lemma year_start_step: "year_start (Y + 1) \<ge> year_start Y + 365"
proof -
  have "(Y + 1) div 4 - (Y + 1) div 100 \<ge> Y div 4 - Y div 100"
  proof (cases "(Y + 1) mod 100 = 0")
    case True
    then obtain c where c: "Y + 1 = 100 * c" using mod_0_imp_dvd by blast
    have "Y div 4 = 25 * c - 1" "Y div 100 = c - 1" "(Y + 1) div 4 = 25 * c"
      using c by (auto intro: int_div_pos_eq [where r = 3] int_div_pos_eq [where r = 99])
    then show ?thesis using c by simp
  next
    case False
    then have "(Y + 1) div 100 = Y div 100" using zdiv_zmod_step [of 100 Y] by (auto split: if_splits)
    then show ?thesis by (simp add: zdiv_mono1)
  qed
  moreover have "(Y + 1) div 400 \<ge> Y div 400" by (simp add: zdiv_mono1)
  ultimately show ?thesis by (simp add: year_start_def)
qed

lemma month_start_step: "month_start (M + 1) \<ge> month_start M + 28"
proof (cases "M mod 12 = 11")
  case True
  then have "(M + 1) div 12 = M div 12 + 1" "(M + 1) mod 12 = 0" using zdiv_zmod_step [of 12 M] by auto
  then show ?thesis using year_start_step [of "M div 12"] by (simp add: month_start_def True)
next
  case False
  then have "(M + 1) div 12 = M div 12" "(M + 1) mod 12 = M mod 12 + 1" using zdiv_zmod_step [of 12 M] by auto
  moreover have "(153 * (x + 1) + 2) div 5 \<ge> (153 * x + 2) div 5 + 28" for x :: int
  proof -
    have "(153 * x + 2 + 30 * 5) div 5 \<le> (153 * (x + 1) + 2) div 5" by (rule zdiv_mono1) simp_all
    moreover have "(153 * x + 2 + 30 * 5) div 5 = 30 + (153 * x + 2) div 5" by (rule div_mult_self1) simp
    ultimately show ?thesis by simp
  qed
  ultimately show ?thesis by (simp add: month_start_def)
qed

lemma month_start_mono: "0 \<le> k \<Longrightarrow> month_start (M + k) \<ge> month_start M + 28 * k"
proof (induction k rule: int_ge_induct)
  case (step k)
  then show ?case using month_start_step [of "M + k"] by (simp add: add.assoc algebra_simps)
qed simp

lemma time_addDate_months:
  assumes "0 \<le> years" "0 \<le> months"
  shows "time_addDate t years months 0 \<ge> t + 28 * (12 * years + months) * day_ns"
proof -
  obtain y m d where ymd: "time_date t = (y, m, d)" by (metis prod_cases3)
  have t: "month_start (12 * y + m - 3) + d - 1 = days_of t"
    using days_of_civil_of_days [of "days_of t"] ymd by (simp add: time_date_def days_of_civil_month)
  have "month_start (12 * y + m - 3 + (12 * years + months)) \<ge> month_start (12 * y + m - 3) + 28 * (12 * years + months)"
    by (rule month_start_mono) (use assms in simp)
  then have "days_of_civil (y + years) (m + months) d \<ge> days_of t + 28 * (12 * years + months)"
    using t by (simp add: days_of_civil_month algebra_simps)
  then have "days_of_civil (y + years) (m + months) d * day_ns \<ge> (days_of t + 28 * (12 * years + months)) * day_ns"
    by (rule mult_right_mono) (simp add: day_ns_def hour_ns_def minute_ns_def second_ns_def)
  then show ?thesis using time_split [of t] by (simp add: time_addDate_def ymd distrib_right)
qed

section \<open>Calendar years\<close>

text \<open>The calendar year of a day lies between two firsts of January.\<close>

lemma month_start_split: "0 \<le> r \<Longrightarrow> r < 12 \<Longrightarrow> month_start (12 * Y + r) = year_start Y + (153 * r + 2) div 5"
  by (simp add: month_start_def)

lemma civil_of_days_march:
  "\<exists>y m d doy. civil_of_days n = (y, m, d) \<and> 0 \<le> doy \<and> doy \<le> 365
     \<and> (3 \<le> m \<and> m \<le> 12 \<and> doy < 306 \<and> n = year_start y + doy \<or> 1 \<le> m \<and> m \<le> 2 \<and> 306 \<le> doy \<and> n = year_start (y - 1) + doy)"
proof -
  define doe where "doe = (n + 719468) mod 146097"
  define n100 doc where "n100 = min 3 (doe div 36524)" and "doc = doe - 36524 * n100"
  define doq where "doq = doc mod 1461"
  define n1 doy where "n1 = min 3 (doq div 365)" and "doy = doq - 365 * n1"
  define mp where "mp = (5 * doy + 2) div 153"
  define m d where "m = (if mp < 10 then mp + 3 else mp - 9)" and "d = doy - (153 * mp + 2) div 5 + 1"
  define y where "y = 400 * ((n + 719468) div 146097) + 100 * n100 + 4 * (doc div 1461) + n1 + (if m \<le> 2 then 1 else 0)"
  have c: "civil_of_days n = (y, m, d)"
    unfolding civil_of_days_def Let_def y_def m_def d_def mp_def doy_def n1_def doq_def doc_def n100_def doe_def by (rule refl)
  note md = m_def d_def
  have b: "0 \<le> doq" "doq \<le> 1460" by (simp_all add: doq_def)
  have y: "0 \<le> doy" "doy \<le> 365" using b by (auto simp: n1_def doy_def min_def)
  have mp: "0 \<le> mp" "mp \<le> 11" using y by (auto simp: mp_def)
  have lt: "mp < 10 \<longleftrightarrow> doy < 306" unfolding mp_def by (auto simp: div_less_iff_less_mult) 
  have n: "n = month_start (12 * y + m - 3) + d - 1"
    using days_of_civil_of_days [of n] c by (simp add: days_of_civil_month)
  have "month_start (12 * y + mp) = year_start y + (153 * mp + 2) div 5" "month_start (12 * (y - 1) + mp) = year_start (y - 1) + (153 * mp + 2) div 5"
    using mp by (simp_all only: month_start_split)
  then have "if mp < 10 then n = year_start y + doy else n = year_start (y - 1) + doy"
    using n md by (auto simp: algebra_simps)
  then show ?thesis using c y mp md(1) lt by (intro exI [of _ y] exI [of _ m] exI [of _ d] exI [of _ doy]) (auto split: if_splits)
qed

lemma jan1_year_start: "days_of_civil y 1 1 = year_start (y - 1) + 306"
  using month_start_split [of 10 "y - 1"] by (simp add: days_of_civil_month)

lemma jan1_mono:
  assumes "x < z"
  shows "days_of_civil x 1 1 < days_of_civil z 1 1"
proof -
  have step: "days_of_civil x 1 1 < days_of_civil (x + 1) 1 1" for x
    using year_start_step [of "x - 1"] by (simp add: jan1_year_start)
  show ?thesis using assms by (induction rule: int_gr_induct) (use step in \<open>auto intro: less_trans\<close>)
qed

lemma jan1_le: "x \<le> z \<Longrightarrow> days_of_civil x 1 1 \<le> days_of_civil z 1 1"
  using jan1_mono [of x z] by (cases "x = z") auto

lemma civil_year:
  "fst (civil_of_days n) = y \<longleftrightarrow> days_of_civil y 1 1 \<le> n \<and> n < days_of_civil (y + 1) 1 1"
proof -
  define z where "z = fst (civil_of_days n)"
  have z: "days_of_civil z 1 1 \<le> n \<and> n < days_of_civil (z + 1) 1 1"
    using civil_of_days_march [of n] year_start_step [of "z - 1"] by (auto simp: z_def jan1_year_start)
  show ?thesis unfolding z_def [symmetric]
    using z jan1_le [of "z + 1" y] jan1_le [of "y + 1" z] by (cases z y rule: linorder_cases) auto
qed

text \<open>Years and months counted from March of the year 0.\<close>

lemma year_start_digits:
  assumes "0 \<le> a" "a \<le> 3" "0 \<le> b" "b \<le> 24" "0 \<le> c" "c \<le> 3"
  shows "year_start (400 * e + 100 * a + 4 * b + c) = 146097 * e + 36524 * a + 1461 * b + 365 * c - 719468"
proof -
  have "(400 * e + 100 * a + 4 * b + c) div 4 = 100 * e + 25 * a + b"
    by (rule int_div_pos_eq [where r = c]) (use assms in simp_all)
  moreover have "(400 * e + 100 * a + 4 * b + c) div 100 = 4 * e + a"
    by (rule int_div_pos_eq [where r = "4 * b + c"]) (use assms in simp_all)
  moreover have "(400 * e + 100 * a + 4 * b + c) div 400 = e"
    by (rule int_div_pos_eq [where r = "100 * a + 4 * b + c"]) (use assms in simp_all)
  ultimately show ?thesis by (simp add: year_start_def)
qed

lemma civil_march:
  "\<exists>Y doy. 0 \<le> doy \<and> doy \<le> 365 \<and> n = year_start Y + doy \<and> n < year_start (Y + 1)
     \<and> (let mp = (5 * doy + 2) div 153 in civil_of_days n
        = (Y + (if mp < 10 then 0 else 1), if mp < 10 then mp + 3 else mp - 9, doy - (153 * mp + 2) div 5 + 1))"
proof -
  define era doe where "era = (n + 719468) div 146097" and "doe = (n + 719468) mod 146097"
  define n100 doc where "n100 = min 3 (doe div 36524)" and "doc = doe - 36524 * n100"
  define n4 doq where "n4 = doc div 1461" and "doq = doc mod 1461"
  define n1 doy where "n1 = min 3 (doq div 365)" and "doy = doq - 365 * n1"
  define mp where "mp = (5 * doy + 2) div 153"
  define Y where "Y = 400 * era + 100 * n100 + 4 * n4 + n1"
  have doe: "0 \<le> doe" "doe < 146097" "n + 719468 = 146097 * era + doe" by (simp_all add: doe_def era_def)
  have a: "0 \<le> n100" "n100 \<le> 3" using doe by (simp_all add: n100_def)
  have doc: "0 \<le> doc" "doc \<le> 36524" "n100 < 3 \<longrightarrow> doc < 36524" using doe by (auto simp: doc_def n100_def min_def)
  have b: "0 \<le> n4" "n4 \<le> 24" "0 \<le> doq" "doq \<le> 1460" "doc = 1461 * n4 + doq" using doc by (auto simp: n4_def doq_def)
  have c: "0 \<le> n1" "n1 \<le> 3" "0 \<le> doy" "doy \<le> 365" "n1 < 3 \<longrightarrow> doy < 365" using b by (auto simp: n1_def doy_def min_def)
  have ys: "n = year_start Y + doy"
    unfolding Y_def year_start_digits [OF a b(1,2) c(1,2)] using doe(3) b(5) by (simp add: doy_def doc_def)
  have nx: "n < year_start (Y + 1)"
  proof (cases "n1 < 3")
    case True
    then have "year_start (Y + 1) = year_start Y + 365"
      unfolding Y_def using year_start_digits [OF a b(1,2), of "n1 + 1" era] year_start_digits [OF a b(1,2) c(1,2)] c by (simp add: add.assoc)
    then show ?thesis using ys c True by simp
  next
    case False
    then have n1: "n1 = 3" using c by simp
    consider "n4 < 24" | "n4 = 24" "n100 < 3" | "n4 = 24" "n100 = 3" using a b by linarith
    then show ?thesis
    proof cases
      case 1
      then have "year_start (Y + 1) = year_start Y + 366"
        unfolding Y_def using year_start_digits [OF a, of "n4 + 1" 0 era] year_start_digits [OF a b(1,2) c(1,2)] b n1 by (simp add: add.assoc)
      then show ?thesis using ys c by simp
    next
      case 2
      then have "year_start (Y + 1) = year_start Y + 365"
        unfolding Y_def using year_start_digits [of "n100 + 1" 0 0 era] year_start_digits [OF a b(1,2) c(1,2)] a n1 by (simp add: add.assoc)
      moreover have "doy < 365" using 2 doc b n1 by (simp add: doy_def)
      ultimately show ?thesis using ys by simp
    next
      case 3
      then have "year_start (Y + 1) = year_start Y + 366"
        unfolding Y_def using year_start_digits [of 0 0 0 "era + 1"] year_start_digits [OF a b(1,2) c(1,2)] n1 by (simp add: add.assoc distrib_left)
      then show ?thesis using ys c by simp
    qed
  qed
  have mp: "0 \<le> mp" "mp \<le> 11" using c by (auto simp: mp_def)
  have "civil_of_days n = (400 * era + 100 * n100 + 4 * n4 + n1 + (if (if mp < 10 then mp + 3 else mp - 9) \<le> 2 then 1 else 0),
      if mp < 10 then mp + 3 else mp - 9, doy - (153 * mp + 2) div 5 + 1)"
    unfolding civil_of_days_def Let_def mp_def doy_def n1_def doq_def n4_def doc_def n100_def doe_def era_def by (rule refl)
  then have "civil_of_days n = (Y + (if mp < 10 then 0 else 1), if mp < 10 then mp + 3 else mp - 9, doy - (153 * mp + 2) div 5 + 1)"
    using mp by (simp add: Y_def)
  then show ?thesis using c(3,4) ys nx unfolding mp_def Let_def by blast
qed

text \<open>The month of a day, counted from March of the year 0, and the day within it.\<close>

lemma civil_month:
  assumes "civil_of_days n = (y, m, d)"
  shows "1 \<le> m" "m \<le> 12" "month_start (12 * y + m - 3) \<le> n" "n < month_start (12 * y + m - 2)" "d = n - month_start (12 * y + m - 3) + 1"
proof -
  obtain Y doy where Y: "0 \<le> doy" "doy \<le> 365" "n = year_start Y + doy" "n < year_start (Y + 1)"
    and c: "civil_of_days n = (let mp = (5 * doy + 2) div 153 in (Y + (if mp < 10 then 0 else 1), if mp < 10 then mp + 3 else mp - 9, doy - (153 * mp + 2) div 5 + 1))"
    using civil_march [of n] by (auto simp: Let_def)
  define mp q q' where "mp = (5 * doy + 2) div 153" and "q = (153 * mp + 2) div 5" and "q' = (153 * (mp + 1) + 2) div 5"
  have mp: "153 * mp \<le> 5 * doy + 2" "5 * doy + 2 < 153 * mp + 153" "0 \<le> mp" "mp \<le> 11" unfolding mp_def using Y(1,2) by simp_all
  have dq: "5 * q \<le> 153 * mp + 2" "153 * mp + 155 < 5 * q' + 5" unfolding q_def q'_def by simp_all
  have q: "q \<le> doy" using dq(1) mp(1) by linarith
  have q': "doy < q'" using dq(2) mp(2) by linarith
  have ymd: "y = Y + (if mp < 10 then 0 else 1)" "m = (if mp < 10 then mp + 3 else mp - 9)" "d = doy - q + 1"
    using assms c unfolding mp_def q_def Let_def by auto
  have M: "12 * y + m - 3 = 12 * Y + mp" using ymd by simp
  show "1 \<le> m" "m \<le> 12" using ymd mp by simp_all
  have s: "month_start (12 * y + m - 3) = year_start Y + q"
    unfolding M using month_start_split [of mp Y] mp by (simp add: q_def)
  show "month_start (12 * y + m - 3) \<le> n" "d = n - month_start (12 * y + m - 3) + 1" using s q Y ymd by simp_all
  show "n < month_start (12 * y + m - 2)"
  proof (cases "mp = 11")
    case True
    then have "12 * y + m - 2 = 12 * (Y + 1) + 0" using M by simp
    then have "month_start (12 * y + m - 2) = year_start (Y + 1)" by (simp only:) (subst month_start_split, simp_all)
    then show ?thesis using Y(4) by simp
  next
    case False
    then have r: "0 \<le> mp + 1" "mp + 1 < 12" using mp(3,4) by simp_all
    have M': "12 * y + m - 2 = 12 * Y + (mp + 1)" using M by simp
    have "month_start (12 * y + m - 2) = year_start Y + q'" unfolding M' month_start_split [OF r] q'_def by (rule refl)
    then show ?thesis using q' Y(3) by linarith
  qed
qed

lemma month_start_le: "M \<le> N \<Longrightarrow> month_start M \<le> month_start N"
  using month_start_mono [of "N - M" M] by simp

lemma civil_month_iff:
  assumes "civil_of_days n = (y, m, d)"
  shows "month_start M \<le> n \<and> n < month_start (M + 1) \<longleftrightarrow> M = 12 * y + m - 3"
proof
  assume b: "month_start M \<le> n \<and> n < month_start (M + 1)"
  show "M = 12 * y + m - 3"
  proof (rule ccontr)
    assume "M \<noteq> 12 * y + m - 3"
    then consider "M + 1 \<le> 12 * y + m - 3" | "12 * y + m - 2 \<le> M" by linarith
    then show False
    proof cases
      case 1
      then show False using b civil_month(3) [OF assms] month_start_le [OF 1] by linarith
    next
      case 2
      then show False using b civil_month(4) [OF assms] month_start_le [OF 2] by linarith
    qed
  qed
qed (use civil_month(3,4) [OF assms] in simp)

end
