(* ===== verification/Assets.thy ===== *)
theory Assets
  imports GoTime
begin

text \<open>
  Package \<open>asset\<close>: the \<open>Asset\<close> struct (a comparable struct used as a map key, so two assets are
  the same key exactly when all their fields agree), the FRED ticker namespace, the exchange
  normalisation and the kinds of transactions. Error values are a datatype: the static text
  of the message, or one of the sentinel errors the code compares with.
\<close>

datatype goerr = Err string | ErrNoMinuteBar | Wrap string goerr

text \<open>\<open>errors.Is(err, ErrNoMinuteBar)\<close> looks through the wrappers \<open>fmt.Errorf\<close> makes with \<open>%w\<close>.\<close>

fun isNoMinuteBar :: "goerr \<Rightarrow> bool" where
  "isNoMinuteBar ErrNoMinuteBar = True"
| "isNoMinuteBar (Wrap _ e) = isNoMinuteBar e"
| "isNoMinuteBar (Err _) = False"

record asset =
  CompositeFigi :: string
  Ticker :: string
  Name :: string
  AssetType :: string
  PrimaryExchange :: string
  Sector :: string
  Industry :: string
  SICCode :: int
  CIK :: string
  Listed :: gotime
  Delisted :: gotime

text \<open>The zero value, and the composite literal that sets only identifier and ticker.\<close>

definition asset_zero :: asset where
  "asset_zero = \<lparr>CompositeFigi = [], Ticker = [], Name = [], AssetType = [], PrimaryExchange = [],
     Sector = [], Industry = [], SICCode = 0, CIK = [], Listed = time_zero, Delisted = time_zero\<rparr>"

definition mk_asset :: "string \<Rightarrow> string \<Rightarrow> asset" where
  "mk_asset figi ticker = asset_zero\<lparr>CompositeFigi := figi, Ticker := ticker\<rparr>"

lemma mk_asset_sel [simp]: "CompositeFigi (mk_asset f t) = f" "Ticker (mk_asset f t) = t"
  by (simp_all add: mk_asset_def)

lemma mk_asset_inj [simp]: "mk_asset f t = mk_asset f' t' \<longleftrightarrow> f = f' \<and> t = t'"
  by (metis mk_asset_sel)

section \<open>Sentinels\<close>

definition EconomicIndicator :: asset where "EconomicIndicator = mk_asset [] ''$ECONOMIC_INDICATOR''"
definition CashAsset :: asset where "CashAsset = mk_asset ''$CASH'' ''$CASH''"
definition Factor :: asset where "Factor = mk_asset ''$FACTOR'' ''$FACTOR''"

section \<open>FRED tickers\<close>

definition FREDPrefix :: string where "FREDPrefix = ''FRED:''"

definition hasPrefix :: "string \<Rightarrow> string \<Rightarrow> bool" where
  "hasPrefix s p \<longleftrightarrow> take (length p) s = p"

definition trimPrefix :: "string \<Rightarrow> string \<Rightarrow> string" where
  "trimPrefix s p = (if hasPrefix s p then drop (length p) s else s)"

definition IsFREDTicker :: "string \<Rightarrow> bool" where
  "IsFREDTicker ticker = hasPrefix ticker FREDPrefix"

definition FREDSeries :: "string \<Rightarrow> string" where
  "FREDSeries ticker = trimPrefix ticker FREDPrefix"

definition NewFREDAsset :: "string \<Rightarrow> asset" where
  "NewFREDAsset ticker =
     (let namespaced = FREDPrefix @ FREDSeries ticker in
      asset_zero\<lparr>Ticker := namespaced, CompositeFigi := namespaced,
                 AssetType := ''FRED'', PrimaryExchange := ''FRED''\<rparr>)"

section \<open>Exchanges\<close>

definition NormalizeExchange :: "string \<Rightarrow> string" where
  "NormalizeExchange raw =
     (if raw \<in> set [''NYSE'', ''XNYS'', ''NYSE ARCA'', ''NYSE MKT'', ''ARCX'', ''XASE'', ''AMEX'']
      then ''NYSE''
      else if raw \<in> set [''NASDAQ'', ''XNAS'', ''NMFQS''] then ''NASDAQ''
      else if raw = ''BATS'' then ''BATS''
      else if raw = ''FRED'' then ''FRED''
      else raw)"

section \<open>Transaction types\<close>

datatype txtype = BuyTransaction | SellTransaction | DividendTransaction | FeeTransaction
  | DepositTransaction | WithdrawalTransaction | SplitTransaction | InterestTransaction
  | JournalTransaction

fun txtype_String :: "txtype \<Rightarrow> string" where
  "txtype_String BuyTransaction = ''Buy''"
| "txtype_String SellTransaction = ''Sell''"
| "txtype_String DividendTransaction = ''Dividend''"
| "txtype_String FeeTransaction = ''Fee''"
| "txtype_String DepositTransaction = ''Deposit''"
| "txtype_String WithdrawalTransaction = ''Withdrawal''"
| "txtype_String SplitTransaction = ''Split''"
| "txtype_String InterestTransaction = ''Interest''"
| "txtype_String JournalTransaction = ''Journal''"

section \<open>Lemmas\<close>

lemma trimPrefix_append [simp]: "trimPrefix (p @ s) p = s"
  by (simp add: trimPrefix_def hasPrefix_def)

lemma hasPrefix_append [simp]: "hasPrefix (p @ s) p"
  by (simp add: hasPrefix_def)

lemma trimPrefix_rejoin: "hasPrefix s p \<Longrightarrow> p @ trimPrefix s p = s"
  by (metis append_take_drop_id hasPrefix_def trimPrefix_def)

lemma txtype_String_inj: "txtype_String a = txtype_String b \<longleftrightarrow> a = b"
  by (cases a; cases b; simp)

end
