(* ===== verification/DataFrame.thy ===== *)
theory DataFrame
  imports Assets
begin

text \<open>
  Package \<open>data\<close>: the DataFrame (data/data\_frame.go), a table of float64 columns, one per
  (asset, metric) pair, over a common time axis. The record holds the struct's fields; the
  data source handle is left out. A panic of \<open>mustNewDataFrame\<close> is the value \<open>None\<close>. The
  cached date keys are \<open>None\<close> until a date lookup builds them.
\<close>

type_synonym metric = string

definition MetricOpen :: metric where "MetricOpen = ''Open''"
definition MetricHigh :: metric where "MetricHigh = ''High''"
definition MetricLow :: metric where "MetricLow = ''Low''"
definition MetricClose :: metric where "MetricClose = ''Close''"
definition AdjClose :: metric where "AdjClose = ''AdjClose''"
definition Volume :: metric where "Volume = ''Volume''"
definition Dividend :: metric where "Dividend = ''Dividend''"
definition SplitFactor :: metric where "SplitFactor = ''SplitFactor''"
definition Bid :: metric where "Bid = ''Bid''"
definition Ask :: metric where "Ask = ''Ask''"
definition PortfolioEquity :: metric where "PortfolioEquity = ''PortfolioEquity''"
definition PortfolioBenchmark :: metric where "PortfolioBenchmark = ''PortfolioBenchmark''"
definition PortfolioRiskFree :: metric where "PortfolioRiskFree = ''PortfolioRiskFree''"

lemmas metric_defs = MetricOpen_def MetricHigh_def MetricLow_def MetricClose_def AdjClose_def
  Volume_def Dividend_def SplitFactor_def Bid_def Ask_def PortfolioEquity_def
  PortfolioBenchmark_def PortfolioRiskFree_def

datatype Frequency = Tick | Daily | Weekly | Monthly | Quarterly | Yearly

definition daily_or_coarser :: "Frequency \<Rightarrow> bool" where
  "daily_or_coarser f \<longleftrightarrow> f \<noteq> Tick"

fun PeriodsPerYear :: "Frequency \<Rightarrow> f64" where
  "PeriodsPerYear Daily = 252"
| "PeriodsPerYear Weekly = 52"
| "PeriodsPerYear Monthly = 12"
| "PeriodsPerYear Quarterly = 4"
| "PeriodsPerYear Yearly = 1"
| "PeriodsPerYear Tick = 252"

fun Frequency_String :: "Frequency \<Rightarrow> string" where
  "Frequency_String Tick = ''Tick''"
| "Frequency_String Daily = ''Daily''"
| "Frequency_String Weekly = ''Weekly''"
| "Frequency_String Monthly = ''Monthly''"
| "Frequency_String Quarterly = ''Quarterly''"
| "Frequency_String Yearly = ''Yearly''"

definition ParseFrequency :: "string \<Rightarrow> goerr + Frequency" where
  "ParseFrequency s =
     (if s = ''Tick'' then Inr Tick else if s = ''Daily'' then Inr Daily
      else if s = ''Weekly'' then Inr Weekly else if s = ''Monthly'' then Inr Monthly
      else if s = ''Quarterly'' then Inr Quarterly else if s = ''Yearly'' then Inr Yearly
      else Inl (Err ''unknown frequency''))"

record dataframe =
  df_columns :: "f64 list list"
  df_times :: "gotime list"
  df_dateKeys :: "int list option"
  df_assets :: "asset list"
  df_metrics :: "metric list"
  df_assetIndex :: "(string, nat) gomap"
  df_err :: "goerr option"
  df_freq :: Frequency
  df_riskFreeRates :: "f64 list option"

section \<open>Construction\<close>

definition mk_assetIndex :: "asset list \<Rightarrow> (string, nat) gomap" where
  "mk_assetIndex assets = fold (\<lambda>(i, a) m. mput (CompositeFigi a) i m) (enumerate 0 assets) []"

definition NewDataFrame ::
    "gotime list \<Rightarrow> asset list \<Rightarrow> metric list \<Rightarrow> Frequency \<Rightarrow> f64 list list \<Rightarrow> goerr + dataframe" where
  "NewDataFrame ts assets metrics freq columns0 =
     (let expected = length assets * length metrics;
          columns = (if ts = [] \<and> columns0 = [] then replicate expected [] else columns0)
      in if length columns \<noteq> expected then Inl (Err ''columns count does not match dimensions'')
         else if \<not> list_all (\<lambda>col. length col = length ts) columns
         then Inl (Err ''column length does not match time axis length'')
         else Inr \<lparr>df_columns = columns, df_times = ts, df_dateKeys = None,
                   df_assets = assets, df_metrics = metrics, df_assetIndex = mk_assetIndex assets,
                   df_err = None, df_freq = freq, df_riskFreeRates = None\<rparr>)"

definition mustNewDataFrame ::
    "gotime list \<Rightarrow> asset list \<Rightarrow> metric list \<Rightarrow> Frequency \<Rightarrow> f64 list list \<Rightarrow> dataframe option" where
  "mustNewDataFrame ts assets metrics freq columns =
     (case NewDataFrame ts assets metrics freq columns of Inl _ \<Rightarrow> None | Inr df \<Rightarrow> Some df)"

definition df_zero :: dataframe where
  "df_zero = \<lparr>df_columns = [], df_times = [], df_dateKeys = None, df_assets = [], df_metrics = [],
     df_assetIndex = [], df_err = None, df_freq = Tick, df_riskFreeRates = None\<rparr>"

definition WithErr :: "goerr \<Rightarrow> dataframe" where
  "WithErr e = df_zero\<lparr>df_err := Some e\<rparr>"

definition SetRiskFreeRates :: "dataframe \<Rightarrow> f64 list \<Rightarrow> goerr + dataframe" where
  "SetRiskFreeRates df rates =
     (if length rates \<noteq> length (df_times df)
      then Inl (Err ''SetRiskFreeRates: length does not match time axis length'')
      else Inr (df\<lparr>df_riskFreeRates := Some rates\<rparr>))"

definition propagateAux :: "dataframe \<Rightarrow> dataframe \<Rightarrow> dataframe" where
  "propagateAux df target =
     target\<lparr>df_riskFreeRates := df_riskFreeRates df, df_dateKeys := df_dateKeys df\<rparr>"

definition ensureDateKeys :: "dataframe \<Rightarrow> dataframe" where
  "ensureDateKeys df =
     (if df_dateKeys df \<noteq> None \<or> \<not> daily_or_coarser (df_freq df) \<or> df_times df = [] then df
      else df\<lparr>df_dateKeys := Some (map dateKey (df_times df))\<rparr>)"

section \<open>Lookup\<close>

text \<open>\<open>sort.Search\<close>: binary search for the least index at which a monotone predicate holds.\<close>

function sort_search_loop :: "(nat \<Rightarrow> bool) \<Rightarrow> nat \<Rightarrow> nat \<Rightarrow> nat" where
  "sort_search_loop p i j =
     (if i < j then let h = (i + j) div 2 in
        if \<not> p h then sort_search_loop p (h + 1) j else sort_search_loop p i h
      else i)"
  by pat_completeness auto
termination
  by (relation "measure (\<lambda>(p, i, j). j - i)") auto

declare sort_search_loop.simps [simp del]

definition sort_search :: "nat \<Rightarrow> (nat \<Rightarrow> bool) \<Rightarrow> nat" where
  "sort_search n p = sort_search_loop p 0 n"

fun metric_pos :: "metric list \<Rightarrow> nat \<Rightarrow> metric \<Rightarrow> nat option" where
  "metric_pos [] i m = None"
| "metric_pos (x # xs) i m = (if x = m then Some i else metric_pos xs (Suc i) m)"

definition metricIndex :: "dataframe \<Rightarrow> metric \<Rightarrow> nat option" where
  "metricIndex df m = metric_pos (df_metrics df) 0 m"

definition colIdx :: "dataframe \<Rightarrow> nat \<Rightarrow> nat \<Rightarrow> nat" where
  "colIdx df aIdx mIdx = aIdx * length (df_metrics df) + mIdx"

definition colSlice :: "dataframe \<Rightarrow> nat \<Rightarrow> nat \<Rightarrow> f64 list" where
  "colSlice df aIdx mIdx = df_columns df ! colIdx df aIdx mIdx"

definition timeIndexByDate :: "dataframe \<Rightarrow> gotime \<Rightarrow> nat option" where
  "timeIndexByDate df t =
     (let target = dateKey t;
          keys = (case df_dateKeys (ensureDateKeys df) of None \<Rightarrow> [] | Some ks \<Rightarrow> ks);
          idx = sort_search (length keys) (\<lambda>i. keys ! i \<ge> target)
      in if idx < length keys \<and> keys ! idx = target then Some idx else None)"

definition timeIndex :: "dataframe \<Rightarrow> gotime \<Rightarrow> nat option" where
  "timeIndex df timestamp =
     (if daily_or_coarser (df_freq df) then timeIndexByDate df timestamp
      else let idx = sort_search (length (df_times df)) (\<lambda>i. \<not> df_times df ! i < timestamp)
           in if idx < length (df_times df) \<and> df_times df ! idx = timestamp then Some idx else None)"

definition df_Start :: "dataframe \<Rightarrow> gotime" where
  "df_Start df = (case df_times df of [] \<Rightarrow> time_zero | t # _ \<Rightarrow> t)"

definition df_End :: "dataframe \<Rightarrow> gotime" where
  "df_End df = (if df_times df = [] then time_zero else last (df_times df))"

definition df_Len :: "dataframe \<Rightarrow> nat" where
  "df_Len df = length (df_times df)"

definition ColCount :: "dataframe \<Rightarrow> nat" where
  "ColCount df = length (df_assets df) * length (df_metrics df)"

definition df_Column :: "dataframe \<Rightarrow> asset \<Rightarrow> metric \<Rightarrow> f64 list option" where
  "df_Column df a metric =
     (if df_err df \<noteq> None then None
      else case map_of (df_assetIndex df) (CompositeFigi a) of None \<Rightarrow> None
      | Some aIdx \<Rightarrow> (case metricIndex df metric of None \<Rightarrow> None
        | Some mIdx \<Rightarrow> Some (colSlice df aIdx mIdx)))"

definition df_Value :: "dataframe \<Rightarrow> asset \<Rightarrow> metric \<Rightarrow> f64" where
  "df_Value df a metric =
     (if df_err df \<noteq> None then NaN
      else case map_of (df_assetIndex df) (CompositeFigi a) of None \<Rightarrow> NaN
      | Some aIdx \<Rightarrow> (case metricIndex df metric of None \<Rightarrow> NaN
        | Some mIdx \<Rightarrow> (let col = colSlice df aIdx mIdx in if col = [] then NaN else last col)))"

definition df_ValueAt :: "dataframe \<Rightarrow> asset \<Rightarrow> metric \<Rightarrow> gotime \<Rightarrow> f64" where
  "df_ValueAt df a metric timestamp =
     (if df_err df \<noteq> None then NaN
      else case map_of (df_assetIndex df) (CompositeFigi a) of None \<Rightarrow> NaN
      | Some aIdx \<Rightarrow> (case metricIndex df metric of None \<Rightarrow> NaN
        | Some mIdx \<Rightarrow> (case timeIndex df timestamp of None \<Rightarrow> NaN
          | Some tIdx \<Rightarrow> df_columns df ! colIdx df aIdx mIdx ! tIdx)))"

section \<open>Appending a row\<close>

definition AppendRow :: "dataframe \<Rightarrow> gotime \<Rightarrow> f64 list \<Rightarrow> goerr + dataframe" where
  "AppendRow df timestamp values =
     (case df_err df of Some e \<Rightarrow> Inl e
      | None \<Rightarrow>
        if length values \<noteq> ColCount df then Inl (Err ''AppendRow: values length does not match column count'')
        else if df_times df \<noteq> [] \<and> \<not> timestamp > df_End df
        then Inl (Err ''AppendRow: timestamp is not after current End()'')
        else Inr (df\<lparr>df_columns := map2 (\<lambda>col val. col @ [val]) (df_columns df) values,
                     df_times := df_times df @ [timestamp],
                     df_dateKeys := map_option (\<lambda>ks. ks @ [dateKey timestamp]) (df_dateKeys df),
                     df_riskFreeRates := None\<rparr>))"

section \<open>Well-formed frames\<close>

definition df_wf :: "dataframe \<Rightarrow> bool" where
  "df_wf df \<longleftrightarrow>
     length (df_columns df) = length (df_assets df) * length (df_metrics df)
   \<and> list_all (\<lambda>col. length col = length (df_times df)) (df_columns df)
   \<and> df_assetIndex df = mk_assetIndex (df_assets df)
   \<and> (case df_dateKeys df of None \<Rightarrow> True | Some ks \<Rightarrow> ks = map dateKey (df_times df))
   \<and> (case df_riskFreeRates df of None \<Rightarrow> True | Some rs \<Rightarrow> length rs = length (df_times df))"

text \<open>A chronological time axis, as the accessors assume; daily frames have one row per date.\<close>

definition df_chrono :: "dataframe \<Rightarrow> bool" where
  "df_chrono df \<longleftrightarrow> sorted_wrt (<) (df_times df)
     \<and> (daily_or_coarser (df_freq df) \<longrightarrow> sorted_wrt (<) (map dateKey (df_times df)))"

section \<open>Binary search\<close>

lemma sort_search_loop_bounds:
  "i \<le> j \<Longrightarrow> i \<le> sort_search_loop p i j \<and> sort_search_loop p i j \<le> j"
proof (induction p i j rule: sort_search_loop.induct)
  case (1 p i j)
  then show ?case
    by (subst (1 2) sort_search_loop.simps) (force simp: Let_def)
qed

lemma sort_search_loop_spec:
  assumes "\<And>a b. a \<le> b \<Longrightarrow> b < n \<Longrightarrow> p a \<Longrightarrow> p b"
    and "i \<le> j" "j \<le> n" "\<And>k. k < i \<Longrightarrow> \<not> p k" "j < n \<Longrightarrow> p j"
  shows "(\<forall>k < sort_search_loop p i j. \<not> p k)
       \<and> (sort_search_loop p i j < n \<longrightarrow> p (sort_search_loop p i j))"
  using assms
proof (induction p i j rule: sort_search_loop.induct)
  case (1 p i j)
  note mono = "1.prems"(1)
  let ?h = "(i + j) div 2"
  show ?case
  proof (cases "i < j")
    case lt: True
    then have h: "i \<le> ?h" "?h < j" "?h < n" using "1.prems"(3) by auto
    show ?thesis
    proof (cases "p ?h")
      case True
      have step: "sort_search_loop p i j = sort_search_loop p i ?h"
        using lt True by (subst sort_search_loop.simps) (simp add: Let_def)
      show ?thesis unfolding step
        by (rule "1.IH"(2) [OF lt refl]) (use lt h True "1.prems" in auto)
    next
      case False
      have step: "sort_search_loop p i j = sort_search_loop p (?h + 1) j"
        using lt False by (subst sort_search_loop.simps) (simp add: Let_def)
      have below: "\<not> p k" if "k < ?h + 1" for k
        using mono [of k ?h] False h that by auto
      show ?thesis unfolding step
        by (rule "1.IH"(1) [OF lt refl False mono _ _ below]) (use h "1.prems" in auto)
    qed
  next
    case False
    then have step: "sort_search_loop p i j = i"
      by (subst sort_search_loop.simps) simp
    show ?thesis unfolding step using False "1.prems" by auto
  qed
qed

lemma sort_search_spec:
  assumes "\<And>a b. a \<le> b \<Longrightarrow> b < n \<Longrightarrow> p a \<Longrightarrow> p b"
  shows "sort_search n p \<le> n" "k < sort_search n p \<Longrightarrow> \<not> p k"
    "sort_search n p < n \<Longrightarrow> p (sort_search n p)"
  using sort_search_loop_spec [of n p 0 n] sort_search_loop_bounds [of 0 n p] assms
  by (auto simp: sort_search_def)

lemma sort_search_le [simp]: "sort_search n p \<le> n"
  using sort_search_loop_bounds [of 0 n p] by (simp add: sort_search_def)

text \<open>On a sorted list the search for \<open>\<ge> x\<close> finds the position of \<open>x\<close>, when it occurs.\<close>

lemma sort_search_find:
  fixes xs :: "int list" and x :: int
  assumes "sorted_wrt (<) xs"
  defines "k \<equiv> sort_search (length xs) (\<lambda>i. x \<le> xs ! i)"
  shows "(k < length xs \<and> xs ! k = x) \<longleftrightarrow> x \<in> set xs"
    and "i < length xs \<Longrightarrow> xs ! i = x \<Longrightarrow> k = i"
proof -
  have mono: "x \<le> xs ! a \<Longrightarrow> x \<le> xs ! b" if "a \<le> b" "b < length xs" for a b
    using that assms(1) by (metis le_neq_implies_less order.trans less_imp_le sorted_wrt_iff_nth_less)
  have below: "\<not> x \<le> xs ! i" if "i < k" for i
    by (rule sort_search_spec(2) [of "length xs"]) (use that mono in \<open>auto simp: k_def\<close>)
  have at: "x \<le> xs ! k" if "k < length xs"
    unfolding k_def by (rule sort_search_spec(3)) (use that mono in \<open>auto simp: k_def\<close>)
  have eq: "k = i" if i: "i < length xs" "xs ! i = x" for i
  proof (rule antisym)
    show "k \<le> i" using below i by (metis leI order_refl)
    show "i \<le> k"
    proof (rule leI, rule notI)
      assume "k < i"
      with i assms(1) have "xs ! k < x" by (auto simp: sorted_wrt_iff_nth_less)
      moreover have "x \<le> xs ! k" using at \<open>k < i\<close> i by auto
      ultimately show False by simp
    qed
  qed
  then show "i < length xs \<Longrightarrow> xs ! i = x \<Longrightarrow> k = i" by blast
  show "(k < length xs \<and> xs ! k = x) \<longleftrightarrow> x \<in> set xs"
    using eq by (metis in_set_conv_nth nth_mem)
qed

section \<open>Frame lemmas\<close>

lemma NewDataFrame_wf: "NewDataFrame ts as ms f cols = Inr df \<Longrightarrow> df_wf df"
  by (auto simp: NewDataFrame_def df_wf_def Let_def list_all_iff split: if_splits)

lemma WithErr_wf [simp]: "df_wf (WithErr e)"
  by (simp add: df_wf_def WithErr_def df_zero_def mk_assetIndex_def)

lemma metric_pos_Some:
  "metric_pos ms i m = Some k \<Longrightarrow> i \<le> k \<and> k < i + length ms \<and> ms ! (k - i) = m"
proof (induction ms i m rule: metric_pos.induct)
  case (2 x xs i m)
  then show ?case by (auto simp: nth_Cons' split: if_splits)
qed simp

lemma metric_pos_None: "metric_pos ms i m = None \<longleftrightarrow> m \<notin> set ms"
  by (induction ms i m rule: metric_pos.induct) auto

lemma metricIndex_bound: "metricIndex df m = Some k \<Longrightarrow> k < length (df_metrics df)"
  using metric_pos_Some [of "df_metrics df" 0 m k] by (simp add: metricIndex_def)

lemma fold_assetIndex_figi:
  assumes "map_of (fold (\<lambda>(i, a) m. mput (CompositeFigi a) i m) (enumerate n as) m0) f = Some i"
  shows "(n \<le> i \<and> i < n + length as \<and> CompositeFigi (as ! (i - n)) = f)
       \<or> (map_of m0 f = Some i \<and> f \<notin> CompositeFigi ` set as)"
  using assms
proof (induction as arbitrary: n m0)
  case (Cons a as)
  show ?case
    using Cons.IH [of "Suc n" "mput (CompositeFigi a) n m0"] Cons.prems
    by (auto simp: nth_Cons' split: if_splits)
qed simp

lemma assetIndex_figi:
  "map_of (mk_assetIndex as) f = Some i \<Longrightarrow> i < length as \<and> CompositeFigi (as ! i) = f"
  using fold_assetIndex_figi [of 0 as "[]" f i] by (simp add: mk_assetIndex_def)

lemma colIdx_bound:
  assumes "df_wf df" "map_of (df_assetIndex df) f = Some a" "metricIndex df m = Some k"
  shows "colIdx df a k < length (df_columns df)"
proof -
  have "a < length (df_assets df)"
    using assms(1,2) by (auto simp: df_wf_def dest: assetIndex_figi)
  moreover have "k < length (df_metrics df)" using assms(3) by (rule metricIndex_bound)
  ultimately have "a * length (df_metrics df) + k < length (df_assets df) * length (df_metrics df)"
    by (metis add.commute less_le_trans mult_le_mono1 mult_Suc nat_add_left_cancel_less Suc_leI)
  then show ?thesis using assms(1) by (simp add: colIdx_def df_wf_def)
qed

lemma ensureDateKeys_keys:
  assumes "df_wf df" "daily_or_coarser (df_freq df)"
  shows "(case df_dateKeys (ensureDateKeys df) of None \<Rightarrow> [] | Some ks \<Rightarrow> ks) = map dateKey (df_times df)"
  using assms by (auto simp: ensureDateKeys_def df_wf_def split: option.splits)

lemma search_option:
  fixes xs :: "int list" and x :: int
  assumes "sorted_wrt (<) xs"
  defines "k \<equiv> sort_search (length xs) (\<lambda>i. x \<le> xs ! i)"
  shows "(if k < length xs \<and> xs ! k = x then Some k else None) = Some i
     \<longleftrightarrow> i < length xs \<and> xs ! i = x"
proof -
  have "k = i" if "i < length xs" "xs ! i = x"
    unfolding k_def by (rule sort_search_find(2) [OF assms(1) that])
  then show ?thesis by auto
qed

lemma timeIndex_iff:
  assumes "df_wf df" "df_chrono df"
  shows "timeIndex df t = Some i \<longleftrightarrow> i < length (df_times df) \<and>
    (if daily_or_coarser (df_freq df) then dateKey (df_times df ! i) = dateKey t
     else df_times df ! i = t)"
proof (cases "daily_or_coarser (df_freq df)")
  case True
  with assms(2) have "sorted_wrt (<) (map dateKey (df_times df))"
    by (simp add: df_chrono_def)
  from search_option [OF this, of "dateKey t" i] True show ?thesis
    by (auto simp: timeIndex_def timeIndexByDate_def ensureDateKeys_keys [OF assms(1) True] Let_def)
next
  case False
  from assms(2) have "sorted_wrt (<) (df_times df)" by (simp add: df_chrono_def)
  from search_option [OF this, of t i] False show ?thesis
    by (simp add: timeIndex_def Let_def not_less)
qed

text \<open>The row a timestamp names: that date on daily and coarser axes, that instant otherwise.\<close>

definition row_at :: "dataframe \<Rightarrow> gotime \<Rightarrow> nat \<Rightarrow> bool" where
  "row_at df t i \<longleftrightarrow> i < df_Len df \<and>
     (if daily_or_coarser (df_freq df) then dateKey (df_times df ! i) = dateKey t else df_times df ! i = t)"

lemma timeIndex_row_at: "df_wf df \<Longrightarrow> df_chrono df \<Longrightarrow> timeIndex df t = Some i \<longleftrightarrow> row_at df t i"
  by (simp add: timeIndex_iff row_at_def df_Len_def)

lemma AppendRow_cases:
  assumes "AppendRow df t vs = Inr df'"
  shows "df_err df = None" "length vs = ColCount df" "df_times df = [] \<or> df_End df < t"
    "df' = df\<lparr>df_columns := map2 (\<lambda>col val. col @ [val]) (df_columns df) vs,
              df_times := df_times df @ [t],
              df_dateKeys := map_option (\<lambda>ks. ks @ [dateKey t]) (df_dateKeys df),
              df_riskFreeRates := None\<rparr>"
  using assms by (auto simp: AppendRow_def split: option.splits if_splits)

lemma AppendRow_wf:
  assumes "df_wf df" "AppendRow df t vs = Inr df'"
  shows "df_wf df'"
  using AppendRow_cases [OF assms(2)] assms(1)
  by (auto simp: df_wf_def ColCount_def list_all_iff in_set_zip split: option.splits)

text \<open>
  Appending a row to a well-formed frame makes the new values the current ones: for every
  asset and metric of the frame, Value returns the entry of the appended row at that
  column, and the frame stays well-formed with a chronological time axis.
\<close>
lemma AppendRow_value:
  assumes "df_wf df" "AppendRow df t vs = Inr df'" "sorted_wrt (<) (df_times df)"
    and "map_of (df_assetIndex df) (CompositeFigi a) = Some ai" "metricIndex df m = Some mi"
  shows "df_Value df' a m = vs ! colIdx df ai mi \<and> df_wf df' \<and> sorted_wrt (<) (df_times df')
    \<and> df_Len df' = Suc (df_Len df) \<and> df_End df' = t"
proof -
  note app = AppendRow_cases [OF assms(2)]
  have lt: "colIdx df ai mi < length (df_columns df)"
    using colIdx_bound assms(1,4,5) by blast
  have mi': "metricIndex df' m = Some mi" "colIdx df' ai mi = colIdx df ai mi"
    using assms(5) app(4) by (simp_all add: metricIndex_def colIdx_def)
  have len: "length vs = length (df_columns df)"
    using app(2) assms(1) by (simp add: df_wf_def ColCount_def)
  have "df_Value df' a m = vs ! colIdx df ai mi"
    using assms(4) mi' lt len app(1,4) by (simp add: df_Value_def colSlice_def Let_def)
  moreover have "sorted_wrt (<) (df_times df')"
    using sorted_less_snoc [OF assms(3), of t] app(3,4) by (simp add: df_End_def split: if_splits)
  moreover have "df_Len df' = Suc (df_Len df)" "df_End df' = t"
    using app(4) by (simp_all add: df_Len_def df_End_def)
  ultimately show ?thesis using AppendRow_wf [OF assms(1,2)] by blast
qed

end
