(* ===== verification/FrameOps.thy ===== *)
theory FrameOps
  imports DataFrame
begin

text \<open>
  The rest of data/data\_frame.go and data/merge.go: selection of rows, assets and metrics,
  insertion of columns, arithmetic of frames aligned by asset and metric, aggregation across
  assets and merging. Operations return \<open>None\<close> where the Go code panics; an error frame
  travels through a chain of operations unchanged. The numerical routines of the gonum
  packages are a parameter (\<open>gonum\<close>), and \<open>gonum_ok\<close> states what their documentation promises.
  Shows that the operations never panic on well-formed frames, that they keep frames
  well-formed, and what each does to the column of an asset and a metric.
\<close>

section \<open>Package gonum\<close>

record gonum =
  gn_AddTo :: "f64 list \<Rightarrow> f64 list \<Rightarrow> f64 list"
  gn_SubTo :: "f64 list \<Rightarrow> f64 list \<Rightarrow> f64 list"
  gn_MulTo :: "f64 list \<Rightarrow> f64 list \<Rightarrow> f64 list"
  gn_DivTo :: "f64 list \<Rightarrow> f64 list \<Rightarrow> f64 list"
  gn_AddConst :: "f64 \<Rightarrow> f64 list \<Rightarrow> f64 list"
  gn_Scale :: "f64 \<Rightarrow> f64 list \<Rightarrow> f64 list"
  gn_CumSum :: "f64 list \<Rightarrow> f64 list"
  gn_Sum :: "f64 list \<Rightarrow> f64"
  gn_Max :: "f64 list \<Rightarrow> f64 option"
  gn_Min :: "f64 list \<Rightarrow> f64 option"
  gn_Mean :: "f64 list \<Rightarrow> f64"
  gn_Quantile :: "f64 \<Rightarrow> f64 list \<Rightarrow> f64 option"

text \<open>
  The documented behaviour: element-wise operations on slices of one length, the sum and the
  mean of a slice, running sums, and the panics of \<open>Max\<close> and \<open>Min\<close> on an empty slice.
\<close>

definition running_sums :: "f64 list \<Rightarrow> f64 list" where
  "running_sums xs = map (\<lambda>i. sum_list (take (Suc i) xs)) [0..<length xs]"

definition gonum_ok :: "gonum \<Rightarrow> bool" where
  "gonum_ok g \<longleftrightarrow>
     (\<forall>s t. length s = length t \<longrightarrow> gn_AddTo g s t = map2 (+) s t \<and> gn_SubTo g s t = map2 (-) s t
        \<and> gn_MulTo g s t = map2 (*) s t \<and> gn_DivTo g s t = map2 (/) s t)
   \<and> (\<forall>c xs. gn_AddConst g c xs = map (\<lambda>x. x + c) xs \<and> gn_Scale g c xs = map (\<lambda>x. x * c) xs)
   \<and> (\<forall>xs. gn_CumSum g xs = running_sums xs \<and> gn_Sum g xs = sum_list xs
        \<and> gn_Mean g xs = sum_list xs / Fin (real (length xs)))
   \<and> (\<forall>xs. (gn_Max g xs = None \<longleftrightarrow> xs = []) \<and> (gn_Min g xs = None \<longleftrightarrow> xs = []))"

section \<open>Rows\<close>

definition empty_frame :: "dataframe option" where
  "empty_frame = mustNewDataFrame [] [] [] Tick []"

text \<open>
  Indexing and slicing panic out of range: what the first \<open>n\<close> rows of a frame need. Slices carry no
  capacity beyond their length.
\<close>

definition rows_within :: "nat \<Rightarrow> dataframe \<Rightarrow> bool" where
  "rows_within n df \<longleftrightarrow> n \<le> length (df_times df) \<and> list_all (\<lambda>col. n \<le> length col) (df_columns df)"

definition opt_within :: "nat \<Rightarrow> 'a list option \<Rightarrow> bool" where
  "opt_within n xs = (case xs of None \<Rightarrow> True | Some ys \<Rightarrow> n \<le> length ys)"

definition grid_within :: "dataframe \<Rightarrow> bool" where
  "grid_within df \<longleftrightarrow> length (df_assets df) * length (df_metrics df) \<le> length (df_columns df)"

definition df_At :: "dataframe \<Rightarrow> gotime \<Rightarrow> dataframe option" where
  "df_At df t =
     (case df_err df of Some e \<Rightarrow> Some (WithErr e)
      | None \<Rightarrow>
        (case timeIndex df t of None \<Rightarrow> empty_frame
         | Some tIdx \<Rightarrow>
             if \<not> (grid_within df \<and> rows_within (Suc tIdx) df \<and> opt_within (Suc tIdx) (df_riskFreeRates df)) then None
             else (case mustNewDataFrame [df_times df ! tIdx] (df_assets df) (df_metrics df) (df_freq df)
                     (concat (map (\<lambda>aIdx. map (\<lambda>mIdx. [df_columns df ! colIdx df aIdx mIdx ! tIdx])
                        [0..<length (df_metrics df)]) [0..<length (df_assets df)])) of
                None \<Rightarrow> None
              | Some r \<Rightarrow> Some (case df_riskFreeRates df of None \<Rightarrow> r
                  | Some rf \<Rightarrow> r\<lparr>df_riskFreeRates := Some [rf ! tIdx]\<rparr>))))"

definition df_Last :: "dataframe \<Rightarrow> dataframe option" where
  "df_Last df =
     (case df_err df of Some e \<Rightarrow> Some (WithErr e)
      | None \<Rightarrow> if df_times df = [] then empty_frame else df_At df (last (df_times df)))"

definition df_Copy :: "dataframe \<Rightarrow> dataframe option" where
  "df_Copy df =
     (case df_err df of Some e \<Rightarrow> Some (WithErr e)
      | None \<Rightarrow>
        map_option (\<lambda>r. r\<lparr>df_riskFreeRates := df_riskFreeRates df, df_dateKeys := df_dateKeys df\<rparr>)
          (mustNewDataFrame (df_times df) (df_assets df) (df_metrics df) (df_freq df) (df_columns df)))"

definition slice :: "nat \<Rightarrow> nat \<Rightarrow> 'a list \<Rightarrow> 'a list" where
  "slice i j xs = drop i (take j xs)"

definition sliceByTimeIndices :: "nat \<Rightarrow> nat \<Rightarrow> dataframe \<Rightarrow> dataframe option" where
  "sliceByTimeIndices i j df =
     (if i \<le> j \<and> rows_within j df \<and> opt_within j (df_riskFreeRates df) \<and> opt_within j (df_dateKeys df)
      then map_option (\<lambda>r. r\<lparr>df_riskFreeRates := map_option (slice i j) (df_riskFreeRates df),
                             df_dateKeys := map_option (slice i j) (df_dateKeys df)\<rparr>)
             (mustNewDataFrame (slice i j (df_times df)) (df_assets df) (df_metrics df) (df_freq df)
                (map (slice i j) (df_columns df)))
      else None)"

definition Between :: "gotime \<Rightarrow> gotime \<Rightarrow> dataframe \<Rightarrow> dataframe option" where
  "Between start end' df =
     (case df_err df of Some e \<Rightarrow> Some (WithErr e)
      | None \<Rightarrow>
        let df1 = (if daily_or_coarser (df_freq df) then ensureDateKeys df else df);
            keys = (case df_dateKeys df1 of None \<Rightarrow> [] | Some ks \<Rightarrow> ks);
            ts = df_times df1;
            startIdx = (if daily_or_coarser (df_freq df)
                        then sort_search (length keys) (\<lambda>i. keys ! i \<ge> dateKey start)
                        else sort_search (length ts) (\<lambda>i. \<not> ts ! i < start));
            endIdx = (if daily_or_coarser (df_freq df)
                      then sort_search (length keys) (\<lambda>i. keys ! i > dateKey end')
                      else sort_search (length ts) (\<lambda>i. ts ! i > end'))
        in if startIdx \<ge> endIdx then empty_frame else sliceByTimeIndices startIdx endIdx df1)"

definition sliceByIndices :: "nat list \<Rightarrow> dataframe \<Rightarrow> dataframe option" where
  "sliceByIndices indices df =
     (if indices = [] then empty_frame
      else if \<not> list_all (\<lambda>i. rows_within (Suc i) df \<and> opt_within (Suc i) (df_riskFreeRates df) \<and> opt_within (Suc i) (df_dateKeys df)) indices
      then None
      else map_option (\<lambda>r. r\<lparr>df_riskFreeRates := map_option (\<lambda>rf. map ((!) rf) indices) (df_riskFreeRates df),
                             df_dateKeys := map_option (\<lambda>dk. map ((!) dk) indices) (df_dateKeys df)\<rparr>)
             (mustNewDataFrame (map ((!) (df_times df)) indices) (df_assets df) (df_metrics df) (df_freq df)
                (map (\<lambda>col. map ((!) col) indices) (df_columns df))))"

text \<open>
  Filter hands one row frame, overwritten for every timestamp, to the predicate. A lookup by
  date inside the predicate fills the date cache of that frame, so the predicate returns the
  frame as it leaves it.
\<close>

type_synonym row_predicate = "gotime \<Rightarrow> dataframe \<Rightarrow> bool \<times> dataframe"

definition row_load :: "dataframe \<Rightarrow> nat \<Rightarrow> dataframe \<Rightarrow> dataframe" where
  "row_load df tIdx row = row\<lparr>df_columns := map (\<lambda>col. [col ! tIdx]) (df_columns df),
     df_times := [df_times df ! tIdx]\<rparr>"

fun filter_rows :: "row_predicate \<Rightarrow> dataframe \<Rightarrow> nat list \<Rightarrow> dataframe \<Rightarrow> nat list" where
  "filter_rows predicate df [] row = []"
| "filter_rows predicate df (tIdx # ts) row =
     (case predicate (df_times df ! tIdx) (row_load df tIdx row) of (keep, row') \<Rightarrow>
        (if keep then [tIdx] else []) @ filter_rows predicate df ts row')"

definition df_Filter :: "row_predicate \<Rightarrow> dataframe \<Rightarrow> dataframe option" where
  "df_Filter predicate df =
     (case df_err df of Some e \<Rightarrow> Some (WithErr e)
      | None \<Rightarrow>
        if \<not> rows_within (length (df_times df)) df then None
        else (case mustNewDataFrame [time_zero] (df_assets df) (df_metrics df) (df_freq df)
                (map (\<lambda>_. [0]) (df_columns df)) of
           None \<Rightarrow> None
         | Some row \<Rightarrow> sliceByIndices (filter_rows predicate df [0..<length (df_times df)] row) df))"

definition pure_predicate :: "(gotime \<Rightarrow> dataframe \<Rightarrow> bool) \<Rightarrow> row_predicate" where
  "pure_predicate p = (\<lambda>t row. (p t row, row))"

definition dropNaN :: "dataframe \<Rightarrow> dataframe option" where
  "dropNaN df =
     (if df_times df = [] then empty_frame
      else if \<not> grid_within df \<or> list_ex (\<lambda>col. list_ex isNaN (drop (length (df_times df)) col)) (df_columns df) then None
      else let hasNaN = foldl (\<lambda>bad (aIdx, mIdx).
                   foldl (\<lambda>bad (tIdx, val). if isNaN val then bad[tIdx := True] else bad) bad
                     (enumerate 0 (colSlice df aIdx mIdx)))
                 (replicate (length (df_times df)) False)
                 (List.product [0..<length (df_assets df)] [0..<length (df_metrics df)])
           in sliceByIndices (filter (\<lambda>tIdx. \<not> hasNaN ! tIdx) [0..<length hasNaN]) df)"

definition df_Drop :: "f64 \<Rightarrow> dataframe \<Rightarrow> dataframe option" where
  "df_Drop val df =
     (case df_err df of Some e \<Rightarrow> Some (WithErr e)
      | None \<Rightarrow> if isNaN val then dropNaN df
                else df_Filter (pure_predicate (\<lambda>_ row. list_all (\<lambda>col. \<not> feq (hd col) val) (df_columns row))) df)"

section \<open>Assets and metrics\<close>

definition df_Assets :: "asset list \<Rightarrow> dataframe \<Rightarrow> dataframe option" where
  "df_Assets assets df =
     (case df_err df of Some e \<Rightarrow> Some (WithErr e)
      | None \<Rightarrow>
        let matchedIdx = foldl (\<lambda>(idxs, seen) aa.
                if CompositeFigi aa \<in> set seen then (idxs, seen)
                else case map_of (df_assetIndex df) (CompositeFigi aa) of None \<Rightarrow> (idxs, seen)
                     | Some idx \<Rightarrow> (idxs @ [idx], CompositeFigi aa # seen)) ([], []) assets
        in if fst matchedIdx = [] then empty_frame
           else map_option (propagateAux df)
                  (mustNewDataFrame (df_times df) (map ((!) (df_assets df)) (fst matchedIdx)) (df_metrics df) (df_freq df)
                     (concat (map (\<lambda>old. map (\<lambda>mIdx. df_columns df ! colIdx df old mIdx)
                        [0..<length (df_metrics df)]) (fst matchedIdx)))))"

definition df_Metrics :: "metric list \<Rightarrow> dataframe \<Rightarrow> dataframe option" where
  "df_Metrics metrics df =
     (case df_err df of Some e \<Rightarrow> Some (WithErr e)
      | None \<Rightarrow>
        let matched = filter (\<lambda>m. metricIndex df m \<noteq> None) metrics;
            matchedIdx = map (\<lambda>m. the (metricIndex df m)) matched
        in if matched = [] then empty_frame
           else map_option (propagateAux df)
                  (mustNewDataFrame (df_times df) (df_assets df) matched (df_freq df)
                     (concat (map (\<lambda>aIdx. map (\<lambda>old. df_columns df ! colIdx df aIdx old) matchedIdx)
                        [0..<length (df_assets df)]))))"

fun rename_scan :: "metric \<Rightarrow> metric \<Rightarrow> (nat \<times> metric) list \<Rightarrow> nat option \<Rightarrow> goerr + nat option" where
  "rename_scan old new [] oldIdx = Inr oldIdx"
| "rename_scan old new ((i, m) # ms) oldIdx =
     (let oldIdx' = (if m = old then Some i else oldIdx) in
      if m = new then Inl (Err ''RenameMetric: metric already exists'')
      else rename_scan old new ms oldIdx')"

definition RenameMetric :: "metric \<Rightarrow> metric \<Rightarrow> dataframe \<Rightarrow> dataframe option" where
  "RenameMetric old new df =
     (case df_err df of Some e \<Rightarrow> Some (WithErr e)
      | None \<Rightarrow>
        (case rename_scan old new (enumerate 0 (df_metrics df)) None of
           Inl e \<Rightarrow> Some (WithErr e)
         | Inr None \<Rightarrow> Some (WithErr (Err ''RenameMetric: metric not found''))
         | Inr (Some oldIdx) \<Rightarrow> map_option (\<lambda>r. r\<lparr>df_metrics := (df_metrics r)[oldIdx := new]\<rparr>) (df_Copy df)))"

text \<open>
  Insert appends a missing asset and a missing metric, lays the columns out again when one was
  missing, with zeros in the new columns, and writes the values.
\<close>

definition grow_asset :: "asset \<Rightarrow> dataframe \<Rightarrow> dataframe" where
  "grow_asset a df =
     (if map_of (df_assetIndex df) (CompositeFigi a) \<noteq> None then df
      else df\<lparr>df_assetIndex := mput (CompositeFigi a) (length (df_assets df)) (df_assetIndex df),
              df_assets := df_assets df @ [a]\<rparr>)"

definition grow_metric :: "metric \<Rightarrow> dataframe \<Rightarrow> dataframe" where
  "grow_metric m df =
     (if metricIndex df m \<noteq> None then df else df\<lparr>df_metrics := df_metrics df @ [m]\<rparr>)"

definition regrid :: "dataframe \<Rightarrow> nat \<Rightarrow> nat \<Rightarrow> f64 list list" where
  "regrid df assetLen metricLen =
     concat (map (\<lambda>aIdx. map (\<lambda>mIdx.
         if aIdx < length (df_assets df) \<and> mIdx < length (df_metrics df)
         then df_columns df ! (aIdx * length (df_metrics df) + mIdx)
         else replicate (length (df_times df)) 0) [0..<metricLen]) [0..<assetLen])"

definition df_Insert :: "asset \<Rightarrow> metric \<Rightarrow> f64 list \<Rightarrow> dataframe \<Rightarrow> goerr + dataframe" where
  "df_Insert targetAsset metric values df =
     (case df_err df of Some e \<Rightarrow> Inl e
      | None \<Rightarrow>
        if length values \<noteq> length (df_times df) then Inl (Err ''Insert: values length does not match Len()'')
        else
          let df2 = grow_metric metric (grow_asset targetAsset df);
              df3 = (if map_of (df_assetIndex df) (CompositeFigi targetAsset) \<noteq> None \<and> metricIndex df metric \<noteq> None
                     then df2
                     else df2\<lparr>df_columns := regrid df (length (df_assets df2)) (length (df_metrics df2))\<rparr>);
              aIdx = mget 0 (df_assetIndex df3) (CompositeFigi targetAsset);
              mIdx = (case metricIndex df3 metric of None \<Rightarrow> 0 | Some i \<Rightarrow> i)
          in Inr (df3\<lparr>df_columns := (df_columns df3)[colIdx df3 aIdx mIdx := values]\<rparr>))"

section \<open>Arithmetic\<close>

record colPair =
  cp_a :: asset
  cp_m :: metric
  cp_selfCol :: nat
  cp_otherCol :: nat

definition findIntersection :: "dataframe \<Rightarrow> dataframe \<Rightarrow> colPair list \<times> asset list \<times> metric list" where
  "findIntersection df other =
     foldl (\<lambda>st (aIdx, ca).
         case map_of (df_assetIndex other) (CompositeFigi ca) of None \<Rightarrow> st
         | Some oa \<Rightarrow>
             foldl (\<lambda>(pairs, resAssets, resMetrics) (mIdx, cm).
                 case metricIndex other cm of None \<Rightarrow> (pairs, resAssets, resMetrics)
                 | Some om \<Rightarrow>
                     (pairs @ [\<lparr>cp_a = ca, cp_m = cm, cp_selfCol = colIdx df aIdx mIdx, cp_otherCol = colIdx other oa om\<rparr>],
                      if CompositeFigi ca \<in> CompositeFigi ` set resAssets then resAssets else resAssets @ [ca],
                      if cm \<in> set resMetrics then resMetrics else resMetrics @ [cm]))
               st (enumerate 0 (df_metrics df)))
       ([], [], []) (enumerate 0 (df_assets df))"

definition mk_metricIndex :: "metric list \<Rightarrow> (metric, nat) gomap" where
  "mk_metricIndex ms = fold (\<lambda>(i, m) acc. mput m i acc) (enumerate 0 ms) []"

definition elemWiseOp :: "(f64 list \<Rightarrow> f64 list \<Rightarrow> f64 list) \<Rightarrow> dataframe \<Rightarrow> dataframe \<Rightarrow> dataframe option" where
  "elemWiseOp apply' df other =
     (case df_err df of Some e \<Rightarrow> Some (WithErr e)
      | None \<Rightarrow>
        (case df_err other of Some e \<Rightarrow> Some (WithErr e)
         | None \<Rightarrow>
           if length (df_times other) \<noteq> length (df_times df)
           then Some (WithErr (Err ''elemWiseOp: timestamp count mismatch''))
           else if df_times df \<noteq> df_times other then Some (WithErr (Err ''elemWiseOp: timestamp mismatch''))
           else (case findIntersection df other of (pairs, resAssets, resMetrics) \<Rightarrow>
              if pairs = [] then empty_frame
              else let cols = foldl (\<lambda>cols p.
                         cols[mget 0 (mk_assetIndex resAssets) (CompositeFigi (cp_a p)) * length resMetrics
                              + mget 0 (mk_metricIndex resMetrics) (cp_m p)
                              := apply' (df_columns df ! cp_selfCol p) (df_columns other ! cp_otherCol p)])
                       (replicate (length resAssets * length resMetrics) []) pairs
                   in map_option (propagateAux df)
                        (mustNewDataFrame (df_times df) resAssets resMetrics (df_freq df) cols))))"

definition broadcastOp :: "(f64 list \<Rightarrow> f64 list \<Rightarrow> f64 list) \<Rightarrow> metric list \<Rightarrow> dataframe \<Rightarrow> dataframe \<Rightarrow> dataframe option" where
  "broadcastOp apply' metrics df other =
     (case df_err df of Some e \<Rightarrow> Some (WithErr e)
      | None \<Rightarrow>
        (case df_err other of Some e \<Rightarrow> Some (WithErr e)
         | None \<Rightarrow>
           if length (df_times other) \<noteq> length (df_times df)
           then Some (WithErr (Err ''broadcastOp: timestamp count mismatch''))
           else if df_times df \<noteq> df_times other then Some (WithErr (Err ''broadcastOp: timestamp mismatch''))
           else map_option (\<lambda>r. foldl (\<lambda>r m.
                  case metricIndex other m of None \<Rightarrow> r
                  | Some mIdx \<Rightarrow>
                      foldl (\<lambda>r aIdx.
                        case map_of (df_assetIndex other) (CompositeFigi (df_assets r ! aIdx)) of None \<Rightarrow> r
                        | Some oa \<Rightarrow>
                            foldl (\<lambda>r rm. r\<lparr>df_columns := (df_columns r)[colIdx r aIdx rm :=
                                apply' (df_columns r ! colIdx r aIdx rm) (colSlice other oa mIdx)]\<rparr>)
                              r [0..<length (df_metrics r)])
                        r [0..<length (df_assets r)]) r metrics)
                (df_Copy df)))"

definition df_Add :: "gonum \<Rightarrow> metric list \<Rightarrow> dataframe \<Rightarrow> dataframe \<Rightarrow> dataframe option" where
  "df_Add g metrics df other =
     (if metrics = [] then elemWiseOp (gn_AddTo g) df other else broadcastOp (gn_AddTo g) metrics df other)"

definition df_Sub :: "gonum \<Rightarrow> metric list \<Rightarrow> dataframe \<Rightarrow> dataframe \<Rightarrow> dataframe option" where
  "df_Sub g metrics df other =
     (if metrics = [] then elemWiseOp (gn_SubTo g) df other else broadcastOp (gn_SubTo g) metrics df other)"

definition df_Mul :: "gonum \<Rightarrow> metric list \<Rightarrow> dataframe \<Rightarrow> dataframe \<Rightarrow> dataframe option" where
  "df_Mul g metrics df other =
     (if metrics = [] then elemWiseOp (gn_MulTo g) df other else broadcastOp (gn_MulTo g) metrics df other)"

definition df_Div :: "gonum \<Rightarrow> metric list \<Rightarrow> dataframe \<Rightarrow> dataframe \<Rightarrow> dataframe option" where
  "df_Div g metrics df other =
     (if metrics = [] then elemWiseOp (gn_DivTo g) df other else broadcastOp (gn_DivTo g) metrics df other)"

definition map_columns :: "(f64 list \<Rightarrow> f64 list) \<Rightarrow> dataframe \<Rightarrow> dataframe" where
  "map_columns f r = r\<lparr>df_columns := map f (df_columns r)\<rparr>"

definition AddScalar :: "gonum \<Rightarrow> f64 \<Rightarrow> dataframe \<Rightarrow> dataframe option" where
  "AddScalar g c df =
     (case df_err df of Some e \<Rightarrow> Some (WithErr e)
      | None \<Rightarrow> map_option (map_columns (gn_AddConst g c)) (df_Copy df))"

definition SubScalar :: "gonum \<Rightarrow> f64 \<Rightarrow> dataframe \<Rightarrow> dataframe option" where
  "SubScalar g c df = (case df_err df of Some e \<Rightarrow> Some (WithErr e) | None \<Rightarrow> AddScalar g (- c) df)"

definition MulScalar :: "gonum \<Rightarrow> f64 \<Rightarrow> dataframe \<Rightarrow> dataframe option" where
  "MulScalar g c df =
     (case df_err df of Some e \<Rightarrow> Some (WithErr e)
      | None \<Rightarrow> map_option (map_columns (gn_Scale g c)) (df_Copy df))"

definition DivScalar :: "gonum \<Rightarrow> f64 \<Rightarrow> dataframe \<Rightarrow> dataframe option" where
  "DivScalar g c df = (case df_err df of Some e \<Rightarrow> Some (WithErr e) | None \<Rightarrow> MulScalar g (1 / c) df)"

section \<open>Aggregation across assets\<close>

definition Count :: metric where "Count = ''Count''"

definition best_across :: "(f64 \<Rightarrow> f64 \<Rightarrow> bool) \<Rightarrow> f64 \<Rightarrow> dataframe \<Rightarrow> nat \<Rightarrow> nat \<Rightarrow> f64" where
  "best_across better start df mIdx tIdx =
     foldl (\<lambda>best aIdx. let v = df_columns df ! colIdx df aIdx mIdx ! tIdx in if better v best then v else best)
       start [0..<length (df_assets df)]"

definition MaxAcrossAssets :: "dataframe \<Rightarrow> dataframe option" where
  "MaxAcrossAssets df =
     (case df_err df of Some e \<Rightarrow> Some (WithErr e)
      | None \<Rightarrow> map_option (propagateAux df)
          (mustNewDataFrame (df_times df) [mk_asset [] ''MAX''] (df_metrics df) (df_freq df)
             (map (\<lambda>mIdx. map (best_across (\<lambda>v best. v > best) NInf df mIdx) [0..<length (df_times df)])
                [0..<length (df_metrics df)])))"

definition MinAcrossAssets :: "dataframe \<Rightarrow> dataframe option" where
  "MinAcrossAssets df =
     (case df_err df of Some e \<Rightarrow> Some (WithErr e)
      | None \<Rightarrow> map_option (propagateAux df)
          (mustNewDataFrame (df_times df) [mk_asset [] ''MIN''] (df_metrics df) (df_freq df)
             (map (\<lambda>mIdx. map (best_across (\<lambda>v best. v < best) PInf df mIdx) [0..<length (df_times df)])
                [0..<length (df_metrics df)])))"

definition CountWhere :: "metric \<Rightarrow> (f64 \<Rightarrow> bool) \<Rightarrow> dataframe \<Rightarrow> dataframe option" where
  "CountWhere metric predicate df =
     (case df_err df of Some e \<Rightarrow> Some (WithErr e)
      | None \<Rightarrow>
        (case metricIndex df metric of None \<Rightarrow> Some (WithErr (Err ''CountWhere: metric not found''))
         | Some mIdx \<Rightarrow>
             map_option (propagateAux df)
               (mustNewDataFrame (df_times df) [mk_asset [] ''COUNT''] [Count] (df_freq df)
                  [map (\<lambda>tIdx. foldl (\<lambda>count aIdx.
                       if predicate (df_columns df ! colIdx df aIdx mIdx ! tIdx) then count + 1 else count)
                       0 [0..<length (df_assets df)]) [0..<length (df_times df)]])))"

text \<open>The asset of the largest first metric per timestamp; the outer \<open>None\<close> is the panic of a frame with rows and no assets or metrics.\<close>

definition IdxMaxAcrossAssets :: "dataframe \<Rightarrow> asset list option option" where
  "IdxMaxAcrossAssets df =
     (if df_err df \<noteq> None then Some None
      else if df_times df \<noteq> [] \<and> (df_assets df = [] \<or> df_metrics df = []) then None
      else Some (Some (map (\<lambda>tIdx.
             df_assets df ! snd (foldl (\<lambda>(best, bestIdx) aIdx.
                let v = df_columns df ! colIdx df aIdx 0 ! tIdx in if v > best then (v, aIdx) else (best, bestIdx))
                (NInf, 0) [0..<length (df_assets df)])) [0..<length (df_times df)])))"

section \<open>Merging\<close>

text \<open>Insertion of a list of entries, stopping at the first error.\<close>

primrec insert_all :: "('k \<Rightarrow> 'v \<Rightarrow> 't \<Rightarrow> 'e + 't) \<Rightarrow> ('k \<times> 'v) list \<Rightarrow> 't \<Rightarrow> 'e + 't" where
  "insert_all ins [] t = Inr t"
| "insert_all ins (e # es) t = (case ins (fst e) (snd e) t of Inl err \<Rightarrow> Inl err | Inr t' \<Rightarrow> insert_all ins es t')"

definition frame_entries :: "dataframe \<Rightarrow> ((asset \<times> metric) \<times> f64 list) list" where
  "frame_entries f =
     concat (map (\<lambda>(a, m). case df_Column f a m of None \<Rightarrow> [] | Some col \<Rightarrow> [((a, m), col)])
       (List.product (df_assets f) (df_metrics f)))"

fun check_times :: "dataframe \<Rightarrow> dataframe list \<Rightarrow> goerr option" where
  "check_times base [] = None"
| "check_times base (f # fs) =
     (if length (df_times f) \<noteq> length (df_times base) then Some (Err ''MergeColumns: timestamp count mismatch'')
      else if df_times base \<noteq> df_times f then Some (Err ''MergeColumns: timestamp mismatch'')
      else check_times base fs)"

definition MergeColumns :: "dataframe list \<Rightarrow> (goerr + dataframe) option" where
  "MergeColumns frames =
     (case frames of [] \<Rightarrow> map_option Inr empty_frame
      | [f] \<Rightarrow> Some (Inr f)
      | base # rest \<Rightarrow>
        (case check_times base rest of Some e \<Rightarrow> Some (Inl e)
         | None \<Rightarrow>
           map_option (\<lambda>result.
             case insert_all (\<lambda>(a, m). df_Insert a m) (concat (map frame_entries rest)) result of
               Inl e \<Rightarrow> Inl (Wrap ''MergeColumns: insert'' e)
             | Inr r \<Rightarrow> Inr r) (df_Copy base)))"

fun overlapping :: "dataframe list \<Rightarrow> bool" where
  "overlapping (f # f' # fs) \<longleftrightarrow> \<not> df_Start f' > df_End f \<or> overlapping (f' # fs)"
| "overlapping _ \<longleftrightarrow> False"

definition stacked_column :: "dataframe list \<Rightarrow> asset \<Rightarrow> metric \<Rightarrow> f64 list" where
  "stacked_column frames a m =
     concat (map (\<lambda>f. case df_Column f a m of None \<Rightarrow> replicate (length (df_times f)) 0 | Some col \<Rightarrow> col) frames)"

definition MergeTimes :: "dataframe list \<Rightarrow> (goerr + dataframe) option" where
  "MergeTimes frames =
     (case frames of [] \<Rightarrow> map_option Inr empty_frame
      | [f] \<Rightarrow> Some (Inr f)
      | _ \<Rightarrow>
        (case filter (\<lambda>f. df_Len f > 0) frames of [] \<Rightarrow> map_option Inr empty_frame
         | [f] \<Rightarrow> Some (Inr f)
         | nonEmpty \<Rightarrow>
           let sorted' = sort_key df_Start nonEmpty; first = hd sorted' in
           if overlapping sorted' then Some (Inl (Err ''MergeTimes: overlapping time ranges''))
           else Some (case NewDataFrame (concat (map df_times sorted')) (df_assets first) (df_metrics first) (df_freq first)
                        (concat (map (\<lambda>a. map (stacked_column sorted' a) (df_metrics first)) (df_assets first))) of
                  Inl e \<Rightarrow> Inl e
                | Inr result \<Rightarrow>
                    if list_all (\<lambda>f. df_riskFreeRates f \<noteq> None) sorted'
                    then (case SetRiskFreeRates result (concat (map (\<lambda>f. the (df_riskFreeRates f)) sorted')) of
                            Inl e \<Rightarrow> Inl (Wrap ''concat: set risk-free rates'' e)
                          | Inr r \<Rightarrow> Inr r)
                    else Inr result)))"

section \<open>Building frames\<close>

definition mk_frame :: "gotime list \<Rightarrow> asset list \<Rightarrow> metric list \<Rightarrow> Frequency \<Rightarrow> f64 list list \<Rightarrow> dataframe" where
  "mk_frame ts assets metrics freq cols =
     \<lparr>df_columns = cols, df_times = ts, df_dateKeys = None, df_assets = assets, df_metrics = metrics,
      df_assetIndex = mk_assetIndex assets, df_err = None, df_freq = freq, df_riskFreeRates = None\<rparr>"

lemma mk_frame_sel [simp]:
  "df_columns (mk_frame ts as ms f cols) = cols" "df_times (mk_frame ts as ms f cols) = ts"
  "df_dateKeys (mk_frame ts as ms f cols) = None" "df_assets (mk_frame ts as ms f cols) = as"
  "df_metrics (mk_frame ts as ms f cols) = ms" "df_assetIndex (mk_frame ts as ms f cols) = mk_assetIndex as"
  "df_err (mk_frame ts as ms f cols) = None" "df_freq (mk_frame ts as ms f cols) = f"
  "df_riskFreeRates (mk_frame ts as ms f cols) = None"
  by (simp_all add: mk_frame_def)

lemma mustNewDataFrame_Some:
  "length cols = length as * length ms \<Longrightarrow> list_all (\<lambda>col. length col = length ts) cols \<Longrightarrow>
   mustNewDataFrame ts as ms f cols = Some (mk_frame ts as ms f cols)"
  by (auto simp: mustNewDataFrame_def NewDataFrame_def mk_frame_def Let_def)

lemma empty_frame_eq: "empty_frame = Some df_zero"
  by (simp add: empty_frame_def mustNewDataFrame_def NewDataFrame_def df_zero_def mk_assetIndex_def)

lemma df_zero_sel [simp]:
  "df_columns df_zero = []" "df_times df_zero = []" "df_dateKeys df_zero = None" "df_assets df_zero = []"
  "df_metrics df_zero = []" "df_assetIndex df_zero = []" "df_err df_zero = None" "df_freq df_zero = Tick"
  "df_riskFreeRates df_zero = None"
  by (simp_all add: df_zero_def)

lemma df_zero_wf [simp]: "df_wf df_zero"
  by (simp add: df_wf_def df_zero_def mk_assetIndex_def)

lemma propagateAux_sel [simp]:
  "df_columns (propagateAux df r) = df_columns r" "df_times (propagateAux df r) = df_times r"
  "df_assets (propagateAux df r) = df_assets r" "df_metrics (propagateAux df r) = df_metrics r"
  "df_assetIndex (propagateAux df r) = df_assetIndex r" "df_err (propagateAux df r) = df_err r"
  "df_freq (propagateAux df r) = df_freq r" "df_riskFreeRates (propagateAux df r) = df_riskFreeRates df"
  "df_dateKeys (propagateAux df r) = df_dateKeys df"
  by (simp_all add: propagateAux_def)

lemma df_wfD:
  assumes "df_wf df"
  shows "length (df_columns df) = length (df_assets df) * length (df_metrics df)"
    "c \<in> set (df_columns df) \<Longrightarrow> length c = length (df_times df)"
    "df_assetIndex df = mk_assetIndex (df_assets df)"
    "df_dateKeys df = Some ks \<Longrightarrow> ks = map dateKey (df_times df)"
    "df_riskFreeRates df = Some rs \<Longrightarrow> length rs = length (df_times df)"
  using assms by (auto simp: df_wf_def list_all_iff)

lemma propagateAux_wf:
  assumes "df_wf df" "length cols = length as * length ms" "list_all (\<lambda>col. length col = length (df_times df)) cols"
  shows "df_wf (propagateAux df (mk_frame (df_times df) as ms f cols))"
  using assms by (auto simp: df_wf_def split: option.splits)

section \<open>Grids of columns\<close>

lemma concat_length_const: "(\<And>x. x \<in> set xs \<Longrightarrow> length (f x) = n) \<Longrightarrow> length (concat (map f xs)) = length xs * n"
  by (induction xs) auto

lemma concat_nth_const:
  assumes "\<And>x. x \<in> set xs \<Longrightarrow> length (f x) = n" "i < length xs" "j < n"
  shows "concat (map f xs) ! (i * n + j) = f (xs ! i) ! j"
  using assms
proof (induction xs arbitrary: i)
  case (Cons x xs)
  then show ?case
  proof (cases i)
    case (Suc k)
    have "length (f x) = n" using Cons.prems(1) by simp
    then show ?thesis using Cons Suc by (simp add: nth_append)
  qed (simp add: nth_append)
qed simp

lemma grid_index:
  fixes i :: nat
  assumes "i < a * n"
  shows "i div n < a" "i mod n < n" "i div n * n + i mod n = i"
proof -
  have "0 < n" using assms by (cases n) auto
  then show "i mod n < n" by simp
  show "i div n < a" using assms by (rule less_mult_imp_div_less)
qed simp

lemma grid_index_bound: "i < a \<Longrightarrow> j < n \<Longrightarrow> i * n + j < a * n" for i :: nat
proof -
  assume "i < a" "j < n"
  then have "i * n + j < Suc i * n" by simp
  also have "\<dots> \<le> a * n" using \<open>i < a\<close> by (intro mult_le_mono1) simp
  finally show ?thesis .
qed

lemma grid_index_inj:
  fixes i i' j j' n :: nat
  assumes "j < n" "j' < n"
  shows "i * n + j = i' * n + j' \<longleftrightarrow> i = i' \<and> j = j'"
proof
  assume e: "i * n + j = i' * n + j'"
  have "(i * n + j) div n = i" "(i * n + j) mod n = j" "(i' * n + j') div n = i'" "(i' * n + j') mod n = j'"
    using assms by simp_all
  then show "i = i' \<and> j = j'" using e by simp
qed simp

lemma grid_columns:
  assumes "length cols = a * n"
  shows "concat (map (\<lambda>i. map (\<lambda>j. h (cols ! (i * n + j))) [0..<n]) [0..<a]) = map h cols"
proof (rule nth_equalityI)
  show len: "length (concat (map (\<lambda>i. map (\<lambda>j. h (cols ! (i * n + j))) [0..<n]) [0..<a])) = length (map h cols)"
    using assms concat_length_const [of "[0..<a]" "\<lambda>i. map (\<lambda>j. h (cols ! (i * n + j))) [0..<n]" n] by simp
  fix k
  assume "k < length (concat (map (\<lambda>i. map (\<lambda>j. h (cols ! (i * n + j))) [0..<n]) [0..<a]))"
  then have k: "k < a * n" using len assms by simp
  note g = grid_index [OF k]
  have "concat (map (\<lambda>i. map (\<lambda>j. h (cols ! (i * n + j))) [0..<n]) [0..<a]) ! (k div n * n + k mod n)
      = map (\<lambda>j. h (cols ! ([0..<a] ! (k div n) * n + j))) [0..<n] ! (k mod n)"
    by (rule concat_nth_const) (use g in auto)
  then show "concat (map (\<lambda>i. map (\<lambda>j. h (cols ! (i * n + j))) [0..<n]) [0..<a]) ! k = map h cols ! k"
    using g k assms by simp
qed

section \<open>Columns\<close>

text \<open>An operation that transforms every column acts on the column of each asset and metric.\<close>

lemma df_Column_map:
  assumes "df_wf df" "df_err df = None" "df_err r = None" "df_assetIndex r = df_assetIndex df"
    "df_metrics r = df_metrics df" "df_columns r = map f (df_columns df)"
  shows "df_Column r a m = map_option f (df_Column df a m)"
proof -
  have "colIdx df i j < length (df_columns df)"
    if "map_of (df_assetIndex df) (CompositeFigi a) = Some i" "metricIndex df m = Some j" for i j
    using colIdx_bound [OF assms(1) that] .
  moreover have "metricIndex r m = metricIndex df m" "colIdx r i j = colIdx df i j" for i j
    using assms(5) by (simp_all add: metricIndex_def colIdx_def)
  ultimately show ?thesis using assms(2-4,6)
    by (auto simp: df_Column_def colSlice_def split: option.splits)
qed

lemma df_Copy_eq:
  assumes "df_wf df"
  shows "df_Copy df = Some (case df_err df of Some e \<Rightarrow> WithErr e | None \<Rightarrow> df)"
proof (cases "df_err df")
  case None
  have "mustNewDataFrame (df_times df) (df_assets df) (df_metrics df) (df_freq df) (df_columns df)
      = Some (mk_frame (df_times df) (df_assets df) (df_metrics df) (df_freq df) (df_columns df))"
    using assms by (intro mustNewDataFrame_Some) (auto simp: df_wf_def)
  then show ?thesis using None assms by (cases df) (simp add: df_Copy_def mk_frame_def df_wf_def)
qed (simp add: df_Copy_def)

lemma wf_within:
  assumes "df_wf df" "n \<le> length (df_times df)"
  shows "rows_within n df" "opt_within n (df_riskFreeRates df)" "opt_within n (df_dateKeys df)" "grid_within df"
  using assms by (auto simp: rows_within_def opt_within_def grid_within_def df_wf_def list_all_iff split: option.splits)

lemma timeIndex_bound: "df_wf df \<Longrightarrow> timeIndex df t = Some i \<Longrightarrow> i < length (df_times df)"
  using ensureDateKeys_keys [of df] by (auto simp: timeIndex_def timeIndexByDate_def Let_def split: if_splits)

lemma df_At_eq:
  assumes "df_wf df" "df_err df = None" "timeIndex df t = Some i"
  shows "df_At df t = Some ((mk_frame [df_times df ! i] (df_assets df) (df_metrics df) (df_freq df)
      (map (\<lambda>col. [col ! i]) (df_columns df)))\<lparr>df_riskFreeRates := map_option (\<lambda>rf. [rf ! i]) (df_riskFreeRates df)\<rparr>)"
proof -
  have "mustNewDataFrame [df_times df ! i] (df_assets df) (df_metrics df) (df_freq df) (map (\<lambda>col. [col ! i]) (df_columns df))
      = Some (mk_frame [df_times df ! i] (df_assets df) (df_metrics df) (df_freq df) (map (\<lambda>col. [col ! i]) (df_columns df)))"
    using df_wfD(1) [OF assms(1)] by (intro mustNewDataFrame_Some) (auto simp: list_all_iff)
  then show ?thesis
    using assms(2,3) grid_columns [OF df_wfD(1) [OF assms(1)], of "\<lambda>col. [col ! i]"] wf_within [OF assms(1), of "Suc i"] timeIndex_bound [OF assms(1,3)]
    by (cases "df_riskFreeRates df") (simp_all add: df_At_def colIdx_def mk_frame_def)
qed

lemma slice_length [simp]: "length (slice i j xs) = min j (length xs) - i"
  by (simp add: slice_def)

lemma slice_map: "slice i j (map f xs) = map f (slice i j xs)"
  by (simp add: slice_def take_map drop_map)

definition time_slice :: "nat \<Rightarrow> nat \<Rightarrow> dataframe \<Rightarrow> dataframe" where
  "time_slice i j df = df\<lparr>df_times := slice i j (df_times df), df_columns := map (slice i j) (df_columns df),
     df_riskFreeRates := map_option (slice i j) (df_riskFreeRates df),
     df_dateKeys := map_option (slice i j) (df_dateKeys df)\<rparr>"

lemma time_slice_wf: "df_wf df \<Longrightarrow> df_wf (time_slice i j df)"
  by (auto simp: df_wf_def list_all_iff slice_map time_slice_def split: option.splits)

lemma sliceByTimeIndices_eq:
  assumes "df_wf df" "df_err df = None" "i \<le> j" "j \<le> length (df_times df)"
  shows "sliceByTimeIndices i j df = Some (time_slice i j df)"
proof -
  have "list_all (\<lambda>col. length col = length (slice i j (df_times df))) (map (slice i j) (df_columns df))"
    using df_wfD(2) [OF assms(1)] by (auto simp: list_all_iff)
  then show ?thesis unfolding sliceByTimeIndices_def using df_wfD(1,3) [OF assms(1)] assms(2,3) wf_within [OF assms(1,4)]
    by (subst mustNewDataFrame_Some) (auto simp: mk_frame_def time_slice_def)
qed

lemma sliceByTimeIndices_Some:
  "df_wf df \<Longrightarrow> df_err df = None \<Longrightarrow> sliceByTimeIndices i j df = Some r \<Longrightarrow> r = time_slice i j df"
  using sliceByTimeIndices_eq [of df i j] by (auto simp: sliceByTimeIndices_def rows_within_def split: if_splits)

definition row_select :: "nat list \<Rightarrow> dataframe \<Rightarrow> dataframe" where
  "row_select is df = df\<lparr>df_times := map ((!) (df_times df)) is, df_columns := map (\<lambda>col. map ((!) col) is) (df_columns df),
     df_riskFreeRates := map_option (\<lambda>rf. map ((!) rf) is) (df_riskFreeRates df),
     df_dateKeys := map_option (\<lambda>dk. map ((!) dk) is) (df_dateKeys df)\<rparr>"

lemma row_select_wf: "df_wf df \<Longrightarrow> \<forall>i\<in>set is. i < length (df_times df) \<Longrightarrow> df_wf (row_select is df)"
  by (auto simp: df_wf_def list_all_iff row_select_def split: option.splits)

lemma sliceByIndices_eq:
  assumes "df_wf df" "df_err df = None" "\<forall>i\<in>set is. i < length (df_times df)"
  shows "sliceByIndices is df = Some (if is = [] then df_zero else row_select is df)"
proof -
  have "list_all (\<lambda>i. rows_within (Suc i) df \<and> opt_within (Suc i) (df_riskFreeRates df) \<and> opt_within (Suc i) (df_dateKeys df)) is"
    using assms(3) wf_within(1-3) [OF assms(1)] by (auto simp: list_all_iff Suc_le_eq)
  then show ?thesis unfolding sliceByIndices_def using df_wfD(1,3) [OF assms(1)] assms(2)
    by (subst mustNewDataFrame_Some) (auto simp: list_all_iff mk_frame_def row_select_def empty_frame_eq)
qed

section \<open>Ranges of rows\<close>

text \<open>On a sorted list the two searches of Between delimit the entries in a closed range.\<close>

lemma sort_search_iff:
  assumes "\<And>a b. a \<le> b \<Longrightarrow> b < n \<Longrightarrow> p a \<Longrightarrow> p b"
  shows "sort_search n p \<le> n" "k < n \<Longrightarrow> p k \<longleftrightarrow> sort_search n p \<le> k"
proof -
  have m: "p b" if "a \<le> b" "b < n" "p a" for a b using assms that by blast
  show "sort_search n p \<le> n" by (rule sort_search_spec(1)) (rule m)
  assume k: "k < n"
  show "p k \<longleftrightarrow> sort_search n p \<le> k"
  proof
    assume "p k"
    moreover have "\<not> p k" if "k < sort_search n p" by (rule sort_search_spec(2) [of n p, OF m that])
    ultimately show "sort_search n p \<le> k" using not_le by blast
  next
    assume "sort_search n p \<le> k"
    moreover have "p (sort_search n p)" if "sort_search n p < n" by (rule sort_search_spec(3) [of n p, OF m that])
    ultimately show "p k" using m [of "sort_search n p" k] k by simp
  qed
qed

lemma search_range:
  fixes xs :: "int list" and lo hi :: int
  assumes "sorted_wrt (<) xs"
  defines "i \<equiv> sort_search (length xs) (\<lambda>k. xs ! k \<ge> lo)" and "j \<equiv> sort_search (length xs) (\<lambda>k. xs ! k > hi)"
  shows "k < length xs \<Longrightarrow> (lo \<le> xs ! k \<and> xs ! k \<le> hi) \<longleftrightarrow> i \<le> k \<and> k < j" "j \<le> length xs"
proof -
  have le: "xs ! a \<le> xs ! b" if "a \<le> b" "b < length xs" for a b
    using that assms(1) by (metis le_neq_implies_less less_imp_le order_refl sorted_wrt_iff_nth_less)
  have m1: "xs ! b \<ge> lo" if "a \<le> b" "b < length xs" "xs ! a \<ge> lo" for a b using le [OF that(1,2)] that(3) by simp
  have m2: "xs ! b > hi" if "a \<le> b" "b < length xs" "xs ! a > hi" for a b using le [OF that(1,2)] that(3) by simp
  show "j \<le> length xs" unfolding j_def by (rule sort_search_iff(1)) (rule m2)
  assume k: "k < length xs"
  have "lo \<le> xs ! k \<longleftrightarrow> i \<le> k"
    unfolding i_def by (rule sort_search_iff(2) [of "length xs" "\<lambda>k. xs ! k \<ge> lo", OF m1 k])
  moreover have "hi < xs ! k \<longleftrightarrow> j \<le> k"
    unfolding j_def by (rule sort_search_iff(2) [of "length xs" "\<lambda>k. xs ! k > hi", OF m2 k])
  ultimately show "(lo \<le> xs ! k \<and> xs ! k \<le> hi) \<longleftrightarrow> i \<le> k \<and> k < j" by linarith
qed

lemma slice_nth_map: "j \<le> length xs \<Longrightarrow> slice i j xs = map ((!) xs) [i..<j]"
  by (auto simp: slice_def intro!: nth_equalityI)

lemma filter_upt_cong: "(\<And>k. k < n \<Longrightarrow> P k = Q k) \<Longrightarrow> filter P [0..<n] = filter Q [0..<n]"
  by (rule filter_cong) auto

lemma filter_upt_range: "j \<le> n \<Longrightarrow> filter (\<lambda>k. i \<le> k \<and> k < j) [0..<n] = [i..<j]"
  by (rule sorted_distinct_set_unique) (auto simp: sorted_wrt_filter)

definition in_range :: "gotime \<Rightarrow> gotime \<Rightarrow> Frequency \<Rightarrow> gotime \<Rightarrow> bool" where
  "in_range start end' freq t \<longleftrightarrow>
     (if daily_or_coarser freq then dateKey start \<le> dateKey t \<and> dateKey t \<le> dateKey end' else start \<le> t \<and> t \<le> end')"

definition rows_in_range :: "gotime \<Rightarrow> gotime \<Rightarrow> dataframe \<Rightarrow> nat list" where
  "rows_in_range start end' df =
     filter (\<lambda>i. in_range start end' (df_freq df) (df_times df ! i)) [0..<length (df_times df)]"

lemma ensureDateKeys_wf: "df_wf df \<Longrightarrow> df_wf (ensureDateKeys df)"
  by (auto simp: ensureDateKeys_def df_wf_def split: option.splits)

lemma ensureDateKeys_sel [simp]:
  "df_times (ensureDateKeys df) = df_times df" "df_columns (ensureDateKeys df) = df_columns df"
  "df_err (ensureDateKeys df) = df_err df" "df_freq (ensureDateKeys df) = df_freq df"
  "df_assets (ensureDateKeys df) = df_assets df" "df_metrics (ensureDateKeys df) = df_metrics df"
  "df_assetIndex (ensureDateKeys df) = df_assetIndex df" "df_riskFreeRates (ensureDateKeys df) = df_riskFreeRates df"
  by (simp_all add: ensureDateKeys_def)

lemma rows_in_range_bound: "i \<in> set (rows_in_range s e df) \<Longrightarrow> i < length (df_times df)"
  by (simp add: rows_in_range_def)

lemma time_slice_select:
  "df_wf df \<Longrightarrow> j \<le> length (df_times df) \<Longrightarrow> time_slice i j df = row_select [i..<j] df"
  by (cases "df_riskFreeRates df"; cases "df_dateKeys df")
     (auto simp: time_slice_def row_select_def slice_nth_map df_wf_def list_all_iff)

text \<open>The frame whose date cache Between may fill before it looks rows up.\<close>

definition with_dates :: "dataframe \<Rightarrow> dataframe" where
  "with_dates df = (if daily_or_coarser (df_freq df) then ensureDateKeys df else df)"

lemma with_dates_sel [simp]:
  "df_times (with_dates df) = df_times df" "df_columns (with_dates df) = df_columns df"
  "df_err (with_dates df) = df_err df" "df_freq (with_dates df) = df_freq df"
  "df_assets (with_dates df) = df_assets df" "df_metrics (with_dates df) = df_metrics df"
  "df_assetIndex (with_dates df) = df_assetIndex df" "df_riskFreeRates (with_dates df) = df_riskFreeRates df"
  "df_wf df \<Longrightarrow> df_wf (with_dates df)"
  by (simp_all add: with_dates_def ensureDateKeys_wf)

lemma Between_eq:
  assumes "df_wf df" "df_chrono df" "df_err df = None"
  shows "Between s e df = Some (let is = rows_in_range s e df in if is = [] then df_zero else row_select is (with_dates df))"
proof -
  define xs where "xs = (if daily_or_coarser (df_freq df) then map dateKey (df_times df) else df_times df)"
  define lo hi where "lo = (if daily_or_coarser (df_freq df) then dateKey s else s)"
    and "hi = (if daily_or_coarser (df_freq df) then dateKey e else e)"
  define i j where "i = sort_search (length xs) (\<lambda>k. xs ! k \<ge> lo)" and "j = sort_search (length xs) (\<lambda>k. xs ! k > hi)"
  have "sorted_wrt (<) xs" using assms(2) by (simp add: xs_def df_chrono_def)
  from search_range(1) [OF this, of _ lo hi] search_range(2) [OF this, of hi]
  have r: "k < length xs \<Longrightarrow> (lo \<le> xs ! k \<and> xs ! k \<le> hi) \<longleftrightarrow> i \<le> k \<and> k < j" "j \<le> length xs" for k
    by (simp_all add: i_def j_def)
  have len: "length xs = length (df_times df)" by (simp add: xs_def)
  have "in_range s e (df_freq df) (df_times df ! k) \<longleftrightarrow> i \<le> k \<and> k < j" if "k < length (df_times df)" for k
    using r(1) [of k] that len by (auto simp: in_range_def xs_def lo_def hi_def split: if_splits)
  from filter_upt_cong [of _ "\<lambda>k. in_range s e (df_freq df) (df_times df ! k)", OF this]
  have rows: "rows_in_range s e df = [i..<j]"
    using filter_upt_range [OF r(2), of i] len by (simp add: rows_in_range_def)
  have b: "Between s e df = (if i \<ge> j then empty_frame else sliceByTimeIndices i j (with_dates df))"
    using assms(3) ensureDateKeys_keys [OF assms(1)]
    by (auto simp: Between_def Let_def with_dates_def i_def j_def xs_def lo_def hi_def not_less)
  show ?thesis
  proof (cases "i \<ge> j")
    case True
    then show ?thesis using b rows by (simp add: empty_frame_eq Let_def)
  next
    case False
    then show ?thesis
      using b rows r(2) len time_slice_select [of "with_dates df" j i] sliceByTimeIndices_eq [of "with_dates df" i j] assms by (simp add: Let_def)
  qed
qed

section \<open>Filtering\<close>

text \<open>The frame a predicate sees for a row.\<close>

definition row_frame :: "dataframe \<Rightarrow> nat \<Rightarrow> dataframe" where
  "row_frame df i = mk_frame [df_times df ! i] (df_assets df) (df_metrics df) (df_freq df)
     (map (\<lambda>col. [col ! i]) (df_columns df))"

lemma filter_rows_pure:
  assumes "row = mk_frame ts (df_assets df) (df_metrics df) (df_freq df) cs"
  shows "filter_rows (pure_predicate p) df is row = filter (\<lambda>i. p (df_times df ! i) (row_frame df i)) is"
  using assms
  by (induction "is" arbitrary: row ts cs) (simp_all add: pure_predicate_def row_load_def row_frame_def mk_frame_def)

lemma df_Filter_pure:
  assumes "df_wf df" "df_err df = None"
  shows "df_Filter (pure_predicate p) df
    = sliceByIndices (filter (\<lambda>i. p (df_times df ! i) (row_frame df i)) [0..<length (df_times df)]) df"
proof -
  have "mustNewDataFrame [time_zero] (df_assets df) (df_metrics df) (df_freq df) (map (\<lambda>_. [0]) (df_columns df))
      = Some (mk_frame [time_zero] (df_assets df) (df_metrics df) (df_freq df) (map (\<lambda>_. [0]) (df_columns df)))"
    using df_wfD(1) [OF assms(1)] by (intro mustNewDataFrame_Some) (auto simp: list_all_iff)
  then show ?thesis using assms(2) filter_rows_pure [of _ "[time_zero]" df "map (\<lambda>_. [0]) (df_columns df)"] wf_within(1) [OF assms(1) order_refl]
    by (simp add: df_Filter_def)
qed

text \<open>The column scan of dropNaN marks the rows that hold a NaN in some column.\<close>

lemma mark_column:
  "length bad = n + length col \<Longrightarrow>
   foldl (\<lambda>bad (t, val). if isNaN val then bad[t := True] else bad) bad (enumerate n col)
     = take n bad @ map2 (\<lambda>b v. b \<or> isNaN v) (drop n bad) col"
proof (induction col arbitrary: n bad)
  case (Cons v col)
  then have d: "drop n bad = bad ! n # drop (Suc n) bad" by (intro Cons_nth_drop_Suc [symmetric]) simp
  have t: "take (Suc n) (if isNaN v then bad[n := True] else bad) = take n bad @ [bad ! n \<or> isNaN v]"
    using Cons.prems by (simp add: take_Suc_conv_app_nth)
  have r: "drop (Suc n) (if isNaN v then bad[n := True] else bad) = drop (Suc n) bad" by simp
  have "length (if isNaN v then bad[n := True] else bad) = Suc n + length col" using Cons.prems by simp
  from Cons.IH [OF this] show ?case by (simp add: d t r del: drop_update_cancel)
qed simp

lemma mark_columns:
  assumes "\<And>p. p \<in> set ps \<Longrightarrow> length (f p) = n" "length bad = n"
  shows "foldl (\<lambda>bad p. foldl (\<lambda>bad (t, val). if isNaN val then bad[t := True] else bad) bad (enumerate 0 (f p))) bad ps
    = map (\<lambda>t. bad ! t \<or> (\<exists>p\<in>set ps. isNaN (f p ! t))) [0..<n]"
  using assms
proof (induction ps arbitrary: bad)
  case Nil
  then show ?case using map_nth [of bad] by simp
next
  case (Cons p ps)
  have m: "foldl (\<lambda>bad (t, val). if isNaN val then bad[t := True] else bad) bad (enumerate 0 (f p))
      = map2 (\<lambda>b v. b \<or> isNaN v) bad (f p)"
    using mark_column [of bad 0 "f p"] Cons.prems by simp
  have "length (map2 (\<lambda>b v. b \<or> isNaN v) bad (f p)) = n" using Cons.prems by simp
  from Cons.IH [OF _ this] Cons.prems
  have "foldl (\<lambda>bad p. foldl (\<lambda>bad (t, val). if isNaN val then bad[t := True] else bad) bad (enumerate 0 (f p)))
        (map2 (\<lambda>b v. b \<or> isNaN v) bad (f p)) ps
      = map (\<lambda>t. map2 (\<lambda>b v. b \<or> isNaN v) bad (f p) ! t \<or> (\<exists>p\<in>set ps. isNaN (f p ! t))) [0..<n]" by simp
  then show ?case using Cons.prems by (simp add: m)
qed

lemma all_columns:
  assumes "df_wf df"
  shows "(\<exists>p\<in>set (List.product [0..<length (df_assets df)] [0..<length (df_metrics df)]). P (colSlice df (fst p) (snd p)))
    \<longleftrightarrow> (\<exists>c\<in>set (df_columns df). P c)"
proof -
  let ?A = "length (df_assets df)" and ?M = "length (df_metrics df)"
  have len: "length (df_columns df) = ?A * ?M" using df_wfD(1) [OF assms] .
  show ?thesis
  proof
    assume "\<exists>p\<in>set (List.product [0..<?A] [0..<?M]). P (colSlice df (fst p) (snd p))"
    then obtain i j where ij: "i < ?A" "j < ?M" "P (colSlice df i j)" by auto
    then have "colIdx df i j < length (df_columns df)" using grid_index_bound len by (simp add: colIdx_def)
    then show "\<exists>c\<in>set (df_columns df). P c" using ij(3) by (auto simp: colSlice_def)
  next
    assume "\<exists>c\<in>set (df_columns df). P c"
    then obtain k where k: "k < ?A * ?M" "P (df_columns df ! k)" using len by (auto simp: in_set_conv_nth)
    note g = grid_index [OF k(1)]
    then have "P (colSlice df (k div ?M) (k mod ?M))" using k(2) by (simp add: colSlice_def colIdx_def)
    then show "\<exists>p\<in>set (List.product [0..<?A] [0..<?M]). P (colSlice df (fst p) (snd p))" using g(1,2) by fastforce
  qed
qed

text \<open>Drop(NaN) takes the column scan; it is Filter with the row predicate it stands for.\<close>

lemma dropNaN_eq:
  assumes "df_wf df" "df_err df = None"
  shows "dropNaN df = sliceByIndices (filter (\<lambda>t. \<not> (\<exists>c\<in>set (df_columns df). isNaN (c ! t))) [0..<length (df_times df)]) df"
proof (cases "df_times df = []")
  case True
  then show ?thesis by (simp add: dropNaN_def sliceByIndices_def)
next
  case False
  let ?ps = "List.product [0..<length (df_assets df)] [0..<length (df_metrics df)]"
  have "length (colSlice df (fst p) (snd p)) = length (df_times df)" if "p \<in> set ?ps" for p
    using that df_wfD(1,2) [OF assms(1)] grid_index_bound by (auto simp: colSlice_def colIdx_def)
  note m = mark_columns [of ?ps "\<lambda>p. colSlice df (fst p) (snd p)", OF this, of "replicate (length (df_times df)) False"]
  define bad where "bad = map (\<lambda>t. \<exists>p\<in>set ?ps. isNaN (colSlice df (fst p) (snd p) ! t)) [0..<length (df_times df)]"
  have b: "map (\<lambda>t. replicate (length (df_times df)) False ! t
      \<or> (\<exists>p\<in>set ?ps. isNaN (colSlice df (fst p) (snd p) ! t))) [0..<length (df_times df)] = bad"
    by (simp add: bad_def)
  have "grid_within df" "\<not> list_ex (\<lambda>col. list_ex isNaN (drop (length (df_times df)) col)) (df_columns df)"
    using wf_within(4) [OF assms(1) order_refl] df_wfD(2) [OF assms(1)] by (simp_all add: list_ex_iff)
  then have "dropNaN df = sliceByIndices (filter (\<lambda>t. \<not> bad ! t) [0..<length bad]) df"
    using False m [OF _ length_replicate, unfolded b case_prod_unfold] by (simp add: dropNaN_def case_prod_unfold)
  moreover have "filter (\<lambda>t. \<not> bad ! t) [0..<length (df_times df)]
      = filter (\<lambda>t. \<not> (\<exists>c\<in>set (df_columns df). isNaN (c ! t))) [0..<length (df_times df)]"
    by (rule filter_upt_cong) (simp only: bad_def nth_map_upt all_columns [OF assms(1), of "\<lambda>c. isNaN (c ! _)"] diff_zero add_0)
  ultimately show ?thesis by (simp add: bad_def)
qed

lemma dropNaN_Filter:
  assumes "df_wf df" "df_err df = None"
  shows "dropNaN df = df_Filter (pure_predicate (\<lambda>_ row. list_all (\<lambda>col. \<not> isNaN (hd col)) (df_columns row))) df"
  using df_Filter_pure [OF assms] dropNaN_eq [OF assms] by (simp add: row_frame_def list_all_iff)

section \<open>Assets and metrics\<close>

lemma mk_assetIndex_snoc: "mk_assetIndex (as @ [a]) = mput (CompositeFigi a) (length as) (mk_assetIndex as)"
  by (simp add: mk_assetIndex_def enumerate_append_eq)

lemma mk_assetIndex_has: "map_of (mk_assetIndex as) f = None \<longleftrightarrow> f \<notin> CompositeFigi ` set as"
  by (induction as rule: rev_induct) (auto simp: mk_assetIndex_snoc, simp_all add: mk_assetIndex_def)

lemma mk_assetIndex_nth:
  assumes "distinct (map CompositeFigi as)" "i < length as"
  shows "map_of (mk_assetIndex as) (CompositeFigi (as ! i)) = Some i"
  using assms
proof (induction as rule: rev_induct)
  case (snoc a as)
  have "CompositeFigi (as ! i) \<noteq> CompositeFigi a" if "i < length as" using snoc.prems(1) nth_mem [OF that] by (auto simp: image_iff)
  then show ?case using snoc by (cases "i < length as") (auto simp: mk_assetIndex_snoc nth_append less_Suc_eq)
qed simp

lemma metric_pos_nth:
  "distinct ms \<Longrightarrow> i < length ms \<Longrightarrow> metric_pos ms n (ms ! i) = Some (n + i)"
proof (induction ms arbitrary: i n)
  case (Cons m ms)
  then show ?case by (cases i) auto
qed simp

lemma metric_pos_append:
  "metric_pos (ms @ ms') n m = (case metric_pos ms n m of Some i \<Rightarrow> Some i | None \<Rightarrow> metric_pos ms' (n + length ms) m)"
  by (induction ms arbitrary: n) (auto split: option.splits)

text \<open>Asset names and metrics without repetitions, as frames are built.\<close>

definition df_keys :: "dataframe \<Rightarrow> bool" where
  "df_keys df \<longleftrightarrow> distinct (map CompositeFigi (df_assets df)) \<and> distinct (df_metrics df)"

text \<open>The loop of Assets: indices of the requested assets the frame has, each once, in order of request.\<close>

definition match_step :: "dataframe \<Rightarrow> nat list \<times> string list \<Rightarrow> asset \<Rightarrow> nat list \<times> string list" where
  "match_step df = (\<lambda>(idxs, seen) aa.
     if CompositeFigi aa \<in> set seen then (idxs, seen)
     else case map_of (df_assetIndex df) (CompositeFigi aa) of None \<Rightarrow> (idxs, seen)
          | Some idx \<Rightarrow> (idxs @ [idx], CompositeFigi aa # seen))"

definition match_assets :: "dataframe \<Rightarrow> asset list \<Rightarrow> nat list" where
  "match_assets df xs = fst (foldl (match_step df) ([], []) xs)"

lemma match_assets_inv:
  assumes "df_wf df"
  defines "st \<equiv> \<lambda>xs. foldl (match_step df) ([], []) xs"
  shows "set (snd (st xs)) = CompositeFigi ` set xs \<inter> CompositeFigi ` set (df_assets df)"
    "map (\<lambda>i. CompositeFigi (df_assets df ! i)) (fst (st xs)) = rev (snd (st xs))"
    "distinct (snd (st xs))" "\<forall>i\<in>set (fst (st xs)). i < length (df_assets df)
       \<and> map_of (df_assetIndex df) (CompositeFigi (df_assets df ! i)) = Some i"
proof (atomize (full), induction xs rule: rev_induct)
  case Nil
  then show ?case by (simp add: st_def)
next
  case (snoc x xs)
  have step: "st (xs @ [x]) = match_step df (st xs) x" by (simp add: st_def)
  obtain idxs seen where st: "st xs = (idxs, seen)" by fastforce
  note wf = df_wfD(3) [OF assms(1)]
  show ?case
  proof (cases "map_of (df_assetIndex df) (CompositeFigi x)")
    case None
    then have "CompositeFigi x \<notin> CompositeFigi ` set (df_assets df)" using wf mk_assetIndex_has by simp
    then show ?thesis using snoc None by (auto simp: step st match_step_def)
  next
    case (Some i)
    then have i: "i < length (df_assets df)" "CompositeFigi (df_assets df ! i) = CompositeFigi x"
      using wf assetIndex_figi by auto
    then have "CompositeFigi x \<in> CompositeFigi ` set (df_assets df)" by (metis image_eqI nth_mem)
    then show ?thesis using snoc Some i by (auto simp: step st match_step_def)
  qed
qed

lemma df_Assets_eq:
  assumes "df_wf df" "df_err df = None"
  shows "df_Assets xs df = Some (let is = match_assets df xs in if is = [] then df_zero
    else propagateAux df (mk_frame (df_times df) (map ((!) (df_assets df)) is) (df_metrics df) (df_freq df)
      (concat (map (\<lambda>old. map (\<lambda>m. df_columns df ! colIdx df old m) [0..<length (df_metrics df)]) is))))"
proof -
  let ?is = "match_assets df xs"
  let ?cols = "concat (map (\<lambda>old. map (\<lambda>m. df_columns df ! colIdx df old m) [0..<length (df_metrics df)]) ?is)"
  have lt: "\<forall>i\<in>set ?is. i < length (df_assets df)" using match_assets_inv(4) [OF assms(1)] by (simp add: match_assets_def)
  have "length ?cols = length (map ((!) (df_assets df)) ?is) * length (df_metrics df)"
    by (subst concat_length_const [where n = "length (df_metrics df)"]) auto
  moreover have "list_all (\<lambda>c. length c = length (df_times df)) ?cols"
    using lt df_wfD(1,2) [OF assms(1)] grid_index_bound by (auto simp: list_all_iff colIdx_def)
  ultimately have "mustNewDataFrame (df_times df) (map ((!) (df_assets df)) ?is) (df_metrics df) (df_freq df) ?cols
      = Some (mk_frame (df_times df) (map ((!) (df_assets df)) ?is) (df_metrics df) (df_freq df) ?cols)"
    by (rule mustNewDataFrame_Some)
  then show ?thesis using assms(2)
    by (simp add: df_Assets_def match_assets_def match_step_def Let_def empty_frame_eq)
qed

lemma grid_nth:
  "i < length xs \<Longrightarrow> j < length ys \<Longrightarrow> concat (map (\<lambda>x. map (f x) ys) xs) ! (i * length ys + j) = f (xs ! i) (ys ! j)"
  by (subst concat_nth_const) auto

lemma df_Column_none: "df_Column df_zero a m = None"
  by (simp add: df_Column_def df_zero_def)

lemma df_Column_wf:
  assumes "df_wf df" "df_err df = None"
  shows "df_Column df a m = (case map_of (mk_assetIndex (df_assets df)) (CompositeFigi a) of None \<Rightarrow> None
    | Some i \<Rightarrow> map_option (\<lambda>j. df_columns df ! (i * length (df_metrics df) + j)) (metric_pos (df_metrics df) 0 m))"
  using assms df_wfD(3) [OF assms(1)]
  by (auto simp: df_Column_def colSlice_def colIdx_def metricIndex_def split: option.splits)

lemma df_Assets_column:
  assumes "df_wf df" "df_err df = None" "df_Assets xs df = Some r"
  shows "df_Column r a m = (if CompositeFigi a \<in> CompositeFigi ` set xs then df_Column df a m else None)" "df_wf r"
proof -
  let ?is = "match_assets df xs" and ?f = "CompositeFigi a"
  note inv = match_assets_inv [OF assms(1), of xs, folded match_assets_def]
  have d: "distinct (map CompositeFigi (map ((!) (df_assets df)) ?is))"
    using inv(2,3) by (simp add: o_def)
  have keys: "set (map CompositeFigi (map ((!) (df_assets df)) ?is)) = CompositeFigi ` set xs \<inter> CompositeFigi ` set (df_assets df)"
    using inv(1) arg_cong [OF inv(2), of set] by (simp add: image_comp o_def)
  have len: "length (concat (map (\<lambda>old. map (\<lambda>m. df_columns df ! colIdx df old m) [0..<length (df_metrics df)]) ?is))
      = length (map ((!) (df_assets df)) ?is) * length (df_metrics df)"
    by (subst concat_length_const [where n = "length (df_metrics df)"]) auto
  have r: "r = (if ?is = [] then df_zero
    else propagateAux df (mk_frame (df_times df) (map ((!) (df_assets df)) ?is) (df_metrics df) (df_freq df)
      (concat (map (\<lambda>old. map (\<lambda>m. df_columns df ! colIdx df old m) [0..<length (df_metrics df)]) ?is))))"
    using df_Assets_eq [OF assms(1,2), of xs] assms(3) by (simp add: Let_def)
  show wf: "df_wf r"
    using r propagateAux_wf [OF assms(1) len] inv(4) df_wfD(1,2) [OF assms(1)] grid_index_bound
    by (auto simp: list_all_iff colIdx_def)
  show "df_Column r a m = (if ?f \<in> CompositeFigi ` set xs then df_Column df a m else None)"
  proof (cases "?f \<in> CompositeFigi ` set xs \<inter> CompositeFigi ` set (df_assets df)")
    case True
    then have "?f \<in> set (map (\<lambda>i. CompositeFigi (df_assets df ! i)) ?is)" using keys by (simp add: image_comp o_def)
    then obtain k where k: "k < length ?is" "CompositeFigi (df_assets df ! (?is ! k)) = ?f"
      unfolding in_set_conv_nth by auto
    have i: "map_of (mk_assetIndex (df_assets df)) ?f = Some (?is ! k)"
      using inv(4) k df_wfD(3) [OF assms(1)] nth_mem by fastforce
    have "map_of (mk_assetIndex (map ((!) (df_assets df)) ?is)) ?f = Some k"
      using mk_assetIndex_nth [OF d, of k] k by simp
    moreover have "j < length (df_metrics df)" if "metric_pos (df_metrics df) 0 m = Some j" for j
      using metric_pos_Some [OF that] by simp
    moreover have "concat (map (\<lambda>old. map (\<lambda>m. df_columns df ! colIdx df old m) [0..<length (df_metrics df)]) ?is)
        ! (k * length (df_metrics df) + j) = df_columns df ! (?is ! k * length (df_metrics df) + j)"
      if "j < length (df_metrics df)" for j
      using grid_nth [of k ?is j "[0..<length (df_metrics df)]"] k that by (simp add: colIdx_def)
    moreover have "?is \<noteq> []" using k by auto
    then have "df_err r = None" "df_assets r = map ((!) (df_assets df)) ?is" "df_metrics r = df_metrics df"
      "df_columns r = concat (map (\<lambda>old. map (\<lambda>m. df_columns df ! colIdx df old m) [0..<length (df_metrics df)]) ?is)"
      using r by simp_all
    ultimately have "df_Column r a m = df_Column df a m"
      using i by (cases "metric_pos (df_metrics df) 0 m") (simp_all add: df_Column_wf [OF wf] df_Column_wf [OF assms(1,2)])
    then show ?thesis using True by simp
  next
    case False
    then have "df_Column r a m = None"
      using r keys mk_assetIndex_has [of "map ((!) (df_assets df)) ?is" ?f]
      by (auto simp: df_Column_none df_Column_def split: option.splits)
    moreover have "?f \<in> CompositeFigi ` set xs \<Longrightarrow> df_Column df a m = None"
      using False mk_assetIndex_has [of "df_assets df" ?f] df_Column_wf [OF assms(1,2)] by simp
    ultimately show ?thesis by simp
  qed
qed

lemma metric_pos_filter_nth:
  "metric_pos ms n m = Some k \<Longrightarrow> ms ! (k - n) = m \<and> n \<le> k \<and> k - n < length ms"
  using metric_pos_Some [of ms n m k] by auto

lemma df_Metrics_column:
  assumes "df_wf df" "df_err df = None" "df_Metrics xs df = Some r"
  shows "df_Column r a m = (if m \<in> set xs then df_Column df a m else None)" "df_wf r"
proof -
  let ?ms = "filter (\<lambda>m. metricIndex df m \<noteq> None) xs"
  let ?js = "map (\<lambda>m. the (metricIndex df m)) ?ms"
  let ?cols = "concat (map (\<lambda>i. map (\<lambda>old. df_columns df ! colIdx df i old) ?js) [0..<length (df_assets df)])"
  have js: "\<forall>j\<in>set ?js. j < length (df_metrics df)" using metricIndex_bound by auto
  have len: "length ?cols = length (df_assets df) * length ?ms"
    by (subst concat_length_const [where n = "length ?ms"]) auto
  have lens: "list_all (\<lambda>c. length c = length (df_times df)) ?cols"
    using js df_wfD(1,2) [OF assms(1)] grid_index_bound by (auto simp: list_all_iff colIdx_def)
  have r: "r = (if ?ms = [] then df_zero
      else propagateAux df (mk_frame (df_times df) (df_assets df) ?ms (df_freq df) ?cols))"
    using assms(2,3) mustNewDataFrame_Some [OF len lens] by (auto simp: df_Metrics_def Let_def empty_frame_eq)
  show wf: "df_wf r" using r propagateAux_wf [OF assms(1) len lens] by simp
  have mem: "m \<in> set (df_metrics df) \<longleftrightarrow> metricIndex df m \<noteq> None" for m by (simp add: metricIndex_def metric_pos_None)
  show "df_Column r a m = (if m \<in> set xs then df_Column df a m else None)"
  proof (cases "m \<in> set ?ms")
    case True
    then obtain k where k: "metric_pos ?ms 0 m = Some k" using metric_pos_None [of ?ms 0 m] by blast
    note kk = metric_pos_Some [OF k]
    obtain j where j: "metricIndex df m = Some j" using True by auto
    have "?cols ! (i * length ?ms + k) = df_columns df ! (i * length (df_metrics df) + j)" if "i < length (df_assets df)" for i
      using grid_nth [of i "[0..<length (df_assets df)]" k ?js] that kk j by (simp add: colIdx_def)
    moreover have "i < length (df_assets df)" if "map_of (mk_assetIndex (df_assets df)) (CompositeFigi a) = Some i" for i
      using assetIndex_figi [OF that] by simp
    moreover have "?ms \<noteq> []" using True by (metis empty_iff empty_set)
    then have "df_err r = None" "df_assets r = df_assets df" "df_metrics r = ?ms" "df_columns r = ?cols" using r by simp_all
    ultimately have "df_Column r a m = df_Column df a m"
      using k j by (cases "map_of (mk_assetIndex (df_assets df)) (CompositeFigi a)")
        (simp_all add: df_Column_wf [OF wf] df_Column_wf [OF assms(1,2)] metricIndex_def)
    then show ?thesis using True by simp
  next
    case False
    have "df_Column r a m = None"
      using r False metric_pos_None [of ?ms 0 m] by (auto simp: df_Column_none df_Column_def metricIndex_def split: option.splits)
    then show ?thesis using False by (auto simp: df_Column_def split: option.splits)
  qed
qed

section \<open>Insertion\<close>

definition all_assets :: "asset \<Rightarrow> dataframe \<Rightarrow> asset list" where
  "all_assets a df = (if CompositeFigi a \<in> CompositeFigi ` set (df_assets df) then df_assets df else df_assets df @ [a])"

definition all_metrics :: "metric \<Rightarrow> dataframe \<Rightarrow> metric list" where
  "all_metrics m df = (if m \<in> set (df_metrics df) then df_metrics df else df_metrics df @ [m])"

lemma grow_asset_eq:
  "df_wf df \<Longrightarrow> grow_asset a df = df\<lparr>df_assets := all_assets a df, df_assetIndex := mk_assetIndex (all_assets a df)\<rparr>"
  using mk_assetIndex_has [of "df_assets df" "CompositeFigi a"] df_wfD(3) [of df]
  by (auto simp: grow_asset_def all_assets_def mk_assetIndex_snoc)

lemma grow_metric_eq: "grow_metric m df = df\<lparr>df_metrics := all_metrics m df\<rparr>"
  by (auto simp: grow_metric_def all_metrics_def metricIndex_def metric_pos_None)

lemma regrid_length: "length (regrid df a n) = a * n"
  unfolding regrid_def by (subst concat_length_const [where n = n]) auto

lemma regrid_nth:
  "i < a \<Longrightarrow> j < n \<Longrightarrow> regrid df a n ! (i * n + j) =
     (if i < length (df_assets df) \<and> j < length (df_metrics df) then df_columns df ! (i * length (df_metrics df) + j)
      else replicate (length (df_times df)) 0)"
  unfolding regrid_def by (subst concat_nth_const [where n = n]) auto

lemma regrid_same:
  assumes "df_wf df"
  shows "regrid df (length (df_assets df)) (length (df_metrics df)) = df_columns df"
proof (rule nth_equalityI)
  show l: "length (regrid df (length (df_assets df)) (length (df_metrics df))) = length (df_columns df)"
    using df_wfD(1) [OF assms] by (simp add: regrid_length)
  fix k
  assume "k < length (regrid df (length (df_assets df)) (length (df_metrics df)))"
  then have "k < length (df_assets df) * length (df_metrics df)" by (simp add: regrid_length)
  note g = grid_index [OF this]
  show "regrid df (length (df_assets df)) (length (df_metrics df)) ! k = df_columns df ! k"
    using regrid_nth [OF g(1,2), of df] g by simp
qed

lemma df_Insert_eq:
  fixes a m and df :: dataframe
  assumes "df_wf df" "df_err df = None" "length vs = length (df_times df)"
  defines "as \<equiv> all_assets a df" and "ms \<equiv> all_metrics m df"
  shows "\<exists>i j. map_of (mk_assetIndex as) (CompositeFigi a) = Some i \<and> i < length as \<and> metric_pos ms 0 m = Some j \<and> j < length ms
    \<and> df_Insert a m vs df = Inr (df\<lparr>df_assets := as, df_metrics := ms, df_assetIndex := mk_assetIndex as,
          df_columns := (regrid df (length as) (length ms))[i * length ms + j := vs]\<rparr>)"
proof -
  have "CompositeFigi a \<in> CompositeFigi ` set as" "m \<in> set ms" by (simp_all add: as_def ms_def all_assets_def all_metrics_def)
  then obtain i j where ij: "map_of (mk_assetIndex as) (CompositeFigi a) = Some i" "metric_pos ms 0 m = Some j"
    using mk_assetIndex_has [of as "CompositeFigi a"] metric_pos_None [of ms 0 m] by blast
  let ?df2 = "df\<lparr>df_assets := as, df_metrics := ms, df_assetIndex := mk_assetIndex as\<rparr>"
  have am: "all_metrics m (df\<lparr>df_assets := x, df_assetIndex := y\<rparr>) = ms" for x y by (simp add: ms_def all_metrics_def)
  have df2: "grow_metric m (grow_asset a df) = ?df2"
    by (simp add: grow_metric_eq grow_asset_eq [OF assms(1)] am as_def)
  have ex: "map_of (df_assetIndex df) (CompositeFigi a) \<noteq> None \<and> metricIndex df m \<noteq> None
      \<Longrightarrow> regrid df (length as) (length ms) = df_columns df"
    using regrid_same [OF assms(1)] mk_assetIndex_has [of "df_assets df" "CompositeFigi a"] df_wfD(3) [OF assms(1)]
    by (auto simp: as_def ms_def all_assets_def all_metrics_def metricIndex_def metric_pos_None)
  have "df_Insert a m vs df = Inr (?df2\<lparr>df_columns := (regrid df (length as) (length ms))[i * length ms + j := vs]\<rparr>)"
    using assms(2,3) ij ex by (auto simp: df_Insert_def df2 Let_def colIdx_def metricIndex_def mget_def)
  then show ?thesis using ij assetIndex_figi [OF ij(1)] metric_pos_Some [OF ij(2)] by auto
qed

text \<open>
  Insert and Column behave as update and lookup of a table keyed by identifier and metric. A
  new asset or metric also creates the other columns of its row or column, filled with zeros.
\<close>

definition df_has :: "dataframe \<Rightarrow> asset \<Rightarrow> metric \<Rightarrow> bool" where
  "df_has df a m \<longleftrightarrow> CompositeFigi a \<in> CompositeFigi ` set (df_assets df) \<and> m \<in> set (df_metrics df)"

lemma df_Column_has:
  assumes "df_wf df" "df_err df = None"
  shows "df_Column df a m \<noteq> None \<longleftrightarrow> df_has df a m"
  using mk_assetIndex_has [of "df_assets df" "CompositeFigi a"] metric_pos_None [of "df_metrics df" 0 m]
  by (auto simp: df_Column_wf [OF assms] df_has_def split: option.splits)

lemma metric_pos_snoc:
  "metric_pos (ms @ [m]) 0 x = (if x \<in> set ms then metric_pos ms 0 x else if x = m then Some (length ms) else None)"
  using metric_pos_None [of ms 0 x] by (auto simp: metric_pos_append split: option.splits)

lemma df_Insert_column:
  assumes "df_wf df" "df_Insert a m vs df = Inr r"
  shows "df_err df = None" "length vs = length (df_times df)" "df_wf r" "df_err r = None" "df_times r = df_times df"
    "df_Column r b n = (if CompositeFigi b = CompositeFigi a \<and> n = m then Some vs
       else if df_has df b n then df_Column df b n
       else if (CompositeFigi b = CompositeFigi a \<or> CompositeFigi b \<in> CompositeFigi ` set (df_assets df)) \<and> (n = m \<or> n \<in> set (df_metrics df))
       then Some (replicate (length (df_times df)) 0) else None)"
proof -
  show e: "df_err df = None" and l: "length vs = length (df_times df)"
    using assms(2) by (auto simp: df_Insert_def split: option.splits if_splits)
  define as where "as = all_assets a df"
  define ms where "ms = all_metrics m df"
  obtain ia ja where ija: "map_of (mk_assetIndex as) (CompositeFigi a) = Some ia" "ia < length as"
      "metric_pos ms 0 m = Some ja" "ja < length ms"
    and r0: "df_Insert a m vs df = Inr (df\<lparr>df_assets := as, df_metrics := ms, df_assetIndex := mk_assetIndex as,
          df_columns := (regrid df (length as) (length ms))[ia * length ms + ja := vs]\<rparr>)"
    using df_Insert_eq [OF assms(1) e l, of a m] unfolding as_def ms_def by blast
  define cols where "cols = (regrid df (length as) (length ms))[ia * length ms + ja := vs]"
  have r: "r = df\<lparr>df_assets := as, df_metrics := ms, df_assetIndex := mk_assetIndex as, df_columns := cols\<rparr>"
    using r0 assms(2) by (simp add: cols_def)
  have len: "length cols = length as * length ms" by (simp add: cols_def regrid_length)
  have cell: "cols ! (i * length ms + j) = (if i = ia \<and> j = ja then vs
         else if i < length (df_assets df) \<and> j < length (df_metrics df) then df_columns df ! (i * length (df_metrics df) + j)
         else replicate (length (df_times df)) 0)" if ij: "i < length as" "j < length ms" for i j
  proof -
    have "ia * length ms + ja = i * length ms + j \<longleftrightarrow> ia = i \<and> ja = j"
      using grid_index_inj [OF ija(4) ij(2)] by auto
    then show ?thesis using regrid_nth [OF ij, of df] grid_index_bound [OF ij]
      by (auto simp: cols_def nth_list_update regrid_length simp del: zero_f64_Fin)
  qed
  have "length (cols ! k) = length (df_times df)" if k: "k < length cols" for k
  proof -
    note g = grid_index [OF k [unfolded len]]
    show ?thesis using cell [OF g(1,2)] g(3) l df_wfD(1,2) [OF assms(1)] grid_index_bound nth_mem
      by (auto split: if_splits)
  qed
  then show wf: "df_wf r" using assms(1) len r by (auto simp: df_wf_def list_all_length split: option.splits)
  show er: "df_err r = None" and "df_times r = df_times df" using r e by simp_all
  have ai: "map_of (mk_assetIndex as) f = (if f \<in> CompositeFigi ` set (df_assets df) then map_of (mk_assetIndex (df_assets df)) f
      else if f = CompositeFigi a then Some (length (df_assets df)) else None)" for f
    using mk_assetIndex_has [of "df_assets df" f] by (auto simp: as_def all_assets_def mk_assetIndex_snoc)
  have mi: "metric_pos ms 0 x = (if x \<in> set (df_metrics df) then metric_pos (df_metrics df) 0 x
      else if x = m then Some (length (df_metrics df)) else None)" for x
    using metric_pos_None [of "df_metrics df" 0 x] by (auto simp: ms_def all_metrics_def metric_pos_snoc)
  show "df_Column r b n = (if CompositeFigi b = CompositeFigi a \<and> n = m then Some vs
       else if df_has df b n then df_Column df b n
       else if (CompositeFigi b = CompositeFigi a \<or> CompositeFigi b \<in> CompositeFigi ` set (df_assets df)) \<and> (n = m \<or> n \<in> set (df_metrics df))
       then Some (replicate (length (df_times df)) 0) else None)" (is "_ = ?rhs")
  proof (cases "df_has r b n")
    case False
    then have "df_Column r b n = None" using df_Column_has [OF wf er] by blast
    moreover have "?rhs = None" using False by (auto simp: r df_has_def as_def ms_def all_assets_def all_metrics_def split: if_splits)
    ultimately show ?thesis by simp
  next
    case True
    then obtain i j where ij: "map_of (mk_assetIndex as) (CompositeFigi b) = Some i" "metric_pos ms 0 n = Some j"
      using mk_assetIndex_has [of as "CompositeFigi b"] metric_pos_None [of ms 0 n] by (auto simp: r df_has_def)
    note bi = assetIndex_figi [OF ij(1)] and bj = metric_pos_Some [OF ij(2)]
    have "df_Column r b n = Some (cols ! (i * length ms + j))"
      using ij df_Column_wf [OF wf er, of b n] by (simp add: r)
    moreover have "i < length (df_assets df) \<longleftrightarrow> CompositeFigi b \<in> CompositeFigi ` set (df_assets df)"
      using ij(1) ai assetIndex_figi by (auto split: if_splits)
    moreover have "j < length (df_metrics df) \<longleftrightarrow> n \<in> set (df_metrics df)"
      using ij(2) mi metric_pos_Some by (fastforce split: if_splits)
    moreover have "i = ia \<longleftrightarrow> CompositeFigi b = CompositeFigi a" using ij(1) ija(1) assetIndex_figi by (metis option.inject)
    moreover have "j = ja \<longleftrightarrow> n = m" using ij(2) ija(3) metric_pos_Some by (metis option.inject)
    moreover have "df_has df b n \<Longrightarrow> df_Column df b n = Some (df_columns df ! (i * length (df_metrics df) + j))"
      using ij ai mi by (simp add: df_Column_wf [OF assms(1) e] df_has_def)
    moreover have "(CompositeFigi b = CompositeFigi a \<or> CompositeFigi b \<in> CompositeFigi ` set (df_assets df)) \<and> (n = m \<or> n \<in> set (df_metrics df))"
      using ij ai [of "CompositeFigi b"] mi [of n] by (auto split: if_splits)
    ultimately show ?thesis using cell [of i j] bi bj by (simp add: df_has_def del: zero_f64_Fin)
  qed
qed


end
