(* ===== verification/FrameAlgebra.thy ===== *)
theory FrameAlgebra
  imports FrameOps
begin

text \<open>
  What the frame operations compute, column by column: a frame is a table keyed by asset
  identifier and metric (locale \<open>column_table\<close>, interpreted on Insert and Column), merging
  keeps the last frame that has a column, arithmetic pairs the columns both frames have, and
  no operation panics on a well-formed frame.
\<close>


lemma df_Column_length:
  assumes "df_wf df" "df_Column df a m = Some c"
  shows "length c = length (df_times df)"
proof -
  obtain i j where ij: "map_of (df_assetIndex df) (CompositeFigi a) = Some i" "metricIndex df m = Some j"
    "c = df_columns df ! colIdx df i j"
    using assms(2) by (auto simp: df_Column_def colSlice_def split: option.splits if_splits)
  then show ?thesis using df_wfD(2) [OF assms(1)] colIdx_bound [OF assms(1) ij(1,2)] nth_mem by blast
qed

section \<open>Tables\<close>

lemma find_append: "List.find P (us @ vs) = (case List.find P us of Some y \<Rightarrow> Some y | None \<Rightarrow> List.find P vs)"
  by (induction us) auto

text \<open>
  The contract of a table of columns that merging relies on: insertions that fit succeed and
  keep the invariant, a lookup after an insertion finds the value inserted, and an insertion
  under another key leaves the entries that are there alone.
\<close>

locale column_table =
  fixes ins :: "'k \<Rightarrow> 'v \<Rightarrow> 't \<Rightarrow> 'e + 't"
    and look :: "'t \<Rightarrow> 'k \<Rightarrow> 'v option"
    and good :: "'t \<Rightarrow> bool"
    and fits :: "'t \<Rightarrow> 'v \<Rightarrow> bool"
    and same :: "'k \<Rightarrow> 'k \<Rightarrow> bool"
  assumes ins_ok: "good t \<Longrightarrow> fits t v \<Longrightarrow> \<exists>t'. ins k v t = Inr t'"
    and ins_good: "good t \<Longrightarrow> ins k v t = Inr t' \<Longrightarrow> good t' \<and> fits t' = fits t"
    and look_same: "good t \<Longrightarrow> ins k v t = Inr t' \<Longrightarrow> same k k' \<Longrightarrow> look t' k' = Some v"
    and look_other: "good t \<Longrightarrow> ins k v t = Inr t' \<Longrightarrow> \<not> same k k' \<Longrightarrow> look t k' = Some w \<Longrightarrow> look t' k' = Some w"
begin

text \<open>The entry a list of insertions leaves under a key: the last one made for it.\<close>

definition last_entry :: "('k \<times> 'v) list \<Rightarrow> 'k \<Rightarrow> 'v option" where
  "last_entry es k = map_option snd (List.find (\<lambda>e. same (fst e) k) (rev es))"

lemma last_entry_append:
  "last_entry (xs @ ys) k = (case last_entry ys k of Some v \<Rightarrow> Some v | None \<Rightarrow> last_entry xs k)"
  by (simp add: last_entry_def find_append split: option.splits)

lemma last_entry_Cons:
  "last_entry (e # es) k = (case last_entry es k of Some v \<Rightarrow> Some v | None \<Rightarrow> if same (fst e) k then Some (snd e) else None)"
proof -
  have "last_entry [e] k = (if same (fst e) k then Some (snd e) else None)" by (simp add: last_entry_def)
  then show ?thesis using last_entry_append [of "[e]" es k] by (simp split: option.split)
qed

lemma insert_all_ok:
  assumes "good t" "\<forall>e\<in>set es. fits t (snd e)"
  shows "\<exists>t'. insert_all ins es t = Inr t' \<and> good t' \<and> fits t' = fits t"
  using assms
proof (induction es arbitrary: t)
  case (Cons e es)
  obtain t1 where t1: "ins (fst e) (snd e) t = Inr t1" using ins_ok Cons.prems by fastforce
  then have "good t1" "fits t1 = fits t" using ins_good Cons.prems(1) by blast+
  then show ?case using Cons.IH [of t1] Cons.prems(2) t1 by auto
qed simp

lemma insert_all_look:
  assumes "good t" "insert_all ins es t = Inr t'"
  shows "last_entry es k = Some v \<Longrightarrow> look t' k = Some v"
    "last_entry es k = None \<Longrightarrow> look t k = Some w \<Longrightarrow> look t' k = Some w"
proof -
  have "(\<forall>v. last_entry es k = Some v \<longrightarrow> look t' k = Some v) \<and> (last_entry es k = None \<longrightarrow> (\<forall>w. look t k = Some w \<longrightarrow> look t' k = Some w))"
    using assms
  proof (induction es arbitrary: t)
    case Nil
    then show ?case by (simp add: last_entry_def)
  next
    case (Cons e es)
    obtain t1 where t1: "ins (fst e) (snd e) t = Inr t1" "insert_all ins es t1 = Inr t'"
      using Cons.prems(2) by (auto split: sum.splits)
    have "good t1" using ins_good Cons.prems(1) t1(1) by blast
    note ih = Cons.IH [OF this t1(2)]
    show ?case
      using ih look_same [OF Cons.prems(1) t1(1), of k] look_other [OF Cons.prems(1) t1(1), of k]
      by (auto simp: last_entry_Cons split: option.splits if_splits)
  qed
  then show "last_entry es k = Some v \<Longrightarrow> look t' k = Some v"
    "last_entry es k = None \<Longrightarrow> look t k = Some w \<Longrightarrow> look t' k = Some w" by blast+
qed

end

definition same_cell :: "asset \<times> metric \<Rightarrow> asset \<times> metric \<Rightarrow> bool" where
  "same_cell k k' \<longleftrightarrow> CompositeFigi (fst k) = CompositeFigi (fst k') \<and> snd k = snd k'"

interpretation ft: column_table "\<lambda>(a, m). df_Insert a m" "\<lambda>df (a, m). df_Column df a m"
  "\<lambda>df. df_wf df \<and> df_err df = None" "\<lambda>df v. length v = length (df_times df)" same_cell
proof (unfold_locales, goal_cases)
  case (1 t v k)
  then show ?case using df_Insert_eq [of t v "fst k" "snd k"] by (auto simp: case_prod_unfold)
next
  case (2 t k v t')
  then show ?case using df_Insert_column(3-5) [of t "fst k" "snd k" v t'] by (auto simp: case_prod_unfold)
next
  case (3 t k v t' k')
  then show ?case using df_Insert_column(6) [of t "fst k" "snd k" v t' "fst k'" "snd k'"]
    by (auto simp: case_prod_unfold same_cell_def)
next
  case (4 t k v t' k' w)
  then have "df_has t (fst k') (snd k')" using df_Column_has [of t "fst k'" "snd k'"] by (auto simp: case_prod_unfold)
  then show ?case using 4 df_Insert_column(6) [of t "fst k" "snd k" v t' "fst k'" "snd k'"]
    by (auto simp: case_prod_unfold same_cell_def)
qed

text \<open>The last frame of a list that has a column.\<close>

definition last_with :: "dataframe list \<Rightarrow> asset \<Rightarrow> metric \<Rightarrow> dataframe option" where
  "last_with frames a m = List.find (\<lambda>f. df_has f a m) (rev frames)"

lemma frame_entry_column:
  "e \<in> set (frame_entries f) \<Longrightarrow> df_Column f (fst (fst e)) (snd (fst e)) = Some (snd e)"
  by (auto simp: frame_entries_def split: option.splits)

lemma frame_entries_find:
  assumes "df_wf f" "df_err f = None"
  shows "ft.last_entry (frame_entries f) (a, m) = df_Column f a m"
proof -
  have cong: "same_cell k (a, m) \<Longrightarrow> df_Column f (fst k) (snd k) = df_Column f a m" for k
    by (simp add: same_cell_def df_Column_def)
  show ?thesis
  proof (cases "df_has f a m")
    case True
    then obtain a' c where a': "a' \<in> set (df_assets f)" "CompositeFigi a' = CompositeFigi a" "df_Column f a m = Some c"
      using df_Column_has [OF assms, of a m] by (auto simp: df_has_def)
    then have "df_Column f a' m = Some c" using cong [of "(a', m)"] by (simp add: same_cell_def)
    then have "((a', m), c) \<in> set (frame_entries f)"
      using a' True by (auto simp: frame_entries_def df_has_def intro!: bexI [of _ "(a', m)"])
    then have "\<exists>e. List.find (\<lambda>e. same_cell (fst e) (a, m)) (rev (frame_entries f)) = Some e"
      using a'(2) find_None_iff [of "\<lambda>e. same_cell (fst e) (a, m)" "rev (frame_entries f)"]
      by (fastforce simp: same_cell_def)
    then obtain e where e: "List.find (\<lambda>e. same_cell (fst e) (a, m)) (rev (frame_entries f)) = Some e" by blast
    then have "e \<in> set (frame_entries f)" "same_cell (fst e) (a, m)"
      by (auto simp: find_Some_iff in_set_conv_nth) (metis length_rev nth_mem set_rev in_set_conv_nth)
    then show ?thesis using frame_entry_column [of e f] cong [of "fst e"] e by (simp add: ft.last_entry_def)
  next
    case False
    have "\<not> same_cell (fst e) (a, m)" if "e \<in> set (frame_entries f)" for e
      using frame_entry_column [OF that] cong [of "fst e"] False df_Column_has [OF assms, of a m] by force
    then have "List.find (\<lambda>e. same_cell (fst e) (a, m)) (rev (frame_entries f)) = None"
      unfolding find_None_iff set_rev by blast
    then show ?thesis using False df_Column_has [OF assms, of a m] by (simp add: ft.last_entry_def)
  qed
qed

lemma frames_entries_find:
  assumes "\<forall>f\<in>set fs. df_wf f \<and> df_err f = None"
  shows "ft.last_entry (concat (map frame_entries fs)) (a, m)
    = (case last_with fs a m of None \<Rightarrow> None | Some f \<Rightarrow> df_Column f a m)"
  using assms
proof (induction fs rule: rev_induct)
  case Nil
  then show ?case by (simp add: ft.last_entry_def last_with_def)
next
  case (snoc f fs)
  then show ?case using df_Column_has [of f a m]
    by (auto simp: ft.last_entry_append frame_entries_find last_with_def split: option.splits)
qed

lemma check_times_None: "check_times base fs = None \<longleftrightarrow> (\<forall>f\<in>set fs. df_times f = df_times base)"
  by (induction base fs rule: check_times.induct) auto

lemma insert_all_times: "insert_all (\<lambda>(a, m). df_Insert a m) es b = Inr r \<Longrightarrow> df_times r = df_times b"
proof (induction es arbitrary: b)
  case (Cons e es)
  have "df_Insert a m v t = Inr t' \<Longrightarrow> df_times t' = df_times t" for a m v t t'
    by (auto simp: df_Insert_def Let_def grow_asset_def grow_metric_def split: option.splits if_splits)
  then show ?case using Cons by (fastforce simp: case_prod_unfold split: sum.splits)
qed simp

lemma last_with_Some: "last_with fs a m = Some f \<Longrightarrow> f \<in> set fs \<and> df_has f a m"
  unfolding last_with_def find_Some_iff by (metis length_rev nth_mem set_rev)

lemma MergeColumns_spec:
  assumes "length frames \<ge> 1" "\<forall>f\<in>set frames. df_wf f \<and> df_err f = None \<and> df_times f = df_times (hd frames)"
  shows "\<exists>r. MergeColumns frames = Some (Inr r) \<and> df_wf r \<and> df_times r = df_times (hd frames)
    \<and> (\<forall>a m f. last_with frames a m = Some f \<longrightarrow> df_Column r a m = df_Column f a m)"
proof (cases "tl frames")
  case Nil
  then obtain f where "frames = [f]" using assms(1) by (cases frames) auto
  then show ?thesis using assms(2) by (auto simp: MergeColumns_def last_with_def)
next
  case (Cons f fs)
  then obtain b where fr: "frames = b # f # fs" by (cases frames) auto
  have b: "df_wf b" "df_err b = None" using assms(2) fr by auto
  have rest: "\<forall>g\<in>set (f # fs). df_wf g \<and> df_err g = None" using assms(2) fr by auto
  have "\<forall>e\<in>set (concat (map frame_entries (f # fs))). length (snd e) = length (df_times b)"
  proof
    fix e
    assume "e \<in> set (concat (map frame_entries (f # fs)))"
    then obtain g where g: "g \<in> set (f # fs)" "df_Column g (fst (fst e)) (snd (fst e)) = Some (snd e)"
      unfolding set_concat set_map using frame_entry_column by blast
    have "df_wf g" "df_times g = df_times b" using g(1) assms(2) fr by auto
    then show "length (snd e) = length (df_times b)" using df_Column_length [OF _ g(2)] by simp
  qed
  then obtain r where r: "insert_all (\<lambda>(a, m). df_Insert a m) (concat (map frame_entries (f # fs))) b = Inr r"
    "df_wf r" using ft.insert_all_ok [of b "concat (map frame_entries (f # fs))"] b by auto
  have "check_times b (f # fs) = None" "df_Copy b = Some b"
    unfolding check_times_None using assms(2) fr b df_Copy_eq [OF b(1)] by auto
  then have "MergeColumns frames = Some (Inr r)"
    using r(1) by (simp add: MergeColumns_def fr del: check_times.simps)
  moreover have "df_Column r a m = df_Column g a m" if g: "last_with frames a m = Some g" for a m g
  proof (cases "last_with (f # fs) a m")
    case None
    then have "g = b" "df_has b a m" using g fr by (auto simp: last_with_def find_append split: option.splits if_splits)
    then obtain w where w: "df_Column b a m = Some w" using df_Column_has [OF b] by blast
    have "(\<lambda>df (a, m). df_Column df a m) r (a, m) = Some w"
      by (rule ft.insert_all_look(2) [OF _ r(1)]) (use b w None frames_entries_find [OF rest, of a m] in auto)
    then show ?thesis using w \<open>g = b\<close> by simp
  next
    case (Some h)
    then have h: "g = h" "h \<in> set (f # fs)" "df_has h a m"
      using g fr last_with_Some [OF Some] by (auto simp: last_with_def find_append split: option.splits if_splits)
    then obtain w where w: "df_Column h a m = Some w" using df_Column_has [of h] rest by blast
    have "(\<lambda>df (a, m). df_Column df a m) r (a, m) = Some w"
      by (rule ft.insert_all_look(1) [OF _ r(1)]) (use b w Some frames_entries_find [OF rest, of a m] in auto)
    then show ?thesis using w h(1) by simp
  qed
  ultimately show ?thesis using r insert_all_times [OF r(1)] fr by auto
qed

section \<open>Aligned arithmetic\<close>

definition meet_step :: "dataframe \<Rightarrow> dataframe \<Rightarrow> colPair list \<times> asset list \<times> metric list \<Rightarrow> (nat \<times> asset) \<times> (nat \<times> metric)
    \<Rightarrow> colPair list \<times> asset list \<times> metric list" where
  "meet_step df other st cell =
     (case map_of (df_assetIndex other) (CompositeFigi (snd (fst cell))) of None \<Rightarrow> st
      | Some oa \<Rightarrow> (case metricIndex other (snd (snd cell)) of None \<Rightarrow> st
        | Some om \<Rightarrow> (case st of (pairs, resAssets, resMetrics) \<Rightarrow>
            (pairs @ [\<lparr>cp_a = snd (fst cell), cp_m = snd (snd cell), cp_selfCol = colIdx df (fst (fst cell)) (fst (snd cell)),
                       cp_otherCol = colIdx other oa om\<rparr>],
             if CompositeFigi (snd (fst cell)) \<in> CompositeFigi ` set resAssets then resAssets else resAssets @ [snd (fst cell)],
             if snd (snd cell) \<in> set resMetrics then resMetrics else resMetrics @ [snd (snd cell)]))))"

lemma foldl_product: "foldl f z (List.product xs ys) = foldl (\<lambda>z x. foldl (\<lambda>z y. f z (x, y)) z ys) z xs"
  by (induction xs arbitrary: z) (simp_all add: foldl_map)

lemma findIntersection_flat:
  "findIntersection df other = foldl (meet_step df other) ([], [], [])
     (List.product (enumerate 0 (df_assets df)) (enumerate 0 (df_metrics df)))"
proof -
  have skip: "foldl (\<lambda>z y. z) z ys = z" for z :: "colPair list \<times> asset list \<times> metric list" and ys :: "(nat \<times> metric) list"
    by (induction ys) auto
  have inner: "foldl (\<lambda>z y. meet_step df other z (x, y)) st ys =
      (case map_of (df_assetIndex other) (CompositeFigi (snd x)) of None \<Rightarrow> st
         | Some oa \<Rightarrow>
             foldl (\<lambda>(pairs, resAssets, resMetrics) (mIdx, cm).
                 case metricIndex other cm of None \<Rightarrow> (pairs, resAssets, resMetrics)
                 | Some om \<Rightarrow>
                     (pairs @ [\<lparr>cp_a = snd x, cp_m = cm, cp_selfCol = colIdx df (fst x) mIdx, cp_otherCol = colIdx other oa om\<rparr>],
                      if CompositeFigi (snd x) \<in> CompositeFigi ` set resAssets then resAssets else resAssets @ [snd x],
                      if cm \<in> set resMetrics then resMetrics else resMetrics @ [cm]))
               st ys)" for x st ys
  proof (cases "map_of (df_assetIndex other) (CompositeFigi (snd x))")
    case None
    then show ?thesis by (simp add: meet_step_def skip)
  next
    case (Some oa)
    show ?thesis by (simp add: Some meet_step_def) (intro arg_cong2 [of _ _ _ _ "\<lambda>f z. foldl f z ys"] ext refl, auto split: option.split)
  qed
  show ?thesis by (simp add: findIntersection_def foldl_product inner case_prod_unfold)
qed

text \<open>The cells both frames have, and what the scan has collected after some of them.\<close>

definition common :: "dataframe \<Rightarrow> asset \<Rightarrow> metric \<Rightarrow> bool" where
  "common other a m \<longleftrightarrow> map_of (df_assetIndex other) (CompositeFigi a) \<noteq> None \<and> metricIndex other m \<noteq> None"

definition meet_pair :: "dataframe \<Rightarrow> dataframe \<Rightarrow> (nat \<times> asset) \<times> (nat \<times> metric) \<Rightarrow> colPair" where
  "meet_pair df other cell = \<lparr>cp_a = snd (fst cell), cp_m = snd (snd cell),
     cp_selfCol = colIdx df (fst (fst cell)) (fst (snd cell)),
     cp_otherCol = colIdx other (the (map_of (df_assetIndex other) (CompositeFigi (snd (fst cell)))))
       (the (metricIndex other (snd (snd cell))))\<rparr>"

lemma meet_inv:
  fixes df other cells
  defines "st \<equiv> foldl (meet_step df other) ([], [], []) cells"
    and "shared \<equiv> {c \<in> set cells. common other (snd (fst c)) (snd (snd c))}"
  shows "set (fst st) = meet_pair df other ` shared"
    "CompositeFigi ` set (fst (snd st)) = (\<lambda>c. CompositeFigi (snd (fst c))) ` shared"
    "distinct (map CompositeFigi (fst (snd st)))"
    "set (snd (snd st)) = (\<lambda>c. snd (snd c)) ` shared" "distinct (snd (snd st))"
  unfolding st_def shared_def
proof (atomize (full), induction cells rule: rev_induct)
  case (snoc c cells)
  obtain P A M where st: "foldl (meet_step df other) ([], [], []) cells = (P, A, M)" by (metis prod_cases3)
  show ?case
  proof (cases "common other (snd (fst c)) (snd (snd c))")
    case True
    then obtain oa om where o: "map_of (df_assetIndex other) (CompositeFigi (snd (fst c))) = Some oa"
      "metricIndex other (snd (snd c)) = Some om" by (auto simp: common_def)
    have "{x \<in> set (cells @ [c]). common other (snd (fst x)) (snd (snd x))}
        = insert c {x \<in> set cells. common other (snd (fst x)) (snd (snd x))}" using True by auto
    moreover have "meet_step df other (P, A, M) c = (P @ [meet_pair df other c],
        if CompositeFigi (snd (fst c)) \<in> CompositeFigi ` set A then A else A @ [snd (fst c)],
        if snd (snd c) \<in> set M then M else M @ [snd (snd c)])"
      using o by (simp add: meet_step_def meet_pair_def)
    ultimately show ?thesis using snoc st by auto
  next
    case False
    then have "meet_step df other (P, A, M) c = (P, A, M)"
      by (auto simp: meet_step_def common_def split: option.splits)
    moreover have "{x \<in> set (cells @ [c]). common other (snd (fst x)) (snd (snd x))}
        = {x \<in> set cells. common other (snd (fst x)) (snd (snd x))}" using False by auto
    ultimately show ?thesis using snoc st by simp
  qed
qed simp

lemma foldl_update_length: "length (foldl (\<lambda>xs p. xs[pos p := val p]) xs ps) = length xs"
  by (induction ps arbitrary: xs) simp_all

lemma foldl_updates:
  assumes "\<And>p. p \<in> set ps \<Longrightarrow> pos p < length xs" "\<And>p q. p \<in> set ps \<Longrightarrow> q \<in> set ps \<Longrightarrow> pos p = pos q \<Longrightarrow> val p = val q"
    and "p \<in> set ps"
  shows "foldl (\<lambda>xs p. xs[pos p := val p]) xs ps ! pos p = val p"
  using assms
proof (induction ps arbitrary: p rule: rev_induct)
  case (snoc q ps)
  show ?case
  proof (cases "pos p = pos q")
    case True
    then show ?thesis using snoc.prems(1) [of q] snoc.prems(2) [of p q] snoc.prems(3) by (simp add: foldl_update_length)
  next
    case False
    then have "p \<in> set ps" using snoc.prems(3) by auto
    then show ?thesis using False snoc.IH [of p] snoc.prems(1,2) by simp
  qed
qed simp

lemma mk_metricIndex_nth:
  assumes "distinct ms" "i < length ms"
  shows "map_of (mk_metricIndex ms) (ms ! i) = Some i"
  using assms
proof (induction ms rule: rev_induct)
  case (snoc m ms)
  have "mk_metricIndex (ms @ [m]) = mput m (length ms) (mk_metricIndex ms)"
    by (simp add: mk_metricIndex_def enumerate_append_eq)
  moreover have "ms ! i \<noteq> m" if "i < length ms" using snoc.prems(1) nth_mem [OF that] by auto
  ultimately show ?case using snoc by (cases "i < length ms") (auto simp: nth_append less_Suc_eq)
qed simp

lemma mem_enumerate: "(i, x) \<in> set (enumerate 0 xs) \<longleftrightarrow> i < length xs \<and> xs ! i = x"
  by (auto simp: in_set_enumerate_eq)

lemma df_Column_enumerate:
  assumes "df_wf df" "df_keys df" "df_err df = None" "(i, a) \<in> set (enumerate 0 (df_assets df))" "(j, m) \<in> set (enumerate 0 (df_metrics df))"
  shows "df_Column df a m = Some (df_columns df ! colIdx df i j)"
proof -
  have "map_of (mk_assetIndex (df_assets df)) (CompositeFigi a) = Some i"
    using mk_assetIndex_nth [of "df_assets df" i] assms(2,4) by (auto simp: df_keys_def mem_enumerate)
  moreover have "metric_pos (df_metrics df) 0 m = Some j"
    using metric_pos_nth [of "df_metrics df" j 0] assms(2,5) by (auto simp: df_keys_def mem_enumerate)
  ultimately show ?thesis by (simp add: df_Column_wf [OF assms(1,3)] colIdx_def)
qed

lemma elemWiseOp_spec:
  assumes wf: "df_wf df" "df_wf other" "df_keys df" and e: "df_err df = None" "df_err other = None"
    and ts: "df_times other = df_times df"
    and ap: "\<And>s t. length s = length (df_times df) \<Longrightarrow> length t = length (df_times df) \<Longrightarrow> length (apply' s t) = length (df_times df)"
  shows "\<exists>r. elemWiseOp apply' df other = Some r \<and> df_wf r \<and> df_err r = None \<and>
    (\<forall>a m. df_Column r a m = (case (df_Column df a m, df_Column other a m) of (Some s, Some t) \<Rightarrow> Some (apply' s t) | _ \<Rightarrow> None))"
proof -
  define cells where "cells = List.product (enumerate 0 (df_assets df)) (enumerate 0 (df_metrics df))"
  define shared where "shared = {c \<in> set cells. common other (snd (fst c)) (snd (snd c))}"
  obtain P A M where st: "foldl (meet_step df other) ([], [], []) cells = (P, A, M)" by (metis prod_cases3)
  note inv = meet_inv [of df other cells, folded shared_def, unfolded st fst_conv snd_conv]
  have fi: "findIntersection df other = (P, A, M)" by (simp add: findIntersection_flat st flip: cells_def)
  have col: "df_Column df (snd (fst c)) (snd (snd c)) = Some (df_columns df ! cp_selfCol (meet_pair df other c))
      \<and> df_Column other (snd (fst c)) (snd (snd c)) = Some (df_columns other ! cp_otherCol (meet_pair df other c))" if "c \<in> shared" for c
  proof -
    obtain i a j m where c: "c = ((i, a), (j, m))" "(i, a) \<in> set (enumerate 0 (df_assets df))" "(j, m) \<in> set (enumerate 0 (df_metrics df))"
      "common other a m" using \<open>c \<in> shared\<close> by (auto simp: shared_def cells_def)
    have "df_Column other a m = Some (df_columns other ! cp_otherCol (meet_pair df other c))"
      using c(1,4) e(2) by (auto simp: meet_pair_def common_def df_Column_def colSlice_def)
    then show ?thesis using df_Column_enumerate [OF wf(1,3) e(1) c(2,3)] c(1) by (simp add: meet_pair_def)
  qed
  have both: "(\<exists>c\<in>shared. CompositeFigi (snd (fst c)) = CompositeFigi a \<and> snd (snd c) = m)
      \<longleftrightarrow> df_Column df a m \<noteq> None \<and> df_Column other a m \<noteq> None" for a m
  proof
    assume "\<exists>c\<in>shared. CompositeFigi (snd (fst c)) = CompositeFigi a \<and> snd (snd c) = m"
    then show "df_Column df a m \<noteq> None \<and> df_Column other a m \<noteq> None"
      using col unfolding df_Column_def by (metis option.distinct(1))
  next
    assume h: "df_Column df a m \<noteq> None \<and> df_Column other a m \<noteq> None"
    then obtain i j where "i < length (df_assets df)" "CompositeFigi (df_assets df ! i) = CompositeFigi a" "j < length (df_metrics df)" "df_metrics df ! j = m"
      using df_Column_has [OF wf(1) e(1)] by (auto simp: df_has_def in_set_conv_nth image_iff)
    then show "\<exists>c\<in>shared. CompositeFigi (snd (fst c)) = CompositeFigi a \<and> snd (snd c) = m"
      using h by (intro bexI [of _ "((i, df_assets df ! i), (j, m))"])
        (auto simp: shared_def cells_def mem_enumerate common_def df_Column_def split: option.splits if_splits)
  qed
  have cong: "CompositeFigi b = CompositeFigi a \<Longrightarrow> df_Column d b m = df_Column d a m" for d b a m by (simp add: df_Column_def)
  show ?thesis
  proof (cases "P = []")
    case True
    then have none: "\<not> (df_Column df a m \<noteq> None \<and> df_Column other a m \<noteq> None)" for a m
      using both [of a m] inv(1) by auto
    have "elemWiseOp apply' df other = Some df_zero"
      using e ts True by (simp add: elemWiseOp_def fi empty_frame_eq)
    moreover have "(case (df_Column df a m, df_Column other a m) of (Some s, Some t) \<Rightarrow> Some (apply' s t) | _ \<Rightarrow> None) = None" for a m
      using none [of a m] by (auto split: option.split)
    ultimately show ?thesis by (simp add: df_Column_none)
  next
    case False
    define pos where "pos p = mget 0 (mk_assetIndex A) (CompositeFigi (cp_a p)) * length M + mget 0 (mk_metricIndex M) (cp_m p)" for p :: colPair
    define val where "val p = apply' (df_columns df ! cp_selfCol p) (df_columns other ! cp_otherCol p)" for p :: colPair
    define cols where "cols = foldl (\<lambda>cols p. cols[pos p := val p]) (replicate (length A * length M) []) P"
    have ai: "\<exists>k<length A. map_of (mk_assetIndex A) f = Some k \<and> CompositeFigi (A ! k) = f" if "f \<in> CompositeFigi ` set A" for f
      using that mk_assetIndex_has [of A f] assetIndex_figi [of A f] by blast
    have mi: "\<exists>k<length M. map_of (mk_metricIndex M) m = Some k \<and> metric_pos M 0 m = Some k \<and> M ! k = m" if "m \<in> set M" for m
      using that mk_metricIndex_nth [OF inv(5)] metric_pos_nth [OF inv(5), of _ 0] by (fastforce simp: in_set_conv_nth)
    have at: "\<exists>i j. i < length A \<and> j < length M \<and> pos (meet_pair df other c) = i * length M + j \<and> map_of (mk_assetIndex A) (CompositeFigi (snd (fst c))) = Some i
        \<and> CompositeFigi (A ! i) = CompositeFigi (snd (fst c)) \<and> metric_pos M 0 (snd (snd c)) = Some j \<and> M ! j = snd (snd c)" if "c \<in> shared" for c
    proof -
      have "CompositeFigi (snd (fst c)) \<in> CompositeFigi ` set A" "snd (snd c) \<in> set M" using that inv(2,4) by auto
      from ai [OF this(1)] mi [OF this(2)] show ?thesis by (auto simp: pos_def meet_pair_def mget_def)
    qed
    have uniq: "c = c'" if h: "c \<in> shared" "c' \<in> shared" "pos (meet_pair df other c) = pos (meet_pair df other c')" for c c'
    proof -
      have eq: "CompositeFigi (snd (fst c)) = CompositeFigi (snd (fst c'))" "snd (snd c) = snd (snd c')"
        using at [OF h(1)] at [OF h(2)] h(3) grid_index_inj [of _ "length M"] by (metis (no_types))+
      obtain i j i' j' where c: "c = ((i, df_assets df ! i), (j, df_metrics df ! j))" "i < length (df_assets df)" "j < length (df_metrics df)"
        and c': "c' = ((i', df_assets df ! i'), (j', df_metrics df ! j'))" "i' < length (df_assets df)" "j' < length (df_metrics df)"
        using h(1,2) by (auto simp: shared_def cells_def mem_enumerate)
      have "i = i'" using eq(1) c c' wf(3) nth_eq_iff_index_eq [of "map CompositeFigi (df_assets df)" i i'] by (simp add: df_keys_def)
      moreover have "j = j'" using eq(2) c c' wf(3) nth_eq_iff_index_eq [of "df_metrics df" j j'] by (simp add: df_keys_def)
      ultimately show ?thesis using c c' by simp
    qed
    have pos_lt: "pos p < length (replicate (length A * length M) ([] :: f64 list))" if "p \<in> set P" for p
    proof -
      obtain c where c: "c \<in> shared" "p = meet_pair df other c" using \<open>p \<in> set P\<close> inv(1) by auto
      then show ?thesis using at [OF c(1)] grid_index_bound by (metis length_replicate)
    qed
    have val_eq: "val p = val q" if "p \<in> set P" "q \<in> set P" "pos p = pos q" for p q
    proof -
      obtain c c' where c: "c \<in> shared" "p = meet_pair df other c" "c' \<in> shared" "q = meet_pair df other c'"
        using \<open>p \<in> set P\<close> \<open>q \<in> set P\<close> inv(1) by auto
      then show ?thesis using uniq [OF c(1,3)] \<open>pos p = pos q\<close> by simp
    qed
    have upd: "cols ! pos p = val p" if "p \<in> set P" for p
      unfolding cols_def by (rule foldl_updates [OF pos_lt val_eq that])
    have cell: "cols ! pos (meet_pair df other c) = val (meet_pair df other c)" if "c \<in> shared" for c
      using upd inv(1) that by blast
    have vlen: "length (val (meet_pair df other c)) = length (df_times df)" if "c \<in> shared" for c
      unfolding val_def using col [OF that] df_Column_length [OF wf(1)] df_Column_length [OF wf(2)] ts by (intro ap) metis+
    have lc: "length cols = length A * length M" by (simp add: cols_def foldl_update_length)
    have cover: "\<exists>c\<in>shared. CompositeFigi (snd (fst c)) = f \<and> snd (snd c) = m" if fm: "f \<in> CompositeFigi ` set A" "m \<in> set M" for f m
    proof -
      obtain c1 c2 where c: "c1 \<in> shared" "CompositeFigi (snd (fst c1)) = f" "c2 \<in> shared" "snd (snd c2) = m"
        using fm inv(2,4) by auto
      then show ?thesis by (intro bexI [of _ "(fst c1, snd c2)"]) (auto simp: shared_def cells_def common_def)
    qed
    have "length (cols ! k) = length (df_times df)" if k: "k < length cols" for k
    proof -
      note g = grid_index [OF k [unfolded lc]]
      obtain c where c: "c \<in> shared" "CompositeFigi (snd (fst c)) = CompositeFigi (A ! (k div length M))" "snd (snd c) = M ! (k mod length M)"
        using cover g(1,2) by (metis image_eqI nth_mem)
      then have "pos (meet_pair df other c) = k"
        using at [OF c(1)] g mk_assetIndex_nth [OF inv(3) g(1)] metric_pos_nth [OF inv(5) g(2), of 0] by auto
      then show ?thesis using cell [OF c(1)] vlen [OF c(1)] by simp
    qed
    then have all: "list_all (\<lambda>c. length c = length (df_times df)) cols" by (simp add: list_all_length)
    define r where "r = propagateAux df (mk_frame (df_times df) A M (df_freq df) cols)"
    have rwf: "df_wf r" "df_err r = None" using propagateAux_wf [OF wf(1) lc all] by (simp_all add: r_def)
    have rsel: "df_assets r = A" "df_metrics r = M" "df_columns r = cols" by (simp_all add: r_def)
    have "elemWiseOp apply' df other = Some r"
      using e ts False mustNewDataFrame_Some [OF lc all] by (simp add: elemWiseOp_def fi r_def cols_def pos_def val_def)
    moreover have "df_Column r a m = (case (df_Column df a m, df_Column other a m) of (Some s, Some t) \<Rightarrow> Some (apply' s t) | _ \<Rightarrow> None)" for a m
    proof (cases "\<exists>c\<in>shared. CompositeFigi (snd (fst c)) = CompositeFigi a \<and> snd (snd c) = m")
      case True
      then obtain c where c: "c \<in> shared" "CompositeFigi (snd (fst c)) = CompositeFigi a" "snd (snd c) = m" by blast
      have "df_Column r a m = Some (val (meet_pair df other c))"
        using at [OF c(1)] cell [OF c(1)] c rsel by (auto simp: df_Column_wf [OF rwf])
      moreover have "df_Column df a m = Some (df_columns df ! cp_selfCol (meet_pair df other c))"
        "df_Column other a m = Some (df_columns other ! cp_otherCol (meet_pair df other c))"
        using col [OF c(1)] c(2,3) cong by metis+
      ultimately show ?thesis by (simp add: val_def)
    next
      case False
      then have "\<not> (CompositeFigi a \<in> CompositeFigi ` set A \<and> m \<in> set M)" using cover by blast
      then have "df_Column r a m = None"
        using df_Column_has [OF rwf, of a m] unfolding df_has_def rsel by blast
      then show ?thesis using False both [of a m] by (auto split: option.split)
    qed
    ultimately show ?thesis using rwf by blast
  qed
qed

section \<open>Operations return well-formed frames\<close>

text \<open>An operation that neither panics nor breaks a frame: it returns a well-formed frame.\<close>

definition yields :: "dataframe option \<Rightarrow> bool" where
  "yields res \<longleftrightarrow> (\<exists>r. res = Some r \<and> df_wf r)"

lemma yields_intro [simp]: "yields (Some r) \<longleftrightarrow> df_wf r" "\<not> yields None"
  by (simp_all add: yields_def)

lemma yields_empty [simp]: "yields empty_frame"
  by (simp add: empty_frame_eq)

lemma yields_err: "(\<And>e. df_err df = Some e \<Longrightarrow> f df = Some (WithErr e)) \<Longrightarrow> (df_err df = None \<Longrightarrow> yields (f df)) \<Longrightarrow> yields (f df)"
  by (cases "df_err df") auto

lemma df_At_yields: "df_wf df \<Longrightarrow> yields (df_At df t)"
proof (rule yields_err [where f = "\<lambda>df. df_At df t"])
  assume wf: "df_wf df" and e: "df_err df = None"
  show "yields (df_At df t)"
  proof (cases "timeIndex df t")
    case (Some i)
    then show ?thesis using df_At_eq [OF wf e Some] df_wfD(1) [OF wf]
      by (auto simp: df_wf_def list_all_iff split: option.splits)
  qed (simp add: df_At_def e)
qed (simp add: df_At_def)

lemma df_Last_yields: "df_wf df \<Longrightarrow> yields (df_Last df)"
  using df_At_yields by (auto simp: df_Last_def split: option.split)

lemma df_Copy_yields: "df_wf df \<Longrightarrow> yields (df_Copy df)"
  by (auto simp: df_Copy_eq split: option.split)

lemma sliceByIndices_yields:
  assumes "df_wf df" "df_err df = None" "\<forall>i\<in>set is. i < length (df_times df)"
  shows "yields (sliceByIndices is df)"
  using row_select_wf [OF assms(1,3)] by (simp add: sliceByIndices_eq [OF assms])

lemma filter_rows_bound: "set (filter_rows p df is row) \<subseteq> set is"
proof (induction "is" arbitrary: row)
  case (Cons i "is")
  obtain b row' where "p (df_times df ! i) (row_load df i row) = (b, row')" by fastforce
  then show ?case using Cons [of row'] by auto
qed simp

lemma df_Filter_yields:
  assumes "df_wf df"
  shows "yields (df_Filter p df)"
proof (cases "df_err df")
  case None
  have "mustNewDataFrame [time_zero] (df_assets df) (df_metrics df) (df_freq df) (map (\<lambda>_. [0]) (df_columns df))
      = Some (mk_frame [time_zero] (df_assets df) (df_metrics df) (df_freq df) (map (\<lambda>_. [0]) (df_columns df)))"
    using df_wfD(1) [OF assms] by (intro mustNewDataFrame_Some) (auto simp: list_all_iff)
  moreover have "\<forall>i\<in>set (filter_rows p df [0..<length (df_times df)] row). i < length (df_times df)" for row
    using filter_rows_bound [of p df "[0..<length (df_times df)]" row] by auto
  ultimately show ?thesis using None sliceByIndices_yields [OF assms None] wf_within(1) [OF assms order_refl] by (simp add: df_Filter_def)
qed (simp add: df_Filter_def)

lemma df_Drop_yields: "df_wf df \<Longrightarrow> yields (df_Drop v df)"
  using df_Filter_yields [of df] dropNaN_Filter [of df] by (auto simp: df_Drop_def split: option.split)

lemma Between_yields:
  assumes "df_wf df"
  shows "yields (Between s e df)"
proof (cases "df_err df")
  case None
  have w: "df_wf (with_dates df)" "df_err (with_dates df) = None" using assms None by simp_all
  then have y: "yields (sliceByTimeIndices i j (with_dates df))" if "i \<le> j" "j \<le> length (df_times df)" for i j
    using sliceByTimeIndices_eq [OF w, of i j] time_slice_wf that by simp
  show ?thesis
  proof (cases "daily_or_coarser (df_freq df)")
    case True
    have "sort_search (length (map dateKey (df_times df))) p \<le> length (df_times df)" for p
      using sort_search_le [of "length (map dateKey (df_times df))" p] by simp
    then show ?thesis using None True y ensureDateKeys_keys [OF assms True]
      by (simp add: Between_def Let_def with_dates_def not_le)
  next
    case False
    then show ?thesis using None y by (simp add: Between_def Let_def with_dates_def not_le)
  qed
qed (simp add: Between_def)

lemma df_Assets_yields: "df_wf df \<Longrightarrow> yields (df_Assets xs df)"
  using df_Assets_eq [of df xs] df_Assets_column(2) [of df xs] by (cases "df_err df") (auto simp: df_Assets_def)

lemma df_Metrics_yields:
  assumes "df_wf df"
  shows "yields (df_Metrics xs df)"
proof (cases "df_err df")
  case None
  let ?ms = "filter (\<lambda>m. metricIndex df m \<noteq> None) xs"
  let ?cols = "concat (map (\<lambda>i. map (\<lambda>old. df_columns df ! colIdx df i old) (map (\<lambda>m. the (metricIndex df m)) ?ms)) [0..<length (df_assets df)])"
  have "length ?cols = length (df_assets df) * length ?ms"
    by (subst concat_length_const [where n = "length ?ms"]) auto
  moreover have "list_all (\<lambda>c. length c = length (df_times df)) ?cols"
    using metricIndex_bound df_wfD(1,2) [OF assms] grid_index_bound by (fastforce simp: list_all_iff colIdx_def)
  ultimately have "mustNewDataFrame (df_times df) (df_assets df) ?ms (df_freq df) ?cols
      = Some (mk_frame (df_times df) (df_assets df) ?ms (df_freq df) ?cols)" by (rule mustNewDataFrame_Some)
  then have "\<exists>r. df_Metrics xs df = Some r" using None by (simp add: df_Metrics_def Let_def empty_frame_eq)
  then show ?thesis using df_Metrics_column(2) [OF assms None] by auto
qed (simp add: df_Metrics_def)

lemma RenameMetric_yields:
  assumes "df_wf df"
  shows "yields (RenameMetric old new df)"
proof (cases "df_err df")
  case None
  have "df_wf (df\<lparr>df_metrics := (df_metrics df)[i := new]\<rparr>)" for i
    using assms by (auto simp: df_wf_def split: option.splits)
  then show ?thesis using None by (simp add: RenameMetric_def df_Copy_eq [OF assms] split: option.split sum.split)
qed (simp add: RenameMetric_def)

lemma map_columns_wf:
  "df_wf df \<Longrightarrow> (\<And>c. length (f c) = length c) \<Longrightarrow> df_wf (map_columns f df)"
  by (auto simp: df_wf_def map_columns_def list_all_iff split: option.splits)

lemma scalar_yields:
  assumes "df_wf df" "gonum_ok g"
  shows "yields (AddScalar g c df)" "yields (SubScalar g c df)" "yields (MulScalar g c df)" "yields (DivScalar g c df)"
  using assms map_columns_wf [OF assms(1), of "gn_AddConst g _"] map_columns_wf [OF assms(1), of "gn_Scale g _"]
  by (auto simp: AddScalar_def SubScalar_def MulScalar_def DivScalar_def df_Copy_eq gonum_ok_def split: option.split)

lemma put_column_wf:
  "df_wf df \<Longrightarrow> length v = length (df_times df) \<Longrightarrow> df_wf (df\<lparr>df_columns := (df_columns df)[k := v]\<rparr>)"
  by (auto simp: df_wf_def list_all_iff split: option.splits dest!: set_update_subset_insert [THEN subsetD])

lemma foldl_invariant: "I z \<Longrightarrow> (\<And>x z. x \<in> set xs \<Longrightarrow> I z \<Longrightarrow> I (f z x)) \<Longrightarrow> I (foldl f z xs)"
  by (induction xs arbitrary: z) auto

lemma broadcastOp_yields:
  assumes "df_wf df" "df_wf other"
    and ap: "\<And>s t. length s = length (df_times df) \<Longrightarrow> length t = length (df_times df) \<Longrightarrow> length (apply' s t) = length (df_times df)"
  shows "yields (broadcastOp apply' metrics df other)"
proof -
  define I where "I r \<longleftrightarrow> df_wf r \<and> df_times r = df_times df \<and> df_assets r = df_assets df \<and> df_metrics r = df_metrics df" for r :: dataframe
  have put: "I (r\<lparr>df_columns := (df_columns r)[colIdx r i j := apply' (df_columns r ! colIdx r i j) (colSlice other oa om)]\<rparr>)"
    if "I r" "i < length (df_assets r)" "j < length (df_metrics r)" "map_of (df_assetIndex other) f = Some oa" "metricIndex other m = Some om"
      "df_times other = df_times df" for r i j oa om f m
  proof -
    have "colIdx r i j < length (df_columns r)"
      using that(1-3) grid_index_bound df_wfD(1) by (simp add: I_def colIdx_def)
    then have "length (df_columns r ! colIdx r i j) = length (df_times df)" using that(1) df_wfD(2) nth_mem by (fastforce simp: I_def)
    moreover have "length (colSlice other oa om) = length (df_times df)"
      using colIdx_bound [OF assms(2) that(4,5)] df_wfD(2) [OF assms(2)] nth_mem that(6) by (simp add: colSlice_def)
    ultimately show ?thesis using that(1) ap put_column_wf by (simp add: I_def)
  qed
  define cell where "cell = (\<lambda>oa om i (r :: dataframe) j. r\<lparr>df_columns := (df_columns r)[colIdx r i j :=
      apply' (df_columns r ! colIdx r i j) (colSlice other oa om)]\<rparr>)"
  define row where "row = (\<lambda>om (r :: dataframe) i. case map_of (df_assetIndex other) (CompositeFigi (df_assets r ! i)) of None \<Rightarrow> r
      | Some oa \<Rightarrow> foldl (cell oa om i) r [0..<length (df_metrics r)])"
  have rowI: "I (row om r i)" if h: "I r" "i < length (df_assets df)" "metricIndex other m = Some om" "df_times other = df_times df" for om r i m
  proof (cases "map_of (df_assetIndex other) (CompositeFigi (df_assets r ! i))")
    case None
    then show ?thesis using h(1) by (simp add: row_def)
  next
    case (Some oa)
    have "I (foldl (cell oa om i) r [0..<length (df_metrics r)])"
    proof (rule foldl_invariant [where I = I, OF h(1)])
      fix j z
      assume "j \<in> set [0..<length (df_metrics r)]" "I z"
      then show "I (cell oa om i z j)"
        unfolding cell_def using put [OF _ _ _ Some h(3,4)] h(1,2) by (simp add: I_def)
    qed
    then show ?thesis by (simp add: row_def Some)
  qed
  have all: "I (foldl (\<lambda>r m. case metricIndex other m of None \<Rightarrow> r | Some om \<Rightarrow> foldl (row om) r [0..<length (df_assets r)]) df metrics)"
    if ts: "df_times other = df_times df"
  proof (rule foldl_invariant [where I = I])
    show "I df" using assms(1) by (simp add: I_def)
    fix m and z :: dataframe
    assume z: "I z"
    show "I (case metricIndex other m of None \<Rightarrow> z | Some om \<Rightarrow> foldl (row om) z [0..<length (df_assets z)])"
    proof (cases "metricIndex other m")
      case (Some om)
      have "I (foldl (row om) z [0..<length (df_assets z)])"
        by (rule foldl_invariant [where I = I, OF z]) (use rowI [OF _ _ Some ts] z in \<open>simp add: I_def\<close>)
      then show ?thesis by (simp add: Some)
    qed (simp add: z)
  qed
  show ?thesis
  proof (cases "df_err df = None \<and> df_err other = None \<and> df_times other = df_times df")
    case True
    then have "broadcastOp apply' metrics df other = Some (foldl (\<lambda>r m. case metricIndex other m of None \<Rightarrow> r
        | Some om \<Rightarrow> foldl (row om) r [0..<length (df_assets r)]) df metrics)"
      unfolding row_def cell_def broadcastOp_def by (simp add: df_Copy_eq [OF assms(1)])
    then show ?thesis using all True by (simp add: I_def)
  next
    case False
    then show ?thesis by (auto simp: broadcastOp_def split: option.split)
  qed
qed

lemma across_yields:
  assumes "df_wf df"
  shows "yields (MaxAcrossAssets df)" "yields (MinAcrossAssets df)" "yields (CountWhere m p df)"
  using assms
  by (auto simp: MaxAcrossAssets_def MinAcrossAssets_def CountWhere_def mustNewDataFrame_Some list_all_iff
      intro!: propagateAux_wf split: option.split)

lemma gonum_length:
  assumes "gonum_ok g" "length s = n" "length t = n"
  shows "length (gn_AddTo g s t) = n" "length (gn_SubTo g s t) = n" "length (gn_MulTo g s t) = n" "length (gn_DivTo g s t) = n"
  using assms by (simp_all add: gonum_ok_def)

lemma elemWiseOp_yields:
  assumes "df_wf df" "df_wf other" "df_keys df"
    and "\<And>s t. length s = length (df_times df) \<Longrightarrow> length t = length (df_times df) \<Longrightarrow> length (apply' s t) = length (df_times df)"
  shows "yields (elemWiseOp apply' df other)"
proof (cases "df_err df = None \<and> df_err other = None \<and> df_times other = df_times df")
  case True
  then show ?thesis using elemWiseOp_spec [of df other apply'] assms unfolding yields_def by blast
next
  case False
  then show ?thesis by (auto simp: elemWiseOp_def split: option.split)
qed

lemma arithmetic_yields:
  assumes "df_wf df" "df_wf other" "df_keys df" "gonum_ok g"
  shows "yields (df_Add g ms df other)" "yields (df_Sub g ms df other)" "yields (df_Mul g ms df other)" "yields (df_Div g ms df other)"
  using elemWiseOp_yields [OF assms(1-3)] broadcastOp_yields [OF assms(1,2)] gonum_length [OF assms(4)]
  by (simp_all add: df_Add_def df_Sub_def df_Mul_def df_Div_def)

end
