(* ===== verification/FrameStats.thy ===== *)
theory FrameStats
  imports FrameAlgebra
begin

text \<open>
  Column statistics and transforms (data/data\_frame.go), rolling windows
  (data/rolling\_data\_frame.go), periods (data/period.go) and downsampling
  (data/downsample.go). Column functions may panic, so they return an option.
\<close>

section \<open>Apply and Reduce\<close>

definition df_Apply :: "(f64 list \<Rightarrow> f64 list option) \<Rightarrow> dataframe \<Rightarrow> dataframe option" where
  "df_Apply transform df =
     (case df_err df of Some e \<Rightarrow> Some (WithErr e)
      | None \<Rightarrow>
        (case those (map transform (df_columns df)) of None \<Rightarrow> None
         | Some cols \<Rightarrow> map_option (propagateAux df)
             (mustNewDataFrame (df_times df) (df_assets df) (df_metrics df) (df_freq df) cols)))"

definition last_time :: "dataframe \<Rightarrow> gotime list" where
  "last_time df = (if df_times df = [] then [] else [last (df_times df)])"

definition df_Reduce :: "(f64 list \<Rightarrow> f64 option) \<Rightarrow> dataframe \<Rightarrow> dataframe option" where
  "df_Reduce reducer df =
     (case df_err df of Some e \<Rightarrow> Some (WithErr e)
      | None \<Rightarrow>
        (case those (map reducer (df_columns df)) of None \<Rightarrow> None
         | Some vals \<Rightarrow>
             mustNewDataFrame (last_time df) (df_assets df) (df_metrics df) (df_freq df) (map (\<lambda>v. [v]) vals)))"

section \<open>Column statistics\<close>

definition sum_sq_dev :: "gonum \<Rightarrow> f64 list \<Rightarrow> f64" where
  "sum_sq_dev g col = (let m = gn_Mean g col in foldl (\<lambda>sum v. let d = v - m in sum + d * d) 0 col)"

definition col_mean :: "gonum \<Rightarrow> f64 list \<Rightarrow> f64" where
  "col_mean g col = (if col = [] then NaN else gn_Mean g col)"

definition col_variance :: "gonum \<Rightarrow> f64 list \<Rightarrow> f64" where
  "col_variance g col = (if length col < 2 then 0 else sum_sq_dev g col / Fin (real (length col - 1)))"

definition sampleStd :: "gonum \<Rightarrow> f64 list \<Rightarrow> f64" where
  "sampleStd g col = (if length col < 2 then 0 else sqrtF (sum_sq_dev g col / Fin (real (length col - 1))))"

definition df_Mean :: "gonum \<Rightarrow> dataframe \<Rightarrow> dataframe option" where
  "df_Mean g df = (case df_err df of Some e \<Rightarrow> Some (WithErr e) | None \<Rightarrow> df_Reduce (\<lambda>col. Some (col_mean g col)) df)"

definition df_Sum :: "gonum \<Rightarrow> dataframe \<Rightarrow> dataframe option" where
  "df_Sum g df = (case df_err df of Some e \<Rightarrow> Some (WithErr e) | None \<Rightarrow> df_Reduce (\<lambda>col. Some (gn_Sum g col)) df)"

definition df_Max :: "gonum \<Rightarrow> dataframe \<Rightarrow> dataframe option" where
  "df_Max g df = (case df_err df of Some e \<Rightarrow> Some (WithErr e)
     | None \<Rightarrow> df_Reduce (\<lambda>col. if col = [] then Some NaN else gn_Max g col) df)"

definition df_Min :: "gonum \<Rightarrow> dataframe \<Rightarrow> dataframe option" where
  "df_Min g df = (case df_err df of Some e \<Rightarrow> Some (WithErr e)
     | None \<Rightarrow> df_Reduce (\<lambda>col. if col = [] then Some NaN else gn_Min g col) df)"

definition df_Variance :: "gonum \<Rightarrow> dataframe \<Rightarrow> dataframe option" where
  "df_Variance g df = (case df_err df of Some e \<Rightarrow> Some (WithErr e) | None \<Rightarrow> df_Reduce (\<lambda>col. Some (col_variance g col)) df)"

definition df_Std :: "gonum \<Rightarrow> dataframe \<Rightarrow> dataframe option" where
  "df_Std g df = (case df_err df of Some e \<Rightarrow> Some (WithErr e) | None \<Rightarrow> df_Reduce (\<lambda>col. Some (sampleStd g col)) df)"

section \<open>Covariance and correlation\<close>

definition sampleCov :: "gonum \<Rightarrow> f64 list \<Rightarrow> f64 list \<Rightarrow> f64" where
  "sampleCov g xs ys =
     (let count = min (length xs) (length ys) in
      if count < 2 then 0
      else let mx = gn_Mean g (take count xs); my = gn_Mean g (take count ys) in
        foldl (\<lambda>sum i. sum + (xs ! i - mx) * (ys ! i - my)) 0 [0..<count] / Fin (real (count - 1)))"

definition pearsonCorr :: "gonum \<Rightarrow> f64 list \<Rightarrow> f64 list \<Rightarrow> f64" where
  "pearsonCorr g xs ys =
     (let count = min (length xs) (length ys) in
      if count < 2 then 0
      else let cov = sampleCov g (take count xs) (take count ys);
               stdX = sampleStd g (take count xs); stdY = sampleStd g (take count ys) in
        if feq stdX 0 \<or> feq stdY 0 then 0 else cov / (stdX * stdY))"

definition CompositeAsset :: "asset \<Rightarrow> asset \<Rightarrow> asset" where
  "CompositeAsset a b = mk_asset (CompositeFigi a @ '':'' @ CompositeFigi b) (Ticker a @ '':'' @ Ticker b)"

definition CompositeMetric :: "metric \<Rightarrow> metric \<Rightarrow> metric" where
  "CompositeMetric a b = a @ '':'' @ b"

text \<open>The pairs \<open>(i, j)\<close> with \<open>i < j\<close> in the order of the two nested loops.\<close>

definition index_pairs :: "nat \<Rightarrow> (nat \<times> nat) list" where
  "index_pairs n = concat (map (\<lambda>i. map (\<lambda>j. (i, j)) [Suc i..<n]) [0..<n])"

definition crossMetric :: "(f64 list \<Rightarrow> f64 list \<Rightarrow> f64) \<Rightarrow> asset \<Rightarrow> gotime list \<Rightarrow> dataframe \<Rightarrow> dataframe option" where
  "crossMetric stat target lastTime df =
     (case map_of (df_assetIndex df) (CompositeFigi target) of None \<Rightarrow> empty_frame
      | Some aIdx \<Rightarrow>
          let pairs = index_pairs (length (df_metrics df)) in
          if pairs = [] then empty_frame
          else mustNewDataFrame lastTime [target]
                 (map (\<lambda>(i, j). CompositeMetric (df_metrics df ! i) (df_metrics df ! j)) pairs) (df_freq df)
                 (map (\<lambda>(i, j). [stat (colSlice df aIdx i) (colSlice df aIdx j)]) pairs))"

definition crossAsset :: "(f64 list \<Rightarrow> f64 list \<Rightarrow> f64) \<Rightarrow> asset list \<Rightarrow> gotime list \<Rightarrow> dataframe \<Rightarrow> dataframe option" where
  "crossAsset stat assets lastTime df =
     (let idx = (\<lambda>i. map_of (df_assetIndex df) (CompositeFigi (assets ! i)));
          pairs = filter (\<lambda>(i, j). idx i \<noteq> None \<and> idx j \<noteq> None) (index_pairs (length assets)) in
      if pairs = [] then empty_frame
      else mustNewDataFrame lastTime (map (\<lambda>(i, j). CompositeAsset (assets ! i) (assets ! j)) pairs) (df_metrics df) (df_freq df)
             (concat (map (\<lambda>(i, j). map (\<lambda>m. [stat (colSlice df (the (idx i)) m) (colSlice df (the (idx j)) m)])
                [0..<length (df_metrics df)]) pairs)))"

definition cross_frame :: "(f64 list \<Rightarrow> f64 list \<Rightarrow> f64) \<Rightarrow> asset list \<Rightarrow> dataframe \<Rightarrow> dataframe option" where
  "cross_frame stat assets df =
     (case df_err df of Some e \<Rightarrow> Some (WithErr e)
      | None \<Rightarrow>
        (case assets of [] \<Rightarrow> empty_frame
         | [a] \<Rightarrow> crossMetric stat a (last_time df) df
         | _ \<Rightarrow> crossAsset stat assets (last_time df) df))"

definition Covariance :: "gonum \<Rightarrow> asset list \<Rightarrow> dataframe \<Rightarrow> dataframe option" where
  "Covariance g assets df = cross_frame (sampleCov g) assets df"

definition Correlation :: "gonum \<Rightarrow> asset list \<Rightarrow> dataframe \<Rightarrow> dataframe option" where
  "Correlation g assets df = cross_frame (pearsonCorr g) assets df"

section \<open>Transforms\<close>

text \<open>A negative number of periods indexes before the column, which panics.\<close>

definition pct_column :: "int \<Rightarrow> f64 list \<Rightarrow> f64 list option" where
  "pct_column period col =
     (if period < 0 then None
      else Some (map (\<lambda>i. if i < nat period then NaN
                          else (col ! i - col ! (i - nat period)) / col ! (i - nat period)) [0..<length col]))"

definition df_Pct :: "int \<Rightarrow> dataframe \<Rightarrow> dataframe option" where
  "df_Pct period df = (case df_err df of Some e \<Rightarrow> Some (WithErr e) | None \<Rightarrow> df_Apply (pct_column period) df)"

definition risk_adjusted_column :: "f64 list \<Rightarrow> f64 \<Rightarrow> int \<Rightarrow> f64 list \<Rightarrow> f64 list option" where
  "risk_adjusted_column rf periodsPerYear period col =
     (if period < 0 then None
      else Some (map (\<lambda>i. if i < nat period then NaN
             else (col ! i - col ! (i - nat period)) / col ! (i - nat period)
                  - foldl (\<lambda>s w. s + rf ! w) 0 [i + 1 - nat period..<Suc i] / periodsPerYear / 100) [0..<length col]))"

definition RiskAdjustedPct :: "int \<Rightarrow> dataframe \<Rightarrow> dataframe option" where
  "RiskAdjustedPct period df =
     (case df_err df of Some e \<Rightarrow> Some (WithErr e)
      | None \<Rightarrow>
        (case df_riskFreeRates df of None \<Rightarrow> Some (WithErr (Err ''RiskAdjustedPct: no risk-free rates attached''))
         | Some rf \<Rightarrow> df_Apply (risk_adjusted_column rf (PeriodsPerYear (df_freq df)) period) df))"

definition diff_column :: "gonum \<Rightarrow> f64 list \<Rightarrow> f64 list" where
  "diff_column g col = (if col = [] then [] else NaN # gn_SubTo g (tl col) (butlast col))"

definition df_Diff :: "gonum \<Rightarrow> dataframe \<Rightarrow> dataframe option" where
  "df_Diff g df = (case df_err df of Some e \<Rightarrow> Some (WithErr e) | None \<Rightarrow> df_Apply (\<lambda>col. Some (diff_column g col)) df)"

definition df_CumSum :: "gonum \<Rightarrow> dataframe \<Rightarrow> dataframe option" where
  "df_CumSum g df = (case df_err df of Some e \<Rightarrow> Some (WithErr e) | None \<Rightarrow> df_Apply (\<lambda>col. Some (gn_CumSum g col)) df)"

fun cummax_loop :: "f64 \<Rightarrow> f64 list \<Rightarrow> f64 list" where
  "cummax_loop prev [] = []"
| "cummax_loop prev (v # vs) = (let out = (if v > prev then v else prev) in out # cummax_loop out vs)"

definition cummax_column :: "f64 list \<Rightarrow> f64 list" where
  "cummax_column col = (case col of [] \<Rightarrow> [] | v # vs \<Rightarrow> v # cummax_loop v vs)"

definition df_CumMax :: "dataframe \<Rightarrow> dataframe option" where
  "df_CumMax df = (case df_err df of Some e \<Rightarrow> Some (WithErr e) | None \<Rightarrow> df_Apply (\<lambda>col. Some (cummax_column col)) df)"

definition shift_column :: "int \<Rightarrow> f64 list \<Rightarrow> f64 list" where
  "shift_column positions col =
     (if positions \<ge> 0
      then if nat positions < length col
           then replicate (nat positions) NaN @ take (length col - nat positions) col
           else replicate (length col) NaN
      else if nat (- positions) < length col
           then drop (nat (- positions)) col @ replicate (nat (- positions)) NaN
           else replicate (length col) NaN)"

definition df_Shift :: "int \<Rightarrow> dataframe \<Rightarrow> dataframe option" where
  "df_Shift n df = (case df_err df of Some e \<Rightarrow> Some (WithErr e) | None \<Rightarrow> df_Apply (\<lambda>col. Some (shift_column n col)) df)"

section \<open>Rolling windows\<close>

text \<open>
  Every rolling statistic leaves the rows before the first full window NaN and applies the
  statistic to the window that ends at the row. A negative window size panics, as the slice
  expression has its bounds reversed.
\<close>

definition rolling_column :: "(f64 list \<Rightarrow> f64 option) \<Rightarrow> int \<Rightarrow> f64 list \<Rightarrow> f64 list option" where
  "rolling_column stat window col =
     (if window < 0 \<and> col \<noteq> [] then None
      else those (map (\<lambda>idx. if int idx < window - 1 then Some NaN
                            else stat (slice (idx + 1 - nat window) (idx + 1) col)) [0..<length col]))"

definition rolling_apply :: "(f64 list \<Rightarrow> f64 option) \<Rightarrow> int \<Rightarrow> dataframe \<Rightarrow> dataframe option" where
  "rolling_apply stat window df =
     (case df_err df of Some e \<Rightarrow> Some (WithErr e) | None \<Rightarrow> df_Apply (rolling_column stat window) df)"

definition rolling_Mean :: "gonum \<Rightarrow> int \<Rightarrow> dataframe \<Rightarrow> dataframe option" where
  "rolling_Mean g = rolling_apply (\<lambda>w. Some (gn_Mean g w))"

definition rolling_Sum :: "gonum \<Rightarrow> int \<Rightarrow> dataframe \<Rightarrow> dataframe option" where
  "rolling_Sum g = rolling_apply (\<lambda>w. Some (gn_Sum g w))"

definition rolling_Max :: "gonum \<Rightarrow> int \<Rightarrow> dataframe \<Rightarrow> dataframe option" where
  "rolling_Max g = rolling_apply (gn_Max g)"

definition rolling_Min :: "gonum \<Rightarrow> int \<Rightarrow> dataframe \<Rightarrow> dataframe option" where
  "rolling_Min g = rolling_apply (gn_Min g)"

definition rolling_Std :: "gonum \<Rightarrow> int \<Rightarrow> dataframe \<Rightarrow> dataframe option" where
  "rolling_Std g window = rolling_apply (\<lambda>w. Some (if window \<le> 1 then 0
     else sqrtF (sum_sq_dev g w / Fin (of_int (window - 1))))) window"

definition rolling_Variance :: "gonum \<Rightarrow> int \<Rightarrow> dataframe \<Rightarrow> dataframe option" where
  "rolling_Variance g window = rolling_apply (\<lambda>w. Some (if window \<le> 1 then 0
     else sum_sq_dev g w / Fin (of_int (window - 1)))) window"

text \<open>\<open>sort.Float64s\<close>: ascending, NaN values first.\<close>

definition float_before :: "f64 \<Rightarrow> f64 \<Rightarrow> bool" where
  "float_before x y \<longleftrightarrow> x < y \<or> isNaN x \<and> \<not> isNaN y"

fun insort_float :: "f64 \<Rightarrow> f64 list \<Rightarrow> f64 list" where
  "insort_float x [] = [x]"
| "insort_float x (y # ys) = (if float_before y x then y # insort_float x ys else x # y # ys)"

definition sort_Float64s :: "f64 list \<Rightarrow> f64 list" where
  "sort_Float64s xs = foldr insort_float xs []"

definition rolling_Percentile :: "gonum \<Rightarrow> f64 \<Rightarrow> int \<Rightarrow> dataframe \<Rightarrow> dataframe option" where
  "rolling_Percentile g p = rolling_apply (\<lambda>w. gn_Quantile g p (sort_Float64s w))"

text \<open>
  The exponential moving average of a column: seeded with the mean of the first window. A
  window size of zero or less starts no window, and the first row then reads before the column.
\<close>

fun ema_loop :: "f64 \<Rightarrow> f64 \<Rightarrow> f64 list \<Rightarrow> f64 list" where
  "ema_loop alpha prev [] = []"
| "ema_loop alpha prev (v # vs) = (let out = alpha * v + (1 - alpha) * prev in out # ema_loop alpha out vs)"

definition ema_column :: "gonum \<Rightarrow> int \<Rightarrow> f64 list \<Rightarrow> f64 list option" where
  "ema_column g window col =
     (if col = [] then Some []
      else if window \<le> 0 then None
      else let n = nat window; alpha = 2 / Fin (of_int (window + 1)) in
        if length col < n then Some (replicate (length col) NaN)
        else let seed = gn_Mean g (take n col) in
          Some (replicate (n - 1) NaN @ seed # ema_loop alpha seed (drop n col)))"

definition rolling_EMA :: "gonum \<Rightarrow> int \<Rightarrow> dataframe \<Rightarrow> dataframe option" where
  "rolling_EMA g window df =
     (case df_err df of Some e \<Rightarrow> Some (WithErr e) | None \<Rightarrow> df_Apply (ema_column g window) df)"

section \<open>Periods\<close>

datatype PeriodUnit = UnitDay | UnitMonth | UnitYear | UnitYTD | UnitMTD | UnitWTD | UnitMinuteBar | UnitDailyAtTime

record TimeOfDay =
  Hour :: int
  Minute :: int

record Period =
  p_N :: int
  p_Unit :: PeriodUnit
  p_TimeOfDay :: "TimeOfDay list"

definition mk_Period :: "int \<Rightarrow> PeriodUnit \<Rightarrow> Period" where
  "mk_Period n u = \<lparr>p_N = n, p_Unit = u, p_TimeOfDay = []\<rparr>"

definition Days :: "int \<Rightarrow> Period" where "Days n = mk_Period n UnitDay"
definition Months :: "int \<Rightarrow> Period" where "Months n = mk_Period n UnitMonth"
definition Years :: "int \<Rightarrow> Period" where "Years n = mk_Period n UnitYear"
definition YTD :: Period where "YTD = mk_Period 0 UnitYTD"
definition MTD :: Period where "MTD = mk_Period 0 UnitMTD"
definition WTD :: Period where "WTD = mk_Period 0 UnitWTD"
definition MinuteBars :: "int \<Rightarrow> Period" where "MinuteBars n = mk_Period n UnitMinuteBar"

definition wrap64 :: "int \<Rightarrow> int" where
  "wrap64 x = (x + 2 ^ 63) mod 2 ^ 64 - 2 ^ 63"

definition Period_Before :: "Period \<Rightarrow> gotime \<Rightarrow> gotime" where
  "Period_Before p ref =
     (case time_date ref of (y, m, d) \<Rightarrow>
        case p_Unit p of
          UnitDay \<Rightarrow> time_addDate ref 0 0 (- p_N p)
        | UnitMonth \<Rightarrow> time_addDate (days_of_civil y m 1 * day_ns + clock_of ref) 0 (- (p_N p - 1)) 0
        | UnitYear \<Rightarrow> time_addDate ref (- p_N p) 0 0
        | UnitYTD \<Rightarrow> days_of_civil y 1 1 * day_ns
        | UnitMTD \<Rightarrow> days_of_civil y m 1 * day_ns
        | UnitWTD \<Rightarrow> (let offset = time_weekday ref - 1 in
            time_addDate ref 0 0 (- (if offset < 0 then offset + 7 else offset)))
        | UnitMinuteBar \<Rightarrow> ref + wrap64 (- p_N p * minute_ns)
        | UnitDailyAtTime \<Rightarrow> time_addDate ref 0 0 (- p_N p))"

definition IsIntraday :: "Period \<Rightarrow> bool" where
  "IsIntraday p \<longleftrightarrow> p_Unit p = UnitMinuteBar \<or> p_Unit p = UnitDailyAtTime"

definition df_Window :: "Period option \<Rightarrow> dataframe \<Rightarrow> dataframe option" where
  "df_Window period df =
     (case df_err df of Some e \<Rightarrow> Some (WithErr e)
      | None \<Rightarrow>
        (case period of None \<Rightarrow> sliceByTimeIndices 0 (length (df_times df)) df
         | Some p \<Rightarrow>
             if df_times df = [] then empty_frame
             else let start = Period_Before p (df_End df) in
               if \<not> start > df_Start df then sliceByTimeIndices 0 (length (df_times df)) df
               else Between start (df_End df) df))"

section \<open>Downsampling\<close>

definition time_year :: "gotime \<Rightarrow> int" where "time_year t = fst (time_date t)"
definition time_month :: "gotime \<Rightarrow> int" where "time_month t = fst (snd (time_date t))"
definition time_yearDay :: "gotime \<Rightarrow> int" where
  "time_yearDay t = days_of t - days_of_civil (time_year t) 1 1 + 1"

text \<open>\<open>Time.ISOWeek\<close>: the week of the year that the Thursday of the week belongs to.\<close>

definition time_isoWeek :: "gotime \<Rightarrow> int \<times> int" where
  "time_isoWeek t =
     (let thursday = days_of t - (days_of t + 3) mod 7 + 3;
          y = fst (civil_of_days thursday)
      in (y, (thursday - days_of_civil y 1 1) div 7 + 1))"

definition periodChanged :: "gotime \<Rightarrow> gotime \<Rightarrow> Frequency \<Rightarrow> bool" where
  "periodChanged prev cur freq =
     (case freq of
        Daily \<Rightarrow> time_year prev \<noteq> time_year cur \<or> time_yearDay prev \<noteq> time_yearDay cur
      | Weekly \<Rightarrow> snd (time_isoWeek prev) \<noteq> snd (time_isoWeek cur)
      | Monthly \<Rightarrow> time_month prev \<noteq> time_month cur \<or> time_year prev \<noteq> time_year cur
      | Quarterly \<Rightarrow> (time_month prev - 1) div 3 \<noteq> (time_month cur - 1) div 3 \<or> time_year prev \<noteq> time_year cur
      | Yearly \<Rightarrow> time_year prev \<noteq> time_year cur
      | Tick \<Rightarrow> True)"

text \<open>Groups of rows \<open>(start, end)\<close>; a group ends where the period changes.\<close>

definition row_groups :: "gotime list \<Rightarrow> Frequency \<Rightarrow> (nat \<times> nat) list" where
  "row_groups ts freq =
     (case foldl (\<lambda>(groups, groupStart) i.
         if periodChanged (ts ! (i - 1)) (ts ! i) freq then (groups @ [(groupStart, i)], i) else (groups, groupStart))
         ([], 0) [1..<length ts] of (groups, groupStart) \<Rightarrow> groups @ [(groupStart, length ts)])"

definition aggregate :: "(f64 list \<Rightarrow> f64 option) \<Rightarrow> Frequency \<Rightarrow> dataframe \<Rightarrow> dataframe option" where
  "aggregate reducer freq df =
     (if df_times df = [] then empty_frame
      else let groups = row_groups (df_times df) freq in
        (case those (map (\<lambda>col. those (map (\<lambda>(s, e). reducer (slice s e col)) groups)) (df_columns df)) of None \<Rightarrow> None
         | Some cols \<Rightarrow>
             map_option (\<lambda>r. r\<lparr>df_riskFreeRates := map_option (\<lambda>rf. map (\<lambda>(s, e). rf ! (e - 1)) groups) (df_riskFreeRates df)\<rparr>)
               (mustNewDataFrame (map (\<lambda>(s, e). df_times df ! (e - 1)) groups) (df_assets df) (df_metrics df) freq cols)))"

definition down_Mean :: "gonum \<Rightarrow> Frequency \<Rightarrow> dataframe \<Rightarrow> dataframe option" where
  "down_Mean g = aggregate (\<lambda>vals. Some (gn_Mean g vals))"
definition down_Sum :: "gonum \<Rightarrow> Frequency \<Rightarrow> dataframe \<Rightarrow> dataframe option" where
  "down_Sum g = aggregate (\<lambda>vals. Some (gn_Sum g vals))"
definition down_Max :: "gonum \<Rightarrow> Frequency \<Rightarrow> dataframe \<Rightarrow> dataframe option" where
  "down_Max g = aggregate (gn_Max g)"
definition down_Min :: "gonum \<Rightarrow> Frequency \<Rightarrow> dataframe \<Rightarrow> dataframe option" where
  "down_Min g = aggregate (gn_Min g)"
definition down_First :: "Frequency \<Rightarrow> dataframe \<Rightarrow> dataframe option" where
  "down_First = aggregate (\<lambda>vals. case vals of [] \<Rightarrow> None | v # _ \<Rightarrow> Some v)"
definition down_Last :: "Frequency \<Rightarrow> dataframe \<Rightarrow> dataframe option" where
  "down_Last = aggregate (\<lambda>vals. if vals = [] then None else Some (last vals))"
definition down_Std :: "gonum \<Rightarrow> Frequency \<Rightarrow> dataframe \<Rightarrow> dataframe option" where
  "down_Std g = aggregate (\<lambda>vals. Some (sampleStd g vals))"
definition down_Variance :: "gonum \<Rightarrow> Frequency \<Rightarrow> dataframe \<Rightarrow> dataframe option" where
  "down_Variance g = aggregate (\<lambda>vals. Some (col_variance g vals))"

section \<open>Column functions\<close>

lemma those_map_Some: "(\<And>x. x \<in> set xs \<Longrightarrow> f x = Some (h x)) \<Longrightarrow> those (map f xs) = Some (map h xs)"
  by (induction xs) auto

lemma df_Apply_eq:
  assumes "df_wf df" "df_err df = None"
    and "\<And>c. length c = length (df_times df) \<Longrightarrow> transform c = Some (h c) \<and> length (h c) = length c"
  shows "df_Apply transform df = Some (df\<lparr>df_columns := map h (df_columns df)\<rparr>)"
    "df_wf (df\<lparr>df_columns := map h (df_columns df)\<rparr>)"
proof -
  have t: "those (map transform (df_columns df)) = Some (map h (df_columns df))"
    using assms(3) df_wfD(2) [OF assms(1)] by (intro those_map_Some) auto
  have l: "list_all (\<lambda>c. length c = length (df_times df)) (map h (df_columns df))"
    using assms(3) df_wfD(2) [OF assms(1)] by (simp add: list_all_iff)
  have "mustNewDataFrame (df_times df) (df_assets df) (df_metrics df) (df_freq df) (map h (df_columns df))
      = Some (mk_frame (df_times df) (df_assets df) (df_metrics df) (df_freq df) (map h (df_columns df)))"
    using df_wfD(1) [OF assms(1)] l by (intro mustNewDataFrame_Some) simp
  then show "df_Apply transform df = Some (df\<lparr>df_columns := map h (df_columns df)\<rparr>)"
    using t assms(2) df_wfD(3) [OF assms(1)] by (cases df) (simp add: df_Apply_def propagateAux_def mk_frame_def)
  show "df_wf (df\<lparr>df_columns := map h (df_columns df)\<rparr>)" using assms(1) l by (auto simp: df_wf_def split: option.splits)
qed

lemma df_Apply_yields:
  assumes "df_wf df" "\<And>c. length c = length (df_times df) \<Longrightarrow> transform c = Some (h c) \<and> length (h c) = length c"
  shows "yields (df_Apply transform df)"
  using df_Apply_eq [OF assms(1) _ assms(2)] by (cases "df_err df") (auto simp: df_Apply_def)

text \<open>The transform acts on the column of every asset and metric.\<close>

lemma df_Apply_column:
  assumes "df_wf df" "df_err df = None" "df_Apply transform df = Some r"
    and "\<And>c. length c = length (df_times df) \<Longrightarrow> transform c = Some (h c) \<and> length (h c) = length c"
  shows "df_Column r a m = map_option h (df_Column df a m)"
  using df_Apply_eq [OF assms(1,2,4)] assms(3) by (intro df_Column_map [OF assms(1,2)]) (auto simp: assms(2))

lemma df_Reduce_eq:
  assumes "df_wf df" "df_err df = None" "df_times df \<noteq> []"
    and "\<And>c. length c = length (df_times df) \<Longrightarrow> reducer c = Some (h c)"
  shows "df_Reduce reducer df = Some (mk_frame [last (df_times df)] (df_assets df) (df_metrics df) (df_freq df)
      (map (\<lambda>c. [h c]) (df_columns df)))"
proof -
  have "those (map reducer (df_columns df)) = Some (map h (df_columns df))"
    using assms(4) df_wfD(2) [OF assms(1)] by (intro those_map_Some) auto
  then show ?thesis using assms(2,3) df_wfD(1) [OF assms(1)]
    by (simp add: df_Reduce_def last_time_def mustNewDataFrame_Some list_all_iff o_def)
qed

lemma df_Reduce_yields:
  assumes "df_wf df" "df_times df \<noteq> []" "\<And>c. length c = length (df_times df) \<Longrightarrow> reducer c = Some (h c)"
  shows "yields (df_Reduce reducer df)"
proof (cases "df_err df")
  case None
  show ?thesis using df_Reduce_eq [OF assms(1) None assms(2,3)] df_wfD(1) [OF assms(1)]
    by (simp add: df_wf_def list_all_iff)
qed (simp add: df_Reduce_def)

text \<open>On a frame with columns but no rows the result has one value per column and no timestamp, and building it panics.\<close>

lemma df_Reduce_no_rows:
  assumes "df_wf df" "df_err df = None" "df_times df = []" "df_columns df \<noteq> []"
  shows "df_Reduce reducer df = None"
proof (cases "those (map reducer (df_columns df))")
  case (Some vals)
  have "those xs = Some ys \<Longrightarrow> length ys = length xs" for xs and ys :: "f64 list"
    by (induction xs arbitrary: ys) (auto split: option.splits)
  then have "length vals = length (df_columns df)" using Some by fastforce
  then have "vals \<noteq> []" using assms(4) by auto
  then show ?thesis using Some assms(2,3)
    by (cases vals) (auto simp: df_Reduce_def last_time_def mustNewDataFrame_def NewDataFrame_def Let_def)
qed (simp add: df_Reduce_def assms(2))

section \<open>Transforms keep the length of columns\<close>

lemma cummax_loop_length [simp]: "length (cummax_loop p vs) = length vs"
  by (induction vs arbitrary: p) (simp_all add: Let_def)

lemma ema_loop_length [simp]: "length (ema_loop al p vs) = length vs"
  by (induction vs arbitrary: p) (simp_all add: Let_def)

lemma column_lengths [simp]:
  "length (cummax_column c) = length c" "length (shift_column n c) = length c"
  "gonum_ok g \<Longrightarrow> length (diff_column g c) = length c" "gonum_ok g \<Longrightarrow> length (gn_CumSum g c) = length c"
  by (simp add: cummax_column_def split: list.split)
     (simp_all add: shift_column_def diff_column_def gonum_ok_def running_sums_def)

lemma transforms_yield:
  assumes "df_wf df"
  shows "period \<ge> 0 \<Longrightarrow> yields (df_Pct period df)" "period \<ge> 0 \<Longrightarrow> yields (RiskAdjustedPct period df)"
    "gonum_ok g \<Longrightarrow> yields (df_Diff g df)" "gonum_ok g \<Longrightarrow> yields (df_CumSum g df)" "yields (df_CumMax df)"
    "yields (df_Shift n df)" "window > 0 \<Longrightarrow> yields (rolling_EMA g window df)"
proof -
  show "period \<ge> 0 \<Longrightarrow> yields (df_Pct period df)"
    using df_Apply_yields [OF assms, of "pct_column period" "the \<circ> pct_column period"]
    by (auto simp: df_Pct_def pct_column_def split: option.split)
  show "period \<ge> 0 \<Longrightarrow> yields (RiskAdjustedPct period df)"
    using df_Apply_yields [OF assms, of "risk_adjusted_column rf p period" "the \<circ> risk_adjusted_column rf p period" for rf p]
    by (auto simp: RiskAdjustedPct_def risk_adjusted_column_def split: option.split)
  show "gonum_ok g \<Longrightarrow> yields (df_Diff g df)"
    using df_Apply_yields [OF assms, of "\<lambda>c. Some (diff_column g c)" "diff_column g"] by (auto simp: df_Diff_def split: option.split)
  show "gonum_ok g \<Longrightarrow> yields (df_CumSum g df)"
    using df_Apply_yields [OF assms, of "\<lambda>c. Some (gn_CumSum g c)" "gn_CumSum g"] by (auto simp: df_CumSum_def split: option.split)
  show "yields (df_CumMax df)"
    using df_Apply_yields [OF assms, of "\<lambda>c. Some (cummax_column c)" "cummax_column"] by (auto simp: df_CumMax_def split: option.split)
  show "yields (df_Shift n df)"
    using df_Apply_yields [OF assms, of "\<lambda>c. Some (shift_column n c)" "shift_column n"] by (auto simp: df_Shift_def split: option.split)
  assume "window > 0"
  then have "ema_column g window c = Some (the (ema_column g window c)) \<and> length (the (ema_column g window c)) = length c" for c
    by (auto simp: ema_column_def Let_def)
  then show "yields (rolling_EMA g window df)"
    using df_Apply_yields [OF assms, of "ema_column g window" "the \<circ> ema_column g window"] by (auto simp: rolling_EMA_def split: option.split)
qed

text \<open>A rolling statistic that is defined on nonempty windows.\<close>

lemma rolling_column_eq:
  assumes "window > 0" "\<And>w. w \<noteq> [] \<Longrightarrow> stat w = Some (h w)"
  shows "rolling_column stat window col = Some (map (\<lambda>idx. if int idx < window - 1 then NaN
      else h (slice (idx + 1 - nat window) (idx + 1) col)) [0..<length col])"
proof -
  have "slice (idx + 1 - nat window) (idx + 1) col \<noteq> []" if "idx < length col" for idx
    using that assms(1) by (simp add: slice_def)
  then have "those (map (\<lambda>idx. if int idx < window - 1 then Some NaN else stat (slice (idx + 1 - nat window) (idx + 1) col)) [0..<length col])
      = Some (map (\<lambda>idx. if int idx < window - 1 then NaN else h (slice (idx + 1 - nat window) (idx + 1) col)) [0..<length col])"
    using assms(2) by (intro those_map_Some) auto
  then show ?thesis using assms(1) by (simp add: rolling_column_def)
qed

lemma rolling_yields:
  assumes "df_wf df" "window > 0" "\<And>w. w \<noteq> [] \<Longrightarrow> stat w = Some (h w)"
  shows "yields (rolling_apply stat window df)"
proof -
  have "yields (df_Apply (rolling_column stat window) df)"
    by (rule df_Apply_yields [OF assms(1), of _ "\<lambda>col. map (\<lambda>idx. if int idx < window - 1 then NaN
        else h (slice (idx + 1 - nat window) (idx + 1) col)) [0..<length col]"])
       (simp add: rolling_column_eq [where h = h, OF assms(2,3)])
  then show ?thesis by (simp add: rolling_apply_def split: option.split)
qed

section \<open>Downsampling\<close>

text \<open>
  The groups partition the rows in order: none is empty, their slices make up the column
  again, the period does not change inside a group and changes between consecutive groups.
\<close>

definition group_scan :: "gotime list \<Rightarrow> Frequency \<Rightarrow> nat \<Rightarrow> (nat \<times> nat) list \<times> nat" where
  "group_scan ts freq n = foldl (\<lambda>(groups, s) i.
     if periodChanged (ts ! (i - 1)) (ts ! i) freq then (groups @ [(s, i)], i) else (groups, s)) ([], 0) [1..<n]"

lemma group_scan_Suc:
  "n \<ge> 1 \<Longrightarrow> group_scan ts freq (Suc n) = (case group_scan ts freq n of (groups, s) \<Rightarrow>
     if periodChanged (ts ! (n - 1)) (ts ! n) freq then (groups @ [(s, n)], n) else (groups, s))"
  by (simp add: group_scan_def split: prod.split)

lemma row_groups_scan:
  "row_groups ts freq = (case group_scan ts freq (length ts) of (groups, s) \<Rightarrow> groups @ [(s, length ts)])"
  by (simp add: row_groups_def group_scan_def)

definition same_period :: "gotime list \<Rightarrow> Frequency \<Rightarrow> nat \<times> nat \<Rightarrow> bool" where
  "same_period ts freq g \<longleftrightarrow> (\<forall>i. fst g < i \<and> i < snd g \<longrightarrow> \<not> periodChanged (ts ! (i - 1)) (ts ! i) freq)"

lemma group_scan_inv:
  assumes "n \<ge> 1" "group_scan ts freq n = (gs, s)"
  shows "s < n \<and> (\<forall>g\<in>set gs. fst g < snd g \<and> snd g \<le> s \<and> same_period ts freq g
      \<and> periodChanged (ts ! (snd g - 1)) (ts ! snd g) freq)
    \<and> same_period ts freq (s, n) \<and> concat (map (\<lambda>(a, b). [a..<b]) gs) = [0..<s]"
  using assms
proof (induction n arbitrary: gs s)
  case (Suc n)
  show ?case
  proof (cases "n = 0")
    case True
    then show ?thesis using Suc.prems by (simp add: group_scan_def same_period_def)
  next
    case False
    then have n: "n \<ge> 1" by simp
    obtain gs0 s0 where prev: "group_scan ts freq n = (gs0, s0)" by fastforce
    note ih = Suc.IH [OF n prev]
    show ?thesis
    proof (cases "periodChanged (ts ! (n - 1)) (ts ! n) freq")
      case True
      then have gs: "gs = gs0 @ [(s0, n)]" "s = n" using Suc.prems(2) prev n by (auto simp: group_scan_Suc)
      have "[0..<s0] @ [s0..<n] = [0..<n]" using ih by (metis less_imp_le upt_add_eq_append le0 le_add_diff_inverse)
      then show ?thesis using ih gs True by (auto simp: same_period_def)
    next
      case no: False
      then have gs: "gs = gs0" "s = s0" using Suc.prems(2) prev n by (simp_all add: group_scan_Suc)
      have "same_period ts freq (s0, Suc n)"
        using ih no by (auto simp: same_period_def less_Suc_eq)
      then show ?thesis using ih gs by auto
    qed
  qed
qed simp

lemma row_groups_spec:
  assumes "ts \<noteq> []"
  shows "\<forall>g\<in>set (row_groups ts freq). fst g < snd g \<and> snd g \<le> length ts \<and> same_period ts freq g
       \<and> (snd g < length ts \<longrightarrow> periodChanged (ts ! (snd g - 1)) (ts ! snd g) freq)"
    "concat (map (\<lambda>(a, b). [a..<b]) (row_groups ts freq)) = [0..<length ts]"
    "row_groups ts freq \<noteq> []" "snd (last (row_groups ts freq)) = length ts"
proof -
  obtain gs s where sc: "group_scan ts freq (length ts) = (gs, s)" by fastforce
  have "length ts \<ge> 1" using assms by (cases ts) auto
  note inv = group_scan_inv [OF this sc]
  have rg: "row_groups ts freq = gs @ [(s, length ts)]" by (simp add: row_groups_scan sc)
  show "\<forall>g\<in>set (row_groups ts freq). fst g < snd g \<and> snd g \<le> length ts \<and> same_period ts freq g
       \<and> (snd g < length ts \<longrightarrow> periodChanged (ts ! (snd g - 1)) (ts ! snd g) freq)"
    using inv by (auto simp: rg)
  show "concat (map (\<lambda>(a, b). [a..<b]) (row_groups ts freq)) = [0..<length ts]"
    using inv by (simp add: rg) (metis less_imp_le upt_add_eq_append le0 le_add_diff_inverse)
  show "row_groups ts freq \<noteq> []" "snd (last (row_groups ts freq)) = length ts" by (simp_all add: rg)
qed

lemma row_groups_slices:
  assumes "ts \<noteq> []" "length xs = length ts"
  shows "concat (map (\<lambda>(a, b). slice a b xs) (row_groups ts freq)) = xs"
proof -
  have "map (\<lambda>(a, b). slice a b xs) (row_groups ts freq) = map (map ((!) xs)) (map (\<lambda>(a, b). [a..<b]) (row_groups ts freq))"
  proof -
    have "slice (fst g) (snd g) xs = map ((!) xs) [fst g..<snd g]" if "g \<in> set (row_groups ts freq)" for g
      using row_groups_spec(1) [OF assms(1), of freq] that assms(2) by (intro slice_nth_map) auto
    then show ?thesis by (simp add: case_prod_unfold)
  qed
  then have "concat (map (\<lambda>(a, b). slice a b xs) (row_groups ts freq)) = map ((!) xs) (concat (map (\<lambda>(a, b). [a..<b]) (row_groups ts freq)))"
    by (simp only: map_concat)
  then show ?thesis using row_groups_spec(2) [OF assms(1), of freq] assms(2) map_nth [of xs] by simp
qed

definition group_values :: "(f64 list \<Rightarrow> f64) \<Rightarrow> Frequency \<Rightarrow> gotime list \<Rightarrow> f64 list \<Rightarrow> f64 list" where
  "group_values h freq ts col = map (\<lambda>(s, e). h (slice s e col)) (row_groups ts freq)"

lemma aggregate_eq:
  assumes "df_wf df" "df_times df \<noteq> []" "\<And>w. w \<noteq> [] \<Longrightarrow> reducer w = Some (h w)"
  shows "\<exists>r. aggregate reducer freq df = Some r \<and> df_wf r \<and> df_err r = None
    \<and> df_times r = map (\<lambda>(s, e). df_times df ! (e - 1)) (row_groups (df_times df) freq)
    \<and> (df_err df = None \<longrightarrow> (\<forall>a m. df_Column r a m = map_option (group_values h freq (df_times df)) (df_Column df a m)))"
proof -
  let ?gs = "row_groups (df_times df) freq"
  have g: "slice s e c \<noteq> []" if "(s, e) \<in> set ?gs" "length c = length (df_times df)" for s e c
    using row_groups_spec(1) [OF assms(2), of freq] that by (fastforce simp: slice_def)
  have "those (map (\<lambda>(s, e). reducer (slice s e c)) ?gs) = Some (group_values h freq (df_times df) c)" if "length c = length (df_times df)" for c
    unfolding group_values_def by (rule those_map_Some) (use g [OF _ that] assms(3) in auto)
  then have cols: "those (map (\<lambda>col. those (map (\<lambda>(s, e). reducer (slice s e col)) ?gs)) (df_columns df))
      = Some (map (group_values h freq (df_times df)) (df_columns df))"
    using df_wfD(2) [OF assms(1)] by (intro those_map_Some) auto
  define r where "r = (mk_frame (map (\<lambda>(s, e). df_times df ! (e - 1)) ?gs) (df_assets df) (df_metrics df) freq
      (map (group_values h freq (df_times df)) (df_columns df)))\<lparr>df_riskFreeRates := map_option (\<lambda>rf. map (\<lambda>(s, e). rf ! (e - 1)) ?gs) (df_riskFreeRates df)\<rparr>"
  have "mustNewDataFrame (map (\<lambda>(s, e). df_times df ! (e - 1)) ?gs) (df_assets df) (df_metrics df) freq
      (map (group_values h freq (df_times df)) (df_columns df))
    = Some (mk_frame (map (\<lambda>(s, e). df_times df ! (e - 1)) ?gs) (df_assets df) (df_metrics df) freq
      (map (group_values h freq (df_times df)) (df_columns df)))"
    using df_wfD(1) [OF assms(1)] by (intro mustNewDataFrame_Some) (auto simp: list_all_iff group_values_def)
  then have "aggregate reducer freq df = Some r" using cols assms(2) by (simp add: aggregate_def Let_def r_def)
  moreover have "df_wf r" using df_wfD(1) [OF assms(1)]
    by (auto simp: r_def df_wf_def list_all_iff group_values_def split: option.splits)
  moreover have "df_Column r a m = map_option (group_values h freq (df_times df)) (df_Column df a m)" if "df_err df = None" for a m
    by (rule df_Column_map [OF assms(1) that]) (use df_wfD(3) [OF assms(1)] in \<open>simp_all add: r_def\<close>)
  ultimately show ?thesis by (simp add: r_def)
qed

text \<open>Downsampled sums add up to the sum of the column.\<close>

lemma group_sums:
  assumes "ts \<noteq> []" "length col = length ts" "gonum_ok g"
  shows "sum_list (group_values (gn_Sum g) freq ts col) = sum_list col"
proof -
  have "sum_list (concat xss) = sum_list (map sum_list xss)" for xss :: "f64 list list"
    by (induction xss) (simp_all add: sum_list_append)
  from this [of "map (\<lambda>(a, b). slice a b col) (row_groups ts freq)"] row_groups_slices [OF assms(1,2), of freq] assms(3)
  show ?thesis by (simp add: group_values_def gonum_ok_def o_def case_prod_unfold)
qed

text \<open>The aggregates do not look at the error of the frame: an error frame becomes an empty frame without the error.\<close>

lemma aggregate_drops_error: "aggregate reducer freq (WithErr e) = Some df_zero"
  by (simp add: aggregate_def WithErr_def empty_frame_eq)

section \<open>Periods\<close>

lemma df_Window_yields:
  assumes "df_wf df"
  shows "yields (df_Window w df)"
proof (cases "df_err df")
  case None
  have "yields (sliceByTimeIndices 0 (length (df_times df)) df)"
    using sliceByTimeIndices_eq [OF assms None, of 0 "length (df_times df)"] time_slice_wf [OF assms] by simp
  then show ?thesis using None Between_yields [OF assms] by (simp add: df_Window_def Let_def split: option.split)
qed (simp add: df_Window_def)

lemma Period_Before_days: "p_Unit p = UnitDay \<Longrightarrow> Period_Before p ref = ref - p_N p * day_ns"
  by (simp add: Period_Before_def time_addDate_days split: prod.split)

end
