(* ===== verification/DataCache.thy ===== *)
theory DataCache
  imports FrameStats
begin

text \<open>
  The engine's data access (engine/engine.go, engine/data\_cache.go): a cache of columns per
  asset, metric and calendar year, filled from the data providers on a miss, and the two ways
  of assembling an answer from it, a one-row frame for a point in time and a slab over a range.
  The providers are a parameter.
\<close>

section \<open>The column cache\<close>

record colCacheKey =
  ck_figi :: string
  ck_metric :: metric
  ck_chunkStart :: int

record colCacheEntry =
  ce_times :: "gotime list"
  ce_values :: "f64 list"

record dataCache =
  dc_entries :: "(colCacheKey, colCacheEntry) gomap"
  dc_curBytes :: int
  dc_maxBytes :: int

definition defaultMaxBytes :: int where "defaultMaxBytes = 512 * 1024 * 1024"

definition newDataCache :: "int \<Rightarrow> dataCache" where
  "newDataCache maxBytes =
     \<lparr>dc_entries = [], dc_curBytes = 0, dc_maxBytes = (if maxBytes \<le> 0 then defaultMaxBytes else maxBytes)\<rparr>"

definition estimateEntryBytes :: "colCacheEntry \<Rightarrow> int" where
  "estimateEntryBytes e = int (length (ce_values e) * 8 + length (ce_times e) * 24)"

definition cache_get :: "dataCache \<Rightarrow> colCacheKey \<Rightarrow> colCacheEntry option" where
  "cache_get c key = map_of (dc_entries c) key"

definition cache_put :: "colCacheKey \<Rightarrow> colCacheEntry \<Rightarrow> dataCache \<Rightarrow> dataCache" where
  "cache_put key entry c =
     (let freed = (case map_of (dc_entries c) key of None \<Rightarrow> 0 | Some old \<Rightarrow> estimateEntryBytes old) in
      c\<lparr>dc_entries := mput key entry (dc_entries c),
        dc_curBytes := dc_curBytes c - freed + estimateEntryBytes entry\<rparr>)"

text \<open>
  A location as the engine uses it: the year, the day of the year and the minute of the day of a
  time, and the first moment of a year.
\<close>

record zone =
  nz_year :: "gotime \<Rightarrow> int"
  nz_yday :: "gotime \<Rightarrow> int"
  nz_minutes :: "gotime \<Rightarrow> int"
  nz_jan1 :: "int \<Rightarrow> gotime"

text \<open>
  \<open>nyc\<close>. Times are readings of the New York clock (theory \<open>GoTime\<close>), so \<open>In(nyc)\<close> leaves them as they
  are, their fields are those of the civil calendar, and a year begins at midnight of January 1.
\<close>

definition nyc :: zone where
  "nyc = \<lparr>nz_year = (\<lambda>t. fst (time_date t)), nz_yday = (\<lambda>t. days_of t - days_of_civil (fst (time_date t)) 1 1 + 1),
     nz_minutes = (\<lambda>t. clock_of t div minute_ns), nz_jan1 = (\<lambda>y. days_of_civil y 1 1 * day_ns)\<rparr>"

definition unix_of :: "gotime \<Rightarrow> int" where "unix_of t = t div second_ns"

definition chunkYears :: "zone \<Rightarrow> gotime \<Rightarrow> gotime \<Rightarrow> int list" where
  "chunkYears z start end' = map (\<lambda>y. unix_of (nz_jan1 z y)) [nz_year z start..nz_year z end']"

definition evictBefore :: "zone \<Rightarrow> gotime \<Rightarrow> dataCache \<Rightarrow> dataCache" where
  "evictBefore z t c =
     (let threshold = unix_of (nz_jan1 z (nz_year z t - 1)) in
      foldl (\<lambda>c (key, entry). if ck_chunkStart key < threshold
               then c\<lparr>dc_curBytes := dc_curBytes c - estimateEntryBytes entry,
                      dc_entries := mdel key (dc_entries c)\<rparr> else c)
        c (dc_entries c))"

section \<open>Fundamental metrics\<close>

definition fundamental_metrics :: "metric list" where
  "fundamental_metrics =
  [''Revenue'', ''CostOfRevenue'', ''GrossProfit'', ''OperatingExpenses'',
   ''OperatingIncome'', ''EBIT'', ''EBITDA'', ''EBT'',
   ''ConsolidatedIncome'', ''NetIncome'', ''NetIncomeCommonStock'', ''EarningsPerShare'',
   ''EPSDiluted'', ''InterestExpense'', ''IncomeTaxExpense'', ''RandDExpenses'',
   ''SGAExpense'', ''ShareBasedCompensation'', ''DividendsPerShare'', ''NetLossIncomeDiscontinuedOperations'',
   ''NetIncomeToNonControllingInterests'', ''PreferredDividendsImpact'', ''TotalAssets'', ''CurrentAssets'',
   ''AssetsNonCurrent'', ''AverageAssets'', ''CashAndEquivalents'', ''Inventory'',
   ''Receivables'', ''Investments'', ''InvestmentsCurrent'', ''InvestmentsNonCurrent'',
   ''Intangibles'', ''PPENet'', ''TaxAssets'', ''TotalLiabilities'',
   ''CurrentLiabilities'', ''LiabilitiesNonCurrent'', ''TotalDebt'', ''DebtCurrent'',
   ''DebtNonCurrent'', ''Payables'', ''DeferredRevenue'', ''Deposits'',
   ''TaxLiabilities'', ''Equity'', ''EquityAvg'', ''AccumulatedOtherComprehensiveIncome'',
   ''AccumulatedRetainedEarningsDeficit'', ''FreeCashFlow'', ''NetCashFlow'', ''NetCashFlowFromOperations'',
   ''NetCashFlowFromInvesting'', ''NetCashFlowFromFinancing'', ''NetCashFlowBusiness'', ''NetCashFlowCommon'',
   ''NetCashFlowDebt'', ''NetCashFlowDividend'', ''NetCashFlowInvest'', ''NetCashFlowFx'',
   ''CapitalExpenditure'', ''DepreciationAmortization'', ''BookValue'', ''FreeCashFlowPerShare'',
   ''SalesPerShare'', ''TangibleAssetsBookValuePerShare'', ''ShareFactor'', ''SharesBasic'',
   ''WeightedAverageShares'', ''WeightedAverageSharesDiluted'', ''FundamentalPrice'', ''PE1'',
   ''PS1'', ''FxUSD'', ''GrossMargin'', ''EBITDAMargin'',
   ''ProfitMargin'', ''ROA'', ''ROE'', ''ROIC'',
   ''ReturnOnSales'', ''AssetTurnover'', ''CurrentRatio'', ''DebtToEquity'',
   ''DividendYield'', ''PayoutRatio'', ''InvestedCapital'', ''InvestedCapitalAvg'',
   ''TangibleAssetValue'', ''WorkingCapital'', ''MarketCapFundamental'', ''FundamentalsDateKey'',
   ''FundamentalsReportPeriod'']"

definition IsFundamental :: "metric \<Rightarrow> bool" where
  "IsFundamental m \<longleftrightarrow> m \<in> set fundamental_metrics"

section \<open>Providers\<close>

record request =
  rq_Assets :: "asset list"
  rq_Metrics :: "metric list"
  rq_Start :: gotime
  rq_End :: gotime

text \<open>Providers are numbered; \<open>fe_route\<close> maps a metric to the provider that serves it.\<close>

record fetch_env =
  fe_route :: "(metric, nat) gomap"
  fe_fetch :: "nat \<Rightarrow> request \<Rightarrow> goerr + dataframe"

text \<open>The routing table: the flag says that a provider implements BatchProvider, the list what it provides.\<close>

fun buildProviderRouting :: "(bool \<times> metric list) list \<Rightarrow> nat \<Rightarrow> (metric, nat) gomap \<Rightarrow> goerr + (metric, nat) gomap" where
  "buildProviderRouting [] i acc = Inr acc"
| "buildProviderRouting ((batch, provides) # ps) i acc =
     (if \<not> batch then Inl (Err ''engine: provider does not implement BatchProvider'')
      else buildProviderRouting ps (Suc i) (fold (\<lambda>m acc. mput m i acc) provides acc))"

section \<open>Filling the cache\<close>

type_synonym chunk_miss = "(string, asset) gomap \<times> metric list"

definition miss_step :: "dataCache \<Rightarrow> (int, chunk_miss) gomap \<Rightarrow> int \<times> asset \<times> metric \<Rightarrow> (int, chunk_miss) gomap" where
  "miss_step c misses cell =
     (case cell of (year, a, m) \<Rightarrow>
        if cache_get c \<lparr>ck_figi = CompositeFigi a, ck_metric = m, ck_chunkStart = year\<rparr> \<noteq> None then misses
        else case mget ([], []) misses year of (as, ms) \<Rightarrow>
          mput year (mput (CompositeFigi a) a as, if m \<in> set ms then ms else ms @ [m]) misses)"

definition collect_misses :: "dataCache \<Rightarrow> int list \<Rightarrow> asset list \<Rightarrow> metric list \<Rightarrow> (int, chunk_miss) gomap" where
  "collect_misses c years assets metrics =
     foldl (miss_step c) [] (List.product years (List.product assets metrics))"

fun group_providers :: "(metric, nat) gomap \<Rightarrow> metric list \<Rightarrow> (nat, metric list) gomap \<Rightarrow> goerr + (nat, metric list) gomap" where
  "group_providers route [] acc = Inr acc"
| "group_providers route (m # ms) acc =
     (case map_of route m of None \<Rightarrow> Inl (Err ''engine: no provider registered for metric'')
      | Some p \<Rightarrow> group_providers route ms (mput p (mget [] acc p @ [m]) acc))"

text \<open>
  The columns of a fetched frame go into the cache; a frame without rows leaves an empty entry
  for every asset and metric that was asked for. The second component collects the metrics
  that received an entry.
\<close>

definition store_frame :: "int \<Rightarrow> asset list \<Rightarrow> metric list \<Rightarrow> dataframe \<Rightarrow> dataCache \<times> metric list \<Rightarrow> dataCache \<times> metric list" where
  "store_frame year missAssets metrics df st =
     (if df_times df = []
      then foldl (\<lambda>(c, cached) (a, m).
             (cache_put \<lparr>ck_figi = CompositeFigi a, ck_metric = m, ck_chunkStart = year\<rparr> \<lparr>ce_times = [], ce_values = []\<rparr> c, m # cached))
             st (List.product missAssets metrics)
      else foldl (\<lambda>(c, cached) (a, m).
             case df_Column df a m of None \<Rightarrow> (c, cached)
             | Some col \<Rightarrow>
                 (cache_put \<lparr>ck_figi = CompositeFigi a, ck_metric = m, ck_chunkStart = year\<rparr> \<lparr>ce_times = df_times df, ce_values = col\<rparr> c, m # cached))
             st (List.product (df_assets df) (df_metrics df)))"

fun store_results :: "int \<Rightarrow> asset list \<Rightarrow> (metric list \<times> (goerr + dataframe)) list \<Rightarrow> dataCache \<times> metric list
    \<Rightarrow> goerr option \<times> dataCache \<times> metric list" where
  "store_results year missAssets [] st = (None, st)"
| "store_results year missAssets ((ms, Inl e) # rs) st = (Some (Wrap ''engine: provider fetch'' e), st)"
| "store_results year missAssets ((ms, Inr df) # rs) st = store_results year missAssets rs (store_frame year missAssets ms df st)"

definition put_sentinels :: "int \<Rightarrow> asset list \<Rightarrow> metric list \<Rightarrow> metric list \<Rightarrow> dataCache \<Rightarrow> dataCache" where
  "put_sentinels year missAssets missMetrics cached c =
     foldl (\<lambda>c (a, m).
         if m \<in> set cached then c
         else let key = \<lparr>ck_figi = CompositeFigi a, ck_metric = m, ck_chunkStart = year\<rparr> in
           if cache_get c key = None then cache_put key \<lparr>ce_times = [], ce_values = []\<rparr> c else c)
       c (List.product missAssets missMetrics)"

text \<open>One bulk request per provider for a calendar year; the order of the answers is the order of the list.\<close>

definition fetch_chunk :: "fetch_env \<Rightarrow> int \<times> chunk_miss \<Rightarrow> dataCache \<Rightarrow> goerr option \<times> dataCache" where
  "fetch_chunk env miss c =
     (case miss of (year, as, missMetrics) \<Rightarrow>
        let missAssets = map snd as;
            chunkStart = year * second_ns;
            chunkEnd = nz_jan1 nyc (nz_year nyc chunkStart + 1) - 1
        in case group_providers (fe_route env) missMetrics [] of Inl e \<Rightarrow> (Some e, c)
           | Inr groups \<Rightarrow>
               (case store_results year missAssets
                       (map (\<lambda>(p, ms). (ms, fe_fetch env p \<lparr>rq_Assets = missAssets, rq_Metrics = ms,
                                              rq_Start = chunkStart, rq_End = chunkEnd\<rparr>)) groups) (c, []) of
                  (Some e, c1, cached) \<Rightarrow> (Some e, c1)
                | (None, c1, cached) \<Rightarrow> (None, put_sentinels year missAssets missMetrics cached c1)))"

fun fetch_misses :: "fetch_env \<Rightarrow> (int \<times> chunk_miss) list \<Rightarrow> dataCache \<Rightarrow> goerr option \<times> dataCache" where
  "fetch_misses env [] c = (None, c)"
| "fetch_misses env (m # ms) c =
     (case fetch_chunk env m c of (Some e, c1) \<Rightarrow> (Some e, c1) | (None, c1) \<Rightarrow> fetch_misses env ms c1)"

section \<open>Point-in-time queries\<close>

text \<open>The most recent value that is not NaN at or before an index.\<close>

fun walk_back :: "f64 list \<Rightarrow> nat \<Rightarrow> f64 option" where
  "walk_back vals 0 = None"
| "walk_back vals (Suc k) = (if \<not> isNaN (vals ! k) then Some (vals ! k) else walk_back vals k)"

definition pit_lookup :: "metric \<Rightarrow> gotime \<Rightarrow> colCacheEntry \<Rightarrow> f64 option" where
  "pit_lookup m target entry =
     (if ce_times entry = [] then None
      else if IsFundamental m
      then walk_back (ce_values entry) (sort_search (length (ce_times entry)) (\<lambda>i. dateKey (ce_times entry ! i) > dateKey target))
      else let lo = sort_search (length (ce_times entry)) (\<lambda>i. dateKey (ce_times entry ! i) \<ge> dateKey target) in
        if lo < length (ce_times entry) \<and> dateKey (ce_times entry ! lo) = dateKey target
        then Some (ce_values entry ! lo) else None)"

definition pit_cell :: "dataCache \<Rightarrow> int list \<Rightarrow> gotime \<Rightarrow> asset \<Rightarrow> metric \<Rightarrow> f64 option" where
  "pit_cell c years target a m =
     foldl (\<lambda>acc year.
         case cache_get c \<lparr>ck_figi = CompositeFigi a, ck_metric = m, ck_chunkStart = year\<rparr> of None \<Rightarrow> acc
         | Some entry \<Rightarrow> (case pit_lookup m target entry of None \<Rightarrow> acc | Some v \<Rightarrow> Some v)) None years"

definition assemblePointInTime :: "zone \<Rightarrow> dataCache \<Rightarrow> asset list \<Rightarrow> metric list \<Rightarrow> gotime \<Rightarrow> bool \<Rightarrow> goerr + dataframe" where
  "assemblePointInTime z c assets metrics target hasFundamental =
     (let years = chunkYears z target target;
          cells = concat (map (\<lambda>a. map (pit_cell c years target a) metrics) assets)
      in if list_all (\<lambda>x. x = None) cells \<and> \<not> hasFundamental
         then NewDataFrame [] assets metrics Daily []
         else NewDataFrame [target] assets metrics Daily (map (\<lambda>x. [case x of None \<Rightarrow> NaN | Some v \<Rightarrow> v]) cells))"

section \<open>Range queries\<close>

definition requested_entries :: "dataCache \<Rightarrow> int list \<Rightarrow> asset list \<Rightarrow> metric list \<Rightarrow> colCacheEntry list" where
  "requested_entries c years assets metrics =
     List.map_filter (\<lambda>(year, a, m). cache_get c \<lparr>ck_figi = CompositeFigi a, ck_metric = m, ck_chunkStart = year\<rparr>)
       (List.product years (List.product assets metrics))"

definition time_set :: "colCacheEntry list \<Rightarrow> (int, gotime) gomap" where
  "time_set entries = foldl (\<lambda>ts t. mput (unix_of t) t ts) [] (concat (map ce_times entries))"

definition scatter :: "gotime list \<Rightarrow> colCacheEntry \<Rightarrow> f64 list \<Rightarrow> f64 list" where
  "scatter unionTimes entry col =
     foldl (\<lambda>col (ii, t).
         case map_of (map (\<lambda>(i, u). (unix_of u, i)) (enumerate 0 unionTimes)) (unix_of t) of None \<Rightarrow> col
         | Some ti \<Rightarrow> col[ti := ce_values entry ! ii]) col (enumerate 0 (ce_times entry))"

fun forward_fill :: "f64 \<Rightarrow> f64 list \<Rightarrow> f64 list" where
  "forward_fill prev [] = []"
| "forward_fill prev (v # vs) = (let out = (if isNaN v \<and> \<not> isNaN prev then prev else v) in out # forward_fill out vs)"

definition slab_column :: "dataCache \<Rightarrow> int list \<Rightarrow> gotime list \<Rightarrow> asset \<Rightarrow> metric \<Rightarrow> f64 list" where
  "slab_column c years unionTimes a m =
     (let col = foldl (\<lambda>col year.
             case cache_get c \<lparr>ck_figi = CompositeFigi a, ck_metric = m, ck_chunkStart = year\<rparr> of None \<Rightarrow> col
             | Some entry \<Rightarrow> scatter unionTimes entry col) (replicate (length unionTimes) NaN) years
      in if IsFundamental m then (case col of [] \<Rightarrow> [] | v # vs \<Rightarrow> v # forward_fill v vs) else col)"

definition assembleRange :: "zone \<Rightarrow> dataCache \<Rightarrow> asset list \<Rightarrow> metric list \<Rightarrow> gotime \<Rightarrow> gotime \<Rightarrow> (goerr + dataframe) option" where
  "assembleRange z c assets metrics rangeStart rangeEnd =
     (let years = chunkYears z rangeStart rangeEnd;
          unionTimes = sort (map snd (time_set (requested_entries c years assets metrics)))
      in if unionTimes = [] then Some (NewDataFrame [] [] [] Daily [])
         else (case NewDataFrame unionTimes assets metrics Daily
                      (concat (map (\<lambda>a. map (slab_column c years unionTimes a) metrics) assets)) of
                 Inl e \<Rightarrow> Some (Inl (Wrap ''engine: assemble cached data'' e))
               | Inr df \<Rightarrow> map_option Inr (Between rangeStart rangeEnd df)))"

section \<open>Fetching\<close>

text \<open>\<open>None\<close> in the first component is a panic.\<close>

definition fetchRange :: "fetch_env \<Rightarrow> asset list \<Rightarrow> metric list \<Rightarrow> gotime \<Rightarrow> gotime \<Rightarrow> dataCache
    \<Rightarrow> (goerr + dataframe) option \<times> dataCache" where
  "fetchRange env assets metrics rangeStart rangeEnd c =
     (case fetch_misses env (collect_misses c (chunkYears nyc rangeStart rangeEnd) assets metrics) c of
        (Some e, c1) \<Rightarrow> (Some (Inl e), c1)
      | (None, c1) \<Rightarrow>
          if rangeStart = rangeEnd
          then (Some (case assemblePointInTime nyc c1 assets metrics rangeEnd (list_ex IsFundamental metrics) of
                  Inl e \<Rightarrow> Inl (Wrap ''engine: assemble point-in-time'' e) | Inr df \<Rightarrow> Inr df), c1)
          else (assembleRange nyc c1 assets metrics rangeStart rangeEnd, c1))"

end
