(* ===== verification/CacheSound.thy ===== *)
theory CacheSound
  imports DataCache
begin

text \<open>
  Correctness of the engine's data access: the byte count of the cache is the sum over its
  entries, and the cache is transparent. The providers are assumed to quote one value per
  identifier, metric and date; then every fetch keeps the cache faithful to the quotes, and the
  answers to a point query and to a range query follow from the quotes alone: a price is the quote
  of its date, a fundamental the last filing not after it. A range misses no quoted date.
\<close>

section \<open>Byte accounting\<close>

definition bytes_ok :: "dataCache \<Rightarrow> bool" where
  "bytes_ok c \<longleftrightarrow> mwf (dc_entries c) \<and> dc_curBytes c = (\<Sum>e\<leftarrow>dc_entries c. estimateEntryBytes (snd e))"

lemma sum_mput:
  fixes f :: "'v \<Rightarrow> int"
  assumes "mwf m"
  shows "(\<Sum>e\<leftarrow>mput k v m. f (snd e)) = (\<Sum>e\<leftarrow>m. f (snd e)) - (case map_of m k of None \<Rightarrow> 0 | Some w \<Rightarrow> f w) + f v"
  using assms by (induction m) (auto simp: map_of_eq_None_iff split: option.splits)

lemma sum_mdel:
  fixes f :: "'v \<Rightarrow> int"
  assumes "mwf m"
  shows "(\<Sum>e\<leftarrow>mdel k m. f (snd e)) = (\<Sum>e\<leftarrow>m. f (snd e)) - (case map_of m k of None \<Rightarrow> 0 | Some w \<Rightarrow> f w)"
  using assms
proof (induction m)
  case (Cons e m)
  have "mdel k m = m" if "k \<notin> fst ` set m" using that by (simp add: delete_id)
  with Cons show ?case by (auto simp: map_of_eq_None_iff)
qed simp

lemma cache_put_bytes: "bytes_ok c \<Longrightarrow> bytes_ok (cache_put key entry c)"
  by (simp add: bytes_ok_def cache_put_def Let_def sum_mput)

lemma evictBefore_bytes:
  assumes "bytes_ok c"
  shows "bytes_ok (evictBefore z t c)"
    "cache_get (evictBefore z t c) key = (if ck_chunkStart key < unix_of (nz_jan1 z (nz_year z t - 1)) then None else cache_get c key)"
proof -
  define th where "th = unix_of (nz_jan1 z (nz_year z t - 1))"
  define step where "step = (\<lambda>(c :: dataCache) (key, entry). if ck_chunkStart key < th
      then c\<lparr>dc_curBytes := dc_curBytes c - estimateEntryBytes entry, dc_entries := mdel key (dc_entries c)\<rparr> else c)"
  have ev: "evictBefore z t c = foldl step c (dc_entries c)" by (simp add: evictBefore_def Let_def step_def th_def)
  have "bytes_ok (foldl step d es) \<and> (\<forall>k. cache_get (foldl step d es) k = (if ck_chunkStart k < th \<and> k \<in> fst ` set es then None else cache_get d k))"
    if "bytes_ok d" "mwf es" "\<forall>(k, e)\<in>set es. cache_get d k = Some e" for d es
    using that
  proof (induction es arbitrary: d)
    case (Cons e es)
    obtain k v where e: "e = (k, v)" by fastforce
    have kv: "cache_get d k = Some v" using Cons.prems(3) e by auto
    have d1: "bytes_ok (step d (k, v))" using Cons.prems(1) kv by (auto simp: step_def bytes_ok_def sum_mdel cache_get_def)
    have get: "cache_get (step d (k, v)) x = (if ck_chunkStart k < th \<and> x = k then None else cache_get d x)" for x
      by (auto simp: step_def cache_get_def)
    have "\<forall>(k', e')\<in>set es. cache_get (step d (k, v)) k' = Some e'"
    proof clarify
      fix k' e'
      assume m: "(k', e') \<in> set es"
      then have "k' \<noteq> k" using Cons.prems(2) e by force
      then show "cache_get (step d (k, v)) k' = Some e'" using Cons.prems(3) m get by auto
    qed
    from Cons.IH [OF d1 _ this] Cons.prems(2) e show ?case by (auto simp: get)
  qed simp
  from this [of c "dc_entries c"] assms
  have main: "bytes_ok (evictBefore z t c)" "\<forall>k. cache_get (evictBefore z t c) k = (if ck_chunkStart k < th \<and> k \<in> fst ` set (dc_entries c) then None else cache_get c k)"
    by (auto simp: ev bytes_ok_def cache_get_def)
  show "bytes_ok (evictBefore z t c)" by (rule main)
  have "cache_get c key = None" if "key \<notin> fst ` set (dc_entries c)" using that by (simp add: cache_get_def map_of_eq_None_iff)
  then show "cache_get (evictBefore z t c) key = (if ck_chunkStart key < unix_of (nz_jan1 z (nz_year z t - 1)) then None else cache_get c key)"
    using main(2) by (auto simp: th_def)
qed

section \<open>New York years\<close>

lemma nyc_jan1_le: "nz_jan1 nyc y \<le> t \<longleftrightarrow> days_of_civil y 1 1 \<le> days_of t"
proof -
  have "0 \<le> clock_of t" "clock_of t < day_ns" "days_of t * day_ns + clock_of t = t"
    by (simp_all add: time_split) (simp_all add: clock_of_def ns_defs)
  then show ?thesis unfolding nyc_def ns_defs by (simp; linarith)
qed

lemma nyc_year: "nz_year nyc t = y \<longleftrightarrow> nz_jan1 nyc y \<le> t \<and> t < nz_jan1 nyc (y + 1)"
  using civil_year [of "days_of t" y] nyc_jan1_le [of y t] nyc_jan1_le [of "y + 1" t] by (auto simp: nyc_def time_date_def)

lemma jan1_step: "nz_jan1 nyc y < nz_jan1 nyc (y + 1)" "nz_jan1 nyc y mod second_ns = 0"
  using year_start_step [of "y - 1"] by (simp_all add: jan1_year_start ns_defs nyc_def)

text \<open>A later date lies in the same year or a later one.\<close>

lemma nyc_dates: "dateKey t \<le> dateKey u \<Longrightarrow> nz_year nyc t \<le> nz_year nyc u"
proof (rule ccontr)
  assume "dateKey t \<le> dateKey u" "\<not> nz_year nyc t \<le> nz_year nyc u"
  then have le: "days_of t \<le> days_of u" and lt: "fst (time_date u) < fst (time_date t)" by (simp_all add: dateKey_le_iff nyc_def)
  have "days_of_civil (fst (time_date u) + 1) 1 1 \<le> days_of_civil (fst (time_date t)) 1 1"
    using lt jan1_mono [of "fst (time_date u) + 1" "fst (time_date t)"] by (cases "fst (time_date t) = fst (time_date u) + 1") auto
  then show False using le civil_year [of "days_of t" "fst (time_date t)"] civil_year [of "days_of u" "fst (time_date u)"]
    by (auto simp: time_date_def)
qed

section \<open>What the cache stands for\<close>

text \<open>
  The providers quote a value for an identifier, a metric and a date, NaN where they have none,
  and stamp the rows of a date with one time, at a full second.
  A cached column agrees with the quotes on its rows, and the quotes of its year are NaN on the
  dates it has no row for.
\<close>

record quotes =
  qt_value :: "string \<Rightarrow> metric \<Rightarrow> int \<Rightarrow> f64"
  qt_stamp :: "int \<Rightarrow> gotime"

definition time_stamped :: "quotes \<Rightarrow> gotime list \<Rightarrow> bool" where
  "time_stamped q ts \<longleftrightarrow> (\<forall>t\<in>set ts. t = qt_stamp q (dateKey t) \<and> t mod second_ns = 0)"

lemma time_stamped_Nil [simp]: "time_stamped q []"
  by (simp add: time_stamped_def)

definition chunk_of :: "gotime \<Rightarrow> int" where
  "chunk_of t = unix_of (nz_jan1 nyc (nz_year nyc t))"

definition column_ok :: "quotes \<Rightarrow> string \<Rightarrow> metric \<Rightarrow> int \<Rightarrow> gotime list \<Rightarrow> f64 list \<Rightarrow> bool" where
  "column_ok q figi m chunk ts vs \<longleftrightarrow> length vs = length ts \<and> time_stamped q ts \<and> sorted_wrt (<) (map dateKey ts)
     \<and> (\<forall>t\<in>set ts. chunk_of t = chunk) \<and> (\<forall>i<length ts. vs ! i = qt_value q figi m (dateKey (ts ! i)))
     \<and> (\<forall>t. chunk_of t = chunk \<longrightarrow> dateKey t \<notin> dateKey ` set ts \<longrightarrow> qt_value q figi m (dateKey t) = NaN)"

definition cache_ok :: "quotes \<Rightarrow> dataCache \<Rightarrow> bool" where
  "cache_ok q c \<longleftrightarrow> (\<forall>key entry. cache_get c key = Some entry \<longrightarrow>
     column_ok q (ck_figi key) (ck_metric key) (ck_chunkStart key) (ce_times entry) (ce_values entry))"

text \<open>
  What a provider promises of the frame it returns: rows on the dates of the requested range, the
  quotes in its columns, and no quote left out for an asset and a metric that were asked of it.
\<close>

definition providers_quote :: "fetch_env \<Rightarrow> quotes \<Rightarrow> bool" where
  "providers_quote env q \<longleftrightarrow> (\<forall>p rq df. fe_fetch env p rq = Inr df \<longrightarrow>
     df_wf df \<and> df_err df = None \<and> time_stamped q (df_times df) \<and> sorted_wrt (<) (map dateKey (df_times df))
   \<and> (\<forall>t\<in>set (df_times df). dateKey (rq_Start rq) \<le> dateKey t \<and> dateKey t \<le> dateKey (rq_End rq))
   \<and> (\<forall>a m col. df_Column df a m = Some col \<longrightarrow>
        (\<forall>i<length (df_times df). col ! i = qt_value q (CompositeFigi a) m (dateKey (df_times df ! i)))
      \<and> (\<forall>t. rq_Start rq \<le> t \<longrightarrow> t \<le> rq_End rq \<longrightarrow> dateKey t \<notin> dateKey ` set (df_times df) \<longrightarrow> qt_value q (CompositeFigi a) m (dateKey t) = NaN))
   \<and> (\<forall>a\<in>set (rq_Assets rq). \<forall>m\<in>set (rq_Metrics rq). map_of (fe_route env) m = Some p \<longrightarrow> df_Column df a m = None \<or> df_times df = [] \<longrightarrow>
        (\<forall>t. rq_Start rq \<le> t \<longrightarrow> t \<le> rq_End rq \<longrightarrow> qt_value q (CompositeFigi a) m (dateKey t) = NaN)))"

definition cell_key :: "string \<Rightarrow> metric \<Rightarrow> int \<Rightarrow> colCacheKey" where
  "cell_key figi m year = \<lparr>ck_figi = figi, ck_metric = m, ck_chunkStart = year\<rparr>"

lemma cell_key_sel [simp]: "ck_figi (cell_key f m y) = f" "ck_metric (cell_key f m y) = m" "ck_chunkStart (cell_key f m y) = y"
  "cell_key f m y = cell_key f' m' y' \<longleftrightarrow> f = f' \<and> m = m' \<and> y = y'"
  by (auto simp: cell_key_def)

lemma cache_get_put [simp]: "cache_get (cache_put k e c) k' = (if k' = k then Some e else cache_get c k')"
  by (simp add: cache_get_def cache_put_def Let_def)

definition resolved :: "quotes \<Rightarrow> dataCache \<Rightarrow> string \<Rightarrow> metric \<Rightarrow> int \<Rightarrow> bool" where
  "resolved q c figi m year \<longleftrightarrow> cache_get c (cell_key figi m year) \<noteq> None \<or> column_ok q figi m year [] []"

definition grows :: "dataCache \<Rightarrow> dataCache \<Rightarrow> bool" where
  "grows c c' \<longleftrightarrow> (\<forall>k. cache_get c k \<noteq> None \<longrightarrow> cache_get c' k \<noteq> None)"

lemma grows_refl [simp]: "grows c c" and grows_trans: "grows a b \<Longrightarrow> grows b d \<Longrightarrow> grows a d"
  and grows_put [simp]: "grows c (cache_put k e c)"
  by (auto simp: grows_def)

lemma resolved_mono: "resolved q c f m y \<Longrightarrow> grows c c' \<Longrightarrow> resolved q c' f m y"
  by (auto simp: resolved_def grows_def)

lemma cache_ok_put:
  "cache_ok q c \<Longrightarrow> column_ok q f m y (ce_times e) (ce_values e) \<Longrightarrow> cache_ok q (cache_put (cell_key f m y) e c)"
  by (auto simp: cache_ok_def)


lemma foldl_induct:
  "P s \<Longrightarrow> (\<And>s x. x \<in> set xs \<Longrightarrow> P s \<Longrightarrow> P (f s x)) \<Longrightarrow> P (foldl f s xs)"
  by (induction xs arbitrary: s) auto

text \<open>A store keeps the cache sound and only adds entries; \<open>put_all\<close> is the shape of both branches of \<open>store_frame\<close>.\<close>

definition put_all :: "(asset \<Rightarrow> metric \<Rightarrow> colCacheEntry option) \<Rightarrow> int \<Rightarrow> (asset \<times> metric) list
    \<Rightarrow> dataCache \<times> metric list \<Rightarrow> dataCache \<times> metric list" where
  "put_all col year cells st =
     foldl (\<lambda>(c, cached) (a, m). case col a m of None \<Rightarrow> (c, cached)
        | Some e \<Rightarrow> (cache_put (cell_key (CompositeFigi a) m year) e c, m # cached)) st cells"

lemma store_frame_put_all:
  "store_frame year as ms df st =
     (if df_times df = [] then put_all (\<lambda>a m. Some \<lparr>ce_times = [], ce_values = []\<rparr>) year (List.product as ms) st
      else put_all (\<lambda>a m. map_option (\<lambda>col. \<lparr>ce_times = df_times df, ce_values = col\<rparr>) (df_Column df a m)) year
             (List.product (df_assets df) (df_metrics df)) st)"
  unfolding store_frame_def put_all_def cell_key_def
  by (auto intro!: foldl_cong simp: fun_eq_iff split: option.splits)

lemma put_all_spec:
  assumes "cache_ok q (fst st)"
    and "\<And>a m e. (a, m) \<in> set cells \<Longrightarrow> col a m = Some e \<Longrightarrow> column_ok q (CompositeFigi a) m year (ce_times e) (ce_values e)"
  shows "cache_ok q (fst (put_all col year cells st)) \<and> grows (fst st) (fst (put_all col year cells st))
     \<and> set (snd st) \<subseteq> set (snd (put_all col year cells st))
     \<and> (\<forall>(a, m)\<in>set cells. col a m \<noteq> None \<longrightarrow> cache_get (fst (put_all col year cells st)) (cell_key (CompositeFigi a) m year) \<noteq> None)"
  using assms
proof (induction cells arbitrary: st)
  case (Cons x cells)
  obtain a m where x: "x = (a, m)" by fastforce
  obtain c cached where st: "st = (c, cached)" by fastforce
  define st1 where "st1 = (case col a m of None \<Rightarrow> (c, cached)
        | Some e \<Rightarrow> (cache_put (cell_key (CompositeFigi a) m year) e c, m # cached))"
  have step: "put_all col year (x # cells) st = put_all col year cells st1" by (simp add: put_all_def x st st1_def)
  have "cache_ok q (fst st1)"
    using Cons.prems(1) Cons.prems(2) [of a m] by (auto simp: x st st1_def cache_ok_put split: option.splits)
  from Cons.IH [OF this Cons.prems(2)] have IH: "cache_ok q (fst (put_all col year cells st1))"
      "grows (fst st1) (fst (put_all col year cells st1))" "set (snd st1) \<subseteq> set (snd (put_all col year cells st1))"
      "\<forall>(a, m)\<in>set cells. col a m \<noteq> None \<longrightarrow> cache_get (fst (put_all col year cells st1)) (cell_key (CompositeFigi a) m year) \<noteq> None"
    by auto
  have "grows c (fst st1)" "set cached \<subseteq> set (snd st1)" "col a m \<noteq> None \<longrightarrow> cache_get (fst st1) (cell_key (CompositeFigi a) m year) \<noteq> None"
    by (auto simp: st1_def split: option.splits)
  then show ?case using IH grows_trans [of c "fst st1"] unfolding step by (auto simp: st x grows_def)
qed (simp add: put_all_def)

lemma jan1_unix: "unix_of (nz_jan1 nyc y) * second_ns = nz_jan1 nyc y"
  using jan1_step [of y] by (simp add: unix_of_def div_mult_self_is_m mod_0_imp_dvd)

lemma zone_chunk: "chunk_of t = unix_of (nz_jan1 nyc y) \<longleftrightarrow> nz_year nyc t = y"
proof
  assume c: "chunk_of t = unix_of (nz_jan1 nyc y)"
  have m: "nz_jan1 nyc x < nz_jan1 nyc y" if "x < y" for x y
    using that by (induction rule: int_gr_induct) (use jan1_step in \<open>auto intro: less_trans\<close>)
  have "nz_jan1 nyc (nz_year nyc t) = nz_jan1 nyc y"
    using c jan1_unix by (metis chunk_of_def)
  then show "nz_year nyc t = y" using m [of y "nz_year nyc t"] m [of "nz_year nyc t" y] by linarith
qed (simp add: chunk_of_def)

definition year_request :: "fetch_env \<Rightarrow> int \<Rightarrow> asset list \<Rightarrow> metric list \<Rightarrow> request" where
  "year_request env year as ms = \<lparr>rq_Assets = as, rq_Metrics = ms, rq_Start = year * second_ns,
     rq_End = nz_jan1 nyc (nz_year nyc (year * second_ns) + 1) - 1\<rparr>"

lemma in_year_request:
  assumes "year = unix_of (nz_jan1 nyc y)"
  shows "rq_Start (year_request env year as ms) \<le> t \<and> t \<le> rq_End (year_request env year as ms) \<longleftrightarrow> chunk_of t = year"
proof -
  have s: "year * second_ns = nz_jan1 nyc y" using jan1_unix assms by simp
  have "nz_year nyc (nz_jan1 nyc y) = y" using nyc_year jan1_step by simp
  then have "rq_Start (year_request env year as ms) \<le> t \<and> t \<le> rq_End (year_request env year as ms) \<longleftrightarrow> nz_year nyc t = y"
    unfolding nyc_year [of t y] by (auto simp: year_request_def s)
  then show ?thesis using zone_chunk assms by simp
qed

lemma column_ok_fetched:
  assumes y: "year = unix_of (nz_jan1 nyc y)" and q: "providers_quote env q"
    and f: "fe_fetch env p (year_request env year as ms) = Inr df"
  shows "df_Column df a m = Some col \<Longrightarrow> column_ok q (CompositeFigi a) m year (df_times df) col"
    and "a \<in> set as \<Longrightarrow> m \<in> set ms \<Longrightarrow> map_of (fe_route env) m = Some p \<Longrightarrow> df_Column df a m = None \<or> df_times df = [] \<Longrightarrow>
      column_ok q (CompositeFigi a) m year [] []"
proof -
  note P = q [unfolded providers_quote_def, rule_format, OF f]
  have rq: "rq_Assets (year_request env year as ms) = as" "rq_Metrics (year_request env year as ms) = ms" by (simp_all add: year_request_def)
  have r: "rq_Start (year_request env year as ms) \<le> t" "t \<le> rq_End (year_request env year as ms)" if "chunk_of t = year" for t
    using that in_year_request [OF y, of env as ms t] by simp_all
  have c: "chunk_of t = year" if t: "t \<in> set (df_times df)" for t
  proof -
    let ?rq = "year_request env year as ms"
    have "rq_Start ?rq \<le> rq_End ?rq" using jan1_step [of y] nyc_year [of "nz_jan1 nyc y" y] by (simp add: year_request_def y jan1_unix)
    then have "nz_year nyc (rq_Start ?rq) = y" "nz_year nyc (rq_End ?rq) = y"
      using in_year_request [OF y, of env as ms "rq_Start ?rq"] in_year_request [OF y, of env as ms "rq_End ?rq"] zone_chunk by (auto simp: y)
    then have "nz_year nyc t = y" using P t nyc_dates [of "rq_Start ?rq" t] nyc_dates [of t "rq_End ?rq"] by fastforce
    then show ?thesis using zone_chunk y by simp
  qed
  show "column_ok q (CompositeFigi a) m year (df_times df) col" if "df_Column df a m = Some col"
    using P that c df_Column_length [of df a m col] r by (auto simp: column_ok_def)
  show "column_ok q (CompositeFigi a) m year [] []"
    if "a \<in> set as" "m \<in> set ms" "map_of (fe_route env) m = Some p" "df_Column df a m = None \<or> df_times df = []"
    using P that r by (auto simp: column_ok_def rq)
qed

lemma store_frame_spec:
  assumes y: "year = unix_of (nz_jan1 nyc y)" and q: "providers_quote env q"
    and f: "fe_fetch env p (year_request env year as ms) = Inr df" and r: "\<forall>m\<in>set ms. map_of (fe_route env) m = Some p"
    and c: "cache_ok q (fst st)"
  shows "cache_ok q (fst (store_frame year as ms df st)) \<and> grows (fst st) (fst (store_frame year as ms df st))
    \<and> (\<forall>a\<in>set as. \<forall>m\<in>set ms. resolved q (fst (store_frame year as ms df st)) (CompositeFigi a) m year)"
proof (cases "df_times df = []")
  case True
  have e: "column_ok q (CompositeFigi a) m year [] []" if "a \<in> set as" "m \<in> set ms" for a m
    using column_ok_fetched(2) [OF y q f that] r that True by simp
  have "cache_ok q (fst (put_all (\<lambda>a m. Some \<lparr>ce_times = [], ce_values = []\<rparr>) year (List.product as ms) st))
      \<and> grows (fst st) (fst (put_all (\<lambda>a m. Some \<lparr>ce_times = [], ce_values = []\<rparr>) year (List.product as ms) st))"
    using put_all_spec [OF c, of "List.product as ms" "\<lambda>a m. Some \<lparr>ce_times = [], ce_values = []\<rparr>" year] e by force
  then show ?thesis using e r True by (auto simp: store_frame_put_all resolved_def)
next
  case False
  let ?col = "\<lambda>a m. map_option (\<lambda>col. \<lparr>ce_times = df_times df, ce_values = col\<rparr>) (df_Column df a m)"
  have S: "store_frame year as ms df st = put_all ?col year (List.product (df_assets df) (df_metrics df)) st"
    using False by (simp add: store_frame_put_all)
  have P: "cache_ok q (fst (put_all ?col year (List.product (df_assets df) (df_metrics df)) st))
      \<and> grows (fst st) (fst (put_all ?col year (List.product (df_assets df) (df_metrics df)) st))
      \<and> (\<forall>(a, m)\<in>set (List.product (df_assets df) (df_metrics df)). ?col a m \<noteq> None \<longrightarrow>
           cache_get (fst (put_all ?col year (List.product (df_assets df) (df_metrics df)) st)) (cell_key (CompositeFigi a) m year) \<noteq> None)"
  proof -
    have "column_ok q (CompositeFigi a) m year (ce_times e) (ce_values e)"
      if "(a, m) \<in> set (List.product (df_assets df) (df_metrics df))" "?col a m = Some e" for a m e
      using that(2) column_ok_fetched(1) [OF y q f] by auto
    from put_all_spec [OF c this, of "List.product (df_assets df) (df_metrics df)" ?col] show ?thesis by blast
  qed
  have "resolved q (fst (store_frame year as ms df st)) (CompositeFigi a) m year" if am: "a \<in> set as" "m \<in> set ms" for a m
  proof (cases "df_Column df a m")
    case None
    then show ?thesis using column_ok_fetched(2) [OF y q f am] r am by (simp add: resolved_def)
  next
    case (Some col)
    then obtain a' where a': "a' \<in> set (df_assets df)" "CompositeFigi a' = CompositeFigi a" "m \<in> set (df_metrics df)" "df_Column df a' m = Some col"
      using df_Column_has [of df a m] q f by (fastforce simp: providers_quote_def df_has_def df_Column_def)
    then have "cache_get (fst (store_frame year as ms df st)) (cell_key (CompositeFigi a') m year) \<noteq> None"
      using P unfolding S by auto
    then show ?thesis using a' by (simp add: resolved_def)
  qed
  then show ?thesis using P S by simp
qed


definition fetched :: "fetch_env \<Rightarrow> int \<Rightarrow> asset list \<Rightarrow> metric list \<times> (goerr + dataframe) \<Rightarrow> bool" where
  "fetched env year as = (\<lambda>(ms, r). \<exists>p. r = fe_fetch env p (year_request env year as ms) \<and> (\<forall>m\<in>set ms. map_of (fe_route env) m = Some p))"

lemma store_results_spec:
  assumes y: "year = unix_of (nz_jan1 nyc y)" and q: "providers_quote env q"
    and rs: "\<forall>r\<in>set rs. fetched env year as r" and c: "cache_ok q (fst st)"
  shows "cache_ok q (fst (snd (store_results year as rs st))) \<and> grows (fst st) (fst (snd (store_results year as rs st)))
    \<and> (fst (store_results year as rs st) = None \<longrightarrow> (\<forall>a\<in>set as. \<forall>r\<in>set rs. \<forall>m\<in>set (fst r).
         resolved q (fst (snd (store_results year as rs st))) (CompositeFigi a) m year))"
  using rs c
proof (induction rs arbitrary: st)
  case (Cons r rs)
  obtain ms x where r: "r = (ms, x)" by fastforce
  show ?case
  proof (cases x)
    case (Inl e)
    then show ?thesis using Cons.prems by (simp add: r)
  next
    case (Inr df)
    define st1 where "st1 = store_frame year as ms df st"
    obtain p where p: "fe_fetch env p (year_request env year as ms) = Inr df" "\<forall>m\<in>set ms. map_of (fe_route env) m = Some p"
      using Cons.prems(1) Inr r by (auto simp: fetched_def)
    have S: "cache_ok q (fst st1)" "grows (fst st) (fst st1)"
      "\<forall>a\<in>set as. \<forall>m\<in>set ms. resolved q (fst st1) (CompositeFigi a) m year"
      using store_frame_spec [OF y q p Cons.prems(2)] by (simp_all add: st1_def)
    have step: "store_results year as (r # rs) st = store_results year as rs st1" by (simp add: r Inr st1_def)
    have "\<forall>r\<in>set rs. fetched env year as r" using Cons.prems(1) by simp
    from Cons.IH [OF this S(1)] show ?thesis
      unfolding step using S(2,3) grows_trans resolved_mono by (fastforce simp: r)
  qed
qed simp

lemma group_providers_spec:
  assumes "group_providers route ms acc = Inr g" "mwf acc" "\<forall>(p, l)\<in>set acc. \<forall>m\<in>set l. map_of route m = Some p"
  shows "mwf g \<and> (\<forall>(p, l)\<in>set g. \<forall>m\<in>set l. map_of route m = Some p)
    \<and> (\<forall>m. m \<in> set ms \<or> (\<exists>(p, l)\<in>set acc. m \<in> set l) \<longrightarrow> (\<exists>(p, l)\<in>set g. m \<in> set l))"
  using assms
proof (induction ms arbitrary: acc)
  case (Cons m ms)
  obtain p where p: "map_of route m = Some p" using Cons.prems(1) by (auto split: option.splits)
  define acc1 where "acc1 = mput p (mget [] acc p @ [m]) acc"
  have g: "group_providers route ms acc1 = Inr g" using Cons.prems(1) p by (simp add: acc1_def)
  have w: "mwf acc1" using Cons.prems(2) by (simp add: acc1_def)
  have mem: "(p', l) \<in> set acc1 \<longleftrightarrow> (if p' = p then l = mget [] acc p @ [m] else (p', l) \<in> set acc)" for p' l
    using map_of_eq_Some_iff [of acc1 p' l] map_of_eq_Some_iff [of acc p' l] w Cons.prems(2) by (auto simp: acc1_def)
  have old: "(p, mget [] acc p) \<in> set acc \<or> mget [] acc p = []"
    using map_of_SomeD [of acc p] by (auto simp: mget_def split: option.splits)
  have ok: "\<forall>(p', l)\<in>set acc1. \<forall>m'\<in>set l. map_of route m' = Some p'"
    using Cons.prems(3) p old by (fastforce simp: mem split: if_splits)
  have keep: "\<exists>(p', l)\<in>set acc1. m' \<in> set l" if "m' = m \<or> (\<exists>(p', l)\<in>set acc. m' \<in> set l)" for m'
    using that
  proof
    assume "\<exists>(p', l)\<in>set acc. m' \<in> set l"
    then obtain p' l where l: "(p', l) \<in> set acc" "m' \<in> set l" by blast
    have "mget [] acc p' = l" using l(1) Cons.prems(2) by (simp add: mget_def)
    then have "(p', if p' = p then mget [] acc p @ [m] else l) \<in> set acc1" using l(1) by (auto simp: mem)
    then show ?thesis using l(2) \<open>mget [] acc p' = l\<close> by (intro bexI) auto
  next
    assume "m' = m"
    have "(p, mget [] acc p @ [m]) \<in> set acc1" by (simp add: mem)
    then show ?thesis using \<open>m' = m\<close> by (intro bexI) auto
  qed
  show ?case using Cons.IH [OF g w ok] keep by auto
qed auto

lemma put_sentinels_spec:
  assumes c: "cache_ok q c" and r: "\<forall>a\<in>set as. \<forall>m\<in>set ms. resolved q c (CompositeFigi a) m year"
  shows "cache_ok q (put_sentinels year as ms cached c) \<and> grows c (put_sentinels year as ms cached c)"
proof -
  define f where "f = (\<lambda>(c :: dataCache) (a :: asset, m). if m \<in> set cached then c
         else let key = cell_key (CompositeFigi a) m year in
           if cache_get c key = None then cache_put key \<lparr>ce_times = [], ce_values = []\<rparr> c else c)"
  have eq: "put_sentinels year as ms cached c = foldl f c (List.product as ms)"
    unfolding put_sentinels_def f_def cell_key_def by (rule refl)
  have "cache_ok q (foldl f c (List.product as ms)) \<and> grows c (foldl f c (List.product as ms))"
  proof (rule foldl_induct [where P = "\<lambda>s. cache_ok q s \<and> grows c s"])
    fix s x assume x: "x \<in> set (List.product as ms)" and s: "cache_ok q s \<and> grows c s"
    then obtain a m where am: "x = (a, m)" "resolved q s (CompositeFigi a) m year" using r resolved_mono by fastforce
    then have "cache_get s (cell_key (CompositeFigi a) m year) = None \<Longrightarrow> column_ok q (CompositeFigi a) m year [] []"
      by (simp add: resolved_def)
    then show "cache_ok q (f s x) \<and> grows c (f s x)"
      using s grows_trans [of c s] by (auto simp: f_def am Let_def cache_ok_put)
  qed (use c in simp)
  then show ?thesis by (simp add: eq)
qed

lemma fetch_chunk_spec:
  assumes y: "year = unix_of (nz_jan1 nyc y)" and q: "providers_quote env q"
    and c: "cache_ok q c" and f: "fetch_chunk env (year, as, ms) c = (e, c')"
  shows "cache_ok q c' \<and> grows c c' \<and>
    (e = None \<longrightarrow> (\<forall>a\<in>snd ` set as. \<forall>m\<in>set ms. resolved q c' (CompositeFigi a) m year))"
proof (cases "group_providers (fe_route env) ms []")
  case (Inl x)
  then show ?thesis using f c by (auto simp: fetch_chunk_def Let_def)
next
  case (Inr g)
  let ?as = "map snd as"
  let ?rs = "map (\<lambda>(p, l). (l, fe_fetch env p (year_request env year ?as l))) g"
  note G = group_providers_spec [OF Inr, simplified]
  obtain e1 c1 cached where s: "store_results year ?as ?rs (c, []) = (e1, c1, cached)" by (cases "store_results year ?as ?rs (c, [])") auto
  have e: "e = e1" and c': "c' = (if e1 = None then put_sentinels year ?as ms cached c1 else c1)"
    using f s Inr by (auto simp: fetch_chunk_def Let_def year_request_def split: option.splits)
  have "\<forall>r\<in>set ?rs. fetched env year ?as r" using G by (auto simp: fetched_def)
  from store_results_spec [OF y q this, of "(c, [])"] c s
  have S: "cache_ok q c1" "grows c c1"
    "e1 = None \<longrightarrow> (\<forall>a\<in>set ?as. \<forall>r\<in>set ?rs. \<forall>m\<in>set (fst r). resolved q c1 (CompositeFigi a) m year)" by simp_all
  have R: "\<forall>a\<in>set ?as. \<forall>m\<in>set ms. resolved q c1 (CompositeFigi a) m year" if "e1 = None"
    using S(3) that G by fastforce
  show ?thesis
  proof (cases "e1 = None")
    case True
    note P = put_sentinels_spec [OF S(1) R [OF True], of cached]
    then have "\<forall>a\<in>set ?as. \<forall>m\<in>set ms. resolved q (put_sentinels year ?as ms cached c1) (CompositeFigi a) m year"
      using R [OF True] resolved_mono by blast
    then show ?thesis using P grows_trans [OF S(2)] True by (auto simp: e c')
  next
    case False
    then show ?thesis using S by (auto simp: e c')
  qed
qed

lemma fetch_misses_spec:
  assumes q: "providers_quote env q"
    and c: "cache_ok q c" and f: "fetch_misses env ms c = (e, c')"
    and y: "\<forall>m\<in>set ms. \<exists>y. fst m = unix_of (nz_jan1 nyc y)"
  shows "cache_ok q c' \<and> grows c c' \<and>
    (e = None \<longrightarrow> (\<forall>(year, as, l)\<in>set ms. \<forall>a\<in>snd ` set as. \<forall>m\<in>set l. resolved q c' (CompositeFigi a) m year))"
  using c f y
proof (induction ms arbitrary: c)
  case (Cons x ms)
  obtain year as l where x: "x = (year, as, l)" by (cases x)
  obtain y where yy: "year = unix_of (nz_jan1 nyc y)" using Cons.prems(3) x by auto
  obtain e1 c1 where s: "fetch_chunk env (year, as, l) c = (e1, c1)" by fastforce
  note C = fetch_chunk_spec [OF yy q Cons.prems(1) s]
  show ?case
  proof (cases e1)
    case None
    have "fetch_misses env ms c1 = (e, c')" using Cons.prems(2) s x None by simp
    note IH = Cons.IH [OF _ this] 
    have "cache_ok q c' \<and> grows c1 c' \<and>
      (e = None \<longrightarrow> (\<forall>(year, as, l)\<in>set ms. \<forall>a\<in>snd ` set as. \<forall>m\<in>set l. resolved q c' (CompositeFigi a) m year))"
      using IH C Cons.prems(3) by simp
    moreover have "\<forall>a\<in>snd ` set as. \<forall>m\<in>set l. resolved q c1 (CompositeFigi a) m year" using C None by simp
    ultimately show ?thesis using C grows_trans resolved_mono [where c = c1 and c' = c'] unfolding x by (auto intro: grows_trans)
  next
    case (Some e')
    then show ?thesis using Cons.prems(2) s x C by auto
  qed
qed simp

definition misses_cover :: "(int, chunk_miss) gomap \<Rightarrow> int \<times> asset \<times> metric \<Rightarrow> bool" where
  "misses_cover misses = (\<lambda>(year, a, m). \<exists>as ms. map_of misses year = Some (as, ms) \<and> mhas as (CompositeFigi a) \<and> m \<in> set ms)"

definition misses_wf :: "int set \<Rightarrow> (int, chunk_miss) gomap \<Rightarrow> bool" where
  "misses_wf ys misses \<longleftrightarrow> (\<forall>year as ms. map_of misses year = Some (as, ms) \<longrightarrow>
     year \<in> ys \<and> mwf as \<and> (\<forall>f a. map_of as f = Some a \<longrightarrow> CompositeFigi a = f)) \<and> mwf misses"

lemma miss_step_spec:
  assumes "misses_wf ys misses" "fst x \<in> ys"
  shows "misses_wf ys (miss_step c misses x)" "misses_cover misses u \<Longrightarrow> misses_cover (miss_step c misses x) u"
    "misses_cover (miss_step c misses x) x \<or> (case x of (year, a, m) \<Rightarrow> cache_get c (cell_key (CompositeFigi a) m year) \<noteq> None)"
proof -
  obtain year a m where x: "x = (year, a, m)" by (cases x)
  obtain as ms where old: "mget ([], []) misses year = (as, ms)" by fastforce
  have wf: "mwf as" "\<forall>f a. map_of as f = Some a \<longrightarrow> CompositeFigi a = f"
    using assms(1) old by (auto simp: misses_wf_def mget_def split: option.splits)
  have step: "miss_step c misses x = (if cache_get c (cell_key (CompositeFigi a) m year) \<noteq> None then misses
      else mput year (mput (CompositeFigi a) a as, if m \<in> set ms then ms else ms @ [m]) misses)"
    by (simp add: miss_step_def x cell_key_def old)
  show "misses_wf ys (miss_step c misses x)"
    unfolding step using assms wf by (auto simp: misses_wf_def x simp del: map_of_eq_Some_iff split: if_splits)
  show "misses_cover (miss_step c misses x) u" if "misses_cover misses u"
    using that old by (auto simp: step misses_cover_def mget_def split: prod.splits option.splits)
  show "misses_cover (miss_step c misses x) x \<or> (case x of (year, a, m) \<Rightarrow> cache_get c (cell_key (CompositeFigi a) m year) \<noteq> None)"
    unfolding step by (auto simp: misses_cover_def x)
qed

lemma foldl_misses:
  assumes "\<forall>x\<in>set xs. fst x \<in> ys" "misses_wf ys acc"
  shows "misses_wf ys (foldl (miss_step c) acc xs) \<and> (\<forall>u. misses_cover acc u \<longrightarrow> misses_cover (foldl (miss_step c) acc xs) u)
    \<and> (\<forall>(year, a, m)\<in>set xs. misses_cover (foldl (miss_step c) acc xs) (year, a, m) \<or> cache_get c (cell_key (CompositeFigi a) m year) \<noteq> None)"
  using assms
proof (induction xs arbitrary: acc)
  case (Cons x xs)
  have x: "fst x \<in> ys" using Cons.prems(1) by simp
  note M = miss_step_spec [OF Cons.prems(2) x, where c = c]
  note IH = Cons.IH [OF _ M(1)]
  have "misses_wf ys (foldl (miss_step c) (miss_step c acc x) xs)"
    "\<forall>u. misses_cover (miss_step c acc x) u \<longrightarrow> misses_cover (foldl (miss_step c) (miss_step c acc x) xs) u"
    "\<forall>(year, a, m)\<in>set xs. misses_cover (foldl (miss_step c) (miss_step c acc x) xs) (year, a, m) \<or> cache_get c (cell_key (CompositeFigi a) m year) \<noteq> None"
    using IH Cons.prems(1) by simp_all
  then show ?case using M(2,3) by fastforce
qed simp

lemma fetch_resolves:
  assumes q: "providers_quote env q" and c: "cache_ok q c"
    and f: "fetch_misses env (collect_misses c (chunkYears nyc s t) assets metrics) c = (e, c')"
  shows "cache_ok q c' \<and> grows c c' \<and>
    (e = None \<longrightarrow> (\<forall>year\<in>set (chunkYears nyc s t). \<forall>a\<in>set assets. \<forall>m\<in>set metrics. resolved q c' (CompositeFigi a) m year))"
proof -
  let ?ys = "chunkYears nyc s t"
  define ms where "ms = collect_misses c ?ys assets metrics"
  have M: "misses_wf (set ?ys) ms" "\<forall>year\<in>set ?ys. \<forall>a\<in>set assets. \<forall>m\<in>set metrics.
      misses_cover ms (year, a, m) \<or> cache_get c (cell_key (CompositeFigi a) m year) \<noteq> None"
    using foldl_misses [of "List.product ?ys (List.product assets metrics)" "set ?ys" "[]" c]
    by (auto simp: ms_def collect_misses_def misses_wf_def)
  have "fst m \<in> set ?ys" if "m \<in> set ms" for m
    using M(1) that by (cases m) (fastforce simp: misses_wf_def)
  then have "\<forall>m\<in>set ms. \<exists>y. fst m = unix_of (nz_jan1 nyc y)"
    by (force simp: chunkYears_def)
  note F = fetch_misses_spec [OF q c f [folded ms_def] this]
  have "resolved q c' (CompositeFigi a) m year"
    if e: "e = None" and cell: "year \<in> set ?ys" "a \<in> set assets" "m \<in> set metrics" for year a m
  proof (cases "cache_get c (cell_key (CompositeFigi a) m year) = None")
    case True
    then obtain as l a' where l: "map_of ms year = Some (as, l)" "map_of as (CompositeFigi a) = Some a'" "m \<in> set l"
      using M(2) cell by (fastforce simp: misses_cover_def mhas_def)
    have "a' \<in> snd ` set as" "(year, as, l) \<in> set ms" "CompositeFigi a' = CompositeFigi a"
      using l M(1) by (force simp: misses_wf_def dest: map_of_SomeD)+
    then show ?thesis using F e l(3) by fastforce
  next
    case False
    then show ?thesis using F by (auto simp: resolved_def grows_def)
  qed
  then show ?thesis using F by blast
qed

lemma chunkYears_point [simp]: "chunkYears nyc t t = [chunk_of t]"
  by (simp add: chunkYears_def chunk_of_def)

lemma pit_cell_point:
  "pit_cell c [year] t a m = (case cache_get c (cell_key (CompositeFigi a) m year) of None \<Rightarrow> None | Some e \<Rightarrow> pit_lookup m t e)"
  by (simp add: pit_cell_def cell_key_def split: option.splits)

lemma isNaN_iff: "isNaN v \<longleftrightarrow> v = NaN" by (cases v) simp_all

text \<open>The last of the first \<open>k\<close> values that is not NaN: what both the walk back and the forward fill compute.\<close>

definition last_valid :: "f64 list \<Rightarrow> nat \<Rightarrow> f64 \<Rightarrow> bool" where
  "last_valid vs k v \<longleftrightarrow> (if v = NaN then \<forall>i<k. vs ! i = NaN
     else \<exists>j<k. vs ! j = v \<and> (\<forall>i. j < i \<and> i < k \<longrightarrow> vs ! i = NaN))"

lemma last_valid_Suc:
  assumes "last_valid vs k v"
  shows "last_valid vs (Suc k) (if vs ! k = NaN \<and> v \<noteq> NaN then v else vs ! k)"
proof (cases "vs ! k = NaN")
  case True
  have "i < Suc k \<longleftrightarrow> i < k \<or> i = k" for i by auto
  then show ?thesis using assms True by (auto simp: last_valid_def intro: less_SucI split: if_splits)
qed (auto simp: last_valid_def)

lemma walk_back_last: "last_valid vs k (case walk_back vs k of None \<Rightarrow> NaN | Some v \<Rightarrow> v)"
proof (induction k)
  case (Suc k)
  then show ?case using last_valid_Suc [OF Suc] by (auto simp: isNaN_iff split: option.splits if_splits)
qed (simp add: last_valid_def)

lemma forward_fill_last:
  assumes "last_valid (pre @ vs) (length pre) prev" "i < length vs"
  shows "last_valid (pre @ vs) (Suc (length pre + i)) (forward_fill prev vs ! i)"
  using assms
proof (induction vs arbitrary: pre prev i)
  case (Cons v vs)
  define out where "out = (if v = NaN \<and> prev \<noteq> NaN then prev else v)"
  have o: "last_valid (pre @ v # vs) (Suc (length pre)) out"
    using last_valid_Suc [OF Cons.prems(1)] unfolding out_def nth_append_length .
  have f: "forward_fill prev (v # vs) = out # forward_fill out vs" by (simp add: Let_def out_def isNaN_iff)
  show ?case
  proof (cases i)
    case (Suc n)
    then show ?thesis using Cons.IH [of "pre @ [v]" out n] o Cons.prems(2) unfolding f by simp
  qed (use o in \<open>simp add: f del: forward_fill.simps\<close>)
qed simp

definition fill_gaps :: "f64 list \<Rightarrow> f64 list" where
  "fill_gaps vs = (case vs of [] \<Rightarrow> [] | v # us \<Rightarrow> v # forward_fill v us)"

lemma fill_gaps_last: "i < length vs \<Longrightarrow> last_valid vs (Suc i) (fill_gaps vs ! i)"
proof -
  assume i: "i < length vs"
  then obtain v us where v: "vs = v # us" by (cases vs) auto
  have o: "last_valid vs 1 v" by (simp add: v last_valid_def)
  show ?thesis
  proof (cases i)
    case (Suc n)
    then show ?thesis using forward_fill_last [of "[v]" us v n] o i by (simp add: v fill_gaps_def)
  qed (use o v in \<open>simp add: fill_gaps_def\<close>)
qed

text \<open>
  What a query answers for a date, from the quotes alone. A price is the quote of the date; a
  fundamental is the last filing since the beginning of year \<open>y\<close> that is not after the date, NaN
  where there is none.
\<close>

definition last_filing :: "quotes \<Rightarrow> string \<Rightarrow> metric \<Rightarrow> int \<Rightarrow> gotime \<Rightarrow> f64 \<Rightarrow> bool" where
  "last_filing q f m y t v \<longleftrightarrow>
     (if v = NaN then \<forall>u. y \<le> nz_year nyc u \<and> dateKey u \<le> dateKey t \<longrightarrow> qt_value q f m (dateKey u) = NaN
      else \<exists>u. y \<le> nz_year nyc u \<and> dateKey u \<le> dateKey t \<and> qt_value q f m (dateKey u) = v
         \<and> (\<forall>w. dateKey u < dateKey w \<and> dateKey w \<le> dateKey t \<longrightarrow> qt_value q f m (dateKey w) = NaN))"

definition answers :: "quotes \<Rightarrow> string \<Rightarrow> metric \<Rightarrow> int \<Rightarrow> gotime \<Rightarrow> f64 \<Rightarrow> bool" where
  "answers q f m y t v \<longleftrightarrow> (if IsFundamental m then last_filing q f m y t v else v = qt_value q f m (dateKey t))"

text \<open>The last valid entry of a column of quotes over sorted rows is the last filing, when the rows miss no filing.\<close>

lemma filing_from_rows:
  assumes s: "sorted_wrt (<) (map dateKey ts)" and k: "k \<le> length ts"
    and row: "\<And>i. i < k \<Longrightarrow> y \<le> nz_year nyc (ts ! i) \<and> dateKey (ts ! i) \<le> dateKey t \<and> vs ! i = qt_value q f m (dateKey (ts ! i))"
    and cover: "\<And>u. y \<le> nz_year nyc u \<Longrightarrow> dateKey u \<le> dateKey t \<Longrightarrow> qt_value q f m (dateKey u) \<noteq> NaN \<Longrightarrow> \<exists>i<k. dateKey (ts ! i) = dateKey u"
    and v: "last_valid vs k v"
  shows "last_filing q f m y t v"
proof (cases "v = NaN")
  case True
  have "qt_value q f m (dateKey u) = NaN" if u: "y \<le> nz_year nyc u" "dateKey u \<le> dateKey t" for u
  proof (rule ccontr)
    assume n: "qt_value q f m (dateKey u) \<noteq> NaN"
    then obtain i where "i < k" "dateKey (ts ! i) = dateKey u" using cover [OF u n] by blast
    then show False using row [of i] v True n by (auto simp: last_valid_def)
  qed
  then show ?thesis using True by (auto simp: last_filing_def)
next
  case False
  then obtain j where j: "j < k" "vs ! j = v" "\<forall>i. j < i \<and> i < k \<longrightarrow> vs ! i = NaN" using v by (auto simp: last_valid_def)
  have "qt_value q f m (dateKey w) = NaN" if w: "dateKey (ts ! j) < dateKey w" "dateKey w \<le> dateKey t" for w
  proof (rule ccontr)
    assume n: "qt_value q f m (dateKey w) \<noteq> NaN"
    have "y \<le> nz_year nyc w" using row [OF j(1)] nyc_dates [of "ts ! j" w] w(1) by linarith
    then obtain i where i: "i < k" "dateKey (ts ! i) = dateKey w" using cover w(2) n by blast
    have "\<not> i \<le> j"
    proof
      assume "i \<le> j"
      then have "dateKey (ts ! i) \<le> dateKey (ts ! j)"
        using sorted_wrt_nth_less [OF s, of i j] j(1) k by (cases "i = j") auto
      then show False using i(2) w(1) by simp
    qed
    then show False using j(3) i row [OF i(1)] n by auto
  qed
  then show ?thesis using row [OF j(1)] j(2) False by (auto simp: last_filing_def intro!: exI [of _ "ts ! j"])
qed

lemma same_year: "nz_year nyc t \<le> nz_year nyc u \<Longrightarrow> dateKey u \<le> dateKey t \<Longrightarrow> chunk_of u = chunk_of t"
  using nyc_dates [of u t] by (simp add: chunk_of_def)

lemma pit_lookup_filing:
  assumes ok: "column_ok q f m (chunk_of t) (ce_times e) (ce_values e)" and m: "IsFundamental m"
  shows "last_filing q f m (nz_year nyc t) t (case pit_lookup m t e of None \<Rightarrow> NaN | Some v \<Rightarrow> v)"
proof -
  let ?ts = "ce_times e" and ?n = "length (ce_times e)"
  define k where "k = sort_search ?n (\<lambda>i. dateKey (?ts ! i) > dateKey t)"
  have s: "sorted_wrt (<) (map dateKey ?ts)" using ok by (simp add: column_ok_def)
  have mono: "dateKey (?ts ! i) \<le> dateKey (?ts ! j)" if "i \<le> j" "j < ?n" for i j
    using sorted_wrt_nth_less [OF s, of i j] that by (cases "i = j") auto
  have K: "i < ?n \<Longrightarrow> dateKey (?ts ! i) > dateKey t \<longleftrightarrow> k \<le> i" for i
    unfolding k_def by (rule sort_search_iff(2)) (use mono less_le_trans in blast)
  have k: "k \<le> ?n" by (simp add: k_def)
  have "last_filing q f m (nz_year nyc t) t (case walk_back (ce_values e) k of None \<Rightarrow> NaN | Some v \<Rightarrow> v)"
  proof (rule filing_from_rows [OF s k _ _ walk_back_last])
    fix i assume i: "i < k"
    then have "chunk_of (?ts ! i) = chunk_of t" using ok k nth_mem [of i ?ts] by (simp add: column_ok_def)
    then have "nz_year nyc (?ts ! i) = nz_year nyc t" using zone_chunk [of "?ts ! i" "nz_year nyc t"] by (simp add: chunk_of_def)
    moreover have "\<not> dateKey (?ts ! i) > dateKey t" using K [of i] i k by simp
    ultimately show "nz_year nyc t \<le> nz_year nyc (?ts ! i) \<and> dateKey (?ts ! i) \<le> dateKey t \<and> ce_values e ! i = qt_value q f m (dateKey (?ts ! i))"
      using ok i k by (simp add: column_ok_def)
  next
    fix u assume u: "nz_year nyc t \<le> nz_year nyc u" "dateKey u \<le> dateKey t" "qt_value q f m (dateKey u) \<noteq> NaN"
    have "dateKey u \<in> dateKey ` set ?ts" using ok same_year [OF u(1,2)] u(3) by (auto simp: column_ok_def)
    then obtain w where "w \<in> set ?ts" "dateKey w = dateKey u" by (elim imageE) simp
    then obtain i where i: "i < ?n" "dateKey (?ts ! i) = dateKey u" unfolding in_set_conv_nth by blast
    then show "\<exists>i<k. dateKey (?ts ! i) = dateKey u" using K [OF i(1)] u(2) by (intro exI [of _ i]) simp
  qed
  moreover have "pit_lookup m t e = walk_back (ce_values e) k"
  proof (cases "?ts = []")
    case True
    then have "k = 0" using k by simp
    then show ?thesis using True by (simp add: pit_lookup_def)
  qed (simp add: pit_lookup_def m k_def)
  ultimately show ?thesis by simp
qed

lemma pit_lookup_quote:
  assumes ok: "column_ok q f m (chunk_of t) (ce_times e) (ce_values e)" and m: "\<not> IsFundamental m"
  shows "(case pit_lookup m t e of None \<Rightarrow> NaN | Some v \<Rightarrow> v) = qt_value q f m (dateKey t)"
proof -
  let ?xs = "map dateKey (ce_times e)" and ?n = "length (ce_times e)"
  define lo where "lo = sort_search ?n (\<lambda>i. dateKey t \<le> dateKey (ce_times e ! i))"
  have s: "sorted_wrt (<) ?xs" using ok by (simp add: column_ok_def)
  have lt: "dateKey (ce_times e ! i) < dateKey (ce_times e ! j)" if "i < j" "j < ?n" for i j
    using sorted_wrt_nth_less [OF s, of i j] that by simp
  have mono: "dateKey (ce_times e ! i) \<le> dateKey (ce_times e ! j)" if "i \<le> j" "j < ?n" for i j
    using lt [of i j] that by (cases "i = j") auto
  have L: "k < ?n \<Longrightarrow> dateKey t \<le> dateKey (ce_times e ! k) \<longleftrightarrow> lo \<le> k" for k
    unfolding lo_def by (rule sort_search_iff(2)) (use mono order_trans in blast)
  have find: "lo < ?n \<and> dateKey (ce_times e ! lo) = dateKey t" if mem: "dateKey t \<in> dateKey ` set (ce_times e)"
  proof -
    obtain x where "x \<in> set (ce_times e)" "dateKey x = dateKey t" using mem by (elim imageE) simp
    then obtain i where i: "i < ?n" "dateKey (ce_times e ! i) = dateKey t" unfolding in_set_conv_nth by blast
    have "lo \<le> i" using L [OF i(1)] i(2) by simp
    moreover have "\<not> lo < i" using L [of lo] lt [of lo i] i by auto
    ultimately show ?thesis using i by simp
  qed
  show ?thesis
  proof (cases "dateKey t \<in> dateKey ` set (ce_times e)")
    case True
    then have "pit_lookup m t e = Some (ce_values e ! lo)"
      using find [OF True] m unfolding pit_lookup_def Let_def lo_def [symmetric] by auto
    then show ?thesis using ok find [OF True] by (simp add: column_ok_def)
  next
    case False
    then have "\<not> (lo < ?n \<and> dateKey (ce_times e ! lo) = dateKey t)" by (metis image_eqI nth_mem)
    then have "pit_lookup m t e = None" using m unfolding pit_lookup_def Let_def lo_def [symmetric] by auto
    then show ?thesis using ok False by (simp add: column_ok_def)
  qed
qed

lemma df_Value_Column: "df_Value df a m = (case df_Column df a m of None \<Rightarrow> NaN | Some col \<Rightarrow> if col = [] then NaN else last col)"
  by (simp add: df_Value_def df_Column_def Let_def split: option.splits)

lemma grid_frame:
  assumes "NewDataFrame ts assets metrics fr (concat (map (\<lambda>a. map (g a) metrics) assets)) = Inr df" "ts \<noteq> []"
    and "a \<in> set assets" "m \<in> set metrics" "\<And>a'. CompositeFigi a' = CompositeFigi a \<Longrightarrow> g a' m = g a m"
  shows "df_Column df a m = Some (g a m)"
proof -
  have df: "df_assets df = assets" "df_metrics df = metrics" "df_columns df = concat (map (\<lambda>a. map (g a) metrics) assets)" "df_err df = None"
    using assms(1,2) by (auto simp: NewDataFrame_def Let_def split: if_splits)
  have wf: "df_wf df" using assms(1) by (rule NewDataFrame_wf)
  obtain i where i: "map_of (mk_assetIndex assets) (CompositeFigi a) = Some i" using mk_assetIndex_has [of assets "CompositeFigi a"] assms(3) by auto
  obtain j where j: "metric_pos metrics 0 m = Some j" using metric_pos_None [of metrics 0 m] assms(4) by auto
  note I = assetIndex_figi [OF i] and J = metric_pos_Some [OF j]
  have "df_Column df a m = Some (g (assets ! i) (metrics ! j))"
    using I J grid_nth [of i assets j metrics g] by (simp add: df_Column_wf [OF wf df(4)] df i j)
  moreover have "g (assets ! i) m = g a m" using I by (intro assms(5)) simp
  ultimately show ?thesis using J by simp
qed

lemma pit_answers:
  assumes z: "cache_ok q c" and r: "resolved q c (CompositeFigi a) m (chunk_of t)"
  shows "answers q (CompositeFigi a) m (nz_year nyc t) t (case pit_cell c [chunk_of t] t a m of None \<Rightarrow> NaN | Some v \<Rightarrow> v)"
proof (cases "cache_get c (cell_key (CompositeFigi a) m (chunk_of t))")
  case None
  then have "column_ok q (CompositeFigi a) m (chunk_of t) [] []" using r by (simp add: resolved_def)
  then have n: "qt_value q (CompositeFigi a) m (dateKey u) = NaN" if "chunk_of u = chunk_of t" for u using that by (simp add: column_ok_def)
  have "last_filing q (CompositeFigi a) m (nz_year nyc t) t NaN" unfolding last_filing_def using n [OF same_year] by simp
  then show ?thesis using None n [of t] by (simp add: pit_cell_point answers_def)
next
  case (Some e)
  then have "column_ok q (CompositeFigi a) m (chunk_of t) (ce_times e) (ce_values e)" using z by (auto simp: cache_ok_def dest!: spec)
  then show ?thesis using pit_lookup_quote pit_lookup_filing by (auto simp: pit_cell_point Some answers_def)
qed

text \<open>A frame of at most one row, at the queried time, whose entries answer for its date.\<close>

definition quoted_row :: "quotes \<Rightarrow> asset list \<Rightarrow> metric list \<Rightarrow> gotime \<Rightarrow> dataframe \<Rightarrow> bool" where
  "quoted_row q assets metrics t df \<longleftrightarrow> df_wf df \<and> df_err df = None \<and> (df_times df = [] \<or> df_times df = [t]) \<and> df_freq df = Daily
   \<and> (\<forall>a m col. df_Column df a m = Some col \<longrightarrow> m \<in> set metrics
        \<and> (\<forall>v\<in>set col. answers q (CompositeFigi a) m (nz_year nyc t) t v))
   \<and> (\<forall>a\<in>set assets. \<forall>m\<in>set metrics. answers q (CompositeFigi a) m (nz_year nyc t) t (df_Value df a m))"

lemma assemblePointInTime_quote:
  assumes "cache_ok q c" "\<forall>a\<in>set assets. \<forall>m\<in>set metrics. resolved q c (CompositeFigi a) m (chunk_of t)"
  shows "\<exists>df. assemblePointInTime nyc c assets metrics t h = Inr df \<and> quoted_row q assets metrics t df"
proof -
  define cell where "cell = pit_cell c [chunk_of t] t"
  define g where "g = (\<lambda>a m. [case cell a m of None \<Rightarrow> NaN | Some v \<Rightarrow> v])"
  have Q: "answers q (CompositeFigi a) m (nz_year nyc t) t (hd (g a m))" if "a \<in> set assets" "m \<in> set metrics" for a m
    using pit_answers [OF assms(1)] assms(2) that by (simp add: g_def cell_def)
  have cells: "concat (map (\<lambda>a. map (pit_cell c (chunkYears nyc t t) t a) metrics) assets) = concat (map (\<lambda>a. map (cell a) metrics) assets)"
    by (simp add: cell_def)
  have cols: "map (\<lambda>x. [case x of None \<Rightarrow> NaN | Some v \<Rightarrow> v]) (concat (map (\<lambda>a. map (cell a) metrics) assets))
      = concat (map (\<lambda>a. map (g a) metrics) assets)"
    by (simp add: map_concat comp_def g_def)
  have figi: "g a' m = g a m" if "CompositeFigi a' = CompositeFigi a" for a a' m
    using that by (simp add: g_def cell_def pit_cell_point)
  have has: "\<exists>a'\<in>set assets. CompositeFigi a' = CompositeFigi a \<and> m \<in> set metrics \<and> df_Column df a' m = Some col"
    if "df_Column df a m = Some col" "NewDataFrame ts assets metrics Daily cs = Inr df" for df a m col ts cs
  proof -
    have "df_assets df = assets" "df_metrics df = metrics" "df_err df = None"
      using that(2) by (auto simp: NewDataFrame_def Let_def split: if_splits)
    then show ?thesis using df_Column_has [OF NewDataFrame_wf [OF that(2)], of a m] that(1) by (fastforce simp: df_has_def df_Column_def)
  qed
  show ?thesis
  proof (cases "list_all (\<lambda>x. x = None) (concat (map (\<lambda>a. map (cell a) metrics) assets)) \<and> \<not> h")
    case True
    then have N: "assemblePointInTime nyc c assets metrics t h = NewDataFrame [] assets metrics Daily []"
      unfolding assemblePointInTime_def Let_def cells by simp
    obtain df where df: "NewDataFrame [] assets metrics Daily [] = Inr df" by (simp add: NewDataFrame_def Let_def list_all_iff)
    have sel: "df_err df = None" "df_times df = []" "df_freq df = Daily" using df by (auto simp: NewDataFrame_def Let_def split: if_splits)
    have nil: "col = []" if "df_Column df a m = Some col" for a m col
      using df_Column_length [of df a m col] NewDataFrame_wf [OF df] that sel by simp
    then have "df_Value df a m = NaN" for a m by (auto simp: df_Value_Column split: option.splits)
    moreover have "answers q (CompositeFigi a) m (nz_year nyc t) t NaN" if "a \<in> set assets" "m \<in> set metrics" for a m
      using Q [OF that] True that by (auto simp: g_def list_all_iff)
    ultimately have "quoted_row q assets metrics t df"
      using NewDataFrame_wf [OF df] sel has [OF _ df] nil by (fastforce simp: quoted_row_def)
    then show ?thesis using N df by auto
  next
    case False
    then have N: "assemblePointInTime nyc c assets metrics t h = NewDataFrame [t] assets metrics Daily (concat (map (\<lambda>a. map (g a) metrics) assets))"
      unfolding assemblePointInTime_def Let_def cells cols by (simp only: False if_False)
    obtain df where df: "NewDataFrame [t] assets metrics Daily (concat (map (\<lambda>a. map (g a) metrics) assets)) = Inr df"
      by (simp add: NewDataFrame_def Let_def list_all_iff length_concat comp_def sum_list_triv g_def)
    have col: "df_Column df a m = Some [hd (g a m)]" if "a \<in> set assets" "m \<in> set metrics" for a m
      using grid_frame [OF df _ that figi] by (simp add: g_def)
    have "m \<in> set metrics \<and> (\<forall>v\<in>set cs. answers q (CompositeFigi a) m (nz_year nyc t) t v)" if c: "df_Column df a m = Some cs" for a m cs
    proof -
      obtain a' where a': "a' \<in> set assets" "CompositeFigi a' = CompositeFigi a" "m \<in> set metrics" "df_Column df a' m = Some cs"
        using has [OF c df] by blast
      then show ?thesis using col [of a' m] Q [of a' m] by auto
    qed
    moreover have "df_err df = None" "df_times df = [t]" "df_freq df = Daily" using df by (auto simp: NewDataFrame_def Let_def split: if_splits)
    moreover have "\<forall>a\<in>set assets. \<forall>m\<in>set metrics. answers q (CompositeFigi a) m (nz_year nyc t) t (df_Value df a m)"
      using col Q by (simp add: df_Value_Column)
    ultimately have "quoted_row q assets metrics t df" using NewDataFrame_wf [OF df] unfolding quoted_row_def by blast
    then show ?thesis using N df by auto
  qed
qed

lemma fetchRange_point:
  assumes q: "providers_quote env q" and c: "cache_ok q c"
    and f: "fetchRange env assets metrics t t c = (r, c')"
  shows "cache_ok q c' \<and> grows c c' \<and> ((\<exists>e. r = Some (Inl e)) \<or> (\<exists>df. r = Some (Inr df) \<and> quoted_row q assets metrics t df))"
proof -
  obtain e c1 where m: "fetch_misses env (collect_misses c (chunkYears nyc t t) assets metrics) c = (e, c1)" by fastforce
  note R = fetch_resolves [OF q c m]
  have c1: "c' = c1" using f m by (auto simp: fetchRange_def Let_def split: option.splits sum.splits)
  show ?thesis
  proof (cases e)
    case None
    then obtain df where "assemblePointInTime nyc c1 assets metrics t (list_ex IsFundamental metrics) = Inr df \<and> quoted_row q assets metrics t df"
      using assemblePointInTime_quote [of q c1 assets metrics t "list_ex IsFundamental metrics"] R by auto
    then show ?thesis using f m None R c1 by (auto simp: fetchRange_def Let_def)
  next
    case (Some x)
    then show ?thesis using f m R c1 by (auto simp: fetchRange_def Let_def)
  qed
qed

definition whole :: "gotime \<Rightarrow> bool" where "whole t \<longleftrightarrow> t mod second_ns = 0"

lemma unix_whole: "whole t \<Longrightarrow> whole u \<Longrightarrow> unix_of t = unix_of u \<longleftrightarrow> t = u"
  unfolding whole_def unix_of_def by (metis div_mult_mod_eq)

definition time_inv :: "(int, gotime) gomap \<Rightarrow> bool" where
  "time_inv m \<longleftrightarrow> mwf m \<and> (\<forall>(k, t)\<in>set m. k = unix_of t \<and> whole t)"

lemma time_inv_put:
  assumes "time_inv m" "whole u"
  shows "time_inv (mput (unix_of u) u m) \<and> snd ` set (mput (unix_of u) u m) = insert u (snd ` set m)"
  using assms
proof (induction m)
  case (Cons x m)
  obtain k t where x: "x = (k, t)" by fastforce
  have "time_inv m" using Cons.prems(1) by (simp add: time_inv_def)
  note IH = Cons.IH [OF this Cons.prems(2)]
  have kt: "k = unix_of t" "whole t" using Cons.prems(1) x by (auto simp: time_inv_def)
  show ?case
  proof (cases "k = unix_of u")
    case True
    then have "t = u" using kt Cons.prems(2) unix_whole by auto
    then show ?thesis using Cons.prems(1) x True by simp
  next
    case False
    then show ?thesis using IH Cons.prems(1) x False by (auto simp: time_inv_def update_conv' dom_update insert_commute)
  qed
qed (simp add: time_inv_def)

lemma time_set_spec:
  assumes "\<forall>e\<in>set es. \<forall>t\<in>set (ce_times e). whole t"
  shows "time_inv (time_set es) \<and> snd ` set (time_set es) = (\<Union>e\<in>set es. set (ce_times e))"
proof -
  have "time_inv (foldl (\<lambda>ts t. mput (unix_of t) t ts) m xs) \<and>
      snd ` set (foldl (\<lambda>ts t. mput (unix_of t) t ts) m xs) = snd ` set m \<union> set xs" if "time_inv m" "\<forall>t\<in>set xs. whole t" for m xs
    using that by (induction xs arbitrary: m) (simp_all add: time_inv_put)
  from this [of "[]" "concat (map ce_times es)"] assms show ?thesis by (auto simp: time_set_def time_inv_def)
qed

lemma sorted_times:
  assumes "time_inv m"
  shows "sorted_wrt (<) (sort (map snd m))" "set (sort (map snd m)) = snd ` set m"
proof -
  have "inj_on snd (set m)" by (rule inj_on_inverseI [where g = "\<lambda>t. (unix_of t, t)"]) (use assms in \<open>auto simp: time_inv_def\<close>)
  then have "distinct (map snd m)" using assms by (simp add: time_inv_def distinct_map)
  then show "sorted_wrt (<) (sort (map snd m))" by (simp add: strict_sorted_iff)
qed simp

section \<open>Scattering\<close>

lemma time_position:
  assumes "\<forall>t\<in>set U. whole t" "distinct U" "whole t"
  shows "map_of (map (\<lambda>(i, u). (unix_of u, i)) (enumerate 0 U)) (unix_of t) = Some i \<longleftrightarrow> i < length U \<and> U ! i = t"
proof -
  have "map fst (map (\<lambda>(i, u). (unix_of u, i)) (enumerate 0 U)) = map unix_of U"
    by (rule nth_equalityI) (simp_all add: nth_enumerate_eq)
  moreover have "distinct (map unix_of U)" using assms(1,2) unix_whole by (auto simp: distinct_map inj_on_def)
  ultimately have "map_of (map (\<lambda>(i, u). (unix_of u, i)) (enumerate 0 U)) (unix_of t) = Some i
      \<longleftrightarrow> (unix_of t, i) \<in> set (map (\<lambda>(i, u). (unix_of u, i)) (enumerate 0 U))"
    by (intro map_of_eq_Some_iff) simp
  also have "\<dots> \<longleftrightarrow> i < length U \<and> unix_of (U ! i) = unix_of t" by (auto simp: in_set_enumerate_eq image_iff intro!: bexI [where x = "(i, U ! i)"])
  also have "\<dots> \<longleftrightarrow> i < length U \<and> U ! i = t" using assms(1,3) unix_whole by (metis nth_mem)
  finally show ?thesis .
qed

lemma scatter_spec:
  assumes U: "\<forall>t\<in>set U. whole t" "distinct U" and e: "\<forall>t\<in>set (ce_times e). whole t"
    and v: "\<forall>i<length (ce_times e). ce_values e ! i = w (ce_times e ! i)" and len: "length col = length U"
  shows "length (scatter U e col) = length U"
    "i < length U \<Longrightarrow> scatter U e col ! i = (if U ! i \<in> set (ce_times e) then w (U ! i) else col ! i)"
proof -
  define step where "step = (\<lambda>(col :: f64 list) (ii, t).
         case map_of (map (\<lambda>(i, u). (unix_of u, i)) (enumerate 0 U)) (unix_of t) of None \<Rightarrow> col
         | Some ti \<Rightarrow> col[ti := ce_values e ! ii])"
  have step: "length (step col (ii, t)) = length U \<and> (\<forall>i<length U. step col (ii, t) ! i = (if U ! i = t then w t else col ! i))"
    if "length col = length U" "whole t" "ce_values e ! ii = w t" for col ii t
  proof (cases "map_of (map (\<lambda>(i, u). (unix_of u, i)) (enumerate 0 U)) (unix_of t)")
    case None
    then have "t \<notin> set U" using time_position [OF U that(2)] by (auto simp: in_set_conv_nth)
    then show ?thesis using None that(1) by (auto simp: step_def)
  next
    case (Some k)
    then have k: "k < length U" "U ! k = t" using time_position [OF U that(2)] by auto
    then have "U ! i = t \<longleftrightarrow> i = k" if "i < length U" for i using that U(2) nth_eq_iff_index_eq by metis
    then show ?thesis using Some k that(1,3) by (auto simp: step_def)
  qed
  have "length (foldl step col xs) = length U \<and> (\<forall>i<length U. foldl step col xs ! i = (if U ! i \<in> snd ` set xs then w (U ! i) else col ! i))"
    if "\<forall>(ii, t)\<in>set xs. whole t \<and> ce_values e ! ii = w t" "length col = length U" for xs col
    using that
  proof (induction xs arbitrary: col)
    case (Cons x xs)
    obtain ii t where x: "x = (ii, t)" by fastforce
    have s: "length (step col x) = length U \<and> (\<forall>i<length U. step col x ! i = (if U ! i = t then w t else col ! i))"
      using step [of col t ii] Cons.prems x by simp
    show ?case using Cons.IH [of "step col x"] Cons.prems s by (auto simp: x)
  qed simp
  note F = this [of "enumerate 0 (ce_times e)" col]
  have "snd ` set (enumerate 0 (ce_times e)) = set (ce_times e)" unfolding set_map [symmetric] by simp
  moreover have "\<forall>(ii, t)\<in>set (enumerate 0 (ce_times e)). whole t \<and> ce_values e ! ii = w t" using e v by (auto simp: in_set_enumerate_eq)
  ultimately have main: "length (scatter U e col) = length U \<and> (\<forall>i<length U. scatter U e col ! i = (if U ! i \<in> set (ce_times e) then w (U ! i) else col ! i))"
    using F len unfolding scatter_def step_def [symmetric] by simp
  then show "length (scatter U e col) = length U"
    "i < length U \<Longrightarrow> scatter U e col ! i = (if U ! i \<in> set (ce_times e) then w (U ! i) else col ! i)" by auto
qed


definition in_cache :: "dataCache \<Rightarrow> string \<Rightarrow> metric \<Rightarrow> int list \<Rightarrow> gotime \<Rightarrow> bool" where
  "in_cache c f m years t \<longleftrightarrow> (\<exists>year\<in>set years. \<exists>e. cache_get c (cell_key f m year) = Some e \<and> t \<in> set (ce_times e))"

lemma cache_entry_whole:
  assumes "cache_ok q c" "cache_get c key = Some e" "t \<in> set (ce_times e)"
  shows "whole t" "t = qt_stamp q (dateKey t)"
  using assms by (auto simp: cache_ok_def column_ok_def time_stamped_def whole_def)

lemma slab_column_spec:
  assumes c: "cache_ok q c" and U: "\<forall>t\<in>set U. whole t" "distinct U"
  shows "slab_column c years U a m = (if IsFundamental m then fill_gaps else id)
    (map (\<lambda>t. if in_cache c (CompositeFigi a) m years t then qt_value q (CompositeFigi a) m (dateKey t) else NaN) U)"
proof -
  let ?f = "CompositeFigi a"
  let ?w = "\<lambda>t. qt_value q ?f m (dateKey t)"
  define step where "step = (\<lambda>(col :: f64 list) year. case cache_get c (cell_key ?f m year) of None \<Rightarrow> col | Some entry \<Rightarrow> scatter U entry col)"
  have step: "length (step col year) = length U \<and> (\<forall>i<length U. step col year ! i = (if in_cache c ?f m [year] (U ! i) then ?w (U ! i) else col ! i))"
    if "length col = length U" for col year
  proof (cases "cache_get c (cell_key ?f m year)")
    case None
    then show ?thesis using that by (simp add: step_def in_cache_def)
  next
    case (Some e)
    have "\<forall>t\<in>set (ce_times e). whole t" using cache_entry_whole [OF c Some] by blast
    moreover have "\<forall>i<length (ce_times e). ce_values e ! i = ?w (ce_times e ! i)"
      using c Some unfolding cache_ok_def column_ok_def by (metis cell_key_sel(1,2))
    ultimately show ?thesis using scatter_spec [OF U _ _ that, of e ?w] Some by (simp add: step_def in_cache_def)
  qed
  have "length (foldl step col ys) = length U \<and> (\<forall>i<length U. foldl step col ys ! i = (if in_cache c ?f m ys (U ! i) then ?w (U ! i) else col ! i))"
    if "length col = length U" for col ys
    using that
  proof (induction ys arbitrary: col)
    case (Cons y ys)
    note s = step [OF Cons.prems, of y]
    have "in_cache c ?f m (y # ys) t \<longleftrightarrow> in_cache c ?f m [y] t \<or> in_cache c ?f m ys t" for t by (auto simp: in_cache_def)
    then show ?case using Cons.IH [of "step col y"] s by auto
  qed (simp add: in_cache_def)
  note F = this [of "replicate (length U) NaN" years]
  have "foldl step (replicate (length U) NaN) years = map (\<lambda>t. if in_cache c ?f m years t then ?w t else NaN) U"
    by (rule nth_equalityI) (use F in simp_all)
  moreover have "slab_column c years U a m = (if IsFundamental m then fill_gaps else id) (foldl step (replicate (length U) NaN) years)"
    unfolding slab_column_def step_def cell_key_def by (simp add: Let_def fill_gaps_def split: list.split)
  ultimately show ?thesis by simp
qed

lemma set_map_filter: "set (List.map_filter f xs) = {y. \<exists>x\<in>set xs. f x = Some y}"
  by (force simp: map_filter_def)

lemma requested_times:
  "(\<Union>e\<in>set (requested_entries c years assets metrics). set (ce_times e))
     = {t. \<exists>a\<in>set assets. \<exists>m\<in>set metrics. in_cache c (CompositeFigi a) m years t}"
proof -
  have "e \<in> set (requested_entries c years assets metrics) \<longleftrightarrow>
      (\<exists>year\<in>set years. \<exists>a\<in>set assets. \<exists>m\<in>set metrics. cache_get c (cell_key (CompositeFigi a) m year) = Some e)" for e
    by (auto simp: requested_entries_def set_map_filter cell_key_def)
  then show ?thesis unfolding in_cache_def by blast
qed

lemma forward_fill_length [simp]: "length (forward_fill p xs) = length xs"
  by (induction xs arbitrary: p) (simp_all add: Let_def)

lemma scatter_length [simp]: "length (scatter U e col) = length col"
  unfolding scatter_def by (rule foldl_induct [where P = "\<lambda>xs. length xs = length col"]) (auto split: option.splits)

lemma slab_column_length [simp]: "length (slab_column c years U a m) = length U"
proof -
  have "length (foldl (\<lambda>col year. case cache_get c \<lparr>ck_figi = CompositeFigi a, ck_metric = m, ck_chunkStart = year\<rparr> of None \<Rightarrow> col
             | Some entry \<Rightarrow> scatter U entry col) (replicate (length U) NaN) years) = length U"
    by (rule foldl_induct [where P = "\<lambda>xs. length xs = length U"]) (auto split: option.splits)
  then show ?thesis by (auto simp: slab_column_def Let_def split: list.split)
qed

text \<open>
  A frame that answers for a range: its rows lie in the range, in order, every entry answers for the
  date of its row (a fundamental since the beginning of the year the range starts in), and no quoted
  date of the range is missing.
\<close>

definition reports :: "quotes \<Rightarrow> asset list \<Rightarrow> metric list \<Rightarrow> gotime \<Rightarrow> gotime \<Rightarrow> dataframe \<Rightarrow> bool" where
  "reports q assets metrics s e df \<longleftrightarrow> df_wf df \<and> df_err df = None \<and> sorted_wrt (<) (df_times df)
   \<and> (\<forall>t\<in>set (df_times df). dateKey s \<le> dateKey t \<and> dateKey t \<le> dateKey e)
   \<and> sorted_wrt (<) (map dateKey (df_times df))
   \<and> (\<forall>a\<in>set assets. \<forall>m\<in>set metrics.
        (df_times df \<noteq> [] \<longrightarrow> (\<exists>col. df_Column df a m = Some col
           \<and> list_all2 (answers q (CompositeFigi a) m (nz_year nyc s)) (df_times df) col))
      \<and> (\<forall>t. dateKey s \<le> dateKey t \<and> dateKey t \<le> dateKey e \<and> qt_value q (CompositeFigi a) m (dateKey t) \<noteq> NaN
           \<longrightarrow> dateKey t \<in> dateKey ` set (df_times df)))"

lemma chunk_in_years:
  assumes "nz_year nyc s \<le> nz_year nyc t" "dateKey t \<le> dateKey e"
  shows "chunk_of t \<in> set (chunkYears nyc s e)"
  using assms(1) nyc_dates [OF assms(2)] by (auto simp: chunk_of_def chunkYears_def)

lemma chunk_years_after:
  assumes "chunk_of t \<in> set (chunkYears nyc s e)"
  shows "nz_year nyc s \<le> nz_year nyc t"
proof -
  obtain y where "chunk_of t = unix_of (nz_jan1 nyc y)" "nz_year nyc s \<le> y" using assms by (auto simp: chunkYears_def)
  then show ?thesis using zone_chunk by simp
qed

lemma resolved_quote:
  assumes c: "cache_ok q c" and r: "resolved q c f m (chunk_of t)" and y: "chunk_of t \<in> set years"
    and n: "qt_value q f m (dateKey t) \<noteq> NaN"
  shows "\<exists>u. dateKey u = dateKey t \<and> in_cache c f m years u"
proof (cases "cache_get c (cell_key f m (chunk_of t))")
  case None
  then show ?thesis using r n by (auto simp: resolved_def column_ok_def)
next
  case (Some e)
  have "column_ok q f m (chunk_of t) (ce_times e) (ce_values e)" using c Some by (auto simp: cache_ok_def dest!: spec)
  then have "dateKey t \<in> dateKey ` set (ce_times e)" using n by (auto simp: column_ok_def)
  then obtain u where "u \<in> set (ce_times e)" "dateKey u = dateKey t" by (elim imageE) simp
  then show ?thesis using Some y by (auto simp: in_cache_def)
qed

text \<open>A row of the slab answers for its date.\<close>

lemma slab_answers:
  assumes c: "cache_ok q c" and r: "\<forall>y\<in>set (chunkYears nyc s e). resolved q c (CompositeFigi a) m y"
    and U: "\<forall>t\<in>set U. whole t" "distinct U" "sorted_wrt (<) (map dateKey U)"
    and row: "\<forall>t\<in>set U. chunk_of t \<in> set (chunkYears nyc s e) \<and> t = qt_stamp q (dateKey t)"
    and all: "\<forall>t. in_cache c (CompositeFigi a) m (chunkYears nyc s e) t \<longrightarrow> t \<in> set U"
    and i: "i < length U" "dateKey (U ! i) \<le> dateKey e"
  shows "answers q (CompositeFigi a) m (nz_year nyc s) (U ! i) (slab_column c (chunkYears nyc s e) U a m ! i)"
proof -
  let ?f = "CompositeFigi a" and ?ys = "chunkYears nyc s e"
  define vs where "vs = map (\<lambda>t. if in_cache c ?f m ?ys t then qt_value q ?f m (dateKey t) else NaN) U"
  have hit: "\<exists>u. u \<in> set U \<and> dateKey u = dateKey t \<and> in_cache c ?f m ?ys u"
    if "chunk_of t \<in> set ?ys" "qt_value q ?f m (dateKey t) \<noteq> NaN" for t
    using resolved_quote [OF c _ that] r that(1) all by blast
  have quote: "vs ! k = qt_value q ?f m (dateKey (U ! k))" if k: "k < length U" for k
  proof (cases "in_cache c ?f m ?ys (U ! k)")
    case False
    have "qt_value q ?f m (dateKey (U ! k)) = NaN"
    proof (rule ccontr)
      assume "qt_value q ?f m (dateKey (U ! k)) \<noteq> NaN"
      then obtain u where u: "u \<in> set U" "dateKey u = dateKey (U ! k)" "in_cache c ?f m ?ys u"
        using hit [of "U ! k"] row nth_mem [OF k] by blast
      then have "u = U ! k" using row nth_mem [OF k] by metis
      then show False using u(3) False by simp
    qed
    then show ?thesis using False k by (simp add: vs_def)
  qed (use k in \<open>simp add: vs_def\<close>)
  show ?thesis
  proof (cases "IsFundamental m")
    case True
    have "last_filing q ?f m (nz_year nyc s) (U ! i) (fill_gaps vs ! i)"
    proof (rule filing_from_rows [OF U(3), of "Suc i" _ _ vs])
      show "last_valid vs (Suc i) (fill_gaps vs ! i)" using fill_gaps_last [of i vs] i(1) by (simp add: vs_def)
      fix k assume "k < Suc i"
      moreover from this have "dateKey (U ! k) \<le> dateKey (U ! i)"
        using sorted_wrt_nth_less [OF U(3), of k i] i(1) by (cases "k = i") auto
      ultimately show "nz_year nyc s \<le> nz_year nyc (U ! k) \<and> dateKey (U ! k) \<le> dateKey (U ! i) \<and> vs ! k = qt_value q ?f m (dateKey (U ! k))"
        using quote [of k] row nth_mem [of k U] chunk_years_after [of "U ! k" s e] i(1) by simp
    next
      fix u assume u: "nz_year nyc s \<le> nz_year nyc u" "dateKey u \<le> dateKey (U ! i)" "qt_value q ?f m (dateKey u) \<noteq> NaN"
      obtain w where "w \<in> set U" "dateKey w = dateKey u" using hit [OF chunk_in_years [OF u(1)] u(3)] u(2) i(2) by fastforce
      then obtain k where k: "k < length U" "dateKey (U ! k) = dateKey u" unfolding in_set_conv_nth by blast
      moreover have "\<not> i < k" using sorted_wrt_nth_less [OF U(3), of i k] k u(2) by auto
      ultimately show "\<exists>k<Suc i. dateKey (U ! k) = dateKey u" by (intro exI [of _ k]) simp
    qed (use i in simp)
    then show ?thesis using True slab_column_spec [OF c U(1,2), of ?ys a m] by (simp add: answers_def vs_def [symmetric])
  next
    case False
    then show ?thesis using quote [OF i(1)] slab_column_spec [OF c U(1,2), of ?ys a m] by (simp add: answers_def vs_def [symmetric])
  qed
qed

lemma assembleRange_reports:
  assumes c: "cache_ok q c"
    and r: "\<forall>y\<in>set (chunkYears nyc s e). \<forall>a\<in>set assets. \<forall>m\<in>set metrics. resolved q c (CompositeFigi a) m y"
  shows "\<exists>df. assembleRange nyc c assets metrics s e = Some (Inr df) \<and> reports q assets metrics s e df"
proof -
  let ?ys = "chunkYears nyc s e"
  let ?es = "requested_entries c ?ys assets metrics"
  define U where "U = sort (map snd (time_set ?es))"
  have cached: "whole t \<and> t = qt_stamp q (dateKey t) \<and> chunk_of t \<in> set ?ys" if h: "in_cache c f m ?ys t" for f m t
  proof -
    obtain year e where e: "year \<in> set ?ys" "cache_get c (cell_key f m year) = Some e" "t \<in> set (ce_times e)" using h unfolding in_cache_def by blast
    then have "chunk_of t = year" using c by (fastforce simp: cache_ok_def column_ok_def)
    then show ?thesis using cache_entry_whole [OF c e(2,3)] e(1) by simp
  qed
  have es: "\<forall>e\<in>set ?es. \<forall>t\<in>set (ce_times e). whole t" using requested_times [of c ?ys assets metrics] cached by blast
  have U: "sorted_wrt (<) U" "set U = {t. \<exists>a\<in>set assets. \<exists>m\<in>set metrics. in_cache c (CompositeFigi a) m ?ys t}"
    using time_set_spec [OF es] sorted_times [of "time_set ?es"] requested_times [of c ?ys assets metrics] by (auto simp: U_def)
  have w: "\<forall>t\<in>set U. whole t" "distinct U" using U cached by (auto simp: strict_sorted_iff)
  have st: "t = qt_stamp q (dateKey t)" "chunk_of t \<in> set ?ys" if "t \<in> set U" for t using that U(2) cached by auto
  have dk: "sorted_wrt (<) (map dateKey U)"
  proof -
    have "dateKey t < dateKey u" if "t \<in> set U" "u \<in> set U" "t < u" for t u
      using dateKey_mono [of t u] st(1) [OF that(1)] st(1) [OF that(2)] that(3) by (metis less_le less_irrefl)
    then show ?thesis using U(1) by (auto simp: sorted_wrt_map elim: sorted_wrt_mono_rel [rotated])
  qed
  have hit: "dateKey t \<in> dateKey ` set U" if "a \<in> set assets" "m \<in> set metrics" "dateKey s \<le> dateKey t" "dateKey t \<le> dateKey e"
      "qt_value q (CompositeFigi a) m (dateKey t) \<noteq> NaN" for a m t
  proof -
    have y: "chunk_of t \<in> set ?ys" using chunk_in_years [OF nyc_dates [OF that(3)] that(4)] .
    then have "resolved q c (CompositeFigi a) m (chunk_of t)" using r that(1,2) by blast
    from resolved_quote [OF c this y that(5)] that(1,2) show ?thesis using U(2) by (metis (mono_tags, lifting) image_eqI mem_Collect_eq)
  qed
  show ?thesis
  proof (cases "U = []")
    case True
    then have "assembleRange nyc c assets metrics s e = Some (NewDataFrame [] [] [] Daily [])" by (simp add: assembleRange_def Let_def U_def)
    moreover obtain df where df: "NewDataFrame [] [] [] Daily [] = Inr df" by (simp add: NewDataFrame_def Let_def)
    moreover have "df_times df = []" "df_err df = None" using df by (auto simp: NewDataFrame_def Let_def)
    ultimately show ?thesis using NewDataFrame_wf [OF df] hit True by (force simp: reports_def)
  next
    case False
    define g where "g = slab_column c ?ys U"
    have len: "length (g a m) = length U" for a m by (simp add: g_def)
    obtain df where df: "NewDataFrame U assets metrics Daily (concat (map (\<lambda>a. map (g a) metrics) assets)) = Inr df"
      using False by (simp add: NewDataFrame_def Let_def list_all_iff length_concat comp_def sum_list_triv len)
    have sel: "df_times df = U" "df_freq df = Daily" "df_err df = None" using df by (auto simp: NewDataFrame_def Let_def split: if_splits)
    have wf: "df_wf df" by (rule NewDataFrame_wf [OF df])
    have ch: "df_chrono df" using U(1) dk by (simp add: df_chrono_def sel)
    define rows where "rows = rows_in_range s e df"
    have a: "assembleRange nyc c assets metrics s e = Some (Inr (if rows = [] then df_zero else row_select rows (with_dates df)))"
      using False df Between_eq [OF wf ch sel(3), of s e]
      unfolding assembleRange_def Let_def U_def [symmetric] g_def [symmetric] rows_def by simp
    have mem: "i \<in> set rows \<longleftrightarrow> i < length U \<and> dateKey s \<le> dateKey (U ! i) \<and> dateKey (U ! i) \<le> dateKey e" for i
      by (auto simp: rows_def rows_in_range_def in_range_def sel daily_or_coarser_def)
    define df' where "df' = row_select rows (with_dates df)"
    have wf': "df_wf df'" unfolding df'_def using mem wf by (intro row_select_wf) (auto simp: sel)
    have t': "df_times df' = map ((!) U) rows" "df_err df' = None" by (simp_all add: df'_def row_select_def sel)
    have col: "\<exists>cs. df_Column df' a m = Some cs \<and> list_all2 (answers q (CompositeFigi a) m (nz_year nyc s)) (df_times df') cs"
      if am: "a \<in> set assets" "m \<in> set metrics" for a m
    proof -
      have "df_Column df a m = Some (g a m)"
        by (rule grid_frame [OF df False am]) (simp add: g_def slab_column_def)
      then have "df_Column df' a m = Some (map ((!) (g a m)) rows)"
        using df_Column_map [OF wf sel(3), of df' "\<lambda>col. map ((!) col) rows" a m] by (simp add: df'_def row_select_def sel)
      moreover have "answers q (CompositeFigi a) m (nz_year nyc s) (U ! i) (g a m ! i)" if "i \<in> set rows" for i
        unfolding g_def by (rule slab_answers [OF c _ w dk]) (use that mem r am st U(2) in auto)
      ultimately show ?thesis by (simp add: t'(1) list_all2_conv_all_nth)
    qed
    have sorted': "sorted_wrt (<) (df_times df')" "sorted_wrt (<) (map dateKey (df_times df'))"
    proof -
      have s: "sorted_wrt (<) rows" by (simp add: rows_def rows_in_range_def sorted_wrt_filter)
      then show "sorted_wrt (<) (df_times df')" using sorted_wrt_nth_less [OF U(1)] mem by (auto simp: t' sorted_wrt_map elim!: sorted_wrt_mono_rel [rotated])
      show "sorted_wrt (<) (map dateKey (df_times df'))"
        using s sorted_wrt_nth_less [OF dk] mem by (auto simp: t' sorted_wrt_map elim!: sorted_wrt_mono_rel [rotated])
    qed
    have hit': "dateKey t \<in> dateKey ` set (df_times df')" if cell: "a \<in> set assets" "m \<in> set metrics" "dateKey s \<le> dateKey t" "dateKey t \<le> dateKey e"
      "qt_value q (CompositeFigi a) m (dateKey t) \<noteq> NaN" for a m t
    proof -
      obtain u where u: "u \<in> set U" "dateKey t = dateKey u" using hit [OF cell] by (elim imageE)
      then obtain i where "i < length U" "U ! i = u" by (auto simp: in_set_conv_nth)
      then have "i \<in> set rows" using mem cell(3,4) u(2) by auto
      then show ?thesis using u(2) \<open>U ! i = u\<close> by (auto simp: t')
    qed
    show ?thesis
    proof (cases "rows = []")
      case True
      then have "reports q assets metrics s e df_zero" using hit' by (auto simp: reports_def t' df_zero_def df_wf_def mk_assetIndex_def)
      then show ?thesis using a True by auto
    next
      case False
      then show ?thesis using a wf' t' col sorted' hit' mem by (auto simp: reports_def df'_def [symmetric])
    qed
  qed
qed

lemma fetchRange_reports:
  assumes q: "providers_quote env q" and c: "cache_ok q c"
    and f: "fetchRange env assets metrics s t c = (r, c')" and st: "s \<noteq> t"
  shows "cache_ok q c' \<and> grows c c' \<and> ((\<exists>e. r = Some (Inl e)) \<or> (\<exists>df. r = Some (Inr df) \<and> reports q assets metrics s t df))"
proof -
  obtain e c1 where m: "fetch_misses env (collect_misses c (chunkYears nyc s t) assets metrics) c = (e, c1)" by fastforce
  note R = fetch_resolves [OF q c m]
  have c1: "c' = c1" using f m st by (auto simp: fetchRange_def Let_def split: option.splits sum.splits)
  show ?thesis
  proof (cases e)
    case None
    then obtain df where "assembleRange nyc c1 assets metrics s t = Some (Inr df) \<and> reports q assets metrics s t df"
      using assembleRange_reports [of q c1] R by blast
    then show ?thesis using f m None R c1 st by (auto simp: fetchRange_def Let_def)
  next
    case (Some x)
    then show ?thesis using f m R c1 by (auto simp: fetchRange_def Let_def)
  qed
qed

end
