(* ===== verification/Lots.thy ===== *)
theory Lots
  imports Assets
begin

text \<open>
  Tax lots and lot selection (portfolio/lot\_selection.go, the lot consumption of
  portfolio/account.go). Long and short positions are lists of lots; a sale consumes lots in
  the order of the selection method. The interface \<open>lot_policy\<close> states what every method
  promises, and is interpreted on the three methods of the code.
\<close>

record taxlot =
  lot_ID :: string
  lot_Date :: gotime
  lot_Qty :: f64
  lot_Price :: f64

datatype LotSelection = LotFIFO | LotLIFO | LotHighestCost | LotSpecificID

section \<open>Stable sorting\<close>

text \<open>\<open>sort.SliceStable\<close> with a strict weak order: the stable sorted permutation.\<close>

fun insert_stable :: "('a \<Rightarrow> 'a \<Rightarrow> bool) \<Rightarrow> 'a \<Rightarrow> 'a list \<Rightarrow> 'a list" where
  "insert_stable lt x [] = [x]"
| "insert_stable lt x (y # ys) = (if lt y x then y # insert_stable lt x ys else x # y # ys)"

fun stable_sort :: "('a \<Rightarrow> 'a \<Rightarrow> bool) \<Rightarrow> 'a list \<Rightarrow> 'a list" where
  "stable_sort lt [] = []"
| "stable_sort lt (x # xs) = insert_stable lt x (stable_sort lt xs)"

definition sortLotsByDateAsc :: "taxlot list \<Rightarrow> taxlot list" where
  "sortLotsByDateAsc lots = stable_sort (\<lambda>a b. lot_Date a < lot_Date b) lots"

definition sortLotsByPriceDesc :: "taxlot list \<Rightarrow> taxlot list" where
  "sortLotsByPriceDesc lots = stable_sort (\<lambda>a b. lot_Price a > lot_Price b) lots"

definition lotsInConsumptionOrder :: "taxlot list \<Rightarrow> LotSelection \<Rightarrow> taxlot list" where
  "lotsInConsumptionOrder lots method =
     (case method of LotLIFO \<Rightarrow> rev lots
      | LotHighestCost \<Rightarrow> sortLotsByPriceDesc lots
      | _ \<Rightarrow> lots)"

section \<open>Consumption\<close>

text \<open>
  The loop shared by the methods: whole lots are dropped while they fit into the quantity
  still to consume, then one lot is reduced.
\<close>

fun consume_front :: "f64 \<Rightarrow> taxlot list \<Rightarrow> taxlot list" where
  "consume_front remaining [] = []"
| "consume_front remaining (l # ls) =
     (if 0 < remaining then
        (if lot_Qty l \<le> remaining then consume_front (remaining - lot_Qty l) ls
         else l\<lparr>lot_Qty := lot_Qty l - remaining\<rparr> # ls)
      else l # ls)"

definition consumeLotList :: "f64 \<Rightarrow> LotSelection \<Rightarrow> taxlot list \<Rightarrow> taxlot list" where
  "consumeLotList qty method lots =
     (case method of
        LotLIFO \<Rightarrow> rev (consume_front qty (rev lots))
      | LotHighestCost \<Rightarrow> sortLotsByDateAsc (consume_front qty (sortLotsByPriceDesc lots))
      | _ \<Rightarrow> consume_front qty lots)"

text \<open>The lots a consumption touches, each with the quantity taken from it.\<close>

fun matched_lots :: "f64 \<Rightarrow> taxlot list \<Rightarrow> (taxlot \<times> f64) list" where
  "matched_lots remaining [] = []"
| "matched_lots remaining (l # ls) =
     (if 0 < remaining then
        let matched = (if lot_Qty l > remaining then remaining else lot_Qty l)
        in (l, matched) # matched_lots (remaining - matched) ls
      else [])"

record consumedLotInfo =
  avgCostBasis :: f64
  latestBuyDate :: gotime

fun accumulate :: "f64 \<times> f64 \<times> gotime \<Rightarrow> taxlot \<times> f64 \<Rightarrow> f64 \<times> f64 \<times> gotime" where
  "accumulate (totalCost, totalQty, latest) (lot, consumed) =
     (totalCost + consumed * lot_Price lot, totalQty + consumed,
      if time_isZero latest \<or> lot_Date lot > latest then lot_Date lot else latest)"

definition consumedLotInfo_zero :: consumedLotInfo where
  "consumedLotInfo_zero = \<lparr>avgCostBasis = 0, latestBuyDate = time_zero\<rparr>"

definition computeConsumedLotInfo :: "taxlot list \<Rightarrow> f64 \<Rightarrow> LotSelection \<Rightarrow> consumedLotInfo" where
  "computeConsumedLotInfo lots qty method =
     (if lots = [] \<or> feq qty 0 then consumedLotInfo_zero
      else case foldl accumulate (0, 0, time_zero)
                  (matched_lots qty (lotsInConsumptionOrder lots method)) of
        (totalCost, totalQty, latest) \<Rightarrow>
          if feq totalQty 0 then consumedLotInfo_zero
          else \<lparr>avgCostBasis = totalCost / totalQty, latestBuyDate = latest\<rparr>)"

definition avgShortEntryPrice :: "taxlot list \<Rightarrow> f64 \<Rightarrow> LotSelection \<Rightarrow> f64" where
  "avgShortEntryPrice lots qty method =
     (case foldl (\<lambda>(totalCost, totalQty) (lot, matched).
                    (totalCost + matched * lot_Price lot, totalQty + matched)) (0, 0)
             (matched_lots qty (lotsInConsumptionOrder lots method)) of
        (totalCost, totalQty) \<Rightarrow> if feq totalQty 0 then 0 else totalCost / totalQty)"

text \<open>\<open>isDividendQualified\<close>: the earliest lot was held for more than 60 days.\<close>

definition isDividendQualified :: "taxlot list \<Rightarrow> gotime \<Rightarrow> bool" where
  "isDividendQualified lots divDate =
     (case lots of [] \<Rightarrow> False
      | l # _ \<Rightarrow> duration_hours (time_sub divDate (lot_Date l)) / 24 > 60)"

definition lots_total :: "taxlot list \<Rightarrow> f64" where
  "lots_total lots = foldl (\<lambda>t l. t + lot_Qty l) 0 lots"

section \<open>Well-formed lot lists\<close>

definition lot_ok :: "taxlot \<Rightarrow> bool" where
  "lot_ok l \<longleftrightarrow> fin (lot_Qty l) \<and> 0 < fval (lot_Qty l) \<and> fin (lot_Price l)"

abbreviation lots_ok :: "taxlot list \<Rightarrow> bool" where
  "lots_ok ls \<equiv> list_all lot_ok ls"

text \<open>
  Wash-sale adjustments can split a lot at a quantity larger than the lot (see the account
  theory), so the sums are stated for finite lots of any sign.
\<close>

definition lot_fin :: "taxlot \<Rightarrow> bool" where
  "lot_fin l \<longleftrightarrow> fin (lot_Qty l) \<and> fin (lot_Price l)"

abbreviation lots_fin :: "taxlot list \<Rightarrow> bool" where
  "lots_fin ls \<equiv> list_all lot_fin ls"

lemma lot_ok_fin: "lot_ok l \<Longrightarrow> lot_fin l"
  by (simp add: lot_ok_def lot_fin_def)

lemma lots_ok_fin: "lots_ok ls \<Longrightarrow> lots_fin ls"
  by (auto simp: list_all_iff lot_ok_fin)

definition lots_sum :: "taxlot list \<Rightarrow> real" where
  "lots_sum ls = (\<Sum>l\<leftarrow>ls. fval (lot_Qty l))"

abbreviation date_sorted :: "taxlot list \<Rightarrow> bool" where
  "date_sorted ls \<equiv> sorted (map lot_Date ls)"

lemma lots_sum_simps [simp]:
  "lots_sum [] = 0" "lots_sum (l # ls) = fval (lot_Qty l) + lots_sum ls"
  "lots_sum (xs @ ys) = lots_sum xs + lots_sum ys" "lots_sum (rev xs) = lots_sum xs"
  by (simp_all add: lots_sum_def rev_map [symmetric] sum_list_rev)

lemma lots_sum_mset: "mset xs = mset ys \<Longrightarrow> lots_sum xs = lots_sum ys"
  unfolding lots_sum_def by (rule sum_list_perm)

lemma lots_sum_nonneg: "lots_ok ls \<Longrightarrow> 0 \<le> lots_sum ls"
  by (induction ls) (auto simp: lot_ok_def)

lemma lots_sum_pos: "lots_ok ls \<Longrightarrow> ls \<noteq> [] \<Longrightarrow> 0 < lots_sum ls"
  by (cases ls) (auto simp: lot_ok_def dest: lots_sum_nonneg)

lemma lots_total_Fin: "lots_fin ls \<Longrightarrow> lots_total ls = Fin (lots_sum ls)"
proof -
  assume ok: "lots_fin ls"
  have "foldl (\<lambda>t l. t + lot_Qty l) (Fin z) ls = Fin (z + lots_sum ls)" for z
    using ok by (induction ls arbitrary: z) (auto simp: lot_fin_def fin_iff)
  then show ?thesis by (simp add: lots_total_def)
qed

lemma list_all_mset: "mset xs = mset ys \<Longrightarrow> list_all P xs \<longleftrightarrow> list_all P ys"
  by (metis list_all_iff set_mset_mset)

section \<open>Sorting lemmas\<close>

lemma mset_insert_stable [simp]: "mset (insert_stable lt x xs) = add_mset x (mset xs)"
  by (induction xs) auto

lemma mset_stable_sort [simp]: "mset (stable_sort lt xs) = mset xs"
  by (induction xs) auto

lemma set_stable_sort [simp]: "set (stable_sort lt xs) = set xs"
  by (metis mset_stable_sort set_mset_mset)

lemma set_insert_stable [simp]: "set (insert_stable lt x xs) = insert x (set xs)"
  by (metis mset_insert_stable set_mset_add_mset_insert set_mset_mset)

lemma sorted_insert_stable:
  fixes f :: "'a \<Rightarrow> 'b::linorder"
  assumes "sorted (map f xs)"
  shows "sorted (map f (insert_stable (\<lambda>a b. f a < f b) x xs))"
  using assms by (induction xs) auto

lemma sorted_stable_sort: "sorted (map f (stable_sort (\<lambda>a b. f a < f b) xs))"
  for f :: "'a \<Rightarrow> 'b::linorder"
  by (induction xs) (auto intro: sorted_insert_stable)

lemma insert_stable_id:
  "(\<And>y. y \<in> set ys \<Longrightarrow> \<not> lt y x) \<Longrightarrow> insert_stable lt x ys = x # ys"
  by (cases ys) auto

lemma stable_sort_sorted:
  fixes f :: "'a \<Rightarrow> 'b::linorder"
  shows "sorted (map f xs) \<Longrightarrow> stable_sort (\<lambda>a b. f a < f b) xs = xs"
  by (induction xs) (auto simp: insert_stable_id not_less)

text \<open>Stability: elements of one key keep their order.\<close>

lemma filter_insert_stable:
  fixes f :: "'a \<Rightarrow> 'b::linorder"
  shows "filter (\<lambda>y. f y = k) (insert_stable (\<lambda>a b. f a < f b) x xs)
       = filter (\<lambda>y. f y = k) (x # xs)"
  by (induction xs) auto

lemma filter_stable_sort:
  fixes f :: "'a \<Rightarrow> 'b::linorder"
  shows "filter (\<lambda>y. f y = k) (stable_sort (\<lambda>a b. f a < f b) xs) = filter (\<lambda>y. f y = k) xs"
  by (induction xs) (auto simp: filter_insert_stable)

lemma insert_stable_cong:
  "(\<And>y. y \<in> set ys \<Longrightarrow> lt y x = lt' y x) \<Longrightarrow> insert_stable lt x ys = insert_stable lt' x ys"
  by (induction ys) auto

lemma stable_sort_cong:
  "(\<And>a b. a \<in> set xs \<Longrightarrow> b \<in> set xs \<Longrightarrow> lt a b = lt' a b) \<Longrightarrow> stable_sort lt xs = stable_sort lt' xs"
proof (induction xs)
  case (Cons x xs)
  then have "stable_sort lt xs = stable_sort lt' xs" by simp
  moreover have "insert_stable lt x (stable_sort lt' xs) = insert_stable lt' x (stable_sort lt' xs)"
    using Cons.prems by (intro insert_stable_cong) simp
  ultimately show ?case by simp
qed simp

lemma sortLotsByDateAsc_sorted [simp]: "date_sorted (sortLotsByDateAsc ls)"
  by (simp add: sortLotsByDateAsc_def sorted_stable_sort)

lemma mset_sortLots [simp]:
  "mset (sortLotsByDateAsc ls) = mset ls" "mset (sortLotsByPriceDesc ls) = mset ls"
  by (simp_all add: sortLotsByDateAsc_def sortLotsByPriceDesc_def)

lemma sortLotsByPriceDesc_real:
  assumes "lots_ok ls"
  shows "sortLotsByPriceDesc ls
       = stable_sort (\<lambda>a b. - fval (lot_Price a) < - fval (lot_Price b)) ls"
  unfolding sortLotsByPriceDesc_def
  using assms by (intro stable_sort_cong) (auto simp: list_all_iff lot_ok_def fin_less)

lemma sortLotsByPriceDesc_sorted:
  assumes "lots_ok ls"
  shows "sorted (map (\<lambda>l. - fval (lot_Price l)) (sortLotsByPriceDesc ls))"
  unfolding sortLotsByPriceDesc_real [OF assms] by (rule sorted_stable_sort)

section \<open>Consumption lemmas\<close>

lemma consume_front_ok: "lots_ok ls \<Longrightarrow> fin q \<Longrightarrow> lots_ok (consume_front q ls)"
  by (induction q ls rule: consume_front.induct) (auto simp: lot_ok_def fin_order)

lemma consume_front_fin: "lots_fin ls \<Longrightarrow> fin q \<Longrightarrow> lots_fin (consume_front q ls)"
  by (induction q ls rule: consume_front.induct) (auto simp: lot_fin_def)

lemma consume_front_sum:
  "lots_fin ls \<Longrightarrow> fin q \<Longrightarrow> 0 \<le> fval q \<Longrightarrow> fval q \<le> lots_sum ls
   \<Longrightarrow> lots_sum (consume_front q ls) = lots_sum ls - fval q"
  by (induction q ls rule: consume_front.induct) (auto simp: lot_fin_def fin_order)

lemma consume_front_over:
  "lots_ok ls \<Longrightarrow> fin q \<Longrightarrow> lots_sum ls \<le> fval q \<Longrightarrow> consume_front q ls = []"
proof (induction q ls rule: consume_front.induct)
  case (2 q l ls)
  then have "0 \<le> lots_sum ls" by (auto intro: lots_sum_nonneg)
  with 2 show ?case by (auto simp: lot_ok_def fin_order)
qed simp

lemma consume_front_zero: "fin q \<Longrightarrow> fval q \<le> 0 \<Longrightarrow> consume_front q ls = ls"
  by (cases ls) (auto simp: fin_order)

lemma consume_front_dates: "\<exists>k. map lot_Date (consume_front q ls) = drop k (map lot_Date ls)"
proof (induction q ls rule: consume_front.induct)
  case (2 q l ls)
  show ?case
  proof (cases "0 < q \<and> lot_Qty l \<le> q")
    case True
    with 2 obtain k where "map lot_Date (consume_front (q - lot_Qty l) ls) = drop k (map lot_Date ls)"
      by auto
    with True show ?thesis by (auto intro!: exI [of _ "Suc k"])
  next
    case False
    then show ?thesis by (auto intro: exI [of _ 0])
  qed
qed simp

lemma consume_front_date_sorted: "date_sorted ls \<Longrightarrow> date_sorted (consume_front q ls)"
  using consume_front_dates [of q ls] by (auto simp: sorted_wrt_drop)

lemma consume_front_date_sorted_rev:
  "date_sorted (rev ls) \<Longrightarrow> date_sorted (rev (consume_front q ls))"
proof -
  assume srt: "date_sorted (rev ls)"
  obtain k where k: "map lot_Date (consume_front q ls) = drop k (map lot_Date ls)"
    using consume_front_dates by blast
  have "map lot_Date (rev (consume_front q ls)) = rev (drop k (map lot_Date ls))"
    by (simp add: k flip: rev_map)
  also have "\<dots> = take (length ls - k) (map lot_Date (rev ls))"
    by (simp add: rev_drop flip: rev_map)
  finally show ?thesis using srt by (simp add: sorted_wrt_take)
qed

lemma matched_lots_zero [simp]: "matched_lots (Fin 0) ls = []"
  by (cases ls) auto

lemma matched_lots_sum:
  "lots_fin ls \<Longrightarrow> fin q \<Longrightarrow> 0 \<le> fval q \<Longrightarrow> fval q \<le> lots_sum ls
   \<Longrightarrow> (\<Sum>p\<leftarrow>matched_lots q ls. fval (snd p)) = fval q"
proof (induction q ls rule: matched_lots.induct)
  case (2 q l ls)
  then show ?case by (auto simp: lot_fin_def fin_order Let_def fin_iff split: if_splits)
qed simp

lemma matched_lots_fin:
  "lots_fin ls \<Longrightarrow> fin q \<Longrightarrow> list_all (\<lambda>(l, m). lot_fin l \<and> fin m) (matched_lots q ls)"
  by (induction q ls rule: matched_lots.induct) (auto simp: lot_fin_def Let_def)

lemma matched_lots_ok:
  "lots_ok ls \<Longrightarrow> fin q \<Longrightarrow>
   list_all (\<lambda>(l, m). lot_ok l \<and> l \<in> set ls \<and> fin m \<and> 0 < fval m \<and> fval m \<le> fval (lot_Qty l))
     (matched_lots q ls)"
proof (induction q ls rule: matched_lots.induct)
  case (2 q l ls)
  then show ?case
    by (auto simp: lot_ok_def fin_order Let_def list_all_iff split: if_splits)
qed simp

section \<open>The contract of a lot selection method\<close>

definition lots_cost :: "taxlot list \<Rightarrow> real" where
  "lots_cost ls = (\<Sum>l\<leftarrow>ls. fval (lot_Qty l) * fval (lot_Price l))"

definition matched_cost :: "(taxlot \<times> f64) list \<Rightarrow> real" where
  "matched_cost ps = (\<Sum>p\<leftarrow>ps. fval (snd p) * fval (lot_Price (fst p)))"

lemma lots_cost_mset: "mset xs = mset ys \<Longrightarrow> lots_cost xs = lots_cost ys"
  unfolding lots_cost_def by (rule sum_list_perm)

lemma cost_simps [simp]:
  "lots_cost [] = 0" "lots_cost (l # ls) = fval (lot_Qty l) * fval (lot_Price l) + lots_cost ls"
  "matched_cost [] = 0"
  "matched_cost ((l, m) # ps) = fval m * fval (lot_Price l) + matched_cost ps"
  by (simp_all add: lots_cost_def matched_cost_def)

lemma consume_front_cost:
  "lots_fin ls \<Longrightarrow> fin q \<Longrightarrow> 0 \<le> fval q
   \<Longrightarrow> matched_cost (matched_lots q ls) + lots_cost (consume_front q ls) = lots_cost ls"
proof (induction q ls rule: consume_front.induct)
  case (2 q l ls)
  then obtain r a where q: "q = Fin r" and l: "lot_Qty l = Fin a"
    by (auto simp: lot_fin_def fin_iff)
  with 2 show ?case
    by (cases "0 < r"; cases "a \<le> r") (auto simp: Let_def algebra_simps)
qed simp

locale lot_policy =
  fixes ordering :: "taxlot list \<Rightarrow> taxlot list"
    and consume :: "f64 \<Rightarrow> taxlot list \<Rightarrow> taxlot list"
  assumes ordering_mset: "mset (ordering ls) = mset ls"
    and consume_mset: "mset (consume q ls) = mset (consume_front q (ordering ls))"
    and consume_sorted: "date_sorted ls \<Longrightarrow> date_sorted (consume q ls)"
begin

lemma ordering_all: "list_all P (ordering ls) \<longleftrightarrow> list_all P ls"
  by (rule list_all_mset) (rule ordering_mset)

lemma ordering_sum: "lots_sum (ordering ls) = lots_sum ls"
  by (rule lots_sum_mset) (rule ordering_mset)

lemma consume_ok: "lots_ok ls \<Longrightarrow> fin q \<Longrightarrow> lots_ok (consume q ls)"
  using list_all_mset [OF consume_mset] consume_front_ok ordering_all by blast

lemma consume_fin: "lots_fin ls \<Longrightarrow> fin q \<Longrightarrow> lots_fin (consume q ls)"
  using list_all_mset [OF consume_mset] consume_front_fin ordering_all by blast

lemma consume_sum:
  "lots_fin ls \<Longrightarrow> fin q \<Longrightarrow> 0 \<le> fval q \<Longrightarrow> fval q \<le> lots_sum ls
   \<Longrightarrow> lots_sum (consume q ls) = lots_sum ls - fval q"
  using lots_sum_mset [OF consume_mset] consume_front_sum ordering_all ordering_sum by metis

lemma consume_over: "lots_ok ls \<Longrightarrow> fin q \<Longrightarrow> lots_sum ls \<le> fval q \<Longrightarrow> consume q ls = []"
  using consume_mset consume_front_over ordering_all ordering_sum
  by (metis mset_zero_iff mset.simps(1))

lemma consume_empty_iff:
  assumes "lots_ok ls" "fin q" "0 \<le> fval q" "fval q \<le> lots_sum ls"
  shows "consume q ls = [] \<longleftrightarrow> fval q = lots_sum ls"
  using consume_sum [OF lots_ok_fin [OF assms(1)] assms(2-4)] consume_over [OF assms(1,2)] lots_sum_pos [OF consume_ok [OF assms(1,2)]]
  by force

lemma consume_cost:
  assumes "lots_fin ls" "fin q" "0 \<le> fval q"
  shows "matched_cost (matched_lots q (ordering ls)) + lots_cost (consume q ls) = lots_cost ls"
  using consume_front_cost [of "ordering ls" q] assms ordering_all
    lots_cost_mset [OF consume_mset [of q ls]] lots_cost_mset [OF ordering_mset [of ls]] by simp

lemma matched_sum:
  "lots_fin ls \<Longrightarrow> fin q \<Longrightarrow> 0 \<le> fval q \<Longrightarrow> fval q \<le> lots_sum ls
   \<Longrightarrow> (\<Sum>p\<leftarrow>matched_lots q (ordering ls). fval (snd p)) = fval q"
  by (simp add: matched_lots_sum ordering_all ordering_sum)

lemma matched_fin:
  "lots_fin ls \<Longrightarrow> fin q \<Longrightarrow> list_all (\<lambda>(l, m). lot_fin l \<and> fin m) (matched_lots q (ordering ls))"
  by (simp add: matched_lots_fin ordering_all)

end

interpretation lp: lot_policy "\<lambda>ls. lotsInConsumptionOrder ls m" "\<lambda>q. consumeLotList q m" for m
proof
  show "mset (lotsInConsumptionOrder ls m) = mset ls" for ls
    by (simp add: lotsInConsumptionOrder_def split: LotSelection.splits)
  show "mset (consumeLotList q m ls) = mset (consume_front q (lotsInConsumptionOrder ls m))" for q ls
    by (simp add: lotsInConsumptionOrder_def consumeLotList_def split: LotSelection.splits)
  show "date_sorted ls \<Longrightarrow> date_sorted (consumeLotList q m ls)" for q ls
    by (simp add: consumeLotList_def consume_front_date_sorted consume_front_date_sorted_rev
             split: LotSelection.splits)
qed

lemma foldl_accumulate:
  assumes "list_all (\<lambda>(l, m). lot_fin l \<and> fin m) ps" "fin c" "fin t"
  shows "\<exists>d. foldl accumulate (c, t, z) ps
     = (Fin (fval c + matched_cost ps), Fin (fval t + (\<Sum>p\<leftarrow>ps. fval (snd p))), d)"
  using assms
proof (induction ps arbitrary: c t z)
  case Nil
  then show ?case by (simp add: matched_cost_def)
next
  case (Cons p ps)
  obtain l m where p: "p = (l, m)" by force
  have "\<exists>d. foldl accumulate (c + m * lot_Price l, t + m, w) ps
     = (Fin (fval (c + m * lot_Price l) + matched_cost ps),
        Fin (fval (t + m) + (\<Sum>p\<leftarrow>ps. fval (snd p))), d)" for w
    using Cons by (intro Cons.IH) (auto simp: p lot_fin_def)
  then show ?case using Cons.prems
    by (auto simp: p lot_fin_def matched_cost_def algebra_simps)
qed

lemma foldl_short_entry:
  assumes "list_all (\<lambda>(l, m). lot_fin l \<and> fin m) ps" "fin c" "fin t"
  shows "foldl (\<lambda>(totalCost, totalQty) (lot, matched).
            (totalCost + matched * lot_Price lot, totalQty + matched)) (c, t) ps
     = (Fin (fval c + matched_cost ps), Fin (fval t + (\<Sum>p\<leftarrow>ps. fval (snd p))))"
  using assms
proof (induction ps arbitrary: c t)
  case (Cons p ps)
  obtain l m where p: "p = (l, m)" by force
  show ?case using Cons.IH [of "c + m * lot_Price l" "t + m"] Cons.prems
    by (simp add: p lot_fin_def algebra_simps)
qed (simp add: matched_cost_def)

lemma avgCostBasis_fin:
  assumes "lots_fin ls" "fin q"
  shows "fin (avgCostBasis (computeConsumedLotInfo ls q m))"
proof -
  obtain d where "foldl accumulate (0, 0, time_zero) (matched_lots q (lotsInConsumptionOrder ls m))
      = (Fin (matched_cost (matched_lots q (lotsInConsumptionOrder ls m))),
         Fin (\<Sum>p\<leftarrow>matched_lots q (lotsInConsumptionOrder ls m). fval (snd p)), d)"
    using foldl_accumulate [OF lp.matched_fin [OF assms, of m], of 0 0 time_zero] by auto
  then show ?thesis
    by (simp add: computeConsumedLotInfo_def consumedLotInfo_zero_def)
qed

lemma avgShortEntryPrice_fin:
  assumes "lots_fin ls" "fin q"
  shows "fin (avgShortEntryPrice ls q m)"
  using foldl_short_entry [OF lp.matched_fin [OF assms, of m], of 0 0]
  by (simp add: avgShortEntryPrice_def)

lemma lots_cost_append [simp]: "lots_cost (xs @ ys) = lots_cost xs + lots_cost ys"
  by (simp add: lots_cost_def)

lemma avgCostBasis_matched:
  assumes "lots_fin ls" "fin q" "0 < fval q" "fval q \<le> lots_sum ls"
  shows "fval (avgCostBasis (computeConsumedLotInfo ls q m)) * fval q
       = matched_cost (matched_lots q (lotsInConsumptionOrder ls m))"
proof -
  let ?ps = "matched_lots q (lotsInConsumptionOrder ls m)"
  obtain d where d: "foldl accumulate (0, 0, time_zero) ?ps = (Fin (matched_cost ?ps), Fin (fval q), d)"
    using foldl_accumulate [OF lp.matched_fin [OF assms(1,2), of m], of 0 0 time_zero]
      lp.matched_sum assms by auto
  have "ls \<noteq> []" "\<not> feq q 0" using assms by (auto simp: feq_def)
  with d assms(3) show ?thesis by (simp add: computeConsumedLotInfo_def)
qed

text \<open>
  The average cost basis the account computes before a sale is the cost of exactly the
  lots the sale then removes: multiplied by the quantity sold, and added to the cost of the
  lots that remain, it gives the cost of the lots before the sale, for every selection method.
\<close>
lemma avgCostBasis_conserves_cost:
  assumes "lots_fin ls" "fin q" "0 < fval q" "fval q \<le> lots_sum ls"
  shows "avgCostBasis (computeConsumedLotInfo ls q m) * q + Fin (lots_cost (consumeLotList q m ls))
       = Fin (lots_cost ls)"
proof -
  let ?ps = "matched_lots q (lotsInConsumptionOrder ls m)"
  have sum: "(\<Sum>p\<leftarrow>?ps. fval (snd p)) = fval q"
    using lp.matched_sum assms by simp
  obtain d where d: "foldl accumulate (0, 0, time_zero) ?ps = (Fin (matched_cost ?ps), Fin (fval q), d)"
    using foldl_accumulate [OF lp.matched_fin [OF assms(1,2), of m], of 0 0 time_zero] sum by auto
  have ne: "ls \<noteq> []" using assms(3,4) by auto
  have "\<not> feq q 0" using assms(2,3) by (auto simp: feq_def)
  with ne d assms(3) have "avgCostBasis (computeConsumedLotInfo ls q m) = Fin (matched_cost ?ps / fval q)"
    by (simp add: computeConsumedLotInfo_def)
  moreover obtain r where r: "q = Fin r" using assms(2) by (auto simp: fin_iff)
  moreover have "matched_cost ?ps + lots_cost (consumeLotList q m ls) = lots_cost ls"
    using lp.consume_cost assms(1,2,3) by simp
  ultimately show ?thesis using assms(3) by simp
qed

end
