(* ===== verification/Broker.thy ===== *)
theory Broker
  imports DataFrame Lots
begin

text \<open>
  Package \<open>broker\<close>: orders, fills and order groups (broker/broker.go), and the fill pipeline of
  the simulation (broker/fill*.go): a base model that prices an order from a bar, and
  adjusters (slippage, bid-ask spread, market impact) that modify the result in sequence. The
  interface \<open>fill_adjuster\<close> states what every adjuster keeps; it is interpreted on the
  code's adjusters and carries over to the whole pipeline.
\<close>

section \<open>Orders and fills\<close>

datatype Side = Buy | Sell

datatype OrderStatus = OrderOpen | OrderSubmitted | OrderFilled | OrderPartiallyFilled | OrderCancelled

datatype OrderType = Market | Limit | Stop | StopLimit

datatype TimeInForce = Day | GTC | GTD | IOC | FOK | OnOpen | OnClose

datatype GroupType = GroupOCO | GroupBracket

text \<open>The zero \<open>GroupRole\<close> (no role assigned) is \<open>NoRole\<close>.\<close>

datatype GroupRole = NoRole | RoleEntry | RoleStopLoss | RoleTakeProfit

record order =
  o_ID :: string
  o_Asset :: asset
  o_Side :: Side
  o_Status :: OrderStatus
  o_Qty :: f64
  o_Amount :: f64
  o_OrderType :: OrderType
  o_TimeInForce :: TimeInForce
  o_LimitPrice :: f64
  o_StopPrice :: f64
  o_GTDDate :: gotime
  o_Justification :: string
  o_LotSelection :: LotSelection
  o_GroupID :: string
  o_GroupRole :: GroupRole
  o_BatchID :: nat

definition order_zero :: order where
  "order_zero = \<lparr>o_ID = [], o_Asset = asset_zero, o_Side = Buy, o_Status = OrderOpen, o_Qty = 0,
     o_Amount = 0, o_OrderType = Market, o_TimeInForce = Day, o_LimitPrice = 0, o_StopPrice = 0,
     o_GTDDate = time_zero, o_Justification = [], o_LotSelection = LotFIFO, o_GroupID = [],
     o_GroupRole = NoRole, o_BatchID = 0\<rparr>"

record fill =
  f_OrderID :: string
  f_Price :: f64
  f_Qty :: f64
  f_FilledAt :: gotime
  f_Err :: "goerr option"

record orderGroup =
  g_ID :: string
  g_Type :: GroupType
  g_OrderIDs :: "string list"

text \<open>
  Explanations attached to transactions. Those the code formats with \<open>fmt.Sprintf\<close> keep the
  formatted values instead of their decimal text.
\<close>

datatype justification = JText string | JSplit f64 f64 f64 | JDelisted asset f64
  | JShortDividend asset gotime | JBorrowFee asset f64

text \<open>\<open>broker.Transaction\<close>: an account activity entry reported by a broker.\<close>

record brokerTransaction =
  bt_ID :: string
  bt_Date :: gotime
  bt_Asset :: asset
  bt_Type :: txtype
  bt_Qty :: f64
  bt_Price :: f64
  bt_Amount :: f64
  bt_Justification :: justification

section \<open>Fill models\<close>

record fillResult =
  fr_Price :: f64
  fr_Partial :: bool
  fr_Quantity :: f64

text \<open>
  A data fetcher is code of the engine behind an interface: given an asset and a date it
  returns intraday bars, or nothing when the fetch fails.
\<close>

type_synonym data_fetcher = "asset \<Rightarrow> gotime \<Rightarrow> dataframe option"

datatype base_model = CloseFill | VWAPFill "data_fetcher option"

datatype SlippageOption = Percent f64 | FixedSlippage f64

record impactPreset =
  Coefficient :: f64
  PartialThreshold :: f64

datatype adjuster = SlippageAdjuster SlippageOption | SpreadAdjuster int | MarketImpact impactPreset

definition LargeCap :: impactPreset where
  "LargeCap = \<lparr>Coefficient = Fin (1/10), PartialThreshold = Fin (5/100)\<rparr>"
definition SmallCap :: impactPreset where
  "SmallCap = \<lparr>Coefficient = Fin (3/10), PartialThreshold = Fin (2/100)\<rparr>"
definition MicroCap :: impactPreset where
  "MicroCap = \<lparr>Coefficient = Fin (5/10), PartialThreshold = Fin (1/100)\<rparr>"

definition closeFill_Fill :: "order \<Rightarrow> dataframe \<Rightarrow> goerr + fillResult" where
  "closeFill_Fill order bar =
     (let price = df_Value bar (o_Asset order) MetricClose in
      if isNaN price \<or> feq price 0 then Inl (Err ''close fill: no close price'')
      else Inr \<lparr>fr_Price = price, fr_Partial = False, fr_Quantity = o_Qty order\<rparr>)"

definition typicalPrice :: "order \<Rightarrow> dataframe \<Rightarrow> goerr + f64" where
  "typicalPrice order bar =
     (let high = df_Value bar (o_Asset order) MetricHigh;
          low = df_Value bar (o_Asset order) MetricLow;
          closePrice = df_Value bar (o_Asset order) MetricClose
      in if isNaN high \<or> isNaN low \<or> isNaN closePrice then Inl (Err ''vwap fill: missing OHLC data'')
         else Inr ((high + low + closePrice) / 3))"

fun vwap_loop :: "f64 list \<Rightarrow> f64 list \<Rightarrow> f64 list \<Rightarrow> f64 list \<Rightarrow> f64 \<times> f64 \<Rightarrow> f64 \<times> f64" where
  "vwap_loop (h # hs) (l # ls) (c # cs) (v # vs) (sumPV, sumVol) =
     (if isNaN h \<or> isNaN l \<or> isNaN c \<or> isNaN v then vwap_loop hs ls cs vs (sumPV, sumVol)
      else vwap_loop hs ls cs vs (sumPV + (h + l + c) / 3 * v, sumVol + v))"
| "vwap_loop _ _ _ _ acc = acc"

definition intradayVWAP :: "data_fetcher \<Rightarrow> order \<Rightarrow> dataframe \<Rightarrow> f64 option" where
  "intradayVWAP fetcher order bar =
     (if df_times bar = [] then None
      else case fetcher (o_Asset order) (last (df_times bar)) of None \<Rightarrow> None
      | Some intradayDF \<Rightarrow>
        (case (df_Column intradayDF (o_Asset order) MetricHigh, df_Column intradayDF (o_Asset order) MetricLow,
               df_Column intradayDF (o_Asset order) MetricClose, df_Column intradayDF (o_Asset order) Volume) of
           (Some highCol, Some lowCol, Some closeCol, Some volCol) \<Rightarrow>
             (case vwap_loop highCol lowCol closeCol volCol (0, 0) of
                (sumPV, sumVol) \<Rightarrow> if feq sumVol 0 \<or> isNaN sumVol then None else Some (sumPV / sumVol))
         | _ \<Rightarrow> None))"

definition vwapFill_Fill :: "data_fetcher option \<Rightarrow> order \<Rightarrow> dataframe \<Rightarrow> goerr + fillResult" where
  "vwapFill_Fill fetcher order bar =
     (case (case fetcher of None \<Rightarrow> None | Some f \<Rightarrow> intradayVWAP f order bar) of
        Some price \<Rightarrow> Inr \<lparr>fr_Price = price, fr_Partial = False, fr_Quantity = o_Qty order\<rparr>
      | None \<Rightarrow>
        (case typicalPrice order bar of Inl e \<Rightarrow> Inl e
         | Inr price \<Rightarrow> Inr \<lparr>fr_Price = price, fr_Partial = False, fr_Quantity = o_Qty order\<rparr>))"

fun slippage_delta :: "SlippageOption \<Rightarrow> f64 \<Rightarrow> f64" where
  "slippage_delta (Percent pct) price = price * pct"
| "slippage_delta (FixedSlippage amount) price = amount"

definition slippage_Adjust :: "SlippageOption \<Rightarrow> order \<Rightarrow> fillResult \<Rightarrow> fillResult" where
  "slippage_Adjust opt order current =
     (let delta = slippage_delta opt (fr_Price current) in
      \<lparr>fr_Price = (if o_Side order = Buy then fr_Price current + delta else fr_Price current - delta),
       fr_Partial = fr_Partial current, fr_Quantity = fr_Quantity current\<rparr>)"

definition spread_Adjust :: "int \<Rightarrow> order \<Rightarrow> dataframe \<Rightarrow> fillResult \<Rightarrow> goerr + fillResult" where
  "spread_Adjust bps order bar current =
     (let bidVal = df_Value bar (o_Asset order) Bid;
          askVal = df_Value bar (o_Asset order) Ask
      in if \<not> isNaN bidVal \<and> \<not> isNaN askVal \<and> \<not> feq bidVal 0 \<and> \<not> feq askVal 0
         then Inr (current\<lparr>fr_Price := (if o_Side order = Sell then bidVal else askVal)\<rparr>)
         else if bps > 0
         then let halfSpread = fr_Price current * Fin (of_int bps) / 10000 in
              Inr (current\<lparr>fr_Price := (if o_Side order = Sell then fr_Price current - halfSpread
                                       else fr_Price current + halfSpread)\<rparr>)
         else Inl (Err ''spread adjuster: no bid/ask data and no BPS fallback configured''))"

definition impact_Adjust :: "impactPreset \<Rightarrow> order \<Rightarrow> dataframe \<Rightarrow> fillResult \<Rightarrow> goerr + fillResult" where
  "impact_Adjust preset order bar current =
     (let volume = df_Value bar (o_Asset order) Volume in
      if isNaN volume \<or> volume \<le> 0 then Inl (Err ''market impact adjuster: volume data is unavailable'')
      else
        let qty0 = fr_Quantity current;
            over = (qty0 / volume > PartialThreshold preset);
            qty = (if over then floorF (volume * PartialThreshold preset) else qty0);
            partial = (if over then True else fr_Partial current);
            participation = qty / volume;
            impact = Coefficient preset * sqrtF participation
        in Inr \<lparr>fr_Price = (if o_Side order = Sell then fr_Price current * (1 - impact)
                             else fr_Price current * (1 + impact)),
                fr_Partial = partial, fr_Quantity = qty\<rparr>)"

fun adjuster_Adjust :: "adjuster \<Rightarrow> order \<Rightarrow> dataframe \<Rightarrow> fillResult \<Rightarrow> goerr + fillResult" where
  "adjuster_Adjust (SlippageAdjuster opt) order bar current = Inr (slippage_Adjust opt order current)"
| "adjuster_Adjust (SpreadAdjuster bps) order bar current = spread_Adjust bps order bar current"
| "adjuster_Adjust (MarketImpact preset) order bar current = impact_Adjust preset order bar current"

fun base_Fill :: "base_model \<Rightarrow> order \<Rightarrow> dataframe \<Rightarrow> goerr + fillResult" where
  "base_Fill CloseFill order bar = closeFill_Fill order bar"
| "base_Fill (VWAPFill fetcher) order bar = vwapFill_Fill fetcher order bar"

record pipeline =
  pp_base :: base_model
  pp_adjusters :: "adjuster list"

definition pipeline_FillBase :: "pipeline \<Rightarrow> order \<Rightarrow> dataframe \<Rightarrow> goerr + fillResult" where
  "pipeline_FillBase pp order bar = base_Fill (pp_base pp) order bar"

fun adjust_loop :: "adjuster list \<Rightarrow> order \<Rightarrow> dataframe \<Rightarrow> fillResult \<Rightarrow> goerr + fillResult" where
  "adjust_loop [] order bar result = Inr result"
| "adjust_loop (adj # adjs) order bar result =
     (case adjuster_Adjust adj order bar result of Inl e \<Rightarrow> Inl e
      | Inr result' \<Rightarrow> adjust_loop adjs order bar result')"

definition pipeline_Adjust :: "pipeline \<Rightarrow> order \<Rightarrow> dataframe \<Rightarrow> fillResult \<Rightarrow> goerr + fillResult" where
  "pipeline_Adjust pp order bar current = adjust_loop (pp_adjusters pp) order bar current"

definition pipeline_Fill :: "pipeline \<Rightarrow> order \<Rightarrow> dataframe \<Rightarrow> goerr + fillResult" where
  "pipeline_Fill pp order bar =
     (case pipeline_FillBase pp order bar of Inl e \<Rightarrow> Inl e
      | Inr result \<Rightarrow> pipeline_Adjust pp order bar result)"

fun base_SetDataFetcher :: "data_fetcher \<Rightarrow> base_model \<Rightarrow> base_model" where
  "base_SetDataFetcher fetcher CloseFill = CloseFill"
| "base_SetDataFetcher fetcher (VWAPFill _) = VWAPFill (Some fetcher)"

definition pipeline_SetDataFetcher :: "pipeline \<Rightarrow> data_fetcher \<Rightarrow> pipeline" where
  "pipeline_SetDataFetcher pp fetcher = pp\<lparr>pp_base := base_SetDataFetcher fetcher (pp_base pp)\<rparr>"

section \<open>The contract of an adjuster\<close>

locale fill_adjuster =
  fixes adj :: "order \<Rightarrow> dataframe \<Rightarrow> fillResult \<Rightarrow> goerr + fillResult"
  assumes shrinks: "adj ord bar r = Inr r' \<Longrightarrow> \<not> isNaN (fr_Quantity r)
      \<Longrightarrow> fr_Quantity r' \<le> fr_Quantity r \<and> \<not> isNaN (fr_Quantity r')"
    and marks: "adj ord bar r = Inr r' \<Longrightarrow> fr_Quantity r' \<noteq> fr_Quantity r \<Longrightarrow> fr_Partial r'"
    and keeps: "adj ord bar r = Inr r' \<Longrightarrow> fr_Partial r \<Longrightarrow> fr_Partial r'"
begin

lemma full_fill: "adj ord bar r = Inr r' \<Longrightarrow> \<not> fr_Partial r' \<Longrightarrow> fr_Quantity r' = fr_Quantity r"
  using marks by blast

end

lemma impact_qty_le:
  assumes "q / v > t" "\<not> v \<le> 0" "\<not> isNaN v" "\<not> isNaN q"
  shows "floorF (v * t) \<le> q \<and> \<not> isNaN (floorF (v * t))"
proof (cases v)
  case (Fin a)
  with assms have a: "0 < a" by simp
  show ?thesis
  proof (cases t)
    case t: (Fin b)
    show ?thesis
    proof (cases q)
      case q: (Fin c)
      with Fin t a assms(1) have "a * b < c" by (simp add: field_simps)
      then show ?thesis using Fin t q by simp linarith
    qed (use assms Fin t a in auto)
  qed (use assms Fin a in auto)
next
  case PInf
  with assms show ?thesis by (cases q; cases t) (auto split: if_splits)
qed (use assms in auto)

interpretation aa: fill_adjuster "adjuster_Adjust adj" for adj
proof
  fix ord bar r r'
  assume *: "adjuster_Adjust adj ord bar r = Inr r'"
  show "\<not> isNaN (fr_Quantity r) \<Longrightarrow> fr_Quantity r' \<le> fr_Quantity r \<and> \<not> isNaN (fr_Quantity r')"
    using * by (cases adj) (auto simp: slippage_Adjust_def spread_Adjust_def impact_Adjust_def Let_def
        f64_le_refl impact_qty_le simp del: zero_f64_Fin split: if_splits)
  show "fr_Quantity r' \<noteq> fr_Quantity r \<Longrightarrow> fr_Partial r'"
    using * by (cases adj) (auto simp: slippage_Adjust_def spread_Adjust_def impact_Adjust_def Let_def
        split: if_splits)
  show "fr_Partial r \<Longrightarrow> fr_Partial r'"
    using * by (cases adj) (auto simp: slippage_Adjust_def spread_Adjust_def impact_Adjust_def Let_def
        split: if_splits)
qed

lemma adjust_loop_contract:
  assumes "adjust_loop adjs ord bar r = Inr r'"
  shows "(\<not> isNaN (fr_Quantity r) \<longrightarrow> fr_Quantity r' \<le> fr_Quantity r \<and> \<not> isNaN (fr_Quantity r'))
    \<and> (fr_Quantity r' \<noteq> fr_Quantity r \<longrightarrow> fr_Partial r') \<and> (fr_Partial r \<longrightarrow> fr_Partial r')"
  using assms
proof (induction adjs arbitrary: r)
  case Nil
  then show ?case by (simp add: f64_le_refl)
next
  case (Cons a adjs)
  then obtain s where s: "adjuster_Adjust a ord bar r = Inr s" "adjust_loop adjs ord bar s = Inr r'"
    by (auto split: sum.splits)
  from Cons.IH [OF s(2)] aa.shrinks [OF s(1)] aa.marks [OF s(1)] aa.keeps [OF s(1)]
  show ?case by (metis f64_le_trans)
qed

interpretation pl: fill_adjuster "pipeline_Adjust pp" for pp
  by standard (use adjust_loop_contract in \<open>auto simp: pipeline_Adjust_def\<close>)

text \<open>
  A fill pipeline never fills more than the order asked for, whatever its base model and
  adjusters, and a fill of a different quantity is always marked partial, so that the
  simulated broker queues the remainder.
\<close>
lemma pipeline_Fill_quantity:
  assumes "pipeline_Fill pp order bar = Inr r" "\<not> isNaN (o_Qty order)"
  shows "fr_Quantity r \<le> o_Qty order \<and> (\<not> fr_Partial r \<longrightarrow> fr_Quantity r = o_Qty order)"
proof -
  obtain b where b: "pipeline_FillBase pp order bar = Inr b" "pipeline_Adjust pp order bar b = Inr r"
    using assms(1) by (auto simp: pipeline_Fill_def split: sum.splits)
  have "fr_Quantity b = o_Qty order"
    using b(1) by (cases "pp_base pp")
      (auto simp: pipeline_FillBase_def closeFill_Fill_def vwapFill_Fill_def Let_def
        split: if_splits option.splits sum.splits)
  then show ?thesis using pl.shrinks [OF b(2)] pl.full_fill [OF b(2)] assms(2) by metis
qed

end
