(* ===== verification/AccountState.thy ===== *)
theory AccountState
  imports Broker
begin

text \<open>
  The state of \<open>portfolio.Account\<close> (portfolio/account.go) and of the records it keeps. The
  broker itself is not a field: operations that reach it take it as an argument, and the
  fields \<open>a_hasBroker\<close> and \<open>a_brokerHasGroups\<close> say whether one is set and whether it
  submits groups. The batch being executed is passed to the operations that record on it.
  Caches of derived frames, metric rows and registered metrics are left out.
\<close>

record transaction =
  t_ID :: string
  t_Date :: gotime
  t_Asset :: asset
  t_Type :: txtype
  t_Qty :: f64
  t_Price :: f64
  t_Amount :: f64
  t_Qualified :: bool
  t_Justification :: justification
  t_LotSelection :: LotSelection
  t_BatchID :: nat

definition transaction_zero :: transaction where
  "transaction_zero = \<lparr>t_ID = [], t_Date = time_zero, t_Asset = asset_zero, t_Type = BuyTransaction,
     t_Qty = 0, t_Price = 0, t_Amount = 0, t_Qualified = False, t_Justification = JText [],
     t_LotSelection = LotFIFO, t_BatchID = 0\<rparr>"

record washSaleRecord =
  w_Asset :: asset
  w_SellDate :: gotime
  w_RebuyDate :: gotime
  w_DisallowedLoss :: f64
  w_AdjustedLotID :: string

record recentLossSale =
  ls_date :: gotime
  ls_lossPerShare :: f64
  ls_qty :: f64

record recentBuy =
  rb_date :: gotime
  rb_lotID :: string
  rb_qty :: f64

definition washSaleWindowDays :: int where "washSaleWindowDays = 30"

record substitution =
  sub_Original :: asset
  sub_Substitute :: asset
  sub_Until :: gotime

record excursionRecord =
  ex_EntryPrice :: f64
  ex_HighPrice :: f64
  ex_LowPrice :: f64

datatype TradeDirection = TradeLong | TradeShort

record tradeDetail =
  td_Asset :: asset
  td_EntryDate :: gotime
  td_ExitDate :: gotime
  td_EntryPrice :: f64
  td_ExitPrice :: f64
  td_Qty :: f64
  td_PnL :: f64
  td_HoldDays :: f64
  td_MFE :: f64
  td_MAE :: f64
  td_Direction :: TradeDirection

record annotation =
  an_Timestamp :: gotime
  an_Key :: string
  an_Value :: string
  an_BatchID :: nat

record batchRecord =
  br_BatchID :: nat
  br_Timestamp :: gotime

text \<open>Either the absolute price or the percent offset is set (portfolio/order.go).\<close>

record exitTarget =
  AbsolutePrice :: f64
  PercentOffset :: f64

record orderGroupSpec =
  gs_GroupID :: string
  gs_Type :: GroupType
  gs_EntryIndex :: int
  gs_StopLoss :: exitTarget
  gs_TakeProfit :: exitTarget

record account =
  a_cash :: f64
  a_holdings :: "(asset, f64) gomap"
  a_transactions :: "transaction list"
  a_hasBroker :: bool
  a_prices :: "dataframe option"
  a_perfData :: "dataframe option"
  a_positionMV :: "(asset, f64 list) gomap"
  a_positionQty :: "(asset, f64 list) gomap"
  a_benchmark :: asset
  a_riskFreeValue :: f64
  a_taxLots :: "(asset, taxlot list) gomap"
  a_shortLots :: "(asset, taxlot list) gomap"
  a_recentLossSales :: "(asset, recentLossSale list) gomap"
  a_recentBuys :: "(asset, recentBuy list) gomap"
  a_washSales :: "washSaleRecord list"
  a_annotations :: "annotation list"
  a_pendingOrders :: "(string, order) gomap"
  a_pendingGroups :: "(string, orderGroup) gomap"
  a_brokerHasGroups :: bool
  a_deferredExits :: "(string, orderGroupSpec) gomap"
  a_lotSelection :: LotSelection
  a_substitutions :: "(asset, substitution) gomap"
  a_excursions :: "(asset, excursionRecord) gomap"
  a_tradeDetails :: "tradeDetail list"
  a_initialMargin :: f64
  a_maintenanceMargin :: f64
  a_maxLeverage :: f64
  a_grossMaintenanceLeverage :: f64
  a_borrowRate :: f64
  a_seenTransactions :: "string list"
  a_batches :: "batchRecord list"
  a_currentBatchID :: nat

definition portfolioAsset :: asset where "portfolioAsset = mk_asset ''_PORTFOLIO_'' ''_PORTFOLIO_''"
definition cashSentinel :: asset where "cashSentinel = mk_asset [] ''$CASH''"

text \<open>\<open>New\<close> without options.\<close>

definition account_new :: account where
  "account_new = \<lparr>a_cash = 0, a_holdings = [], a_transactions = [], a_hasBroker = False,
     a_prices = None, a_perfData = None, a_positionMV = [], a_positionQty = [],
     a_benchmark = asset_zero, a_riskFreeValue = 0, a_taxLots = [], a_shortLots = [],
     a_recentLossSales = [], a_recentBuys = [], a_washSales = [], a_annotations = [],
     a_pendingOrders = [], a_pendingGroups = [], a_brokerHasGroups = False, a_deferredExits = [],
     a_lotSelection = LotFIFO, a_substitutions = [], a_excursions = [], a_tradeDetails = [],
     a_initialMargin = 0, a_maintenanceMargin = 0, a_maxLeverage = 0,
     a_grossMaintenanceLeverage = 0, a_borrowRate = 0, a_seenTransactions = [], a_batches = [],
     a_currentBatchID = 0\<rparr>"

section \<open>Options and setters\<close>

definition WithCash :: "f64 \<Rightarrow> gotime \<Rightarrow> account \<Rightarrow> account" where
  "WithCash amount date a =
     a\<lparr>a_cash := amount,
       a_transactions := a_transactions a @
         [transaction_zero\<lparr>t_Date := date, t_Type := DepositTransaction, t_Amount := amount\<rparr>]\<rparr>"

definition WithDefaultLotSelection :: "LotSelection \<Rightarrow> account \<Rightarrow> account" where
  "WithDefaultLotSelection method a = a\<lparr>a_lotSelection := method\<rparr>"

definition SetBenchmark :: "asset \<Rightarrow> account \<Rightarrow> account" where
  "SetBenchmark b a = a\<lparr>a_benchmark := b\<rparr>"

definition SetRiskFreeValue :: "f64 \<Rightarrow> account \<Rightarrow> account" where
  "SetRiskFreeValue v a = a\<lparr>a_riskFreeValue := v\<rparr>"

definition SetBroker :: "bool \<Rightarrow> account \<Rightarrow> account" where
  "SetBroker isGroupSubmitter a = a\<lparr>a_hasBroker := True, a_brokerHasGroups := isGroupSubmitter\<rparr>"

definition SetPrices :: "dataframe option \<Rightarrow> account \<Rightarrow> account" where
  "SetPrices priceData a =
     (case priceData of None \<Rightarrow> a | Some df \<Rightarrow> if df_Len df > 0 then a\<lparr>a_prices := Some df\<rparr> else a)"

section \<open>Queries\<close>

definition Position :: "account \<Rightarrow> asset \<Rightarrow> f64" where
  "Position a ast = mget 0 (a_holdings a) ast"

definition PositionValue :: "account \<Rightarrow> asset \<Rightarrow> f64" where
  "PositionValue a ast =
     (let qty = mget 0 (a_holdings a) ast in
      case a_prices a of None \<Rightarrow> 0
      | Some prices \<Rightarrow>
        if feq qty 0 then 0
        else let v = df_Value prices ast MetricClose in if isNaN v then 0 else qty * v)"

definition AccountValue :: "account \<Rightarrow> f64" where
  "AccountValue a =
     (case a_prices a of None \<Rightarrow> a_cash a
      | Some prices \<Rightarrow>
        foldl (\<lambda>total (ast, qty). let v = df_Value prices ast MetricClose in
                 if isNaN v then total else total + qty * v) (a_cash a) (a_holdings a))"

text \<open>
  \<open>mapToLogical\<close> (portfolio/substitution.go): the first active substitution, in the
  iteration order of the map, whose substitute is the asset.
\<close>

fun mapToLogical :: "asset \<Rightarrow> (asset, substitution) gomap \<Rightarrow> gotime \<Rightarrow> asset" where
  "mapToLogical realAsset [] asOf = realAsset"
| "mapToLogical realAsset ((_, sub) # subs) asOf =
     (if sub_Substitute sub = realAsset \<and> asOf < sub_Until sub then sub_Original sub
      else mapToLogical realAsset subs asOf)"

definition Holdings :: "account \<Rightarrow> (asset, f64) gomap" where
  "Holdings a =
     (if a_substitutions a = [] then a_holdings a
      else let asOf = (case a_prices a of None \<Rightarrow> time_zero | Some p \<Rightarrow> df_End p) in
        foldl (\<lambda>logical (realAsset, qty).
                 let key = mapToLogical realAsset (a_substitutions a) asOf
                 in mput key (mget 0 logical key + qty) logical) [] (a_holdings a))"

definition RegisterSubstitution :: "asset \<Rightarrow> asset \<Rightarrow> gotime \<Rightarrow> account \<Rightarrow> account" where
  "RegisterSubstitution original substitute until a =
     a\<lparr>a_substitutions := mput original
        \<lparr>sub_Original = original, sub_Substitute = substitute, sub_Until = until\<rparr> (a_substitutions a)\<rparr>"

definition ActiveSubstitutions :: "account \<Rightarrow> (asset, substitution) gomap" where
  "ActiveSubstitutions a = a_substitutions a"

definition WashSaleWindow :: "account \<Rightarrow> asset \<Rightarrow> washSaleRecord list" where
  "WashSaleWindow a ast = filter (\<lambda>rec. w_Asset rec = ast) (a_washSales a)"

definition UnrealizedLots :: "account \<Rightarrow> asset \<Rightarrow> taxlot list" where
  "UnrealizedLots a ast = mget [] (a_taxLots a) ast"

text \<open>\<open>Annotate\<close>: last write wins for an equal timestamp and key.\<close>

fun annotate_list :: "gotime \<Rightarrow> string \<Rightarrow> string \<Rightarrow> nat \<Rightarrow> annotation list \<Rightarrow> annotation list" where
  "annotate_list ts key val bid [] =
     [\<lparr>an_Timestamp = ts, an_Key = key, an_Value = val, an_BatchID = bid\<rparr>]"
| "annotate_list ts key val bid (x # xs) =
     (if an_Timestamp x = ts \<and> an_Key x = key then x\<lparr>an_Value := val, an_BatchID := bid\<rparr> # xs
      else x # annotate_list ts key val bid xs)"

definition Annotate :: "gotime \<Rightarrow> string \<Rightarrow> string \<Rightarrow> account \<Rightarrow> account" where
  "Annotate ts key val a =
     a\<lparr>a_annotations := annotate_list ts key val (a_currentBatchID a) (a_annotations a)\<rparr>"

text \<open>\<open>UpdateExcursions\<close> (portfolio/excursion.go).\<close>

definition update_excursion :: "dataframe \<Rightarrow> asset \<Rightarrow> excursionRecord \<Rightarrow> excursionRecord" where
  "update_excursion df held record =
     (let highPrice = df_Value df held MetricHigh;
          lowPrice = df_Value df held MetricLow;
          r1 = (if \<not> isNaN highPrice \<and> highPrice > ex_HighPrice record
                then record\<lparr>ex_HighPrice := highPrice\<rparr> else record)
      in if \<not> isNaN lowPrice \<and> lowPrice < ex_LowPrice r1 then r1\<lparr>ex_LowPrice := lowPrice\<rparr> else r1)"

definition UpdateExcursions :: "dataframe \<Rightarrow> account \<Rightarrow> account" where
  "UpdateExcursions df a =
     a\<lparr>a_excursions := map (\<lambda>(held, rec). (held, update_excursion df held rec)) (a_excursions a)\<rparr>"

end
