(* ===== verification/WashSale.thy ===== *)
theory WashSale
  imports AccountState
begin

text \<open>
  Wash-sale tracking of portfolio/account.go: pruning of the 30-day windows, matching of a buy
  against recent loss sales and of a loss sale against recent buys, with the lot splits and
  basis adjustments they make. The loops work on the lists of one asset; the account
  operations store the results.
\<close>

section \<open>Lot surgery\<close>

definition lotExists :: "taxlot list \<Rightarrow> string \<Rightarrow> bool" where
  "lotExists lots lotID = list_ex (\<lambda>l. lot_ID l = lotID) lots"

fun adjustLotBasis :: "taxlot list \<Rightarrow> string \<Rightarrow> f64 \<Rightarrow> taxlot list" where
  "adjustLotBasis [] lotID adj = []"
| "adjustLotBasis (l # ls) lotID adj =
     (if lot_ID l = lotID then l\<lparr>lot_Price := lot_Price l + adj\<rparr> # ls
      else l # adjustLotBasis ls lotID adj)"

text \<open>The lots after the split; the identifiers of head and tail are \<open>splitLot_ids\<close>.\<close>

fun splitLot :: "taxlot list \<Rightarrow> string \<Rightarrow> f64 \<Rightarrow> taxlot list" where
  "splitLot [] lotID headQty = []"
| "splitLot (l # ls) lotID headQty =
     (if lot_ID l = lotID
      then l\<lparr>lot_Qty := headQty\<rparr>
           # \<lparr>lot_ID = lot_ID l @ ''-split'', lot_Date = lot_Date l,
              lot_Qty = lot_Qty l - headQty, lot_Price = lot_Price l\<rparr> # ls
      else l # splitLot ls lotID headQty)"

definition splitLot_ids :: "taxlot list \<Rightarrow> string \<Rightarrow> string \<times> string" where
  "splitLot_ids lots lotID =
     (if lotExists lots lotID then (lotID, lotID @ ''-split'') else (lotID, []))"

section \<open>Pruning\<close>

definition prune_window :: "('r \<Rightarrow> gotime) \<Rightarrow> gotime \<Rightarrow> (asset, 'r list) gomap \<Rightarrow> (asset, 'r list) gomap" where
  "prune_window date cutoff m =
     filter (\<lambda>(_, rs). rs \<noteq> []) (map (\<lambda>(ast, rs). (ast, filter (\<lambda>r. date r > cutoff \<or> date r = cutoff) rs)) m)"

definition pruneWashSaleTracking :: "gotime \<Rightarrow> account \<Rightarrow> account" where
  "pruneWashSaleTracking asOf a =
     (let cutoff = time_addDate asOf 0 0 (- washSaleWindowDays) in
      a\<lparr>a_recentLossSales := prune_window ls_date cutoff (a_recentLossSales a),
        a_recentBuys := prune_window rb_date cutoff (a_recentBuys a)\<rparr>)"

section \<open>A buy against recent loss sales\<close>

definition days_between :: "gotime \<Rightarrow> gotime \<Rightarrow> f64" where
  "days_between t u = duration_hours (time_sub t u) / 24"

definition outside_window :: "f64 \<Rightarrow> bool" where
  "outside_window daysDiff \<longleftrightarrow> daysDiff > Fin (of_int washSaleWindowDays) \<or> daysDiff < 0"

fun wash_buy_loop ::
    "asset \<Rightarrow> gotime \<Rightarrow> recentLossSale list \<Rightarrow> taxlot list \<Rightarrow> washSaleRecord list \<Rightarrow> string \<Rightarrow> f64
     \<Rightarrow> recentLossSale list \<times> taxlot list \<times> washSaleRecord list \<times> string \<times> f64" where
  "wash_buy_loop ast buyDate [] lots ws lotID remaining = ([], lots, ws, lotID, remaining)"
| "wash_buy_loop ast buyDate (s # ss) lots ws lotID remaining =
     (if \<not> remaining > 0 then (s # ss, lots, ws, lotID, remaining)
      else if outside_window (days_between buyDate (ls_date s))
      then (case wash_buy_loop ast buyDate ss lots ws lotID remaining of
              (ss', rest) \<Rightarrow> (s # ss', rest))
      else
        let matchQty = (if ls_qty s > remaining then remaining else ls_qty s);
            disallowedLoss = matchQty * ls_lossPerShare s;
            part = (matchQty < remaining);
            (headID, tailID) = splitLot_ids lots lotID;
            lots1 = (if part then splitLot lots lotID matchQty else lots);
            adjustedLotID = (if part then headID else lotID);
            lotID' = (if part then tailID else lotID);
            lots2 = adjustLotBasis lots1 adjustedLotID (ls_lossPerShare s);
            ws' = ws @ [\<lparr>w_Asset = ast, w_SellDate = ls_date s, w_RebuyDate = buyDate,
                         w_DisallowedLoss = disallowedLoss, w_AdjustedLotID = adjustedLotID\<rparr>]
        in (case wash_buy_loop ast buyDate ss lots2 ws' lotID' (remaining - matchQty) of
              (ss', rest) \<Rightarrow> (s\<lparr>ls_qty := ls_qty s - matchQty\<rparr> # ss', rest)))"

definition put_or_delete :: "asset \<Rightarrow> 'r list \<Rightarrow> (asset, 'r list) gomap \<Rightarrow> (asset, 'r list) gomap" where
  "put_or_delete ast rs m = (if rs = [] then mdel ast m else mput ast rs m)"

definition checkWashSaleOnBuy ::
    "account \<Rightarrow> asset \<Rightarrow> gotime \<Rightarrow> f64 \<Rightarrow> string \<Rightarrow> account \<times> string \<times> f64" where
  "checkWashSaleOnBuy a ast buyDate buyQty lotID =
     (let sales = mget [] (a_recentLossSales a) ast in
      if sales = [] then (a, lotID, buyQty)
      else case wash_buy_loop ast buyDate sales (mget [] (a_taxLots a) ast) (a_washSales a) lotID buyQty of
        (sales', lots', ws', lotID', remaining) \<Rightarrow>
          (a\<lparr>a_taxLots := AList.map_entry ast (\<lambda>_. lots') (a_taxLots a),
             a_washSales := ws',
             a_recentLossSales := put_or_delete ast (filter (\<lambda>s. ls_qty s > 0) sales') (a_recentLossSales a)\<rparr>,
           lotID', remaining))"

section \<open>A loss sale against recent buys\<close>

fun wash_sell_loop ::
    "asset \<Rightarrow> gotime \<Rightarrow> f64 \<Rightarrow> gotime \<Rightarrow> recentBuy list \<Rightarrow> taxlot list \<Rightarrow> washSaleRecord list \<Rightarrow> f64 \<Rightarrow> f64
     \<Rightarrow> recentBuy list \<times> taxlot list \<times> washSaleRecord list \<times> f64" where
  "wash_sell_loop ast sellDate loss consumedDate [] lots ws remaining disallowed =
     ([], lots, ws, disallowed)"
| "wash_sell_loop ast sellDate loss consumedDate (b # bs) lots ws remaining disallowed =
     (if \<not> remaining > 0 then (b # bs, lots, ws, disallowed)
      else if outside_window (days_between sellDate (rb_date b))
        \<or> \<not> rb_date b > consumedDate \<or> \<not> lotExists lots (rb_lotID b)
      then (case wash_sell_loop ast sellDate loss consumedDate bs lots ws remaining disallowed of
              (bs', rest) \<Rightarrow> (b # bs', rest))
      else
        let matchQty = (if rb_qty b > remaining then remaining else rb_qty b);
            disallowedLoss = matchQty * loss;
            part = (matchQty < rb_qty b);
            (headID, tailID) = splitLot_ids lots (rb_lotID b);
            lots1 = (if part then splitLot lots (rb_lotID b) matchQty else lots);
            adjustedLotID = (if part then headID else rb_lotID b);
            b' = (if part then b\<lparr>rb_lotID := tailID\<rparr> else b);
            lots2 = adjustLotBasis lots1 adjustedLotID loss;
            ws' = ws @ [\<lparr>w_Asset = ast, w_SellDate = sellDate, w_RebuyDate = rb_date b,
                         w_DisallowedLoss = disallowedLoss, w_AdjustedLotID = adjustedLotID\<rparr>]
        in (case wash_sell_loop ast sellDate loss consumedDate bs lots2 ws'
                   (remaining - matchQty) (disallowed + matchQty) of
              (bs', rest) \<Rightarrow> (b'\<lparr>rb_qty := rb_qty b - matchQty\<rparr> # bs', rest)))"

definition checkWashSaleOnSell ::
    "account \<Rightarrow> asset \<Rightarrow> gotime \<Rightarrow> f64 \<Rightarrow> f64 \<Rightarrow> gotime \<Rightarrow> account \<times> f64" where
  "checkWashSaleOnSell a ast sellDate sellQty lossPerShare consumedLotDate =
     (let buys = mget [] (a_recentBuys a) ast in
      if buys = [] then (a, 0)
      else case wash_sell_loop ast sellDate lossPerShare consumedLotDate buys
                  (mget [] (a_taxLots a) ast) (a_washSales a) sellQty 0 of
        (buys', lots', ws', disallowedQty) \<Rightarrow>
          (a\<lparr>a_taxLots := AList.map_entry ast (\<lambda>_. lots') (a_taxLots a),
             a_washSales := ws',
             a_recentBuys := put_or_delete ast (filter (\<lambda>b. rb_qty b > 0) buys') (a_recentBuys a)\<rparr>,
           disallowedQty))"

section \<open>Lemmas\<close>

lemma adjustLotBasis_sum [simp]: "lots_sum (adjustLotBasis ls lotID adj) = lots_sum ls"
  by (induction ls) auto

lemma adjustLotBasis_fin: "lots_fin ls \<Longrightarrow> fin adj \<Longrightarrow> lots_fin (adjustLotBasis ls lotID adj)"
  by (induction ls) (auto simp: lot_fin_def)

lemma adjustLotBasis_dates [simp]: "map lot_Date (adjustLotBasis ls lotID adj) = map lot_Date ls"
  by (induction ls) auto

lemma splitLot_sum [simp]:
  "lots_fin ls \<Longrightarrow> fin q \<Longrightarrow> lots_sum (splitLot ls lotID q) = lots_sum ls"
  by (induction ls) (auto simp: lot_fin_def)

lemma splitLot_fin: "lots_fin ls \<Longrightarrow> fin q \<Longrightarrow> lots_fin (splitLot ls lotID q)"
  by (induction ls) (auto simp: lot_fin_def)

lemma splitLot_dates: "set (map lot_Date (splitLot ls lotID q)) = set (map lot_Date ls)"
  by (induction ls) auto

lemma splitLot_date_sorted: "date_sorted ls \<Longrightarrow> date_sorted (splitLot ls lotID q)"
proof (induction ls)
  case (Cons l ls)
  then show ?case using splitLot_dates [of ls lotID q] by (auto simp: image_iff)
qed simp

definition loss_fin :: "recentLossSale \<Rightarrow> bool" where
  "loss_fin s \<longleftrightarrow> fin (ls_qty s) \<and> fin (ls_lossPerShare s)"

lemma wash_buy_loop_lots:
  assumes "wash_buy_loop ast bd ss lots ws lid rem = (ss', lots', ws', lid', rem')"
    and "list_all loss_fin ss" "lots_fin lots" "fin rem"
  shows "lots_fin lots' \<and> lots_sum lots' = lots_sum lots \<and> list_all loss_fin ss' \<and> fin rem'
       \<and> (date_sorted lots \<longrightarrow> date_sorted lots')"
  using assms
proof (induction ast bd ss lots ws lid rem arbitrary: ss' rule: wash_buy_loop.induct)
  case (2 ast bd s ss lots ws lid rem)
  have s: "fin (ls_qty s)" "fin (ls_lossPerShare s)" and ss: "list_all loss_fin ss"
    using "2.prems"(2) by (simp_all add: loss_fin_def [of s])
  show ?case
  proof (cases "rem > 0 \<and> \<not> outside_window (days_between bd (ls_date s))")
    case False
    then show ?thesis using 2 ss by (auto split: if_splits prod.splits)
  next
    case True
    define mq where "mq = (if ls_qty s > rem then rem else ls_qty s)"
    have mq: "fin mq" using s "2.prems"(4) by (simp add: mq_def)
    show ?thesis
      using True 2 s ss mq splitLot_fin [OF "2.prems"(3) mq, of lid] splitLot_date_sorted [of lots lid mq]
      by (auto simp: Let_def loss_fin_def [of s] loss_fin_def [of "_\<lparr>ls_qty := _\<rparr>"] adjustLotBasis_fin simp flip: mq_def
               split: prod.splits if_splits)
  qed
qed auto

definition buy_fin :: "recentBuy \<Rightarrow> bool" where
  "buy_fin b \<longleftrightarrow> fin (rb_qty b)"

lemma wash_sell_loop_lots:
  assumes "wash_sell_loop ast sd loss cd bs lots ws rem dis = (bs', lots', ws', dis')"
    and "list_all buy_fin bs" "lots_fin lots" "fin rem" "fin dis" "fin loss"
  shows "lots_fin lots' \<and> lots_sum lots' = lots_sum lots \<and> list_all buy_fin bs' \<and> fin dis'
       \<and> (date_sorted lots \<longrightarrow> date_sorted lots')"
  using assms
proof (induction ast sd loss cd bs lots ws rem dis arbitrary: bs' rule: wash_sell_loop.induct)
  case (2 ast sd loss cd b bs lots ws rem dis)
  have b: "fin (rb_qty b)" and bs: "list_all buy_fin bs"
    using "2.prems"(2) by (simp_all add: buy_fin_def [of b])
  show ?case
  proof (cases "rem > 0 \<and> \<not> (outside_window (days_between sd (rb_date b))
        \<or> \<not> rb_date b > cd \<or> \<not> lotExists lots (rb_lotID b))")
    case False
    then show ?thesis using 2 bs by (auto split: if_splits prod.splits)
  next
    case True
    define mq where "mq = (if rb_qty b > rem then rem else rb_qty b)"
    have mq: "fin mq" using b "2.prems"(4) by (simp add: mq_def)
    show ?thesis
      using True 2 b bs mq splitLot_fin [OF "2.prems"(3) mq, of "rb_lotID b"]
        splitLot_date_sorted [of lots "rb_lotID b" mq]
      by (auto simp: Let_def buy_fin_def [of b] buy_fin_def [of "_\<lparr>rb_qty := _\<rparr>"] adjustLotBasis_fin
               simp flip: mq_def split: prod.splits if_splits)
  qed
qed auto

text \<open>What the tracking lists of the account satisfy.\<close>

definition tracking_fin :: "account \<Rightarrow> bool" where
  "tracking_fin a \<longleftrightarrow> (\<forall>ast. list_all loss_fin (mget [] (a_recentLossSales a) ast))
                  \<and> (\<forall>ast. list_all buy_fin (mget [] (a_recentBuys a) ast))"

lemma mget_map_entry:
  "mget [] (AList.map_entry k (\<lambda>_. v) m) k' = (if k' = k \<and> mhas m k then v else mget [] m k')"
  by (auto simp: mget_def mhas_def map_of_map_entry split: option.splits)

lemma mget_put_or_delete [simp]:
  "mget [] (put_or_delete k rs m) k' = (if k' = k then rs else mget [] m k')"
  by (simp add: put_or_delete_def)

lemma prune_window_keys: "set (mkeys (prune_window date c m)) \<subseteq> set (mkeys m)"
  by (force simp: prune_window_def)

lemma mget_prune_window:
  assumes "mwf m"
  shows "mget [] (prune_window date c m) k = filter (\<lambda>r. date r > c \<or> date r = c) (mget [] m k)"
  using assms
proof (induction m)
  case (Cons p m)
  obtain k0 rs where p: "p = (k0, rs)" by force
  have step: "prune_window date c (p # m)
      = (let rs' = filter (\<lambda>r. date r > c \<or> date r = c) rs in
         if rs' = [] then prune_window date c m else (k0, rs') # prune_window date c m)"
    by (simp add: prune_window_def p Let_def)
  have "\<not> mhas (prune_window date c m) k0"
    using Cons.prems prune_window_keys [of date c m] by (auto simp: mhas_iff_key p)
  then show ?case
    using Cons by (auto simp: step [unfolded p] p Let_def mget_not_has)
qed (simp add: prune_window_def)

lemma mwf_prune_window: "mwf m \<Longrightarrow> mwf (prune_window date c m)"
  by (auto simp: prune_window_def comp_def case_prod_beta intro: distinct_map_filter)

lemma mwf_put_or_delete: "mwf m \<Longrightarrow> mwf (put_or_delete k rs m)"
  by (simp add: put_or_delete_def)

section \<open>Disallowed losses move into the basis\<close>

definition disallowed_total :: "washSaleRecord list \<Rightarrow> real" where
  "disallowed_total ws = (\<Sum>w\<leftarrow>ws. fval (w_DisallowedLoss w))"

lemma disallowed_total_append [simp]:
  "disallowed_total (xs @ ys) = disallowed_total xs + disallowed_total ys"
  "disallowed_total [] = 0" "disallowed_total (w # ws) = fval (w_DisallowedLoss w) + disallowed_total ws"
  by (simp_all add: disallowed_total_def)

text \<open>No lot identifier of the list starts with \<open>p\<close>.\<close>

definition fresh_prefix :: "string \<Rightarrow> taxlot list \<Rightarrow> bool" where
  "fresh_prefix p ls \<longleftrightarrow> list_all (\<lambda>l. take (length p) (lot_ID l) \<noteq> p) ls"

lemma fresh_prefix_simps [simp]:
  "fresh_prefix p []" "fresh_prefix p (l # ls) \<longleftrightarrow> take (length p) (lot_ID l) \<noteq> p \<and> fresh_prefix p ls"
  "fresh_prefix p (xs @ ys) \<longleftrightarrow> fresh_prefix p xs \<and> fresh_prefix p ys"
  by (simp_all add: fresh_prefix_def)

lemma fresh_prefix_longer: "fresh_prefix p ls \<Longrightarrow> fresh_prefix (p @ s) ls"
proof -
  have "take (length p) i = p" if "take (length (p @ s)) i = p @ s" for i :: string
  proof -
    have "take (length p) i = take (length p) (take (length (p @ s)) i)" by simp
    also have "\<dots> = p" unfolding that by simp
    finally show ?thesis .
  qed
  then show "fresh_prefix p ls \<Longrightarrow> fresh_prefix (p @ s) ls"
    unfolding fresh_prefix_def list_all_iff by blast
qed

lemma lot_fin_simps [simp]:
  "lot_fin \<lparr>lot_ID = i, lot_Date = d, lot_Qty = q, lot_Price = p\<rparr> \<longleftrightarrow> fin q \<and> fin p"
  "lot_fin (l\<lparr>lot_Qty := q\<rparr>) \<longleftrightarrow> fin q \<and> fin (lot_Price l)"
  "lot_fin (l\<lparr>lot_Price := p\<rparr>) \<longleftrightarrow> fin (lot_Qty l) \<and> fin p"
  by (auto simp: lot_fin_def)

lemma fresh_prefix_ID: "fresh_prefix p ls \<Longrightarrow> l \<in> set ls \<Longrightarrow> lot_ID l \<noteq> p"
  by (auto simp: fresh_prefix_def list_all_iff)

lemma adjustLotBasis_skip:
  "fresh_prefix p pre \<Longrightarrow> adjustLotBasis (pre @ ls) p adj = pre @ adjustLotBasis ls p adj"
  by (induction pre) auto

lemma splitLot_skip:
  "fresh_prefix p pre \<Longrightarrow> splitLot (pre @ ls) p q = pre @ splitLot ls p q"
  by (induction pre) auto

lemma lotExists_append [simp]: "lotExists (xs @ ys) p \<longleftrightarrow> lotExists xs p \<or> lotExists ys p"
  "lotExists (x # xs) p \<longleftrightarrow> lot_ID x = p \<or> lotExists xs p" "lotExists [] p = False"
  by (auto simp: lotExists_def)

definition loss_ok :: "recentLossSale \<Rightarrow> bool" where
  "loss_ok s \<longleftrightarrow> fin (ls_qty s) \<and> 0 < fval (ls_qty s) \<and> fin (ls_lossPerShare s)"

lemma wash_buy_loop_cost:
  assumes "wash_buy_loop ast bd ss (pre @ [x]) ws lid rem = (ss', lots', ws', lid', rem')"
    and "list_all loss_ok ss" "lots_fin (pre @ [x])" "fresh_prefix lid pre"
    and "lot_ID x = lid" "lot_Qty x = rem"
  shows "\<exists>new. ws' = ws @ new \<and> lots_cost lots' = lots_cost (pre @ [x]) + disallowed_total new
     \<and> (\<Sum>s\<leftarrow>ss. fval (ls_qty s)) - (\<Sum>s\<leftarrow>ss'. fval (ls_qty s)) = fval rem - fval rem'"
  using assms
proof (induction ss arbitrary: pre x ws lid rem ss')
  case Nil
  then show ?case by auto
next
  case (Cons s ss)
  have s: "fin (ls_qty s)" "0 < fval (ls_qty s)" "fin (ls_lossPerShare s)" and ss: "list_all loss_ok ss"
    using Cons.prems(2) by (simp_all add: loss_ok_def [of s])
  have x: "fin rem" "fin (lot_Price x)" using Cons.prems(3,6) by (auto simp: lot_fin_def)
  consider "\<not> rem > 0" | "rem > 0" "outside_window (days_between bd (ls_date s))"
    | "rem > 0" "\<not> outside_window (days_between bd (ls_date s))" "ls_qty s < rem"
    | "rem > 0" "\<not> outside_window (days_between bd (ls_date s))" "\<not> ls_qty s < rem" by blast
  then show ?case
  proof cases
    case 1
    then show ?thesis using Cons.prems(1) by auto
  next
    case 2
    then obtain ss1 where loop: "wash_buy_loop ast bd ss (pre @ [x]) ws lid rem = (ss1, lots', ws', lid', rem')"
      "ss' = s # ss1" using Cons.prems(1) by (auto split: prod.splits)
    show ?thesis using Cons.IH [OF loop(1) ss Cons.prems(3-6)] loop(2) by auto
  next
    case 3
    let ?h = "x\<lparr>lot_Qty := ls_qty s, lot_Price := lot_Price x + ls_lossPerShare s\<rparr>"
    let ?t = "\<lparr>lot_ID = lid @ ''-split'', lot_Date = lot_Date x, lot_Qty = rem - ls_qty s, lot_Price = lot_Price x\<rparr>"
    let ?w = "\<lparr>w_Asset = ast, w_SellDate = ls_date s, w_RebuyDate = bd,
               w_DisallowedLoss = ls_qty s * ls_lossPerShare s, w_AdjustedLotID = lid\<rparr>"
    have nlt: "\<not> rem < ls_qty s" using 3 x s by (simp add: fin_less)
    obtain ss1 where loop: "wash_buy_loop ast bd ss ((pre @ [?h]) @ [?t]) (ws @ [?w]) (lid @ ''-split'') (rem - ls_qty s)
        = (ss1, lots', ws', lid', rem')" "ss' = s\<lparr>ls_qty := ls_qty s - ls_qty s\<rparr> # ss1"
      using Cons.prems(1,4,5,6) 3 nlt
      by (auto simp: Let_def splitLot_ids_def splitLot_skip adjustLotBasis_skip split: prod.splits)
    have "lots_fin ((pre @ [?h]) @ [?t])" "fresh_prefix (lid @ ''-split'') (pre @ [?h])"
      using Cons.prems(3,4,5) s x by (simp_all add: fresh_prefix_longer)
    from Cons.IH [OF loop(1) ss this] obtain new where new: "ws' = (ws @ [?w]) @ new"
      "lots_cost lots' = lots_cost ((pre @ [?h]) @ [?t]) + disallowed_total new"
      "(\<Sum>s\<leftarrow>ss. fval (ls_qty s)) - (\<Sum>s\<leftarrow>ss1. fval (ls_qty s)) = fval (rem - ls_qty s) - fval rem'"
      by auto
    show ?thesis using new loop(2) Cons.prems(6) s x
      by (intro exI [of _ "?w # new"]) (simp add: algebra_simps)
  next
    case 4
    let ?h = "x\<lparr>lot_Price := lot_Price x + ls_lossPerShare s\<rparr>"
    let ?w = "\<lparr>w_Asset = ast, w_SellDate = ls_date s, w_RebuyDate = bd,
               w_DisallowedLoss = rem * ls_lossPerShare s, w_AdjustedLotID = lid\<rparr>"
    have mq: "(if ls_qty s > rem then rem else ls_qty s) = rem" using 4 x s by (auto simp: fin_less fin_eq_iff)
    have z: "rem - rem = 0" using x by (auto simp: fin_iff)
    have stop: "wash_buy_loop ast bd ss l w i 0 = (ss, l, w, i, 0)" for l w i by (cases ss) auto
    have "ss' = s\<lparr>ls_qty := ls_qty s - rem\<rparr> # ss" "lots' = pre @ [?h]" "ws' = ws @ [?w]" "rem' = 0"
      using Cons.prems(1) [unfolded wash_buy_loop.simps mq Let_def z] Cons.prems(4,5) 4 x stop [unfolded zero_f64_Fin]
      by (auto simp: adjustLotBasis_skip fin_less split: prod.splits)
    then show ?thesis using Cons.prems(6) s x
      by (intro exI [of _ "[?w]"]) (simp add: algebra_simps)
  qed
qed

lemma checkWashSaleOnBuy_cost:
  assumes chk: "checkWashSaleOnBuy a ast d q lid = (b, lid', r)"
    and lots: "mget [] (a_taxLots a) ast = pre @ [x]" "lot_ID x = lid" "lot_Qty x = q" "fresh_prefix lid pre"
    and fin: "lots_fin (pre @ [x])" "list_all loss_ok (mget [] (a_recentLossSales a) ast)"
  shows "\<exists>new. a_washSales b = a_washSales a @ new
     \<and> lots_cost (mget [] (a_taxLots b) ast) = lots_cost (mget [] (a_taxLots a) ast) + disallowed_total new"
proof (cases "mget [] (a_recentLossSales a) ast = []")
  case True
  with chk show ?thesis by (auto simp: checkWashSaleOnBuy_def intro: exI [of _ "[]"])
next
  case False
  obtain ss ls ws l rem where loop:
    "wash_buy_loop ast d (mget [] (a_recentLossSales a) ast) (pre @ [x]) (a_washSales a) lid q = (ss, ls, ws, l, rem)"
    by (metis prod_cases5)
  have has: "mhas (a_taxLots a) ast" using lots(1) mget_not_has [of "a_taxLots a" ast "[]"] by auto
  have "a_washSales b = ws" "mget [] (a_taxLots b) ast = ls"
    using chk False loop lots(1) has by (auto simp: checkWashSaleOnBuy_def Let_def mget_map_entry)
  then show ?thesis
    using wash_buy_loop_cost [OF loop fin(2,1) lots(4,2,3)] lots(1) by auto
qed

end
