(* ===== verification/Account.thy ===== *)
theory Account
  imports WashSale
begin

text \<open>
  \<open>Account.Record\<close>, \<open>SyncTransactions\<close> and \<open>ApplySplit\<close> of portfolio/account.go: how every
  transaction changes cash, holdings, tax lots, short lots, excursions, trade details and the
  wash-sale tracking. The central result is that lots and holdings always reconcile.
\<close>

section \<open>Record\<close>

definition isFiniteTransaction :: "transaction \<Rightarrow> bool" where
  "isFiniteTransaction txn =
     (if isNaN (t_Qty txn) \<or> isInf (t_Qty txn) then False
      else if isNaN (t_Price txn) \<or> isInf (t_Price txn) then False
      else if isNaN (t_Amount txn) \<or> isInf (t_Amount txn) then False
      else True)"

text \<open>The zero lot selection of a transaction means the account default.\<close>

definition lot_method :: "account \<Rightarrow> transaction \<Rightarrow> LotSelection" where
  "lot_method a txn =
     (if t_LotSelection txn = LotFIFO \<and> a_lotSelection a \<noteq> LotFIFO then a_lotSelection a
      else t_LotSelection txn)"

definition consumeLots :: "account \<Rightarrow> asset \<Rightarrow> f64 \<Rightarrow> LotSelection \<Rightarrow> account" where
  "consumeLots a ast qty method =
     a\<lparr>a_taxLots := mput ast (consumeLotList qty method (mget [] (a_taxLots a) ast)) (a_taxLots a)\<rparr>"

definition consumeShortLots :: "account \<Rightarrow> asset \<Rightarrow> f64 \<Rightarrow> LotSelection \<Rightarrow> account" where
  "consumeShortLots a ast qty method =
     a\<lparr>a_shortLots := mput ast (consumeLotList qty method (mget [] (a_shortLots a) ast)) (a_shortLots a)\<rparr>"

definition hold_days :: "gotime \<Rightarrow> gotime \<Rightarrow> f64" where
  "hold_days exit entry = duration_hours (time_sub exit entry) / 24"

definition short_trade_details :: "transaction \<Rightarrow> excursionRecord \<Rightarrow> (taxlot \<times> f64) list \<Rightarrow> tradeDetail list" where
  "short_trade_details txn excursion matches =
     (let mfe = (ex_EntryPrice excursion - ex_LowPrice excursion) / ex_EntryPrice excursion;
          mae = (ex_EntryPrice excursion - ex_HighPrice excursion) / ex_EntryPrice excursion
      in map (\<lambda>(lot, matched).
           \<lparr>td_Asset = t_Asset txn, td_EntryDate = lot_Date lot, td_ExitDate = t_Date txn,
            td_EntryPrice = lot_Price lot, td_ExitPrice = t_Price txn, td_Qty = matched,
            td_PnL = (lot_Price lot - t_Price txn) * matched,
            td_HoldDays = hold_days (t_Date txn) (lot_Date lot),
            td_MFE = mfe, td_MAE = mae, td_Direction = TradeShort\<rparr>) matches)"

definition long_trade_details :: "transaction \<Rightarrow> excursionRecord \<Rightarrow> (taxlot \<times> f64) list \<Rightarrow> tradeDetail list" where
  "long_trade_details txn excursion matches =
     (let mfe = (ex_HighPrice excursion - ex_EntryPrice excursion) / ex_EntryPrice excursion;
          mae = (ex_LowPrice excursion - ex_EntryPrice excursion) / ex_EntryPrice excursion
      in map (\<lambda>(lot, matched).
           \<lparr>td_Asset = t_Asset txn, td_EntryDate = lot_Date lot, td_ExitDate = t_Date txn,
            td_EntryPrice = lot_Price lot, td_ExitPrice = t_Price txn, td_Qty = matched,
            td_PnL = (t_Price txn - lot_Price lot) * matched,
            td_HoldDays = hold_days (t_Date txn) (lot_Date lot),
            td_MFE = mfe, td_MAE = mae, td_Direction = TradeLong\<rparr>) matches)"

text \<open>An excursion record is opened with the fill price unless one exists.\<close>

definition open_excursion :: "transaction \<Rightarrow> account \<Rightarrow> account" where
  "open_excursion txn a =
     (if mhas (a_excursions a) (t_Asset txn) then a
      else a\<lparr>a_excursions := mput (t_Asset txn)
               \<lparr>ex_EntryPrice = t_Price txn, ex_HighPrice = t_Price txn, ex_LowPrice = t_Price txn\<rparr>
               (a_excursions a)\<rparr>)"

definition delete_excursion :: "asset \<Rightarrow> account \<Rightarrow> account" where
  "delete_excursion ast a = a\<lparr>a_excursions := mdel ast (a_excursions a)\<rparr>"

definition add_loss_sale :: "asset \<Rightarrow> gotime \<Rightarrow> f64 \<Rightarrow> f64 \<Rightarrow> account \<Rightarrow> account" where
  "add_loss_sale ast date lossPerShare qty a =
     a\<lparr>a_recentLossSales := mput ast (mget [] (a_recentLossSales a) ast
          @ [\<lparr>ls_date = date, ls_lossPerShare = lossPerShare, ls_qty = qty\<rparr>]) (a_recentLossSales a)\<rparr>"

text \<open>Phase 1 of a buy: cover \<open>coverQty\<close> shares of the short lots.\<close>

definition buy_cover :: "transaction \<Rightarrow> f64 \<Rightarrow> account \<Rightarrow> account" where
  "buy_cover txn coverQty a =
     (let ast = t_Asset txn;
          method = lot_method a txn;
          shortLots = mget [] (a_shortLots a) ast;
          a1 = (case map_of (a_excursions a) ast of None \<Rightarrow> a
                | Some excursion \<Rightarrow>
                    a\<lparr>a_tradeDetails := a_tradeDetails a @ short_trade_details txn excursion
                        (matched_lots coverQty (lotsInConsumptionOrder shortLots method))\<rparr>);
          avgShortEntry = avgShortEntryPrice shortLots coverQty method;
          a2 = consumeShortLots a1 ast coverQty method;
          lossPerShare = t_Price txn - avgShortEntry;
          a3 = (if lossPerShare > 0 then add_loss_sale ast (t_Date txn) lossPerShare coverQty a2 else a2)
      in if mget [] (a_shortLots a3) ast = [] then delete_excursion ast a3 else a3)"

definition new_lot_id :: "string \<Rightarrow> gotime \<Rightarrow> nat \<Rightarrow> string" where
  "new_lot_id prefix date n = prefix @ ''-'' @ show_int date @ ''-'' @ show_nat n"

text \<open>Phase 2 of a buy: a long lot for the remainder, matched against recent loss sales.\<close>

definition buy_open :: "transaction \<Rightarrow> f64 \<Rightarrow> account \<Rightarrow> account" where
  "buy_open txn longQty a =
     (let ast = t_Asset txn;
          lots = mget [] (a_taxLots a) ast;
          lotID = new_lot_id ''lot'' (t_Date txn) (length lots);
          newLot = \<lparr>lot_ID = lotID, lot_Date = t_Date txn, lot_Qty = longQty, lot_Price = t_Price txn\<rparr>;
          a1 = a\<lparr>a_taxLots := mput ast (lots @ [newLot]) (a_taxLots a)\<rparr>;
          (a2, remainingLotID, remainingQty) = checkWashSaleOnBuy a1 ast (t_Date txn) longQty lotID;
          a3 = (if remainingQty > 0
                then a2\<lparr>a_recentBuys := mput ast (mget [] (a_recentBuys a2) ast
                       @ [\<lparr>rb_date = t_Date txn, rb_lotID = remainingLotID, rb_qty = remainingQty\<rparr>])
                       (a_recentBuys a2)\<rparr>
                else a2)
      in open_excursion txn a3)"

text \<open>Both branches end by removing the tracking of a position that became flat.\<close>

definition flat_cleanup :: "asset \<Rightarrow> account \<Rightarrow> account" where
  "flat_cleanup ast a =
     (if feq (mget 0 (a_holdings a) ast) 0
      then a\<lparr>a_holdings := mdel ast (a_holdings a), a_taxLots := mdel ast (a_taxLots a),
             a_shortLots := mdel ast (a_shortLots a), a_excursions := mdel ast (a_excursions a)\<rparr>
      else a)"

definition record_buy :: "transaction \<Rightarrow> account \<Rightarrow> account" where
  "record_buy txn a =
     (let ast = t_Asset txn;
          a1 = a\<lparr>a_holdings := mput ast (mget 0 (a_holdings a) ast + t_Qty txn) (a_holdings a)\<rparr>;
          shortQty = lots_total (mget [] (a_shortLots a1) ast);
          coverQty = (if t_Qty txn > shortQty then shortQty else t_Qty txn);
          a2 = (if coverQty > 0 then buy_cover txn coverQty a1 else a1);
          longQty = t_Qty txn - coverQty;
          a3 = (if longQty > 0 then buy_open txn longQty a2 else a2)
      in flat_cleanup ast a3)"

text \<open>Phase 1 of a sale: close \<open>closeLongQty\<close> shares of the long lots.\<close>

definition sell_close :: "transaction \<Rightarrow> f64 \<Rightarrow> account \<Rightarrow> account" where
  "sell_close txn closeLongQty a =
     (let ast = t_Asset txn;
          method = lot_method a txn;
          longLots = mget [] (a_taxLots a) ast;
          a1 = (case map_of (a_excursions a) ast of None \<Rightarrow> a
                | Some excursion \<Rightarrow>
                    a\<lparr>a_tradeDetails := a_tradeDetails a @ long_trade_details txn excursion
                        (matched_lots closeLongQty (lotsInConsumptionOrder longLots method))\<rparr>);
          consumed = computeConsumedLotInfo longLots closeLongQty method;
          a2 = consumeLots a1 ast closeLongQty method;
          lossPerShare = avgCostBasis consumed - t_Price txn
      in if lossPerShare > 0
         then (case checkWashSaleOnSell a2 ast (t_Date txn) closeLongQty lossPerShare (latestBuyDate consumed) of
                 (a3, disallowedQty) \<Rightarrow>
                   let remainingLossQty = closeLongQty - disallowedQty in
                   if remainingLossQty > 0 then add_loss_sale ast (t_Date txn) lossPerShare remainingLossQty a3
                   else a3)
         else a2)"

text \<open>Phase 2 of a sale: a short lot for the remainder.\<close>

definition sell_open :: "transaction \<Rightarrow> f64 \<Rightarrow> account \<Rightarrow> account" where
  "sell_open txn shortQty a =
     (let ast = t_Asset txn;
          lots = mget [] (a_shortLots a) ast;
          newLot = \<lparr>lot_ID = new_lot_id ''short'' (t_Date txn) (length lots), lot_Date = t_Date txn,
                    lot_Qty = shortQty, lot_Price = t_Price txn\<rparr>
      in open_excursion txn (a\<lparr>a_shortLots := mput ast (lots @ [newLot]) (a_shortLots a)\<rparr>))"

definition record_sell :: "transaction \<Rightarrow> account \<Rightarrow> account" where
  "record_sell txn a =
     (let ast = t_Asset txn;
          a1 = a\<lparr>a_holdings := mput ast (mget 0 (a_holdings a) ast - t_Qty txn) (a_holdings a)\<rparr>;
          longQty = lots_total (mget [] (a_taxLots a1) ast);
          closeLongQty = (if t_Qty txn > longQty then longQty else t_Qty txn);
          a2 = (if closeLongQty > 0 then sell_close txn closeLongQty a1 else a1);
          a3 = (if closeLongQty > 0 \<and> mget [] (a_taxLots a2) ast = [] then delete_excursion ast a2 else a2);
          shortQty = t_Qty txn - closeLongQty;
          a4 = (if shortQty > 0 then sell_open txn shortQty a3 else a3)
      in flat_cleanup ast a4)"

definition Record :: "transaction \<Rightarrow> account \<Rightarrow> account" where
  "Record txn0 a =
     (if \<not> isFiniteTransaction txn0 then a
      else
        let txn = (if t_Type txn0 = DividendTransaction
                   then txn0\<lparr>t_Qualified := isDividendQualified (mget [] (a_taxLots a) (t_Asset txn0)) (t_Date txn0)\<rparr>
                   else txn0);
            a1 = pruneWashSaleTracking (t_Date txn) a;
            a2 = a1\<lparr>a_transactions := a_transactions a1 @ [txn],
                    a_seenTransactions := (if t_ID txn \<noteq> [] then List.insert (t_ID txn) (a_seenTransactions a1)
                                           else a_seenTransactions a1),
                    a_cash := a_cash a1 + t_Amount txn\<rparr>
        in case t_Type txn of
             BuyTransaction \<Rightarrow> record_buy txn a2
           | SellTransaction \<Rightarrow> record_sell txn a2
           | _ \<Rightarrow> a2)"

section \<open>Splits and broker synchronisation\<close>

definition split_lot :: "f64 \<Rightarrow> taxlot \<Rightarrow> taxlot" where
  "split_lot f l = l\<lparr>lot_Qty := lot_Qty l * f, lot_Price := lot_Price l / f\<rparr>"

definition ApplySplit :: "asset \<Rightarrow> gotime \<Rightarrow> f64 \<Rightarrow> account \<Rightarrow> goerr + account" where
  "ApplySplit ast date splitFactor a =
     (if feq splitFactor 0 then Inl (Err ''apply split: split factor cannot be zero'')
      else
        let qty = mget 0 (a_holdings a) ast in
        if feq qty 0 then Inr a
        else
          let newQty = qty * splitFactor in
          Inr (a\<lparr>a_holdings := mput ast newQty (a_holdings a),
                 a_taxLots := AList.map_entry ast (map (split_lot splitFactor)) (a_taxLots a),
                 a_shortLots := AList.map_entry ast (map (split_lot splitFactor)) (a_shortLots a),
                 a_excursions := AList.map_entry ast (\<lambda>ex.
                    \<lparr>ex_EntryPrice = ex_EntryPrice ex / splitFactor,
                     ex_HighPrice = ex_HighPrice ex / splitFactor,
                     ex_LowPrice = ex_LowPrice ex / splitFactor\<rparr>) (a_excursions a),
                 a_transactions := a_transactions a @
                   [transaction_zero\<lparr>t_Date := date, t_Asset := ast, t_Type := SplitTransaction,
                      t_Qty := newQty, t_Price := splitFactor, t_Amount := 0,
                      t_Justification := JSplit splitFactor qty newQty\<rparr>]\<rparr>))"

definition broker_to_txn :: "brokerTransaction \<Rightarrow> transaction" where
  "broker_to_txn bt =
     transaction_zero\<lparr>t_ID := bt_ID bt, t_Date := bt_Date bt, t_Asset := bt_Asset bt, t_Type := bt_Type bt,
       t_Qty := bt_Qty bt, t_Price := bt_Price bt, t_Amount := bt_Amount bt,
       t_Justification := bt_Justification bt\<rparr>"

fun SyncTransactions :: "brokerTransaction list \<Rightarrow> account \<Rightarrow> goerr option \<times> account" where
  "SyncTransactions [] a = (None, a)"
| "SyncTransactions (bt # bts) a =
     (if bt_ID bt \<in> set (a_seenTransactions a) then SyncTransactions bts a
      else if bt_Type bt = SplitTransaction
      then (case ApplySplit (bt_Asset bt) (bt_Date bt) (bt_Price bt) a of
              Inl e \<Rightarrow> (Some e, a)
            | Inr a' \<Rightarrow> SyncTransactions bts
                (a'\<lparr>a_seenTransactions := List.insert (bt_ID bt) (a_seenTransactions a')\<rparr>))
      else SyncTransactions bts (Record (broker_to_txn bt) a))"

section \<open>The position invariant\<close>

text \<open>
  For every asset the holding equals the long lots minus the short lots, at most one side is
  open, and everything is finite.
\<close>

abbreviation long_lots :: "account \<Rightarrow> asset \<Rightarrow> taxlot list" where
  "long_lots a ast \<equiv> mget [] (a_taxLots a) ast"

abbreviation short_lots :: "account \<Rightarrow> asset \<Rightarrow> taxlot list" where
  "short_lots a ast \<equiv> mget [] (a_shortLots a) ast"

definition lots_match :: "f64 \<Rightarrow> taxlot list \<Rightarrow> taxlot list \<Rightarrow> bool" where
  "lots_match q L S \<longleftrightarrow> fin q \<and> lots_fin L \<and> lots_ok S \<and> 0 \<le> lots_sum L
     \<and> (lots_sum L = 0 \<or> S = []) \<and> fval q = lots_sum L - lots_sum S"

definition position_inv :: "account \<Rightarrow> asset \<Rightarrow> bool" where
  "position_inv a ast = lots_match (mget 0 (a_holdings a) ast) (long_lots a ast) (short_lots a ast)"

definition tracking_ok :: "account \<Rightarrow> bool" where
  "tracking_ok a \<longleftrightarrow> tracking_fin a \<and> mwf (a_recentLossSales a) \<and> mwf (a_recentBuys a)"

definition acct_inv :: "account \<Rightarrow> bool" where
  "acct_inv a \<longleftrightarrow> fin (a_cash a) \<and> (\<forall>ast. position_inv a ast) \<and> tracking_ok a"

text \<open>
  The quantities trades may carry: non-negative, or, for the sale that closes a delisted
  position, exactly the position held (negative for a short).
\<close>

definition txn_ok :: "account \<Rightarrow> transaction \<Rightarrow> bool" where
  "txn_ok a txn \<longleftrightarrow>
     (t_Type txn = BuyTransaction \<longrightarrow> 0 \<le> fval (t_Qty txn))
   \<and> (t_Type txn = SellTransaction \<longrightarrow> 0 \<le> fval (t_Qty txn) \<or> t_Qty txn = mget 0 (a_holdings a) (t_Asset txn))"

lemma isFiniteTransaction_iff:
  "isFiniteTransaction txn \<longleftrightarrow> fin (t_Qty txn) \<and> fin (t_Price txn) \<and> fin (t_Amount txn)"
  by (auto simp: isFiniteTransaction_def fin_iff_not)

lemma lots_match_nil_long: "lots_match q L S \<Longrightarrow> 0 < lots_sum S \<Longrightarrow> lots_sum L = 0"
  by (auto simp: lots_match_def)

lemma acct_inv_new [simp]: "acct_inv account_new"
  by (simp add: acct_inv_def account_new_def position_inv_def lots_match_def tracking_ok_def tracking_fin_def)

subsection \<open>Effects of the phases\<close>

lemma open_excursion_frame [simp]:
  "a_holdings (open_excursion txn a) = a_holdings a" "a_taxLots (open_excursion txn a) = a_taxLots a"
  "a_shortLots (open_excursion txn a) = a_shortLots a" "a_cash (open_excursion txn a) = a_cash a"
  "a_recentLossSales (open_excursion txn a) = a_recentLossSales a"
  "a_recentBuys (open_excursion txn a) = a_recentBuys a"
  by (simp_all add: open_excursion_def)

lemma delete_excursion_frame [simp]:
  "a_holdings (delete_excursion k a) = a_holdings a" "a_taxLots (delete_excursion k a) = a_taxLots a"
  "a_shortLots (delete_excursion k a) = a_shortLots a" "a_cash (delete_excursion k a) = a_cash a"
  "a_recentLossSales (delete_excursion k a) = a_recentLossSales a"
  "a_recentBuys (delete_excursion k a) = a_recentBuys a"
  by (simp_all add: delete_excursion_def)

lemma add_loss_sale_frame [simp]:
  "a_holdings (add_loss_sale k d l q a) = a_holdings a" "a_taxLots (add_loss_sale k d l q a) = a_taxLots a"
  "a_shortLots (add_loss_sale k d l q a) = a_shortLots a" "a_cash (add_loss_sale k d l q a) = a_cash a"
  "a_recentBuys (add_loss_sale k d l q a) = a_recentBuys a"
  by (simp_all add: add_loss_sale_def)

lemma tracking_ok_cong:
  "a_recentLossSales a = a_recentLossSales b \<Longrightarrow> a_recentBuys a = a_recentBuys b
   \<Longrightarrow> tracking_ok a \<longleftrightarrow> tracking_ok b"
  by (simp add: tracking_ok_def tracking_fin_def)

lemma tracking_ok_add_loss_sale:
  "tracking_ok a \<Longrightarrow> fin l \<Longrightarrow> fin q \<Longrightarrow> tracking_ok (add_loss_sale k d l q a)"
  by (simp add: tracking_ok_def tracking_fin_def add_loss_sale_def loss_fin_def)

lemma tracking_ok_prune: "tracking_ok a \<Longrightarrow> tracking_ok (pruneWashSaleTracking d a)"
  by (auto simp: tracking_ok_def tracking_fin_def pruneWashSaleTracking_def Let_def mget_prune_window
      mwf_prune_window list_all_iff)

text \<open>Which part of the state a phase may touch: the lots of one asset, and the tracking.\<close>

definition same_but :: "asset \<Rightarrow> account \<Rightarrow> account \<Rightarrow> bool" where
  "same_but ast a b \<longleftrightarrow> a_cash b = a_cash a \<and> a_holdings b = a_holdings a
     \<and> (\<forall>x. x \<noteq> ast \<longrightarrow> long_lots b x = long_lots a x \<and> short_lots b x = short_lots a x)"

lemma same_but_trans: "same_but ast a b \<Longrightarrow> same_but ast b c \<Longrightarrow> same_but ast a c"
  by (simp add: same_but_def)

lemma same_but_refl [simp]: "same_but ast a a"
  by (simp add: same_but_def)

lemma checkWashSaleOnBuy_effect:
  assumes "checkWashSaleOnBuy a ast d q lid = (b, lid', r)"
    and "tracking_ok a" "lots_fin (long_lots a ast)" "fin q"
  shows "same_but ast a b" "short_lots b ast = short_lots a ast" "lots_fin (long_lots b ast)"
    "lots_sum (long_lots b ast) = lots_sum (long_lots a ast)" "tracking_ok b" "fin r"
proof -
  let ?sales = "mget [] (a_recentLossSales a) ast"
  have "same_but ast a b \<and> short_lots b ast = short_lots a ast \<and> lots_fin (long_lots b ast)
    \<and> lots_sum (long_lots b ast) = lots_sum (long_lots a ast) \<and> tracking_ok b \<and> fin r"
  proof (cases "?sales = []")
    case True
    with assms show ?thesis by (auto simp: checkWashSaleOnBuy_def)
  next
    case False
    obtain ss lots ws l' rem where loop:
      "wash_buy_loop ast d ?sales (long_lots a ast) (a_washSales a) lid q = (ss, lots, ws, l', rem)"
      by (metis prod_cases5)
    have "list_all loss_fin ?sales" using assms(2) by (simp add: tracking_ok_def tracking_fin_def)
    note eff = wash_buy_loop_lots [OF loop this assms(3,4)]
    have b: "b = a\<lparr>a_taxLots := AList.map_entry ast (\<lambda>_. lots) (a_taxLots a), a_washSales := ws,
        a_recentLossSales := put_or_delete ast (filter (\<lambda>s. ls_qty s > 0) ss) (a_recentLossSales a)\<rparr>"
      and r: "r = rem"
      using assms(1) False loop by (simp_all add: checkWashSaleOnBuy_def Let_def)
    show ?thesis
      using eff assms(2,3)
      by (auto simp: b r same_but_def mget_map_entry tracking_ok_def tracking_fin_def
          mwf_put_or_delete list_all_iff mget_not_has)
  qed
  then show "same_but ast a b" "short_lots b ast = short_lots a ast" "lots_fin (long_lots b ast)"
    "lots_sum (long_lots b ast) = lots_sum (long_lots a ast)" "tracking_ok b" "fin r" by blast+
qed

lemma checkWashSaleOnSell_effect:
  assumes "checkWashSaleOnSell a ast d q loss cd = (b, r)"
    and "tracking_ok a" "lots_fin (long_lots a ast)" "fin q" "fin loss"
  shows "same_but ast a b" "short_lots b ast = short_lots a ast" "lots_fin (long_lots b ast)"
    "lots_sum (long_lots b ast) = lots_sum (long_lots a ast)" "tracking_ok b" "fin r"
proof -
  let ?buys = "mget [] (a_recentBuys a) ast"
  have "same_but ast a b \<and> short_lots b ast = short_lots a ast \<and> lots_fin (long_lots b ast)
    \<and> lots_sum (long_lots b ast) = lots_sum (long_lots a ast) \<and> tracking_ok b \<and> fin r"
  proof (cases "?buys = []")
    case True
    with assms show ?thesis by (auto simp: checkWashSaleOnSell_def)
  next
    case False
    obtain bs lots ws dis where loop:
      "wash_sell_loop ast d loss cd ?buys (long_lots a ast) (a_washSales a) q 0 = (bs, lots, ws, dis)"
      by (metis prod_cases4)
    have buys: "list_all buy_fin ?buys" using assms(2) by (simp add: tracking_ok_def tracking_fin_def)
    have eff: "lots_fin lots" "lots_sum lots = lots_sum (long_lots a ast)" "list_all buy_fin bs" "fin dis"
      using wash_sell_loop_lots [OF loop buys assms(3,4) _ assms(5)] by simp_all
    have b: "b = a\<lparr>a_taxLots := AList.map_entry ast (\<lambda>_. lots) (a_taxLots a), a_washSales := ws,
        a_recentBuys := put_or_delete ast (filter (\<lambda>b. rb_qty b > 0) bs) (a_recentBuys a)\<rparr>"
      and r: "r = dis"
      using assms(1) False loop by (simp_all add: checkWashSaleOnSell_def Let_def)
    show ?thesis
      using eff assms(2,3)
      by (auto simp: b r same_but_def mget_map_entry tracking_ok_def tracking_fin_def
          mwf_put_or_delete list_all_iff mget_not_has)
  qed
  then show "same_but ast a b" "short_lots b ast = short_lots a ast" "lots_fin (long_lots b ast)"
    "lots_sum (long_lots b ast) = lots_sum (long_lots a ast)" "tracking_ok b" "fin r" by blast+
qed

lemma buy_cover_effect:
  fixes txn a q
  defines "ast \<equiv> t_Asset txn" and "b \<equiv> buy_cover txn q a"
  assumes "tracking_ok a" "lots_ok (short_lots a ast)" "fin q" "fin (t_Price txn)"
  shows "same_but ast a b" "long_lots b ast = long_lots a ast"
    "short_lots b ast = consumeLotList q (lot_method a txn) (short_lots a ast)" "tracking_ok b"
proof -
  have "fin (avgShortEntryPrice (short_lots a ast) q (lot_method a txn))"
    using assms lots_ok_fin avgShortEntryPrice_fin by blast
  then have "fin (t_Price txn - avgShortEntryPrice (short_lots a ast) q (lot_method a txn))"
    using assms by simp
  moreover have "tracking_ok (a\<lparr>a_shortLots := s\<rparr>)" "tracking_ok (a\<lparr>a_tradeDetails := t, a_shortLots := s\<rparr>)" for s t
    using assms(3) by (auto simp: tracking_ok_def tracking_fin_def)
  ultimately show "same_but ast a b" "long_lots b ast = long_lots a ast"
    "short_lots b ast = consumeLotList q (lot_method a txn) (short_lots a ast)" "tracking_ok b"
    using assms(5) tracking_ok_cong [OF delete_excursion_frame(5,6)]
    by (auto simp: b_def ast_def buy_cover_def Let_def consumeShortLots_def same_but_def
        tracking_ok_add_loss_sale split: option.splits)
qed

lemma buy_open_effect:
  fixes txn a q
  defines "ast \<equiv> t_Asset txn" and "b \<equiv> buy_open txn q a"
  assumes "tracking_ok a" "lots_fin (long_lots a ast)" "fin q" "fin (t_Price txn)"
  shows "same_but ast a b" "short_lots b ast = short_lots a ast" "lots_fin (long_lots b ast)"
    "lots_sum (long_lots b ast) = lots_sum (long_lots a ast) + fval q" "tracking_ok b"
proof -
  define lid where "lid = new_lot_id ''lot'' (t_Date txn) (length (long_lots a ast))"
  define a1 where "a1 = a\<lparr>a_taxLots := mput ast (long_lots a ast @
      [\<lparr>lot_ID = lid, lot_Date = t_Date txn, lot_Qty = q, lot_Price = t_Price txn\<rparr>]) (a_taxLots a)\<rparr>"
  obtain a2 l r where chk: "checkWashSaleOnBuy a1 ast (t_Date txn) q lid = (a2, l, r)"
    by (metis prod_cases3)
  have a1: "tracking_ok a1" "lots_fin (long_lots a1 ast)" "same_but ast a a1"
    "short_lots a1 ast = short_lots a ast" "lots_sum (long_lots a1 ast) = lots_sum (long_lots a ast) + fval q"
    using assms by (auto simp: a1_def tracking_ok_def tracking_fin_def lot_fin_def same_but_def)
  note eff = checkWashSaleOnBuy_effect [OF chk a1(1,2) assms(5)]
  have b: "b = open_excursion txn (if r > 0
      then a2\<lparr>a_recentBuys := mput ast (mget [] (a_recentBuys a2) ast
             @ [\<lparr>rb_date = t_Date txn, rb_lotID = l, rb_qty = r\<rparr>]) (a_recentBuys a2)\<rparr> else a2)"
    using chk by (simp add: b_def ast_def buy_open_def Let_def a1_def lid_def)
  show "same_but ast a b" "short_lots b ast = short_lots a ast" "lots_fin (long_lots b ast)"
    "lots_sum (long_lots b ast) = lots_sum (long_lots a ast) + fval q"
    using eff a1 by (auto simp: b same_but_def)
  have "tracking_ok b \<longleftrightarrow> tracking_ok (if r > 0
      then a2\<lparr>a_recentBuys := mput ast (mget [] (a_recentBuys a2) ast
             @ [\<lparr>rb_date = t_Date txn, rb_lotID = l, rb_qty = r\<rparr>]) (a_recentBuys a2)\<rparr> else a2)"
    unfolding b by (rule tracking_ok_cong) simp_all
  then show "tracking_ok b"
    using eff(5,6) by (auto simp: tracking_ok_def tracking_fin_def buy_fin_def [of "recentBuy.make _ _ _"] buy_fin_def)
qed

lemma tracking_ok_lots [simp]:
  "tracking_ok (a\<lparr>a_taxLots := s\<rparr>) \<longleftrightarrow> tracking_ok a" "tracking_ok (a\<lparr>a_shortLots := s\<rparr>) \<longleftrightarrow> tracking_ok a"
  "tracking_ok (a\<lparr>a_tradeDetails := t\<rparr>) \<longleftrightarrow> tracking_ok a" "tracking_ok (a\<lparr>a_holdings := h\<rparr>) \<longleftrightarrow> tracking_ok a"
  "tracking_ok (a\<lparr>a_excursions := e\<rparr>) \<longleftrightarrow> tracking_ok a"
  "tracking_ok (a\<lparr>a_transactions := ts, a_seenTransactions := ss, a_cash := c\<rparr>) \<longleftrightarrow> tracking_ok a"
  by (simp_all add: tracking_ok_def tracking_fin_def)

lemma tracking_ok_excursion [simp]:
  "tracking_ok (open_excursion txn a) \<longleftrightarrow> tracking_ok a" "tracking_ok (delete_excursion k a) \<longleftrightarrow> tracking_ok a"
  by (simp_all add: open_excursion_def delete_excursion_def)

lemma sell_close_effect:
  fixes txn a q
  defines "ast \<equiv> t_Asset txn" and "b \<equiv> sell_close txn q a"
  assumes "tracking_ok a" "lots_fin (long_lots a ast)" "fin q" "0 \<le> fval q" "fval q \<le> lots_sum (long_lots a ast)"
    and "fin (t_Price txn)"
  shows "same_but ast a b" "short_lots b ast = short_lots a ast" "lots_fin (long_lots b ast)"
    "lots_sum (long_lots b ast) = lots_sum (long_lots a ast) - fval q" "tracking_ok b"
proof -
  define m where "m = lot_method a txn"
  define con where "con = computeConsumedLotInfo (long_lots a ast) q m"
  define loss where "loss = avgCostBasis con - t_Price txn"
  define a1 where "a1 = (case map_of (a_excursions a) ast of None \<Rightarrow> a
      | Some excursion \<Rightarrow> a\<lparr>a_tradeDetails := a_tradeDetails a @ long_trade_details txn excursion
          (matched_lots q (lotsInConsumptionOrder (long_lots a ast) m))\<rparr>)"
  define a2 where "a2 = consumeLots a1 ast q m"
  obtain a3 r where chk: "checkWashSaleOnSell a2 ast (t_Date txn) q loss (latestBuyDate con) = (a3, r)"
    by force
  have a1: "a_cash a1 = a_cash a" "a_holdings a1 = a_holdings a" "a_taxLots a1 = a_taxLots a"
    "a_shortLots a1 = a_shortLots a" "tracking_ok a1"
    using assms(3) by (simp_all add: a1_def split: option.splits)
  have L: "long_lots a2 ast = consumeLotList q m (long_lots a ast)"
    by (simp add: a2_def consumeLots_def a1)
  have a2: "same_but ast a a2" "short_lots a2 ast = short_lots a ast" "lots_fin (long_lots a2 ast)"
    "lots_sum (long_lots a2 ast) = lots_sum (long_lots a ast) - fval q" "tracking_ok a2"
    using assms lp.consume_fin lp.consume_sum
    by (simp_all only: L) (simp_all add: a2_def consumeLots_def same_but_def a1)
  have loss: "fin loss" using avgCostBasis_fin assms by (simp add: loss_def con_def)
  note eff = checkWashSaleOnSell_effect [OF chk a2(5,3) assms(5) loss]
  have b: "b = (if loss > 0 then
                  (if q - r > 0 then add_loss_sale ast (t_Date txn) loss (q - r) a3 else a3)
                else a2)"
    unfolding b_def sell_close_def Let_def ast_def [symmetric] m_def [symmetric] a1_def [symmetric]
      a2_def [symmetric] con_def [symmetric] loss_def [symmetric] chk by simp
  show "same_but ast a b"
    using a2(1) eff(1) by (auto simp: b same_but_def)
  show "short_lots b ast = short_lots a ast" "lots_fin (long_lots b ast)"
    "lots_sum (long_lots b ast) = lots_sum (long_lots a ast) - fval q"
    using a2 eff by (simp_all add: b)
  show "tracking_ok b"
    using a2 eff loss assms(5) by (simp add: b tracking_ok_add_loss_sale)
qed

lemma sell_open_effect:
  fixes txn a q
  defines "ast \<equiv> t_Asset txn" and "b \<equiv> sell_open txn q a"
  assumes "lots_ok (short_lots a ast)" "fin q" "0 < fval q" "fin (t_Price txn)"
  shows "same_but ast a b" "long_lots b ast = long_lots a ast" "lots_ok (short_lots b ast)"
    "lots_sum (short_lots b ast) = lots_sum (short_lots a ast) + fval q" "tracking_ok b \<longleftrightarrow> tracking_ok a"
  using assms by (auto simp: sell_open_def Let_def same_but_def lot_ok_def)

definition acct_inv_but :: "asset \<Rightarrow> account \<Rightarrow> bool" where
  "acct_inv_but ast a \<longleftrightarrow> fin (a_cash a) \<and> tracking_ok a \<and> (\<forall>x. x \<noteq> ast \<longrightarrow> position_inv a x)"

lemma acct_inv_but_same:
  assumes "acct_inv_but ast a" "same_but ast a b" "tracking_ok b"
  shows "acct_inv_but ast b"
  using assms by (simp add: acct_inv_but_def same_but_def position_inv_def)

text \<open>
  A transaction passes through intermediate states in which the holding of its asset is already
  final and the lots are on their way: \<open>phase ast h l s a\<close> gives the lot totals reached.
\<close>

definition phase :: "asset \<Rightarrow> f64 \<Rightarrow> real \<Rightarrow> real \<Rightarrow> account \<Rightarrow> bool" where
  "phase ast h l s a \<longleftrightarrow> acct_inv_but ast a \<and> mget (Fin 0) (a_holdings a) ast = h
     \<and> lots_fin (long_lots a ast) \<and> lots_sum (long_lots a ast) = l
     \<and> lots_ok (short_lots a ast) \<and> lots_sum (short_lots a ast) = s"

lemma phase_step:
  assumes "phase ast h l s a" "same_but ast a b" "tracking_ok b" "lots_fin (long_lots b ast)"
    "lots_sum (long_lots b ast) = l'" "lots_ok (short_lots b ast)" "lots_sum (short_lots b ast) = s'"
  shows "phase ast h l' s' b"
  using assms acct_inv_but_same [of ast a b] by (simp add: phase_def same_but_def)

lemma phase_tracking: "phase ast h l s a \<Longrightarrow> tracking_ok a"
  by (simp add: phase_def acct_inv_but_def)

lemma phase_short_nonneg: "phase ast h l s a \<Longrightarrow> 0 \<le> s"
  by (auto simp: phase_def lots_sum_nonneg)

lemma phase_cover:
  assumes "phase (t_Asset txn) h l s a" "fin q" "0 \<le> fval q" "fval q \<le> s" "fin (t_Price txn)"
  shows "phase (t_Asset txn) h l (s - fval q) (buy_cover txn q a)"
proof -
  have p: "lots_ok (short_lots a (t_Asset txn))" "lots_sum (short_lots a (t_Asset txn)) = s"
    using assms(1) by (simp_all add: phase_def)
  note eff = buy_cover_effect [OF phase_tracking [OF assms(1)] p(1) assms(2,5)]
  show ?thesis
    using assms eff p by (intro phase_step [OF assms(1) eff(1,4)])
      (simp_all add: phase_def lp.consume_ok lp.consume_sum lots_ok_fin)
qed

lemma phase_open:
  assumes "phase (t_Asset txn) h l s a" "fin q" "fin (t_Price txn)"
  shows "phase (t_Asset txn) h (l + fval q) s (buy_open txn q a)"
proof -
  have p: "lots_fin (long_lots a (t_Asset txn))" using assms(1) by (simp add: phase_def)
  note eff = buy_open_effect [OF phase_tracking [OF assms(1)] p assms(2,3)]
  show ?thesis
    using assms(1) eff by (intro phase_step [OF assms(1) eff(1,5)]) (simp_all add: phase_def)
qed

lemma phase_close:
  assumes "phase (t_Asset txn) h l s a" "fin q" "0 \<le> fval q" "fval q \<le> l" "fin (t_Price txn)"
  shows "phase (t_Asset txn) h (l - fval q) s (sell_close txn q a)"
proof -
  have p: "lots_fin (long_lots a (t_Asset txn))" "fval q \<le> lots_sum (long_lots a (t_Asset txn))"
    using assms(1,4) by (simp_all add: phase_def)
  note eff = sell_close_effect [OF phase_tracking [OF assms(1)] p(1) assms(2,3) p(2) assms(5)]
  show ?thesis
    using assms(1) eff by (intro phase_step [OF assms(1) eff(1,5)]) (simp_all add: phase_def)
qed

lemma phase_short:
  assumes "phase (t_Asset txn) h l s a" "fin q" "0 < fval q" "fin (t_Price txn)"
  shows "phase (t_Asset txn) h l (s + fval q) (sell_open txn q a)"
proof -
  have p: "lots_ok (short_lots a (t_Asset txn))" using assms(1) by (simp add: phase_def)
  note eff = sell_open_effect [OF p assms(2-4)]
  show ?thesis
    using assms(1) eff phase_tracking [OF assms(1)]
    by (intro phase_step [OF assms(1) eff(1)]) (simp_all add: phase_def)
qed

lemma phase_delete_excursion: "phase ast h l s a \<Longrightarrow> phase ast h l s (delete_excursion k a)"
  by (simp add: phase_def acct_inv_but_def position_inv_def)

lemma phase_start:
  "acct_inv a \<Longrightarrow> phase ast h (lots_sum (long_lots a ast)) (lots_sum (short_lots a ast))
     (a\<lparr>a_holdings := mput ast h (a_holdings a)\<rparr>)"
  by (simp add: phase_def acct_inv_def acct_inv_but_def position_inv_def lots_match_def)

lemma phase_end:
  assumes "phase ast h l s a" "fin h" "fval h = 0 \<or> fval h = l - s \<and> 0 \<le> l \<and> (l = 0 \<or> s = 0)"
  shows "acct_inv (flat_cleanup ast a)"
proof -
  have "short_lots a ast = [] \<longleftrightarrow> s = 0"
    using assms(1) lots_sum_pos [of "short_lots a ast"]
    by (cases "short_lots a ast = []") (auto simp: phase_def)
  with assms show ?thesis
    by (auto simp: phase_def flat_cleanup_def acct_inv_def acct_inv_but_def position_inv_def
        lots_match_def tracking_ok_def tracking_fin_def fin_feq)
qed

lemma lots_match_of_inv:
  assumes "acct_inv a"
  shows "fin (mget 0 (a_holdings a) ast)" "lots_fin (long_lots a ast)" "lots_ok (short_lots a ast)"
    "0 \<le> lots_sum (long_lots a ast)" "0 \<le> lots_sum (short_lots a ast)"
    "lots_sum (long_lots a ast) = 0 \<or> lots_sum (short_lots a ast) = 0"
    "fval (mget 0 (a_holdings a) ast) = lots_sum (long_lots a ast) - lots_sum (short_lots a ast)"
  using assms by (auto simp: acct_inv_def position_inv_def lots_match_def lots_sum_nonneg)

lemma record_buy_inv:
  assumes inv: "acct_inv a" and fin: "fin (t_Qty txn)" "fin (t_Price txn)" and nonneg: "0 \<le> fval (t_Qty txn)"
  shows "acct_inv (record_buy txn a)"
proof -
  define ast where "ast = t_Asset txn"
  note m = lots_match_of_inv [OF inv, of ast]
  define h where "h = mget 0 (a_holdings a) ast + t_Qty txn"
  define l s where "l = lots_sum (long_lots a ast)" and "s = lots_sum (short_lots a ast)"
  define a1 where "a1 = a\<lparr>a_holdings := mput ast h (a_holdings a)\<rparr>"
  define c where "c = (if t_Qty txn > lots_total (short_lots a1 ast) then lots_total (short_lots a1 ast) else t_Qty txn)"
  define a2 where "a2 = (if c > 0 then buy_cover txn c a1 else a1)"
  define a3 where "a3 = (if t_Qty txn - c > 0 then buy_open txn (t_Qty txn - c) a2 else a2)"
  have c: "fin c" "fval c = min (fval (t_Qty txn)) s"
    using fin m(3) by (auto simp: c_def a1_def s_def lots_total_Fin lots_ok_fin fin_iff)
  have c0: "0 \<le> fval c" "fval c \<le> s" using c nonneg m(5) by (simp_all add: s_def)
  have p1: "phase ast h l s a1" unfolding a1_def l_def s_def by (rule phase_start [OF inv])
  have p2: "phase ast h l (s - fval c) a2"
    using p1 phase_cover [of txn h l s a1 c] c c0 fin by (auto simp: a2_def ast_def fin_less)
  have p3: "phase ast h (l + (fval (t_Qty txn) - fval c)) (s - fval c) a3"
    using p2 phase_open [of txn h l "s - fval c" a2 "t_Qty txn - c"] c fin
    by (auto simp: a3_def ast_def fin_less)
  have "record_buy txn a = flat_cleanup ast a3"
    unfolding record_buy_def Let_def ast_def [symmetric] h_def [symmetric] a1_def [symmetric]
      c_def [symmetric] a2_def [symmetric] a3_def [symmetric] ..
  moreover have "acct_inv (flat_cleanup ast a3)"
    using m fin c nonneg by (intro phase_end [OF p3]) (auto simp: h_def l_def s_def)
  ultimately show ?thesis by simp
qed

lemma record_sell_inv:
  assumes inv: "acct_inv a" and fin: "fin (t_Qty txn)" "fin (t_Price txn)"
    and qty: "0 \<le> fval (t_Qty txn) \<or> t_Qty txn = mget 0 (a_holdings a) (t_Asset txn)"
  shows "acct_inv (record_sell txn a)"
proof -
  define ast where "ast = t_Asset txn"
  note m = lots_match_of_inv [OF inv, of ast]
  define h where "h = mget 0 (a_holdings a) ast - t_Qty txn"
  define l s where "l = lots_sum (long_lots a ast)" and "s = lots_sum (short_lots a ast)"
  define a1 where "a1 = a\<lparr>a_holdings := mput ast h (a_holdings a)\<rparr>"
  define c where "c = (if t_Qty txn > lots_total (long_lots a1 ast) then lots_total (long_lots a1 ast) else t_Qty txn)"
  define a2 where "a2 = (if c > 0 then sell_close txn c a1 else a1)"
  define a3 where "a3 = (if c > 0 \<and> long_lots a2 ast = [] then delete_excursion ast a2 else a2)"
  define a4 where "a4 = (if t_Qty txn - c > 0 then sell_open txn (t_Qty txn - c) a3 else a3)"
  have c: "fin c" "fval c = min (fval (t_Qty txn)) l"
    using fin m(2) by (auto simp: c_def a1_def l_def lots_total_Fin fin_iff)
  have p1: "phase ast h l s a1" unfolding a1_def l_def s_def by (rule phase_start [OF inv])
  have p2: "phase ast h (l - max 0 (fval c)) s a2"
    using p1 phase_close [of txn h l s a1 c] c fin by (auto simp: a2_def ast_def fin_less max_def)
  have p3: "phase ast h (l - max 0 (fval c)) s a3"
    using p2 by (simp add: a3_def phase_delete_excursion)
  have p4: "phase ast h (l - max 0 (fval c)) (s + (fval (t_Qty txn) - fval c)) a4"
    using p3 phase_short [of txn h "l - max 0 (fval c)" s a3 "t_Qty txn - c"] c fin
    by (auto simp: a4_def ast_def fin_less)
  have "record_sell txn a = flat_cleanup ast a4"
    unfolding record_sell_def Let_def ast_def [symmetric] h_def [symmetric] a1_def [symmetric]
      c_def [symmetric] a2_def [symmetric] a3_def [symmetric] a4_def [symmetric] ..
  moreover have "acct_inv (flat_cleanup ast a4)"
    using m fin c qty by (intro phase_end [OF p4]) (auto simp: h_def l_def s_def ast_def)
  ultimately show ?thesis by simp
qed

lemma prune_frame [simp]:
  "a_holdings (pruneWashSaleTracking d a) = a_holdings a" "a_taxLots (pruneWashSaleTracking d a) = a_taxLots a"
  "a_shortLots (pruneWashSaleTracking d a) = a_shortLots a" "a_cash (pruneWashSaleTracking d a) = a_cash a"
  "a_transactions (pruneWashSaleTracking d a) = a_transactions a"
  "a_seenTransactions (pruneWashSaleTracking d a) = a_seenTransactions a"
  by (simp_all add: pruneWashSaleTracking_def Let_def)

text \<open>The state after the bookkeeping every transaction type shares.\<close>

definition booked :: "transaction \<Rightarrow> account \<Rightarrow> account" where
  "booked txn a =
     (let a1 = pruneWashSaleTracking (t_Date txn) a in
      a1\<lparr>a_transactions := a_transactions a1 @ [txn],
         a_seenTransactions := (if t_ID txn \<noteq> [] then List.insert (t_ID txn) (a_seenTransactions a1)
                                else a_seenTransactions a1),
         a_cash := a_cash a1 + t_Amount txn\<rparr>)"

definition stamped :: "transaction \<Rightarrow> account \<Rightarrow> transaction" where
  "stamped txn a = (if t_Type txn = DividendTransaction
     then txn\<lparr>t_Qualified := isDividendQualified (long_lots a (t_Asset txn)) (t_Date txn)\<rparr> else txn)"

lemma stamped_simps [simp]:
  "t_Type (stamped txn a) = t_Type txn" "t_Qty (stamped txn a) = t_Qty txn"
  "t_Price (stamped txn a) = t_Price txn" "t_Amount (stamped txn a) = t_Amount txn"
  "t_Asset (stamped txn a) = t_Asset txn" "t_ID (stamped txn a) = t_ID txn"
  "t_Date (stamped txn a) = t_Date txn"
  by (simp_all add: stamped_def)

lemma booked_frame [simp]:
  "a_holdings (booked txn a) = a_holdings a" "a_taxLots (booked txn a) = a_taxLots a"
  "a_shortLots (booked txn a) = a_shortLots a" "a_cash (booked txn a) = a_cash a + t_Amount txn"
  "a_transactions (booked txn a) = a_transactions a @ [txn]"
  "a_seenTransactions (booked txn a)
     = (if t_ID txn \<noteq> [] then List.insert (t_ID txn) (a_seenTransactions a) else a_seenTransactions a)"
  by (simp_all add: booked_def Let_def)

lemma Record_unfold:
  "Record txn a =
     (if \<not> isFiniteTransaction txn then a
      else case t_Type txn of
             BuyTransaction \<Rightarrow> record_buy (stamped txn a) (booked (stamped txn a) a)
           | SellTransaction \<Rightarrow> record_sell (stamped txn a) (booked (stamped txn a) a)
           | _ \<Rightarrow> booked (stamped txn a) a)"
  unfolding Record_def Let_def stamped_def [symmetric] booked_def [unfolded Let_def, symmetric]
    stamped_simps ..

lemma booked_inv: "acct_inv a \<Longrightarrow> fin (t_Amount txn) \<Longrightarrow> acct_inv (booked txn a)"
  by (simp add: acct_inv_def position_inv_def) (simp add: booked_def Let_def tracking_ok_prune)

lemma Record_inv:
  assumes "acct_inv a" "txn_ok a txn"
  shows "acct_inv (Record txn a)"
proof (cases "isFiniteTransaction txn")
  case True
  let ?t = "stamped txn a"
  have fin: "fin (t_Qty ?t)" "fin (t_Price ?t)" "fin (t_Amount ?t)"
    using True by (simp_all add: isFiniteTransaction_iff)
  note b = booked_inv [OF assms(1) fin(3)]
  have "acct_inv (record_buy ?t (booked ?t a))" if "t_Type txn = BuyTransaction"
    using assms(2) that by (intro record_buy_inv [OF b fin(1,2)]) (simp add: txn_ok_def)
  moreover have "acct_inv (record_sell ?t (booked ?t a))" if "t_Type txn = SellTransaction"
    using assms(2) that by (intro record_sell_inv [OF b fin(1,2)]) (simp add: txn_ok_def)
  ultimately show ?thesis using True b by (simp add: Record_unfold split: txtype.splits)
next
  case False
  with assms show ?thesis by (simp add: Record_unfold)
qed

text \<open>The fields the phases leave alone.\<close>

lemma checkWashSaleOnBuy_frame:
  "checkWashSaleOnBuy a ast d q lid = (b, l, r) \<Longrightarrow>
   a_holdings b = a_holdings a \<and> a_cash b = a_cash a \<and> a_transactions b = a_transactions a
   \<and> a_seenTransactions b = a_seenTransactions a"
  by (auto simp: checkWashSaleOnBuy_def Let_def split: if_splits prod.splits)

lemma checkWashSaleOnSell_frame:
  "checkWashSaleOnSell a ast d q loss cd = (b, r) \<Longrightarrow>
   a_holdings b = a_holdings a \<and> a_cash b = a_cash a \<and> a_transactions b = a_transactions a
   \<and> a_seenTransactions b = a_seenTransactions a"
  by (auto simp: checkWashSaleOnSell_def Let_def split: if_splits prod.splits)

lemma excursion_ledger [acct_frame]:
  "a_transactions (open_excursion txn a) = a_transactions a"
  "a_seenTransactions (open_excursion txn a) = a_seenTransactions a"
  "a_transactions (delete_excursion k a) = a_transactions a"
  "a_seenTransactions (delete_excursion k a) = a_seenTransactions a"
  "a_transactions (add_loss_sale k d l q a) = a_transactions a"
  "a_seenTransactions (add_loss_sale k d l q a) = a_seenTransactions a"
  by (simp_all add: open_excursion_def delete_excursion_def add_loss_sale_def)

lemma buy_cover_frame [acct_frame]:
  "a_holdings (buy_cover txn q a) = a_holdings a" "a_cash (buy_cover txn q a) = a_cash a"
  "a_transactions (buy_cover txn q a) = a_transactions a"
  "a_seenTransactions (buy_cover txn q a) = a_seenTransactions a"
  by (simp_all add: buy_cover_def Let_def consumeShortLots_def acct_frame split: option.splits)

lemma sell_open_frame [acct_frame]:
  "a_holdings (sell_open txn q a) = a_holdings a" "a_cash (sell_open txn q a) = a_cash a"
  "a_transactions (sell_open txn q a) = a_transactions a"
  "a_seenTransactions (sell_open txn q a) = a_seenTransactions a"
  by (simp_all add: sell_open_def Let_def acct_frame)

lemma buy_open_frame [acct_frame]:
  "a_holdings (buy_open txn q a) = a_holdings a" "a_cash (buy_open txn q a) = a_cash a"
  "a_transactions (buy_open txn q a) = a_transactions a"
  "a_seenTransactions (buy_open txn q a) = a_seenTransactions a"
  by (auto simp: buy_open_def Let_def acct_frame dest!: checkWashSaleOnBuy_frame split: prod.split)

lemma sell_close_frame [acct_frame]:
  "a_holdings (sell_close txn q a) = a_holdings a" "a_cash (sell_close txn q a) = a_cash a"
  "a_transactions (sell_close txn q a) = a_transactions a"
  "a_seenTransactions (sell_close txn q a) = a_seenTransactions a"
  by (auto simp: sell_close_def Let_def consumeLots_def acct_frame dest!: checkWashSaleOnSell_frame
      split: prod.split option.split)

lemma flat_cleanup_frame [acct_frame]:
  "mget (Fin 0) (a_holdings (flat_cleanup ast a)) x = mget (Fin 0) (a_holdings a) x"
  "a_cash (flat_cleanup ast a) = a_cash a" "a_transactions (flat_cleanup ast a) = a_transactions a"
  "a_seenTransactions (flat_cleanup ast a) = a_seenTransactions a"
  by (auto simp: flat_cleanup_def feq_def)

lemma record_trade_frame [acct_frame]:
  "a_cash (record_buy txn a) = a_cash a" "a_transactions (record_buy txn a) = a_transactions a"
  "a_seenTransactions (record_buy txn a) = a_seenTransactions a"
  "a_cash (record_sell txn a) = a_cash a" "a_transactions (record_sell txn a) = a_transactions a"
  "a_seenTransactions (record_sell txn a) = a_seenTransactions a"
  by (simp_all add: record_buy_def record_sell_def Let_def acct_frame)

lemma record_trade_holdings:
  "mget (Fin 0) (a_holdings (record_buy txn a)) x
     = mget (Fin 0) (a_holdings a) x + (if x = t_Asset txn then t_Qty txn else Fin 0)"
  "mget (Fin 0) (a_holdings (record_sell txn a)) x
     = mget (Fin 0) (a_holdings a) x - (if x = t_Asset txn then t_Qty txn else Fin 0)"
  by (simp_all add: record_buy_def record_sell_def Let_def acct_frame)

lemma Record_effect:
  "Position (Record txn a) x =
     (if isFiniteTransaction txn \<and> x = t_Asset txn then
        (case t_Type txn of BuyTransaction \<Rightarrow> Position a x + t_Qty txn
         | SellTransaction \<Rightarrow> Position a x - t_Qty txn
         | _ \<Rightarrow> Position a x)
      else Position a x)
   \<and> a_cash (Record txn a) = (if isFiniteTransaction txn then a_cash a + t_Amount txn else a_cash a)
   \<and> map t_Amount (a_transactions (Record txn a))
     = map t_Amount (a_transactions a) @ (if isFiniteTransaction txn then [t_Amount txn] else [])"
  by (auto simp: Record_unfold Position_def acct_frame record_trade_holdings split: txtype.splits)

subsection \<open>Realised results\<close>

lemma wash_tradeDetails:
  "checkWashSaleOnSell a ast d q loss cd = (b, r) \<Longrightarrow> a_tradeDetails b = a_tradeDetails a"
  by (auto simp: checkWashSaleOnSell_def Let_def split: prod.splits if_splits)

lemma long_trade_details_sums:
  assumes "list_all (\<lambda>(l, m). lot_fin l \<and> fin m) ms" "fin (t_Price txn)"
  shows "(\<Sum>t\<leftarrow>long_trade_details txn ex ms. fval (td_Qty t)) = (\<Sum>p\<leftarrow>ms. fval (snd p))"
    "(\<Sum>t\<leftarrow>long_trade_details txn ex ms. fval (td_PnL t))
       = fval (t_Price txn) * (\<Sum>p\<leftarrow>ms. fval (snd p)) - matched_cost ms"
  using assms by (induction ms) (auto simp: long_trade_details_def Let_def lot_fin_def algebra_simps)

lemma sell_close_trade_details:
  fixes txn a q
  defines "ast \<equiv> t_Asset txn"
  assumes "lots_fin (long_lots a ast)" "fin q" "0 < fval q" "fval q \<le> lots_sum (long_lots a ast)"
    and "fin (t_Price txn)" "mhas (a_excursions a) ast"
  shows "\<exists>ds. a_tradeDetails (sell_close txn q a) = a_tradeDetails a @ ds
     \<and> (\<Sum>t\<leftarrow>ds. fval (td_Qty t)) = fval q
     \<and> (\<Sum>t\<leftarrow>ds. fval (td_PnL t))
       = (fval (t_Price txn) - fval (avgCostBasis (computeConsumedLotInfo (long_lots a ast) q (lot_method a txn)))) * fval q"
proof -
  let ?ms = "matched_lots q (lotsInConsumptionOrder (long_lots a ast) (lot_method a txn))"
  obtain ex where ex: "map_of (a_excursions a) ast = Some ex" using assms(7) by (auto simp: mhas_def)
  have "a_tradeDetails (sell_close txn q a) = a_tradeDetails a @ long_trade_details txn ex ?ms"
    using ex by (auto simp: sell_close_def Let_def consumeLots_def add_loss_sale_def ast_def
        dest!: wash_tradeDetails split: prod.split)
  moreover note long_trade_details_sums [OF lp.matched_fin [OF assms(2,3)] assms(6), of ex "lot_method a txn"]
    lp.matched_sum [OF assms(2,3) less_imp_le [OF assms(4)] assms(5), of "lot_method a txn"]
    avgCostBasis_matched [OF assms(2-5), of "lot_method a txn"]
  ultimately show ?thesis by (auto simp: algebra_simps)
qed

end
