(* ===== verification/Ledger.thy ===== *)
theory Ledger
  imports Account
begin

text \<open>
  Histories of an account: stock splits, synchronisation with the broker's transaction feed,
  and the accounts reachable through them. Shows that every reachable account reconciles
  (lots, holdings, cash and the transaction log) and that synchronisation applies each
  broker transaction once.
\<close>

section \<open>Stock splits\<close>

lemma lots_sum_split:
  "lots_fin ls \<Longrightarrow> fin f \<Longrightarrow> lots_sum (map (split_lot f) ls) = lots_sum ls * fval f"
  by (induction ls) (auto simp: lot_fin_def split_lot_def algebra_simps)

lemma split_lot_pres:
  "fin f \<Longrightarrow> 0 < fval f \<Longrightarrow> lots_fin ls \<Longrightarrow> lots_fin (map (split_lot f) ls)"
  "fin f \<Longrightarrow> 0 < fval f \<Longrightarrow> lots_ok ls \<Longrightarrow> lots_ok (map (split_lot f) ls)"
  by (auto simp: list_all_iff lot_fin_def lot_ok_def split_lot_def)

lemma lots_cost_split:
  "lots_fin ls \<Longrightarrow> fin f \<Longrightarrow> fval f \<noteq> 0 \<Longrightarrow> lots_cost (map (split_lot f) ls) = lots_cost ls"
  by (induction ls) (auto simp: lot_fin_def split_lot_def)

lemma mget_map_entry_f:
  "g [] = [] \<Longrightarrow> mget [] (AList.map_entry k g m) k' = (if k' = k then g (mget [] m k) else mget [] m k')"
  by (auto simp: mget_def map_of_map_entry split: option.splits)

lemma ApplySplit_Inr:
  assumes "ApplySplit ast d f a = Inr b"
  shows "\<not> feq f 0 \<and> a_cash b = a_cash a \<and> a_recentLossSales b = a_recentLossSales a \<and> a_recentBuys b = a_recentBuys a
     \<and> a_seenTransactions b = a_seenTransactions a
     \<and> sum_list (map t_Amount (a_transactions b)) = sum_list (map t_Amount (a_transactions a))
     \<and> map_of (a_holdings b) = (if feq (mget 0 (a_holdings a) ast) 0 then map_of (a_holdings a)
          else (map_of (a_holdings a))(ast \<mapsto> mget 0 (a_holdings a) ast * f))
     \<and> (\<forall>x. long_lots b x = (if x = ast \<and> \<not> feq (mget 0 (a_holdings a) ast) 0
            then map (split_lot f) (long_lots a x) else long_lots a x))
     \<and> (\<forall>x. short_lots b x = (if x = ast \<and> \<not> feq (mget 0 (a_holdings a) ast) 0
            then map (split_lot f) (short_lots a x) else short_lots a x))"
  using assms by (auto simp: ApplySplit_def Let_def mget_map_entry_f update_conv' split: if_splits)

lemma ApplySplit_inv:
  assumes "acct_inv a" "fin f" "0 < fval f" "ApplySplit ast d f a = Inr b"
  shows "acct_inv b"
proof (cases "feq (mget 0 (a_holdings a) ast) 0")
  case True
  with assms show ?thesis by (auto simp: ApplySplit_def Let_def split: if_splits)
next
  case False
  note eff = ApplySplit_Inr [OF assms(4)]
  have h: "mget (Fin 0) (a_holdings b) x = (if x = ast then mget (Fin 0) (a_holdings a) x * f
      else mget (Fin 0) (a_holdings a) x)" for x
    using eff False by (auto simp: mget_def split: option.splits)
  have lots: "long_lots b x = (if x = ast then map (split_lot f) (long_lots a x) else long_lots a x)"
    "short_lots b x = (if x = ast then map (split_lot f) (short_lots a x) else short_lots a x)" for x
    using eff False by auto
  have "position_inv b x" for x
    using assms(1) split_lot_pres [OF assms(2,3)] assms(2,3)
    by (auto simp: acct_inv_def position_inv_def lots_match_def h lots lots_sum_split lots_ok_fin left_diff_distrib)
  then show ?thesis
    using assms(1) eff tracking_ok_cong [of a b] by (simp add: acct_inv_def)
qed

section \<open>Reachable accounts\<close>

text \<open>
  The accounts the program can build: a new account, possibly with an initial deposit, then
  transactions with admissible quantities and stock splits with a positive factor.
\<close>

inductive reachable :: "account \<Rightarrow> bool" where
  reach_new: "reachable account_new"
| reach_cash: "fin amount \<Longrightarrow> reachable (WithCash amount date account_new)"
| reach_record: "reachable a \<Longrightarrow> txn_ok a txn \<Longrightarrow> reachable (Record txn a)"
| reach_split: "reachable a \<Longrightarrow> fin f \<Longrightarrow> 0 < fval f \<Longrightarrow> ApplySplit ast date f a = Inr b \<Longrightarrow> reachable b"
| reach_seen: "reachable a \<Longrightarrow> reachable (a\<lparr>a_seenTransactions := ids\<rparr>)"
| reach_lots: "reachable a \<Longrightarrow> reachable (WithDefaultLotSelection m a)"

definition ledger :: "account \<Rightarrow> bool" where
  "ledger a \<longleftrightarrow> a_cash a = sum_list (map t_Amount (a_transactions a))"

lemma acct_inv_irrelevant:
  "acct_inv (a\<lparr>a_seenTransactions := ids\<rparr>) \<longleftrightarrow> acct_inv a"
  "acct_inv (a\<lparr>a_lotSelection := m\<rparr>) \<longleftrightarrow> acct_inv a"
  "acct_inv (account_new\<lparr>a_cash := c, a_transactions := ts\<rparr>) \<longleftrightarrow> fin c"
  by (simp_all add: acct_inv_def position_inv_def tracking_ok_def tracking_fin_def account_new_def lots_match_def)

lemma reachable_inv: "reachable a \<Longrightarrow> acct_inv a"
proof (induction rule: reachable.induct)
  case (reach_split a f ast date b)
  then show ?case using ApplySplit_inv by blast
qed (simp_all add: Record_inv WithCash_def WithDefaultLotSelection_def acct_inv_irrelevant)

lemma reachable_ledger: "reachable a \<Longrightarrow> ledger a"
proof (induction rule: reachable.induct)
  case (reach_record a txn)
  then show ?case using Record_effect [of txn a] by (auto simp: ledger_def simp del: zero_f64_Fin split: if_splits)
next
  case (reach_split a f ast date b)
  then show ?case using ApplySplit_Inr [of ast date f a b] by (simp add: ledger_def)
qed (simp_all add: ledger_def account_new_def WithCash_def WithDefaultLotSelection_def transaction_zero_def)

section \<open>Synchronisation\<close>

definition bt_ok :: "brokerTransaction \<Rightarrow> bool" where
  "bt_ok bt \<longleftrightarrow> (bt_Type bt \<in> {BuyTransaction, SellTransaction} \<longrightarrow> 0 \<le> fval (bt_Qty bt))
     \<and> (bt_Type bt = SplitTransaction \<longrightarrow> fin (bt_Price bt) \<and> 0 < fval (bt_Price bt))"

lemma broker_to_txn_simps [simp]:
  "t_ID (broker_to_txn bt) = bt_ID bt" "t_Type (broker_to_txn bt) = bt_Type bt"
  "t_Qty (broker_to_txn bt) = bt_Qty bt" "t_Asset (broker_to_txn bt) = bt_Asset bt"
  by (simp_all add: broker_to_txn_def)

lemma ApplySplit_ok: "0 < fval f \<Longrightarrow> fin f \<Longrightarrow> \<exists>b. ApplySplit ast d f a = Inr b"
  by (auto simp: ApplySplit_def Let_def feq_def fin_iff)

lemma SyncTransactions_reachable:
  assumes "reachable a" "list_all bt_ok bts"
  shows "\<exists>b. SyncTransactions bts a = (None, b) \<and> reachable b"
  using assms
proof (induction bts a rule: SyncTransactions.induct)
  case (2 bt bts a)
  have ok: "bt_ok bt" and rest: "list_all bt_ok bts" using "2.prems" by simp_all
  consider "bt_ID bt \<in> set (a_seenTransactions a)"
    | "bt_ID bt \<notin> set (a_seenTransactions a)" "bt_Type bt = SplitTransaction"
    | "bt_ID bt \<notin> set (a_seenTransactions a)" "bt_Type bt \<noteq> SplitTransaction" by blast
  then show ?case
  proof cases
    case 1
    then show ?thesis using 2 by simp
  next
    case 2
    then have f: "fin (bt_Price bt)" "0 < fval (bt_Price bt)" using ok by (simp_all add: bt_ok_def)
    then obtain b where b: "ApplySplit (bt_Asset bt) (bt_Date bt) (bt_Price bt) a = Inr b"
      using ApplySplit_ok by blast
    have "reachable b" using reach_split [OF "2.prems"(1) f b] .
    then show ?thesis using 2 b "2.IH"(2) rest reach_seen by simp
  next
    case 3
    have "txn_ok a (broker_to_txn bt)" using ok by (auto simp: txn_ok_def bt_ok_def)
    then show ?thesis using 3 "2.IH"(3) rest reach_record [OF "2.prems"(1)] by simp
  qed
qed simp

text \<open>A transaction is settled when a further synchronisation ignores it.\<close>

definition settled :: "account \<Rightarrow> brokerTransaction \<Rightarrow> bool" where
  "settled a bt \<longleftrightarrow> bt_ID bt \<in> set (a_seenTransactions a)
     \<or> bt_Type bt \<noteq> SplitTransaction \<and> \<not> isFiniteTransaction (broker_to_txn bt)"

lemma Record_seen:
  "set (a_seenTransactions (Record txn a)) = set (a_seenTransactions a)
     \<union> (if isFiniteTransaction txn \<and> t_ID txn \<noteq> [] then {t_ID txn} else {})"
  by (auto simp: Record_unfold acct_frame split: txtype.splits)

lemma SyncTransactions_ConsE:
  assumes "SyncTransactions (bt # bts) a = (e, b)"
  obtains "bt_ID bt \<in> set (a_seenTransactions a)" "SyncTransactions bts a = (e, b)"
  | err where "bt_ID bt \<notin> set (a_seenTransactions a)" "e = Some err" "b = a"
  | c where "bt_ID bt \<notin> set (a_seenTransactions a)" "bt_Type bt = SplitTransaction"
      "ApplySplit (bt_Asset bt) (bt_Date bt) (bt_Price bt) a = Inr c"
      "SyncTransactions bts (c\<lparr>a_seenTransactions := List.insert (bt_ID bt) (a_seenTransactions c)\<rparr>) = (e, b)"
  | "bt_ID bt \<notin> set (a_seenTransactions a)" "bt_Type bt \<noteq> SplitTransaction"
      "SyncTransactions bts (Record (broker_to_txn bt) a) = (e, b)"
  using assms by (auto split: if_splits sum.splits)

lemma ApplySplit_seen: "ApplySplit ast d f a = Inr b \<Longrightarrow> a_seenTransactions b = a_seenTransactions a"
  by (auto simp: ApplySplit_def Let_def split: if_splits)

lemma SyncTransactions_seen_mono:
  "SyncTransactions bts a = (e, b) \<Longrightarrow> set (a_seenTransactions a) \<subseteq> set (a_seenTransactions b)"
proof (induction bts arbitrary: a)
  case (Cons bt bts)
  from Cons.prems show ?case
    by (cases rule: SyncTransactions_ConsE) (auto simp: Record_seen dest!: Cons.IH ApplySplit_seen)
qed simp

lemma settled_mono:
  "settled a bt \<Longrightarrow> set (a_seenTransactions a) \<subseteq> set (a_seenTransactions b) \<Longrightarrow> settled b bt"
  by (auto simp: settled_def)

lemma SyncTransactions_settles:
  assumes "SyncTransactions bts a = (None, b)" "\<forall>bt\<in>set bts. bt_ID bt \<noteq> []" "bt \<in> set bts"
  shows "settled b bt"
  using assms
proof (induction bts arbitrary: a)
  case (Cons x bts)
  from Cons.prems(1) obtain c where c: "SyncTransactions bts c = (None, b)" "settled c x"
    using Cons.prems(2) by (cases rule: SyncTransactions_ConsE) (auto simp: settled_def Record_seen)
  have "settled b x" using settled_mono [OF c(2)] SyncTransactions_seen_mono [OF c(1)] by blast
  moreover have "settled b bt" if "bt \<in> set bts" using that c(1) Cons by auto
  ultimately show ?case using Cons.prems(3) by auto
qed simp

lemma SyncTransactions_settled:
  "\<forall>bt\<in>set bts. settled a bt \<Longrightarrow> SyncTransactions bts a = (None, a)"
  by (induction bts) (auto simp: settled_def Record_unfold)

text \<open>The identifiers in the log, and that each was applied once.\<close>

definition logged_ids :: "account \<Rightarrow> string list" where
  "logged_ids a = filter (\<lambda>i. i \<noteq> []) (map t_ID (a_transactions a))"

definition applied_once :: "account \<Rightarrow> bool" where
  "applied_once a \<longleftrightarrow> distinct (logged_ids a) \<and> set (logged_ids a) \<subseteq> set (a_seenTransactions a)"

lemma Record_logged_ids:
  "logged_ids (Record txn a) = logged_ids a @ (if isFiniteTransaction txn \<and> t_ID txn \<noteq> [] then [t_ID txn] else [])"
  by (auto simp: Record_unfold logged_ids_def acct_frame split: txtype.splits)

lemma ApplySplit_logged_ids: "ApplySplit ast d f a = Inr b \<Longrightarrow> logged_ids b = logged_ids a"
  by (auto simp: ApplySplit_def Let_def logged_ids_def transaction_zero_def split: if_splits)

lemma SyncTransactions_applied_once:
  "applied_once a \<Longrightarrow> SyncTransactions bts a = (e, b) \<Longrightarrow> applied_once b"
proof (induction bts arbitrary: a)
  case (Cons bt bts)
  have split: "applied_once (c\<lparr>a_seenTransactions := List.insert (bt_ID bt) (a_seenTransactions c)\<rparr>)"
    if "ApplySplit (bt_Asset bt) (bt_Date bt) (bt_Price bt) a = Inr c" for c
    using that Cons.prems(1) ApplySplit_seen [OF that] ApplySplit_logged_ids [OF that]
    by (auto simp: applied_once_def logged_ids_def)
  have recd: "applied_once (Record (broker_to_txn bt) a)" if "bt_ID bt \<notin> set (a_seenTransactions a)"
    using that Cons.prems(1) by (auto simp: applied_once_def Record_logged_ids Record_seen)
  from Cons.prems(2) show ?case
    by (cases rule: SyncTransactions_ConsE) (use Cons split recd in auto)
qed simp

end
