(* ===== verification/Margin.thy ===== *)
theory Margin
  imports Ledger
begin

text \<open>
  Margin and leverage (portfolio/margin.go, portfolio/margin\_option.go, engine/margin\_config.go)
  and the order set of an automatic liquidation (engine/margin\_call.go). Shows that equity is
  the account value, when an account is in deficiency, that unwinding the reported notional
  cures it, and how far the proportional liquidation gets.
\<close>

section \<open>Market values\<close>

definition defaultInitialMarginRate :: f64 where "defaultInitialMarginRate = Fin (50/100)"
definition defaultMaintenanceMarginRate :: f64 where "defaultMaintenanceMarginRate = Fin (30/100)"
definition defaultMaxLeverage :: f64 where "defaultMaxLeverage = Fin 2"
definition defaultGrossMaintenanceLeverage :: f64 where "defaultGrossMaintenanceLeverage = Fin 4"

definition ShortMarketValue :: "account \<Rightarrow> f64" where
  "ShortMarketValue a =
     (case a_prices a of None \<Rightarrow> 0
      | Some prices \<Rightarrow>
        foldl (\<lambda>total (ast, qty).
                 if qty < 0 then
                   let price = df_Value prices ast MetricClose in
                   if \<not> isNaN price then total + absF qty * price else total
                 else total) 0 (a_holdings a))"

definition LongMarketValue :: "account \<Rightarrow> f64" where
  "LongMarketValue a =
     (case a_prices a of None \<Rightarrow> 0
      | Some prices \<Rightarrow>
        foldl (\<lambda>total (ast, qty).
                 if qty > 0 then
                   let price = df_Value prices ast MetricClose in
                   if \<not> isNaN price then total + qty * price else total
                 else total) 0 (a_holdings a))"

definition Equity :: "account \<Rightarrow> f64" where
  "Equity a = a_cash a + LongMarketValue a - ShortMarketValue a"

definition MarginRatio :: "account \<Rightarrow> f64" where
  "MarginRatio a =
     (let smv = ShortMarketValue a in if feq smv 0 then NaN else Equity a / smv)"

definition initialMarginRate :: "account \<Rightarrow> f64" where
  "initialMarginRate a = (if a_initialMargin a > 0 then a_initialMargin a else defaultInitialMarginRate)"

definition maintenanceMarginRate :: "account \<Rightarrow> f64" where
  "maintenanceMarginRate a =
     (if a_maintenanceMargin a > 0 then a_maintenanceMargin a else defaultMaintenanceMarginRate)"

definition MaxLeverage :: "account \<Rightarrow> f64" where
  "MaxLeverage a = (if a_maxLeverage a > 0 then a_maxLeverage a else defaultMaxLeverage)"

definition SetMaxLeverage :: "f64 \<Rightarrow> account \<Rightarrow> account" where
  "SetMaxLeverage ratio a = (if ratio > 0 then a\<lparr>a_maxLeverage := ratio\<rparr> else a)"

definition HasMaxLeverage :: "account \<Rightarrow> bool" where
  "HasMaxLeverage a \<longleftrightarrow> a_maxLeverage a > 0"

definition GrossMaintenanceLeverage :: "account \<Rightarrow> f64" where
  "GrossMaintenanceLeverage a =
     (if a_grossMaintenanceLeverage a > 0 then a_grossMaintenanceLeverage a
      else defaultGrossMaintenanceLeverage)"

definition SetGrossMaintenanceLeverage :: "f64 \<Rightarrow> account \<Rightarrow> account" where
  "SetGrossMaintenanceLeverage ratio a =
     (if ratio > 0 then a\<lparr>a_grossMaintenanceLeverage := ratio\<rparr> else a)"

definition HasGrossMaintenanceLeverage :: "account \<Rightarrow> bool" where
  "HasGrossMaintenanceLeverage a \<longleftrightarrow> a_grossMaintenanceLeverage a > 0"

definition MarginDeficiency :: "account \<Rightarrow> f64" where
  "MarginDeficiency a =
     (let equity = Equity a;
          smv = ShortMarketValue a;
          rate = maintenanceMarginRate a;
          needed = smv - equity / rate;
          shortDeficit = (if smv > 0 \<and> rate > 0 \<and> needed > 0 then needed else 0);
          maintLev = GrossMaintenanceLeverage a;
          gross = LongMarketValue a + smv;
          leverageDeficit =
            (if maintLev > 0 \<and> gross > 0 then
               (if equity \<le> 0 then gross
                else if gross / equity > maintLev then gross - maintLev * equity
                else 0)
             else 0)
      in if shortDeficit > leverageDeficit then shortDeficit else leverageDeficit)"

definition GrossLeverage :: "account \<Rightarrow> f64" where
  "GrossLeverage a =
     (let gross = LongMarketValue a + ShortMarketValue a in
      if feq gross 0 then 0
      else let equity = Equity a in if equity \<le> 0 then NaN else gross / equity)"

definition LeverageHeadroom :: "account \<Rightarrow> f64" where
  "LeverageHeadroom a =
     MaxLeverage a * Equity a - (LongMarketValue a + ShortMarketValue a)"

definition BuyingPower :: "account \<Rightarrow> f64" where
  "BuyingPower a = a_cash a - ShortMarketValue a * initialMarginRate a"

section \<open>Options\<close>

definition WithInitialMargin :: "f64 \<Rightarrow> account \<Rightarrow> account" where
  "WithInitialMargin rate a = a\<lparr>a_initialMargin := rate\<rparr>"

definition WithMaintenanceMargin :: "f64 \<Rightarrow> account \<Rightarrow> account" where
  "WithMaintenanceMargin rate a = a\<lparr>a_maintenanceMargin := rate\<rparr>"

definition WithBorrowRate :: "f64 \<Rightarrow> account \<Rightarrow> account" where
  "WithBorrowRate rate a = a\<lparr>a_borrowRate := rate\<rparr>"

definition WithMaxLeverage :: "f64 \<Rightarrow> account \<Rightarrow> account" where
  "WithMaxLeverage ratio a = a\<lparr>a_maxLeverage := ratio\<rparr>"

definition WithGrossMaintenanceLeverage :: "f64 \<Rightarrow> account \<Rightarrow> account" where
  "WithGrossMaintenanceLeverage ratio a = a\<lparr>a_grossMaintenanceLeverage := ratio\<rparr>"

record RegT =
  regt_Initial :: f64
  regt_Maintenance :: f64

definition WithMarginModel :: "RegT \<Rightarrow> account \<Rightarrow> account" where
  "WithMarginModel model acct =
     (let a1 = (if regt_Initial model > 0 then acct\<lparr>a_maxLeverage := 1 / regt_Initial model\<rparr> else acct)
      in if regt_Maintenance model > 0
         then a1\<lparr>a_grossMaintenanceLeverage := 1 / regt_Maintenance model\<rparr> else a1)"

text \<open>The engine's settings that decide the margin configuration of the account.\<close>

record engineMargin =
  em_description :: "(f64 \<times> f64) option"
  em_marginModel :: "RegT option"
  em_maxLeverage :: f64
  em_grossMaintenanceLeverage :: f64

definition applyMarginConfig :: "engineMargin \<Rightarrow> account \<Rightarrow> account" where
  "applyMarginConfig eng acct =
     (let (descMax, descMaint) = (case em_description eng of None \<Rightarrow> (0, 0) | Some d \<Rightarrow> d);
          a1 = (if descMax > 0 \<and> \<not> HasMaxLeverage acct then SetMaxLeverage descMax acct else acct);
          a2 = (if descMaint > 0 \<and> \<not> HasGrossMaintenanceLeverage a1
                then SetGrossMaintenanceLeverage descMaint a1 else a1);
          a3 = (case em_marginModel eng of None \<Rightarrow> a2
                | Some m \<Rightarrow>
                  let b = (if regt_Initial m > 0 then SetMaxLeverage (1 / regt_Initial m) a2 else a2)
                  in if regt_Maintenance m > 0
                     then SetGrossMaintenanceLeverage (1 / regt_Maintenance m) b else b);
          a4 = (if em_maxLeverage eng > 0 then SetMaxLeverage (em_maxLeverage eng) a3 else a3)
      in if em_grossMaintenanceLeverage eng > 0
         then SetGrossMaintenanceLeverage (em_grossMaintenanceLeverage eng) a4 else a4)"

section \<open>Automatic liquidation\<close>

fun ceilF :: "f64 \<Rightarrow> f64" where
  "ceilF (Fin r) = Fin (of_int \<lceil>r\<rceil>)"
| "ceilF x = x"

lemma nn_ceil [intro]: "nn x \<Longrightarrow> nn (ceilF x)"
  by (cases x) auto

definition liquidation_order :: "f64 \<Rightarrow> asset \<times> f64 \<Rightarrow> order option" where
  "liquidation_order unwindFraction entry =
     (case entry of (ast, qty) \<Rightarrow>
        if feq qty 0 then None
        else
          let closeQty0 = ceilF (absF qty * unwindFraction);
              closeQty = (if closeQty0 > absF qty then absF qty else closeQty0)
          in Some (order_zero\<lparr>o_Asset := ast, o_Side := (if qty < 0 then Buy else Sell),
                     o_Qty := closeQty, o_OrderType := Market, o_TimeInForce := Day,
                     o_Justification := ''margin call auto-liquidation''\<rparr>))"

text \<open>The orders \<open>autoLiquidate\<close> puts into its batch; none when the account is healthy.\<close>

definition autoLiquidate_orders :: "account \<Rightarrow> order list" where
  "autoLiquidate_orders a =
     (let deficiency = MarginDeficiency a in
      if feq deficiency 0 then []
      else let gross = LongMarketValue a + ShortMarketValue a in
        if gross \<le> 0 then []
        else let f = deficiency / gross; unwindFraction = (if f > 1 then 1 else f)
          in List.map_filter (liquidation_order unwindFraction) (Holdings a))"

section \<open>Equity is the account value\<close>

text \<open>The entries of the holdings map are finite and never flat.\<close>

definition open_holdings :: "(asset, f64) gomap \<Rightarrow> bool" where
  "open_holdings m \<longleftrightarrow> (\<forall>p \<in> set m. fin (snd p) \<and> fval (snd p) \<noteq> 0)"

lemma set_mput_subset: "set (mput k v m) \<subseteq> insert (k, v) (set m)"
  by (induction m) auto

lemma set_mdel: "set (mdel k m) = {p \<in> set m. fst p \<noteq> k}"
  by (auto simp: AList.delete_eq)

lemma open_holdings_put:
  "open_holdings m \<Longrightarrow> fin h \<Longrightarrow> fval h \<noteq> 0 \<Longrightarrow> open_holdings (mput k h m)"
  using set_mput_subset [of k h m] by (fastforce simp: open_holdings_def)

lemma open_holdings_del: "open_holdings m \<Longrightarrow> open_holdings (mdel k (mput k h m))"
  using set_mput_subset [of k h m] by (fastforce simp: open_holdings_def set_mdel)

lemma open_holdings_get: "open_holdings m \<Longrightarrow> fin (mget (Fin 0) m k)"
  by (auto simp: open_holdings_def mget_def split: option.splits dest!: map_of_SomeD)

lemma open_holdings_cleanup:
  assumes "open_holdings m" "a_holdings a = mput ast h m" "fin h"
  shows "open_holdings (a_holdings (flat_cleanup ast a))"
  using assms open_holdings_put [of m h ast] open_holdings_del [of m ast h]
  by (auto simp: flat_cleanup_def fin_feq)

lemma record_trade_cleanup:
  "\<exists>b. record_buy txn a = flat_cleanup (t_Asset txn) b
     \<and> a_holdings b = mput (t_Asset txn) (mget 0 (a_holdings a) (t_Asset txn) + t_Qty txn) (a_holdings a)"
  "\<exists>b. record_sell txn a = flat_cleanup (t_Asset txn) b
     \<and> a_holdings b = mput (t_Asset txn) (mget 0 (a_holdings a) (t_Asset txn) - t_Qty txn) (a_holdings a)"
  unfolding record_buy_def record_sell_def Let_def
  by (rule exI, rule conjI, rule refl, simp add: acct_frame)+

lemma Record_open_holdings:
  assumes "open_holdings (a_holdings a)"
  shows "open_holdings (a_holdings (Record txn a))"
proof (cases "isFiniteTransaction txn")
  case True
  let ?t = "stamped txn a"
  have q: "fin (t_Qty ?t)" using True by (simp add: isFiniteTransaction_iff)
  have m: "open_holdings (a_holdings (booked ?t a))" using assms by simp
  have h: "fin (mget 0 (a_holdings (booked ?t a)) x + t_Qty ?t)" "fin (mget 0 (a_holdings (booked ?t a)) x - t_Qty ?t)" for x
    using open_holdings_get [OF m] q by simp_all
  have "open_holdings (a_holdings (record_buy ?t (booked ?t a)))"
    "open_holdings (a_holdings (record_sell ?t (booked ?t a)))"
    using record_trade_cleanup [of ?t "booked ?t a"] open_holdings_cleanup [OF m] h by metis+
  then show ?thesis using assms by (simp add: Record_unfold split: txtype.splits)
next
  case False
  then show ?thesis using assms by (simp add: Record_unfold)
qed

lemma Record_mwf_holdings:
  assumes "mwf (a_holdings a)"
  shows "mwf (a_holdings (Record txn a))"
proof -
  let ?t = "stamped txn a"
  have c: "mwf (a_holdings (flat_cleanup k b))" if "mwf (a_holdings b)" for k b
    using that by (simp add: flat_cleanup_def)
  have "mwf (a_holdings (record_buy ?t (booked ?t a)))" "mwf (a_holdings (record_sell ?t (booked ?t a)))"
    using record_trade_cleanup [of ?t "booked ?t a"] assms c by (metis booked_frame(1) mwf_mput)+
  then show ?thesis using assms by (simp add: Record_unfold split: txtype.splits)
qed

lemma reachable_open_holdings: "reachable a \<Longrightarrow> open_holdings (a_holdings a)"
proof (induction rule: reachable.induct)
  case (reach_split a f ast date b)
  then show ?case
    using open_holdings_get [OF reach_split.IH, of ast]
      open_holdings_put [OF reach_split.IH, of "mget (Fin 0) (a_holdings a) ast * f" ast]
    by (auto simp: ApplySplit_def Let_def fin_feq split: if_splits)
next
  case (reach_record a txn)
  then show ?case by (simp add: Record_open_holdings)
qed (simp_all add: open_holdings_def account_new_def WithCash_def WithDefaultLotSelection_def)

lemma f64_uminus_add: "- (x + y) = - x + - (y::f64)"
  by (cases x; cases y) auto

lemma f64_abs_short: "q < Fin 0 \<Longrightarrow> - (absF q * p) = q * p" for q p :: f64
  by (cases q; cases p) auto

text \<open>The three running totals, over one entry more.\<close>

definition long_term :: "dataframe \<Rightarrow> asset \<times> f64 \<Rightarrow> f64" where
  "long_term df p = (if snd p > 0 \<and> \<not> isNaN (df_Value df (fst p) MetricClose)
     then snd p * df_Value df (fst p) MetricClose else 0)"

definition short_term :: "dataframe \<Rightarrow> asset \<times> f64 \<Rightarrow> f64" where
  "short_term df p = (if snd p < 0 \<and> \<not> isNaN (df_Value df (fst p) MetricClose)
     then absF (snd p) * df_Value df (fst p) MetricClose else 0)"

lemma LongMarketValue_sum:
  "a_prices a = Some df \<Longrightarrow> LongMarketValue a = sum_list (map (long_term df) (a_holdings a))"
proof -
  have "foldl (\<lambda>total (ast, qty). if qty > 0 then let price = df_Value df ast MetricClose in
           if \<not> isNaN price then total + qty * price else total else total) z xs
      = z + sum_list (map (long_term df) xs)" for z xs
    by (induction xs arbitrary: z) (auto simp: long_term_def Let_def add.assoc)
  then show "a_prices a = Some df \<Longrightarrow> ?thesis" by (simp add: LongMarketValue_def)
qed

lemma ShortMarketValue_sum:
  "a_prices a = Some df \<Longrightarrow> ShortMarketValue a = sum_list (map (short_term df) (a_holdings a))"
proof -
  have "foldl (\<lambda>total (ast, qty). if qty < 0 then let price = df_Value df ast MetricClose in
           if \<not> isNaN price then total + absF qty * price else total else total) z xs
      = z + sum_list (map (short_term df) xs)" for z xs
    by (induction xs arbitrary: z) (auto simp: short_term_def Let_def add.assoc)
  then show "a_prices a = Some df \<Longrightarrow> ?thesis" by (simp add: ShortMarketValue_def)
qed

lemma AccountValue_sum:
  assumes "a_prices a = Some df" "open_holdings (a_holdings a)"
  shows "AccountValue a = a_cash a + sum_list (map (long_term df) (a_holdings a))
       - sum_list (map (short_term df) (a_holdings a))"
proof -
  have "foldl (\<lambda>total (ast, qty). let v = df_Value df ast MetricClose in
           if isNaN v then total else total + qty * v) z xs
      = z + sum_list (map (long_term df) xs) - sum_list (map (short_term df) xs)"
    if "open_holdings xs" for z xs
    using that
  proof (induction xs arbitrary: z)
    case (Cons p xs)
    obtain ast q where p: "p = (ast, q)" by force
    have q: "fin q" "q > Fin 0 \<or> q < Fin 0" and xs: "open_holdings xs"
      using Cons.prems by (auto simp: p open_holdings_def fin_less)
    have ex: "\<not> (q > Fin 0 \<and> q < Fin 0)" using q by (auto simp: fin_less)
    show ?case using Cons.IH [OF xs] q(2) ex
      by (auto simp: p long_term_def short_term_def Let_def minus_f64_def f64_uminus_add f64_abs_short ac_simps)
  qed (simp add: minus_f64_def)
  then show ?thesis using assms by (simp add: AccountValue_def)
qed

lemma Equity_AccountValue:
  "open_holdings (a_holdings a) \<Longrightarrow> Equity a = AccountValue a"
  by (cases "a_prices a")
     (simp_all add: Equity_def LongMarketValue_sum ShortMarketValue_sum AccountValue_sum,
      simp add: LongMarketValue_def ShortMarketValue_def AccountValue_def)

section \<open>Deficiency\<close>

text \<open>
  Accounts with usable marks: finite market values, no negative prices, finite settings
  except for the leverage threshold, which may be infinite to switch that check off.
\<close>

definition priced :: "account \<Rightarrow> bool" where
  "priced a \<longleftrightarrow> fin (a_cash a) \<and> fin (LongMarketValue a) \<and> fin (ShortMarketValue a)
     \<and> 0 \<le> fval (LongMarketValue a) \<and> 0 \<le> fval (ShortMarketValue a)
     \<and> \<not> isInf (a_maintenanceMargin a)"

definition healthy :: "account \<Rightarrow> bool" where
  "healthy a \<longleftrightarrow>
     ShortMarketValue a * maintenanceMarginRate a \<le> Equity a \<or> ShortMarketValue a = 0"

definition within_leverage :: "account \<Rightarrow> bool" where
  "within_leverage a \<longleftrightarrow>
     LongMarketValue a + ShortMarketValue a = 0
     \<or> Equity a > 0 \<and> LongMarketValue a + ShortMarketValue a \<le> GrossMaintenanceLeverage a * Equity a"

lemma maintenanceMarginRate_pos: "priced a \<Longrightarrow> \<exists>r>0. maintenanceMarginRate a = Fin r"
  by (cases "a_maintenanceMargin a")
     (auto simp: maintenanceMarginRate_def defaultMaintenanceMarginRate_def priced_def intro: exI [of _ "3/10"])

lemma GrossMaintenanceLeverage_pos:
  "(\<exists>r>0. GrossMaintenanceLeverage a = Fin r) \<or> GrossMaintenanceLeverage a = PInf"
  by (cases "a_grossMaintenanceLeverage a")
     (auto simp: GrossMaintenanceLeverage_def defaultGrossMaintenanceLeverage_def)

lemma MarginDeficiency_cases:
  assumes "priced a"
  obtains l s e r d where "LongMarketValue a = Fin l" "ShortMarketValue a = Fin s" "Equity a = Fin e"
    "0 \<le> l" "0 \<le> s" "0 < r" "maintenanceMarginRate a = Fin r"
    "MarginDeficiency a = Fin (max (if s > 0 then max 0 (s - e / r) else 0) d)"
    "d = (if l + s > 0 then
            (if e \<le> 0 then l + s
             else case GrossMaintenanceLeverage a of Fin g \<Rightarrow> max 0 (l + s - g * e) | _ \<Rightarrow> 0) else 0)"
proof -
  obtain l s c where ls: "LongMarketValue a = Fin l" "ShortMarketValue a = Fin s" "a_cash a = Fin c"
    "0 \<le> l" "0 \<le> s" using assms by (auto simp: priced_def fin_iff)
  obtain r where r: "0 < r" "maintenanceMarginRate a = Fin r" using maintenanceMarginRate_pos [OF assms] by blast
  define e where "e = c + l - s"
  have e: "Equity a = Fin e" using ls by (simp add: Equity_def e_def)
  define d where "d = (if l + s > 0 then
            (if e \<le> 0 then l + s
             else case GrossMaintenanceLeverage a of Fin g \<Rightarrow> max 0 (l + s - g * e) | _ \<Rightarrow> 0) else 0)"
  have short: "(if Fin s > 0 \<and> Fin r > 0 \<and> Fin s - Fin e / Fin r > 0 then Fin s - Fin e / Fin r else 0)
      = Fin (if s > 0 then max 0 (s - e / r) else 0)"
    using r by (auto simp: max_def)
  have lev: "(if GrossMaintenanceLeverage a > 0 \<and> Fin l + Fin s > 0 then
               (if Fin e \<le> 0 then Fin l + Fin s
                else if (Fin l + Fin s) / Fin e > GrossMaintenanceLeverage a
                then Fin l + Fin s - GrossMaintenanceLeverage a * Fin e else 0)
             else 0) = Fin d"
    using GrossMaintenanceLeverage_pos [of a] by (auto simp: d_def max_def pos_less_divide_eq)
  have "MarginDeficiency a = Fin (max (if s > 0 then max 0 (s - e / r) else 0) d)"
    unfolding MarginDeficiency_def Let_def ls(1,2) r(2) e short lev by (auto simp: max_def)
  then show thesis using that ls r e d_def by blast
qed

lemma MarginDeficiency_zero_iff:
  assumes "priced a"
  shows "MarginDeficiency a = 0 \<longleftrightarrow> healthy a \<and> within_leverage a"
proof -
  obtain l s e r d where c: "LongMarketValue a = Fin l" "ShortMarketValue a = Fin s" "Equity a = Fin e"
    "0 \<le> l" "0 \<le> s" "0 < r" "maintenanceMarginRate a = Fin r"
    "MarginDeficiency a = Fin (max (if s > 0 then max 0 (s - e / r) else 0) d)"
    "d = (if l + s > 0 then
            (if e \<le> 0 then l + s
             else case GrossMaintenanceLeverage a of Fin g \<Rightarrow> max 0 (l + s - g * e) | _ \<Rightarrow> 0) else 0)"
    using MarginDeficiency_cases [OF assms] .
  have "0 \<le> d" using c(4,5,9) by (auto split: f64.splits)
  moreover have "healthy a \<longleftrightarrow> (if s > 0 then max 0 (s - e / r) else 0) = 0"
    using c by (auto simp: healthy_def field_simps max_def)
  moreover have "within_leverage a \<longleftrightarrow> d = 0"
    using c(1-5,9) GrossMaintenanceLeverage_pos [of a]
    by (auto simp: within_leverage_def max_def split: f64.splits)
  ultimately show ?thesis using c(8) by (auto simp: max_def)
qed

text \<open>
  Unwinding the reported notional from the shorts, at unchanged equity, cures the account.
\<close>

lemma MarginDeficiency_sufficient:
  assumes "priced a" "priced b" "Equity b = Equity a" "0 < Equity a"
    and "maintenanceMarginRate b = maintenanceMarginRate a"
    and "GrossMaintenanceLeverage b = GrossMaintenanceLeverage a"
    and "LongMarketValue b = LongMarketValue a"
    and "ShortMarketValue b \<le> ShortMarketValue a - MarginDeficiency a"
  shows "MarginDeficiency b = 0"
proof -
  obtain l s e r d where c: "LongMarketValue a = Fin l" "ShortMarketValue a = Fin s" "Equity a = Fin e"
    "0 \<le> l" "0 \<le> s" "0 < r" "maintenanceMarginRate a = Fin r"
    "MarginDeficiency a = Fin (max (if s > 0 then max 0 (s - e / r) else 0) d)"
    "d = (if l + s > 0 then
            (if e \<le> 0 then l + s
             else case GrossMaintenanceLeverage a of Fin g \<Rightarrow> max 0 (l + s - g * e) | _ \<Rightarrow> 0) else 0)"
    using MarginDeficiency_cases [OF assms(1)] .
  obtain s' where s': "ShortMarketValue b = Fin s'" "0 \<le> s'" using assms(2) by (auto simp: priced_def fin_iff)
  have e: "0 < e" using assms(4) c(3) by simp
  define t where "t = e / r"
  have t: "0 < t" using divide_pos_pos [OF e c(6)] by (simp add: t_def)
  have "s' \<le> s - max 0 (s - t)" "s' \<le> s - d"
    using assms(8) c(1-5) c(8) [folded t_def] s' t by (auto simp: max_def split: if_splits)
  then have le: "s' \<le> t" "s' \<le> s - d" by simp_all
  have "s' * r \<le> e" using le(1) c(6) by (simp add: t_def pos_le_divide_eq)
  then have "healthy b" using c(3,7) s' assms(3,5) by (simp add: healthy_def)
  moreover have "within_leverage b"
    using le(2) c s' assms(3,6,7) e GrossMaintenanceLeverage_pos [of a]
    by (auto simp: within_leverage_def max_def split: if_splits)
  ultimately show ?thesis using MarginDeficiency_zero_iff [OF assms(2)] by simp
qed

section \<open>Liquidation orders\<close>

lemma liquidation_order_reduces:
  assumes "liquidation_order f (ast, q) = Some ord" "fin q" "fin f" "0 \<le> fval f"
  shows "o_Asset ord = ast \<and> 0 \<le> fval (o_Qty ord) \<and> fin (o_Qty ord)
     \<and> fval (o_Qty ord) \<le> \<bar>fval q\<bar> \<and> min \<bar>fval q\<bar> (\<bar>fval q\<bar> * fval f) \<le> fval (o_Qty ord)
     \<and> o_Side ord = (if fval q < 0 then Buy else Sell)"
proof -
  obtain x y where xy: "q = Fin x" "f = Fin y" using assms by (auto simp: fin_iff)
  define A where "A = \<bar>x\<bar>"
  define C where "C = real_of_int \<lceil>A * y\<rceil>"
  have y: "0 \<le> y" "0 \<le> A" using assms(4) xy by (simp_all add: A_def)
  have C: "A * y \<le> C" by (simp add: C_def)
  moreover have "0 \<le> A * y" using y by simp
  ultimately have "0 \<le> C" by linarith
  have "ceilF (absF q * f) = Fin C" "absF q = Fin A" "\<bar>fval q\<bar> = A"
    by (simp_all add: xy A_def C_def)
  then show ?thesis
    using assms(1) C \<open>0 \<le> C\<close> y xy unfolding liquidation_order_def Let_def by (auto split: if_splits)
qed

lemma applyMarginConfig_MaxLeverage:
  "MaxLeverage (applyMarginConfig eng a) =
     (if em_maxLeverage eng > 0 then em_maxLeverage eng
      else case em_marginModel eng of
        Some m \<Rightarrow> if regt_Initial m > 0 \<and> 1 / regt_Initial m > 0 then 1 / regt_Initial m
                  else MaxLeverage (applyMarginConfig (eng\<lparr>em_marginModel := None\<rparr>) a)
      | None \<Rightarrow> if a_maxLeverage a > 0 then a_maxLeverage a
                else case em_description eng of
                  Some d \<Rightarrow> if fst d > 0 then fst d else defaultMaxLeverage
                | None \<Rightarrow> defaultMaxLeverage)"
  by (auto simp: applyMarginConfig_def Let_def MaxLeverage_def SetMaxLeverage_def HasMaxLeverage_def
      SetGrossMaintenanceLeverage_def HasGrossMaintenanceLeverage_def split: option.splits prod.splits)

end
