(* ===== verification/Batch.thy ===== *)
theory Batch
  imports Margin
begin

text \<open>
  Order batches (portfolio/batch.go, portfolio/order.go, portfolio/allocation.go): a strategy
  accumulates orders, which the projected-state helpers replay against the portfolio, and the
  engine submits later. A batch reads the portfolio it belongs to through an interface whose
  implementation is the account, an argument \<open>port\<close> of the operations here.

  A \<open>range\<close> over a map visits the entries in an unspecified order. The loops whose order shows
  in the appended orders take that order as a function on the entry list; what does not
  depend on it is proved for every permutation.
\<close>

section \<open>Modifiers and data\<close>

record OCOLeg =
  leg_OrderType :: OrderType
  leg_Price :: f64

datatype OrderModifier =
    limitModifier f64
  | stopModifier f64
  | dayOrderModifier
  | goodTilCancelModifier
  | fillOrKillModifier
  | immediateOrCancelModifier
  | onTheOpenModifier
  | onTheCloseModifier
  | goodTilDateModifier gotime
  | justificationModifier string
  | lotSelectionModifier LotSelection
  | bracketModifier exitTarget exitTarget
  | ocoModifier OCOLeg OCOLeg

definition exitTarget_zero :: exitTarget where
  "exitTarget_zero = \<lparr>AbsolutePrice = 0, PercentOffset = 0\<rparr>"

definition StopLossPrice :: "f64 \<Rightarrow> exitTarget" where
  "StopLossPrice price = exitTarget_zero\<lparr>AbsolutePrice := price\<rparr>"

definition StopLossPercent :: "f64 \<Rightarrow> exitTarget" where
  "StopLossPercent pct = exitTarget_zero\<lparr>PercentOffset := - pct / 100\<rparr>"

definition TakeProfitPrice :: "f64 \<Rightarrow> exitTarget" where
  "TakeProfitPrice price = exitTarget_zero\<lparr>AbsolutePrice := price\<rparr>"

definition TakeProfitPercent :: "f64 \<Rightarrow> exitTarget" where
  "TakeProfitPercent pct = exitTarget_zero\<lparr>PercentOffset := pct / 100\<rparr>"

definition StopLeg :: "f64 \<Rightarrow> OCOLeg" where
  "StopLeg price = \<lparr>leg_OrderType = Stop, leg_Price = price\<rparr>"

definition LimitLeg :: "f64 \<Rightarrow> OCOLeg" where
  "LimitLeg price = \<lparr>leg_OrderType = Limit, leg_Price = price\<rparr>"

record Allocation =
  al_Date :: gotime
  al_Members :: "(asset, f64) gomap"
  al_Justification :: string

record OrderOutcome =
  oc_Order :: order
  oc_Filled :: bool
  oc_Qty :: f64
  oc_Price :: f64
  oc_Err :: "goerr option"

record batch =
  b_Timestamp :: gotime
  b_Orders :: "order list"
  b_Annotations :: "(string, string) gomap"
  b_Outcomes :: "OrderOutcome list"
  b_batchID :: nat
  b_executed :: nat
  b_executedGroups :: nat
  b_SkipMiddleware :: bool
  b_groups :: "orderGroupSpec list"

definition NewBatch :: "gotime \<Rightarrow> batch" where
  "NewBatch timestamp = \<lparr>b_Timestamp = timestamp, b_Orders = [], b_Annotations = [], b_Outcomes = [],
     b_batchID = 0, b_executed = 0, b_executedGroups = 0, b_SkipMiddleware = False, b_groups = []\<rparr>"

definition FailedOrders :: "batch \<Rightarrow> OrderOutcome list" where
  "FailedOrders b = filter (\<lambda>outcome. \<not> oc_Filled outcome) (b_Outcomes b)"

definition unexecutedOrders :: "batch \<Rightarrow> order list" where
  "unexecutedOrders b = drop (b_executed b) (b_Orders b)"

definition batch_Annotate :: "string \<Rightarrow> string \<Rightarrow> batch \<Rightarrow> batch" where
  "batch_Annotate key val b = b\<lparr>b_Annotations := mput key val (b_Annotations b)\<rparr>"

section \<open>Building orders\<close>

record modState =
  ms_order :: order
  ms_hasLimit :: bool
  ms_hasStop :: bool
  ms_bracket :: "(exitTarget \<times> exitTarget) option"
  ms_oco :: "(OCOLeg \<times> OCOLeg) option"

fun apply_modifier :: "modState \<Rightarrow> OrderModifier \<Rightarrow> modState" where
  "apply_modifier s (limitModifier p) = s\<lparr>ms_order := ms_order s\<lparr>o_LimitPrice := p\<rparr>, ms_hasLimit := True\<rparr>"
| "apply_modifier s (stopModifier p) = s\<lparr>ms_order := ms_order s\<lparr>o_StopPrice := p\<rparr>, ms_hasStop := True\<rparr>"
| "apply_modifier s dayOrderModifier = s\<lparr>ms_order := ms_order s\<lparr>o_TimeInForce := Day\<rparr>\<rparr>"
| "apply_modifier s goodTilCancelModifier = s\<lparr>ms_order := ms_order s\<lparr>o_TimeInForce := GTC\<rparr>\<rparr>"
| "apply_modifier s fillOrKillModifier = s\<lparr>ms_order := ms_order s\<lparr>o_TimeInForce := FOK\<rparr>\<rparr>"
| "apply_modifier s immediateOrCancelModifier = s\<lparr>ms_order := ms_order s\<lparr>o_TimeInForce := IOC\<rparr>\<rparr>"
| "apply_modifier s onTheOpenModifier = s\<lparr>ms_order := ms_order s\<lparr>o_TimeInForce := OnOpen\<rparr>\<rparr>"
| "apply_modifier s onTheCloseModifier = s\<lparr>ms_order := ms_order s\<lparr>o_TimeInForce := OnClose\<rparr>\<rparr>"
| "apply_modifier s (goodTilDateModifier d) = s\<lparr>ms_order := ms_order s\<lparr>o_TimeInForce := GTD, o_GTDDate := d\<rparr>\<rparr>"
| "apply_modifier s (justificationModifier r) = s\<lparr>ms_order := ms_order s\<lparr>o_Justification := r\<rparr>\<rparr>"
| "apply_modifier s (lotSelectionModifier m) = s\<lparr>ms_order := ms_order s\<lparr>o_LotSelection := m\<rparr>\<rparr>"
| "apply_modifier s (bracketModifier sl tp) = s\<lparr>ms_bracket := Some (sl, tp)\<rparr>"
| "apply_modifier s (ocoModifier la lb) = s\<lparr>ms_oco := Some (la, lb)\<rparr>"

definition applyOrderModifiers ::
    "order \<Rightarrow> OrderModifier list \<Rightarrow> order \<times> (exitTarget \<times> exitTarget) option \<times> (OCOLeg \<times> OCOLeg) option" where
  "applyOrderModifiers ord mods =
     (let s = foldl apply_modifier
            \<lparr>ms_order = ord, ms_hasLimit = False, ms_hasStop = False, ms_bracket = None, ms_oco = None\<rparr> mods;
          ord' = (if ms_hasLimit s \<and> ms_hasStop s then (ms_order s)\<lparr>o_OrderType := StopLimit\<rparr>
                  else if ms_hasLimit s then (ms_order s)\<lparr>o_OrderType := Limit\<rparr>
                  else if ms_hasStop s then (ms_order s)\<lparr>o_OrderType := Stop\<rparr>
                  else ms_order s)
      in (ord', ms_bracket s, ms_oco s))"

definition oco_leg_order :: "order \<Rightarrow> asset \<Rightarrow> f64 \<Rightarrow> string \<Rightarrow> GroupRole \<Rightarrow> OCOLeg \<Rightarrow> order" where
  "oco_leg_order ord ast qty groupID role leg =
     (let base = order_zero\<lparr>o_Asset := ast, o_Side := o_Side ord, o_Qty := qty,
                   o_TimeInForce := o_TimeInForce ord, o_GTDDate := o_GTDDate ord, o_GroupID := groupID,
                   o_GroupRole := role, o_OrderType := leg_OrderType leg\<rparr>
      in if leg_OrderType leg = Stop then base\<lparr>o_StopPrice := leg_Price leg\<rparr>
         else base\<lparr>o_LimitPrice := leg_Price leg\<rparr>)"

definition group_id :: "string \<Rightarrow> gotime \<Rightarrow> nat \<Rightarrow> string" where
  "group_id prefix ts n = prefix @ ''-'' @ show_int ts @ ''-'' @ show_nat n"

definition batch_Order :: "asset \<Rightarrow> Side \<Rightarrow> f64 \<Rightarrow> OrderModifier list \<Rightarrow> batch \<Rightarrow> batch" where
  "batch_Order ast side qty mods b =
     (let order0 = order_zero\<lparr>o_Asset := ast, o_Qty := qty, o_OrderType := Market, o_TimeInForce := Day,
                     o_Side := side\<rparr>;
          (ord, bracket, oco) = applyOrderModifiers order0 mods;
          groupIndex = length (b_groups b);
          ts = b_Timestamp b
      in case oco of
           Some (legA, legB) \<Rightarrow>
             let groupID = group_id ''oco'' ts groupIndex in
             b\<lparr>b_Orders := b_Orders b @ [oco_leg_order ord ast qty groupID RoleStopLoss legA,
                                          oco_leg_order ord ast qty groupID RoleTakeProfit legB],
               b_groups := b_groups b @ [\<lparr>gs_GroupID = groupID, gs_Type = GroupOCO, gs_EntryIndex = -1,
                              gs_StopLoss = exitTarget_zero, gs_TakeProfit = exitTarget_zero\<rparr>]\<rparr>
         | None \<Rightarrow>
             (case bracket of
                Some (sl, tp) \<Rightarrow>
                  let groupID = group_id ''bracket'' ts groupIndex in
                  b\<lparr>b_Orders := b_Orders b @ [ord\<lparr>o_GroupID := groupID, o_GroupRole := RoleEntry\<rparr>],
                    b_groups := b_groups b @ [\<lparr>gs_GroupID = groupID, gs_Type = GroupBracket,
                                   gs_EntryIndex = int (length (b_Orders b)),
                                   gs_StopLoss = sl, gs_TakeProfit = tp\<rparr>]\<rparr>
              | None \<Rightarrow> b\<lparr>b_Orders := b_Orders b @ [ord]\<rparr>))"

section \<open>The projected state\<close>

definition batch_priceOf :: "account \<Rightarrow> asset \<Rightarrow> f64" where
  "batch_priceOf port ast =
     (let qty = Position port ast in
      if \<not> feq qty 0 then PositionValue port ast / qty
      else case a_prices port of None \<Rightarrow> 0
        | Some prices \<Rightarrow> let v = df_Value prices ast MetricClose in if isNaN v then 0 else v)"

definition order_shares :: "account \<Rightarrow> order \<Rightarrow> f64" where
  "order_shares port ord =
     (let price = batch_priceOf port (o_Asset ord) in
      if \<not> feq (o_Qty ord) 0 then o_Qty ord
      else if price > 0 \<and> o_Amount ord > 0 then floorF (o_Amount ord / price)
      else 0)"

definition project_order :: "account \<Rightarrow> gotime \<Rightarrow> (asset, f64) gomap \<Rightarrow> order \<Rightarrow> (asset, f64) gomap" where
  "project_order port ts holdings ord =
     (let qty = order_shares port ord;
          subs = ActiveSubstitutions port;
          orderAsset = (if subs \<noteq> [] then mapToLogical (o_Asset ord) subs ts else o_Asset ord);
          cur = mget 0 holdings orderAsset;
          new = (case o_Side ord of Buy \<Rightarrow> cur + qty | Sell \<Rightarrow> cur - qty);
          holdings1 = mput orderAsset new holdings
      in if feq new 0 then mdel orderAsset holdings1 else holdings1)"

definition ProjectedHoldings :: "account \<Rightarrow> batch \<Rightarrow> (asset, f64) gomap" where
  "ProjectedHoldings port b =
     foldl (project_order port (b_Timestamp b)) (Holdings port) (unexecutedOrders b)"

definition order_dollars :: "account \<Rightarrow> order \<Rightarrow> f64" where
  "order_dollars port ord =
     (let price = batch_priceOf port (o_Asset ord) in
      if o_Amount ord > 0 then o_Amount ord
      else if \<not> feq (o_Qty ord) 0 \<and> price > 0 then o_Qty ord * price
      else 0)"

definition projectedCash :: "account \<Rightarrow> batch \<Rightarrow> f64" where
  "projectedCash port b =
     foldl (\<lambda>cash ord. case o_Side ord of Buy \<Rightarrow> cash - order_dollars port ord
                       | Sell \<Rightarrow> cash + order_dollars port ord) (a_cash port) (unexecutedOrders b)"

definition pendingDollarFlow :: "batch \<Rightarrow> asset \<Rightarrow> f64" where
  "pendingDollarFlow b ast =
     foldl (\<lambda>flow ord.
        if o_Asset ord \<noteq> ast \<or> o_Amount ord \<le> 0 then flow
        else case o_Side ord of Buy \<Rightarrow> flow + o_Amount ord | Sell \<Rightarrow> flow - o_Amount ord)
      0 (unexecutedOrders b)"

fun pending_unpriced_loop :: "account \<Rightarrow> batch \<Rightarrow> asset list \<Rightarrow> f64 \<Rightarrow> order list \<Rightarrow> f64" where
  "pending_unpriced_loop port b seen tot [] = tot"
| "pending_unpriced_loop port b seen tot (ord # ords) =
     (let ast = o_Asset ord in
      if ast \<in> set seen then pending_unpriced_loop port b seen tot ords
      else if batch_priceOf port ast > 0 then pending_unpriced_loop port b (ast # seen) tot ords
      else pending_unpriced_loop port b (ast # seen) (tot + pendingDollarFlow b ast) ords)"

definition pendingUnpricedValue :: "account \<Rightarrow> batch \<Rightarrow> f64" where
  "pendingUnpricedValue port b = pending_unpriced_loop port b [] 0 (unexecutedOrders b)"

definition ProjectedValue :: "account \<Rightarrow> batch \<Rightarrow> f64" where
  "ProjectedValue port b =
     foldl (\<lambda>total (ast, qty). let price = batch_priceOf port ast in
              if price > 0 then total + qty * price else total)
       (projectedCash port b) (ProjectedHoldings port b)
     + pendingUnpricedValue port b"

definition ProjectedWeights :: "account \<Rightarrow> batch \<Rightarrow> (asset, f64) gomap" where
  "ProjectedWeights port b =
     (let total = ProjectedValue port b in
      if feq total 0 then []
      else List.map_filter (\<lambda>(ast, qty). let price = batch_priceOf port ast in
             if price > 0 then Some (ast, (qty * price) / total) else None) (ProjectedHoldings port b))"

definition projectedPositionValue :: "account \<Rightarrow> batch \<Rightarrow> asset \<Rightarrow> f64" where
  "projectedPositionValue port b ast =
     (let price = batch_priceOf port ast in
      if price \<le> 0 then pendingDollarFlow b ast
      else mget 0 (ProjectedHoldings port b) ast * price)"

section \<open>Sized orders\<close>

definition add_plain_order :: "string \<Rightarrow> order \<Rightarrow> OrderModifier list \<Rightarrow> batch \<Rightarrow> goerr option \<times> batch" where
  "add_plain_order msg order0 mods b =
     (case applyOrderModifiers order0 mods of
        (ord, bracket, oco) \<Rightarrow>
          if bracket \<noteq> None \<or> oco \<noteq> None then (Some (Err msg), b)
          else (None, b\<lparr>b_Orders := b_Orders b @ [ord]\<rparr>))"

definition Allocate :: "account \<Rightarrow> asset \<Rightarrow> f64 \<Rightarrow> OrderModifier list \<Rightarrow> batch \<Rightarrow> goerr option \<times> batch" where
  "Allocate port ast weight mods b =
     (let targetDollars = weight * ProjectedValue port b;
          diff = targetDollars - projectedPositionValue port b ast
      in if feq diff 0 then (None, b)
         else add_plain_order ''portfolio: Allocate does not support bracket or OCO modifiers''
                (order_zero\<lparr>o_Asset := ast, o_Amount := absF diff, o_OrderType := Market,
                   o_TimeInForce := Day, o_Side := (if diff < 0 then Sell else Buy)\<rparr>) mods b)"

definition Liquidate :: "account \<Rightarrow> asset \<Rightarrow> OrderModifier list \<Rightarrow> batch \<Rightarrow> goerr option \<times> batch" where
  "Liquidate port ast mods b =
     (let qty = mget 0 (ProjectedHoldings port b) ast in
      if feq qty 0 then (None, b)
      else add_plain_order ''portfolio: Liquidate does not support bracket or OCO modifiers''
             (order_zero\<lparr>o_Asset := ast, o_Qty := absF qty, o_OrderType := Market,
                o_TimeInForce := Day, o_Side := (if qty < 0 then Buy else Sell)\<rparr>) mods b)"

text \<open>The iteration orders of the three \<open>range\<close> loops of a rebalance.\<close>

type_synonym range_order = "(asset \<times> f64) list \<Rightarrow> (asset \<times> f64) list"

definition rebalance_order :: "string \<Rightarrow> asset \<Rightarrow> Side \<Rightarrow> f64 \<Rightarrow> f64 \<Rightarrow> order" where
  "rebalance_order just ast side qty amount =
     order_zero\<lparr>o_Asset := ast, o_Side := side, o_Qty := qty, o_Amount := amount,
       o_OrderType := Market, o_TimeInForce := Day, o_Justification := just\<rparr>"

definition alloc_members :: "Allocation \<Rightarrow> (asset, f64) gomap" where
  "alloc_members alloc = filter (\<lambda>(m, _). Ticker m \<noteq> ''$CASH'') (al_Members alloc)"

definition dropped_positions :: "range_order \<Rightarrow> account \<Rightarrow> (asset, f64) gomap \<Rightarrow> batch \<Rightarrow> (asset, f64) gomap" where
  "dropped_positions itHeld port members b =
     filter (\<lambda>(ast, qty). \<not> mhas members ast \<and> \<not> feq qty 0) (itHeld (ProjectedHoldings port b))"

definition liquidation_orders :: "string \<Rightarrow> (asset, f64) gomap \<Rightarrow> order list" where
  "liquidation_orders just positions =
     map (\<lambda>(ast, qty). rebalance_order just ast Sell qty 0) (filter (\<lambda>(_, qty). qty > 0) positions)"

definition cover_orders :: "string \<Rightarrow> (asset, f64) gomap \<Rightarrow> order list" where
  "cover_orders just positions =
     map (\<lambda>(ast, qty). rebalance_order just ast Buy (absF qty) 0) (filter (\<lambda>(_, qty). \<not> qty > 0) positions)"

definition trim_orders :: "account \<Rightarrow> batch \<Rightarrow> string \<Rightarrow> f64 \<Rightarrow> (asset, f64) gomap \<Rightarrow> order list" where
  "trim_orders port b just totalValue members =
     List.map_filter (\<lambda>(ast, weight).
       let diff = weight * totalValue - projectedPositionValue port b ast in
       if diff < 0 then Some (rebalance_order just ast Sell 0 (- diff)) else None) members"

definition buy_orders :: "account \<Rightarrow> batch \<Rightarrow> string \<Rightarrow> f64 \<Rightarrow> (asset, f64) gomap \<Rightarrow> order list" where
  "buy_orders port b just postSellValue members =
     List.map_filter (\<lambda>(ast, weight).
       let diff = weight * postSellValue - projectedPositionValue port b ast in
       if diff > 0 then Some (rebalance_order just ast Buy 0 diff) else None) members"

definition rebalance_one ::
    "range_order \<Rightarrow> range_order \<Rightarrow> range_order \<Rightarrow> account \<Rightarrow> Allocation \<Rightarrow> batch \<Rightarrow> batch" where
  "rebalance_one itHeld itSell itBuy port alloc b =
     (let members = alloc_members alloc;
          just = al_Justification alloc;
          totalValue = ProjectedValue port b;
          dropped = dropped_positions itHeld port members b;
          sells = liquidation_orders just dropped @ trim_orders port b just totalValue (itSell members);
          b1 = b\<lparr>b_Orders := b_Orders b @ sells @ cover_orders just dropped\<rparr>;
          postSellValue = ProjectedValue port b1
      in b1\<lparr>b_Orders := b_Orders b1 @ buy_orders port b1 just postSellValue (itBuy members)\<rparr>)"

definition batch_RebalanceTo ::
    "range_order \<Rightarrow> range_order \<Rightarrow> range_order \<Rightarrow> account \<Rightarrow> Allocation list \<Rightarrow> batch \<Rightarrow> batch" where
  "batch_RebalanceTo itHeld itSell itBuy port allocs b =
     foldl (\<lambda>b alloc. rebalance_one itHeld itSell itBuy port alloc b) b allocs"

section \<open>Order building\<close>

lemma apply_modifier_keeps [order_frame]:
  "o_Asset (ms_order (foldl apply_modifier s mods)) = o_Asset (ms_order s)"
  "o_Side (ms_order (foldl apply_modifier s mods)) = o_Side (ms_order s)"
  "o_Qty (ms_order (foldl apply_modifier s mods)) = o_Qty (ms_order s)"
  "o_Amount (ms_order (foldl apply_modifier s mods)) = o_Amount (ms_order s)"
  "o_OrderType (ms_order (foldl apply_modifier s mods)) = o_OrderType (ms_order s)"
proof (induction mods arbitrary: s)
  case (Cons m mods)
  {
    case 1 then show ?case by (cases m) (simp_all add: Cons)
  next
    case 2 then show ?case by (cases m) (simp_all add: Cons)
  next
    case 3 then show ?case by (cases m) (simp_all add: Cons)
  next
    case 4 then show ?case by (cases m) (simp_all add: Cons)
  next
    case 5 then show ?case by (cases m) (simp_all add: Cons)
  }
qed simp_all

definition has_limit :: "OrderModifier list \<Rightarrow> bool" where
  "has_limit mods = list_ex (\<lambda>m. case m of limitModifier _ \<Rightarrow> True | _ \<Rightarrow> False) mods"
definition has_stop :: "OrderModifier list \<Rightarrow> bool" where
  "has_stop mods = list_ex (\<lambda>m. case m of stopModifier _ \<Rightarrow> True | _ \<Rightarrow> False) mods"
definition has_bracket :: "OrderModifier list \<Rightarrow> bool" where
  "has_bracket mods = list_ex (\<lambda>m. case m of bracketModifier _ _ \<Rightarrow> True | _ \<Rightarrow> False) mods"
definition has_oco :: "OrderModifier list \<Rightarrow> bool" where
  "has_oco mods = list_ex (\<lambda>m. case m of ocoModifier _ _ \<Rightarrow> True | _ \<Rightarrow> False) mods"

lemmas has_defs = has_limit_def has_stop_def has_bracket_def has_oco_def

lemma foldl_modifier_flags:
  "ms_hasLimit (foldl apply_modifier s mods) \<longleftrightarrow> ms_hasLimit s \<or> has_limit mods"
  "ms_hasStop (foldl apply_modifier s mods) \<longleftrightarrow> ms_hasStop s \<or> has_stop mods"
  "ms_bracket (foldl apply_modifier s mods) = None \<longleftrightarrow> ms_bracket s = None \<and> \<not> has_bracket mods"
  "ms_oco (foldl apply_modifier s mods) = None \<longleftrightarrow> ms_oco s = None \<and> \<not> has_oco mods"
proof (induction mods arbitrary: s)
  case (Cons m mods)
  {
    case 1 then show ?case by (cases m) (simp_all add: Cons, simp_all add: has_defs)
  next
    case 2 then show ?case by (cases m) (simp_all add: Cons, simp_all add: has_defs)
  next
    case 3 then show ?case by (cases m) (simp_all add: Cons, simp_all add: has_defs)
  next
    case 4 then show ?case by (cases m) (simp_all add: Cons, simp_all add: has_defs)
  }
qed (simp_all add: has_defs)

lemma applyOrderModifiers_spec:
  assumes "applyOrderModifiers ord mods = (ord', br, oco)"
  shows "o_Asset ord' = o_Asset ord" "o_Side ord' = o_Side ord" "o_Qty ord' = o_Qty ord" "o_Amount ord' = o_Amount ord"
    "o_OrderType ord' = (if has_limit mods \<and> has_stop mods then StopLimit else if has_limit mods then Limit
       else if has_stop mods then Stop else o_OrderType ord)"
    "br = None \<longleftrightarrow> \<not> has_bracket mods" "oco = None \<longleftrightarrow> \<not> has_oco mods"
proof -
  define s where "s = foldl apply_modifier
     \<lparr>ms_order = ord, ms_hasLimit = False, ms_hasStop = False, ms_bracket = None, ms_oco = None\<rparr> mods"
  have flags: "ms_hasLimit s = has_limit mods" "ms_hasStop s = has_stop mods"
    "ms_bracket s = None \<longleftrightarrow> \<not> has_bracket mods" "ms_oco s = None \<longleftrightarrow> \<not> has_oco mods"
    by (simp_all add: s_def foldl_modifier_flags)
  have frame: "o_Asset (ms_order s) = o_Asset ord" "o_Side (ms_order s) = o_Side ord" "o_Qty (ms_order s) = o_Qty ord"
    "o_Amount (ms_order s) = o_Amount ord" "o_OrderType (ms_order s) = o_OrderType ord"
    by (simp_all add: s_def order_frame)
  note r = assms [unfolded applyOrderModifiers_def Let_def s_def [symmetric] flags]
  show "o_Asset ord' = o_Asset ord" "o_Side ord' = o_Side ord" "o_Qty ord' = o_Qty ord" "o_Amount ord' = o_Amount ord"
    "o_OrderType ord' = (if has_limit mods \<and> has_stop mods then StopLimit else if has_limit mods then Limit
       else if has_stop mods then Stop else o_OrderType ord)"
    "br = None \<longleftrightarrow> \<not> has_bracket mods" "oco = None \<longleftrightarrow> \<not> has_oco mods"
    using r flags(3,4) frame by (auto split: if_splits)
qed

lemma add_plain_order_spec:
  assumes "\<not> has_bracket mods" "\<not> has_oco mods"
  obtains ord where "add_plain_order msg o0 mods b = (None, b\<lparr>b_Orders := b_Orders b @ [ord]\<rparr>)"
    "o_Asset ord = o_Asset o0" "o_Side ord = o_Side o0" "o_Qty ord = o_Qty o0" "o_Amount ord = o_Amount o0"
proof -
  obtain ord br oco where app: "applyOrderModifiers o0 mods = (ord, br, oco)" by (metis prod_cases3)
  show thesis
    using that [of ord] applyOrderModifiers_spec [OF app] assms app by (simp add: add_plain_order_def)
qed

section \<open>Projections\<close>

definition signed :: "Side \<Rightarrow> f64 \<Rightarrow> f64" where
  "signed side x = (case side of Buy \<Rightarrow> x | Sell \<Rightarrow> - x)"

lemma f64_diff: "x - y = x + (- y)" for x y :: f64
  by (simp add: minus_f64_def)

lemma signed_case:
  "(case side of Buy \<Rightarrow> x + y | Sell \<Rightarrow> x - y) = x + signed side y"
  "(case side of Buy \<Rightarrow> x - y | Sell \<Rightarrow> x + y) = x - signed side y"
  by (cases side; cases y; simp add: signed_def f64_diff)+

lemma mget_project_order:
  assumes "a_substitutions port = []"
  shows "mget (Fin 0) (project_order port ts m ord) x
       = mget (Fin 0) m x + (if x = o_Asset ord then signed (o_Side ord) (order_shares port ord) else Fin 0)"
  using assms
  by (auto simp: project_order_def Let_def ActiveSubstitutions_def signed_case feq_def)

lemma unexecuted_snoc:
  "b_executed b \<le> length (b_Orders b) \<Longrightarrow>
   unexecutedOrders (b\<lparr>b_Orders := b_Orders b @ xs\<rparr>) = unexecutedOrders b @ xs"
  by (simp add: unexecutedOrders_def)

lemma ProjectedHoldings_snoc:
  assumes "b_executed b \<le> length (b_Orders b)"
  shows "ProjectedHoldings port (b\<lparr>b_Orders := b_Orders b @ [ord]\<rparr>)
       = project_order port (b_Timestamp b) (ProjectedHoldings port b) ord"
  using assms by (simp add: ProjectedHoldings_def unexecuted_snoc)

lemma Liquidate_flat:
  assumes wf: "b_executed b \<le> length (b_Orders b)" and subs: "a_substitutions port = []"
    and fin: "fin (mget 0 (ProjectedHoldings port b) ast)"
    and mods: "\<not> has_bracket mods" "\<not> has_oco mods"
  shows "\<exists>b'. Liquidate port ast mods b = (None, b')
     \<and> (\<forall>x. mget 0 (ProjectedHoldings port b') x
             = (if x = ast then 0 else mget 0 (ProjectedHoldings port b) x))"
proof -
  define q where "q = mget 0 (ProjectedHoldings port b) ast"
  obtain r where r: "q = Fin r" using fin by (auto simp: q_def fin_iff)
  show ?thesis
  proof (cases "r = 0")
    case True
    then show ?thesis using r by (auto simp: Liquidate_def Let_def q_def)
  next
    case False
    define o0 where "o0 = order_zero\<lparr>o_Asset := ast, o_Qty := absF q, o_OrderType := Market,
                o_TimeInForce := Day, o_Side := (if q < 0 then Buy else Sell)\<rparr>"
    obtain ord where ord: "Liquidate port ast mods b = (None, b\<lparr>b_Orders := b_Orders b @ [ord]\<rparr>)"
      "o_Asset ord = ast" "o_Side ord = (if q < 0 then Buy else Sell)" "o_Qty ord = absF q"
    proof (rule add_plain_order_spec [OF mods, of _ o0 b])
      fix ord
      assume "add_plain_order ''portfolio: Liquidate does not support bracket or OCO modifiers'' o0 mods b
          = (None, b\<lparr>b_Orders := b_Orders b @ [ord]\<rparr>)"
        "o_Asset ord = o_Asset o0" "o_Side ord = o_Side o0" "o_Qty ord = o_Qty o0"
      then show thesis using that [of ord] False r
        by (simp add: Liquidate_def Let_def o0_def flip: q_def [unfolded zero_f64_Fin])
    qed
    have "order_shares port ord = Fin \<bar>r\<bar>" using ord(4) r False by (simp add: order_shares_def Let_def)
    then have "mget (Fin 0) (ProjectedHoldings port (b\<lparr>b_Orders := b_Orders b @ [ord]\<rparr>)) x
        = (if x = ast then Fin 0 else mget (Fin 0) (ProjectedHoldings port b) x)" for x
      using ord(2,3) r False q_def
      by (auto simp: ProjectedHoldings_snoc [OF wf] mget_project_order [OF subs] signed_def)
    then show ?thesis using ord(1) by auto
  qed
qed

section \<open>Projected value\<close>

abbreviation fin_entries :: "(asset, f64) gomap \<Rightarrow> bool" where
  "fin_entries m \<equiv> list_all (\<lambda>p. fin (snd p)) m"

definition held_value :: "(asset \<Rightarrow> real) \<Rightarrow> (asset, f64) gomap \<Rightarrow> real" where
  "held_value w m = (\<Sum>p\<leftarrow>m. fval (snd p) * w (fst p))"

lemma held_value_simps [simp]:
  "held_value w [] = 0" "held_value w ((k, q) # m) = fval q * w k + held_value w m"
  by (simp_all add: held_value_def)

lemma held_value_put:
  "held_value w (mput k v m) = held_value w m + (fval v - fval (mget (Fin 0) m k)) * w k"
  by (induction m) (auto simp: algebra_simps)

lemma held_value_not_has: "\<not> mhas m k \<Longrightarrow> mdel k m = m"
  by (induction m) (auto simp: mhas_def)

lemma held_value_del:
  "mwf m \<Longrightarrow> held_value w (mdel k m) = held_value w m - fval (mget (Fin 0) m k) * w k"
proof (induction m)
  case (Cons p m)
  obtain k' q where p: "p = (k', q)" by force
  have "\<not> mhas m k'" using Cons.prems by (auto simp: p mhas_iff_key)
  then show ?case using Cons by (auto simp: p held_value_not_has)
qed simp

lemma fin_entries_put: "fin_entries m \<Longrightarrow> fin v \<Longrightarrow> fin_entries (mput k v m)"
  using set_mput_subset [of k v m] by (auto simp: list_all_iff)

lemma fin_entries_del: "fin_entries m \<Longrightarrow> fin_entries (mdel k m)"
  by (auto simp: list_all_iff set_mdel)

lemma fin_entries_get: "fin_entries m \<Longrightarrow> fin (mget (Fin 0) m k)"
  by (auto simp: list_all_iff mget_def split: option.splits dest!: map_of_SomeD)

lemma signed_fin [simp]: "fin (signed s x) \<longleftrightarrow> fin x"
  by (cases s; cases x) (auto simp: signed_def)

lemma fval_signed: "fval (signed s x) = (case s of Buy \<Rightarrow> fval x | Sell \<Rightarrow> - fval x)"
  by (cases s) (auto simp: signed_def)

lemma project_order_value:
  assumes "a_substitutions port = []" "mwf m" "fin_entries m" "fin (order_shares port ord)"
  shows "mwf (project_order port ts m ord)" "fin_entries (project_order port ts m ord)"
    "held_value w (project_order port ts m ord)
       = held_value w m + fval (signed (o_Side ord) (order_shares port ord)) * w (o_Asset ord)"
proof -
  let ?n = "mget (Fin 0) m (o_Asset ord) + signed (o_Side ord) (order_shares port ord)"
  have n: "fin ?n" "fval ?n = fval (mget (Fin 0) m (o_Asset ord)) + fval (signed (o_Side ord) (order_shares port ord))"
    using fin_entries_get [OF assms(3)] assms(4) by simp_all
  have p: "project_order port ts m ord = (if feq ?n (Fin 0) then mdel (o_Asset ord) (mput (o_Asset ord) ?n m)
      else mput (o_Asset ord) ?n m)"
    using assms(1) by (simp add: project_order_def Let_def ActiveSubstitutions_def signed_case)
  show "mwf (project_order port ts m ord)" "fin_entries (project_order port ts m ord)"
    using assms n by (auto simp: p fin_entries_put fin_entries_del)
  have "held_value w (project_order port ts m ord)
       = held_value w m + (fval ?n - fval (mget (Fin 0) m (o_Asset ord))) * w (o_Asset ord)"
    using assms(2) n(1) by (auto simp: p held_value_put held_value_del fin_feq)
  then show "held_value w (project_order port ts m ord)
       = held_value w m + fval (signed (o_Side ord) (order_shares port ord)) * w (o_Asset ord)"
    using n(2) by simp
qed

text \<open>A portfolio and a batch the projections are well defined on.\<close>

definition order_fin :: "order \<Rightarrow> bool" where
  "order_fin ord \<longleftrightarrow> fin (o_Qty ord) \<and> fin (o_Amount ord)"

definition projectable :: "account \<Rightarrow> batch \<Rightarrow> bool" where
  "projectable port b \<longleftrightarrow> a_substitutions port = [] \<and> mwf (a_holdings port) \<and> fin_entries (a_holdings port)
     \<and> fin (a_cash port) \<and> (\<forall>ast. fin (batch_priceOf port ast))
     \<and> b_executed b \<le> length (b_Orders b) \<and> list_all order_fin (b_Orders b)"

lemma order_shares_fin:
  assumes "fin (batch_priceOf port (o_Asset ord))" "order_fin ord"
  shows "fin (order_shares port ord)" "fin (order_dollars port ord)"
proof -
  obtain p q a where "batch_priceOf port (o_Asset ord) = Fin p" "o_Qty ord = Fin q" "o_Amount ord = Fin a"
    using assms by (auto simp: order_fin_def fin_iff)
  then show "fin (order_shares port ord)" "fin (order_dollars port ord)"
    by (auto simp: order_shares_def order_dollars_def Let_def)
qed

lemma projectable_unexecuted: "projectable port b \<Longrightarrow> list_all order_fin (unexecutedOrders b)"
  by (auto simp: projectable_def unexecutedOrders_def list_all_iff dest: in_set_dropD)

lemma projectable_snoc:
  "projectable port b \<Longrightarrow> order_fin ord \<Longrightarrow> projectable port (b\<lparr>b_Orders := b_Orders b @ [ord]\<rparr>)"
  by (simp add: projectable_def)

lemma ProjectedHoldings_wf:
  assumes "projectable port b"
  shows "mwf (ProjectedHoldings port b) \<and> fin_entries (ProjectedHoldings port b)"
proof -
  have "mwf (foldl (project_order port ts) m ords) \<and> fin_entries (foldl (project_order port ts) m ords)"
    if "list_all order_fin ords" "mwf m" "fin_entries m" for ords m ts
    using that assms
    by (induction ords arbitrary: m) (auto simp: project_order_value order_shares_fin projectable_def)
  then show ?thesis
    using assms projectable_unexecuted [OF assms]
    by (simp add: ProjectedHoldings_def Holdings_def projectable_def)
qed

text \<open>The weight of a share in the projected value: its price, if it has one.\<close>

definition share_weight :: "account \<Rightarrow> asset \<Rightarrow> real" where
  "share_weight port ast = max 0 (fval (batch_priceOf port ast))"

lemma holdings_fold:
  assumes "\<forall>ast. fin (batch_priceOf port ast)" "fin_entries m"
  shows "foldl (\<lambda>total (ast, qty). let price = batch_priceOf port ast in
              if price > 0 then total + qty * price else total) z m = z + Fin (held_value (share_weight port) m)"
  using assms(2)
proof (induction m arbitrary: z)
  case (Cons p m)
  obtain k q where p: "p = (k, q)" by force
  obtain r x where "batch_priceOf port k = Fin r" "q = Fin x"
    using assms(1) [rule_format, of k] Cons.prems by (auto simp: p fin_iff)
  then show ?case using Cons by (cases z) (auto simp: p share_weight_def Let_def)
qed simp

text \<open>The dollars of unpriced orders, order by order.\<close>

definition unpriced_amount :: "account \<Rightarrow> order \<Rightarrow> f64" where
  "unpriced_amount port ord =
     (if \<not> batch_priceOf port (o_Asset ord) > 0 \<and> \<not> o_Amount ord \<le> 0
      then signed (o_Side ord) (o_Amount ord) else 0)"

lemma pendingDollarFlow_sum:
  "pendingDollarFlow b ast = sum_list (map (\<lambda>ord. if o_Asset ord = ast \<and> \<not> o_Amount ord \<le> 0
      then signed (o_Side ord) (o_Amount ord) else 0) (unexecutedOrders b))"
proof -
  have "foldl (\<lambda>flow ord. if o_Asset ord \<noteq> ast \<or> o_Amount ord \<le> 0 then flow
        else case o_Side ord of Buy \<Rightarrow> flow + o_Amount ord | Sell \<Rightarrow> flow - o_Amount ord) z xs
      = z + sum_list (map (\<lambda>ord. if o_Asset ord = ast \<and> \<not> o_Amount ord \<le> 0
      then signed (o_Side ord) (o_Amount ord) else 0) xs)" for z and xs :: "order list"
    by (induction xs arbitrary: z) (auto simp: signed_case add.assoc)
  then show ?thesis unfolding pendingDollarFlow_def by simp
qed

lemma pending_unpriced_loop_sum:
  "pending_unpriced_loop port b seen tot ords
   = tot + (\<Sum>ast \<in> {ast \<in> o_Asset ` set ords. ast \<notin> set seen \<and> \<not> batch_priceOf port ast > 0}. pendingDollarFlow b ast)"
proof (induction port b seen tot ords rule: pending_unpriced_loop.induct)
  case (2 port b seen tot ord ords)
  let ?S = "\<lambda>seen ords. {ast \<in> o_Asset ` set ords. ast \<notin> set seen \<and> \<not> batch_priceOf port ast > 0}"
  consider "o_Asset ord \<in> set seen" | "o_Asset ord \<notin> set seen" "batch_priceOf port (o_Asset ord) > 0"
    | "o_Asset ord \<notin> set seen" "\<not> batch_priceOf port (o_Asset ord) > 0" by blast
  then show ?case
  proof cases
    case 1
    then have "?S seen (ord # ords) = ?S seen ords" by auto
    then show ?thesis using 1 2 by simp
  next
    case 2
    then have "?S seen (ord # ords) = ?S (o_Asset ord # seen) ords" by auto
    then show ?thesis using 2 "2.IH"(2) by simp
  next
    case 3
    then have S: "?S seen (ord # ords) = insert (o_Asset ord) (?S (o_Asset ord # seen) ords)" by auto
    show ?thesis unfolding S using 3 "2.IH"(3) by (simp add: Let_def add.assoc)
  qed
qed simp

lemma sum_sum_list: "(\<Sum>a\<in>A. sum_list (map (g a) xs)) = sum_list (map (\<lambda>x. \<Sum>a\<in>A. g a x) xs)"
  for g :: "'a \<Rightarrow> 'b \<Rightarrow> 'c::comm_monoid_add"
  by (induction xs) (auto simp: sum.distrib)

lemma pendingUnpricedValue_sum:
  "pendingUnpricedValue port b = sum_list (map (unpriced_amount port) (unexecutedOrders b))"
proof -
  let ?A = "{ast \<in> o_Asset ` set (unexecutedOrders b). \<not> batch_priceOf port ast > 0}"
  have fin: "finite ?A" by simp
  have "pendingUnpricedValue port b = (\<Sum>ast\<in>?A. pendingDollarFlow b ast)"
    by (simp add: pendingUnpricedValue_def pending_unpriced_loop_sum)
  also have "\<dots> = sum_list (map (\<lambda>ord. \<Sum>ast\<in>?A. if o_Asset ord = ast \<and> \<not> o_Amount ord \<le> 0
      then signed (o_Side ord) (o_Amount ord) else 0) (unexecutedOrders b))"
    by (simp only: pendingDollarFlow_sum sum_sum_list)
  also have "\<dots> = sum_list (map (unpriced_amount port) (unexecutedOrders b))"
  proof (intro arg_cong [where f = sum_list] map_cong refl)
    fix ord assume ord: "ord \<in> set (unexecutedOrders b)"
    let ?v = "if \<not> o_Amount ord \<le> 0 then signed (o_Side ord) (o_Amount ord) else 0"
    have "(\<Sum>ast\<in>?A. if o_Asset ord = ast \<and> \<not> o_Amount ord \<le> 0 then signed (o_Side ord) (o_Amount ord) else 0)
        = (\<Sum>ast\<in>?A. if o_Asset ord = ast then ?v else 0)" by (rule sum.cong) auto
    also have "\<dots> = (if o_Asset ord \<in> ?A then ?v else 0)" by (simp only: sum.delta' [OF fin])
    also have "\<dots> = unpriced_amount port ord" using ord by (simp add: unpriced_amount_def)
    finally show "(\<Sum>ast\<in>?A. if o_Asset ord = ast \<and> \<not> o_Amount ord \<le> 0 then signed (o_Side ord) (o_Amount ord) else 0)
        = unpriced_amount port ord" .
  qed
  finally show ?thesis .
qed

lemma projectedCash_sum:
  "projectedCash port b = a_cash port + sum_list (map (\<lambda>ord. - signed (o_Side ord) (order_dollars port ord)) (unexecutedOrders b))"
proof -
  have "foldl (\<lambda>cash ord. case o_Side ord of Buy \<Rightarrow> cash - order_dollars port ord
                       | Sell \<Rightarrow> cash + order_dollars port ord) z xs
     = z + sum_list (map (\<lambda>ord. - signed (o_Side ord) (order_dollars port ord)) xs)" for z xs
    by (induction xs arbitrary: z) (auto simp: signed_case f64_diff add.assoc)
  then show ?thesis by (simp add: projectedCash_def)
qed

definition value_drift :: "account \<Rightarrow> order \<Rightarrow> f64" where
  "value_drift port ord =
     signed (o_Side ord) (Fin (fval (order_shares port ord) * share_weight port (o_Asset ord)))
     - signed (o_Side ord) (order_dollars port ord) + unpriced_amount port ord"

lemma ProjectedValue_sum:
  assumes "projectable port b"
  shows "ProjectedValue port b = projectedCash port b
     + Fin (held_value (share_weight port) (ProjectedHoldings port b))
     + sum_list (map (unpriced_amount port) (unexecutedOrders b))"
  using assms ProjectedHoldings_wf [OF assms]
  by (simp add: ProjectedValue_def holdings_fold [unfolded zero_f64_Fin] projectable_def pendingUnpricedValue_sum)

lemma ProjectedValue_snoc:
  assumes "projectable port b" "order_fin ord"
  shows "ProjectedValue port (b\<lparr>b_Orders := b_Orders b @ [ord]\<rparr>) = ProjectedValue port b + value_drift port ord"
proof -
  have wf: "b_executed b \<le> length (b_Orders b)" and subs: "a_substitutions port = []"
    and pr: "fin (batch_priceOf port (o_Asset ord))"
    using assms(1) by (simp_all add: projectable_def)
  note H = project_order_value(3) [OF subs ProjectedHoldings_wf [OF assms(1), THEN conjunct1]
      ProjectedHoldings_wf [OF assms(1), THEN conjunct2] order_shares_fin(1) [OF pr assms(2)],
      of "share_weight port" "b_Timestamp b"]
  have drift: "Fin (h + fval (signed s x) * w) = Fin h + signed s (Fin (fval x * w))" for h s x w
    by (cases s) (simp_all add: signed_def)
  show ?thesis
    unfolding ProjectedValue_sum [OF assms(1)] ProjectedValue_sum [OF projectable_snoc [OF assms]]
    by (simp add: projectedCash_sum unexecuted_snoc [OF wf] ProjectedHoldings_snoc [OF wf] H drift
        value_drift_def f64_diff) (simp add: ac_simps)
qed

lemma value_drift_cases:
  assumes "fin (batch_priceOf port (o_Asset ord))" "order_fin ord"
  shows "\<not> batch_priceOf port (o_Asset ord) > 0 \<or> \<not> o_Amount ord > 0 \<Longrightarrow> value_drift port ord = 0"
    "batch_priceOf port (o_Asset ord) > 0 \<Longrightarrow> o_Amount ord > 0 \<Longrightarrow> o_Qty ord = 0 \<Longrightarrow>
     \<exists>d. 0 \<le> d \<and> d < fval (batch_priceOf port (o_Asset ord)) \<and> value_drift port ord = signed (o_Side ord) (Fin (- d))"
proof -
  obtain p q a where v: "batch_priceOf port (o_Asset ord) = Fin p" "o_Qty ord = Fin q" "o_Amount ord = Fin a"
    using assms by (auto simp: order_fin_def fin_iff)
  show "\<not> batch_priceOf port (o_Asset ord) > 0 \<or> \<not> o_Amount ord > 0 \<Longrightarrow> value_drift port ord = 0"
    using v by (cases "o_Side ord"; cases "q = 0"; cases "a > 0"; cases "p > 0")
      (simp_all add: value_drift_def order_shares_def order_dollars_def unpriced_amount_def share_weight_def signed_def Let_def)
  assume pos: "batch_priceOf port (o_Asset ord) > 0" "o_Amount ord > 0" "o_Qty ord = 0"
  define d where "d = a - of_int \<lfloor>a / p\<rfloor> * p"
  have p: "0 < p" "0 < a" "q = 0" using pos v by simp_all
  have "of_int \<lfloor>a / p\<rfloor> * p \<le> a" "a < (of_int \<lfloor>a / p\<rfloor> + 1) * p"
    using p by (simp_all add: pos_le_divide_eq [symmetric] pos_divide_less_eq [symmetric])
  then have "0 \<le> d" "d < p" by (simp_all add: d_def algebra_simps)
  moreover have "value_drift port ord = signed (o_Side ord) (Fin (- d))"
    using v p by (cases "o_Side ord")
      (simp_all add: value_drift_def order_shares_def order_dollars_def unpriced_amount_def share_weight_def signed_def Let_def d_def)
  ultimately show "\<exists>d. 0 \<le> d \<and> d < fval (batch_priceOf port (o_Asset ord)) \<and> value_drift port ord = signed (o_Side ord) (Fin (- d))"
    using v by auto
qed

section \<open>Allocating one asset\<close>

lemma projected_position_priced:
  assumes "projectable port b" "batch_priceOf port ast > 0"
  shows "projectedPositionValue port b ast
       = Fin (fval (mget (Fin 0) (ProjectedHoldings port b) ast) * fval (batch_priceOf port ast))"
proof -
  obtain p q where "batch_priceOf port ast = Fin p" "mget (Fin 0) (ProjectedHoldings port b) ast = Fin q"
    using assms(1) fin_entries_get ProjectedHoldings_wf [OF assms(1)] by (metis fin_iff projectable_def)
  then show ?thesis using assms(2) by (simp add: projectedPositionValue_def Let_def)
qed

lemma pendingDollarFlow_fin: "projectable port b \<Longrightarrow> fin (pendingDollarFlow b ast)"
  using projectable_unexecuted [of port b]
  by (auto simp: pendingDollarFlow_sum list_all_iff order_fin_def intro!: fin_sum_list)

lemma unpriced_amount_fin: "projectable port b \<Longrightarrow> fin (sum_list (map (unpriced_amount port) (unexecutedOrders b)))"
  using projectable_unexecuted [of port b]
  by (auto simp: unpriced_amount_def list_all_iff order_fin_def intro!: fin_sum_list)

lemma projectedCash_fin: "projectable port b \<Longrightarrow> fin (projectedCash port b)"
  unfolding projectedCash_sum using projectable_unexecuted [of port b]
  by (intro fin_arith fin_sum_list) (auto simp: projectable_def list_all_iff order_shares_fin)

lemma ProjectedValue_fin: "projectable port b \<Longrightarrow> fin (ProjectedValue port b)"
  unfolding ProjectedValue_sum using projectedCash_fin unpriced_amount_fin by simp

text \<open>Buying or selling whole shares for a dollar difference comes within one share.\<close>

lemma whole_shares:
  fixes p d :: real
  assumes "0 < p"
  shows "\<bar>d - (if d < 0 then - 1 else 1) * (of_int \<lfloor>\<bar>d\<bar> / p\<rfloor> * p)\<bar> < p"
proof -
  have "of_int \<lfloor>\<bar>d\<bar> / p\<rfloor> * p \<le> \<bar>d\<bar>" "\<bar>d\<bar> < (of_int \<lfloor>\<bar>d\<bar> / p\<rfloor> + 1) * p"
    using assms by (simp_all add: pos_le_divide_eq [symmetric] pos_divide_less_eq [symmetric])
  then show ?thesis by (auto simp: algebra_simps abs_if)
qed

lemma Allocate_within_share:
  assumes pj: "projectable port b" and w: "fin weight"
    and mods: "\<not> has_bracket mods" "\<not> has_oco mods"
    and price: "batch_priceOf port ast > 0"
  shows "\<exists>b'. Allocate port ast weight mods b = (None, b')
     \<and> absF (weight * ProjectedValue port b - projectedPositionValue port b' ast) < batch_priceOf port ast"
proof -
  obtain p where p: "batch_priceOf port ast = Fin p" "0 < p"
    using pj price by (metis fin_iff less_f64.simps(1) projectable_def zero_f64_Fin)
  obtain V w0 where V: "ProjectedValue port b = Fin V" "weight = Fin w0"
    using ProjectedValue_fin [OF pj] w by (auto simp: fin_iff)
  define q where "q = fval (mget (Fin 0) (ProjectedHoldings port b) ast)"
  have cur: "projectedPositionValue port b ast = Fin (q * p)"
    using projected_position_priced [OF pj price] p by (simp add: q_def)
  define d where "d = w0 * V - q * p"
  show ?thesis
  proof (cases "d = 0")
    case True
    then show ?thesis using V cur p by (auto simp: Allocate_def Let_def d_def)
  next
    case False
    define o0 where "o0 = order_zero\<lparr>o_Asset := ast, o_Amount := absF (Fin d), o_OrderType := Market,
                   o_TimeInForce := Day, o_Side := (if Fin d < 0 then Sell else Buy)\<rparr>"
    obtain ord where add: "add_plain_order ''portfolio: Allocate does not support bracket or OCO modifiers'' o0 mods b
          = (None, b\<lparr>b_Orders := b_Orders b @ [ord]\<rparr>)"
      and ord: "o_Asset ord = ast" "o_Side ord = (if d < 0 then Sell else Buy)" "o_Qty ord = 0" "o_Amount ord = Fin \<bar>d\<bar>"
      using add_plain_order_spec [OF mods, of _ o0 b] by (auto simp: o0_def order_zero_def)
    have all: "Allocate port ast weight mods b = (None, b\<lparr>b_Orders := b_Orders b @ [ord]\<rparr>)"
      using False add V cur by (simp add: Allocate_def Let_def o0_def d_def)
    have wf: "b_executed b \<le> length (b_Orders b)" and subs: "a_substitutions port = []"
      using pj by (simp_all add: projectable_def)
    have sh: "order_shares port ord = Fin (of_int \<lfloor>\<bar>d\<bar> / p\<rfloor>)"
      using ord p False by (simp add: order_shares_def Let_def)
    have fin: "order_fin ord" using ord by (simp add: order_fin_def)
    have q': "fval (mget (Fin 0) (ProjectedHoldings port (b\<lparr>b_Orders := b_Orders b @ [ord]\<rparr>)) ast)
        = q + (if d < 0 then - 1 else 1) * of_int \<lfloor>\<bar>d\<bar> / p\<rfloor>"
      using fin_entries_get [of "ProjectedHoldings port b" ast] ProjectedHoldings_wf [OF pj] ord(1,2) sh
      by (auto simp: ProjectedHoldings_snoc [OF wf] mget_project_order [OF subs] signed_def q_def)
    have "projectedPositionValue port (b\<lparr>b_Orders := b_Orders b @ [ord]\<rparr>) ast
        = Fin ((q + (if d < 0 then - 1 else 1) * of_int \<lfloor>\<bar>d\<bar> / p\<rfloor>) * p)"
      using projected_position_priced [OF projectable_snoc [OF pj fin] price] q' p by simp
    then have "absF (weight * ProjectedValue port b - projectedPositionValue port (b\<lparr>b_Orders := b_Orders b @ [ord]\<rparr>) ast)
        = Fin \<bar>d - (if d < 0 then - 1 else 1) * (of_int \<lfloor>\<bar>d\<bar> / p\<rfloor> * p)\<bar>"
      using V by (simp add: d_def algebra_simps)
    then show ?thesis using all whole_shares [OF p(2), of d] p by auto
  qed
qed

section \<open>Rebalancing\<close>

text \<open>The net share change of an order list in one asset.\<close>

definition net_shares :: "account \<Rightarrow> order list \<Rightarrow> asset \<Rightarrow> f64" where
  "net_shares port ords x = sum_list (map (\<lambda>ord. if o_Asset ord = x
     then signed (o_Side ord) (order_shares port ord) else 0) ords)"

lemma net_shares_append [simp]:
  "net_shares port (xs @ ys) x = net_shares port xs x + net_shares port ys x" "net_shares port [] x = Fin 0"
  by (simp_all add: net_shares_def)

lemma ProjectedHoldings_append:
  assumes "b_executed b \<le> length (b_Orders b)" "a_substitutions port = []"
  shows "mget (Fin 0) (ProjectedHoldings port (b\<lparr>b_Orders := b_Orders b @ ords\<rparr>)) x
       = mget (Fin 0) (ProjectedHoldings port b) x + net_shares port ords x"
proof -
  have "mget (Fin 0) (foldl (project_order port ts) m ords) x = mget (Fin 0) m x + net_shares port ords x" for ts m
    by (induction ords arbitrary: m)
       (auto simp: mget_project_order [OF assms(2)] net_shares_def add.assoc)
  then show ?thesis using assms(1) by (simp add: ProjectedHoldings_def unexecuted_snoc)
qed

lemma ProjectedValue_append:
  assumes "projectable port b" "list_all order_fin ords"
  shows "ProjectedValue port (b\<lparr>b_Orders := b_Orders b @ ords\<rparr>)
       = ProjectedValue port b + sum_list (map (value_drift port) ords)"
  using assms
proof (induction ords arbitrary: b)
  case (Cons ord ords)
  have "ProjectedValue port ((b\<lparr>b_Orders := b_Orders b @ [ord]\<rparr>)
      \<lparr>b_Orders := b_Orders (b\<lparr>b_Orders := b_Orders b @ [ord]\<rparr>) @ ords\<rparr>)
      = ProjectedValue port (b\<lparr>b_Orders := b_Orders b @ [ord]\<rparr>) + sum_list (map (value_drift port) ords)"
    using Cons.prems by (intro Cons.IH projectable_snoc) simp_all
  then show ?case using ProjectedValue_snoc [OF Cons.prems(1), of ord] Cons.prems(2) by (simp add: add.assoc)
qed simp

lemma sum_list_map_filter:
  "sum_list (map g (List.map_filter f xs)) = sum_list (map (\<lambda>x. case f x of None \<Rightarrow> 0 | Some y \<Rightarrow> g y) xs)"
  for g :: "'a \<Rightarrow> 'b::comm_monoid_add"
  by (induction xs) (auto simp: List.map_filter_simps split: option.splits)

lemma sum_list_at_key:
  "mwf m \<Longrightarrow> sum_list (map (\<lambda>(k, v). if k = x then g v else 0) m) = (case map_of m x of None \<Rightarrow> 0 | Some v \<Rightarrow> g v)"
  for g :: "'a \<Rightarrow> 'b::comm_monoid_add"
proof (induction m)
  case (Cons p m)
  obtain k v where p: "p = (k, v)" by force
  have "map_of m k = None" using Cons.prems by (auto simp: p map_of_eq_None_iff)
  then show ?case using Cons by (auto simp: p)
qed simp

lemma map_of_filter_key:
  "mwf m \<Longrightarrow> map_of (filter P m) x = (case map_of m x of None \<Rightarrow> None | Some v \<Rightarrow> if P (x, v) then Some v else None)"
proof (induction m)
  case (Cons p m)
  obtain k v where p: "p = (k, v)" by force
  have "map_of m k = None" using Cons.prems by (auto simp: p map_of_eq_None_iff)
  then show ?case using Cons by (auto simp: p split: option.splits)
qed simp

end
