(* ===== verification/Rebalance.thy ===== *)
theory Rebalance
  imports Batch
begin

text \<open>
  What a rebalance achieves: the orders \<open>Batch.RebalanceTo\<close> appends close every position outside
  the target, sell before they buy, and leave every priced member within one share of its
  target weight, whatever order the map iterations take.
\<close>

lemma rebalance_order_simps [simp]:
  "o_Asset (rebalance_order j k s q a) = k" "o_Side (rebalance_order j k s q a) = s"
  "o_Qty (rebalance_order j k s q a) = q" "o_Amount (rebalance_order j k s q a) = a"
  by (simp_all add: rebalance_order_def)

lemma order_shares_qty: "\<not> feq (o_Qty ord) (Fin 0) \<Longrightarrow> order_shares port ord = o_Qty ord"
  by (simp add: order_shares_def Let_def)

lemma net_liquidation:
  assumes "\<forall>p\<in>set m. fin (snd p) \<and> fval (snd p) \<noteq> 0"
  shows "net_shares port (liquidation_orders just m @ cover_orders just m) x
       = sum_list (map (\<lambda>(k, q). if k = x then - q else 0) m)"
  using assms
proof (induction m)
  case (Cons e m)
  obtain k q r where e: "e = (k, q)" "q = Fin r" "r \<noteq> 0" using Cons.prems by (cases e) (auto simp: fin_iff)
  have "order_shares port (rebalance_order just k Sell q 0) = q"
    "order_shares port (rebalance_order just k Buy (absF q) 0) = absF q"
    using e by (simp_all add: order_shares_qty)
  then show ?case using Cons e
    by (cases "r > 0") (auto simp: liquidation_orders_def cover_orders_def net_shares_def signed_def ac_simps)
qed (simp add: liquidation_orders_def cover_orders_def)

lemma net_trim:
  assumes "mwf ms" "batch_priceOf port x = Fin p" "0 < p"
    and "\<And>w. map_of ms x = Some w \<Longrightarrow> w * V - projectedPositionValue port b x = Fin (d w)"
  shows "net_shares port (trim_orders port b just V ms) x
       = (case map_of ms x of None \<Rightarrow> 0 | Some w \<Rightarrow> Fin (if d w < 0 then - of_int \<lfloor>- d w / p\<rfloor> else 0))"
proof -
  let ?g = "\<lambda>w. let diff = w * V - projectedPositionValue port b x in
      if diff < 0 then signed Sell (order_shares port (rebalance_order just x Sell 0 (- diff))) else 0"
  have "net_shares port (trim_orders port b just V ms) x = sum_list (map (\<lambda>(k, w). if k = x then ?g w else 0) ms)"
    unfolding net_shares_def trim_orders_def sum_list_map_filter
    by (rule arg_cong [where f = sum_list], rule map_cong) (auto simp: Let_def)
  also have "\<dots> = (case map_of ms x of None \<Rightarrow> 0 | Some w \<Rightarrow> ?g w)" by (rule sum_list_at_key [OF assms(1)])
  finally show ?thesis using assms(2-4)
    by (auto simp: order_shares_def signed_def Let_def split: option.splits)
qed

lemma net_buy:
  assumes "mwf ms" "batch_priceOf port x = Fin p" "0 < p"
    and "\<And>w. map_of ms x = Some w \<Longrightarrow> w * V - projectedPositionValue port b x = Fin (d w)"
  shows "net_shares port (buy_orders port b just V ms) x
       = (case map_of ms x of None \<Rightarrow> 0 | Some w \<Rightarrow> Fin (if d w > 0 then of_int \<lfloor>d w / p\<rfloor> else 0))"
proof -
  let ?g = "\<lambda>w. let diff = w * V - projectedPositionValue port b x in
      if diff > 0 then signed Buy (order_shares port (rebalance_order just x Buy 0 diff)) else 0"
  have "net_shares port (buy_orders port b just V ms) x = sum_list (map (\<lambda>(k, w). if k = x then ?g w else 0) ms)"
    unfolding net_shares_def buy_orders_def sum_list_map_filter
    by (rule arg_cong [where f = sum_list], rule map_cong) (auto simp: Let_def)
  also have "\<dots> = (case map_of ms x of None \<Rightarrow> 0 | Some w \<Rightarrow> ?g w)" by (rule sum_list_at_key [OF assms(1)])
  finally show ?thesis using assms(2-4)
    by (auto simp: order_shares_def signed_def Let_def split: option.splits)
qed

lemma net_none:
  "x \<notin> o_Asset ` set ords \<Longrightarrow> net_shares port ords x = Fin 0"
  by (induction ords) (auto simp: net_shares_def)

lemma member_order_assets:
  "o_Asset ` set (trim_orders port b just V ms) \<subseteq> fst ` set ms"
  "o_Asset ` set (buy_orders port b just V ms) \<subseteq> fst ` set ms"
  by (auto simp: trim_orders_def buy_orders_def map_filter_def Let_def image_iff split: if_splits) force+

lemma position_value_fin:
  "projectable port b \<Longrightarrow> fin (projectedPositionValue port b x)"
  using pendingDollarFlow_fin [of port b x] fin_entries_get [of "ProjectedHoldings port b" x]
    ProjectedHoldings_wf [of port b]
  by (auto simp: projectedPositionValue_def Let_def projectable_def)

text \<open>A range order visits every entry once.\<close>

definition visits_all :: "range_order \<Rightarrow> bool" where
  "visits_all it \<longleftrightarrow> (\<forall>m. mset (it m) = mset m)"

lemma visits_all_simps:
  assumes "visits_all it"
  shows "set (it m) = set m" "mwf (it m) \<longleftrightarrow> mwf m" "mwf m \<Longrightarrow> map_of (it m) = map_of m"
proof -
  have eq: "mset (it m) = mset m" using assms by (simp add: visits_all_def)
  show "set (it m) = set m" using eq by (rule mset_eq_setD)
  show wf: "mwf (it m) \<longleftrightarrow> mwf m" using eq by (metis mset_eq_imp_distinct_iff mset_map)
  show "mwf m \<Longrightarrow> map_of (it m) = map_of m" using mwf_map_of_mset [OF eq] wf by simp
qed

lemma trim_drift_nonneg:
  assumes "projectable port b" "fin V" "\<forall>e\<in>set ms. fin (snd e)"
  shows "list_all order_fin (trim_orders port b just V ms)"
    "\<forall>ord\<in>set (trim_orders port b just V ms). fin (value_drift port ord) \<and> 0 \<le> fval (value_drift port ord)"
proof -
  have *: "order_fin ord \<and> fin (value_drift port ord) \<and> 0 \<le> fval (value_drift port ord)"
    if ord: "ord \<in> set (trim_orders port b just V ms)" for ord
  proof -
    obtain k w where kw: "(k, w) \<in> set ms" "w * V - projectedPositionValue port b k < 0"
      "ord = rebalance_order just k Sell 0 (- (w * V - projectedPositionValue port b k))"
      using ord by (auto simp: trim_orders_def map_filter_def Let_def split: if_splits)
    have "fin w" using assms(3) kw(1) by force
    then have fin: "fin (w * V - projectedPositionValue port b k)"
      using position_value_fin [OF assms(1)] assms(2) by simp
    have of: "order_fin ord" using fin kw(3) by (simp add: order_fin_def)
    have pr: "fin (batch_priceOf port (o_Asset ord))" using assms(1) by (simp add: projectable_def)
    show ?thesis
    proof (cases "batch_priceOf port (o_Asset ord) > 0")
      case True
      have "o_Amount ord > 0" using kw fin by (auto simp: fin_iff)
      then obtain d where "0 \<le> d" "value_drift port ord = signed (o_Side ord) (Fin (- d))"
        using value_drift_cases(2) [OF pr of True] kw(3) by auto
      then show ?thesis using of kw(3) by (simp add: signed_def)
    next
      case False
      then show ?thesis using value_drift_cases(1) [OF pr of] of by simp
    qed
  qed
  then show "list_all order_fin (trim_orders port b just V ms)"
    "\<forall>ord\<in>set (trim_orders port b just V ms). fin (value_drift port ord) \<and> 0 \<le> fval (value_drift port ord)"
    by (auto simp: list_all_iff)
qed

lemma qty_order_drift:
  assumes "projectable port b" "\<forall>e\<in>set m. fin (snd e)"
  shows "list_all order_fin (liquidation_orders just m @ cover_orders just m)"
    "\<forall>ord\<in>set (liquidation_orders just m @ cover_orders just m). value_drift port ord = 0"
proof -
  have "order_fin ord \<and> value_drift port ord = 0"
    if "ord \<in> set (liquidation_orders just m @ cover_orders just m)" for ord
  proof -
    have "order_fin ord" "o_Amount ord = 0"
      using that assms(2) by (auto simp: liquidation_orders_def cover_orders_def order_fin_def)
    then show ?thesis using value_drift_cases(1) [of port ord] assms(1) by (auto simp: projectable_def)
  qed
  then show "list_all order_fin (liquidation_orders just m @ cover_orders just m)"
    "\<forall>ord\<in>set (liquidation_orders just m @ cover_orders just m). value_drift port ord = 0"
    by (auto simp: list_all_iff)
qed

text \<open>An admissible target: distinct members with finite, non-negative weights.\<close>

definition target_ok :: "Allocation \<Rightarrow> bool" where
  "target_ok alloc \<longleftrightarrow> mwf (al_Members alloc) \<and> (\<forall>e\<in>set (al_Members alloc). fin (snd e) \<and> 0 \<le> fval (snd e))"

lemma alloc_members_ok:
  assumes "target_ok alloc"
  shows "mwf (alloc_members alloc)" "\<forall>e\<in>set (alloc_members alloc). fin (snd e) \<and> 0 \<le> fval (snd e)"
  using assms by (auto simp: target_ok_def alloc_members_def intro: distinct_map_filter)

lemma dropped_ok:
  assumes "projectable port b" "visits_all it"
  shows "mwf (dropped_positions it port ms b)"
    "\<forall>e\<in>set (dropped_positions it port ms b). fin (snd e) \<and> fval (snd e) \<noteq> 0"
    "map_of (dropped_positions it port ms b) x = (if mhas ms x then None
       else case map_of (ProjectedHoldings port b) x of None \<Rightarrow> None
         | Some q \<Rightarrow> if feq q 0 then None else Some q)"
proof -
  note wf = ProjectedHoldings_wf [OF assms(1)]
  note v = visits_all_simps [OF assms(2), of "ProjectedHoldings port b"]
  show "mwf (dropped_positions it port ms b)"
    using v wf by (simp add: dropped_positions_def distinct_map_filter)
  show "\<forall>e\<in>set (dropped_positions it port ms b). fin (snd e) \<and> fval (snd e) \<noteq> 0"
    using v wf by (auto simp: dropped_positions_def list_all_iff fin_feq)
  show "map_of (dropped_positions it port ms b) x = (if mhas ms x then None
       else case map_of (ProjectedHoldings port b) x of None \<Rightarrow> None
         | Some q \<Rightarrow> if feq q 0 then None else Some q)"
    using v wf by (simp add: dropped_positions_def map_of_filter_key split: option.splits)
qed

lemma net_dropped:
  fixes ms
  assumes "projectable port b" "visits_all it"
  defines "m \<equiv> dropped_positions it port ms b"
  shows "net_shares port (liquidation_orders just m @ cover_orders just m) x
       = (if mhas ms x then Fin 0 else - mget (Fin 0) (ProjectedHoldings port b) x)"
proof -
  note d = dropped_ok [OF assms(1,2), of ms, folded m_def]
  have "net_shares port (liquidation_orders just m @ cover_orders just m) x
      = (case map_of m x of None \<Rightarrow> 0 | Some q \<Rightarrow> - q)"
    unfolding net_liquidation [OF d(2)] by (rule sum_list_at_key [OF d(1)])
  then show ?thesis using d(3) [of x] by (auto simp: mget_def feq_def split: option.splits if_splits)
qed

lemma net_shares_swap: "net_shares port (xs @ ys @ zs) x = net_shares port (xs @ zs) x + net_shares port ys x"
  by (simp add: ac_simps)

text \<open>The state after the selling half of a rebalance.\<close>

definition after_sells :: "range_order \<Rightarrow> range_order \<Rightarrow> account \<Rightarrow> Allocation \<Rightarrow> batch \<Rightarrow> batch" where
  "after_sells itHeld itSell port alloc b =
     (let members = alloc_members alloc; just = al_Justification alloc;
          dropped = dropped_positions itHeld port members b
      in b\<lparr>b_Orders := b_Orders b @ (liquidation_orders just dropped
           @ trim_orders port b just (ProjectedValue port b) (itSell members)) @ cover_orders just dropped\<rparr>)"

lemma rebalance_one_split:
  "rebalance_one itHeld itSell itBuy port alloc b =
     (let b1 = after_sells itHeld itSell port alloc b in
      b1\<lparr>b_Orders := b_Orders b1 @ buy_orders port b1 (al_Justification alloc) (ProjectedValue port b1)
          (itBuy (alloc_members alloc))\<rparr>)"
  by (simp add: rebalance_one_def after_sells_def Let_def)

lemma projectable_append:
  "projectable port b \<Longrightarrow> list_all order_fin ords \<Longrightarrow> projectable port (b\<lparr>b_Orders := b_Orders b @ ords\<rparr>)"
  by (simp add: projectable_def)

lemma f64_sum_nonneg:
  "\<forall>v\<in>set vs. fin v \<and> 0 \<le> fval v \<Longrightarrow> fin (sum_list vs) \<and> 0 \<le> fval (sum_list vs)"
  by (induction vs) auto

lemma after_sells_ok:
  assumes pj: "projectable port b" and it: "visits_all itHeld" "visits_all itSell" and al: "target_ok alloc"
  defines "b1 \<equiv> after_sells itHeld itSell port alloc b"
  shows "projectable port b1" "fval (ProjectedValue port b) \<le> fval (ProjectedValue port b1)"
    "mget (Fin 0) (ProjectedHoldings port b1) x = mget (Fin 0) (ProjectedHoldings port b) x
       + (if mhas (alloc_members alloc) x
          then net_shares port (trim_orders port b (al_Justification alloc) (ProjectedValue port b) (itSell (alloc_members alloc))) x
          else - mget (Fin 0) (ProjectedHoldings port b) x)"
proof -
  define ms where "ms = alloc_members alloc"
  define just where "just = al_Justification alloc"
  define m where "m = dropped_positions itHeld port ms b"
  define tr where "tr = trim_orders port b just (ProjectedValue port b) (itSell ms)"
  define ords where "ords = (liquidation_orders just m @ tr) @ cover_orders just m"
  have b1: "b1 = b\<lparr>b_Orders := b_Orders b @ ords\<rparr>"
    by (simp add: b1_def after_sells_def Let_def ords_def tr_def m_def ms_def just_def)
  have "\<forall>e\<in>set (itSell ms). fin (snd e)"
    using alloc_members_ok(2) [OF al] visits_all_simps(1) [OF it(2)] by (simp add: ms_def)
  note t = trim_drift_nonneg [OF pj ProjectedValue_fin [OF pj] this, of just, folded tr_def]
  have "\<forall>e\<in>set m. fin (snd e)" using dropped_ok(2) [OF pj it(1), of ms] by (simp add: m_def)
  note q = qty_order_drift [OF pj this, of just]
  have fin: "list_all order_fin ords" using t q by (auto simp: ords_def)
  show "projectable port b1" unfolding b1 by (rule projectable_append [OF pj fin])
  have dr: "\<forall>v\<in>set (map (value_drift port) ords). fin v \<and> 0 \<le> fval v" using t q by (auto simp: ords_def)
  then have "fin (sum_list (map (value_drift port) ords))" "0 \<le> fval (sum_list (map (value_drift port) ords))"
    using f64_sum_nonneg by blast+
  then show "fval (ProjectedValue port b) \<le> fval (ProjectedValue port b1)"
    unfolding b1 ProjectedValue_append [OF pj fin] using ProjectedValue_fin [OF pj] by simp
  have x: "net_shares port tr x = Fin 0" if "\<not> mhas ms x"
    using that member_order_assets(1) [of port b just _ "itSell ms"] visits_all_simps(1) [OF it(2)]
    by (intro net_none) (auto simp: tr_def mhas_iff_key)
  have "net_shares port ords x = net_shares port (liquidation_orders just m @ cover_orders just m) x + net_shares port tr x"
    by (simp add: ords_def ac_simps)
  then show "mget (Fin 0) (ProjectedHoldings port b1) x = mget (Fin 0) (ProjectedHoldings port b) x
       + (if mhas (alloc_members alloc) x
          then net_shares port (trim_orders port b (al_Justification alloc) (ProjectedValue port b) (itSell (alloc_members alloc))) x
          else - mget (Fin 0) (ProjectedHoldings port b) x)"
    using pj net_dropped [OF pj it(1), of just ms x] x
    by (simp add: b1 ProjectedHoldings_append projectable_def m_def ms_def just_def tr_def del: net_shares_append)
qed

text \<open>The arithmetic of a rebalance: trim to the first target, then buy to the second.\<close>

lemma rebalance_arith:
  fixes p q w V V1 :: real
  assumes "0 < p" "0 \<le> w" "V \<le> V1"
  defines "d \<equiv> w * V - q * p"
  defines "q1 \<equiv> q + (if d < 0 then - of_int \<lfloor>- d / p\<rfloor> else 0)"
  defines "d1 \<equiv> w * V1 - q1 * p"
  defines "q2 \<equiv> q1 + (if d1 > 0 then of_int \<lfloor>d1 / p\<rfloor> else 0)"
  shows "\<bar>w * V1 - q2 * p\<bar> < p"
proof -
  have fl: "of_int \<lfloor>x / p\<rfloor> * p \<le> x" "x < (of_int \<lfloor>x / p\<rfloor> + 1) * p" for x
    using assms(1) by (simp_all add: pos_le_divide_eq [symmetric] pos_divide_less_eq [symmetric])
  have wV: "w * V \<le> w * V1" using assms(2,3) by (rule mult_left_mono [rotated])
  have "w * V - q1 * p > - p"
    using fl [of "- d"] assms(1) by (auto simp: q1_def d_def algebra_simps)
  then have low: "d1 > - p" using wV by (simp add: d1_def)
  show ?thesis
  proof (cases "d1 > 0")
    case True
    then have "w * V1 - q2 * p = d1 - of_int \<lfloor>d1 / p\<rfloor> * p" by (simp add: q2_def d1_def algebra_simps)
    then show ?thesis using fl [of d1] by (simp add: algebra_simps)
  next
    case False
    then show ?thesis using low by (simp add: q2_def d1_def)
  qed
qed

lemma rebalance_member:
  assumes pj: "projectable port b" and it: "visits_all itHeld" "visits_all itSell" "visits_all itBuy"
    and al: "target_ok alloc" and member: "map_of (alloc_members alloc) x = Some w"
    and price: "batch_priceOf port x > 0"
  defines "b1 \<equiv> after_sells itHeld itSell port alloc b"
    and "b2 \<equiv> rebalance_one itHeld itSell itBuy port alloc b"
  shows "absF (w * ProjectedValue port b1
           - mget 0 (ProjectedHoldings port b2) x * batch_priceOf port x) < batch_priceOf port x"
proof -
  define ms where "ms = alloc_members alloc"
  note a1 = after_sells_ok [OF pj it(1,2) al, folded b1_def]
  obtain p where p: "batch_priceOf port x = Fin p" "0 < p"
    using pj price by (metis fin_iff less_f64.simps(1) projectable_def zero_f64_Fin)
  obtain V V1 where V: "ProjectedValue port b = Fin V" "ProjectedValue port b1 = Fin V1"
    using ProjectedValue_fin pj a1(1) by (meson fin_iff)
  obtain wr where wr: "w = Fin wr" "0 \<le> wr"
    using alloc_members_ok(2) [OF al] map_of_SomeD [OF member] by (force simp: fin_iff)
  obtain q q1 where q: "mget (Fin 0) (ProjectedHoldings port b) x = Fin q"
    "mget (Fin 0) (ProjectedHoldings port b1) x = Fin q1"
    using ProjectedHoldings_wf fin_entries_get pj a1(1) by (meson fin_iff)
  have msi: "mwf (itSell ms)" "mwf (itBuy ms)" "map_of (itSell ms) x = Some w" "map_of (itBuy ms) x = Some w"
    using visits_all_simps(2,3) [OF it(2), of ms] visits_all_simps(2,3) [OF it(3), of ms]
      alloc_members_ok(1) [OF al] member by (simp_all add: ms_def)
  define d d1 where "d = wr * V - q * p" and "d1 = wr * V1 - q1 * p"
  have diff: "w * ProjectedValue port b - projectedPositionValue port b x = Fin d"
    "w * ProjectedValue port b1 - projectedPositionValue port b1 x = Fin d1"
    using projected_position_priced [OF pj price] projected_position_priced [OF a1(1) price] p V wr q
    by (simp_all add: d_def d1_def)
  have "net_shares port (trim_orders port b (al_Justification alloc) (ProjectedValue port b) (itSell ms)) x
      = Fin (if d < 0 then - of_int \<lfloor>- d / p\<rfloor> else 0)"
    using net_trim [OF msi(1) p, of "ProjectedValue port b" b "\<lambda>_. d"] msi(3) diff(1) by simp
  moreover have "mhas ms x" using member by (simp add: mhas_def ms_def)
  ultimately have q1: "q1 = q + (if d < 0 then - of_int \<lfloor>- d / p\<rfloor> else 0)"
    using a1(3) [of x] q by (simp add: ms_def)
  have "net_shares port (buy_orders port b1 (al_Justification alloc) (ProjectedValue port b1) (itBuy ms)) x
      = Fin (if d1 > 0 then of_int \<lfloor>d1 / p\<rfloor> else 0)"
    using net_buy [OF msi(2) p, of "ProjectedValue port b1" b1 "\<lambda>_. d1"] msi(4) diff(2) by simp
  then have "mget (Fin 0) (ProjectedHoldings port b2) x = Fin (q1 + (if d1 > 0 then of_int \<lfloor>d1 / p\<rfloor> else 0))"
    using a1(1) q(2)
    by (simp add: b2_def rebalance_one_split b1_def [symmetric] Let_def ms_def ProjectedHoldings_append projectable_def)
  moreover have "\<bar>wr * V1 - (q1 + (if d1 > 0 then of_int \<lfloor>d1 / p\<rfloor> else 0)) * p\<bar> < p"
    using rebalance_arith [OF p(2) wr(2), of V V1 q, folded d_def, folded q1, folded d1_def] a1(2) V by simp
  ultimately show ?thesis using V p(1) wr(1) by simp
qed

lemma rebalance_nonmember:
  assumes pj: "projectable port b" and it: "visits_all itHeld" "visits_all itSell" "visits_all itBuy"
    and al: "target_ok alloc" and out: "\<not> mhas (alloc_members alloc) x"
  shows "mget 0 (ProjectedHoldings port (rebalance_one itHeld itSell itBuy port alloc b)) x = 0"
proof -
  define b1 where "b1 = after_sells itHeld itSell port alloc b"
  note a1 = after_sells_ok [OF pj it(1,2) al, folded b1_def]
  have "net_shares port (buy_orders port b1 (al_Justification alloc) (ProjectedValue port b1) (itBuy (alloc_members alloc))) x = Fin 0"
    using out member_order_assets(2) [of port b1 "al_Justification alloc" "ProjectedValue port b1" "itBuy (alloc_members alloc)"]
      visits_all_simps(1) [OF it(3)]
    by (intro net_none) (auto simp: mhas_iff_key)
  moreover have "mget (Fin 0) (ProjectedHoldings port b1) x = Fin 0"
    using a1(3) [of x] out fin_entries_get [of "ProjectedHoldings port b" x] ProjectedHoldings_wf [OF pj]
    by (auto simp: fin_iff)
  ultimately show ?thesis
    using a1(1) by (simp add: rebalance_one_split b1_def [symmetric] Let_def ProjectedHoldings_append projectable_def)
qed

lemma rebalance_sells_first:
  "\<exists>sells buys. b_Orders (rebalance_one itHeld itSell itBuy port alloc b) = b_Orders b @ sells @ buys
     \<and> (\<forall>ord\<in>set sells. o_Side ord = Sell) \<and> (\<forall>ord\<in>set buys. o_Side ord = Buy)"
proof -
  let ?j = "al_Justification alloc" and ?ms = "alloc_members alloc"
  let ?m = "dropped_positions itHeld port ?ms b" and ?b1 = "after_sells itHeld itSell port alloc b"
  have "b_Orders (rebalance_one itHeld itSell itBuy port alloc b)
     = b_Orders b @ (liquidation_orders ?j ?m @ trim_orders port b ?j (ProjectedValue port b) (itSell ?ms))
       @ (cover_orders ?j ?m @ buy_orders port ?b1 ?j (ProjectedValue port ?b1) (itBuy ?ms))"
    by (simp add: rebalance_one_split Let_def) (simp add: after_sells_def Let_def)
  moreover have "\<forall>ord\<in>set (liquidation_orders ?j ?m @ trim_orders port b ?j V (itSell ?ms)). o_Side ord = Sell"
    "\<forall>ord\<in>set (cover_orders ?j ?m @ buy_orders port b' ?j V' (itBuy ?ms)). o_Side ord = Buy" for V V' b'
    by (auto simp: liquidation_orders_def cover_orders_def trim_orders_def buy_orders_def map_filter_def Let_def split: if_splits)
  ultimately show ?thesis by blast
qed

end
