(* ===== verification/Execution.thy ===== *)
theory Execution
  imports Rebalance
begin

text \<open>
  Order execution by the account (portfolio/account.go: \<open>submitAndRecord\<close>, \<open>Order\<close>,
  \<open>RebalanceTo\<close>, \<open>ExecuteBatch\<close>, \<open>drainFillsFromChannel\<close>, \<open>cancelOCOSiblings\<close>,
  \<open>submitBracketExits\<close>, \<open>CancelOpenOrders\<close>). The broker is an interface of the program: a
  record of operations over a broker state. Brokers may consult the account that submits (the
  simulated broker does, for margin checks), so the operations receive it. Reading the fill
  channel without blocking is the operation \<open>bo_recv\<close>. Middleware is a list of functions on
  account and batch.
\<close>

section \<open>The broker interface\<close>

record 'b broker_ops =
  bo_Submit :: "account \<Rightarrow> order \<Rightarrow> 'b \<Rightarrow> goerr option \<times> 'b"
  bo_Cancel :: "string \<Rightarrow> 'b \<Rightarrow> goerr option \<times> 'b"
  bo_SubmitGroup :: "account \<Rightarrow> order list \<Rightarrow> GroupType \<Rightarrow> 'b \<Rightarrow> goerr option \<times> 'b"
  bo_recv :: "'b \<Rightarrow> (fill \<times> 'b) option"

record deferredExitInfo =
  dx_groupID :: string
  dx_spec :: orderGroupSpec
  dx_entrySide :: Side
  dx_fillPrice :: f64
  dx_asset :: asset
  dx_qty :: f64
  dx_batchID :: nat

text \<open>The state of a drain: account, broker, the executing batch, collected bracket exits.\<close>

record 'b drain_state =
  ds_acct :: account
  ds_brk :: 'b
  ds_batch :: "batch option"
  ds_exits :: "deferredExitInfo list"

section \<open>Recording fills\<close>

fun cancel_siblings :: "'b broker_ops \<Rightarrow> string \<Rightarrow> string list \<Rightarrow> account \<times> 'b \<Rightarrow> account \<times> 'b" where
  "cancel_siblings ops filled [] (a, k) = (a, k)"
| "cancel_siblings ops filled (sib # sibs) (a, k) =
     (if sib = filled then cancel_siblings ops filled sibs (a, k)
      else if a_brokerHasGroups a
      then cancel_siblings ops filled sibs (a\<lparr>a_pendingOrders := mdel sib (a_pendingOrders a)\<rparr>, k)
      else cancel_siblings ops filled sibs
             (a\<lparr>a_pendingOrders := mdel sib (a_pendingOrders a)\<rparr>, snd (bo_Cancel ops sib k)))"

definition cancelOCOSiblings :: "'b broker_ops \<Rightarrow> string \<Rightarrow> string \<Rightarrow> account \<times> 'b \<Rightarrow> account \<times> 'b" where
  "cancelOCOSiblings ops groupID filledOrderID ak =
     (case map_of (a_pendingGroups (fst ak)) groupID of None \<Rightarrow> ak
      | Some grp \<Rightarrow>
          (case cancel_siblings ops filledOrderID (g_OrderIDs grp) ak of
             (a, k) \<Rightarrow> (a\<lparr>a_pendingGroups := mdel groupID (a_pendingGroups a)\<rparr>, k)))"

definition fill_txn :: "order \<Rightarrow> fill \<Rightarrow> transaction" where
  "fill_txn ord fl =
     transaction_zero\<lparr>t_Date := f_FilledAt fl, t_Asset := o_Asset ord,
       t_Type := (case o_Side ord of Buy \<Rightarrow> BuyTransaction | Sell \<Rightarrow> SellTransaction),
       t_Qty := f_Qty fl, t_Price := f_Price fl,
       t_Amount := (case o_Side ord of Buy \<Rightarrow> - (f_Price fl * f_Qty fl) | Sell \<Rightarrow> f_Price fl * f_Qty fl),
       t_Justification := JText (o_Justification ord), t_LotSelection := o_LotSelection ord,
       t_BatchID := o_BatchID ord\<rparr>"

definition record_outcome :: "account \<Rightarrow> order \<Rightarrow> fill \<Rightarrow> batch option \<Rightarrow> batch option" where
  "record_outcome a ord fl bat =
     (case bat of None \<Rightarrow> None
      | Some b \<Rightarrow>
          if o_BatchID ord = a_currentBatchID a
          then Some (b\<lparr>b_Outcomes := b_Outcomes b @ [\<lparr>oc_Order = ord, oc_Filled = (f_Err fl = None),
                 oc_Qty = f_Qty fl, oc_Price = f_Price fl, oc_Err = f_Err fl\<rparr>]\<rparr>)
          else Some b)"

definition keep_remainder :: "order \<Rightarrow> fill \<Rightarrow> account \<Rightarrow> account" where
  "keep_remainder ord fl a =
     (if o_Qty ord - f_Qty fl > Fin (1 / 1000000000)
      then a\<lparr>a_pendingOrders := mput (f_OrderID fl) (ord\<lparr>o_Qty := o_Qty ord - f_Qty fl\<rparr>) (a_pendingOrders a)\<rparr>
      else a\<lparr>a_pendingOrders := mdel (f_OrderID fl) (a_pendingOrders a)\<rparr>)"

text \<open>Bracket entries hand their exits to the second phase; a filled exit leg cancels its siblings.\<close>

definition handle_group :: "'b broker_ops \<Rightarrow> order \<Rightarrow> fill \<Rightarrow> 'b drain_state \<Rightarrow> 'b drain_state" where
  "handle_group ops ord fl s =
     (if o_GroupID ord = [] then s
      else case o_GroupRole ord of
        RoleEntry \<Rightarrow>
          (case map_of (a_deferredExits (ds_acct s)) (o_GroupID ord) of None \<Rightarrow> s
           | Some spec \<Rightarrow>
               s\<lparr>ds_exits := ds_exits s @ [\<lparr>dx_groupID = o_GroupID ord, dx_spec = spec, dx_entrySide = o_Side ord,
                   dx_fillPrice = f_Price fl, dx_asset = o_Asset ord, dx_qty = f_Qty fl,
                   dx_batchID = o_BatchID ord\<rparr>],
                 ds_acct := (ds_acct s)\<lparr>a_deferredExits := mdel (o_GroupID ord) (a_deferredExits (ds_acct s))\<rparr>\<rparr>)
      | NoRole \<Rightarrow> s
      | _ \<Rightarrow> (case cancelOCOSiblings ops (o_GroupID ord) (f_OrderID fl) (ds_acct s, ds_brk s) of
               (a, k) \<Rightarrow> s\<lparr>ds_acct := a, ds_brk := k\<rparr>))"

definition process_fill :: "'b broker_ops \<Rightarrow> fill \<Rightarrow> 'b drain_state \<Rightarrow> 'b drain_state" where
  "process_fill ops fl s =
     (let a = ds_acct s in
      case map_of (a_pendingOrders a) (f_OrderID fl) of None \<Rightarrow> s
      | Some ord \<Rightarrow>
          let s1 = s\<lparr>ds_batch := record_outcome a ord fl (ds_batch s)\<rparr> in
          if f_Err fl \<noteq> None
          then s1\<lparr>ds_acct := a\<lparr>a_pendingOrders := mdel (f_OrderID fl) (a_pendingOrders a)\<rparr>\<rparr>
          else handle_group ops ord fl (s1\<lparr>ds_acct := keep_remainder ord fl (Record (fill_txn ord fl) a)\<rparr>))"

text \<open>The receive loop ends when the channel is empty; a broker could keep it busy forever.\<close>

partial_function (option) drain_loop :: "'b broker_ops \<Rightarrow> 'b drain_state \<Rightarrow> 'b drain_state option" where
  "drain_loop ops s =
     (case bo_recv ops (ds_brk s) of None \<Rightarrow> Some s
      | Some fk \<Rightarrow> drain_loop ops (process_fill ops (fst fk) (s\<lparr>ds_brk := snd fk\<rparr>)))"

declare drain_loop.simps [code]

definition resolveExitPrice :: "f64 \<Rightarrow> exitTarget \<Rightarrow> f64" where
  "resolveExitPrice fillPrice target =
     (if \<not> feq (AbsolutePrice target) 0 then AbsolutePrice target
      else fillPrice * (1 + PercentOffset target))"

definition exit_side :: "Side \<Rightarrow> Side" where
  "exit_side entry = (if entry = Buy then Sell else Buy)"

definition stopLossOrder :: "deferredExitInfo \<Rightarrow> order" where
  "stopLossOrder info =
     order_zero\<lparr>o_ID := dx_groupID info @ ''-exits'' @ ''-sl'', o_Asset := dx_asset info,
       o_Side := exit_side (dx_entrySide info), o_Qty := dx_qty info, o_OrderType := Stop,
       o_StopPrice := resolveExitPrice (dx_fillPrice info) (gs_StopLoss (dx_spec info)),
       o_TimeInForce := GTC, o_GroupID := dx_groupID info @ ''-exits'', o_GroupRole := RoleStopLoss,
       o_BatchID := dx_batchID info\<rparr>"

definition takeProfitOrder :: "deferredExitInfo \<Rightarrow> order" where
  "takeProfitOrder info =
     order_zero\<lparr>o_ID := dx_groupID info @ ''-exits'' @ ''-tp'', o_Asset := dx_asset info,
       o_Side := exit_side (dx_entrySide info), o_Qty := dx_qty info, o_OrderType := Limit,
       o_LimitPrice := resolveExitPrice (dx_fillPrice info) (gs_TakeProfit (dx_spec info)),
       o_TimeInForce := GTC, o_GroupID := dx_groupID info @ ''-exits'', o_GroupRole := RoleTakeProfit,
       o_BatchID := dx_batchID info\<rparr>"

definition submitBracketExits :: "'b broker_ops \<Rightarrow> deferredExitInfo \<Rightarrow> account \<times> 'b \<Rightarrow> account \<times> 'b" where
  "submitBracketExits ops info ak =
     (case ak of (a, k) \<Rightarrow>
        let exitGroupID = dx_groupID info @ ''-exits'';
            sl = stopLossOrder info; tp = takeProfitOrder info;
            a1 = a\<lparr>a_pendingOrders := mput (o_ID tp) tp (mput (o_ID sl) sl (a_pendingOrders a)),
                   a_pendingGroups := mput exitGroupID \<lparr>g_ID = exitGroupID, g_Type = GroupOCO,
                      g_OrderIDs = [o_ID sl, o_ID tp]\<rparr> (a_pendingGroups a)\<rparr>;
            k1 = (if a_brokerHasGroups a1 then snd (bo_SubmitGroup ops a1 [sl, tp] GroupOCO k)
                  else snd (bo_Submit ops a1 tp (snd (bo_Submit ops a1 sl k))))
        in (a1\<lparr>a_pendingGroups := mdel (dx_groupID info) (a_pendingGroups a1)\<rparr>, k1))"

definition drainFillsFromChannel ::
    "'b broker_ops \<Rightarrow> account \<times> 'b \<times> batch option \<Rightarrow> (account \<times> 'b \<times> batch option) option" where
  "drainFillsFromChannel ops akb =
     (case akb of (a, k, bat) \<Rightarrow>
        if \<not> a_hasBroker a then Some (a, k, bat)
        else case drain_loop ops \<lparr>ds_acct = a, ds_brk = k, ds_batch = bat, ds_exits = []\<rparr> of None \<Rightarrow> None
          | Some s \<Rightarrow>
              (case fold (submitBracketExits ops) (ds_exits s) (ds_acct s, ds_brk s) of
                 (a', k') \<Rightarrow> Some (a', k', ds_batch s)))"

section \<open>Direct submission\<close>

definition submitAndRecord ::
    "'b broker_ops \<Rightarrow> asset \<Rightarrow> order \<Rightarrow> string \<Rightarrow> account \<times> 'b \<Rightarrow> (goerr option \<times> account \<times> 'b) option" where
  "submitAndRecord ops ast order0 just ak =
     (case ak of (a, k) \<Rightarrow>
        let oid = (if o_ID order0 = [] then ''order-'' @ CompositeFigi ast @ ''-'' @ show_nat (length (a_transactions a))
                   else o_ID order0);
            ord = order0\<lparr>o_ID := oid, o_Justification := just\<rparr>;
            a1 = a\<lparr>a_pendingOrders := mput oid ord (a_pendingOrders a)\<rparr>
        in case bo_Submit ops a1 ord k of
             (Some e, k1) \<Rightarrow> Some (Some (Wrap ''order'' e), a1\<lparr>a_pendingOrders := mdel oid (a_pendingOrders a1)\<rparr>, k1)
           | (None, k1) \<Rightarrow>
               (case drainFillsFromChannel ops (a1, k1, None) of None \<Rightarrow> None
                | Some (a2, k2, _) \<Rightarrow> Some (None, a2, k2)))"

text \<open>
  The modifier loop of \<open>Order\<close> is that of the batch, but stops at a bracket or OCO modifier
  and passes the justification on separately.
\<close>

definition acct_Order ::
    "'b broker_ops \<Rightarrow> asset \<Rightarrow> Side \<Rightarrow> f64 \<Rightarrow> OrderModifier list \<Rightarrow> account \<times> 'b
     \<Rightarrow> (goerr option \<times> account \<times> 'b) option" where
  "acct_Order ops ast side qty mods ak =
     (let order0 = order_zero\<lparr>o_Asset := ast, o_Qty := qty, o_OrderType := Market, o_TimeInForce := Day, o_Side := side\<rparr>
      in case applyOrderModifiers order0 mods of
           (ord, bracket, oco) \<Rightarrow>
             if bracket \<noteq> None \<or> oco \<noteq> None
             then Some (Some (Err ''bracket/OCO modifiers require batch submission''), ak)
             else submitAndRecord ops ast ord (o_Justification ord) ak)"

fun submit_all ::
    "'b broker_ops \<Rightarrow> string \<Rightarrow> string \<Rightarrow> order list \<Rightarrow> account \<times> 'b \<Rightarrow> (goerr option \<times> account \<times> 'b) option" where
  "submit_all ops msg just [] ak = Some (None, ak)"
| "submit_all ops msg just (ord # ords) ak =
     (case submitAndRecord ops (o_Asset ord) ord just ak of None \<Rightarrow> None
      | Some (Some e, ak1) \<Rightarrow> Some (Some (Wrap msg e), ak1)
      | Some (None, ak1) \<Rightarrow> submit_all ops msg just ords ak1)"

definition value_diff :: "account \<Rightarrow> f64 \<Rightarrow> asset \<Rightarrow> f64 \<Rightarrow> f64" where
  "value_diff a val ast weight = weight * val - PositionValue a ast"

definition acct_rebalance_one ::
    "'b broker_ops \<Rightarrow> range_order \<Rightarrow> range_order \<Rightarrow> range_order \<Rightarrow> Allocation \<Rightarrow> account \<times> 'b
     \<Rightarrow> (goerr option \<times> account \<times> 'b) option" where
  "acct_rebalance_one ops itHeld itSell itBuy alloc ak =
     (let a = fst ak;
          members = alloc_members alloc;
          just = al_Justification alloc;
          totalValue = AccountValue a;
          dropped = filter (\<lambda>(ast, qty). \<not> mhas members ast \<and> \<not> feq qty 0) (itHeld (a_holdings a));
          sells = liquidation_orders [] dropped
            @ List.map_filter (\<lambda>(ast, weight).
                let diff = value_diff a totalValue ast weight in
                if diff < 0 then Some (rebalance_order [] ast Sell 0 (- diff)) else None) (itSell members)
      in case submit_all ops ''RebalanceTo: sell'' just sells ak of None \<Rightarrow> None
         | Some (Some e, ak1) \<Rightarrow> Some (Some e, ak1)
         | Some (None, ak1) \<Rightarrow>
             (case submit_all ops ''RebalanceTo: cover'' just (cover_orders [] dropped) ak1 of None \<Rightarrow> None
              | Some (Some e, ak2) \<Rightarrow> Some (Some e, ak2)
              | Some (None, ak2) \<Rightarrow>
                  let postSellValue = AccountValue (fst ak2);
                      buys = List.map_filter (\<lambda>(ast, weight).
                               let diff = value_diff (fst ak2) postSellValue ast weight in
                               if diff > 0 then Some (rebalance_order [] ast Buy 0 diff) else None) (itBuy members)
                  in submit_all ops ''RebalanceTo: buy'' just buys ak2))"

fun acct_RebalanceTo ::
    "'b broker_ops \<Rightarrow> range_order \<Rightarrow> range_order \<Rightarrow> range_order \<Rightarrow> Allocation list \<Rightarrow> account \<times> 'b
     \<Rightarrow> (goerr option \<times> account \<times> 'b) option" where
  "acct_RebalanceTo ops itHeld itSell itBuy [] ak = Some (None, ak)"
| "acct_RebalanceTo ops itHeld itSell itBuy (alloc # allocs) ak =
     (case acct_rebalance_one ops itHeld itSell itBuy alloc ak of None \<Rightarrow> None
      | Some (Some e, ak1) \<Rightarrow> Some (Some e, ak1)
      | Some (None, ak1) \<Rightarrow> acct_RebalanceTo ops itHeld itSell itBuy allocs ak1)"

section \<open>Batches\<close>

type_synonym middleware = "account \<times> batch \<Rightarrow> goerr option \<times> account \<times> batch"

fun run_middleware :: "middleware list \<Rightarrow> account \<times> batch \<Rightarrow> goerr option \<times> account \<times> batch" where
  "run_middleware [] ab = (None, ab)"
| "run_middleware (mw # mws) ab =
     (case mw ab of (Some e, ab1) \<Rightarrow> (Some e, ab1) | (None, ab1) \<Rightarrow> run_middleware mws ab1)"

definition batch_order_id :: "gotime \<Rightarrow> nat \<Rightarrow> string" where
  "batch_order_id ts idx = ''batch-'' @ show_int ts @ ''-'' @ show_nat idx"

definition assign_id :: "batch \<Rightarrow> nat \<Rightarrow> order \<Rightarrow> order" where
  "assign_id b idx ord =
     (if o_ID ord = [] then ord\<lparr>o_ID := batch_order_id (b_Timestamp b) idx, o_BatchID := b_batchID b\<rparr>
      else ord\<lparr>o_BatchID := b_batchID b\<rparr>)"

text \<open>Step 4: identifiers for the new orders, which become pending.\<close>

definition assign_ids :: "account \<times> batch \<Rightarrow> account \<times> batch" where
  "assign_ids ab =
     (case ab of (a, b) \<Rightarrow>
        let n = b_executed b;
            new = map (\<lambda>(idx, ord). assign_id b idx ord) (enumerate n (drop n (b_Orders b)))
        in (a\<lparr>a_pendingOrders := fold (\<lambda>ord m. mput (o_ID ord) ord m) new (a_pendingOrders a)\<rparr>,
            b\<lparr>b_Orders := take n (b_Orders b) @ new\<rparr>))"

definition group_orders :: "batch \<Rightarrow> string \<Rightarrow> order list" where
  "group_orders b gid =
     (if gid = [] then [] else filter (\<lambda>ord. o_GroupID ord = gid) (drop (b_executed b) (b_Orders b)))"

fun submit_each :: "'b broker_ops \<Rightarrow> account \<Rightarrow> order list \<Rightarrow> 'b \<Rightarrow> goerr option \<times> 'b" where
  "submit_each ops a [] k = (None, k)"
| "submit_each ops a (ord # ords) k =
     (case bo_Submit ops a ord k of
        (Some e, k1) \<Rightarrow> (Some (Wrap ''execute batch: submit'' e), k1)
      | (None, k1) \<Rightarrow> submit_each ops a ords k1)"

definition submit_group_spec ::
    "'b broker_ops \<Rightarrow> batch \<Rightarrow> orderGroupSpec \<Rightarrow> account \<times> 'b \<Rightarrow> goerr option \<times> account \<times> 'b" where
  "submit_group_spec ops b spec ak =
     (case ak of (a, k) \<Rightarrow>
        let gid = gs_GroupID spec; orders = group_orders b gid in
        case gs_Type spec of
          GroupOCO \<Rightarrow>
            (case (if a_brokerHasGroups a
                   then (case bo_SubmitGroup ops a orders GroupOCO k of
                           (Some e, k1) \<Rightarrow> (Some (Wrap ''execute batch: submit group'' e), k1)
                         | (None, k1) \<Rightarrow> (None, k1))
                   else submit_each ops a orders k) of
               (Some e, k1) \<Rightarrow> (Some e, a, k1)
             | (None, k1) \<Rightarrow>
                 (None, a\<lparr>a_pendingGroups := mput gid \<lparr>g_ID = gid, g_Type = GroupOCO,
                          g_OrderIDs = map o_ID orders\<rparr> (a_pendingGroups a)\<rparr>, k1))
        | GroupBracket \<Rightarrow>
            if gs_EntryIndex spec \<ge> 0 \<and> gs_EntryIndex spec < int (length (b_Orders b))
            then let entryOrder = b_Orders b ! nat (gs_EntryIndex spec) in
              (case bo_Submit ops a entryOrder k of
                 (Some e, k1) \<Rightarrow> (Some (Wrap ''execute batch: submit'' e), a, k1)
               | (None, k1) \<Rightarrow>
                   (None, a\<lparr>a_pendingGroups := mput gid \<lparr>g_ID = gid, g_Type = GroupBracket,
                            g_OrderIDs = [o_ID entryOrder]\<rparr> (a_pendingGroups a)\<rparr>, k1))
            else (None, a, k))"

fun submit_groups ::
    "'b broker_ops \<Rightarrow> batch \<Rightarrow> orderGroupSpec list \<Rightarrow> account \<times> 'b \<Rightarrow> goerr option \<times> account \<times> 'b" where
  "submit_groups ops b [] ak = (None, ak)"
| "submit_groups ops b (spec # specs) ak =
     (case submit_group_spec ops b spec ak of
        (Some e, ak1) \<Rightarrow> (Some e, ak1)
      | (None, ak1) \<Rightarrow> submit_groups ops b specs ak1)"

definition submit_new ::
    "'b broker_ops \<Rightarrow> batch \<Rightarrow> account \<times> 'b \<Rightarrow> goerr option \<times> account \<times> 'b" where
  "submit_new ops b ak =
     (let newGroups = drop (b_executedGroups b) (b_groups b);
          a0 = fst ak;
          a1 = a0\<lparr>a_deferredExits := fold (\<lambda>spec m. mput (gs_GroupID spec) spec m)
                  (filter (\<lambda>spec. gs_Type spec = GroupBracket) newGroups) (a_deferredExits a0)\<rparr>
      in case submit_groups ops b newGroups (a1, snd ak) of
           (Some e, ak1) \<Rightarrow> (Some e, ak1)
         | (None, (a2, k2)) \<Rightarrow>
             let rest = filter (\<lambda>ord. \<not> (o_GroupID ord \<noteq> [] \<and> o_GroupID ord \<in> gs_GroupID ` set newGroups))
                          (drop (b_executed b) (b_Orders b))
             in (case submit_each ops a2 rest k2 of (e, k3) \<Rightarrow> (e, a2, k3)))"

text \<open>
  \<open>ExecuteBatch\<close>. The deferred function that clears the current batch runs on every return.
\<close>

definition clear_current :: "account \<Rightarrow> account" where
  "clear_current a = a\<lparr>a_currentBatchID := 0\<rparr>"

definition begin_batch :: "account \<times> batch \<Rightarrow> account \<times> batch" where
  "begin_batch ab =
     (case ab of (a, b) \<Rightarrow>
        if b_batchID b = 0
        then let bid = length (a_batches a) + 1 in
          (a\<lparr>a_batches := a_batches a @ [\<lparr>br_BatchID = bid, br_Timestamp = b_Timestamp b\<rparr>],
             a_currentBatchID := bid\<rparr>, b\<lparr>b_batchID := bid\<rparr>)
        else (a\<lparr>a_currentBatchID := b_batchID b\<rparr>, b))"

definition first_pass :: "middleware list \<Rightarrow> account \<times> batch \<Rightarrow> goerr option \<times> account \<times> batch" where
  "first_pass mws ab =
     (if b_executed (snd ab) \<noteq> 0 then (None, ab)
      else case (if b_SkipMiddleware (snd ab) then (None, ab) else run_middleware mws ab) of
        (Some e, ab1) \<Rightarrow> (Some e, ab1)
      | (None, (a1, b1)) \<Rightarrow>
          (None, fold (\<lambda>(key, val) a. Annotate (b_Timestamp b1) key val a) (b_Annotations b1) a1, b1))"

definition ExecuteBatch ::
    "'b broker_ops \<Rightarrow> middleware list \<Rightarrow> account \<times> 'b \<times> batch \<Rightarrow> (goerr option \<times> account \<times> 'b \<times> batch) option" where
  "ExecuteBatch ops mws akb =
     (case akb of (a, k, b) \<Rightarrow>
        case first_pass mws (begin_batch (a, b)) of
          (Some e, (a1, b1)) \<Rightarrow> Some (Some e, clear_current a1, k, b1)
        | (None, (a1, b1)) \<Rightarrow>
            if length (b_Orders b1) > b_executed b1 \<and> \<not> a_hasBroker a1
            then Some (Some (Err ''execute batch: no broker set''), clear_current a1, k, b1)
            else case assign_ids (a1, b1) of
              (a2, b2) \<Rightarrow>
                (case submit_new ops b2 (a2, k) of
                   (Some e, (a3, k3)) \<Rightarrow> Some (Some e, clear_current a3, k3, b2)
                 | (None, (a3, k3)) \<Rightarrow>
                     let b3 = b2\<lparr>b_executed := length (b_Orders b2), b_executedGroups := length (b_groups b2)\<rparr> in
                     (case drainFillsFromChannel ops (a3, k3, Some b3) of None \<Rightarrow> None
                      | Some (a4, k4, bat) \<Rightarrow>
                          Some (None, clear_current a4, k4, case bat of None \<Rightarrow> b3 | Some b4 \<Rightarrow> b4))))"

section \<open>Cancelling open orders\<close>

definition is_exit :: "order \<Rightarrow> bool" where
  "is_exit ord \<longleftrightarrow> o_GroupRole ord = RoleStopLoss \<or> o_GroupRole ord = RoleTakeProfit"

definition CancelOpenOrders :: "'b broker_ops \<Rightarrow> account \<times> 'b \<Rightarrow> account \<times> 'b" where
  "CancelOpenOrders ops ak =
     (case ak of (a, k) \<Rightarrow>
        if \<not> a_hasBroker a then (a, k)
        else
          let surviving = filter (\<lambda>(_, ord). is_exit ord) (a_pendingOrders a);
              gids = map (\<lambda>(_, ord). o_GroupID ord) surviving;
              survivingGroups = filter (\<lambda>(gid, _). gid \<noteq> [] \<and> gid \<in> set gids) (a_pendingGroups a);
              cancelled = filter (\<lambda>(_, ord). \<not> is_exit ord) (a_pendingOrders a)
          in (a\<lparr>a_pendingOrders := surviving, a_pendingGroups := survivingGroups, a_deferredExits := []\<rparr>,
              fold (\<lambda>(oid, _) k. snd (bo_Cancel ops oid k)) cancelled k))"

section \<open>What booking a transaction leaves alone\<close>

text \<open>The execution side of an account, which \<open>Record\<close> never touches.\<close>

definition exec_state where
  "exec_state (a :: account) = (a_pendingOrders a, a_pendingGroups a, a_deferredExits a, a_hasBroker a,
     a_brokerHasGroups a, a_currentBatchID a, a_prices a, a_substitutions a, a_batches a,
     a_initialMargin a, a_maintenanceMargin a, a_maxLeverage a, a_grossMaintenanceLeverage a, a_borrowRate a)"

lemma exec_state_simps [acct_frame]:
  "exec_state (open_excursion txn a) = exec_state a" "exec_state (delete_excursion k a) = exec_state a"
  "exec_state (add_loss_sale k d l q a) = exec_state a" "exec_state (flat_cleanup k a) = exec_state a"
  "exec_state (booked txn a) = exec_state a" "exec_state (a\<lparr>a_holdings := h\<rparr>) = exec_state a"
  by (simp_all add: exec_state_def open_excursion_def delete_excursion_def add_loss_sale_def flat_cleanup_def
      booked_def pruneWashSaleTracking_def Let_def)

lemma exec_state_wash:
  "checkWashSaleOnBuy a ast d q lid = (b, l, r) \<Longrightarrow> exec_state b = exec_state a"
  "checkWashSaleOnSell a ast d q loss cd = (b, r) \<Longrightarrow> exec_state b = exec_state a"
  by (auto simp: checkWashSaleOnBuy_def checkWashSaleOnSell_def Let_def exec_state_def split: if_splits prod.splits)

lemma exec_state_phases [acct_frame]:
  "exec_state (buy_cover txn q a) = exec_state a" "exec_state (sell_open txn q a) = exec_state a"
  by (auto simp: buy_cover_def sell_open_def Let_def consumeShortLots_def acct_frame split: option.splits)
     (simp_all add: exec_state_def)

lemma exec_state_buy_open [acct_frame]: "exec_state (buy_open txn q a) = exec_state a"
proof -
  have "exec_state (a\<lparr>a_taxLots := x\<rparr>) = exec_state a" "exec_state (a\<lparr>a_recentBuys := y\<rparr>) = exec_state a" for a x y
    by (simp_all add: exec_state_def)
  then show ?thesis
    by (auto simp: buy_open_def Let_def acct_frame dest!: exec_state_wash split: prod.split)
qed

lemma exec_state_sell_close [acct_frame]: "exec_state (sell_close txn q a) = exec_state a"
proof -
  have "exec_state (a\<lparr>a_taxLots := x\<rparr>) = exec_state a" "exec_state (a\<lparr>a_tradeDetails := y\<rparr>) = exec_state a"
    "exec_state (a\<lparr>a_tradeDetails := y, a_taxLots := x\<rparr>) = exec_state a" for a x y
    by (simp_all add: exec_state_def)
  then show ?thesis
    by (auto simp: sell_close_def Let_def consumeLots_def acct_frame dest!: exec_state_wash
        split: prod.split option.split)
qed

lemma exec_state_Record [simp]: "exec_state (Record txn a) = exec_state a"
proof -
  have "exec_state (record_buy t b) = exec_state b" "exec_state (record_sell t b) = exec_state b" for t b
    by (simp_all add: record_buy_def record_sell_def Let_def acct_frame)
  then show ?thesis by (simp add: Record_unfold acct_frame split: txtype.splits)
qed

lemma Record_exec_fields [simp]:
  "a_pendingOrders (Record txn a) = a_pendingOrders a" "a_pendingGroups (Record txn a) = a_pendingGroups a"
  "a_deferredExits (Record txn a) = a_deferredExits a" "a_hasBroker (Record txn a) = a_hasBroker a"
  "a_brokerHasGroups (Record txn a) = a_brokerHasGroups a" "a_currentBatchID (Record txn a) = a_currentBatchID a"
  "a_prices (Record txn a) = a_prices a" "a_substitutions (Record txn a) = a_substitutions a"
  "a_maintenanceMargin (Record txn a) = a_maintenanceMargin a"
  "a_grossMaintenanceLeverage (Record txn a) = a_grossMaintenanceLeverage a"
  using exec_state_Record [of txn a] unfolding exec_state_def by auto

section \<open>What executing a fill does\<close>

lemma acct_inv_pending [simp]:
  "acct_inv (a\<lparr>a_pendingOrders := p\<rparr>) \<longleftrightarrow> acct_inv a" "acct_inv (a\<lparr>a_pendingGroups := g\<rparr>) \<longleftrightarrow> acct_inv a"
  "acct_inv (a\<lparr>a_deferredExits := d\<rparr>) \<longleftrightarrow> acct_inv a" "acct_inv (a\<lparr>a_currentBatchID := c\<rparr>) \<longleftrightarrow> acct_inv a"
  "acct_inv (a\<lparr>a_batches := bs\<rparr>) \<longleftrightarrow> acct_inv a" "acct_inv (a\<lparr>a_annotations := an\<rparr>) \<longleftrightarrow> acct_inv a"
  by (simp_all add: acct_inv_def position_inv_def tracking_ok_def tracking_fin_def)

lemma cancel_siblings_acct:
  "\<exists>k'. cancel_siblings ops filled sibs (a, k)
      = (a\<lparr>a_pendingOrders := fold (\<lambda>sib m. if sib = filled then m else mdel sib m) sibs (a_pendingOrders a)\<rparr>, k')"
proof (induction sibs arbitrary: a k)
  case (Cons sib sibs)
  show ?case
    using Cons.IH [of a k] Cons.IH [of "a\<lparr>a_pendingOrders := mdel sib (a_pendingOrders a)\<rparr>" k]
      Cons.IH [of "a\<lparr>a_pendingOrders := mdel sib (a_pendingOrders a)\<rparr>" "snd (bo_Cancel ops sib k)"]
    by auto
qed simp

lemma cancelOCOSiblings_acct:
  "\<exists>p g. fst (cancelOCOSiblings ops gid oid (a, k)) = a\<lparr>a_pendingOrders := p, a_pendingGroups := g\<rparr>"
proof (cases "map_of (a_pendingGroups a) gid")
  case None
  then show ?thesis 
    by (intro exI [of _ "a_pendingOrders a"] exI [of _ "a_pendingGroups a"]) (simp add: cancelOCOSiblings_def)
next
  case (Some grp)
  obtain k' where "cancel_siblings ops oid (g_OrderIDs grp) (a, k) = (a\<lparr>a_pendingOrders :=
      fold (\<lambda>sib m. if sib = oid then m else mdel sib m) (g_OrderIDs grp) (a_pendingOrders a)\<rparr>, k')"
    using cancel_siblings_acct [of ops oid "g_OrderIDs grp" a k] by blast
  with Some show ?thesis by (simp add: cancelOCOSiblings_def) (rule exI, rule exI, rule refl)
qed

lemma handle_group_inv: "acct_inv (ds_acct (handle_group ops ord fl s)) \<longleftrightarrow> acct_inv (ds_acct s)"
  using cancelOCOSiblings_acct [of ops "o_GroupID ord" "f_OrderID fl" "ds_acct s" "ds_brk s"]
  by (auto simp: handle_group_def split: GroupRole.splits option.splits prod.splits)

lemma fill_txn_simps [simp]:
  "t_Qty (fill_txn ord fl) = f_Qty fl" "t_Asset (fill_txn ord fl) = o_Asset ord"
  "t_Type (fill_txn ord fl) = (case o_Side ord of Buy \<Rightarrow> BuyTransaction | Sell \<Rightarrow> SellTransaction)"
  "t_Amount (fill_txn ord fl) = (case o_Side ord of Buy \<Rightarrow> - (f_Price fl * f_Qty fl) | Sell \<Rightarrow> f_Price fl * f_Qty fl)"
  "t_Price (fill_txn ord fl) = f_Price fl" "t_ID (fill_txn ord fl) = []"
  by (simp_all add: fill_txn_def transaction_zero_def)

lemma process_fill_inv:
  assumes "acct_inv (ds_acct s)" "f_Err fl = None \<Longrightarrow> 0 \<le> fval (f_Qty fl)"
  shows "acct_inv (ds_acct (process_fill ops fl s))"
proof (cases "map_of (a_pendingOrders (ds_acct s)) (f_OrderID fl)")
  case None
  then show ?thesis using assms(1) by (simp add: process_fill_def Let_def)
next
  case (Some ord)
  have "acct_inv (Record (fill_txn ord fl) (ds_acct s))" if "f_Err fl = None"
    using assms that by (intro Record_inv) (auto simp: txn_ok_def)
  then show ?thesis
    using Some assms(1) by (auto simp: process_fill_def Let_def handle_group_inv keep_remainder_def)
qed

text \<open>A fill the account does not expect, and a failed one, leave the books alone.\<close>

lemma process_fill_unknown:
  "map_of (a_pendingOrders (ds_acct s)) (f_OrderID fl) = None \<Longrightarrow> process_fill ops fl s = s"
  by (simp add: process_fill_def Let_def)

lemma cancel_siblings_removes:
  "sib \<in> set sibs \<Longrightarrow> sib \<noteq> filled \<Longrightarrow>
   map_of (fold (\<lambda>sib m. if sib = filled then m else mdel sib m) sibs m) sib = None"
proof (induction sibs arbitrary: m)
  case (Cons x sibs)
  have keep: "map_of (fold (\<lambda>sib m. if sib = filled then m else mdel sib m) sibs m) sib = None"
    if "map_of m sib = None" for m sibs
    using that by (induction sibs arbitrary: m) auto
  show ?case using Cons keep [of "mdel sib m"] by (cases "x = sib") auto
qed simp

lemma process_fill_leg:
  assumes ord: "map_of (a_pendingOrders (ds_acct s)) (f_OrderID fl) = Some ord" "f_Err fl = None"
    and leg: "is_exit ord" "o_GroupID ord \<noteq> []"
    and grp: "map_of (a_pendingGroups (ds_acct s)) (o_GroupID ord) = Some grp"
    and sib: "sib \<in> set (g_OrderIDs grp)" "sib \<noteq> f_OrderID fl"
  shows "map_of (a_pendingOrders (ds_acct (process_fill ops fl s))) sib = None"
proof -
  define s1 where "s1 = s\<lparr>ds_batch := record_outcome (ds_acct s) ord fl (ds_batch s),
      ds_acct := keep_remainder ord fl (Record (fill_txn ord fl) (ds_acct s))\<rparr>"
  have pf: "process_fill ops fl s = handle_group ops ord fl s1"
    using ord by (simp add: process_fill_def Let_def s1_def)
  have grp1: "map_of (a_pendingGroups (ds_acct s1)) (o_GroupID ord) = Some grp"
    using grp by (simp add: s1_def keep_remainder_def)
  obtain k' where c: "cancel_siblings ops (f_OrderID fl) (g_OrderIDs grp) (ds_acct s1, ds_brk s1)
      = ((ds_acct s1)\<lparr>a_pendingOrders := fold (\<lambda>sib m. if sib = f_OrderID fl then m else mdel sib m)
           (g_OrderIDs grp) (a_pendingOrders (ds_acct s1))\<rparr>, k')"
    using cancel_siblings_acct [of ops "f_OrderID fl" "g_OrderIDs grp" "ds_acct s1" "ds_brk s1"] by blast
  show ?thesis
    using leg grp1 c cancel_siblings_removes [OF sib]
    by (auto simp: pf handle_group_def is_exit_def cancelOCOSiblings_def)
qed

text \<open>So the other leg of the pair is dead: a fill for it changes nothing.\<close>

lemma OCO_once:
  assumes "map_of (a_pendingOrders (ds_acct s)) (f_OrderID fl) = Some ord" "f_Err fl = None"
    and "is_exit ord" "o_GroupID ord \<noteq> []"
    and "map_of (a_pendingGroups (ds_acct s)) (o_GroupID ord) = Some grp"
    and "f_OrderID fl2 \<in> set (g_OrderIDs grp)" "f_OrderID fl2 \<noteq> f_OrderID fl"
  shows "process_fill ops fl2 (process_fill ops fl s) = process_fill ops fl s"
  using process_fill_leg [OF assms(1-6) assms(7), of ops] by (rule process_fill_unknown)

section \<open>Draining\<close>

text \<open>
  What the account relies on: the fills of a broker are a queue, and cancelling an order does
  not produce fills.
\<close>

locale fill_queue =
  fixes ops :: "'b broker_ops" and queue :: "'b \<Rightarrow> fill list"
  assumes recv_empty: "queue k = [] \<Longrightarrow> bo_recv ops k = None"
    and recv_next: "queue k = fl # fls \<Longrightarrow> \<exists>k'. bo_recv ops k = Some (fl, k') \<and> queue k' = fls"
    and cancel_keeps: "queue (snd (bo_Cancel ops oid k)) = queue k"
begin

lemma cancel_siblings_queue: "queue (snd (cancel_siblings ops filled sibs (a, k))) = queue k"
  by (induction sibs arbitrary: a k) (auto simp: cancel_keeps)

lemma handle_group_queue: "queue (ds_brk (handle_group ops ord fl s)) = queue (ds_brk s)"
  using cancel_siblings_queue [of "f_OrderID fl" _ "ds_acct s" "ds_brk s"]
  by (auto simp: handle_group_def cancelOCOSiblings_def split: GroupRole.splits option.splits prod.splits)
     (metis snd_conv)+

lemma process_fill_queue: "queue (ds_brk (process_fill ops fl s)) = queue (ds_brk s)"
  by (auto simp: process_fill_def Let_def handle_group_queue split: option.splits)

lemma drain_returns:
  assumes "\<And>s fl k. P s \<Longrightarrow> Q fl \<Longrightarrow> bo_recv ops (ds_brk s) = Some (fl, k) \<Longrightarrow> P (process_fill ops fl (s\<lparr>ds_brk := k\<rparr>))"
    and "P s" "list_all Q (queue (ds_brk s))"
  shows "\<exists>s'. drain_loop ops s = Some s' \<and> queue (ds_brk s') = [] \<and> P s'"
  using assms(2,3)
proof (induction "queue (ds_brk s)" arbitrary: s)
  case Nil
  then show ?case using recv_empty [of "ds_brk s"] by (simp add: drain_loop.simps)
next
  case (Cons fl fls)
  have qs: "queue (ds_brk s) = fl # fls" using Cons.hyps(2) by simp
  obtain k where k: "bo_recv ops (ds_brk s) = Some (fl, k)" "queue k = fls"
    using recv_next [OF qs] by blast
  have Q: "Q fl" "list_all Q fls" using Cons.prems(2) unfolding qs by simp_all
  define s1 where "s1 = process_fill ops fl (s\<lparr>ds_brk := k\<rparr>)"
  have q1: "fls = queue (ds_brk s1)" using k(2) by (simp add: s1_def process_fill_queue)
  have "P s1" unfolding s1_def by (rule assms(1) [OF Cons.prems(1) Q(1) k(1)])
  then have "\<exists>s'. drain_loop ops s1 = Some s' \<and> queue (ds_brk s') = [] \<and> P s'"
    using Cons.hyps(1) [OF q1] Q(2) q1 by simp
  then show ?case using k(1) by (simp add: drain_loop.simps [of ops s] s1_def)
qed

lemma drain_total: "\<exists>s'. drain_loop ops s = Some s' \<and> queue (ds_brk s') = []"
  using drain_returns [of "\<lambda>_. True" "\<lambda>_. True" s] by (simp add: list_all_iff)

lemma drainFills_total: "\<exists>r. drainFillsFromChannel ops akb = Some r"
proof -
  obtain a k bat where akb: "akb = (a, k, bat)" using prod_cases3 by blast
  obtain s' where "drain_loop ops \<lparr>ds_acct = a, ds_brk = k, ds_batch = bat, ds_exits = []\<rparr> = Some s'"
    using drain_total by blast
  then show ?thesis by (cases "a_hasBroker a") (auto simp: akb drainFillsFromChannel_def split: prod.split)
qed

lemma ExecuteBatch_total: "\<exists>r. ExecuteBatch ops mws akb = Some r"
proof -
  have "\<exists>r. drainFillsFromChannel ops x = Some r" for x by (rule drainFills_total)
  then show ?thesis
    unfolding ExecuteBatch_def Let_def
    by (auto split: prod.splits option.splits) (metis option.distinct(1))+
qed

lemma submitAndRecord_total: "\<exists>r. submitAndRecord ops ast ord just ak = Some r"
proof -
  have "\<exists>r. drainFillsFromChannel ops x = Some r" for x by (rule drainFills_total)
  then show ?thesis
    unfolding submitAndRecord_def Let_def
    by (auto split: prod.splits option.splits) (metis option.distinct(1))+
qed

end

end
