(* ===== verification/SimBroker.thy ===== *)
theory SimBroker
  imports Execution
begin

text \<open>
  The simulated broker (engine/simulated\_broker.go): immediate fills through the fill
  pipeline with margin checks, stop-loss and take-profit orders evaluated against later bars,
  retries of partial fills, and the account activity it reports (dividends, splits, delisting
  sales, borrow fees). The price provider is the engine's data access: a function from assets
  to a frame or an error. The portfolio the broker consults is the account that submits.
\<close>

section \<open>State\<close>

record partialRemainder =
  pr_order :: order
  pr_bars :: nat

record simBroker =
  sb_prices :: "(asset list \<Rightarrow> goerr + dataframe) option"
  sb_date :: gotime
  sb_fills :: "fill list"
  sb_cap :: nat
  sb_pending :: "(string, order) gomap"
  sb_groups :: "(string, string list) gomap"
  sb_hasPortfolio :: bool
  sb_initialMarginRate :: f64
  sb_maxLeverage :: f64
  sb_borrowRate :: f64
  sb_lastPrices :: "(asset, f64) gomap"
  sb_fillPipeline :: pipeline
  sb_partialRemainders :: "(string, partialRemainder) gomap"

definition fillChannelSize :: nat where "fillChannelSize = 1024"

definition NewSimulatedBroker :: simBroker where
  "NewSimulatedBroker = \<lparr>sb_prices = None, sb_date = time_zero, sb_fills = [], sb_cap = fillChannelSize,
     sb_pending = [], sb_groups = [], sb_hasPortfolio = False, sb_initialMarginRate = 0,
     sb_maxLeverage = 0, sb_borrowRate = 0, sb_lastPrices = [],
     sb_fillPipeline = \<lparr>pp_base = CloseFill, pp_adjusters = []\<rparr>, sb_partialRemainders = []\<rparr>"

definition SetPriceProvider :: "(asset list \<Rightarrow> goerr + dataframe) \<Rightarrow> gotime \<Rightarrow> simBroker \<Rightarrow> simBroker" where
  "SetPriceProvider p date k = k\<lparr>sb_prices := Some p, sb_date := date\<rparr>"

definition SetPortfolio :: "simBroker \<Rightarrow> simBroker" where
  "SetPortfolio k = k\<lparr>sb_hasPortfolio := True\<rparr>"

definition SetInitialMarginRate :: "f64 \<Rightarrow> simBroker \<Rightarrow> simBroker" where
  "SetInitialMarginRate rate k = k\<lparr>sb_initialMarginRate := rate\<rparr>"

definition SetBorrowRate :: "f64 \<Rightarrow> simBroker \<Rightarrow> simBroker" where
  "SetBorrowRate rate k = k\<lparr>sb_borrowRate := rate\<rparr>"

definition sb_SetMaxLeverage :: "f64 \<Rightarrow> simBroker \<Rightarrow> simBroker" where
  "sb_SetMaxLeverage ratio k = k\<lparr>sb_maxLeverage := ratio\<rparr>"

definition SetFillPipeline :: "pipeline \<Rightarrow> simBroker \<Rightarrow> simBroker" where
  "SetFillPipeline pp k = k\<lparr>sb_fillPipeline := pp\<rparr>"

definition sb_SetDataFetcher :: "data_fetcher \<Rightarrow> simBroker \<Rightarrow> simBroker" where
  "sb_SetDataFetcher df k = k\<lparr>sb_fillPipeline := pipeline_SetDataFetcher (sb_fillPipeline k) df\<rparr>"

section \<open>The fill channel\<close>

text \<open>A buffered channel: its queue and its capacity. A full one is replaced by a larger one.\<close>

definition deliverFill :: "fill \<Rightarrow> simBroker \<Rightarrow> simBroker" where
  "deliverFill fl k =
     (if length (sb_fills k) < sb_cap k then k\<lparr>sb_fills := sb_fills k @ [fl]\<rparr>
      else k\<lparr>sb_fills := sb_fills k @ [fl], sb_cap := 2 * sb_cap k + 1\<rparr>)"

definition sim_recv :: "simBroker \<Rightarrow> (fill \<times> simBroker) option" where
  "sim_recv k = (case sb_fills k of [] \<Rightarrow> None | fl # fls \<Rightarrow> Some (fl, k\<lparr>sb_fills := fls\<rparr>))"

definition failOrder :: "order \<Rightarrow> goerr \<Rightarrow> simBroker \<Rightarrow> simBroker" where
  "failOrder ord reason k =
     deliverFill \<lparr>f_OrderID = o_ID ord, f_Price = 0, f_Qty = 0, f_FilledAt = sb_date k, f_Err = Some reason\<rparr> k"

section \<open>Submission\<close>

definition hold_exit :: "order \<Rightarrow> simBroker \<Rightarrow> simBroker" where
  "hold_exit ord k =
     (let k1 = k\<lparr>sb_pending := mput (o_ID ord) ord (sb_pending k)\<rparr> in
      if o_GroupID ord \<noteq> []
      then k1\<lparr>sb_groups := mput (o_GroupID ord) (mget [] (sb_groups k1) (o_GroupID ord) @ [o_ID ord]) (sb_groups k1)\<rparr>
      else k1)"

text \<open>The margin checks: the error an order is rejected with, if any.\<close>

definition margin_check :: "account \<Rightarrow> order \<Rightarrow> fillResult \<Rightarrow> simBroker \<Rightarrow> goerr option" where
  "margin_check port ord result k =
     (let currentPos = Position port (o_Asset ord);
          signedDelta = (if o_Side ord = Sell then - fr_Quantity result else fr_Quantity result);
          postQty = currentPos + signedDelta;
          preLong = maxF currentPos 0;
          preShort = maxF (- currentPos) 0;
          postLong = maxF postQty 0;
          postShort = maxF (- postQty) 0;
          newShortValue = ShortMarketValue port + (postShort - preShort) * fr_Price result;
          equity = Equity port;
          initialRate = (if feq (sb_initialMarginRate k) 0 then Fin (50/100) else sb_initialMarginRate k)
      in if o_Side ord = Sell \<and> postQty < 0 \<and> newShortValue > 0 \<and> equity / newShortValue < initialRate
         then Some (Err ''order rejected: insufficient margin'')
         else if sb_maxLeverage k > 0
         then let preLongValue = LongMarketValue port;
                  preGross = preLongValue + ShortMarketValue port;
                  newLongValue = preLongValue + (postLong - preLong) * fr_Price result;
                  postGross = newLongValue + newShortValue
              in if postGross > preGross \<and> (equity \<le> 0 \<or> postGross / equity > sb_maxLeverage k)
                 then Some (Err ''order rejected: gross leverage cap'') else None
         else None)"

definition queue_remainder :: "order \<Rightarrow> f64 \<Rightarrow> fillResult \<Rightarrow> simBroker \<Rightarrow> simBroker" where
  "queue_remainder ord qty result k =
     (if fr_Partial result \<and> qty - fr_Quantity result > 0
      then k\<lparr>sb_partialRemainders := mput (o_ID ord)
               \<lparr>pr_order = ord\<lparr>o_Qty := qty - fr_Quantity result, o_Amount := 0\<rparr>, pr_bars = 1\<rparr>
               (sb_partialRemainders k)\<rparr>
      else k)"

definition sim_Submit :: "account \<Rightarrow> order \<Rightarrow> simBroker \<Rightarrow> goerr option \<times> simBroker" where
  "sim_Submit port ord k =
     (if is_exit ord then (None, hold_exit ord k)
      else case sb_prices k of None \<Rightarrow> (Some (Err ''simulated broker: no price provider set''), k)
      | Some prices \<Rightarrow>
        (case prices [o_Asset ord] of
           Inl e \<Rightarrow> if isNoMinuteBar e then (None, failOrder ord (Wrap ''no price available to fill'' e) k)
                     else (Some (Wrap ''simulated broker: fetching price'' e), k)
         | Inr df \<Rightarrow>
           (case pipeline_FillBase (sb_fillPipeline k) ord df of
              Inl e \<Rightarrow> (None, failOrder ord (Wrap ''fill model error'' e) k)
            | Inr baseResult \<Rightarrow>
                let qty = (if feq (fr_Quantity baseResult) 0 \<and> o_Amount ord > 0
                           then floorF (o_Amount ord / fr_Price baseResult) else fr_Quantity baseResult)
                in if feq qty 0
                   then (None, failOrder ord (Err ''order amount is too small to fill a whole share'') k)
                   else (case pipeline_Adjust (sb_fillPipeline k) ord df (baseResult\<lparr>fr_Quantity := qty\<rparr>) of
                           Inl e \<Rightarrow> (None, failOrder ord (Wrap ''fill adjuster error'' e) k)
                         | Inr result \<Rightarrow>
                             (case (if sb_hasPortfolio k then margin_check port ord result k else None) of
                                Some e \<Rightarrow> (None, failOrder ord e k)
                              | None \<Rightarrow>
                                  (None, queue_remainder ord qty result
                                     (deliverFill \<lparr>f_OrderID = o_ID ord, f_Price = fr_Price result,
                                        f_Qty = fr_Quantity result, f_FilledAt = sb_date k, f_Err = None\<rparr> k)))))))"

definition sim_Cancel :: "string \<Rightarrow> simBroker \<Rightarrow> goerr option \<times> simBroker" where
  "sim_Cancel orderID k =
     (case map_of (sb_pending k) orderID of None \<Rightarrow> (Some (Err ''simulated broker: order not found''), k)
      | Some ord \<Rightarrow>
          let k1 = k\<lparr>sb_pending := mdel orderID (sb_pending k)\<rparr> in
          if o_GroupID ord \<noteq> []
          then let updated = filter (\<lambda>i. i \<noteq> orderID) (mget [] (sb_groups k1) (o_GroupID ord)) in
            (None, if updated = [] then k1\<lparr>sb_groups := mdel (o_GroupID ord) (sb_groups k1)\<rparr>
                   else k1\<lparr>sb_groups := mput (o_GroupID ord) updated (sb_groups k1)\<rparr>)
          else (None, k1))"

fun sim_SubmitGroup :: "account \<Rightarrow> order list \<Rightarrow> GroupType \<Rightarrow> simBroker \<Rightarrow> goerr option \<times> simBroker" where
  "sim_SubmitGroup port [] gt k = (None, k)"
| "sim_SubmitGroup port (ord # ords) gt k =
     (case sim_Submit port ord k of (Some e, k1) \<Rightarrow> (Some e, k1)
      | (None, k1) \<Rightarrow> sim_SubmitGroup port ords gt k1)"

definition sim_Replace :: "string \<Rightarrow> order \<Rightarrow> simBroker \<Rightarrow> goerr option \<times> simBroker" where
  "sim_Replace oid ord k = (Some (Err ''simulated broker: replace not supported''), k)"

definition sim_Orders :: "simBroker \<Rightarrow> order list" where
  "sim_Orders k = map snd (sb_pending k)"

definition sim_ops :: "simBroker broker_ops" where
  "sim_ops = \<lparr>bo_Submit = sim_Submit, bo_Cancel = sim_Cancel, bo_SubmitGroup = sim_SubmitGroup, bo_recv = sim_recv\<rparr>"

section \<open>Stop-loss and take-profit orders\<close>

definition usable :: "f64 \<Rightarrow> bool" where
  "usable p \<longleftrightarrow> \<not> isNaN p \<and> \<not> feq p 0"

definition trigger_price :: "f64 \<Rightarrow> f64 \<Rightarrow> f64" where
  "trigger_price p closePrice = (if isNaN p \<or> feq p 0 then closePrice else p)"

definition stop_triggered :: "order \<Rightarrow> f64 \<Rightarrow> f64 \<Rightarrow> f64 \<Rightarrow> bool" where
  "stop_triggered ord high low closePrice =
     (if o_Side ord = Sell
      then let p = trigger_price low closePrice in usable p \<and> p \<le> o_StopPrice ord
      else let p = trigger_price high closePrice in usable p \<and> o_StopPrice ord \<le> p)"

definition tp_triggered :: "order \<Rightarrow> f64 \<Rightarrow> f64 \<Rightarrow> f64 \<Rightarrow> bool" where
  "tp_triggered ord high low closePrice =
     (if o_Side ord = Sell
      then let p = trigger_price high closePrice in usable p \<and> o_LimitPrice ord \<le> p
      else let p = trigger_price low closePrice in usable p \<and> p \<le> o_LimitPrice ord)"

text \<open>The pending order of a role in a group; a later one replaces an earlier one.\<close>

definition group_leg :: "GroupRole \<Rightarrow> (string, order) gomap \<Rightarrow> string list \<Rightarrow> order option" where
  "group_leg role pending ids =
     foldl (\<lambda>acc oid. case map_of pending oid of None \<Rightarrow> acc
              | Some ord \<Rightarrow> if o_GroupRole ord = role then Some ord else acc) None ids"

definition exit_fill :: "order \<Rightarrow> f64 \<Rightarrow> simBroker \<Rightarrow> simBroker" where
  "exit_fill ord price k =
     deliverFill \<lparr>f_OrderID = o_ID ord, f_Price = price, f_Qty = o_Qty ord, f_FilledAt = sb_date k, f_Err = None\<rparr> k"

definition drop_leg :: "order option \<Rightarrow> simBroker \<Rightarrow> simBroker" where
  "drop_leg leg k = (case leg of None \<Rightarrow> k | Some ord \<Rightarrow> k\<lparr>sb_pending := mdel (o_ID ord) (sb_pending k)\<rparr>)"

definition evaluate_group :: "dataframe \<Rightarrow> string \<times> string list \<Rightarrow> simBroker \<Rightarrow> simBroker" where
  "evaluate_group df entry k =
     (case entry of (groupID, orderIDs) \<Rightarrow>
        let stopOrder = group_leg RoleStopLoss (sb_pending k) orderIDs;
            tpOrder = group_leg RoleTakeProfit (sb_pending k) orderIDs
        in case (case stopOrder of Some s \<Rightarrow> Some (o_Asset s) | None \<Rightarrow> map_option o_Asset tpOrder) of
             None \<Rightarrow> k
           | Some targetAsset \<Rightarrow>
               let high = df_Value df targetAsset MetricHigh;
                   low = df_Value df targetAsset MetricLow;
                   closePrice = df_Value df targetAsset MetricClose;
                   done = (\<lambda>k. k\<lparr>sb_groups := mdel groupID (sb_groups k)\<rparr>)
               in case stopOrder of
                    Some s \<Rightarrow>
                      if stop_triggered s high low closePrice
                      then done (drop_leg tpOrder (drop_leg stopOrder (exit_fill s (o_StopPrice s) k)))
                      else (case tpOrder of
                              Some t \<Rightarrow> if tp_triggered t high low closePrice
                                        then done (drop_leg stopOrder (drop_leg tpOrder (exit_fill t (o_LimitPrice t) k)))
                                        else k
                            | None \<Rightarrow> k)
                  | None \<Rightarrow>
                      (case tpOrder of
                         Some t \<Rightarrow> if tp_triggered t high low closePrice
                                   then done (drop_leg tpOrder (exit_fill t (o_LimitPrice t) k)) else k
                       | None \<Rightarrow> k))"

section \<open>Partial fills\<close>

definition unique_assets :: "order list \<Rightarrow> asset list" where
  "unique_assets ords = map snd (foldl (\<lambda>m ord. mput (CompositeFigi (o_Asset ord)) (o_Asset ord) m) [] ords)"

definition retry_remainder :: "dataframe \<Rightarrow> string \<times> partialRemainder \<Rightarrow> simBroker \<Rightarrow> simBroker" where
  "retry_remainder df entry k =
     (case entry of (orderID, pr) \<Rightarrow>
        case pipeline_Fill (sb_fillPipeline k) (pr_order pr) df of Inl _ \<Rightarrow> k
        | Inr result \<Rightarrow>
            let k1 = (if fr_Quantity result > 0
                      then deliverFill \<lparr>f_OrderID = orderID, f_Price = fr_Price result, f_Qty = fr_Quantity result,
                             f_FilledAt = sb_date k, f_Err = None\<rparr> k
                      else k);
                remainderQty = o_Qty (pr_order pr) - fr_Quantity result
            in if \<not> fr_Partial result
               then k1\<lparr>sb_partialRemainders := mdel orderID (sb_partialRemainders k1)\<rparr>
               else if remainderQty > 0
               then k1\<lparr>sb_partialRemainders := mput orderID
                        \<lparr>pr_order = (pr_order pr)\<lparr>o_Qty := remainderQty\<rparr>, pr_bars = pr_bars pr + 1\<rparr>
                        (sb_partialRemainders k1)\<rparr>
               else k1\<lparr>sb_partialRemainders := mdel orderID (sb_partialRemainders k1)\<rparr>)"

definition evaluatePartialRemainders :: "simBroker \<Rightarrow> simBroker" where
  "evaluatePartialRemainders k =
     (case sb_prices k of None \<Rightarrow> k
      | Some prices \<Rightarrow>
        let live = filter (\<lambda>(_, pr). \<not> pr_bars pr \<ge> 2) (sb_partialRemainders k);
            k1 = k\<lparr>sb_partialRemainders := live\<rparr>
        in if live = [] then k1
           else case prices (unique_assets (map (\<lambda>(_, pr). pr_order pr) live)) of
                  Inl _ \<Rightarrow> k1
                | Inr df \<Rightarrow> fold (retry_remainder df) live k1)"

definition EvaluatePending :: "simBroker \<Rightarrow> simBroker" where
  "EvaluatePending k =
     (case sb_prices k of None \<Rightarrow> k
      | Some prices \<Rightarrow>
        if sb_pending k = [] then evaluatePartialRemainders k
        else case prices (unique_assets (map snd (sb_pending k))) of Inl _ \<Rightarrow> k
          | Inr df \<Rightarrow> evaluatePartialRemainders (fold (evaluate_group df) (sb_groups k) k))"

section \<open>Account activity\<close>

definition pad :: "nat \<Rightarrow> nat \<Rightarrow> string" where
  "pad w n = replicate (w - length (show_nat n)) (CHR ''0'') @ show_nat n"

text \<open>\<open>Format("2006-01-02")\<close>.\<close>

definition format_date :: "gotime \<Rightarrow> string" where
  "format_date t = (case time_date t of (y, m, d) \<Rightarrow>
     pad 4 (nat y) @ ''-'' @ pad 2 (nat m) @ ''-'' @ pad 2 (nat d))"

definition sim_id :: "string \<Rightarrow> asset \<Rightarrow> gotime \<Rightarrow> string" where
  "sim_id kind ast date = kind @ ''-'' @ CompositeFigi ast @ ''-'' @ format_date date"

definition bt_zero :: brokerTransaction where
  "bt_zero = \<lparr>bt_ID = [], bt_Date = time_zero, bt_Asset = asset_zero, bt_Type = BuyTransaction,
     bt_Qty = 0, bt_Price = 0, bt_Amount = 0, bt_Justification = JText []\<rparr>"

definition delist_txn :: "gotime \<Rightarrow> asset \<Rightarrow> f64 \<Rightarrow> f64 \<Rightarrow> brokerTransaction" where
  "delist_txn date ast qty lastPrice =
     (let amount = lastPrice * absF qty in
      bt_zero\<lparr>bt_ID := sim_id ''sim-delist'' ast date, bt_Date := date, bt_Asset := ast,
        bt_Type := SellTransaction, bt_Qty := qty, bt_Price := lastPrice,
        bt_Amount := (if qty < 0 then - amount else amount), bt_Justification := JDelisted ast lastPrice\<rparr>)"

definition activity :: "dataframe \<Rightarrow> account \<Rightarrow> simBroker \<Rightarrow> asset \<Rightarrow> brokerTransaction list \<times> simBroker" where
  "activity df port k ast =
     (let date = sb_date k; qty = Position port ast in
      if feq qty 0 then ([], k)
      else
        let closePrice = df_ValueAt df ast MetricClose date in
        if isNaN closePrice \<or> feq closePrice 0
        then (case map_of (sb_lastPrices k) ast of
                Some lastPrice \<Rightarrow>
                  if lastPrice > 0
                  then ([delist_txn date ast qty lastPrice], k\<lparr>sb_lastPrices := mdel ast (sb_lastPrices k)\<rparr>)
                  else ([], k)
              | None \<Rightarrow> ([], k))
        else
          let k1 = k\<lparr>sb_lastPrices := mput ast closePrice (sb_lastPrices k)\<rparr>;
              splitFactor = df_ValueAt df ast SplitFactor date;
              hasSplit = (\<not> isNaN splitFactor \<and> \<not> feq splitFactor 1);
              splits = (if hasSplit
                        then [bt_zero\<lparr>bt_ID := sim_id ''sim-split'' ast date, bt_Date := date, bt_Asset := ast,
                                bt_Type := SplitTransaction, bt_Price := splitFactor\<rparr>] else []);
              divPerShare = df_ValueAt df ast Dividend date;
              divQty = (if hasSplit then qty * splitFactor else qty);
              divs = (if \<not> isNaN divPerShare \<and> divPerShare > 0
                      then [bt_zero\<lparr>bt_ID := sim_id ''sim-div'' ast date, bt_Date := date, bt_Asset := ast,
                              bt_Type := DividendTransaction, bt_Qty := divQty, bt_Price := divPerShare,
                              bt_Amount := divPerShare * divQty,
                              bt_Justification := (if qty < 0 then JShortDividend ast date else JText [])\<rparr>] else []);
              fees = (if qty < 0 \<and> sb_borrowRate k > 0
                      then [bt_zero\<lparr>bt_ID := sim_id ''sim-fee'' ast date, bt_Date := date, bt_Asset := ast,
                              bt_Type := FeeTransaction,
                              bt_Amount := - (absF qty * closePrice * (sb_borrowRate k / 252)),
                              bt_Justification := JBorrowFee ast (sb_borrowRate k)\<rparr>] else [])
          in (splits @ divs @ fees, k1))"

fun activity_loop ::
    "dataframe \<Rightarrow> account \<Rightarrow> asset list \<Rightarrow> simBroker \<Rightarrow> brokerTransaction list \<times> simBroker" where
  "activity_loop df port [] k = ([], k)"
| "activity_loop df port (ast # asts) k =
     (case activity df port k ast of (txns, k1) \<Rightarrow>
        (case activity_loop df port asts k1 of (rest, k2) \<Rightarrow> (txns @ rest, k2)))"

definition sim_Transactions ::
    "account \<Rightarrow> simBroker \<Rightarrow> (goerr + brokerTransaction list) \<times> simBroker" where
  "sim_Transactions port k =
     (case sb_prices k of None \<Rightarrow> (Inr [], k)
      | Some prices \<Rightarrow>
        if \<not> sb_hasPortfolio k then (Inr [], k)
        else let heldAssets = mkeys (Holdings port) in
          if heldAssets = [] then (Inr [], k)
          else case prices heldAssets of
                 Inl e \<Rightarrow> (Inl (Wrap ''simulated broker: fetching housekeeping prices'' e), k)
               | Inr df \<Rightarrow> (case activity_loop df port heldAssets k of (txns, k1) \<Rightarrow> (Inr txns, k1)))"

section \<open>The fill channel is a queue\<close>

lemma deliverFill_fills [simp]: "sb_fills (deliverFill fl k) = sb_fills k @ [fl]"
  by (simp add: deliverFill_def)

lemma sim_Cancel_fills [simp]: "sb_fills (snd (sim_Cancel oid k)) = sb_fills k"
  by (auto simp: sim_Cancel_def Let_def split: option.splits)

interpretation sq: fill_queue sim_ops sb_fills
  by unfold_locales (simp_all add: sim_ops_def sim_recv_def)

lemma deliverFill_keeps [simp]:
  "sb_pending (deliverFill fl k) = sb_pending k" "sb_groups (deliverFill fl k) = sb_groups k"
  "sb_date (deliverFill fl k) = sb_date k" "sb_prices (deliverFill fl k) = sb_prices k"
  "sb_partialRemainders (deliverFill fl k) = sb_partialRemainders k"
  by (simp_all add: deliverFill_def)

lemma queue_remainder_fills [simp]: "sb_fills (queue_remainder ord q r k) = sb_fills k"
  by (simp add: queue_remainder_def)

lemma sim_Submit_resolves:
  "(is_exit ord \<longrightarrow> sim_Submit port ord k = (None, hold_exit ord k))
   \<and> (\<not> is_exit ord \<longrightarrow>
        (case sim_Submit port ord k of
           (Some e, k') \<Rightarrow> k' = k
         | (None, k') \<Rightarrow> \<exists>fl. sb_fills k' = sb_fills k @ [fl] \<and> f_OrderID fl = o_ID ord
              \<and> sb_pending k' = sb_pending k \<and> sb_groups k' = sb_groups k))"
  by (auto simp: sim_Submit_def Let_def failOrder_def queue_remainder_def split: option.splits sum.splits)

text \<open>The successful fills of a submission passed the margin checks on the fill result.\<close>

lemma sim_Submit_filled:
  assumes "sim_Submit port ord k = (None, k')" "sb_fills k' = sb_fills k @ [fl]" "f_Err fl = None"
    and "\<not> is_exit ord" "sb_hasPortfolio k"
  shows "\<exists>r. margin_check port ord r k = None \<and> f_Price fl = fr_Price r \<and> f_Qty fl = fr_Quantity r"
  using assms
  by (auto simp: sim_Submit_def Let_def failOrder_def split: option.splits sum.splits if_splits) blast+

section \<open>The leverage cap\<close>

text \<open>Sums over the holdings of a function of asset and quantity that is zero for flat positions.\<close>

definition hsum :: "(asset \<Rightarrow> real \<Rightarrow> real) \<Rightarrow> (asset, f64) gomap \<Rightarrow> real" where
  "hsum f m = (\<Sum>p\<leftarrow>m. f (fst p) (fval (snd p)))"

lemma hsum_simps [simp]: "hsum f [] = 0" "hsum f ((k, q) # m) = f k (fval q) + hsum f m"
  by (simp_all add: hsum_def)

lemma hsum_put:
  "f k 0 = 0 \<Longrightarrow> hsum f (mput k v m) = hsum f m + (f k (fval v) - f k (fval (mget (Fin 0) m k)))"
  by (induction m) auto

lemma hsum_del:
  "mwf m \<Longrightarrow> f k 0 = 0 \<Longrightarrow> hsum f (mdel k m) = hsum f m - f k (fval (mget (Fin 0) m k))"
proof (induction m)
  case (Cons p m)
  obtain k' q where p: "p = (k', q)" by force
  have "\<not> mhas m k'" using Cons.prems by (auto simp: p mhas_iff_key)
  then show ?case using Cons by (auto simp: p held_value_not_has)
qed simp

text \<open>Holdings after a trade, as a map.\<close>

lemma record_trade_hsum:
  assumes "mwf (a_holdings a)" "fin (mget 0 (a_holdings a) (t_Asset txn))" "fin (t_Qty txn)" "f (t_Asset txn) 0 = 0"
  shows "hsum f (a_holdings (record_buy txn a)) = hsum f (a_holdings a)
       + (f (t_Asset txn) (fval (Position a (t_Asset txn)) + fval (t_Qty txn)) - f (t_Asset txn) (fval (Position a (t_Asset txn))))"
    "hsum f (a_holdings (record_sell txn a)) = hsum f (a_holdings a)
       + (f (t_Asset txn) (fval (Position a (t_Asset txn)) - fval (t_Qty txn)) - f (t_Asset txn) (fval (Position a (t_Asset txn))))"
proof -
  have *: "hsum f (a_holdings (flat_cleanup k b)) = hsum f m + (f k (fval h) - f k (fval (mget (Fin 0) m k)))"
    if "a_holdings b = mput k h m" "mwf m" "fin h" "f k 0 = 0" for b k h m
    using that by (auto simp: flat_cleanup_def hsum_put hsum_del feq_def)
  obtain b where b: "record_buy txn a = flat_cleanup (t_Asset txn) b"
    "a_holdings b = mput (t_Asset txn) (mget 0 (a_holdings a) (t_Asset txn) + t_Qty txn) (a_holdings a)"
    using record_trade_cleanup(1) by blast
  obtain c where c: "record_sell txn a = flat_cleanup (t_Asset txn) c"
    "a_holdings c = mput (t_Asset txn) (mget 0 (a_holdings a) (t_Asset txn) - t_Qty txn) (a_holdings a)"
    using record_trade_cleanup(2) by blast
  show "hsum f (a_holdings (record_buy txn a)) = hsum f (a_holdings a)
       + (f (t_Asset txn) (fval (Position a (t_Asset txn)) + fval (t_Qty txn)) - f (t_Asset txn) (fval (Position a (t_Asset txn))))"
    using * [OF b(2) assms(1) _ assms(4)] assms(2,3) b(1) by (simp add: Position_def)
  show "hsum f (a_holdings (record_sell txn a)) = hsum f (a_holdings a)
       + (f (t_Asset txn) (fval (Position a (t_Asset txn)) - fval (t_Qty txn)) - f (t_Asset txn) (fval (Position a (t_Asset txn))))"
    using * [OF c(2) assms(1) _ assms(4)] assms(2,3) c(1) by (simp add: Position_def)
qed

text \<open>Marks that are finite, with a missing price counted as zero.\<close>

definition marks_ok :: "dataframe \<Rightarrow> bool" where
  "marks_ok df \<longleftrightarrow> (\<forall>ast. \<not> isInf (df_Value df ast MetricClose))"

definition mark :: "dataframe \<Rightarrow> asset \<Rightarrow> real" where
  "mark df ast = fval (df_Value df ast MetricClose)"

lemma market_values_hsum:
  assumes "a_prices a = Some df" "marks_ok df" "open_holdings (a_holdings a)"
  shows "LongMarketValue a = Fin (hsum (\<lambda>k q. max q 0 * mark df k) (a_holdings a))"
    "ShortMarketValue a = Fin (hsum (\<lambda>k q. max (- q) 0 * mark df k) (a_holdings a))"
proof -
  have "sum_list (map (long_term df) m) = Fin (hsum (\<lambda>k q. max q 0 * mark df k) m)
      \<and> sum_list (map (short_term df) m) = Fin (hsum (\<lambda>k q. max (- q) 0 * mark df k) m)"
    if "open_holdings m" for m
    using that
  proof (induction m)
    case (Cons p m)
    obtain k q r where p: "p = (k, q)" "q = Fin r" using Cons.prems by (cases p) (auto simp: open_holdings_def fin_iff)
    have "\<not> isInf (df_Value df k MetricClose)" using assms(2) by (simp add: marks_ok_def)
    then show ?case using Cons p
      by (cases "df_Value df k MetricClose")
         (auto simp: open_holdings_def long_term_def short_term_def mark_def max_def)
  qed simp
  then show "LongMarketValue a = Fin (hsum (\<lambda>k q. max q 0 * mark df k) (a_holdings a))"
    "ShortMarketValue a = Fin (hsum (\<lambda>k q. max (- q) 0 * mark df k) (a_holdings a))"
    using assms by (simp_all add: LongMarketValue_sum ShortMarketValue_sum)
qed

lemma maxF_Fin [simp]: "maxF (Fin a) (Fin b) = Fin (max a b)"
  by simp

text \<open>What the books look like after a fill at the mark price.\<close>

lemma fill_at_mark:
  assumes pr: "a_prices a = Some df" "marks_ok df" "open_holdings (a_holdings a)" "mwf (a_holdings a)"
    and cash: "a_cash a = Fin c" and mk: "df_Value df (o_Asset ord) MetricClose = Fin p"
    and fl: "f_Price fl = Fin p" "f_Qty fl = Fin q"
  defines "x \<equiv> fval (Position a (o_Asset ord))"
    and "y \<equiv> (case o_Side ord of Buy \<Rightarrow> fval (Position a (o_Asset ord)) + q | Sell \<Rightarrow> fval (Position a (o_Asset ord)) - q)"
    and "a' \<equiv> Record (fill_txn ord fl) a"
  shows "LongMarketValue a' = LongMarketValue a + Fin ((max y 0 - max x 0) * p)"
    "ShortMarketValue a' = ShortMarketValue a + Fin ((max (- y) 0 - max (- x) 0) * p)"
    "Equity a' = Equity a"
proof -
  let ?t = "stamped (fill_txn ord fl) a" and ?L = "\<lambda>k q. max q 0 * mark df k" and ?S = "\<lambda>k q. max (- q) 0 * mark df k"
  let ?b = "booked ?t a"
  have fin: "isFiniteTransaction (fill_txn ord fl)"
    using fl by (cases "o_Side ord") (simp_all add: isFiniteTransaction_iff)
  have hold: "fin (mget 0 (a_holdings ?b) (t_Asset ?t))" "mwf (a_holdings ?b)" "fin (t_Qty ?t)"
    using open_holdings_get [OF pr(3)] pr(4) fl by simp_all
  have a': "a' = (case o_Side ord of Buy \<Rightarrow> record_buy ?t ?b | Sell \<Rightarrow> record_sell ?t ?b)"
    using fin by (cases "o_Side ord") (simp_all add: a'_def Record_unfold)
  have mkp: "mark df (o_Asset ord) = p" using mk by (simp add: mark_def)
  have eff: "hsum f (a_holdings a') = hsum f (a_holdings a) + (f (o_Asset ord) y - f (o_Asset ord) x)"
    if "f (o_Asset ord) 0 = 0" for f
    using record_trade_hsum [OF hold(2,1,3), of f] that fl
    by (cases "o_Side ord") (simp_all add: a' x_def y_def Position_def)
  have pr': "a_prices a' = Some df" "open_holdings (a_holdings a')"
    using pr Record_open_holdings by (simp_all add: a'_def)
  note mv = market_values_hsum [OF pr(1,2,3)] market_values_hsum [OF pr'(1) pr(2) pr'(2)]
  show L: "LongMarketValue a' = LongMarketValue a + Fin ((max y 0 - max x 0) * p)"
    using eff [of ?L] by (simp add: mv mkp left_diff_distrib)
  show S: "ShortMarketValue a' = ShortMarketValue a + Fin ((max (- y) 0 - max (- x) 0) * p)"
    using eff [of ?S] by (simp add: mv mkp left_diff_distrib)
  have "a_cash a' = Fin (c - (y - x) * p)"
    using Record_effect [of "fill_txn ord fl" a] fin cash fl
    by (cases "o_Side ord") (simp_all add: a'_def x_def y_def algebra_simps)
  then show "Equity a' = Equity a"
    using L S cash by (simp add: Equity_def mv(1,2)) (simp add: max_def algebra_simps)
qed

text \<open>The margin check foresees the books: it accepts a fill exactly when the account is within its limits once the fill is booked.\<close>

lemma margin_check_Fin:
  assumes "sb_maxLeverage k = Fin m" "sb_initialMarginRate k = Fin \<rho>"
    and "Position a (o_Asset ord) = Fin x" "fr_Quantity r = Fin q" "fr_Price r = Fin p"
    and "LongMarketValue a = Fin l" "ShortMarketValue a = Fin s" "Equity a = Fin e"
  defines "y \<equiv> (case o_Side ord of Buy \<Rightarrow> x + q | Sell \<Rightarrow> x - q)"
  defines "L \<equiv> l + (max y 0 - max x 0) * p" and "S \<equiv> s + (max (- y) 0 - max (- x) 0) * p"
  shows "margin_check a ord r k = None \<longleftrightarrow>
     (o_Side ord = Sell \<and> y < 0 \<and> 0 < S \<longrightarrow> (if \<rho> = 0 then 1 / 2 else \<rho>) * S \<le> e)
   \<and> (0 < m \<longrightarrow> L + S \<le> l + s \<or> 0 < e \<and> L + S \<le> m * e)"
proof -
  have y: "Fin x + (if o_Side ord = Sell then - Fin q else Fin q) = Fin y"
    by (cases "o_Side ord") (simp_all add: y_def)
  have i: "Fin e / Fin S < (if feq (Fin \<rho>) 0 then Fin (50 / 100) else Fin \<rho>) \<longleftrightarrow> e < (if \<rho> = 0 then 1 / 2 else \<rho>) * S" if "0 < S"
    using that by (auto simp: pos_divide_less_eq)
  have g: "Fin e \<le> 0 \<or> Fin (L + S) / Fin e > Fin m \<longleftrightarrow> \<not> (0 < e \<and> L + S \<le> m * e)"
  proof (cases "0 < e")
    case True
    then have "m < (L + S) / e \<longleftrightarrow> m * e < L + S" by (simp add: pos_less_divide_eq)
    then show ?thesis using True by (simp add: not_le)
  qed (simp add: not_less)
  have ls: "Fin l + (maxF (Fin y) 0 - maxF (Fin x) 0) * Fin p = Fin L" "Fin s + (maxF (- Fin y) 0 - maxF (- Fin x) 0) * Fin p = Fin S"
    by (simp_all add: L_def S_def)
  have n: "(if A then Some u else if M then if B then Some w else None else None) = None \<longleftrightarrow> \<not> A \<and> \<not> (M \<and> B)" for A M B and u w :: goerr
    by simp
  have c: "margin_check a ord r k = None \<longleftrightarrow>
      \<not> (o_Side ord = Sell \<and> Fin y < 0 \<and> Fin S > 0 \<and> Fin e / Fin S < (if feq (Fin \<rho>) 0 then Fin (50 / 100) else Fin \<rho>))
    \<and> \<not> (Fin m > 0 \<and> Fin L + Fin S > Fin l + Fin s \<and> (Fin e \<le> 0 \<or> (Fin L + Fin S) / Fin e > Fin m))"
    unfolding margin_check_def Let_def assms(1-8) y ls n ..
  have a: "Fin L + Fin S = Fin (L + S)" "Fin l + Fin s = Fin (l + s)" by simp_all
  have z: "Fin y < 0 \<longleftrightarrow> y < 0" "Fin S > 0 \<longleftrightarrow> 0 < S" "Fin m > 0 \<longleftrightarrow> 0 < m" "Fin (L + S) > Fin (l + s) \<longleftrightarrow> \<not> L + S \<le> l + s" by (simp_all add: not_le)
  show ?thesis unfolding c a g z by (cases "0 < S") (auto simp only: i not_less not_le)
qed

lemma margin_check_books:
  assumes pr: "a_prices a = Some df" "marks_ok df" "open_holdings (a_holdings a)" "mwf (a_holdings a)" "fin (a_cash a)"
    and fl: "f_Price fl = fr_Price r" "f_Qty fl = fr_Quantity r" "fin (fr_Quantity r)" "fin (fr_Price r)"
    and mk: "df_Value df (o_Asset ord) MetricClose = fr_Price r"
    and k: "sb_maxLeverage k = Fin m" "sb_initialMarginRate k = Fin \<rho>"
  defines "a' \<equiv> Record (fill_txn ord fl) a"
  shows "margin_check a ord r k = None \<longleftrightarrow>
     (o_Side ord = Sell \<and> Position a' (o_Asset ord) < 0 \<and> 0 < ShortMarketValue a'
        \<longrightarrow> Fin (if \<rho> = 0 then 1 / 2 else \<rho>) * ShortMarketValue a' \<le> Equity a')
   \<and> (0 < m \<longrightarrow> LongMarketValue a' + ShortMarketValue a' \<le> LongMarketValue a + ShortMarketValue a
        \<or> 0 < Equity a' \<and> LongMarketValue a' + ShortMarketValue a' \<le> Fin m * Equity a')"
proof -
  obtain c q p where v: "a_cash a = Fin c" "fr_Quantity r = Fin q" "fr_Price r = Fin p"
    using pr(5) fl(3,4) by (auto simp: fin_iff)
  obtain x where x: "Position a (o_Asset ord) = Fin x"
    using open_holdings_get [OF pr(3)] by (auto simp: Position_def fin_iff)
  obtain l s where ls: "LongMarketValue a = Fin l" "ShortMarketValue a = Fin s"
    using market_values_hsum [OF pr(1-3)] by blast
  obtain e where e: "Equity a = Fin e" using ls v by (simp add: Equity_def)
  have p: "f_Price fl = Fin p" "f_Qty fl = Fin q" using fl v by simp_all
  note fm = fill_at_mark [OF pr(1-4) v(1) mk [unfolded v(3)] p, folded a'_def]
  define y where "y = (case o_Side ord of Buy \<Rightarrow> x + q | Sell \<Rightarrow> x - q)"
  have y: "Position a' (o_Asset ord) = Fin y"
    using Record_effect [of "fill_txn ord fl" a "o_Asset ord"] p x
    by (cases "o_Side ord") (simp_all add: a'_def y_def isFiniteTransaction_iff)
  show ?thesis
    unfolding margin_check_Fin [OF k x v(2,3) ls e] fm y ls e x fval.simps y_def [symmetric] by simp
qed

section \<open>Exit orders\<close>

lemma exit_fill_simps [simp]:
  "sb_fills (exit_fill ord p k) = sb_fills k
     @ [\<lparr>f_OrderID = o_ID ord, f_Price = p, f_Qty = o_Qty ord, f_FilledAt = sb_date k, f_Err = None\<rparr>]"
  "sb_pending (exit_fill ord p k) = sb_pending k" "sb_groups (exit_fill ord p k) = sb_groups k"
  by (simp_all add: exit_fill_def)

lemma drop_leg_simps [simp]:
  "sb_fills (drop_leg leg k) = sb_fills k" "sb_groups (drop_leg leg k) = sb_groups k"
  "map_of (sb_pending (drop_leg (Some ord) k)) i = (if i = o_ID ord then None else map_of (sb_pending k) i)"
  by (simp_all add: drop_leg_def split: option.splits)

text \<open>A group fires at most once, the stop-loss first, and takes its legs with it.\<close>

lemma evaluate_group_once:
  fixes df gid ids k
  defines "k' \<equiv> evaluate_group df (gid, ids) k"
    and "s \<equiv> group_leg RoleStopLoss (sb_pending k) ids" and "t \<equiv> group_leg RoleTakeProfit (sb_pending k) ids"
  shows "k' = k \<or> (\<exists>leg price. (s = Some leg \<and> price = o_StopPrice leg \<or> t = Some leg \<and> price = o_LimitPrice leg)
     \<and> sb_fills k' = sb_fills k @ [\<lparr>f_OrderID = o_ID leg, f_Price = price, f_Qty = o_Qty leg,
          f_FilledAt = sb_date k, f_Err = None\<rparr>]
     \<and> map_of (sb_groups k') gid = None
     \<and> (\<forall>ord. s = Some ord \<or> t = Some ord \<longrightarrow> map_of (sb_pending k') (o_ID ord) = None))"
proof -
  let ?fire = "\<lambda>leg price x y. (drop_leg y (drop_leg x (exit_fill leg price k)))\<lparr>sb_groups := mdel gid (sb_groups k)\<rparr>"
  have e: "k' = k \<or> (\<exists>leg. s = Some leg \<and> k' = ?fire leg (o_StopPrice leg) s t)
     \<or> (\<exists>leg. t = Some leg \<and> k' = ?fire leg (o_LimitPrice leg) t s)"
  proof (cases s)
    case None
    then show ?thesis
      unfolding k'_def evaluate_group_def Let_def prod.case s_def [symmetric] t_def [symmetric]
      by (cases t) (simp_all add: drop_leg_def [of None])
  next
    case (Some x)
    then show ?thesis
      unfolding k'_def evaluate_group_def Let_def prod.case s_def [symmetric] t_def [symmetric]
      by (cases t) (simp_all add: drop_leg_def [of None])
  qed
  have gone: "map_of (sb_pending (drop_leg y (drop_leg x k0))) (o_ID ord) = None"
    if "x = Some ord \<or> y = Some ord" for x y k0 ord
    using that by (cases y) (auto simp: drop_leg_def)
  show ?thesis
  proof (cases "k' = k")
    case False
    with e consider leg where "s = Some leg" "k' = ?fire leg (o_StopPrice leg) s t"
      | leg where "t = Some leg" "k' = ?fire leg (o_LimitPrice leg) t s" by blast
    then show ?thesis
    proof cases
      case 1
      then show ?thesis using gone [of s _ t] by (intro disjI2 exI [of _ leg] exI [of _ "o_StopPrice leg"]) simp
    next
      case 2
      then show ?thesis using gone [of t _ s] by (intro disjI2 exI [of _ leg] exI [of _ "o_LimitPrice leg"]) auto
    qed
  qed simp
qed

lemma evaluate_group_stop:
  assumes "group_leg RoleStopLoss (sb_pending k) ids = Some s"
    and "stop_triggered s (df_Value df (o_Asset s) MetricHigh) (df_Value df (o_Asset s) MetricLow) (df_Value df (o_Asset s) MetricClose)"
  shows "sb_fills (evaluate_group df (gid, ids) k) = sb_fills k
     @ [\<lparr>f_OrderID = o_ID s, f_Price = o_StopPrice s, f_Qty = o_Qty s, f_FilledAt = sb_date k, f_Err = None\<rparr>]"
  using assms by (simp add: evaluate_group_def Let_def)

text \<open>
  A percentage stop-loss is placed below the entry price for short entries as well, where it
  is triggered at once and fills at a profit.
\<close>

lemma short_stop_percent:
  assumes "dx_entrySide info = Sell" "dx_fillPrice info = Fin p" "0 < p"
    and "gs_StopLoss (dx_spec info) = StopLossPercent (Fin pct)" "0 < pct" "pct < 100"
    and "\<not> isNaN high" "Fin p \<le> high"
  shows "stop_triggered (stopLossOrder info) high low closePrice
     \<and> o_StopPrice (stopLossOrder info) < dx_fillPrice info \<and> o_Side (stopLossOrder info) = Buy"
proof -
  define v where "v = p * (1 - pct / 100)"
  have sp: "o_StopPrice (stopLossOrder info) = Fin v"
    using assms(2,4)
    by (simp add: stopLossOrder_def resolveExitPrice_def StopLossPercent_def exitTarget_zero_def v_def)
  have lt: "v < p" using assms(3,5) by (simp add: v_def algebra_simps)
  have side: "o_Side (stopLossOrder info) = Buy" using assms(1) by (simp add: stopLossOrder_def exit_side_def)
  have "\<not> feq high 0 \<and> Fin v \<le> high"
  proof (cases high)
    case (Fin r)
    then show ?thesis using assms(3,8) lt by simp
  qed (use assms(7,8) in \<open>simp_all add: feq_def\<close>)
  then have h: "\<not> feq high 0" "Fin v \<le> high" by simp_all
  show ?thesis
    using assms(2,7) sp lt side h by (simp add: stop_triggered_def trigger_price_def usable_def Let_def)
qed

end
