(* ===== verification/SimInvariant.thy ===== *)
theory SimInvariant
  imports SimBroker
begin

text \<open>
  Invariants that carry over from one engine step to the next: the simulated broker only ever
  delivers fills of quantities that are not negative (\<open>broker_ok\<close>), and the books of the account
  stay consistent (\<open>books_ok\<close>) when such fills are processed.
\<close>

section \<open>Prices and fill models\<close>

text \<open>Frames whose entries are not negative, as price and volume data are.\<close>

definition frame_nn :: "dataframe \<Rightarrow> bool" where
  "frame_nn df \<longleftrightarrow> (\<forall>a m. nn (df_Value df a m)) \<and> (\<forall>a m c. df_Column df a m = Some c \<longrightarrow> list_all nn c)"

definition pipe_ok :: "pipeline \<Rightarrow> bool" where
  "pipe_ok pp \<longleftrightarrow> list_all (\<lambda>a. case a of MarketImpact p \<Rightarrow> nn (PartialThreshold p) | _ \<Rightarrow> True) (pp_adjusters pp)
     \<and> (case pp_base pp of VWAPFill (Some f) \<Rightarrow> \<forall>a t df. f a t = Some df \<longrightarrow> frame_nn df | _ \<Rightarrow> True)"

lemma vwap_loop_nn:
  "list_all nn hs \<Longrightarrow> list_all nn ls \<Longrightarrow> list_all nn cs \<Longrightarrow> list_all nn vs \<Longrightarrow> nn pv \<Longrightarrow> nn vol \<Longrightarrow>
   vwap_loop hs ls cs vs (pv, vol) = (p, v) \<Longrightarrow> nn p \<and> nn v"
proof (induction hs ls cs vs "(pv, vol)" arbitrary: pv vol rule: vwap_loop.induct)
  case (1 h hs l ls c cs v vs sumPV sumVol)
  have "nn (sumPV + (h + l + c) / 3 * v)" "nn (sumVol + v)"
    using 1 by (simp_all add: nn_plus nn_times nn_divide)
  then show ?case using 1 by (simp split: if_splits)
qed simp_all

lemma base_Fill_nn:
  assumes "base_Fill bm ord df = Inr r" "frame_nn df"
    and "\<And>f a t d. bm = VWAPFill (Some f) \<Longrightarrow> f a t = Some d \<Longrightarrow> frame_nn d"
  shows "nn (fr_Price r)" "fr_Quantity r = o_Qty ord"
proof -
  have typical: "nn p" if "typicalPrice ord df = Inr p" for p
    using that assms(2) by (auto simp: typicalPrice_def Let_def frame_nn_def split: if_splits intro!: nn_plus nn_divide)
  have intra: "nn p" if v: "intradayVWAP f ord df = Some p" "bm = VWAPFill (Some f)" for f p
  proof -
    obtain d h l c w pv vol where d: "f (o_Asset ord) (last (df_times df)) = Some d"
      "df_Column d (o_Asset ord) MetricHigh = Some h" "df_Column d (o_Asset ord) MetricLow = Some l"
      "df_Column d (o_Asset ord) MetricClose = Some c" "df_Column d (o_Asset ord) Volume = Some w"
      "vwap_loop h l c w (0, 0) = (pv, vol)" "p = pv / vol"
      using v(1) by (auto simp: intradayVWAP_def split: if_splits option.splits prod.splits)
    then show ?thesis
      using assms(3) [OF v(2) d(1)] vwap_loop_nn [of h l c w 0 0 pv vol] by (auto simp: frame_nn_def intro: nn_divide)
  qed
  show "nn (fr_Price r)" 
    using assms(1,2) typical intra
    by (cases bm) (auto simp: closeFill_Fill_def vwapFill_Fill_def frame_nn_def Let_def split: if_splits option.splits sum.splits)
  show "fr_Quantity r = o_Qty ord"
    using assms(1) by (cases bm) (auto simp: closeFill_Fill_def vwapFill_Fill_def Let_def split: if_splits option.splits sum.splits)
qed

lemma adjust_loop_nn:
  assumes "adjust_loop adjs ord df r = Inr r'" "nn (fr_Quantity r)"
    and "list_all (\<lambda>a. case a of MarketImpact p \<Rightarrow> nn (PartialThreshold p) | _ \<Rightarrow> True) adjs"
  shows "nn (fr_Quantity r')"
  using assms
proof (induction adjs arbitrary: r)
  case (Cons a adjs)
  then obtain s where s: "adjuster_Adjust a ord df r = Inr s" "adjust_loop adjs ord df s = Inr r'" by (auto split: sum.splits)
  have "nn (df_Value df (o_Asset ord) Volume)" if "\<not> df_Value df (o_Asset ord) Volume \<le> Fin 0"
    using that by (cases "df_Value df (o_Asset ord) Volume") auto
  then have "nn (fr_Quantity s)" using s(1) Cons.prems(2,3)
    by (cases a) (auto simp: slippage_Adjust_def spread_Adjust_def impact_Adjust_def Let_def split: if_splits
        intro!: nn_floor nn_times)
  then show ?case using Cons s(2) by simp
qed simp

section \<open>The simulated broker\<close>

definition fill_ok :: "fill \<Rightarrow> bool" where
  "fill_ok fl \<longleftrightarrow> (f_Err fl = None \<longrightarrow> nn (f_Qty fl))"

text \<open>
  What the price service promises: no negative entries, and split factors that are missing or
  finite.
\<close>

definition provider_ok :: "(asset list \<Rightarrow> goerr + dataframe) \<Rightarrow> bool" where
  "provider_ok p \<longleftrightarrow> (\<forall>xs df. p xs = Inr df \<longrightarrow> frame_nn df \<and>
     (\<forall>a t. isNaN (df_ValueAt df a SplitFactor t) \<or> fin (df_ValueAt df a SplitFactor t) \<and> nn (df_ValueAt df a SplitFactor t)))"

definition broker_ok :: "simBroker \<Rightarrow> bool" where
  "broker_ok k \<longleftrightarrow> list_all fill_ok (sb_fills k) \<and> (\<forall>p\<in>set (sb_pending k). nn (o_Qty (snd p)))
     \<and> (\<forall>p\<in>set (sb_partialRemainders k). nn (o_Qty (pr_order (snd p))))
     \<and> pipe_ok (sb_fillPipeline k) \<and> (\<forall>p. sb_prices k = Some p \<longrightarrow> provider_ok p)"

lemma deliverFill_ok: "broker_ok k \<Longrightarrow> fill_ok fl \<Longrightarrow> broker_ok (deliverFill fl k)"
  by (simp add: broker_ok_def deliverFill_def)

lemma failOrder_ok: "broker_ok k \<Longrightarrow> broker_ok (failOrder ord e k)"
  by (simp add: failOrder_def deliverFill_ok fill_ok_def)

lemma broker_ok_frame:
  "broker_ok k \<Longrightarrow> broker_ok (k\<lparr>sb_groups := g\<rparr>)" "broker_ok k \<Longrightarrow> broker_ok (k\<lparr>sb_lastPrices := l\<rparr>)"
  "broker_ok k \<Longrightarrow> \<forall>p\<in>set ps. nn (o_Qty (snd p)) \<Longrightarrow> broker_ok (k\<lparr>sb_pending := ps\<rparr>)"
  "broker_ok k \<Longrightarrow> \<forall>p\<in>set rs. nn (o_Qty (pr_order (snd p))) \<Longrightarrow> broker_ok (k\<lparr>sb_partialRemainders := rs\<rparr>)"
  by (simp_all add: broker_ok_def)

lemma broker_okD:
  assumes "broker_ok k"
  shows "p \<in> set (sb_pending k) \<Longrightarrow> nn (o_Qty (snd p))"
    "r \<in> set (sb_partialRemainders k) \<Longrightarrow> nn (o_Qty (pr_order (snd r)))"
    "pipe_ok (sb_fillPipeline k)" "sb_prices k = Some pr \<Longrightarrow> pr xs = Inr df \<Longrightarrow> frame_nn df"
  using assms by (auto simp: broker_ok_def provider_ok_def)

lemma drop_pending_ok: "broker_ok k \<Longrightarrow> broker_ok (k\<lparr>sb_pending := mdel i (sb_pending k)\<rparr>)"
  by (rule broker_ok_frame(3)) (use broker_okD(1) set_mdel in \<open>fastforce+\<close>)

lemma drop_remainder_ok: "broker_ok k \<Longrightarrow> broker_ok (k\<lparr>sb_partialRemainders := mdel i (sb_partialRemainders k)\<rparr>)"
  by (rule broker_ok_frame(4)) (use broker_okD(2) set_mdel in \<open>fastforce+\<close>)

lemma put_remainder_ok:
  "broker_ok k \<Longrightarrow> nn (o_Qty (pr_order r)) \<Longrightarrow> broker_ok (k\<lparr>sb_partialRemainders := mput i r (sb_partialRemainders k)\<rparr>)"
  by (rule broker_ok_frame(4)) (use broker_okD(2) set_mput_subset in \<open>fastforce+\<close>)

lemma hold_exit_ok:
  assumes "broker_ok k" "nn (o_Qty ord)"
  shows "broker_ok (hold_exit ord k)"
proof -
  have "broker_ok (k\<lparr>sb_pending := mput (o_ID ord) ord (sb_pending k)\<rparr>)"
    by (rule broker_ok_frame(3) [OF assms(1)]) (use broker_okD(1) [OF assms(1)] assms(2) set_mput_subset in \<open>fastforce+\<close>)
  then show ?thesis using broker_ok_frame(1) by (auto simp: hold_exit_def Let_def)
qed

lemma pipe_ok_fetcher: "pipe_ok pp \<Longrightarrow> pp_base pp = VWAPFill (Some f) \<Longrightarrow> f a t = Some d \<Longrightarrow> frame_nn d"
  by (auto simp: pipe_ok_def)

lemma pipe_okD:
  assumes "pipe_ok pp"
  shows "pipeline_FillBase pp ord df = Inr r \<Longrightarrow> frame_nn df \<Longrightarrow> nn (fr_Price r) \<and> fr_Quantity r = o_Qty ord"
    "pipeline_Adjust pp ord df r = Inr r' \<Longrightarrow> nn (fr_Quantity r) \<Longrightarrow> nn (fr_Quantity r')"
  using base_Fill_nn [of "pp_base pp" ord df r, OF _ _ pipe_ok_fetcher [OF assms]]
    adjust_loop_nn [of "pp_adjusters pp" ord df r r'] assms
  by (auto simp: pipe_ok_def pipeline_FillBase_def pipeline_Adjust_def)

lemma queue_remainder_ok:
  assumes "broker_ok k"
  shows "broker_ok (queue_remainder ord q r k)"
  using put_remainder_ok [OF assms] nn_pos [of "q - fr_Quantity r"] assms by (auto simp: queue_remainder_def)

lemma sim_Submit_ok:
  assumes k: "broker_ok k" and q: "nn (o_Qty ord)"
  shows "broker_ok (snd (sim_Submit port ord k))"
proof -
  have ok: "broker_ok (queue_remainder ord q r (deliverFill \<lparr>f_OrderID = o_ID ord, f_Price = fr_Price r,
      f_Qty = fr_Quantity r, f_FilledAt = sb_date k, f_Err = None\<rparr> k))" if "nn (fr_Quantity r)" for q r
    using that by (intro queue_remainder_ok deliverFill_ok k) (simp add: fill_ok_def)
  have amt: "nn (floorF (o_Amount ord / p))" if "o_Amount ord > 0" "nn p" for p
    using that nn_pos by (intro nn_floor nn_divide) auto
  show ?thesis
    using k q ok amt hold_exit_ok [OF k q] failOrder_ok [OF k] pipe_okD [OF broker_okD(3) [OF k]] broker_okD(4) [OF k]
    unfolding sim_Submit_def Let_def
    by (auto simp del: zero_f64_Fin split: option.splits sum.splits if_splits)
qed

lemma sim_Cancel_ok: "broker_ok k \<Longrightarrow> broker_ok (snd (sim_Cancel oid k))"
  using drop_pending_ok [of k oid] broker_ok_frame(1) by (auto simp: sim_Cancel_def Let_def split: option.splits)

lemma sim_SubmitGroup_ok:
  "broker_ok k \<Longrightarrow> list_all (\<lambda>ord. nn (o_Qty ord)) ords \<Longrightarrow> broker_ok (snd (sim_SubmitGroup port ords gt k))"
proof (induction ords arbitrary: k)
  case (Cons ord ords)
  then show ?case using sim_Submit_ok [of k ord port] by (auto split: prod.splits option.splits)
qed simp

lemma group_leg_pending:
  assumes "group_leg role pending ids = Some ord"
  shows "\<exists>oid. map_of pending oid = Some ord"
proof -
  have "foldl (\<lambda>acc oid. case map_of pending oid of None \<Rightarrow> acc
          | Some ord \<Rightarrow> if o_GroupRole ord = role then Some ord else acc) z ids = Some ord
      \<Longrightarrow> z = Some ord \<or> (\<exists>oid. map_of pending oid = Some ord)" for z
  proof (induction ids arbitrary: z)
    case (Cons i ids)
    show ?case
      using Cons.IH [of "case map_of pending i of None \<Rightarrow> z | Some ord \<Rightarrow> if o_GroupRole ord = role then Some ord else z"] Cons.prems
      by (auto split: option.splits if_splits)
  qed simp
  then show ?thesis using assms unfolding group_leg_def by blast
qed

lemma drop_leg_ok: "broker_ok k \<Longrightarrow> broker_ok (drop_leg leg k)"
  by (auto simp: drop_leg_def drop_pending_ok split: option.split)

lemma evaluate_group_ok:
  assumes "broker_ok k"
  shows "broker_ok (evaluate_group df entry k)"
proof -
  have leg: "nn (o_Qty ord)" if g: "group_leg role (sb_pending k) ids = Some ord" for role ids ord
  proof -
    obtain oid where "map_of (sb_pending k) oid = Some ord" using group_leg_pending [OF g] by blast
    then show ?thesis using broker_okD(1) [OF assms] by (fastforce dest: map_of_SomeD)
  qed
  have fill: "broker_ok (exit_fill ord p k)" if "nn (o_Qty ord)" for ord p
    using assms that by (simp add: exit_fill_def deliverFill_ok fill_ok_def)
  show ?thesis using assms leg
    by (auto simp: evaluate_group_def Let_def split: prod.split option.split intro!: broker_ok_frame(1) drop_leg_ok fill)
qed

lemma retry_remainder_ok:
  assumes "broker_ok k" "nn (o_Qty (pr_order (snd e)))" "frame_nn df"
  shows "broker_ok (retry_remainder df e k)"
proof -
  obtain oid pr where e: "e = (oid, pr)" by fastforce
  have q: "nn (fr_Quantity r)" if f: "pipeline_Fill (sb_fillPipeline k) (pr_order pr) df = Inr r" for r
  proof -
    obtain r0 where "pipeline_FillBase (sb_fillPipeline k) (pr_order pr) df = Inr r0"
      "pipeline_Adjust (sb_fillPipeline k) (pr_order pr) df r0 = Inr r" using f by (auto simp: pipeline_Fill_def split: sum.splits)
    then show ?thesis using pipe_okD [OF broker_okD(3) [OF assms(1)]] assms(2,3) e by fastforce
  qed
  define k1 where "k1 r = (if fr_Quantity r > 0 then deliverFill \<lparr>f_OrderID = oid, f_Price = fr_Price r,
      f_Qty = fr_Quantity r, f_FilledAt = sb_date k, f_Err = None\<rparr> k else k)" for r :: fillResult
  have "broker_ok (k1 r)" if "nn (fr_Quantity r)" for r
    using that assms(1) by (simp add: k1_def deliverFill_ok fill_ok_def)
  then show ?thesis using q assms(1) nn_pos
    unfolding retry_remainder_def e prod.case k1_def [symmetric] Let_def
    by (auto split: sum.split intro!: drop_remainder_ok put_remainder_ok)
qed

lemma evaluatePartialRemainders_ok:
  assumes "broker_ok k"
  shows "broker_ok (evaluatePartialRemainders k)"
proof -
  define live where "live = filter (\<lambda>(_, pr). \<not> pr_bars pr \<ge> 2) (sb_partialRemainders k)"
  have l: "\<forall>p\<in>set live. nn (o_Qty (pr_order (snd p)))" using broker_okD(2) [OF assms] by (auto simp: live_def)
  have k1: "broker_ok (k\<lparr>sb_partialRemainders := live\<rparr>)" by (rule broker_ok_frame(4) [OF assms l])
  have "broker_ok (fold (retry_remainder df) es k')" if "frame_nn df" "broker_ok k'" "\<forall>p\<in>set es. nn (o_Qty (pr_order (snd p)))" for es k' df
    using that(2,3) by (induction es arbitrary: k') (auto simp: retry_remainder_ok that(1))
  then show ?thesis using k1 l assms broker_okD(4) [OF assms]
    unfolding evaluatePartialRemainders_def live_def [symmetric] Let_def by (auto split: option.splits sum.splits)
qed

lemma EvaluatePending_ok:
  assumes "broker_ok k"
  shows "broker_ok (EvaluatePending k)"
proof -
  have "broker_ok (fold (evaluate_group df) gs k)" for gs df
    using assms by (induction gs arbitrary: k) (auto simp: evaluate_group_ok)
  then show ?thesis using assms by (auto simp: EvaluatePending_def evaluatePartialRemainders_ok split: option.split sum.split)
qed

section \<open>The books\<close>

definition books :: "account \<Rightarrow> f64 \<times> (asset, f64) gomap \<times> transaction list \<times> (asset, taxlot list) gomap
    \<times> (asset, taxlot list) gomap \<times> (asset, recentLossSale list) gomap \<times> (asset, recentBuy list) gomap" where
  "books a = (a_cash a, a_holdings a, a_transactions a, a_taxLots a, a_shortLots a, a_recentLossSales a, a_recentBuys a)"

definition books_ok :: "account \<Rightarrow> bool" where
  "books_ok a \<longleftrightarrow> acct_inv a \<and> ledger a \<and> open_holdings (a_holdings a) \<and> mwf (a_holdings a)"

lemma books_ok_cong: "books a = books b \<Longrightarrow> books_ok a \<longleftrightarrow> books_ok b"
  by (simp add: books_ok_def books_def acct_inv_def position_inv_def tracking_ok_def tracking_fin_def ledger_def)

lemma books_frame [simp]:
  "books (a\<lparr>a_pendingOrders := p\<rparr>) = books a" "books (a\<lparr>a_pendingGroups := g\<rparr>) = books a"
  "books (a\<lparr>a_deferredExits := d\<rparr>) = books a" "books (a\<lparr>a_currentBatchID := n\<rparr>) = books a"
  "books (a\<lparr>a_batches := bs\<rparr>) = books a" "books (a\<lparr>a_annotations := an\<rparr>) = books a"
  "books (a\<lparr>a_prices := pr\<rparr>) = books a" "books (a\<lparr>a_seenTransactions := ids\<rparr>) = books a"
  "books (a\<lparr>a_excursions := ex\<rparr>) = books a" "books (a\<lparr>a_riskFreeValue := rf\<rparr>) = books a"
  "books (a\<lparr>a_perfData := pd\<rparr>) = books a" "books (a\<lparr>a_positionMV := mv, a_positionQty := q\<rparr>) = books a"
  by (simp_all add: books_def)

lemma books_ok_frame: "books b = books a \<Longrightarrow> books_ok a \<Longrightarrow> books_ok b"
  using books_ok_cong by blast

lemma Record_books_ok:
  assumes "books_ok a" "txn_ok a txn"
  shows "books_ok (Record txn a)"
proof -
  have "ledger (Record txn a)"
    using assms(1) Record_effect [of txn a]
    by (auto simp: books_ok_def ledger_def simp del: zero_f64_Fin split: if_splits)
  then show ?thesis using assms Record_inv Record_open_holdings Record_mwf_holdings by (simp add: books_ok_def)
qed

lemma ApplySplit_books_ok:
  assumes "books_ok a" "fin f" "nn f" "ApplySplit ast d f a = Inr b"
  shows "books_ok b"
proof -
  have f: "0 < fval f" using assms(2-4) by (cases f) (auto simp: ApplySplit_def feq_def split: if_splits)
  have "ledger b" using assms(1) ApplySplit_Inr [OF assms(4)] by (simp add: books_ok_def ledger_def)
  moreover have "mwf (a_holdings b)" using assms(1,4) by (auto simp: books_ok_def ApplySplit_def Let_def split: if_splits)
  moreover have "open_holdings (a_holdings b)"
    using assms(1,2,4) f set_mput_subset open_holdings_get [of "a_holdings a" ast]
    by (fastforce simp: books_ok_def ApplySplit_def Let_def open_holdings_def feq_def fin_iff split: if_splits)
  ultimately show ?thesis using assms(1) ApplySplit_inv [OF _ assms(2) f assms(4)] by (simp add: books_ok_def)
qed

section \<open>Draining\<close>

lemma cancel_siblings_books: "books (fst (cancel_siblings ops filled sibs (a, k))) = books a"
  by (induction sibs arbitrary: a k) auto

lemma handle_group_books: "books (ds_acct (handle_group ops ord fl s)) = books (ds_acct s)"
  using cancel_siblings_books [of ops "f_OrderID fl" _ "ds_acct s" "ds_brk s"]
  by (auto simp: handle_group_def cancelOCOSiblings_def split: GroupRole.splits option.splits prod.splits)
     (metis fst_conv)+

lemma process_fill_books_ok:
  assumes "books_ok (ds_acct s)" "fill_ok fl"
  shows "books_ok (ds_acct (process_fill ops fl s))"
proof (cases "map_of (a_pendingOrders (ds_acct s)) (f_OrderID fl)")
  case None
  then show ?thesis using assms by (simp add: process_fill_def)
next
  case (Some ord)
  have "books_ok (Record (fill_txn ord fl) (ds_acct s))" if "f_Err fl = None"
    using assms that by (intro Record_books_ok) (auto simp: txn_ok_def fill_ok_def nn_def split: Side.splits)
  then have "books_ok (keep_remainder ord fl (Record (fill_txn ord fl) (ds_acct s)))" if "f_Err fl = None"
    using that by (auto simp: keep_remainder_def elim!: books_ok_frame [rotated])
  then show ?thesis using assms(1) Some
    by (auto simp: process_fill_def Let_def intro: books_ok_frame [OF handle_group_books] books_ok_frame)
qed

section \<open>Draining and executing keep account and broker consistent\<close>

definition batch_ok :: "batch \<Rightarrow> bool" where
  "batch_ok b \<longleftrightarrow> list_all (\<lambda>ord. nn (o_Qty ord)) (b_Orders b)"

definition drain_ok :: "simBroker drain_state \<Rightarrow> bool" where
  "drain_ok s \<longleftrightarrow> books_ok (ds_acct s) \<and> broker_ok (ds_brk s) \<and> list_all (\<lambda>x. nn (dx_qty x)) (ds_exits s)
     \<and> (\<forall>b. ds_batch s = Some b \<longrightarrow> batch_ok b)"

lemma sim_ops_sel [simp]:
  "bo_Submit sim_ops = sim_Submit" "bo_Cancel sim_ops = sim_Cancel" "bo_SubmitGroup sim_ops = sim_SubmitGroup"
  "bo_recv sim_ops = sim_recv"
  by (simp_all add: sim_ops_def)

lemma sim_recv_ok: "broker_ok k \<Longrightarrow> sim_recv k = Some (fl, k') \<Longrightarrow> fill_ok fl \<and> broker_ok k'"
  by (auto simp: sim_recv_def broker_ok_def split: list.splits)

lemma cancel_siblings_broker: "broker_ok k \<Longrightarrow> broker_ok (snd (cancel_siblings sim_ops filled sibs (a, k)))"
  by (induction sibs arbitrary: a k) (auto simp: sim_Cancel_ok)

lemma handle_group_ok:
  assumes "drain_ok s" "nn (f_Qty fl)"
  shows "drain_ok (handle_group sim_ops ord fl s)"
proof -
  have "books_ok (ds_acct (handle_group sim_ops ord fl s))"
    using assms(1) by (intro books_ok_frame [OF handle_group_books]) (simp add: drain_ok_def)
  moreover have "broker_ok (ds_brk (handle_group sim_ops ord fl s))"
    using assms(1) cancel_siblings_broker [of "ds_brk s" "f_OrderID fl" _ "ds_acct s"]
    by (auto simp: drain_ok_def handle_group_def cancelOCOSiblings_def split: GroupRole.splits option.splits prod.splits)
       (metis snd_conv)+
  moreover have "list_all (\<lambda>x. nn (dx_qty x)) (ds_exits (handle_group sim_ops ord fl s))
      \<and> ds_batch (handle_group sim_ops ord fl s) = ds_batch s"
    using assms by (auto simp: drain_ok_def handle_group_def split: GroupRole.splits option.splits prod.splits)
  ultimately show ?thesis using assms(1) by (simp add: drain_ok_def)
qed

lemma process_fill_ok:
  assumes "drain_ok s" "fill_ok fl"
  shows "drain_ok (process_fill sim_ops fl s)"
proof (cases "map_of (a_pendingOrders (ds_acct s)) (f_OrderID fl)")
  case None
  then show ?thesis using assms(1) by (simp add: process_fill_def)
next
  case (Some ord)
  have out: "\<forall>b. record_outcome a ord fl (ds_batch s) = Some b \<longrightarrow> batch_ok b" for a
    using assms(1) by (auto simp: drain_ok_def record_outcome_def batch_ok_def split: option.splits if_splits)
  have b: "books_ok (ds_acct (process_fill sim_ops fl s))"
    by (rule process_fill_books_ok [OF _ assms(2)]) (use assms(1) in \<open>simp add: drain_ok_def\<close>)
  show ?thesis
  proof (cases "f_Err fl")
    case None
    have "books_ok (Record (fill_txn ord fl) (ds_acct s))"
      using assms None by (intro Record_books_ok) (auto simp: drain_ok_def txn_ok_def fill_ok_def nn_def split: Side.splits)
    then have "books_ok (keep_remainder ord fl (Record (fill_txn ord fl) (ds_acct s)))"
      by (auto simp: keep_remainder_def elim!: books_ok_frame [rotated])
    then have "drain_ok (s\<lparr>ds_batch := record_outcome (ds_acct s) ord fl (ds_batch s),
        ds_acct := keep_remainder ord fl (Record (fill_txn ord fl) (ds_acct s))\<rparr>)"
      using assms(1) out by (simp add: drain_ok_def)
    then show ?thesis using assms(2) None Some handle_group_ok by (simp add: process_fill_def fill_ok_def Let_def)
  next
    case (Some e)
    then show ?thesis using assms \<open>map_of _ _ = Some ord\<close> out b by (auto simp: process_fill_def Let_def drain_ok_def)
  qed
qed

lemma drain_loop_ok:
  assumes "drain_ok s"
  shows "\<exists>s'. drain_loop sim_ops s = Some s' \<and> sb_fills (ds_brk s') = [] \<and> drain_ok s'"
proof (rule sq.drain_returns [where Q = "\<lambda>_. True"])
  fix s fl k
  assume "drain_ok s" "bo_recv sim_ops (ds_brk s) = Some (fl, k)"
  then have "fill_ok fl" "drain_ok (s\<lparr>ds_brk := k\<rparr>)" using sim_recv_ok by (auto simp: drain_ok_def)
  then show "drain_ok (process_fill sim_ops fl (s\<lparr>ds_brk := k\<rparr>))" by (intro process_fill_ok)
qed (use assms in \<open>simp_all add: list_all_iff\<close>)

lemma submitBracketExits_ok:
  assumes "books_ok a" "broker_ok k" "nn (dx_qty info)"
  shows "books_ok (fst (submitBracketExits sim_ops info (a, k))) \<and> broker_ok (snd (submitBracketExits sim_ops info (a, k)))"
proof -
  have q: "nn (o_Qty (stopLossOrder info))" "nn (o_Qty (takeProfitOrder info))"
    using assms(3) by (simp_all add: stopLossOrder_def takeProfitOrder_def)
  have "broker_ok (snd (sim_SubmitGroup p [stopLossOrder info, takeProfitOrder info] GroupOCO k))" for p
    by (rule sim_SubmitGroup_ok [OF assms(2)]) (simp add: q)
  moreover have "broker_ok (snd (sim_Submit p (takeProfitOrder info) (snd (sim_Submit p (stopLossOrder info) k))))" for p
    by (intro sim_Submit_ok assms(2) q)
  moreover have "books (fst (submitBracketExits sim_ops info (a, k))) = books a"
    by (simp add: submitBracketExits_def Let_def books_def)
  ultimately show ?thesis using books_ok_frame [OF _ assms(1)] by (simp add: submitBracketExits_def Let_def del: sim_SubmitGroup.simps)
qed

lemma drainFills_ok:
  assumes "books_ok a" "broker_ok k" "\<forall>b. bat = Some b \<longrightarrow> batch_ok b"
  shows "\<exists>a' k' bat'. drainFillsFromChannel sim_ops (a, k, bat) = Some (a', k', bat') \<and> books_ok a' \<and> broker_ok k'
     \<and> (\<forall>b. bat' = Some b \<longrightarrow> batch_ok b)"
proof (cases "a_hasBroker a")
  case True
  obtain s where s: "drain_loop sim_ops \<lparr>ds_acct = a, ds_brk = k, ds_batch = bat, ds_exits = []\<rparr> = Some s" "drain_ok s"
    using drain_loop_ok [of "\<lparr>ds_acct = a, ds_brk = k, ds_batch = bat, ds_exits = []\<rparr>"] assms by (auto simp: drain_ok_def)
  have "books_ok (fst (fold (submitBracketExits sim_ops) es (a, k))) \<and> broker_ok (snd (fold (submitBracketExits sim_ops) es (a, k)))"
    if "list_all (\<lambda>x. nn (dx_qty x)) es" "books_ok a" "broker_ok k" for es a k
    using that
  proof (induction es arbitrary: a k)
    case (Cons e es)
    obtain a1 k1 where e: "submitBracketExits sim_ops e (a, k) = (a1, k1)" by fastforce
    then show ?case using Cons submitBracketExits_ok [of a k e] by simp
  qed simp
  from this [of "ds_exits s" "ds_acct s" "ds_brk s"] show ?thesis
    using True s by (auto simp: drainFillsFromChannel_def drain_ok_def split: prod.split)
qed (use assms in \<open>simp add: drainFillsFromChannel_def\<close>)

definition middleware_ok :: "middleware \<Rightarrow> bool" where
  "middleware_ok mw \<longleftrightarrow> (\<forall>a b e a' b'. books_ok a \<longrightarrow> batch_ok b \<longrightarrow> mw (a, b) = (e, a', b') \<longrightarrow> books_ok a' \<and> batch_ok b')"

lemma run_middleware_ok:
  assumes "list_all middleware_ok mws" "books_ok a" "batch_ok b" "run_middleware mws (a, b) = (e, a', b')"
  shows "books_ok a' \<and> batch_ok b'"
  using assms
proof (induction mws arbitrary: a b)
  case (Cons mw mws)
  obtain e1 a1 b1 where m: "mw (a, b) = (e1, a1, b1)" using prod_cases3 by blast
  have "middleware_ok mw" using Cons.prems(1) by simp
  then have ok: "books_ok a1" "batch_ok b1" using Cons.prems(2,3) m unfolding middleware_ok_def by blast+
  show ?case
  proof (cases e1)
    case None
    then have "run_middleware mws (a1, b1) = (e, a', b')" using Cons.prems(4) m by simp
    then show ?thesis using Cons.IH [OF _ ok] Cons.prems(1) by simp
  next
    case (Some err)
    then show ?thesis using Cons.prems(4) m ok by simp
  qed
qed simp

lemma Annotate_books [simp]: "books (Annotate t k v a) = books a"
  by (simp add: Annotate_def)

lemma first_pass_ok:
  assumes "list_all middleware_ok mws" "books_ok a" "batch_ok b" "first_pass mws (a, b) = (e, a', b')"
  shows "books_ok a' \<and> batch_ok b'"
proof -
  have ann: "books (fold (\<lambda>(key, val) a. Annotate t key val a) xs a) = books a" for t xs a
    by (induction xs arbitrary: a) auto
  show ?thesis
    using assms(2-4) run_middleware_ok [OF assms(1-3)] books_ok_frame [OF ann]
    by (auto simp: first_pass_def split: if_splits option.splits prod.splits)
qed

lemma begin_batch_ok:
  "books_ok a \<Longrightarrow> batch_ok b \<Longrightarrow> begin_batch (a, b) = (a', b') \<Longrightarrow> books_ok a' \<and> batch_ok b'"
  by (auto simp: begin_batch_def Let_def batch_ok_def books_def split: if_splits intro: books_ok_frame [rotated])

lemma assign_ids_ok:
  assumes "books_ok a" "batch_ok b" "assign_ids (a, b) = (a', b')"
  shows "books_ok a' \<and> batch_ok b'"
proof -
  have id: "o_Qty (assign_id b i ord) = o_Qty ord" for i ord by (simp add: assign_id_def)
  have "books a' = books a" using assms(3) by (auto simp: assign_ids_def Let_def)
  moreover have "list_all (\<lambda>ord. nn (o_Qty ord)) (map (\<lambda>(idx, ord). assign_id b idx ord) (enumerate n xs))"
    if "list_all (\<lambda>ord. nn (o_Qty ord)) xs" for n xs
    using that by (induction xs arbitrary: n) (simp_all add: id)
  moreover have "list_all (\<lambda>ord. nn (o_Qty ord)) (take n (b_Orders b))" "list_all (\<lambda>ord. nn (o_Qty ord)) (drop n (b_Orders b))" for n
    using assms(2) by (auto simp: batch_ok_def list_all_iff dest: in_set_takeD in_set_dropD)
  ultimately have "books a' = books a" "batch_ok b'" using assms(3)
    by (auto simp: assign_ids_def Let_def batch_ok_def)
  then show ?thesis using assms(1) books_ok_frame by blast
qed

lemma submit_each_ok:
  "broker_ok k \<Longrightarrow> list_all (\<lambda>ord. nn (o_Qty ord)) ords \<Longrightarrow> broker_ok (snd (submit_each sim_ops a ords k))"
proof (induction ords arbitrary: k)
  case (Cons ord ords)
  then show ?case using sim_Submit_ok [of k ord a] by (auto split: prod.splits option.splits)
qed simp

lemma submit_group_spec_ok:
  assumes "books_ok a" "broker_ok k" "batch_ok b" "submit_group_spec sim_ops b spec (a, k) = (e, a', k')"
  shows "books_ok a' \<and> broker_ok k'"
proof -
  have g: "list_all (\<lambda>ord. nn (o_Qty ord)) (group_orders b gid)" for gid
    using assms(3) by (auto simp: group_orders_def batch_ok_def list_all_iff dest: in_set_dropD)
  have n: "nn (o_Qty (b_Orders b ! i))" if "i < length (b_Orders b)" for i
    using that assms(3) by (simp add: batch_ok_def list_all_length)
  show ?thesis
  proof (cases "gs_Type spec")
    case GroupOCO
    have "broker_ok k'" using assms(4) GroupOCO sim_SubmitGroup_ok [OF assms(2) g, of a "gs_GroupID spec" GroupOCO]
        submit_each_ok [OF assms(2) g, of a "gs_GroupID spec"]
      by (auto simp: submit_group_spec_def Let_def split: if_splits prod.splits option.splits)
    moreover have "books a' = books a" using assms(4) GroupOCO
      by (auto simp: submit_group_spec_def Let_def split: if_splits prod.splits option.splits)
    ultimately show ?thesis using assms(1) books_ok_frame by blast
  next
    case GroupBracket
    have "broker_ok k'" using assms(2,4) GroupBracket sim_Submit_ok [OF assms(2) n, of "nat (gs_EntryIndex spec)" a]
      by (auto simp: submit_group_spec_def Let_def split: if_splits prod.splits option.splits)
    moreover have "books a' = books a" using assms(4) GroupBracket
      by (auto simp: submit_group_spec_def Let_def split: if_splits prod.splits option.splits)
    ultimately show ?thesis using assms(1) books_ok_frame by blast
  qed
qed

lemma submit_groups_ok:
  assumes "books_ok a" "broker_ok k" "batch_ok b" "submit_groups sim_ops b specs (a, k) = (e, a', k')"
  shows "books_ok a' \<and> broker_ok k'"
  using assms(1,2,4)
proof (induction specs arbitrary: a k)
  case (Cons spec specs)
  obtain e1 a1 k1 where g: "submit_group_spec sim_ops b spec (a, k) = (e1, a1, k1)" using prod_cases3 by blast
  have "books_ok a1 \<and> broker_ok k1" using submit_group_spec_ok [OF Cons.prems(1,2) assms(3) g] .
  then show ?case using Cons g by (auto split: option.splits)
qed simp

lemma submit_new_ok:
  assumes "books_ok a" "broker_ok k" "batch_ok b" "submit_new sim_ops b (a, k) = (e, a', k')"
  shows "books_ok a' \<and> broker_ok k'"
proof -
  define a1 where "a1 = a\<lparr>a_deferredExits := fold (\<lambda>spec m. mput (gs_GroupID spec) spec m)
      (filter (\<lambda>spec. gs_Type spec = GroupBracket) (drop (b_executedGroups b) (b_groups b))) (a_deferredExits a)\<rparr>"
  have a1: "books_ok a1" using assms(1) by (intro books_ok_frame [of a1 a]) (simp_all add: a1_def)
  obtain e2 a2 k2 where g: "submit_groups sim_ops b (drop (b_executedGroups b) (b_groups b)) (a1, k) = (e2, a2, k2)"
    using prod_cases3 by blast
  note ok2 = submit_groups_ok [OF a1 assms(2,3) g]
  have "broker_ok (snd (submit_each sim_ops a2 (filter P (drop n (b_Orders b))) k2))" for P n
    by (rule submit_each_ok) (use ok2 assms(3) in \<open>auto simp: batch_ok_def list_all_iff dest: in_set_dropD\<close>)
  moreover have "submit_new sim_ops b (a, k) = (case e2 of Some err \<Rightarrow> (e2, a2, k2)
      | None \<Rightarrow> (case submit_each sim_ops a2 (filter (\<lambda>ord. \<not> (o_GroupID ord \<noteq> []
          \<and> o_GroupID ord \<in> gs_GroupID ` set (drop (b_executedGroups b) (b_groups b)))) (drop (b_executed b) (b_Orders b))) k2 of
          (e, k3) \<Rightarrow> (e, a2, k3)))"
    using g by (cases e2) (simp_all add: submit_new_def Let_def a1_def)
  ultimately show ?thesis using assms(4) ok2 by (cases e2) (auto simp: case_prod_unfold)
qed

lemma ExecuteBatch_ok:
  assumes "list_all middleware_ok mws" "books_ok a" "broker_ok k" "batch_ok b"
  shows "\<exists>e a' k' b'. ExecuteBatch sim_ops mws (a, k, b) = Some (e, a', k', b') \<and> books_ok a' \<and> broker_ok k' \<and> batch_ok b'"
proof -
  have clr: "books_ok (clear_current x)" if "books_ok x" for x
    using that by (intro books_ok_frame [of "clear_current x" x]) (simp_all add: clear_current_def)
  obtain a0 b0 where s0: "begin_batch (a, b) = (a0, b0)" by fastforce
  note ok0 = begin_batch_ok [OF assms(2,4) s0]
  obtain e1 a1 b1 where s1: "first_pass mws (a0, b0) = (e1, a1, b1)" using prod_cases3 by blast
  have ok1: "books_ok a1 \<and> batch_ok b1" using first_pass_ok [OF assms(1) _ _ s1] ok0 by blast
  obtain a2 b2 where s2: "assign_ids (a1, b1) = (a2, b2)" by fastforce
  have ok2: "books_ok a2 \<and> batch_ok b2" using assign_ids_ok [OF _ _ s2] ok1 by blast
  obtain e3 a3 k3 where s3: "submit_new sim_ops b2 (a2, k) = (e3, a3, k3)" using prod_cases3 by blast
  have ok3: "books_ok a3 \<and> broker_ok k3" using submit_new_ok [OF _ assms(3) _ s3] ok2 by blast
  define b3 where "b3 = b2\<lparr>b_executed := length (b_Orders b2), b_executedGroups := length (b_groups b2)\<rparr>"
  have b3: "batch_ok b3" using ok2 by (simp add: b3_def batch_ok_def)
  obtain a4 k4 bat where s4: "drainFillsFromChannel sim_ops (a3, k3, Some b3) = Some (a4, k4, bat)"
    "books_ok a4" "broker_ok k4" "\<forall>b. bat = Some b \<longrightarrow> batch_ok b"
    using drainFills_ok [of a3 k3 "Some b3"] ok3 b3 by auto
  show ?thesis using s0 s1 s2 s3 s4 ok1 ok2 ok3 b3 clr assms(3)
    by (cases e1; cases e3) (auto simp: ExecuteBatch_def Let_def b3_def [symmetric] split: option.splits)
qed

end
