(* ===== verification/EngineData.thy ===== *)
theory EngineData
  imports CacheSound SimInvariant
begin

text \<open>
  The engine's clock and the data access that depends on it (engine/engine.go,
  engine/intraday\_fetch.go, engine/intraday\_fill\_cache.go): Fetch and FetchAt over the column
  cache, the risk-free series, the prices the simulated broker fills at, and the minute bars of
  intra-day firings. Shows that the engine never serves data from after its clock, that an
  intra-day firing never sees the close of its own day, that filling a frame forward ends and
  keeps the frame well-formed, and that the frames handed to the broker have no negative
  entries.
\<close>

section \<open>State\<close>

record intradayFillCache =
  if_firingTime :: gotime
  if_assets :: "asset list"
  if_covered :: "(string, bool) gomap"
  if_window :: dataframe

record engine =
  e_currentDate :: gotime
  e_currentTime :: gotime
  e_predicting :: bool
  e_cache :: "dataCache option"
  e_cacheMaxBytes :: int
  e_benchmark :: asset
  e_riskFreeResolved :: bool
  e_riskFreeAssetDGS :: asset
  e_riskFreeTimes :: "gotime list"
  e_riskFreeValues :: "f64 list"
  e_riskFreeIndex :: "(gotime, nat) gomap"
  e_riskFreeCumulative :: f64
  e_intradayFill :: "intradayFillCache option"

text \<open>
  The services the engine calls: the data providers, the provider of minute bars
  if one is registered, and the power function of the mathematics library.
\<close>

type_synonym intraday_provider =
  "asset list \<Rightarrow> metric list \<Rightarrow> gotime \<Rightarrow> gotime \<Rightarrow> TimeOfDay list \<Rightarrow> goerr + dataframe"

record services =
  sv_data :: fetch_env
  sv_intraday :: "intraday_provider option"
  sv_pow :: "f64 \<Rightarrow> f64 \<Rightarrow> f64"

section \<open>The clock\<close>

definition marketOpenMinutes :: int where "marketOpenMinutes = 9 * 60 + 30"
definition marketCloseMinutes :: int where "marketCloseMinutes = 16 * 60"

definition isIntradayFiring :: "services \<Rightarrow> engine \<Rightarrow> bool" where
  "isIntradayFiring sv e =
     (if time_isZero (e_currentTime e) then False
      else if e_currentTime e = e_currentDate e then False
      else if sv_intraday sv = None then False
      else let minutes = nz_minutes nyc (e_currentTime e) in
        minutes > marketOpenMinutes \<and> minutes < marketCloseMinutes)"

definition capDailyRangeEnd :: "services \<Rightarrow> engine \<Rightarrow> gotime \<Rightarrow> gotime" where
  "capDailyRangeEnd sv e ts =
     (if \<not> isIntradayFiring sv e then ts
      else if nz_year nyc ts = nz_year nyc (e_currentDate e) \<and> nz_yday nyc ts = nz_yday nyc (e_currentDate e)
      then time_addDate ts 0 0 (- 1) else ts)"

definition engine_Now :: "engine \<Rightarrow> gotime" where
  "engine_Now e = (if time_isZero (e_currentTime e) then e_currentDate e else e_currentTime e)"

section \<open>Filling forward\<close>

fun nextTimestamp :: "gotime \<Rightarrow> Frequency \<Rightarrow> gotime" where
  "nextTimestamp current Daily = time_addDate current 0 0 1"
| "nextTimestamp current Weekly = time_addDate current 0 0 7"
| "nextTimestamp current Monthly = time_addDate current 0 1 0"
| "nextTimestamp current Quarterly = time_addDate current 0 3 0"
| "nextTimestamp current Yearly = time_addDate current 1 0 0"
| "nextTimestamp current _ = time_addDate current 0 0 1"

lemma nextTimestamp_later: "nextTimestamp t f \<ge> t + day_ns"
proof -
  have p: "0 \<le> day_ns" by (simp add: day_ns_def hour_ns_def minute_ns_def second_ns_def)
  have m: "day_ns \<le> n * day_ns" if "1 \<le> n" for n :: int using mult_right_mono [OF that p] by simp
  show ?thesis
    using time_addDate_months [of 0 1 t] time_addDate_months [of 0 3 t] time_addDate_months [of 1 0 t] p m [of 28] m [of 84] m [of 336] m [of 7]
    by (cases f) (simp_all add: time_addDate_days)
qed

function fill_rows :: "dataframe \<Rightarrow> f64 list \<Rightarrow> Frequency \<Rightarrow> gotime \<Rightarrow> gotime \<Rightarrow> goerr + dataframe" where
  "fill_rows df lastRow freq cursor targetDate =
     (let after = nextTimestamp cursor freq in
      if after > targetDate then Inr df
      else case AppendRow df after lastRow of
             Inl e \<Rightarrow> Inl (Wrap ''forward-fill append'' e)
           | Inr df' \<Rightarrow> fill_rows df' lastRow freq after targetDate)"
  by pat_completeness auto
termination
proof (relation "measure (\<lambda>(df, row, f, c, t). nat (t - c))")
  fix df :: dataframe and row f c t after x
  assume "after = nextTimestamp c f" "\<not> t < after" "AppendRow df after row = Inr x"
  then have "c < after" using nextTimestamp_later [of c f] by (simp add: day_ns_def hour_ns_def minute_ns_def second_ns_def)
  then show "((x, row, f, after, t), df, row, f, c, t) \<in> measure (\<lambda>(df, row, f, c, t). nat (t - c))"
    using \<open>\<not> t < after\<close> by simp
qed simp

definition ForwardFillTo :: "dataframe \<Rightarrow> gotime \<Rightarrow> goerr + dataframe" where
  "ForwardFillTo df targetDate =
     (if df_Len df = 0 then Inr df
      else if \<not> df_End df < targetDate then Inr df
      else if df_freq df = Tick then Inl (Err ''cannot forward-fill tick-frequency data: no regular interval'')
      else fill_rows df (concat (map (\<lambda>a. map (df_Value df a) (df_metrics df)) (df_assets df)))
             (df_freq df) (df_End df) targetDate)"

section \<open>The risk-free series\<close>

definition midnight_utc :: "gotime \<Rightarrow> gotime" where "midnight_utc t = days_of t * day_ns"

definition sliceRiskFree :: "engine \<Rightarrow> gotime list \<Rightarrow> f64 list option" where
  "sliceRiskFree e timestamps =
     (if e_riskFreeTimes e = [] \<or> timestamps = [] then None
      else Some (map (\<lambda>t.
        let key = midnight_utc t in
        case map_of (e_riskFreeIndex e) key of Some idx \<Rightarrow> e_riskFreeValues e ! idx
        | None \<Rightarrow>
            let k = sort_search (length (e_riskFreeTimes e)) (\<lambda>j. e_riskFreeTimes e ! j > key) in
            if k \<ge> 1 then e_riskFreeValues e ! (k - 1) else NaN) timestamps))"

definition attach_risk_free :: "engine \<Rightarrow> dataframe \<Rightarrow> goerr + dataframe" where
  "attach_risk_free e df =
     (if e_riskFreeResolved e \<and> e_riskFreeTimes e \<noteq> [] \<and> df_Len df > 0
      then case sliceRiskFree e (df_times df) of None \<Rightarrow> Inr df
        | Some rf \<Rightarrow> (case SetRiskFreeRates df rf of
            Inl err \<Rightarrow> Inl (Wrap ''engine: set risk-free rates'' err) | Inr df' \<Rightarrow> Inr df')
      else Inr df)"

section \<open>Fetching daily data\<close>

definition with_cache :: "engine \<Rightarrow> dataCache" where
  "with_cache e = (case e_cache e of Some c \<Rightarrow> c | None \<Rightarrow> newDataCache (e_cacheMaxBytes e))"

definition fill_and_attach :: "engine \<Rightarrow> gotime \<Rightarrow> dataframe \<Rightarrow> goerr + dataframe" where
  "fill_and_attach e target df =
     (if e_predicting e \<and> df_Len df > 0 \<and> df_End df < target
      then case ForwardFillTo df target of
             Inl err \<Rightarrow> Inl (Wrap ''engine: forward-fill'' err)
           | Inr filled \<Rightarrow> attach_risk_free e filled
      else attach_risk_free e df)"

definition FetchAt :: "services \<Rightarrow> asset list \<Rightarrow> gotime \<Rightarrow> metric list \<Rightarrow> engine \<Rightarrow> (goerr + dataframe) option \<times> engine" where
  "FetchAt sv assets timestamp metrics e =
     (if \<not> e_predicting e \<and> \<not> time_isZero (e_currentDate e) \<and> timestamp > e_currentDate e
      then (Some (Inl (Err ''FetchAt: requested future date'')), e)
      else let ts = capDailyRangeEnd sv e timestamp in
        case fetchRange (sv_data sv) assets metrics ts ts (with_cache e) of
          (None, c) \<Rightarrow> (None, e\<lparr>e_cache := Some c\<rparr>)
        | (Some (Inl err), c) \<Rightarrow> (Some (Inl err), e\<lparr>e_cache := Some c\<rparr>)
        | (Some (Inr df), c) \<Rightarrow> (Some (fill_and_attach e ts df), e\<lparr>e_cache := Some c\<rparr>))"

definition fetchIntraday :: "services \<Rightarrow> asset list \<Rightarrow> Period \<Rightarrow> metric list \<Rightarrow> engine \<Rightarrow> goerr + dataframe" where
  "fetchIntraday sv assets lookback metrics e =
     (case sv_intraday sv of
        None \<Rightarrow> Inl (Err ''engine: intraday lookback requested but no provider'')
      | Some fetch \<Rightarrow>
          let end' = engine_Now e; start = Period_Before lookback end' in
          (case fetch assets metrics start end' (p_TimeOfDay lookback) of
             Inl err \<Rightarrow> Inl (Wrap ''engine: intraday fetch'' err) | Inr df \<Rightarrow> Inr df))"

definition engine_Fetch :: "services \<Rightarrow> asset list \<Rightarrow> Period \<Rightarrow> metric list \<Rightarrow> engine \<Rightarrow> (goerr + dataframe) option \<times> engine" where
  "engine_Fetch sv assets lookback metrics e =
     (let e1 = e\<lparr>e_cache := Some (with_cache e)\<rparr> in
      if IsIntraday lookback then (Some (fetchIntraday sv assets lookback metrics e1), e1)
      else
        let rangeStart = Period_Before lookback (e_currentDate e);
            rangeEnd = capDailyRangeEnd sv e1 (e_currentDate e)
        in case fetchRange (sv_data sv) assets metrics rangeStart rangeEnd (with_cache e) of
             (None, c) \<Rightarrow> (None, e\<lparr>e_cache := Some c\<rparr>)
           | (Some (Inl err), c) \<Rightarrow> (Some (Inl err), e\<lparr>e_cache := Some c\<rparr>)
           | (Some (Inr df), c) \<Rightarrow> (Some (fill_and_attach e (e_currentDate e) df), e\<lparr>e_cache := Some c\<rparr>))"

section \<open>Minute bars\<close>

definition fill_metrics :: "metric list" where
  "fill_metrics = [MetricClose, MetricHigh, MetricLow, Volume]"

definition covers :: "intradayFillCache \<Rightarrow> asset list \<Rightarrow> bool" where
  "covers c assets = list_all (\<lambda>want. mget False (if_covered c) (CompositeFigi want)) assets"

definition unionAssets :: "asset list \<Rightarrow> asset list \<Rightarrow> asset list" where
  "unionAssets base extra =
     snd (foldl (\<lambda>(seen, union) held. if CompositeFigi held \<in> set seen then (seen, union)
            else (CompositeFigi held # seen, union @ [held])) ([], []) (base @ extra))"

definition fetch_fill_window :: "intraday_provider \<Rightarrow> asset list \<Rightarrow> metric list \<Rightarrow> gotime \<Rightarrow> gotime \<Rightarrow> engine
    \<Rightarrow> (goerr + dataframe) \<times> engine" where
  "fetch_fill_window fetch assets metrics start end' e =
     (case fetch assets metrics start end' [] of
        Inl err \<Rightarrow> (Inl (Wrap ''engine: fetch intraday fill window'' err), e)
      | Inr window \<Rightarrow> (Inr window, e\<lparr>e_intradayFill := Some \<lparr>if_firingTime = e_currentTime e, if_assets = assets,
            if_covered = foldl (\<lambda>m held. mput (CompositeFigi held) True m) [] assets, if_window = window\<rparr>\<rparr>))"

definition intradayFillWindow :: "intraday_provider \<Rightarrow> asset list \<Rightarrow> metric list \<Rightarrow> gotime \<Rightarrow> gotime \<Rightarrow> engine
    \<Rightarrow> (goerr + dataframe) \<times> engine" where
  "intradayFillWindow fetch assets metrics start end' e =
     (case e_intradayFill e of
        Some c \<Rightarrow>
          if if_firingTime c = e_currentTime e
          then if covers c assets then (Inr (if_window c), e)
               else fetch_fill_window fetch (unionAssets (if_assets c) assets) metrics start end' e
          else fetch_fill_window fetch assets metrics start end' e
      | None \<Rightarrow> fetch_fill_window fetch assets metrics start end' e)"

text \<open>The first row at which one of the assets has a close.\<close>

definition earliest_bar :: "dataframe \<Rightarrow> asset list \<Rightarrow> gotime option" where
  "earliest_bar df assets = find (\<lambda>ts. list_ex (\<lambda>want. \<not> isNaN (df_ValueAt df want MetricClose ts)) assets) (df_times df)"

definition nextMinuteBar :: "services \<Rightarrow> asset list \<Rightarrow> engine \<Rightarrow> (goerr + dataframe) option \<times> engine" where
  "nextMinuteBar sv assets e =
     (case sv_intraday sv of
        None \<Rightarrow> (Some (Inl (Err ''engine: intra-day firing requires an IntradayProvider for order fills'')), e)
      | Some fetch \<Rightarrow>
          (case intradayFillWindow fetch assets fill_metrics (e_currentTime e + minute_ns) (e_currentTime e + 6 * minute_ns) e of
             (Inl err, e1) \<Rightarrow> (Some (Inl err), e1)
           | (Inr window, e1) \<Rightarrow>
               (case df_Assets assets window of None \<Rightarrow> (None, e1)
                | Some sliced \<Rightarrow>
                    (case earliest_bar sliced assets of
                       None \<Rightarrow> (Some (Inl (Wrap ''after'' ErrNoMinuteBar)), e1)
                     | Some ts \<Rightarrow> (map_option Inr (df_At sliced ts), e1)))))"

definition markBarLookback :: int where "markBarLookback = 6 * minute_ns"

definition mark_index :: "dataframe \<Rightarrow> asset \<Rightarrow> gotime option" where
  "mark_index window held = find (\<lambda>ts. \<not> isNaN (df_ValueAt window held MetricClose ts)) (rev (df_times window))"

fun mark_columns :: "dataframe \<Rightarrow> dataframe option \<Rightarrow> asset list \<Rightarrow> goerr + f64 list list" where
  "mark_columns window prior [] = Inr []"
| "mark_columns window prior (held # rest) =
     (let mark = mark_index window held;
          carried = (case prior of None \<Rightarrow> NaN | Some p \<Rightarrow> df_Value p held MetricClose)
      in if mark = None \<and> isNaN carried then Inl (Err ''engine: no minute bar and no prior mark'')
         else case mark_columns window prior rest of Inl err \<Rightarrow> Inl err
           | Inr cols \<Rightarrow> Inr (map (\<lambda>m. [case mark of Some ts \<Rightarrow> df_ValueAt window held m ts
                | None \<Rightarrow> (case prior of None \<Rightarrow> NaN | Some p \<Rightarrow> df_Value p held m)]) fill_metrics @ cols))"

definition markBar :: "services \<Rightarrow> asset list \<Rightarrow> dataframe option \<Rightarrow> engine \<Rightarrow> goerr + dataframe" where
  "markBar sv assets prior e =
     (case sv_intraday sv of
        None \<Rightarrow> Inl (Err ''engine: intra-day firing requires an IntradayProvider for live marks'')
      | Some fetch \<Rightarrow>
          (case fetch assets fill_metrics (e_currentTime e - markBarLookback) (e_currentTime e) [] of
             Inl err \<Rightarrow> Inl (Wrap ''engine: fetch mark bar'' err)
           | Inr window \<Rightarrow>
               (case mark_columns window prior assets of Inl err \<Rightarrow> Inl err
                | Inr cols \<Rightarrow>
                    (case NewDataFrame [e_currentTime e] assets fill_metrics Tick cols of
                       Inl err \<Rightarrow> Inl (Wrap ''engine: build mark bar frame'' err) | Inr df \<Rightarrow> Inr df))))"

section \<open>Prices\<close>

definition price_metrics :: "metric list" where
  "price_metrics = [MetricClose, MetricHigh, MetricLow, Volume, Dividend, SplitFactor]"

definition engine_Prices :: "services \<Rightarrow> asset list \<Rightarrow> engine \<Rightarrow> (goerr + dataframe) option \<times> engine" where
  "engine_Prices sv assets e =
     (if isIntradayFiring sv e then nextMinuteBar sv assets e
      else FetchAt sv assets (e_currentDate e) price_metrics e)"

declare fill_rows.simps [simp del]

section \<open>Entries of frames\<close>

definition entry_ok :: "metric \<Rightarrow> f64 \<Rightarrow> bool" where
  "entry_ok m v \<longleftrightarrow> nn v \<and> (m = SplitFactor \<longrightarrow> isNaN v \<or> fin v)"

definition entries_ok :: "dataframe \<Rightarrow> bool" where
  "entries_ok df \<longleftrightarrow> df_wf df \<and> (\<forall>a m col. df_Column df a m = Some col \<longrightarrow> list_all (entry_ok m) col)"

lemma entry_NaN [simp]: "entry_ok m NaN"
  by (simp add: entry_ok_def nn_def)

lemma df_ValueAt_Column:
  "df_ValueAt df a m t = (case df_Column df a m of None \<Rightarrow> NaN
     | Some col \<Rightarrow> (case timeIndex df t of None \<Rightarrow> NaN | Some i \<Rightarrow> col ! i))"
  by (simp add: df_ValueAt_def df_Column_def colSlice_def split: option.splits)

lemma entries_value:
  assumes "entries_ok df"
  shows "entry_ok m (df_Value df a m)" "entry_ok m (df_ValueAt df a m t)"
proof -
  show "entry_ok m (df_Value df a m)"
    using assms by (auto simp: df_Value_Column entries_ok_def list_all_iff split: option.splits)
  show "entry_ok m (df_ValueAt df a m t)"
    using assms timeIndex_bound [of df t] df_Column_length [of df a m]
    by (auto simp: df_ValueAt_Column entries_ok_def list_all_length split: option.splits)
qed

lemma entries_frame_nn:
  assumes "entries_ok df"
  shows "frame_nn df" "isNaN (df_ValueAt df a SplitFactor t) \<or> fin (df_ValueAt df a SplitFactor t) \<and> nn (df_ValueAt df a SplitFactor t)"
proof -
  show "frame_nn df" unfolding frame_nn_def
    using assms entries_value(1) [OF assms] by (auto simp: entries_ok_def entry_ok_def list_all_iff)
  show "isNaN (df_ValueAt df a SplitFactor t) \<or> fin (df_ValueAt df a SplitFactor t) \<and> nn (df_ValueAt df a SplitFactor t)"
    using entries_value(2) [OF assms, of SplitFactor a t] by (auto simp: entry_ok_def)
qed

lemma entries_WithErr: "entries_ok (WithErr e)"
  unfolding entries_ok_def by (rule conjI, rule WithErr_wf) (simp add: WithErr_def df_Column_def)

lemma entries_df_Assets:
  assumes "entries_ok df" "df_Assets xs df = Some r"
  shows "entries_ok r"
proof (cases "df_err df")
  case None
  then show ?thesis using assms df_Assets_column [of df xs r] by (auto simp: entries_ok_def split: if_splits)
next
  case (Some e)
  then show ?thesis using assms entries_WithErr by (auto simp: df_Assets_def)
qed

lemma entries_df_At:
  assumes "entries_ok df" "df_At df t = Some r"
  shows "entries_ok r"
proof (cases "df_err df")
  case None
  show ?thesis
  proof (cases "timeIndex df t")
    case None
    then have "r = df_zero" using assms(2) \<open>df_err df = None\<close> by (simp add: df_At_def empty_frame_eq)
    then show ?thesis using df_zero_wf by (simp add: entries_ok_def df_Column_none)
  next
    case (Some i)
    have wf: "df_wf df" using assms(1) by (simp add: entries_ok_def)
    have i: "i < length (df_times df)" using timeIndex_bound [OF wf Some] .
    note r = df_At_eq [OF wf None Some]
    have "df_Column r a m = map_option (\<lambda>col. [col ! i]) (df_Column df a m)" for a m
      by (rule df_Column_map [OF wf None]) (use assms(2) r df_wfD(3) [OF wf] in \<open>auto simp: mk_frame_def\<close>)
    moreover have "df_wf r" using df_At_yields [OF wf, of t] assms(2) by (simp add: yields_def)
    moreover have "entry_ok m (col ! i)" if "df_Column df a m = Some col" for a m col
      using that i assms(1) df_Column_length [of df a m col] wf by (auto simp: entries_ok_def list_all_length)
    ultimately show ?thesis by (auto simp: entries_ok_def)
  qed
next
  case (Some e)
  then show ?thesis using assms entries_WithErr by (auto simp: df_At_def)
qed

section \<open>The services\<close>

text \<open>
  Market quotes, prices, volumes, dividends and split factors, are not negative, and a split factor
  is finite. Nothing is asked of fundamentals and other metrics.
\<close>

definition market_metrics :: "metric list" where
  "market_metrics = [MetricOpen, MetricHigh, MetricLow, MetricClose, AdjClose, Volume, Dividend, SplitFactor]"

definition quotes_ok :: "quotes \<Rightarrow> bool" where
  "quotes_ok q \<longleftrightarrow> (\<forall>f m d. m \<in> set market_metrics \<longrightarrow> entry_ok m (qt_value q f m d))"

definition services_ok :: "services \<Rightarrow> quotes \<Rightarrow> bool" where
  "services_ok sv q \<longleftrightarrow> providers_quote (sv_data sv) q \<and> quotes_ok q
     \<and> (\<forall>fetch as ms s t tod df. sv_intraday sv = Some fetch \<longrightarrow> fetch as ms s t tod = Inr df \<longrightarrow> set ms \<subseteq> set market_metrics \<longrightarrow> entries_ok df)"

definition engine_ok :: "services \<Rightarrow> quotes \<Rightarrow> engine \<Rightarrow> bool" where
  "engine_ok sv q e \<longleftrightarrow> cache_ok q (with_cache e)
     \<and> (\<forall>c. e_intradayFill e = Some c \<longrightarrow> entries_ok (if_window c))"

lemma engine_ok_clock:
  "engine_ok sv q (e\<lparr>e_currentDate := d\<rparr>) = engine_ok sv q e" "engine_ok sv q (e\<lparr>e_currentTime := d\<rparr>) = engine_ok sv q e"
  "engine_ok sv q (e\<lparr>e_riskFreeCumulative := x\<rparr>) = engine_ok sv q e" "engine_ok sv q (e\<lparr>e_predicting := b\<rparr>) = engine_ok sv q e"
  by (simp_all add: engine_ok_def with_cache_def split: option.split)

lemma attach_risk_free_cases:
  "\<exists>df'. attach_risk_free e df = Inr df' \<and> (df' = df \<or> (\<exists>rf. length rf = length (df_times df) \<and> df' = df\<lparr>df_riskFreeRates := Some rf\<rparr>))"
proof -
  have "length rf = length ts" if "sliceRiskFree e ts = Some rf" for ts rf using that by (auto simp: sliceRiskFree_def split: if_splits)
  then show ?thesis by (auto simp: attach_risk_free_def SetRiskFreeRates_def split: option.split)
qed

lemma quoted_row_rates:
  "quoted_row q as ms t df \<Longrightarrow> length rf = length (df_times df) \<Longrightarrow> quoted_row q as ms t (df\<lparr>df_riskFreeRates := Some rf\<rparr>)"
proof -
  assume q: "quoted_row q as ms t df" and l: "length rf = length (df_times df)"
  let ?r = "df\<lparr>df_riskFreeRates := Some rf\<rparr>"
  have "df_wf ?r" using q l by (auto simp: quoted_row_def df_wf_def split: option.splits)
  moreover have c: "df_Column ?r a m = df_Column df a m" for a m
    by (simp add: df_Column_def metricIndex_def colSlice_def colIdx_def split: option.split)
  moreover have "df_Value ?r a m = df_Value df a m" for a m by (simp add: df_Value_Column c)
  ultimately show ?thesis using q by (simp add: quoted_row_def)
qed

lemma fill_and_attach_row:
  assumes "quoted_row q as ms t df"
  shows "\<exists>df'. fill_and_attach e t df = Inr df' \<and> quoted_row q as ms t df'"
proof -
  have "\<not> (e_predicting e \<and> df_Len df > 0 \<and> df_End df < t)"
    using assms by (auto simp: quoted_row_def df_Len_def df_End_def)
  then show ?thesis using attach_risk_free_cases [of e df] quoted_row_rates [OF assms] assms by (auto simp: fill_and_attach_def)
qed

lemma FetchAt_spec:
  assumes sv: "services_ok sv q" and e: "engine_ok sv q e" and f: "FetchAt sv as t ms e = (r, e')"
  shows "engine_ok sv q e' \<and> e' = e\<lparr>e_cache := e_cache e'\<rparr> \<and>
    ((\<exists>err. r = Some (Inl err)) \<or> (\<exists>df. r = Some (Inr df) \<and> quoted_row q as ms (capDailyRangeEnd sv e t) df
        \<and> (e_predicting e \<or> time_isZero (e_currentDate e) \<or> t \<le> e_currentDate e)))"
proof (cases "\<not> e_predicting e \<and> \<not> time_isZero (e_currentDate e) \<and> t > e_currentDate e")
  case True
  then show ?thesis using f e by (auto simp: FetchAt_def)
next
  case False
  define ts where "ts = capDailyRangeEnd sv e t"
  obtain x c where x: "fetchRange (sv_data sv) as ms ts ts (with_cache e) = (x, c)" by fastforce
  have "providers_quote (sv_data sv) q" "cache_ok q (with_cache e)"
    using sv e by (simp_all add: services_ok_def engine_ok_def)
  note P = fetchRange_point [OF this x]
  have e': "e' = e\<lparr>e_cache := Some c\<rparr>"
    using f False x by (auto simp: FetchAt_def Let_def ts_def [symmetric] split: option.splits sum.splits)
  have ok: "engine_ok sv q e'" using P e by (simp add: e' engine_ok_def with_cache_def)
  from P consider err where "x = Some (Inl err)" | df where "x = Some (Inr df)" "quoted_row q as ms ts df" by blast
  then show ?thesis
  proof cases
    case 1
    then have "r = Some (Inl err)" using f False x by (auto simp: FetchAt_def Let_def ts_def [symmetric])
    then show ?thesis using ok e' by simp
  next
    case 2
    obtain df' where "fill_and_attach e ts df = Inr df'" "quoted_row q as ms ts df'" using fill_and_attach_row [OF 2(2)] by blast
    moreover have "r = Some (fill_and_attach e ts df)" using f False x 2(1) by (auto simp: FetchAt_def Let_def ts_def [symmetric])
    ultimately show ?thesis using ok e' False by (auto simp: ts_def)
  qed
qed

lemma market_not_fundamental: "list_all (\<lambda>m. \<not> IsFundamental m) market_metrics"
  by code_simp

lemma quoted_row_entries:
  assumes "quoted_row q as ms t df" "quotes_ok q" "set ms \<subseteq> set market_metrics"
  shows "entries_ok df"
proof -
  have "entry_ok m v" if "df_Column df a m = Some col" "v \<in> set col" for a m col v
  proof -
    have m: "m \<in> set ms" "answers q (CompositeFigi a) m (nz_year nyc t) t v" using assms(1) that by (auto simp: quoted_row_def)
    then have "v = qt_value q (CompositeFigi a) m (dateKey t)" using assms(3) market_not_fundamental by (auto simp: answers_def list_all_iff)
    then show ?thesis using assms(2,3) m(1) by (auto simp: quotes_ok_def)
  qed
  then show ?thesis using assms(1) by (auto simp: entries_ok_def quoted_row_def list_all_iff)
qed


lemma fetch_fill_window_ok:
  assumes "services_ok sv q" "sv_intraday sv = Some fetch" "set ms \<subseteq> set market_metrics" "engine_ok sv q e" "fetch_fill_window fetch as ms s t e = (r, e')"
  shows "engine_ok sv q e' \<and> (\<forall>df. r = Inr df \<longrightarrow> entries_ok df)"
proof -
  have "entries_ok df" if "fetch as ms s t [] = Inr df" for df using assms(1-3) that by (auto simp: services_ok_def)
  then show ?thesis using assms(4,5) by (auto simp: fetch_fill_window_def engine_ok_def with_cache_def split: sum.splits option.splits)
qed

lemma fill_metrics_market: "set fill_metrics \<subseteq> set market_metrics" "set price_metrics \<subseteq> set market_metrics"
  by (auto simp: fill_metrics_def price_metrics_def market_metrics_def)

lemma nextMinuteBar_ok:
  assumes sv: "services_ok sv q" and e: "engine_ok sv q e" and n: "nextMinuteBar sv as e = (r, e')"
  shows "engine_ok sv q e' \<and> r \<noteq> None \<and> (\<forall>df. r = Some (Inr df) \<longrightarrow> entries_ok df)"
proof (cases "sv_intraday sv")
  case None
  then show ?thesis using n e by (auto simp: nextMinuteBar_def)
next
  case (Some fetch)
  obtain w e1 where w: "intradayFillWindow fetch as fill_metrics (e_currentTime e + minute_ns) (e_currentTime e + 6 * minute_ns) e = (w, e1)" by fastforce
  have W: "engine_ok sv q e1" "\<forall>df. w = Inr df \<longrightarrow> entries_ok df"
    using w fetch_fill_window_ok [OF sv Some fill_metrics_market(1) e] e
    by (auto simp: intradayFillWindow_def engine_ok_def split: option.splits if_splits)
  show ?thesis
  proof (cases w)
    case (Inl err)
    then show ?thesis using n Some w W by (auto simp: nextMinuteBar_def)
  next
    case (Inr window)
    have ok: "entries_ok window" using W(2) Inr by simp
    then obtain sliced where sl: "df_Assets as window = Some sliced" using df_Assets_yields [of window as] by (auto simp: entries_ok_def yields_def)
    have s: "entries_ok sliced" using entries_df_Assets [OF ok sl] .
    have "df_At sliced ts \<noteq> None" for ts using df_At_yields [of sliced ts] s by (auto simp: entries_ok_def yields_def)
    moreover note entries_df_At [OF s]
    ultimately show ?thesis using n Some w W(1) Inr sl by (auto simp: nextMinuteBar_def split: option.splits)
  qed
qed

lemma engine_Prices_ok:
  assumes sv: "services_ok sv q" and e: "engine_ok sv q e" and p: "engine_Prices sv as e = (r, e')"
  shows "engine_ok sv q e' \<and> r \<noteq> None \<and> (\<forall>df. r = Some (Inr df) \<longrightarrow> entries_ok df)"
proof (cases "isIntradayFiring sv e")
  case True
  then show ?thesis using nextMinuteBar_ok [OF sv e] p by (simp add: engine_Prices_def)
next
  case False
  have "quotes_ok q" using sv by (simp add: services_ok_def)
  then show ?thesis using FetchAt_spec [OF sv e, of as "e_currentDate e" price_metrics r e'] p False
      quoted_row_entries [OF _ _ fill_metrics_market(2)] by (auto simp: engine_Prices_def)
qed

section \<open>No look-ahead\<close>

lemma capDailyRangeEnd_current:
  "dateKey (capDailyRangeEnd sv e (e_currentDate e)) \<le> dateKey (e_currentDate e)"
  "isIntradayFiring sv e \<Longrightarrow> dateKey (capDailyRangeEnd sv e (e_currentDate e)) < dateKey (e_currentDate e)"
proof -
  have "days_of (t + - 1 * day_ns) = days_of t - 1" for t
    unfolding days_of_def by (subst div_mult_self1) (simp_all add: day_ns_def hour_ns_def minute_ns_def second_ns_def)
  then have d: "days_of (time_addDate t 0 0 (- 1)) = days_of t - 1" for t using time_addDate_days [of t "- 1"] by simp
  show "dateKey (capDailyRangeEnd sv e (e_currentDate e)) \<le> dateKey (e_currentDate e)"
    by (auto simp: capDailyRangeEnd_def Let_def dateKey_le_iff d)
  show "dateKey (capDailyRangeEnd sv e (e_currentDate e)) < dateKey (e_currentDate e)" if "isIntradayFiring sv e"
    using that by (simp add: capDailyRangeEnd_def Let_def dateKey_less_iff d)
qed

lemma column_rates: "df_Column (df\<lparr>df_riskFreeRates := rf\<rparr>) a m = df_Column df a m"
  by (simp add: df_Column_def metricIndex_def colSlice_def colIdx_def split: option.split)

text \<open>Every entry of the frame answers for the date of its row, that is from quotes of dates not after it.\<close>

definition column_answers :: "quotes \<Rightarrow> asset list \<Rightarrow> metric list \<Rightarrow> int \<Rightarrow> dataframe \<Rightarrow> bool" where
  "column_answers q assets metrics y df \<longleftrightarrow> (\<forall>a\<in>set assets. \<forall>m\<in>set metrics. \<forall>col. df_Column df a m = Some col
     \<longrightarrow> list_all2 (answers q (CompositeFigi a) m y) (df_times df) col)"

lemma quoted_row_columns: "quoted_row q as ms t df \<Longrightarrow> column_answers q as ms (nz_year nyc t) df"
  using df_Column_length [of df] by (fastforce simp: quoted_row_def column_answers_def list_all2_conv_all_nth)

lemma reports_columns:
  assumes "reports q as ms s t df"
  shows "column_answers q as ms (nz_year nyc s) df"
proof (cases "df_times df = []")
  case True
  then show ?thesis using assms df_Column_length [of df] by (fastforce simp: reports_def column_answers_def)
next
  case False
  then show ?thesis using assms unfolding reports_def column_answers_def by (metis option.inject)
qed

lemma engine_Fetch_no_lookahead:
  assumes sv: "services_ok sv q" and e: "engine_ok sv q e" and p: "\<not> e_predicting e"
    and l: "\<not> IsIntraday lookback" and f: "engine_Fetch sv as lookback ms e = (Some (Inr df), e')"
  shows "(\<forall>t\<in>set (df_times df). dateKey t \<le> dateKey (e_currentDate e) \<and> (isIntradayFiring sv e \<longrightarrow> dateKey t < dateKey (e_currentDate e)))
    \<and> (\<exists>y. column_answers q as ms y df)"
proof -
  define s t where "s = Period_Before lookback (e_currentDate e)" and "t = capDailyRangeEnd sv e (e_currentDate e)"
  have t1: "capDailyRangeEnd sv (e\<lparr>e_cache := x\<rparr>) u = capDailyRangeEnd sv e u" for x u
    by (simp add: capDailyRangeEnd_def isIntradayFiring_def)
  obtain x c where x: "fetchRange (sv_data sv) as ms s t (with_cache e) = (x, c)" by fastforce
  obtain d where d: "x = Some (Inr d)" "fill_and_attach e (e_currentDate e) d = Inr df"
    using f l x by (auto simp: engine_Fetch_def Let_def t1 s_def [symmetric] t_def [symmetric] split: option.splits sum.splits)
  have ok: "providers_quote (sv_data sv) q" "cache_ok q (with_cache e)"
    using sv e by (simp_all add: services_ok_def engine_ok_def)
  have tm: "df_times df = df_times d" "df_Column df a m = df_Column d a m" for a m
    using d(2) p attach_risk_free_cases [of e d] by (auto simp: fill_and_attach_def column_rates)
  have le: "(\<forall>u\<in>set (df_times d). dateKey u \<le> dateKey t) \<and> (\<exists>y. column_answers q as ms y d)"
  proof (cases "s = t")
    case True
    then have r: "quoted_row q as ms t d" using fetchRange_point [OF ok, of as ms t x c] x d(1) by auto
    then have "\<forall>u\<in>set (df_times d). dateKey u \<le> dateKey t" by (auto simp: quoted_row_def)
    then show ?thesis using quoted_row_columns [OF r] by blast
  next
    case False
    then have r: "reports q as ms s t d" using fetchRange_reports [OF ok x] d(1) by auto
    then have "\<forall>u\<in>set (df_times d). dateKey u \<le> dateKey t" by (simp add: reports_def)
    then show ?thesis using reports_columns [OF r] by blast
  qed
  then show ?thesis using capDailyRangeEnd_current [of sv e] unfolding tm(1) t_def column_answers_def tm(2) by fastforce
qed

section \<open>Filling forward\<close>

definition last_row :: "dataframe \<Rightarrow> f64 list" where
  "last_row df = concat (map (\<lambda>a. map (df_Value df a) (df_metrics df)) (df_assets df))"

lemma df_Value_figi: "CompositeFigi a = CompositeFigi b \<Longrightarrow> df_Value df a m = df_Value df b m"
  by (simp add: df_Value_def)

lemma AppendRow_last_row:
  assumes wf: "df_wf df" and e: "df_err df = None" and s: "sorted_wrt (<) (df_times df)" and ne: "df_times df \<noteq> []" and t: "df_End df < t"
  shows "\<exists>df'. AppendRow df t (last_row df) = Inr df' \<and> df_wf df' \<and> df_err df' = None \<and> df_freq df' = df_freq df \<and> df_times df' = df_times df @ [t]
    \<and> sorted_wrt (<) (df_times df') \<and> (\<forall>a m. df_Value df' a m = df_Value df a m) \<and> last_row df' = last_row df \<and> df_End df' = t"
proof -
  have len: "length (last_row df) = ColCount df"
    using df_wfD(1) [OF wf] by (simp add: last_row_def ColCount_def length_concat comp_def sum_list_triv)
  then obtain df' where df': "AppendRow df t (last_row df) = Inr df'" using e t by (auto simp: AppendRow_def)
  note app = AppendRow_cases [OF df']
  have sel: "df_times df' = df_times df @ [t]" "df_err df' = None" "df_freq df' = df_freq df" "df_assets df' = df_assets df"
    "df_metrics df' = df_metrics df" "df_assetIndex df' = df_assetIndex df"
    using app by simp_all
  have v: "df_Value df' a m = df_Value df a m" for a m
  proof (cases "\<exists>i j. map_of (df_assetIndex df) (CompositeFigi a) = Some i \<and> metricIndex df m = Some j")
    case True
    then obtain i j where ij: "map_of (df_assetIndex df) (CompositeFigi a) = Some i" "metricIndex df m = Some j" by blast
    have I: "i < length (df_assets df) \<and> CompositeFigi (df_assets df ! i) = CompositeFigi a"
      using ij(1) assetIndex_figi [of "df_assets df"] df_wfD(3) [OF wf] by simp
    have J: "j < length (df_metrics df) \<and> df_metrics df ! j = m" using metric_pos_Some [of "df_metrics df" 0 m j] ij(2) by (simp add: metricIndex_def)
    have "df_Value df' a m = last_row df ! colIdx df i j" using AppendRow_value [OF wf df' s ij] by blast
    also have "\<dots> = df_Value df (df_assets df ! i) (df_metrics df ! j)"
      using I J grid_nth [of i "df_assets df" j "df_metrics df" "df_Value df"] by (simp add: last_row_def colIdx_def)
    also have "\<dots> = df_Value df a m" using I J df_Value_figi [of "df_assets df ! i" a] by simp
    finally show ?thesis .
  next
    case False
    moreover have "metricIndex df' m = metricIndex df m" by (simp add: metricIndex_def sel)
    ultimately show ?thesis by (auto simp: df_Value_def sel e split: option.splits)
  qed
  have "last_row df' = last_row df" by (simp add: last_row_def sel v cong: map_cong)
  moreover have "sorted_wrt (<) (df_times df')"
    using sorted_less_snoc [OF s, of t] t ne by (simp add: sel df_End_def)
  moreover have "df_End df' = t" by (simp add: df_End_def sel)
  ultimately show ?thesis using df' AppendRow_wf [OF wf df'] sel v by blast
qed

lemma fill_rows_spec:
  assumes "df_wf df" "df_err df = None" "sorted_wrt (<) (df_times df)" "df_times df \<noteq> []"
  shows "\<exists>df' ts. fill_rows df (last_row df) freq (df_End df) t = Inr df' \<and> df_wf df' \<and> df_times df' = df_times df @ ts
     \<and> sorted_wrt (<) (df_times df') \<and> (\<forall>x\<in>set ts. x \<le> t) \<and> (\<forall>a m. df_Value df' a m = df_Value df a m) \<and> nextTimestamp (df_End df') freq > t"
  using assms
proof (induction "nat (t - df_End df)" arbitrary: df rule: less_induct)
  case less
  define u where "u = nextTimestamp (df_End df) freq"
  have u: "df_End df < u" using nextTimestamp_later [of "df_End df" freq] by (simp add: u_def day_ns_def hour_ns_def minute_ns_def second_ns_def)
  show ?case
  proof (cases "u > t")
    case True
    then have "fill_rows df (last_row df) freq (df_End df) t = Inr df" by (subst fill_rows.simps) (simp add: Let_def u_def)
    then show ?thesis using less.prems True by (intro exI [of _ df] exI [of _ "[]"]) (simp add: u_def)
  next
    case False
    obtain d where d: "AppendRow df u (last_row df) = Inr d" "df_wf d" "df_err d = None" "df_times d = df_times df @ [u]"
      "sorted_wrt (<) (df_times d)" "\<forall>a m. df_Value d a m = df_Value df a m" "last_row d = last_row df" "df_End d = u"
      using AppendRow_last_row [OF less.prems u] by blast
    have "nat (t - df_End d) < nat (t - df_End df)" using u False d(8) by simp
    from less.hyps [OF this d(2,3,5)] d(4) obtain df' ts where R: "fill_rows d (last_row d) freq (df_End d) t = Inr df'" "df_wf df'"
      "df_times df' = df_times d @ ts" "sorted_wrt (<) (df_times df')" "\<forall>x\<in>set ts. x \<le> t" "\<forall>a m. df_Value df' a m = df_Value d a m"
      "nextTimestamp (df_End df') freq > t" by auto
    have "fill_rows df (last_row df) freq (df_End df) t = Inr df'"
      using R(1) d(1,7,8) False by (subst fill_rows.simps) (simp add: Let_def u_def [symmetric])
    then show ?thesis using R d(4,6) False by (intro exI [of _ df'] exI [of _ "u # ts"]) simp
  qed
qed

lemma ForwardFillTo_spec:
  assumes "df_wf df" "df_err df = None" "sorted_wrt (<) (df_times df)" "df_times df \<noteq> []" "df_freq df \<noteq> Tick" "df_End df < t"
  shows "\<exists>df' ts. ForwardFillTo df t = Inr df' \<and> df_wf df' \<and> df_times df' = df_times df @ ts
     \<and> sorted_wrt (<) (df_times df') \<and> (\<forall>x\<in>set ts. x \<le> t) \<and> (\<forall>a m. df_Value df' a m = df_Value df a m) \<and> nextTimestamp (df_End df') (df_freq df) > t"
  using fill_rows_spec [OF assms(1-4), of "df_freq df" t] assms(4-6)
  by (simp add: ForwardFillTo_def last_row_def df_Len_def)

end
