(* ===== verification/Performance.thy ===== *)
theory Performance
  imports SimBroker
begin

text \<open>
  Equity recording (portfolio/account.go: \<open>UpdatePrices\<close>, \<open>appendPositionRow\<close>): every step
  appends one row to the performance frame, and one entry to the market value and quantity
  histories of each asset seen so far. Shows that the histories stay aligned with the time
  axis and that the recorded equity is cash plus the values recorded for the positions.
\<close>

section \<open>Operations\<close>

definition appendPositionRow :: "asset \<Rightarrow> f64 \<Rightarrow> f64 \<Rightarrow> nat \<Rightarrow> account \<Rightarrow> account" where
  "appendPositionRow ast mv qty targetLen a =
     (let mvSlice = mget [] (a_positionMV a) ast;
          qtySlice = mget [] (a_positionQty a) ast;
          fill = replicate (targetLen - 1 - length mvSlice) NaN
      in a\<lparr>a_positionMV := mput ast (mvSlice @ fill @ [mv]) (a_positionMV a),
           a_positionQty := mput ast (qtySlice @ fill @ [qty]) (a_positionQty a)\<rparr>)"

text \<open>
  The value a holding contributes to a step: its close, or the last known price, or nothing
  when neither is available.
\<close>

definition step_value :: "account \<Rightarrow> dataframe \<Rightarrow> asset \<times> f64 \<Rightarrow> f64 option" where
  "step_value a df entry =
     (case entry of (ast, qty) \<Rightarrow>
        let mv = df_Value df ast MetricClose in
        if isNaN mv
        then let prior = mget [] (a_positionMV a) ast; priorQty = mget [] (a_positionQty a) ast in
          if prior \<noteq> [] \<and> \<not> isNaN (last prior) \<and> priorQty \<noteq> [] \<and> last priorQty > 0
          then Some (qty * (last prior / last priorQty)) else None
        else Some (qty * mv))"

definition step_total :: "account \<Rightarrow> dataframe \<Rightarrow> f64" where
  "step_total a df = foldl (\<lambda>total e. case step_value a df e of None \<Rightarrow> total | Some v \<Rightarrow> total + v)
     (a_cash a) (a_holdings a)"

definition benchmark_value :: "account \<Rightarrow> dataframe \<Rightarrow> f64" where
  "benchmark_value a df =
     (if a_benchmark a \<noteq> asset_zero
      then let bv = df_Value df (a_benchmark a) AdjClose in
        if isNaN bv \<or> feq bv 0 then df_Value df (a_benchmark a) MetricClose else bv
      else 0)"

definition record_equity :: "account \<Rightarrow> dataframe \<Rightarrow> goerr + dataframe" where
  "record_equity a df =
     (let row = [step_total a df, benchmark_value a df, a_riskFreeValue a] in
      case a_perfData a of
        None \<Rightarrow> NewDataFrame [df_End df] [portfolioAsset]
                  [PortfolioEquity, PortfolioBenchmark, PortfolioRiskFree] Daily (map (\<lambda>v. [v]) row)
      | Some pd \<Rightarrow> AppendRow pd (df_End df) row)"

definition held_rows :: "dataframe \<Rightarrow> account \<Rightarrow> nat \<Rightarrow> account \<Rightarrow> account" where
  "held_rows df a0 histLen a =
     fold (\<lambda>e. appendPositionRow (fst e) (case step_value a0 df e of None \<Rightarrow> NaN | Some v \<Rightarrow> v)
                 (mget 0 (a_holdings a0) (fst e)) histLen) (a_holdings a0) a"

definition closed_row :: "nat \<Rightarrow> asset \<Rightarrow> account \<Rightarrow> account" where
  "closed_row histLen ast a =
     (let prior = mget [] (a_positionQty a) ast in
      if prior \<noteq> [] \<and> last prior > 0 then appendPositionRow ast 0 0 histLen a
      else appendPositionRow ast NaN NaN histLen a)"

definition closed_rows :: "nat \<Rightarrow> account \<Rightarrow> account" where
  "closed_rows histLen a =
     fold (closed_row histLen)
       (filter (\<lambda>ast. ast \<noteq> cashSentinel \<and> \<not> mhas (a_holdings a) ast) (mkeys (a_positionMV a))) a"

definition UpdatePrices :: "dataframe \<Rightarrow> account \<Rightarrow> account" where
  "UpdatePrices df a =
     (if df_Len df = 0 then a
      else
        let a1 = a\<lparr>a_prices := Some df\<rparr> in
        case record_equity a1 df of
          Inl _ \<Rightarrow> a1
        | Inr pd \<Rightarrow>
            let a2 = a1\<lparr>a_perfData := Some pd\<rparr>; histLen = df_Len pd in
            appendPositionRow cashSentinel (a_cash a2) (a_cash a2) histLen
              (closed_rows histLen (held_rows df a2 histLen a2)))"

section \<open>Alignment\<close>

text \<open>No history is longer than the time axis, and both histories of an asset have one length.\<close>

definition hist_ok :: "nat \<Rightarrow> account \<Rightarrow> bool" where
  "hist_ok n a \<longleftrightarrow> (\<forall>ast. length (mget [] (a_positionMV a) ast) \<le> n
     \<and> length (mget [] (a_positionQty a) ast) = length (mget [] (a_positionMV a) ast))"

definition aligned :: "nat \<Rightarrow> asset \<Rightarrow> account \<Rightarrow> bool" where
  "aligned n ast a \<longleftrightarrow> length (mget [] (a_positionMV a) ast) = n
     \<and> length (mget [] (a_positionQty a) ast) = n"

definition progress :: "nat \<Rightarrow> asset set \<Rightarrow> account \<Rightarrow> bool" where
  "progress n P a \<longleftrightarrow> (\<forall>ast. length (mget [] (a_positionQty a) ast) = length (mget [] (a_positionMV a) ast)
     \<and> (if ast \<in> P then length (mget [] (a_positionMV a) ast) = Suc n
         else length (mget [] (a_positionMV a) ast) \<le> n))"

lemma appendPositionRow_simps [simp]:
  "a_holdings (appendPositionRow ast mv q n a) = a_holdings a" "a_cash (appendPositionRow ast mv q n a) = a_cash a"
  "a_perfData (appendPositionRow ast mv q n a) = a_perfData a"
  "mhas (a_positionMV (appendPositionRow ast mv q n a)) x \<longleftrightarrow> x = ast \<or> mhas (a_positionMV a) x"
  "mwf (a_positionMV a) \<Longrightarrow> mwf (a_positionMV (appendPositionRow ast mv q n a))"
  by (simp_all add: appendPositionRow_def Let_def)

lemma progress_append:
  "progress n P a \<Longrightarrow> ast \<notin> P \<Longrightarrow> progress n (insert ast P) (appendPositionRow ast mv q (Suc n) a)"
  by (simp add: progress_def appendPositionRow_def Let_def)

lemma progress_fold:
  assumes "progress n P a" "distinct (map f xs)" "f ` set xs \<inter> P = {}"
    and "\<And>x b. \<exists>mv q. step x b = appendPositionRow (f x) mv q (Suc n) b"
  shows "progress n (P \<union> f ` set xs) (fold step xs a)"
  using assms(1-3)
proof (induction xs arbitrary: P a)
  case (Cons x xs)
  obtain mv q where "step x a = appendPositionRow (f x) mv q (Suc n) a" using assms(4) by blast
  then have "progress n (insert (f x) P) (step x a)" using Cons.prems by (simp add: progress_append)
  then show ?case using Cons.IH [of "insert (f x) P" "step x a"] Cons.prems by auto
qed simp

lemma fold_rows_frame:
  fixes step :: "'x \<Rightarrow> account \<Rightarrow> account"
  assumes "\<And>x b. \<exists>mv q. step x b = appendPositionRow (f x) mv q m b"
  shows "a_holdings (fold step xs a) = a_holdings a" "a_cash (fold step xs a) = a_cash a"
    "a_perfData (fold step xs a) = a_perfData a"
    "mhas (a_positionMV (fold step xs a)) k \<longleftrightarrow> k \<in> f ` set xs \<or> mhas (a_positionMV a) k"
    "mwf (a_positionMV a) \<Longrightarrow> mwf (a_positionMV (fold step xs a))"
proof (atomize (full), induction xs arbitrary: a)
  case (Cons x xs)
  obtain mv q where x: "step x a = appendPositionRow (f x) mv q m a" using assms by blast
  show ?case using Cons.IH [of "step x a"] by (auto simp: x)
qed simp

lemma held_rows_progress:
  assumes "hist_ok n a" "mwf (a_holdings a0)"
  shows "progress n (fst ` set (a_holdings a0)) (held_rows df a0 (Suc n) a)"
proof -
  have "progress n {} a" using assms(1) by (auto simp: hist_ok_def progress_def)
  from progress_fold [where f = fst, OF this assms(2), of "\<lambda>e. appendPositionRow (fst e)
      (case step_value a0 df e of None \<Rightarrow> NaN | Some v \<Rightarrow> v) (mget 0 (a_holdings a0) (fst e)) (Suc n)"]
  show ?thesis by (auto simp: held_rows_def)
qed

lemma closed_row_append: "\<exists>mv q. closed_row m x b = appendPositionRow x mv q m b"
  by (auto simp: closed_row_def Let_def)

lemma record_equity_len:
  assumes "record_equity a df = Inr pd"
  shows "df_Len pd = (case a_perfData a of None \<Rightarrow> 1 | Some old \<Rightarrow> Suc (df_Len old))"
  using assms by (auto simp: record_equity_def NewDataFrame_def AppendRow_def Let_def df_Len_def
      split: option.splits if_splits)

lemma UpdatePrices_aligned:
  assumes "hist_ok n a" "n = (case a_perfData a of None \<Rightarrow> 0 | Some pd \<Rightarrow> df_Len pd)"
    and "mwf (a_holdings a)" "\<not> mhas (a_holdings a) cashSentinel" "mwf (a_positionMV a)"
    and "df_Len df > 0" "record_equity (a\<lparr>a_prices := Some df\<rparr>) df = Inr pd"
  defines "b \<equiv> UpdatePrices df a"
  shows "a_perfData b = Some pd" "df_Len pd = Suc n"
    "\<forall>ast. mhas (a_positionMV b) ast \<longrightarrow> aligned (Suc n) ast b" "hist_ok (Suc n) b" "mwf (a_positionMV b)"
    "mhas (a_positionMV b) cashSentinel" "\<forall>ast. mhas (a_holdings a) ast \<longrightarrow> mhas (a_positionMV b) ast"
proof -
  show len: "df_Len pd = Suc n"
    using record_equity_len [OF assms(7)] assms(2) by (simp split: option.splits)
  define a2 where "a2 = a\<lparr>a_prices := Some df, a_perfData := Some pd\<rparr>"
  define h where "h = held_rows df a2 (Suc n) a2"
  define xs where "xs = filter (\<lambda>ast. ast \<noteq> cashSentinel \<and> \<not> mhas (a_holdings h) ast) (mkeys (a_positionMV h))"
  define c where "c = fold (closed_row (Suc n)) xs h"
  have b: "b = appendPositionRow cashSentinel (a_cash a2) (a_cash a2) (Suc n) c"
    using assms(6,7) len by (simp add: b_def UpdatePrices_def Let_def a2_def h_def c_def xs_def closed_rows_def)
  let ?H = "fst ` set (a_holdings a)"
  have hist: "hist_ok n a2" using assms(1) by (simp add: hist_ok_def a2_def)
  have step: "\<exists>mv q. appendPositionRow (fst e) (case step_value a2 df e of None \<Rightarrow> NaN | Some v \<Rightarrow> v)
      (mget 0 (a_holdings a2) (fst e)) (Suc n) s = appendPositionRow (fst e) mv q (Suc n) s" for e s by blast
  note hf = fold_rows_frame [where f = fst and m = "Suc n" and xs = "a_holdings a2" and a = a2, OF step,
      folded held_rows_def, folded h_def]
  note cf = fold_rows_frame [where f = "\<lambda>x. x" and step = "closed_row (Suc n)" and m = "Suc n" and xs = xs and a = h,
      OF closed_row_append, folded c_def]
  have hold: "a_holdings h = a_holdings a" using hf(1) by (simp add: a2_def)
  have ph: "progress n ?H h" using held_rows_progress [OF hist, of a2 df] assms(3) by (simp add: h_def a2_def)
  have wfh: "mwf (a_positionMV h)" using hf(5) assms(5) by (simp add: a2_def)
  have xs: "distinct xs" "set xs \<inter> ?H = {}" "cashSentinel \<notin> set xs"
    using wfh by (auto simp: xs_def hold mhas_iff_key)
  have pc: "progress n (?H \<union> set xs) c"
    unfolding c_def using progress_fold [where f = "\<lambda>x. x" and xs = xs, OF ph, of "closed_row (Suc n)"] xs(1,2) closed_row_append
    by simp
  have cash: "cashSentinel \<notin> ?H \<union> set xs" using xs(3) assms(4) by (auto simp: mhas_iff_key)
  have pb: "progress n (insert cashSentinel (?H \<union> set xs)) b" unfolding b by (rule progress_append [OF pc cash])
  have keys: "ast \<in> insert cashSentinel (?H \<union> set xs)" if m: "mhas (a_positionMV b) ast" for ast
  proof -
    consider "ast = cashSentinel" | "mhas (a_positionMV c) ast" using m by (auto simp: b)
    then show ?thesis
    proof cases
      case 2
      then have "ast \<in> set xs \<or> mhas (a_positionMV h) ast" using cf(4) by simp
      then show ?thesis by (auto simp: xs_def hold mhas_iff_key image_iff)
    qed simp
  qed
  show "a_perfData b = Some pd" using cf(3) hf(3) by (simp add: b a2_def)
  show "\<forall>ast. mhas (a_positionMV b) ast \<longrightarrow> aligned (Suc n) ast b"
    using pb keys by (auto simp: progress_def aligned_def)
  show "hist_ok (Suc n) b" using pb unfolding progress_def hist_ok_def by (metis le_Suc_eq order_refl)
  show "mwf (a_positionMV b)" using cf(5) wfh by (simp add: b)
  show "mhas (a_positionMV b) cashSentinel" by (simp add: b)
  show "\<forall>ast. mhas (a_holdings a) ast \<longrightarrow> mhas (a_positionMV b) ast"
  proof (intro allI impI)
    fix ast assume "mhas (a_holdings a) ast"
    then have "mhas (a_positionMV h) ast" using hf(4) by (simp add: a2_def mhas_iff_key)
    then show "mhas (a_positionMV b) ast" using cf(4) by (simp add: b)
  qed
qed

section \<open>Recorded equity\<close>

lemma step_total_sum:
  "step_total a df = a_cash a + sum_list (map (\<lambda>e. case step_value a df e of None \<Rightarrow> 0 | Some v \<Rightarrow> v) (a_holdings a))"
proof -
  have "foldl (\<lambda>total e. case step_value a df e of None \<Rightarrow> total | Some v \<Rightarrow> total + v) z xs
      = z + sum_list (map (\<lambda>e. case step_value a df e of None \<Rightarrow> 0 | Some v \<Rightarrow> v) xs)" for z and xs :: "(asset \<times> f64) list"
    by (induction xs arbitrary: z) (auto simp: add.assoc split: option.split)
  then show ?thesis by (simp add: step_total_def)
qed

lemma step_total_AccountValue:
  assumes "\<forall>e\<in>set (a_holdings a). \<not> isNaN (df_Value df (fst e) MetricClose)"
  shows "step_total a df = AccountValue (a\<lparr>a_prices := Some df\<rparr>)"
proof -
  have "foldl (\<lambda>total e. case step_value a df e of None \<Rightarrow> total | Some v \<Rightarrow> total + v) z xs
      = foldl (\<lambda>total (ast, qty). let v = df_Value df ast MetricClose in
                 if isNaN v then total else total + qty * v) z xs"
    if "\<forall>e\<in>set xs. \<not> isNaN (df_Value df (fst e) MetricClose)" for z xs
    using that by (induction xs arbitrary: z) (auto simp: step_value_def Let_def)
  then show ?thesis using assms by (simp add: step_total_def AccountValue_def)
qed

text \<open>A short position whose close is missing drops out of the recorded equity.\<close>

lemma short_without_close:
  assumes "isNaN (df_Value df ast MetricClose)" "mget [] (a_positionQty a) ast \<noteq> [] \<Longrightarrow> last (mget [] (a_positionQty a) ast) < 0"
  shows "step_value a df (ast, qty) = None"
proof -
  have "\<not> last (mget [] (a_positionQty a) ast) > 0" if "mget [] (a_positionQty a) ast \<noteq> []"
    using assms(2) [OF that] by (cases "last (mget [] (a_positionQty a) ast)") auto
  then show ?thesis using assms(1) by (auto simp: step_value_def Let_def)
qed

end
