(* ===== verification/Liquidation.thy ===== *)
theory Liquidation
  imports SimBroker
begin

text \<open>
  What the orders of engine/margin_call.go \<open>autoLiquidate\<close> achieve once they are filled at
  the closing prices: every position shrinks by at least the unwind fraction, equity stays, and
  on a book that is only long or only short no margin deficiency is left.
\<close>

section \<open>Filling the liquidation orders at the mark\<close>

definition fill_at_mark_price :: "dataframe \<Rightarrow> gotime \<Rightarrow> order \<Rightarrow> fill" where
  "fill_at_mark_price df t ord = \<lparr>f_OrderID = o_ID ord, f_Price = df_Value df (o_Asset ord) MetricClose,
     f_Qty = o_Qty ord, f_FilledAt = t, f_Err = None\<rparr>"

definition book_fill :: "dataframe \<Rightarrow> gotime \<Rightarrow> order \<Rightarrow> account \<Rightarrow> account" where
  "book_fill df t ord = Record (fill_txn ord (fill_at_mark_price df t ord))"

text \<open>An account whose holdings are all marked in \<open>df\<close> at finite, non-negative prices.\<close>

definition marked :: "dataframe \<Rightarrow> account \<Rightarrow> bool" where
  "marked df a \<longleftrightarrow> a_prices a = Some df \<and> marks_ok df \<and> open_holdings (a_holdings a) \<and> mwf (a_holdings a) \<and> fin (a_cash a)
     \<and> \<not> isInf (a_maintenanceMargin a)"

definition mark_fin :: "dataframe \<Rightarrow> asset \<Rightarrow> bool" where
  "mark_fin df k \<longleftrightarrow> fin (df_Value df k MetricClose) \<and> 0 \<le> mark df k"

lemma book_fill_marked:
  assumes "marked df a" "fin (o_Qty ord)" "mark_fin df (o_Asset ord)"
  shows "marked df (book_fill df t ord a)"
proof -
  have "fin (a_cash (book_fill df t ord a))"
    using assms Record_effect [of "fill_txn ord (fill_at_mark_price df t ord)" a]
    by (cases "o_Side ord") (auto simp: book_fill_def marked_def mark_fin_def fill_at_mark_price_def)
  then show ?thesis using assms Record_open_holdings Record_mwf_holdings
    by (simp add: marked_def book_fill_def)
qed

lemma liquidation_fill:
  fixes t
  assumes a: "marked df a" and k: "mark_fin df k" and pos: "Position a k = q" "fin q" "fval q \<noteq> 0"
    and ord: "liquidation_order f (k, q) = Some ord" and f: "fin f" "0 \<le> fval f"
  defines "b \<equiv> book_fill df t ord a" and "c \<equiv> fval (o_Qty ord) * mark df k"
  shows "LongMarketValue b = LongMarketValue a - Fin (if 0 < fval q then c else 0)"
    "ShortMarketValue b = ShortMarketValue a - Fin (if fval q < 0 then c else 0)"
    "Equity b = Equity a" "marked df b" "x \<noteq> k \<Longrightarrow> Position b x = Position a x"
proof -
  note red = liquidation_order_reduces [OF ord pos(2) f]
  obtain p where p: "df_Value df k MetricClose = Fin p" using k by (auto simp: mark_fin_def fin_iff)
  obtain n where n: "o_Qty ord = Fin n" "0 \<le> n" "n \<le> \<bar>fval q\<bar>" using red by (auto simp: fin_iff)
  obtain cs where cs: "a_cash a = Fin cs" using a by (auto simp: marked_def fin_iff)
  have mk: "mark df k = p" using p by (simp add: mark_def)
  have ast: "o_Asset ord = k" using red by simp
  let ?fl = "fill_at_mark_price df t ord"
  have fl: "f_Price ?fl = Fin p" "f_Qty ?fl = Fin n" using p n ast by (simp_all add: fill_at_mark_price_def)
  have m: "a_prices a = Some df" "marks_ok df" "open_holdings (a_holdings a)" "mwf (a_holdings a)"
    using a by (simp_all add: marked_def)
  note fm = fill_at_mark [OF m cs _ fl, of ord, unfolded ast, OF p, unfolded pos(1), folded book_fill_def, folded b_def]
  show "Equity b = Equity a" by (rule fm(3))
  let ?y = "case o_Side ord of Buy \<Rightarrow> fval q + n | Sell \<Rightarrow> fval q - n"
  have y: "max ?y 0 - max (fval q) 0 = - (if 0 < fval q then n else 0)"
    "max (- ?y) 0 - max (- fval q) 0 = - (if fval q < 0 then n else 0)"
    using red n(2,3) pos(3) by (auto simp: max_def)
  show "LongMarketValue b = LongMarketValue a - Fin (if 0 < fval q then c else 0)"
    using fm(1) n(1) unfolding y by (simp add: c_def mk minus_f64_def)
  show "ShortMarketValue b = ShortMarketValue a - Fin (if fval q < 0 then c else 0)"
    using fm(2) n(1) unfolding y by (simp add: c_def mk minus_f64_def)
  show "marked df b" unfolding b_def using book_fill_marked [OF a] k ast n by simp
  show "Position b x = Position a x" if "x \<noteq> k"
    using that ast Record_effect [of "fill_txn ord ?fl" a x] by (simp add: b_def book_fill_def)
qed

definition trimmed_value :: "dataframe \<Rightarrow> f64 \<Rightarrow> (asset \<times> f64) list \<Rightarrow> real" where
  "trimmed_value df f es = (\<Sum>e\<leftarrow>es. case liquidation_order f e of None \<Rightarrow> 0
     | Some ord \<Rightarrow> fval (o_Qty ord) * mark df (fst e))"

lemma trimmed_value_Cons:
  "liquidation_order f e = Some ord \<Longrightarrow>
   trimmed_value df f (e # es) = fval (o_Qty ord) * mark df (fst e) + trimmed_value df f es"
  by (simp add: trimmed_value_def)

lemma liquidation_fills:
  fixes t
  assumes "marked df a" "mwf es" "\<forall>e\<in>set es. mark_fin df (fst e) \<and> Position a (fst e) = snd e \<and> fin (snd e) \<and> fval (snd e) \<noteq> 0"
    and f: "fin f" "0 \<le> fval f"
  defines "b \<equiv> fold (book_fill df t) (List.map_filter (liquidation_order f) es) a"
  shows "LongMarketValue b = LongMarketValue a - Fin (trimmed_value df f (filter (\<lambda>e. 0 < fval (snd e)) es))
    \<and> ShortMarketValue b = ShortMarketValue a - Fin (trimmed_value df f (filter (\<lambda>e. fval (snd e) < 0) es))
    \<and> Equity b = Equity a \<and> marked df b
    \<and> a_maintenanceMargin b = a_maintenanceMargin a \<and> a_grossMaintenanceLeverage b = a_grossMaintenanceLeverage a"
  using assms(1-3) unfolding b_def
proof (induction es arbitrary: a)
  case (Cons e es)
  obtain k q where e: "e = (k, q)" by fastforce
  have k: "mark_fin df k" "Position a k = q" "fin q" "fval q \<noteq> 0" using Cons.prems(3) by (simp_all add: e)
  obtain ord where ord: "liquidation_order f (k, q) = Some ord"
    using k(3,4) by (auto simp: liquidation_order_def fin_feq Let_def)
  note one = liquidation_fill [OF Cons.prems(1) k ord f, where t = t]
  let ?a = "book_fill df t ord a"
  have "\<forall>e\<in>set es. mark_fin df (fst e) \<and> Position ?a (fst e) = snd e \<and> fin (snd e) \<and> fval (snd e) \<noteq> 0"
    using Cons.prems(2,3) one(5) by (force simp: e)
  note IH = Cons.IH [OF one(4) _ this]
  have "fold (book_fill df t) (List.map_filter (liquidation_order f) (e # es)) a
      = fold (book_fill df t) (List.map_filter (liquidation_order f) es) ?a"
    using ord by (simp add: e List.map_filter_simps)
  then show ?case using IH Cons.prems(2) one ord k(4)
    by (auto simp: e trimmed_value_Cons book_fill_def minus_f64_def add.assoc add.commute)
qed (simp add: List.map_filter_simps trimmed_value_def)

lemma trimmed_value_bounds:
  assumes "\<forall>e\<in>set es. mark_fin df (fst e) \<and> fin (snd e) \<and> fval (snd e) \<noteq> 0" "fin f" "0 \<le> fval f" "fval f \<le> 1"
  defines "gross \<equiv> (\<Sum>e\<leftarrow>es. \<bar>fval (snd e)\<bar> * mark df (fst e))"
  shows "fval f * gross \<le> trimmed_value df f es \<and> trimmed_value df f es \<le> gross"
  using assms(1) unfolding gross_def
proof (induction es)
  case (Cons e es)
  obtain k q where e: "e = (k, q)" by fastforce
  have k: "mark_fin df k" "fin q" "fval q \<noteq> 0" using Cons.prems by (simp_all add: e)
  obtain ord where ord: "liquidation_order f (k, q) = Some ord"
    using k by (auto simp: liquidation_order_def fin_feq Let_def)
  note red = liquidation_order_reduces [OF ord k(2) assms(2,3)]
  have "\<bar>fval q\<bar> * fval f \<le> \<bar>fval q\<bar>" using assms(4) by (simp add: mult_left_le)
  then have lo: "\<bar>fval q\<bar> * fval f \<le> fval (o_Qty ord)" using red by simp
  have mk: "0 \<le> mark df k" using k by (simp add: mark_fin_def)
  have "fval f * (\<bar>fval q\<bar> * mark df k) \<le> fval (o_Qty ord) * mark df k"
    using mult_right_mono [OF lo mk] by (simp add: algebra_simps)
  moreover have "fval (o_Qty ord) * mark df k \<le> \<bar>fval q\<bar> * mark df k" using red mk by (simp add: mult_right_mono)
  moreover have "fval f * (\<Sum>e\<leftarrow>es. \<bar>fval (snd e)\<bar> * mark df (fst e)) \<le> trimmed_value df f es"
    "trimmed_value df f es \<le> (\<Sum>e\<leftarrow>es. \<bar>fval (snd e)\<bar> * mark df (fst e))"
    using Cons by auto
  ultimately show ?case using ord by (auto simp: e trimmed_value_Cons ring_distribs)
qed (simp add: trimmed_value_def)

lemma gross_long_short:
  assumes "marked df a"
  shows "LongMarketValue a = Fin (\<Sum>e\<leftarrow>filter (\<lambda>e. 0 < fval (snd e)) (a_holdings a). \<bar>fval (snd e)\<bar> * mark df (fst e))"
    "ShortMarketValue a = Fin (\<Sum>e\<leftarrow>filter (\<lambda>e. fval (snd e) < 0) (a_holdings a). \<bar>fval (snd e)\<bar> * mark df (fst e))"
proof -
  have "hsum (\<lambda>k q. max q 0 * mark df k) m
      = (\<Sum>e\<leftarrow>filter (\<lambda>e. 0 < fval (snd e)) m. \<bar>fval (snd e)\<bar> * mark df (fst e))"
    "hsum (\<lambda>k q. max (- q) 0 * mark df k) m
      = (\<Sum>e\<leftarrow>filter (\<lambda>e. fval (snd e) < 0) m. \<bar>fval (snd e)\<bar> * mark df (fst e))" for m
    by (induction m) (auto simp: hsum_def max_def)
  with market_values_hsum [of a df] assms show
    "LongMarketValue a = Fin (\<Sum>e\<leftarrow>filter (\<lambda>e. 0 < fval (snd e)) (a_holdings a). \<bar>fval (snd e)\<bar> * mark df (fst e))"
    "ShortMarketValue a = Fin (\<Sum>e\<leftarrow>filter (\<lambda>e. fval (snd e) < 0) (a_holdings a). \<bar>fval (snd e)\<bar> * mark df (fst e))"
    by (simp_all add: marked_def)
qed

lemma liquidation_scales:
  fixes t
  assumes m: "marked df a" and h: "\<forall>e\<in>set (a_holdings a). mark_fin df (fst e)"
    and f: "fin f" "0 \<le> fval f" "fval f \<le> 1"
    and v: "LongMarketValue a = Fin l" "ShortMarketValue a = Fin s"
  defines "b \<equiv> fold (book_fill df t) (List.map_filter (liquidation_order f) (a_holdings a)) a"
  obtains l' s' where "LongMarketValue b = Fin l'" "ShortMarketValue b = Fin s'" "Equity b = Equity a"
    "0 \<le> l'" "0 \<le> s'" "l' \<le> (1 - fval f) * l" "s' \<le> (1 - fval f) * s" "priced b"
    "maintenanceMarginRate b = maintenanceMarginRate a" "GrossMaintenanceLeverage b = GrossMaintenanceLeverage a"
proof -
  let ?P = "filter (\<lambda>e. 0 < fval (snd e)) (a_holdings a)" and ?N = "filter (\<lambda>e. fval (snd e) < 0) (a_holdings a)"
  have ok: "\<forall>e\<in>set (a_holdings a). mark_fin df (fst e) \<and> Position a (fst e) = snd e \<and> fin (snd e) \<and> fval (snd e) \<noteq> 0"
    using m h by (auto simp: marked_def open_holdings_def Position_def mget_def)
  have fl: "LongMarketValue b = LongMarketValue a - Fin (trimmed_value df f ?P)"
    "ShortMarketValue b = ShortMarketValue a - Fin (trimmed_value df f ?N)"
    "Equity b = Equity a" "marked df b" "a_maintenanceMargin b = a_maintenanceMargin a"
    "a_grossMaintenanceLeverage b = a_grossMaintenanceLeverage a"
    using liquidation_fills [OF m _ ok f(1,2), of t] m by (simp_all add: marked_def b_def)
  have bd: "fval f * l \<le> trimmed_value df f ?P \<and> trimmed_value df f ?P \<le> l"
    "fval f * s \<le> trimmed_value df f ?N \<and> trimmed_value df f ?N \<le> s"
    using trimmed_value_bounds [of ?P df f, OF _ f] trimmed_value_bounds [of ?N df f, OF _ f] ok
      gross_long_short [OF m] v by auto
  have pr: "priced b" using fl bd v by (simp add: priced_def marked_def)
  show thesis
    by (rule that [of "l - trimmed_value df f ?P" "s - trimmed_value df f ?N"])
       (use fl bd v pr in \<open>simp_all add: algebra_simps maintenanceMarginRate_def GrossMaintenanceLeverage_def\<close>)
qed

lemma unwind_left:
  fixes l s D :: real
  assumes g: "0 < l + s" and f: "f = min 1 (D / (l + s))" and b: "l' \<le> (1 - f) * l" "s' \<le> (1 - f) * s"
  shows "l' + s' \<le> max 0 (l + s - D)"
proof (cases "D / (l + s) \<le> 1")
  case True
  then have "(1 - f) * (l + s) = l + s - D" using g by (simp add: f min_def left_diff_distrib)
  then show ?thesis using b by (simp add: algebra_simps)
next
  case False
  then show ?thesis using b by (simp add: f)
qed

lemma unwind_ok:
  assumes left: "l' + s' \<le> max 0 (l + s - D)"
    and v: "LongMarketValue b = Fin l'" "ShortMarketValue b = Fin s'" "Equity b = Fin e" "0 \<le> l'" "0 \<le> s'"
      "maintenanceMarginRate b = Fin r" "0 < r"
    and full: "e \<le> 0 \<Longrightarrow> l + s \<le> D"
    and lev: "\<And>k. GrossMaintenanceLeverage b = Fin k \<Longrightarrow> 0 < e \<Longrightarrow> l + s - D \<le> k * e"
    and short: "s' = 0 \<or> l = 0" "0 < s \<Longrightarrow> s - e / r \<le> D" "0 \<le> s" "0 \<le> D"
  shows "healthy b \<and> within_leverage b"
proof (cases "e \<le> 0")
  case True
  then show ?thesis using left full v by (auto simp: healthy_def within_leverage_def)
next
  case False
  have "l' + s' \<le> k * e" if "GrossMaintenanceLeverage b = Fin k" "0 < k" for k
  proof -
    have "0 \<le> k * e" using that(2) False by simp
    then show ?thesis using left lev [OF that(1)] False by linarith
  qed
  then have "within_leverage b"
    using GrossMaintenanceLeverage_pos [of b] v False by (auto simp: within_leverage_def)
  moreover have "s' * r \<le> e \<or> s' = 0"
  proof (cases "s' = 0")
    case s: False
    have "0 \<le> e / r" using False v(7) by simp
    then have "s' \<le> e / r" using left short s v(4,5) by (cases "s = 0") auto
    then show ?thesis using v(7) by (simp add: pos_le_divide_eq)
  qed simp
  ultimately show ?thesis using v by (auto simp: healthy_def)
qed

text \<open>
  On a book that is only long or only short, the orders clear the margin call when they fill at
  the mark.
\<close>

lemma autoLiquidate_restores:
  assumes m: "marked df a" and h: "\<forall>e\<in>set (a_holdings a). mark_fin df (fst e)" and subs: "a_substitutions a = []"
    and side: "LongMarketValue a = 0 \<or> ShortMarketValue a = 0"
  shows "MarginDeficiency (fold (book_fill df t) (autoLiquidate_orders a) a) = 0"
proof -
  have pos: "0 \<le> (\<Sum>e\<leftarrow>filter P (a_holdings a). \<bar>fval (snd e)\<bar> * mark df (fst e))" for P
    by (rule sum_list_nonneg) (use h in \<open>fastforce simp: mark_fin_def intro: mult_nonneg_nonneg\<close>)
  have nn: "0 \<le> fval (LongMarketValue a)" "0 \<le> fval (ShortMarketValue a)"
    unfolding gross_long_short [OF m] fval.simps by (rule pos)+
  have "priced a" using m nn gross_long_short [OF m] by (simp add: priced_def marked_def)
  then obtain l s e r d where v: "LongMarketValue a = Fin l" "ShortMarketValue a = Fin s" "Equity a = Fin e"
    "0 \<le> l" "0 \<le> s" "0 < r" "maintenanceMarginRate a = Fin r"
    "MarginDeficiency a = Fin (max (if s > 0 then max 0 (s - e / r) else 0) d)"
    "d = (if l + s > 0 then
            (if e \<le> 0 then l + s
             else case GrossMaintenanceLeverage a of Fin g \<Rightarrow> max 0 (l + s - g * e) | _ \<Rightarrow> 0) else 0)"
    by (rule MarginDeficiency_cases)
  define D where "D = max (if s > 0 then max 0 (s - e / r) else 0) d"
  have D0: "0 \<le> D" "d \<le> D" "0 < s \<Longrightarrow> s - e / r \<le> D" using v(4,5,9) by (auto simp: D_def split: f64.splits)
  have vD: "MarginDeficiency a = Fin D" using v(8) by (simp add: D_def)
  show ?thesis
  proof (cases "D = 0 \<or> l + s \<le> 0")
    case True
    have "D = 0" using True v(4,5,9) by (auto simp: D_def split: if_splits)
    then have "MarginDeficiency a = Fin 0" using vD by simp
    then show ?thesis by (simp add: autoLiquidate_orders_def)
  next
    case False
    define f where "f = min 1 (D / (l + s))"
    have D: "0 < D" and g: "0 < l + s" using False D0(1) by auto
    have f: "0 \<le> f" "f \<le> 1" using D g by (simp_all add: f_def)
    define b where "b = fold (book_fill df t) (List.map_filter (liquidation_order (Fin f)) (a_holdings a)) a"
    have ords: "autoLiquidate_orders a = List.map_filter (liquidation_order (Fin f)) (a_holdings a)"
      using D g v(1,2) vD subs by (auto simp: autoLiquidate_orders_def Let_def Holdings_def f_def min_def)
    have ff: "fin (Fin f)" "0 \<le> fval (Fin f)" "fval (Fin f) \<le> 1" using f by simp_all
    obtain l' s' where b: "LongMarketValue b = Fin l'" "ShortMarketValue b = Fin s'" "Equity b = Equity a"
      "0 \<le> l'" "0 \<le> s'" "l' \<le> (1 - fval (Fin f)) * l" "s' \<le> (1 - fval (Fin f)) * s" "priced b"
      "maintenanceMarginRate b = maintenanceMarginRate a" "GrossMaintenanceLeverage b = GrossMaintenanceLeverage a"
      unfolding b_def by (rule liquidation_scales [OF m h ff v(1,2)])
    note b = b [unfolded v fval.simps]
    have left: "l' + s' \<le> max 0 (l + s - D)" by (rule unwind_left [OF g f_def b(6,7)])
    have one: "s' = 0 \<or> l = 0" using side v(1,2) b(5,7) by auto
    have lev: "l + s - D \<le> k * e" if "GrossMaintenanceLeverage b = Fin k" "0 < e" for k
      using that v(9) D0(2) b(10) g by simp
    have full: "l + s \<le> D" if "e \<le> 0" using that v(9) D0(2) g by simp
    have "healthy b \<and> within_leverage b"
      by (rule unwind_ok [OF left b(1-5,9) v(6) full lev one D0(3) v(5) D0(1)])
    then show ?thesis using MarginDeficiency_zero_iff [OF b(8)] ords by (simp add: b_def)
  qed
qed

end
