(* ===== verification/EngineLoop.thy ===== *)
theory EngineLoop
  imports EngineData Performance Liquidation
begin

text \<open>
  The backtest loop (engine/backtest.go, engine/margin\_call.go, engine/reconciler.go): the
  housekeeping, margin, strategy and valuation phases of a trading day for the parent account
  and for every child, composed in the order of the code. Strategies are arguments. Shows that
  a whole backtest returns whatever the strategies do within their interface, and that the
  books of every account stay consistent through it.
\<close>

section \<open>Desks and strategies\<close>

text \<open>An account with its broker, and the engine they share.\<close>

record desk =
  dk_eng :: engine
  dk_acct :: account
  dk_brk :: simBroker

text \<open>
  A strategy sees the child accounts, its desk and a batch; it may fetch data through the
  engine and amend the batch. Reconcile and OnMarginCall are optional interfaces.
\<close>

type_synonym strategy_call = "(string \<times> account) list \<Rightarrow> desk \<Rightarrow> batch \<Rightarrow> goerr option \<times> engine \<times> batch"

record strategy =
  st_Compute :: strategy_call
  st_Reconcile :: "strategy_call option"
  st_OnMarginCall :: "strategy_call option"

section \<open>Sequencing\<close>

text \<open>
  A phase returns nothing when it does not return at all (a panic or an endless loop), and
  otherwise an error, if any, with the new state; an error ends the sequence.
\<close>

type_synonym 's phase = "'s \<Rightarrow> (goerr option \<times> 's) option"

definition then_do :: "'s phase \<Rightarrow> 's phase \<Rightarrow> 's phase" where
  "then_do f g = (\<lambda>s. case f s of None \<Rightarrow> None | Some (Some e, s1) \<Rightarrow> Some (Some e, s1) | Some (None, s1) \<Rightarrow> g s1)"

text \<open>A nil dereference or an index out of range.\<close>

definition panic :: "'s phase" where "panic = (\<lambda>s. None)"

definition finish :: "'s phase" where "finish = (\<lambda>s. Some (None, s))"

definition modify :: "('s \<Rightarrow> 's) \<Rightarrow> 's phase" where "modify f = (\<lambda>s. Some (None, f s))"

definition wrapped :: "string \<Rightarrow> 's phase \<Rightarrow> 's phase" where
  "wrapped msg f = (\<lambda>s. map_option (\<lambda>(e, s1). (map_option (Wrap msg) e, s1)) (f s))"

fun for_each :: "('x \<Rightarrow> 's phase) \<Rightarrow> 'x list \<Rightarrow> 's phase" where
  "for_each f [] = finish"
| "for_each f (x # xs) = then_do (f x) (for_each f xs)"

section \<open>Phases of a desk\<close>

definition set_time :: "gotime \<Rightarrow> desk \<Rightarrow> desk" where
  "set_time t dk = dk\<lparr>dk_eng := (dk_eng dk)\<lparr>e_currentTime := t\<rparr>\<rparr>"

text \<open>
  The broker reads prices through the engine as it is when the provider is set; columns a
  read adds to the cache are not kept, they would be fetched again.
\<close>

definition broker_prices :: "services \<Rightarrow> engine \<Rightarrow> asset list \<Rightarrow> goerr + dataframe" where
  "broker_prices sv e assets =
     (case fst (engine_Prices sv assets e) of Some r \<Rightarrow> r | None \<Rightarrow> Inl (Err ''panic''))"

definition broker_fetcher :: "services \<Rightarrow> engine \<Rightarrow> data_fetcher" where
  "broker_fetcher sv e ast t =
     (case fst (FetchAt sv [ast] t [MetricHigh, MetricLow, MetricClose, Volume] e) of Some (Inr df) \<Rightarrow> Some df | _ \<Rightarrow> None)"

definition set_provider :: "services \<Rightarrow> gotime \<Rightarrow> desk \<Rightarrow> desk" where
  "set_provider sv date dk = dk\<lparr>dk_brk := SetPriceProvider (broker_prices sv (dk_eng dk)) date (dk_brk dk)\<rparr>"

definition set_fetcher :: "services \<Rightarrow> desk \<Rightarrow> desk" where
  "set_fetcher sv dk = dk\<lparr>dk_brk := sb_SetDataFetcher (broker_fetcher sv (dk_eng dk)) (dk_brk dk)\<rparr>"

definition evaluate_pending :: "desk \<Rightarrow> desk" where
  "evaluate_pending dk = dk\<lparr>dk_brk := EvaluatePending (dk_brk dk)\<rparr>"

definition price_assets :: "asset \<Rightarrow> account \<Rightarrow> asset list" where
  "price_assets benchmark a = mkeys (Holdings a) @ (if benchmark \<noteq> asset_zero then [benchmark] else [])"

text \<open>Fetch daily data and go on with the frame.\<close>

definition fetching :: "services \<Rightarrow> asset list \<Rightarrow> gotime \<Rightarrow> metric list \<Rightarrow> (dataframe \<Rightarrow> desk phase) \<Rightarrow> desk phase" where
  "fetching sv assets date metrics k = (\<lambda>dk.
     case FetchAt sv assets date metrics (dk_eng dk) of
       (None, e) \<Rightarrow> None
     | (Some (Inl err), e) \<Rightarrow> Some (Some (Wrap ''engine: price fetch'' err), dk\<lparr>dk_eng := e\<rparr>)
     | (Some (Inr df), e) \<Rightarrow> k df (dk\<lparr>dk_eng := e\<rparr>))"

definition prefetchHousekeepingPrices :: "services \<Rightarrow> gotime \<Rightarrow> asset \<Rightarrow> desk phase" where
  "prefetchHousekeepingPrices sv date benchmark = (\<lambda>dk.
     if price_assets benchmark (dk_acct dk) = [] then finish dk
     else fetching sv (price_assets benchmark (dk_acct dk)) date
            [MetricClose, AdjClose, MetricHigh, MetricLow, Volume, Dividend, SplitFactor] (\<lambda>_. finish) dk)"

definition drain_fills :: "desk phase" where
  "drain_fills = (\<lambda>dk.
     if \<not> a_hasBroker (dk_acct dk) then finish dk
     else map_option (\<lambda>(a, k, _). (None, dk\<lparr>dk_acct := a, dk_brk := k\<rparr>))
            (drainFillsFromChannel sim_ops (dk_acct dk, dk_brk dk, None)))"

definition sync_broker :: "desk phase" where
  "sync_broker = (\<lambda>dk.
     case sim_Transactions (dk_acct dk) (dk_brk dk) of
       (Inl err, k) \<Rightarrow> Some (Some (Wrap ''engine: broker transactions'' err), dk\<lparr>dk_brk := k\<rparr>)
     | (Inr txns, k) \<Rightarrow>
         (case SyncTransactions txns (dk_acct dk) of
            (err, a) \<Rightarrow> Some (map_option (Wrap ''engine: sync transactions'') err, dk\<lparr>dk_acct := a, dk_brk := k\<rparr>)))"

definition housekeepAccount :: "desk phase" where
  "housekeepAccount = then_do drain_fills sync_broker"

definition setMarginPrices :: "services \<Rightarrow> gotime \<Rightarrow> desk phase" where
  "setMarginPrices sv date = (\<lambda>dk.
     if mkeys (Holdings (dk_acct dk)) = [] then finish dk
     else fetching sv (mkeys (Holdings (dk_acct dk))) date [MetricClose]
            (\<lambda>df. modify (\<lambda>dk. dk\<lparr>dk_acct := SetPrices (Some df) (dk_acct dk)\<rparr>)) dk)"

definition execute_batch :: "middleware list \<Rightarrow> batch \<Rightarrow> desk \<Rightarrow> (goerr option \<times> desk \<times> batch) option" where
  "execute_batch mws b dk =
     map_option (\<lambda>(e, a, k, b'). (e, dk\<lparr>dk_acct := a, dk_brk := k\<rparr>, b'))
       (ExecuteBatch sim_ops mws (dk_acct dk, dk_brk dk, b))"

definition autoLiquidate :: "middleware list \<Rightarrow> gotime \<Rightarrow> desk phase" where
  "autoLiquidate mws date = (\<lambda>dk.
     if autoLiquidate_orders (dk_acct dk) = [] then finish dk
     else map_option (\<lambda>(e, dk1, b). (map_option (Wrap ''engine: auto-liquidate'') e, dk1))
            (execute_batch mws ((NewBatch date)\<lparr>b_SkipMiddleware := True, b_Orders := autoLiquidate_orders (dk_acct dk)\<rparr>) dk))"

definition checkAndHandleMarginCall ::
    "strategy \<Rightarrow> (string \<times> account) list \<Rightarrow> middleware list \<Rightarrow> gotime \<Rightarrow> desk phase" where
  "checkAndHandleMarginCall st children mws date = (\<lambda>dk.
     if feq (MarginDeficiency (dk_acct dk)) 0 then finish dk
     else case st_OnMarginCall st of
       None \<Rightarrow> autoLiquidate mws date dk
     | Some handler \<Rightarrow>
         (case handler children dk ((NewBatch date)\<lparr>b_SkipMiddleware := True\<rparr>) of
            (Some err, e, b) \<Rightarrow> Some (Some (Wrap ''engine: margin call handler'' err), dk\<lparr>dk_eng := e\<rparr>)
          | (None, e, b) \<Rightarrow>
              (case execute_batch mws b (dk\<lparr>dk_eng := e\<rparr>) of
                 None \<Rightarrow> None
               | Some (Some err, dk1, b1) \<Rightarrow> Some (Some (Wrap ''engine: execute margin call batch'' err), dk1)
               | Some (None, dk1, b1) \<Rightarrow>
                   if feq (MarginDeficiency (dk_acct dk1)) 0 then finish dk1 else autoLiquidate mws date dk1)))"

definition prefetchBrokerPrices :: "services \<Rightarrow> order list \<Rightarrow> desk phase" where
  "prefetchBrokerPrices sv ords = (\<lambda>dk.
     if ords = [] then finish dk
     else case engine_Prices sv (unique_assets ords) (dk_eng dk) of
       (None, e) \<Rightarrow> None
     | (Some (Inl err), e) \<Rightarrow>
         Some (if isNoMinuteBar err then None else Some (Wrap ''prefetch broker prices'' err), dk\<lparr>dk_eng := e\<rparr>)
     | (Some (Inr df), e) \<Rightarrow> Some (None, dk\<lparr>dk_eng := e\<rparr>))"

definition markIntradayPrices :: "services \<Rightarrow> desk phase" where
  "markIntradayPrices sv = (\<lambda>dk.
     if \<not> isIntradayFiring sv (dk_eng dk) then finish dk
     else let held = mkeys (Holdings (dk_acct dk)) in
       if held = [] then finish dk
       else case markBar sv held (a_prices (dk_acct dk)) (dk_eng dk) of
              Inl err \<Rightarrow> Some (Some (Wrap ''engine: mark intraday prices'' err), dk)
            | Inr df \<Rightarrow> Some (None, dk\<lparr>dk_acct := SetPrices (Some df) (dk_acct dk)\<rparr>))"

section \<open>Reconciling\<close>

definition maxReconcilePasses :: nat where "maxReconcilePasses = 16"

fun reconcile_passes :: "nat \<Rightarrow> services \<Rightarrow> strategy_call \<Rightarrow> (string \<times> account) list \<Rightarrow> middleware list \<Rightarrow> batch \<Rightarrow> desk phase" where
  "reconcile_passes 0 sv rec children mws b dk = Some (Some (Err ''reconcile: batch did not settle''), dk)"
| "reconcile_passes (Suc n) sv rec children mws b dk =
     (case rec children dk b of
        (Some err, e, b1) \<Rightarrow> Some (Some (Wrap ''reconcile'' err), dk\<lparr>dk_eng := e\<rparr>)
      | (None, e, b1) \<Rightarrow>
          if length (b_Orders b1) = length (b_Orders b) then Some (None, dk\<lparr>dk_eng := e\<rparr>)
          else if length (b_Orders b1) < length (b_Orders b) then None
          else (case prefetchBrokerPrices sv (drop (length (b_Orders b)) (b_Orders b1)) (dk\<lparr>dk_eng := e\<rparr>) of
                  None \<Rightarrow> None
                | Some (Some err, dk1) \<Rightarrow> Some (Some (Wrap ''reconcile prefetch broker prices'' err), dk1)
                | Some (None, dk1) \<Rightarrow>
                    (case execute_batch mws b1 dk1 of
                       None \<Rightarrow> None
                     | Some (Some err, dk2, b2) \<Rightarrow> Some (Some (Wrap ''reconcile execute batch'' err), dk2)
                     | Some (None, dk2, b2) \<Rightarrow> reconcile_passes n sv rec children mws b2 dk2)))"

definition reconcileBatch :: "services \<Rightarrow> strategy \<Rightarrow> (string \<times> account) list \<Rightarrow> middleware list \<Rightarrow> batch \<Rightarrow> desk phase" where
  "reconcileBatch sv st children mws b =
     (case st_Reconcile st of None \<Rightarrow> finish
      | Some rec \<Rightarrow> reconcile_passes maxReconcilePasses sv rec children mws b)"

section \<open>A strategy firing\<close>

definition compute_and_trade :: "services \<Rightarrow> strategy \<Rightarrow> (string \<times> account) list \<Rightarrow> middleware list \<Rightarrow> gotime \<Rightarrow> desk phase" where
  "compute_and_trade sv st children mws fireTime = (\<lambda>dk.
     case st_Compute st children dk (NewBatch fireTime) of
       (Some err, e, b) \<Rightarrow> Some (Some (Wrap ''engine: strategy compute'' err), dk\<lparr>dk_eng := e\<rparr>)
     | (None, e, b) \<Rightarrow>
         (case prefetchBrokerPrices sv (b_Orders b) (dk\<lparr>dk_eng := e\<rparr>) of
            None \<Rightarrow> None
          | Some (Some err, dk1) \<Rightarrow> Some (Some (Wrap ''engine: prefetch broker prices'' err), dk1)
          | Some (None, dk1) \<Rightarrow>
              (case execute_batch mws b dk1 of
                 None \<Rightarrow> None
               | Some (Some err, dk2, b2) \<Rightarrow> Some (Some (Wrap ''engine: execute batch'' err), dk2)
               | Some (None, dk2, b2) \<Rightarrow> wrapped ''engine: reconcile batch'' (reconcileBatch sv st children mws b2) dk2)))"

definition cancel_open :: "desk \<Rightarrow> desk" where
  "cancel_open dk = (case CancelOpenOrders sim_ops (dk_acct dk, dk_brk dk) of (a, k) \<Rightarrow> dk\<lparr>dk_acct := a, dk_brk := k\<rparr>)"

definition parent_firing :: "services \<Rightarrow> strategy \<Rightarrow> (string \<times> account) list \<Rightarrow> middleware list \<Rightarrow> gotime \<Rightarrow> gotime \<Rightarrow> desk phase" where
  "parent_firing sv st children mws date fireTime =
     then_do (modify (\<lambda>dk. set_provider sv date (set_time fireTime dk)))
     (then_do (markIntradayPrices sv)
     (then_do (modify cancel_open) (compute_and_trade sv st children mws fireTime)))"

definition child_firing :: "services \<Rightarrow> strategy \<Rightarrow> middleware list \<Rightarrow> gotime \<Rightarrow> gotime \<Rightarrow> desk phase" where
  "child_firing sv st mws date fireTime =
     then_do (modify (\<lambda>dk. set_provider sv date (set_time fireTime dk)))
     (then_do (markIntradayPrices sv)
     (then_do (modify (\<lambda>dk. cancel_open (evaluate_pending dk))) (compute_and_trade sv st [] mws fireTime)))"

section \<open>Valuation\<close>

definition YieldToCumulative :: "services \<Rightarrow> f64 \<Rightarrow> f64 \<Rightarrow> f64" where
  "YieldToCumulative sv annualYieldPct prevCumulative =
     (if feq prevCumulative 0 then 100
      else if annualYieldPct \<le> 0 then prevCumulative
      else let dailyReturn = sv_pow sv (1 + annualYieldPct / 100) (1 / 252) - 1 in prevCumulative * (1 + dailyReturn))"

definition update_risk_free :: "services \<Rightarrow> gotime \<Rightarrow> asset \<Rightarrow> engine \<Rightarrow> engine option" where
  "update_risk_free sv date benchmark e =
     (if benchmark \<noteq> asset_zero \<and> e_riskFreeResolved e
      then case FetchAt sv [e_riskFreeAssetDGS e] date [MetricClose] e of
             (None, e1) \<Rightarrow> None
           | (Some (Inl err), e1) \<Rightarrow> Some e1
           | (Some (Inr df), e1) \<Rightarrow>
               let yield = df_Value df (e_riskFreeAssetDGS e) MetricClose in
               if \<not> isNaN yield \<and> yield > 0
               then Some (e1\<lparr>e_riskFreeCumulative := YieldToCumulative sv yield (e_riskFreeCumulative e1)\<rparr>)
               else if feq (e_riskFreeCumulative e1) 0 then Some (e1\<lparr>e_riskFreeCumulative := 100\<rparr>) else Some e1
      else Some e)"

definition record_prices :: "dataframe \<Rightarrow> desk \<Rightarrow> desk" where
  "record_prices df dk = dk\<lparr>dk_acct := UpdateExcursions df (UpdatePrices df (dk_acct dk))\<rparr>"

definition updateAccountPrices :: "services \<Rightarrow> gotime \<Rightarrow> asset \<Rightarrow> desk phase" where
  "updateAccountPrices sv date benchmark = (\<lambda>dk.
     case update_risk_free sv date benchmark (dk_eng dk) of None \<Rightarrow> None
     | Some e \<Rightarrow>
         let assets = price_assets benchmark (dk_acct dk);
             dk1 = dk\<lparr>dk_eng := e, dk_acct := SetRiskFreeValue (e_riskFreeCumulative e) (dk_acct dk)\<rparr>
         in if assets \<noteq> []
            then fetching sv assets date [MetricClose, AdjClose, MetricHigh, MetricLow] (\<lambda>df. modify (record_prices df)) dk1
            else case NewDataFrame [date] [] [] Daily [] of
                   Inl err \<Rightarrow> Some (Some (Wrap ''engine: cash-only DataFrame'' err), dk1)
                 | Inr df \<Rightarrow> Some (None, record_prices df dk1))"

section \<open>The step loop\<close>

record program =
  pg_services :: services
  pg_strategy :: strategy
  pg_middleware :: "middleware list"
  pg_children :: "(string, strategy) gomap"

record seat =
  se_acct :: account
  se_brk :: simBroker

record world =
  w_eng :: engine
  w_parent :: seat
  w_children :: "(string, seat) gomap"

record backtestStep =
  bs_date :: gotime
  bs_parentFirings :: "gotime list"
  bs_childFirings :: "(string \<times> gotime list) list"

definition child_accounts :: "world \<Rightarrow> (string \<times> account) list" where
  "child_accounts w = map (\<lambda>(n, s). (n, se_acct s)) (w_children w)"

text \<open>Run a phase at the parent's desk, or at the desk of a child.\<close>

definition at_parent :: "((string \<times> account) list \<Rightarrow> desk phase) \<Rightarrow> world phase" where
  "at_parent f = (\<lambda>w.
     map_option (\<lambda>(e, dk). (e, w\<lparr>w_eng := dk_eng dk, w_parent := \<lparr>se_acct = dk_acct dk, se_brk = dk_brk dk\<rparr>\<rparr>))
       (f (child_accounts w) \<lparr>dk_eng = w_eng w, dk_acct = se_acct (w_parent w), dk_brk = se_brk (w_parent w)\<rparr>))"

definition at_child :: "string \<Rightarrow> desk phase \<Rightarrow> world phase" where
  "at_child name f = (\<lambda>w.
     case map_of (w_children w) name of None \<Rightarrow> panic w
     | Some s \<Rightarrow>
         map_option (\<lambda>(e, dk). (e, w\<lparr>w_eng := dk_eng dk, w_children := mput name \<lparr>se_acct = dk_acct dk, se_brk = dk_brk dk\<rparr> (w_children w)\<rparr>))
           (f \<lparr>dk_eng = w_eng w, dk_acct = se_acct s, dk_brk = se_brk s\<rparr>))"

definition set_clock :: "gotime \<Rightarrow> world \<Rightarrow> world" where
  "set_clock date w = w\<lparr>w_eng := (w_eng w)\<lparr>e_currentDate := date, e_currentTime := date\<rparr>\<rparr>"

definition reset_time :: "gotime \<Rightarrow> world \<Rightarrow> world" where
  "reset_time date w = w\<lparr>w_eng := (w_eng w)\<lparr>e_currentTime := date\<rparr>\<rparr>"

definition evict :: "services \<Rightarrow> gotime \<Rightarrow> world \<Rightarrow> world" where
  "evict sv date w = w\<lparr>w_eng := (w_eng w)\<lparr>e_cache := map_option (evictBefore nyc date) (e_cache (w_eng w))\<rparr>\<rparr>"

definition open_day :: "program \<Rightarrow> gotime \<Rightarrow> world phase" where
  "open_day p date = (let sv = pg_services p in
     then_do (at_parent (\<lambda>_. modify (\<lambda>dk. evaluate_pending (set_fetcher sv (set_provider sv date dk)))))
     (at_parent (\<lambda>cs dk.
        then_do (wrapped ''engine: prefetch housekeeping prices'' (prefetchHousekeepingPrices sv date (e_benchmark (dk_eng dk))))
        (then_do housekeepAccount
        (then_do (setMarginPrices sv date)
           (wrapped ''engine: margin call'' (checkAndHandleMarginCall (pg_strategy p) cs (pg_middleware p) date)))) dk)))"

definition run_children :: "program \<Rightarrow> gotime \<Rightarrow> (string \<times> gotime list) list \<Rightarrow> world phase" where
  "run_children p date firings =
     for_each (\<lambda>(name, times).
        case map_of (pg_children p) name of None \<Rightarrow> panic
        | Some st \<Rightarrow> then_do (at_child name (for_each (child_firing (pg_services p) st [] date) times)) (modify (reset_time date))) firings"

definition run_parent :: "program \<Rightarrow> gotime \<Rightarrow> gotime list \<Rightarrow> world phase" where
  "run_parent p date firings =
     (if firings = [] then finish
      else then_do (at_parent (\<lambda>cs. for_each (parent_firing (pg_services p) (pg_strategy p) cs (pg_middleware p) date) firings))
             (modify (reset_time date)))"

definition close_child :: "program \<Rightarrow> gotime \<Rightarrow> string \<Rightarrow> world phase" where
  "close_child p date name = (let sv = pg_services p in
     wrapped ''engine: child'' (at_child name
       (then_do (modify (set_provider sv date))
       (then_do (prefetchHousekeepingPrices sv date asset_zero)
       (then_do housekeepAccount (updateAccountPrices sv date asset_zero))))))"

definition close_day :: "program \<Rightarrow> gotime \<Rightarrow> world phase" where
  "close_day p date = (let sv = pg_services p in
     then_do (at_parent (\<lambda>_ dk. updateAccountPrices sv date (e_benchmark (dk_eng dk)) dk))
     (then_do (\<lambda>w. for_each (close_child p date) (mkeys (w_children w)) w) (modify (evict sv date))))"

definition backtest_step :: "program \<Rightarrow> backtestStep \<Rightarrow> world phase" where
  "backtest_step p step =
     then_do (modify (set_clock (bs_date step)))
     (then_do (open_day p (bs_date step))
     (then_do (run_children p (bs_date step) (bs_childFirings step))
     (then_do (run_parent p (bs_date step) (bs_parentFirings step)) (close_day p (bs_date step)))))"

definition run_steps :: "program \<Rightarrow> backtestStep list \<Rightarrow> world phase" where
  "run_steps p = for_each (backtest_step p)"

end
