(* ===== verification/EngineSound.thy ===== *)
theory EngineSound
  imports EngineLoop
begin

text \<open>
  The backtest loop returns, and keeps every account consistent: phases and their composition
  keep an invariant (\<open>keeps\<close>), the phases of a desk keep the books of its account, the broker
  and the engine's cache consistent (\<open>desk_ok\<close>), and so do the steps of a whole backtest
  (\<open>world_ok\<close>), for every strategy, middleware and provider that keeps to its interface.
\<close>

section \<open>Phases that keep an invariant\<close>

definition keeps :: "('s \<Rightarrow> bool) \<Rightarrow> 's phase \<Rightarrow> bool" where
  "keeps I f \<longleftrightarrow> (\<forall>s. I s \<longrightarrow> (\<exists>e s'. f s = Some (e, s') \<and> I s'))"

named_theorems keeps_intro \<open>phases and their composition keep the invariant\<close>

lemma keepsI: "(\<And>s. I s \<Longrightarrow> \<exists>e s'. f s = Some (e, s') \<and> I s') \<Longrightarrow> keeps I f"
  by (simp add: keeps_def)

lemma keepsD: "keeps I f \<Longrightarrow> I s \<Longrightarrow> \<exists>e s'. f s = Some (e, s') \<and> I s'"
  by (simp add: keeps_def)

lemma keeps_finish [keeps_intro]: "keeps I finish"
  by (simp add: keeps_def finish_def)

lemma keeps_modify [keeps_intro]: "(\<And>s. I s \<Longrightarrow> I (f s)) \<Longrightarrow> keeps I (modify f)"
  by (simp add: keeps_def modify_def)

lemma keeps_then_do [keeps_intro]: "keeps I f \<Longrightarrow> keeps I g \<Longrightarrow> keeps I (then_do f g)"
  unfolding keeps_def then_do_def by (fastforce split: option.split)

lemma keeps_wrapped [keeps_intro]: "keeps I f \<Longrightarrow> keeps I (wrapped msg f)"
  unfolding keeps_def wrapped_def by fastforce

lemma keeps_for_each [keeps_intro]: "(\<And>x. x \<in> set xs \<Longrightarrow> keeps I (f x)) \<Longrightarrow> keeps I (for_each f xs)"
  by (induction xs) (simp_all add: keeps_finish keeps_then_do)

section \<open>Broker activity\<close>

definition activity_ok :: "account \<Rightarrow> brokerTransaction \<Rightarrow> bool" where
  "activity_ok a bt \<longleftrightarrow> bt_Type bt \<noteq> BuyTransaction
     \<and> (bt_Type bt = SellTransaction \<longrightarrow> bt_Qty bt = Position a (bt_Asset bt))
     \<and> (bt_Type bt = SplitTransaction \<longrightarrow> fin (bt_Price bt) \<and> nn (bt_Price bt))"

lemma SyncTransactions_step:
  assumes "books_ok a" "activity_ok a bt"
  shows "(\<exists>e. SyncTransactions (bt # bts) a = (Some e, a)) \<or>
    (\<exists>b. SyncTransactions (bt # bts) a = SyncTransactions bts b \<and> books_ok b \<and> (\<forall>x. x \<noteq> bt_Asset bt \<longrightarrow> Position b x = Position a x))"
proof -
  have "books_ok (Record (broker_to_txn bt) a)" if "bt_Type bt \<noteq> SplitTransaction"
    using assms that by (intro Record_books_ok) (auto simp: txn_ok_def activity_ok_def Position_def)
  moreover have "Position (Record (broker_to_txn bt) a) x = Position a x" if "x \<noteq> bt_Asset bt" for x
    using Record_effect [of "broker_to_txn bt" a x] that by simp
  moreover have "books_ok (b\<lparr>a_seenTransactions := ids\<rparr>) \<and> (\<forall>x. x \<noteq> bt_Asset bt \<longrightarrow> Position b x = Position a x)"
    if t: "bt_Type bt = SplitTransaction" and s: "ApplySplit (bt_Asset bt) (bt_Date bt) (bt_Price bt) a = Inr b" for b ids
  proof -
    have "books_ok b" using ApplySplit_books_ok [OF assms(1) _ _ s] assms(2) t by (simp add: activity_ok_def)
    then show ?thesis using ApplySplit_Inr [OF s] by (auto simp: Position_def mget_def intro: books_ok_frame [rotated])
  qed
  moreover have "Position (b\<lparr>a_seenTransactions := ids\<rparr>) x = Position b x" for b ids x by (simp add: Position_def)
  ultimately show ?thesis using assms(1) by (cases "bt_ID bt \<in> set (a_seenTransactions a)"; cases "bt_Type bt = SplitTransaction")
      (auto split: sum.split)
qed

text \<open>Transactions of one asset that are not trades, in any number, or a single closing sale.\<close>

lemma SyncTransactions_asset:
  assumes "books_ok a" "\<forall>bt\<in>set bts. bt_Asset bt = ast \<and> activity_ok a bt" "bts = [bt] \<or> (\<forall>bt\<in>set bts. bt_Type bt \<noteq> SellTransaction)"
  shows "(\<exists>e b. SyncTransactions (bts @ rest) a = (Some e, b) \<and> books_ok b) \<or>
    (\<exists>b. SyncTransactions (bts @ rest) a = SyncTransactions rest b \<and> books_ok b \<and> (\<forall>x. x \<noteq> ast \<longrightarrow> Position b x = Position a x))"
  using assms
proof (induction bts arbitrary: a)
  case (Cons t bts)
  have t: "bt_Asset t = ast" "activity_ok a t" using Cons.prems(2) by simp_all
  from SyncTransactions_step [OF Cons.prems(1) t(2), of "bts @ rest"] t(1)
  consider e where "SyncTransactions ((t # bts) @ rest) a = (Some e, a)"
    | b where "SyncTransactions ((t # bts) @ rest) a = SyncTransactions (bts @ rest) b" "books_ok b" "\<forall>x. x \<noteq> ast \<longrightarrow> Position b x = Position a x"
    by auto
  then show ?case
  proof cases
    case 1
    then show ?thesis using Cons.prems(1) by blast
  next
    case 2
    have ns: "\<forall>bt\<in>set bts. bt_Type bt \<noteq> SellTransaction" using Cons.prems(3) by auto
    then have "\<forall>bt\<in>set bts. bt_Asset bt = ast \<and> activity_ok b bt" using Cons.prems(2) by (auto simp: activity_ok_def)
    from Cons.IH [OF 2(2) this] ns 2(1,3) show ?thesis by fastforce
  qed
qed auto

lemma activity_shape:
  assumes "isNaN (df_ValueAt df ast SplitFactor (sb_date k)) \<or> fin (df_ValueAt df ast SplitFactor (sb_date k)) \<and> nn (df_ValueAt df ast SplitFactor (sb_date k))"
    and "activity df port k ast = (bts, k')"
  shows "(\<forall>bt\<in>set bts. bt_Asset bt = ast \<and> activity_ok port bt) \<and> ((\<exists>bt. bts = [bt]) \<or> (\<forall>bt\<in>set bts. bt_Type bt \<noteq> SellTransaction))"
    and "\<exists>l. k' = k\<lparr>sb_lastPrices := l\<rparr>"
proof -
  show "(\<forall>bt\<in>set bts. bt_Asset bt = ast \<and> activity_ok port bt) \<and> ((\<exists>bt. bts = [bt]) \<or> (\<forall>bt\<in>set bts. bt_Type bt \<noteq> SellTransaction))"
    using assms by (auto simp: activity_def Let_def activity_ok_def delist_txn_def bt_zero_def split: if_splits option.splits)
  have "k' = k\<lparr>sb_lastPrices := sb_lastPrices k'\<rparr>"
    using assms(2) by (auto simp: activity_def Let_def split: if_splits option.splits)
  then show "\<exists>l. k' = k\<lparr>sb_lastPrices := l\<rparr>" ..
qed

lemma activity_loop_sync:
  assumes "\<And>x t. isNaN (df_ValueAt df x SplitFactor t) \<or> fin (df_ValueAt df x SplitFactor t) \<and> nn (df_ValueAt df x SplitFactor t)"
    and "books_ok a" "broker_ok k" "distinct asts" "\<forall>x\<in>set asts. Position a x = Position port x" "activity_loop df port asts k = (bts, k')"
  shows "books_ok (snd (SyncTransactions bts a)) \<and> broker_ok k'"
  using assms(2-)
proof (induction asts arbitrary: a k bts)
  case (Cons ast asts)
  obtain t1 k1 where act: "activity df port k ast = (t1, k1)" by fastforce
  obtain rest where loop: "activity_loop df port asts k1 = (rest, k')" and eq: "bts = t1 @ rest"
    using Cons.prems(5) act by (auto split: prod.splits)
  note sh = activity_shape [OF assms(1) act]
  have k1: "broker_ok k1" using sh(2) Cons.prems(2) broker_ok_frame(2) by auto
  have ok: "\<forall>bt\<in>set t1. bt_Asset bt = ast \<and> activity_ok a bt"
    using sh(1) Cons.prems(4) by (auto simp: activity_ok_def)
  from sh(1) obtain bt where one: "t1 = [bt] \<or> (\<forall>bt\<in>set t1. bt_Type bt \<noteq> SellTransaction)" by blast
  from SyncTransactions_asset [OF Cons.prems(1) ok one, of rest]
  consider e b where "SyncTransactions (t1 @ rest) a = (Some e, b)" "books_ok b"
    | b where "SyncTransactions (t1 @ rest) a = SyncTransactions rest b" "books_ok b" "\<forall>x. x \<noteq> ast \<longrightarrow> Position b x = Position a x"
    by blast
  then show ?case
  proof cases
    case 1
    have "broker_ok k'" using Cons.IH [OF Cons.prems(1) k1 _ _ loop] Cons.prems(3,4) by simp
    then show ?thesis using 1 eq by simp
  next
    case 2
    have "\<forall>x\<in>set asts. Position b x = Position port x" using 2(3) Cons.prems(3,4) by auto
    then show ?thesis using Cons.IH [OF 2(2) k1 _ _ loop] Cons.prems(3) 2(1) eq by simp
  qed
qed simp

lemma mwf_Holdings: "mwf (a_holdings a) \<Longrightarrow> mwf (Holdings a)"
proof -
  have "mwf (foldl (\<lambda>logical (realAsset, qty). let key = mapToLogical realAsset s t
      in mput key (mget 0 logical key + qty) logical) m es)" if "mwf m" for s t and m es :: "(asset \<times> f64) list"
    using that by (induction es arbitrary: m) (auto simp: Let_def)
  then show "mwf (a_holdings a) \<Longrightarrow> mwf (Holdings a)" by (simp add: Holdings_def Let_def)
qed

lemma sync_ok:
  assumes "books_ok a" "broker_ok k" "sim_Transactions a k = (r, k')"
  shows "broker_ok k' \<and> (\<forall>bts. r = Inr bts \<longrightarrow> books_ok (snd (SyncTransactions bts a)))"
proof -
  have d: "distinct (mkeys (Holdings a))" using assms(1) mwf_Holdings by (simp add: books_ok_def)
  have "books_ok (snd (SyncTransactions bts a)) \<and> broker_ok k1"
    if p: "sb_prices k = Some p" and df: "p (mkeys (Holdings a)) = Inr df"
      and l: "activity_loop df a (mkeys (Holdings a)) k = (bts, k1)" for p df bts k1
  proof (rule activity_loop_sync [OF _ assms(1,2) d _ l])
    show "isNaN (df_ValueAt df x SplitFactor t) \<or> fin (df_ValueAt df x SplitFactor t) \<and> nn (df_ValueAt df x SplitFactor t)" for x t
      using assms(2) p df by (auto simp: broker_ok_def provider_ok_def)
  qed simp
  then show ?thesis using assms by (auto simp: sim_Transactions_def Let_def split: option.splits if_splits sum.splits prod.splits)
qed

section \<open>Desks\<close>

definition desk_ok :: "services \<Rightarrow> quotes \<Rightarrow> desk \<Rightarrow> bool" where
  "desk_ok sv q dk \<longleftrightarrow> engine_ok sv q (dk_eng dk) \<and> books_ok (dk_acct dk) \<and> broker_ok (dk_brk dk)"

text \<open>
  What a strategy may do: leave the engine's data as the providers quote it, and never shrink
  the batch or order a negative quantity.
\<close>

definition strategy_call_ok :: "services \<Rightarrow> quotes \<Rightarrow> strategy_call \<Rightarrow> bool" where
  "strategy_call_ok sv q f \<longleftrightarrow> (\<forall>cs dk b err e b'. desk_ok sv q dk \<longrightarrow> batch_ok b \<longrightarrow> f cs dk b = (err, e, b') \<longrightarrow>
     engine_ok sv q e \<and> batch_ok b' \<and> length (b_Orders b) \<le> length (b_Orders b'))"

definition strategy_ok :: "services \<Rightarrow> quotes \<Rightarrow> strategy \<Rightarrow> bool" where
  "strategy_ok sv q st \<longleftrightarrow> strategy_call_ok sv q (st_Compute st) \<and> pred_option (strategy_call_ok sv q) (st_Reconcile st)
     \<and> pred_option (strategy_call_ok sv q) (st_OnMarginCall st)"

lemma desk_ok_eng: "desk_ok sv q dk \<Longrightarrow> engine_ok sv q e \<Longrightarrow> desk_ok sv q (dk\<lparr>dk_eng := e\<rparr>)"
  by (simp add: desk_ok_def)

lemma desk_ok_acct: "desk_ok sv q dk \<Longrightarrow> books a = books (dk_acct dk) \<Longrightarrow> desk_ok sv q (dk\<lparr>dk_acct := a\<rparr>)"
  using books_ok_frame by (simp add: desk_ok_def)

lemma set_time_ok: "desk_ok sv q dk \<Longrightarrow> desk_ok sv q (set_time t dk)"
  by (simp add: desk_ok_def set_time_def engine_ok_clock)

lemma provider_ok_engine:
  assumes "services_ok sv q" "engine_ok sv q e"
  shows "provider_ok (broker_prices sv e)"
  unfolding provider_ok_def
proof (intro allI impI)
  fix xs df
  assume p: "broker_prices sv e xs = Inr df"
  obtain r e' where r: "engine_Prices sv xs e = (r, e')" by fastforce
  then have "r = Some (Inr df)" using p by (auto simp: broker_prices_def split: option.splits)
  then have "entries_ok df" using engine_Prices_ok [OF assms r] by simp
  then show "frame_nn df \<and> (\<forall>a t. isNaN (df_ValueAt df a SplitFactor t) \<or> fin (df_ValueAt df a SplitFactor t) \<and> nn (df_ValueAt df a SplitFactor t))"
    using entries_frame_nn by blast
qed

lemma set_provider_ok: "services_ok sv q \<Longrightarrow> desk_ok sv q dk \<Longrightarrow> desk_ok sv q (set_provider sv t dk)"
  using provider_ok_engine by (simp add: desk_ok_def set_provider_def SetPriceProvider_def broker_ok_def)

lemma fetcher_nn:
  assumes "services_ok sv q" "engine_ok sv q e" "broker_fetcher sv e a t = Some df"
  shows "frame_nn df"
proof -
  let ?ms = "[MetricHigh, MetricLow, MetricClose, Volume]"
  obtain r e' where r: "FetchAt sv [a] t ?ms e = (r, e')" by fastforce
  then have "r = Some (Inr df)" using assms(3) by (auto simp: broker_fetcher_def split: option.splits sum.splits)
  then have "quoted_row q [a] ?ms (capDailyRangeEnd sv e t) df" using FetchAt_spec [OF assms(1,2) r] by auto
  moreover have "set ?ms \<subseteq> set market_metrics" by (auto simp: market_metrics_def)
  ultimately show ?thesis using assms(1) quoted_row_entries entries_frame_nn(1) unfolding services_ok_def by blast
qed

lemma set_fetcher_ok: "services_ok sv q \<Longrightarrow> desk_ok sv q dk \<Longrightarrow> desk_ok sv q (set_fetcher sv dk)"
  using fetcher_nn [of sv q "dk_eng dk"]
  by (auto simp: desk_ok_def set_fetcher_def sb_SetDataFetcher_def broker_ok_def pipe_ok_def pipeline_SetDataFetcher_def split: base_model.splits)

lemma evaluate_pending_ok: "desk_ok sv q dk \<Longrightarrow> desk_ok sv q (evaluate_pending dk)"
  by (simp add: desk_ok_def evaluate_pending_def EvaluatePending_ok)

lemma cancel_open_ok: "desk_ok sv q dk \<Longrightarrow> desk_ok sv q (cancel_open dk)"
proof -
  assume ok: "desk_ok sv q dk"
  have f: "broker_ok (fold (\<lambda>(oid, _) k. snd (sim_Cancel oid k)) xs k)" if "broker_ok k" for xs :: "(string \<times> order) list" and k
    using that by (induction xs arbitrary: k) (auto simp: sim_Cancel_ok)
  show ?thesis using ok f by (auto simp: desk_ok_def cancel_open_def CancelOpenOrders_def Let_def intro: books_ok_frame [rotated])
qed

lemma keeps_fetching [keeps_intro]:
  assumes "services_ok sv q" "\<And>df. keeps (desk_ok sv q) (k df)"
  shows "keeps (desk_ok sv q) (fetching sv as t ms k)"
proof (rule keepsI)
  fix dk assume ok: "desk_ok sv q dk"
  obtain r e where f: "FetchAt sv as t ms (dk_eng dk) = (r, e)" by fastforce
  have S: "engine_ok sv q e" "(\<exists>err. r = Some (Inl err)) \<or> (\<exists>df. r = Some (Inr df))"
    using FetchAt_spec [OF assms(1) _ f] ok by (auto simp: desk_ok_def)
  have "desk_ok sv q (dk\<lparr>dk_eng := e\<rparr>)" using ok S(1) by (rule desk_ok_eng)
  then show "\<exists>er dk'. fetching sv as t ms k dk = Some (er, dk') \<and> desk_ok sv q dk'"
    using S(2) keepsD [OF assms(2)] f by (auto simp: fetching_def)
qed

lemma keeps_prefetchHousekeepingPrices [keeps_intro]:
  "services_ok sv q \<Longrightarrow> keeps (desk_ok sv q) (prefetchHousekeepingPrices sv t bm)"
  unfolding prefetchHousekeepingPrices_def
  by (rule keepsI) (simp add: keepsD [OF keeps_finish] keepsD [OF keeps_fetching] keeps_finish)

lemma keeps_drain_fills [keeps_intro]: "keeps (desk_ok sv q) drain_fills"
proof (rule keepsI)
  fix dk assume "desk_ok sv q dk"
  then show "\<exists>e dk'. drain_fills dk = Some (e, dk') \<and> desk_ok sv q dk'"
    using drainFills_ok [of "dk_acct dk" "dk_brk dk" None] by (auto simp: drain_fills_def desk_ok_def finish_def)
qed

lemma keeps_sync_broker [keeps_intro]: "keeps (desk_ok sv q) sync_broker"
proof (rule keepsI)
  fix dk assume ok: "desk_ok sv q dk"
  obtain r k where t: "sim_Transactions (dk_acct dk) (dk_brk dk) = (r, k)" by fastforce
  have "broker_ok k" "\<And>bts. r = Inr bts \<Longrightarrow> books_ok (snd (SyncTransactions bts (dk_acct dk)))"
    using sync_ok [OF _ _ t] ok by (auto simp: desk_ok_def)
  then show "\<exists>e dk'. sync_broker dk = Some (e, dk') \<and> desk_ok sv q dk'"
    using ok t by (cases r) (auto simp: sync_broker_def desk_ok_def split: prod.split)
qed

lemma keeps_housekeepAccount [keeps_intro]: "keeps (desk_ok sv q) housekeepAccount"
  unfolding housekeepAccount_def by (intro keeps_intro)

lemma SetPrices_books [simp]: "books (SetPrices pr a) = books a"
  by (auto simp: SetPrices_def split: option.split)

lemma keeps_setMarginPrices [keeps_intro]: "services_ok sv q \<Longrightarrow> keeps (desk_ok sv q) (setMarginPrices sv t)"
  unfolding setMarginPrices_def
  by (rule keepsI) (simp add: keepsD [OF keeps_finish] keepsD [OF keeps_fetching] keeps_modify desk_ok_acct)

lemma execute_batch_ok:
  assumes "list_all middleware_ok mws" "desk_ok sv q dk" "batch_ok b"
  shows "\<exists>e dk' b'. execute_batch mws b dk = Some (e, dk', b') \<and> desk_ok sv q dk' \<and> batch_ok b'"
  using ExecuteBatch_ok [OF assms(1) _ _ assms(3), of "dk_acct dk" "dk_brk dk"] assms(2)
  by (fastforce simp: execute_batch_def desk_ok_def)

lemma nn_excess: "x / y > m \<Longrightarrow> \<not> y \<le> 0 \<Longrightarrow> m > 0 \<Longrightarrow> nn (x - m * y)" for x y m :: f64
  by (cases x; cases y; cases m) (auto simp: divide_simps minus_f64_def split: if_splits)

lemma MarginDeficiency_nn: "nn (MarginDeficiency a)"
  using nn_excess [of "GrossMaintenanceLeverage a" "LongMarketValue a + ShortMarketValue a" "Equity a"] nn_pos
  by (auto simp: MarginDeficiency_def Let_def)

lemma autoLiquidate_orders_nn: "list_all (\<lambda>ord. nn (o_Qty ord)) (autoLiquidate_orders a)"
proof -
  have o: "nn (o_Qty ord)" if "liquidation_order f e = Some ord" "nn f" for f e ord
    using that by (auto simp: liquidation_order_def Let_def nn_ceil nn_times split: if_splits prod.splits)
  have "nn (MarginDeficiency a / gross)" if "\<not> gross \<le> 0" for gross :: f64
    using that by (intro nn_divide MarginDeficiency_nn) (cases gross; simp)
  then show ?thesis using o
    by (auto simp: autoLiquidate_orders_def Let_def list_all_iff List.map_filter_def simp del: zero_f64_Fin)
qed

lemma keeps_autoLiquidate [keeps_intro]:
  assumes "list_all middleware_ok mws"
  shows "keeps (desk_ok sv q) (autoLiquidate mws t)"
proof (rule keepsI)
  fix dk assume "desk_ok sv q dk"
  then show "\<exists>e dk'. autoLiquidate mws t dk = Some (e, dk') \<and> desk_ok sv q dk'"
    using execute_batch_ok [OF assms, of sv q dk "(NewBatch t)\<lparr>b_SkipMiddleware := True, b_Orders := autoLiquidate_orders (dk_acct dk)\<rparr>"]
      autoLiquidate_orders_nn [of "dk_acct dk"]
    by (auto simp: autoLiquidate_def finish_def batch_ok_def)
qed

lemma strategy_call_okD:
  assumes "strategy_call_ok sv q f" "desk_ok sv q dk" "batch_ok b" "f cs dk b = (err, e, b')"
  shows "desk_ok sv q (dk\<lparr>dk_eng := e\<rparr>)" "batch_ok b'" "length (b_Orders b) \<le> length (b_Orders b')"
  using assms desk_ok_eng unfolding strategy_call_ok_def by blast+

lemma NewBatch_ok: "batch_ok (NewBatch t)" "batch_ok ((NewBatch t)\<lparr>b_SkipMiddleware := s\<rparr>)"
  by (simp_all add: batch_ok_def NewBatch_def)

lemma keeps_checkAndHandleMarginCall [keeps_intro]:
  assumes st: "strategy_ok sv q st" and mws: "list_all middleware_ok mws"
  shows "keeps (desk_ok sv q) (checkAndHandleMarginCall st cs mws t)"
proof (rule keepsI)
  fix dk assume ok: "desk_ok sv q dk"
  note liq = keepsD [OF keeps_autoLiquidate [OF mws]]
  let ?b = "(NewBatch t)\<lparr>b_SkipMiddleware := True\<rparr>"
  show "\<exists>e dk'. checkAndHandleMarginCall st cs mws t dk = Some (e, dk') \<and> desk_ok sv q dk'"
  proof (cases "st_OnMarginCall st")
    case None
    then show ?thesis using ok liq by (simp add: checkAndHandleMarginCall_def finish_def)
  next
    case (Some handler)
    obtain err e b where h: "handler cs dk ?b = (err, e, b)" using prod_cases3 by blast
    have hok: "strategy_call_ok sv q handler" using st Some by (simp add: strategy_ok_def)
    note H = strategy_call_okD [OF hok ok NewBatch_ok(2) h]
    obtain er dk1 b1 where x: "execute_batch mws b (dk\<lparr>dk_eng := e\<rparr>) = Some (er, dk1, b1)" "desk_ok sv q dk1"
      using execute_batch_ok [OF mws H(1,2)] by blast
    show ?thesis using ok H(1) x liq [OF x(2)] h Some
      by (cases err; cases er) (auto simp: checkAndHandleMarginCall_def finish_def)
  qed
qed

lemma keeps_prefetchBrokerPrices [keeps_intro]:
  assumes "services_ok sv q"
  shows "keeps (desk_ok sv q) (prefetchBrokerPrices sv ords)"
proof (rule keepsI)
  fix dk assume ok: "desk_ok sv q dk"
  obtain r e where p: "engine_Prices sv (unique_assets ords) (dk_eng dk) = (r, e)" by fastforce
  have P: "engine_ok sv q e" "r \<noteq> None" using engine_Prices_ok [OF assms _ p] ok by (auto simp: desk_ok_def)
  have "desk_ok sv q (dk\<lparr>dk_eng := e\<rparr>)" using desk_ok_eng [OF ok P(1)] .
  then show "\<exists>er dk'. prefetchBrokerPrices sv ords dk = Some (er, dk') \<and> desk_ok sv q dk'"
    using ok P(2) p by (cases r) (auto simp: prefetchBrokerPrices_def finish_def split: sum.split)
qed

lemma keeps_markIntradayPrices [keeps_intro]: "keeps (desk_ok sv q) (markIntradayPrices sv)"
  by (rule keepsI) (auto simp: markIntradayPrices_def Let_def finish_def desk_ok_acct split: sum.split)

lemma reconcile_passes_ok:
  assumes sv: "services_ok sv q" and st: "strategy_call_ok sv q rec" and mws: "list_all middleware_ok mws"
  shows "desk_ok sv q dk \<Longrightarrow> batch_ok b \<Longrightarrow> \<exists>e dk'. reconcile_passes n sv rec cs mws b dk = Some (e, dk') \<and> desk_ok sv q dk'"
proof (induction n arbitrary: b dk)
  case (Suc n)
  obtain err e b1 where r: "rec cs dk b = (err, e, b1)" using prod_cases3 by blast
  note R = strategy_call_okD [OF st Suc.prems r]
  obtain er dk1 where p: "prefetchBrokerPrices sv (drop (length (b_Orders b)) (b_Orders b1)) (dk\<lparr>dk_eng := e\<rparr>) = Some (er, dk1)" "desk_ok sv q dk1"
    using keepsD [OF keeps_prefetchBrokerPrices [OF sv] R(1)] by blast
  obtain er2 dk2 b2 where x: "execute_batch mws b1 dk1 = Some (er2, dk2, b2)" "desk_ok sv q dk2" "batch_ok b2"
    using execute_batch_ok [OF mws p(2) R(2)] by blast
  show ?case using Suc.IH [OF x(2,3)] R(1,3) r p x by (cases err; cases er; cases er2) auto
qed simp

lemma reconcileBatch_ok:
  assumes "services_ok sv q" "strategy_ok sv q st" "list_all middleware_ok mws" "desk_ok sv q dk" "batch_ok b"
  shows "\<exists>e dk'. reconcileBatch sv st cs mws b dk = Some (e, dk') \<and> desk_ok sv q dk'"
  using reconcile_passes_ok [OF assms(1) _ assms(3-5)] assms(2,4)
  by (auto simp: reconcileBatch_def finish_def strategy_ok_def split: option.split)

lemma keeps_compute_and_trade [keeps_intro]:
  assumes sv: "services_ok sv q" and st: "strategy_ok sv q st" and mws: "list_all middleware_ok mws"
  shows "keeps (desk_ok sv q) (compute_and_trade sv st cs mws t)"
proof (rule keepsI)
  fix dk assume ok: "desk_ok sv q dk"
  obtain err e b where r: "st_Compute st cs dk (NewBatch t) = (err, e, b)" using prod_cases3 by blast
  have "strategy_call_ok sv q (st_Compute st)" using st by (simp add: strategy_ok_def)
  note R = strategy_call_okD [OF this ok NewBatch_ok(1) r]
  obtain er dk1 where p: "prefetchBrokerPrices sv (b_Orders b) (dk\<lparr>dk_eng := e\<rparr>) = Some (er, dk1)" "desk_ok sv q dk1"
    using keepsD [OF keeps_prefetchBrokerPrices [OF sv] R(1)] by blast
  obtain er2 dk2 b2 where x: "execute_batch mws b dk1 = Some (er2, dk2, b2)" "desk_ok sv q dk2" "batch_ok b2"
    using execute_batch_ok [OF mws p(2) R(2)] by blast
  show "\<exists>e dk'. compute_and_trade sv st cs mws t dk = Some (e, dk') \<and> desk_ok sv q dk'"
    using reconcileBatch_ok [OF sv st mws x(2,3), of cs] R(1) r p x
    by (cases err; cases er; cases er2) (auto simp: compute_and_trade_def wrapped_def)
qed

lemma keeps_parent_firing [keeps_intro]:
  "services_ok sv q \<Longrightarrow> strategy_ok sv q st \<Longrightarrow> list_all middleware_ok mws \<Longrightarrow> keeps (desk_ok sv q) (parent_firing sv st cs mws d t)"
  unfolding parent_firing_def by (intro keeps_intro set_provider_ok set_time_ok cancel_open_ok)

lemma keeps_child_firing [keeps_intro]:
  "services_ok sv q \<Longrightarrow> strategy_ok sv q st \<Longrightarrow> list_all middleware_ok mws \<Longrightarrow> keeps (desk_ok sv q) (child_firing sv st mws d t)"
  unfolding child_firing_def by (intro keeps_intro set_provider_ok set_time_ok cancel_open_ok evaluate_pending_ok)

lemma update_risk_free_ok:
  assumes "services_ok sv q" "engine_ok sv q e"
  shows "\<exists>e'. update_risk_free sv t bm e = Some e' \<and> engine_ok sv q e'"
proof -
  obtain r e1 where f: "FetchAt sv [e_riskFreeAssetDGS e] t [MetricClose] e = (r, e1)" by fastforce
  then show ?thesis using FetchAt_spec [OF assms f] assms(2) by (auto simp: update_risk_free_def Let_def engine_ok_clock)
qed

lemma UpdatePrices_books: "books (UpdatePrices df a) = books a"
proof -
  have ap: "books (appendPositionRow x mv qt n b) = books b" for x mv qt n b by (simp add: appendPositionRow_def Let_def books_def)
  have f: "books (fold step xs b) = books b" if "\<And>x b. books (step x b) = books b" for step :: "'x \<Rightarrow> account \<Rightarrow> account" and xs b
    using that by (induction xs arbitrary: b) simp_all
  show ?thesis by (auto simp: UpdatePrices_def Let_def ap held_rows_def closed_rows_def closed_row_def f split: sum.split)
qed

lemma record_prices_ok: "desk_ok sv q dk \<Longrightarrow> desk_ok sv q (record_prices df dk)"
  by (simp add: record_prices_def desk_ok_acct UpdateExcursions_def UpdatePrices_books)

lemma keeps_updateAccountPrices [keeps_intro]:
  assumes "services_ok sv q"
  shows "keeps (desk_ok sv q) (updateAccountPrices sv t bm)"
proof (rule keepsI)
  fix dk assume ok: "desk_ok sv q dk"
  obtain e where e: "update_risk_free sv t bm (dk_eng dk) = Some e" "engine_ok sv q e"
    using update_risk_free_ok [OF assms, of "dk_eng dk"] ok by (auto simp: desk_ok_def)
  have "books (SetRiskFreeValue v (dk_acct dk)) = books (dk_acct dk)" for v by (simp add: SetRiskFreeValue_def)
  then have dk1: "desk_ok sv q (dk\<lparr>dk_eng := e, dk_acct := SetRiskFreeValue v (dk_acct dk)\<rparr>)" for v
    using ok e(2) books_ok_frame by (simp add: desk_ok_def)
  have "keeps (desk_ok sv q) (fetching sv as t ms (\<lambda>df. modify (record_prices df)))" for as ms
    by (intro keeps_intro assms record_prices_ok)
  from keepsD [OF this dk1] dk1 e(1) record_prices_ok [OF dk1]
  show "\<exists>er dk'. updateAccountPrices sv t bm dk = Some (er, dk') \<and> desk_ok sv q dk'"
    by (auto simp: updateAccountPrices_def Let_def split: sum.split)
qed

section \<open>Worlds\<close>

definition seat_ok :: "seat \<Rightarrow> bool" where
  "seat_ok s \<longleftrightarrow> books_ok (se_acct s) \<and> broker_ok (se_brk s)"

definition world_ok :: "program \<Rightarrow> quotes \<Rightarrow> world \<Rightarrow> bool" where
  "world_ok p q w \<longleftrightarrow> engine_ok (pg_services p) q (w_eng w) \<and> seat_ok (w_parent w)
     \<and> (\<forall>n s. map_of (w_children w) n = Some s \<longrightarrow> seat_ok s) \<and> (\<forall>n. mhas (w_children w) n = mhas (pg_children p) n)"

definition program_ok :: "program \<Rightarrow> quotes \<Rightarrow> bool" where
  "program_ok p q \<longleftrightarrow> services_ok (pg_services p) q \<and> strategy_ok (pg_services p) q (pg_strategy p)
     \<and> list_all middleware_ok (pg_middleware p) \<and> list_all (\<lambda>(n, st). strategy_ok (pg_services p) q st) (pg_children p)"

text \<open>Only the children of the program are scheduled.\<close>

definition step_ok :: "program \<Rightarrow> backtestStep \<Rightarrow> bool" where
  "step_ok p step \<longleftrightarrow> list_all (\<lambda>(n, ts). mhas (pg_children p) n) (bs_childFirings step)"

lemma lookup_key: "mhas m k \<Longrightarrow> \<exists>v. map_of m k = Some v"
  by (simp add: mhas_def)

lemma keeps_at_parent [keeps_intro]:
  assumes "\<And>cs. keeps (desk_ok (pg_services p) q) (f cs)"
  shows "keeps (world_ok p q) (at_parent f)"
proof (rule keepsI)
  fix w assume w: "world_ok p q w"
  then have "desk_ok (pg_services p) q \<lparr>dk_eng = w_eng w, dk_acct = se_acct (w_parent w), dk_brk = se_brk (w_parent w)\<rparr>"
    by (simp add: world_ok_def seat_ok_def desk_ok_def)
  from keepsD [OF assms this] obtain e dk where f: "f (child_accounts w) \<lparr>dk_eng = w_eng w, dk_acct = se_acct (w_parent w), dk_brk = se_brk (w_parent w)\<rparr> = Some (e, dk)"
    and ok: "desk_ok (pg_services p) q dk" by blast
  have "world_ok p q (w\<lparr>w_eng := dk_eng dk, w_parent := \<lparr>se_acct = dk_acct dk, se_brk = dk_brk dk\<rparr>\<rparr>)"
    using w ok by (simp add: world_ok_def seat_ok_def desk_ok_def)
  then show "\<exists>e w'. at_parent f w = Some (e, w') \<and> world_ok p q w'" using f by (simp add: at_parent_def)
qed

lemma keeps_at_child [keeps_intro]:
  assumes "keeps (desk_ok (pg_services p) q) f" "mhas (pg_children p) n"
  shows "keeps (world_ok p q) (at_child n f)"
proof (rule keepsI)
  fix w assume w: "world_ok p q w"
  then obtain s where s: "map_of (w_children w) n = Some s"
    using assms(2) lookup_key [of "w_children w" n] by (auto simp: world_ok_def mhas_iff_key simp del: set_map)
  then have "desk_ok (pg_services p) q \<lparr>dk_eng = w_eng w, dk_acct = se_acct s, dk_brk = se_brk s\<rparr>"
    using w by (auto simp: world_ok_def seat_ok_def desk_ok_def)
  from keepsD [OF assms(1) this] obtain e dk where f: "f \<lparr>dk_eng = w_eng w, dk_acct = se_acct s, dk_brk = se_brk s\<rparr> = Some (e, dk)"
    and ok: "desk_ok (pg_services p) q dk" by blast
  have "world_ok p q (w\<lparr>w_eng := dk_eng dk, w_children := mput n \<lparr>se_acct = dk_acct dk, se_brk = dk_brk dk\<rparr> (w_children w)\<rparr>)"
    using w ok assms(2) by (auto simp: world_ok_def seat_ok_def desk_ok_def split: if_splits)
  then show "\<exists>e w'. at_child n f w = Some (e, w') \<and> world_ok p q w'" using s f by (simp add: at_child_def)
qed

lemma cache_ok_evict: "cache_ok q c \<Longrightarrow> cache_ok q (evictBefore z t c)"
proof -
  assume ok: "cache_ok q c"
  have "cache_get (foldl (\<lambda>(c :: dataCache) (key, entry). if ck_chunkStart key < th
      then c\<lparr>dc_curBytes := dc_curBytes c - estimateEntryBytes entry, dc_entries := mdel key (dc_entries c)\<rparr> else c) d es) k = Some e
      \<Longrightarrow> cache_get d k = Some e" for th d es k e
  proof (induction es arbitrary: d)
    case (Cons x es)
    obtain key entry where x: "x = (key, entry)" by fastforce
    show ?case using Cons.IH [of "if ck_chunkStart key < th
      then d\<lparr>dc_curBytes := dc_curBytes d - estimateEntryBytes entry, dc_entries := mdel key (dc_entries d)\<rparr> else d"] Cons.prems
      by (auto simp: x cache_get_def split: if_splits)
  qed simp
  then show ?thesis using ok unfolding cache_ok_def evictBefore_def Let_def by blast
qed

lemma world_ok_clock [intro]:
  "world_ok p q w \<Longrightarrow> world_ok p q (set_clock t w)" "world_ok p q w \<Longrightarrow> world_ok p q (reset_time t w)"
  "world_ok p q w \<Longrightarrow> world_ok p q (evict (pg_services p) t w)"
  using cache_ok_evict [of q "with_cache (w_eng w)" nyc t]
  by (auto simp: world_ok_def set_clock_def reset_time_def evict_def engine_ok_def with_cache_def split: option.splits)

lemma program_ok_child: "program_ok p q \<Longrightarrow> map_of (pg_children p) n = Some st \<Longrightarrow> strategy_ok (pg_services p) q st"
  by (fastforce simp: program_ok_def list_all_iff dest: map_of_SomeD)

lemma keeps_open_day [keeps_intro]:
  assumes "program_ok p q"
  shows "keeps (world_ok p q) (open_day p t)"
proof -
  have p: "services_ok (pg_services p) q" "strategy_ok (pg_services p) q (pg_strategy p)" "list_all middleware_ok (pg_middleware p)"
    using assms by (simp_all add: program_ok_def)
  have hk: "keeps (desk_ok (pg_services p) q) (\<lambda>dk. then_do (wrapped msg (prefetchHousekeepingPrices (pg_services p) t (e_benchmark (dk_eng dk)))) g dk)"
    if "keeps (desk_ok (pg_services p) q) g" for msg g
    by (rule keepsI) (rule keepsD [OF keeps_then_do [OF keeps_wrapped [OF keeps_prefetchHousekeepingPrices [OF p(1)]] that]])
  show ?thesis unfolding open_day_def Let_def
    by (intro hk keeps_then_do keeps_at_parent keeps_modify evaluate_pending_ok set_fetcher_ok set_provider_ok keeps_wrapped
        keeps_housekeepAccount keeps_setMarginPrices keeps_checkAndHandleMarginCall p)
qed

lemma keeps_run_children [keeps_intro]:
  assumes p: "program_ok p q" and fs: "list_all (\<lambda>(n, ts). mhas (pg_children p) n) firings"
  shows "keeps (world_ok p q) (run_children p t firings)"
  unfolding run_children_def
proof (rule keeps_for_each)
  fix x assume x: "x \<in> set firings"
  obtain n ts where nt: "x = (n, ts)" by fastforce
  have n: "mhas (pg_children p) n" using x fs by (auto simp: nt list_all_iff mhas_iff_key)
  then obtain st where st: "map_of (pg_children p) n = Some st" using lookup_key by fast
  have "keeps (world_ok p q) (then_do (at_child n (for_each (child_firing (pg_services p) st [] t) ts)) (modify (reset_time t)))"
    using p program_ok_child [OF p st] n by (intro keeps_intro world_ok_clock) (simp_all add: program_ok_def)
  then show "keeps (world_ok p q) (case x of (name, ts) \<Rightarrow> (case map_of (pg_children p) name of None \<Rightarrow> panic
      | Some st \<Rightarrow> then_do (at_child name (for_each (child_firing (pg_services p) st [] t) ts)) (modify (reset_time t))))"
    by (simp add: nt st)
qed

lemma keeps_run_parent [keeps_intro]: "program_ok p q \<Longrightarrow> keeps (world_ok p q) (run_parent p t ts)"
  unfolding run_parent_def
  by (simp add: keeps_finish, intro impI keeps_intro world_ok_clock) (simp_all add: program_ok_def)

lemma keeps_close_child:
  "program_ok p q \<Longrightarrow> mhas (pg_children p) n \<Longrightarrow> keeps (world_ok p q) (close_child p t n)"
  unfolding close_child_def Let_def by (intro keeps_intro set_provider_ok) (simp_all add: program_ok_def)

lemma keeps_close_day [keeps_intro]: assumes "program_ok p q" shows "keeps (world_ok p q) (close_day p t)"
proof -
  have sv: "services_ok (pg_services p) q" using assms by (simp add: program_ok_def)
  have "keeps (world_ok p q) (\<lambda>w. for_each (close_child p t) (mkeys (w_children w)) w)"
  proof (rule keepsI)
    fix w assume w: "world_ok p q w"
    have "keeps (world_ok p q) (for_each (close_child p t) (mkeys (w_children w)))"
    proof (rule keeps_for_each)
      fix n assume "n \<in> set (mkeys (w_children w))"
      then have "mhas (pg_children p) n" using w unfolding world_ok_def by (metis mhas_iff_key)
      then show "keeps (world_ok p q) (close_child p t n)" by (rule keeps_close_child [OF assms])
    qed
    then show "\<exists>e w'. for_each (close_child p t) (mkeys (w_children w)) w = Some (e, w') \<and> world_ok p q w'" by (rule keepsD) (rule w)
  qed
  moreover have "keeps (desk_ok (pg_services p) q) (\<lambda>dk. updateAccountPrices (pg_services p) t (e_benchmark (dk_eng dk)) dk)"
    by (rule keepsI) (rule keepsD [OF keeps_updateAccountPrices [OF sv]])
  ultimately show ?thesis unfolding close_day_def Let_def by (intro keeps_then_do keeps_at_parent keeps_modify world_ok_clock)
qed

lemma run_steps_ok:
  assumes "program_ok p q" "list_all (step_ok p) steps" "world_ok p q w"
  shows "\<exists>e w'. run_steps p steps w = Some (e, w') \<and> world_ok p q w'"
proof -
  have "keeps (world_ok p q) (backtest_step p step)" if "step_ok p step" for step
    unfolding backtest_step_def using assms(1) that
    by (intro keeps_then_do keeps_modify world_ok_clock keeps_open_day keeps_run_children keeps_run_parent keeps_close_day) (simp_all add: step_ok_def)
  then have "keeps (world_ok p q) (run_steps p steps)"
    unfolding run_steps_def using assms(2) by (intro keeps_for_each) (simp add: list_all_iff)
  then show ?thesis by (rule keepsD) (rule assms(3))
qed

end
