(* ===== verification/Samples.thy ===== *)
theory Samples
  imports EngineSound
begin

text \<open>
  Concrete assets, accounts, brokers and price frames the witnesses of the properties run on,
  with the facts that evaluate them.
\<close>

section \<open>Data\<close>

definition spy :: asset where "spy = mk_asset ''BBG-SPY'' ''SPY''"

definition tlt :: asset where "tlt = mk_asset ''BBG-TLT'' ''TLT''"

definition day :: "int \<Rightarrow> gotime" where "day n = n * day_ns"

definition trade :: "txtype \<Rightarrow> string \<Rightarrow> int \<Rightarrow> asset \<Rightarrow> real \<Rightarrow> real \<Rightarrow> transaction" where
  "trade ty i d ast q p = transaction_zero\<lparr>t_ID := i, t_Date := day d, t_Asset := ast, t_Type := ty,
     t_Qty := Fin q, t_Price := Fin p,
     t_Amount := Fin (case ty of BuyTransaction \<Rightarrow> - q * p | SellTransaction \<Rightarrow> q * p | _ \<Rightarrow> 0)\<rparr>"

abbreviation funded :: account where "funded \<equiv> WithCash (Fin 1000) (day 0) account_new"

abbreviation invested :: account where "invested \<equiv> Record (trade BuyTransaction ''t1'' 1 spy 5 100) funded"

text \<open>Five shares bought at 100.\<close>

definition lot1 :: taxlot where
  "lot1 = \<lparr>lot_ID = ''lot-1'', lot_Date = day 1, lot_Qty = Fin 5, lot_Price = Fin 100\<rparr>"

definition holder :: account where
  "holder = account_new\<lparr>a_cash := Fin 500, a_holdings := [(spy, Fin 5)], a_taxLots := [(spy, [lot1])],
     a_excursions := [(spy, \<lparr>ex_EntryPrice = Fin 100, ex_HighPrice = Fin 100, ex_LowPrice = Fin 100\<rparr>)]\<rparr>"

definition feed :: "brokerTransaction list" where
  "feed = [bt_zero\<lparr>bt_ID := ''d1'', bt_Asset := spy, bt_Type := DividendTransaction, bt_Amount := Fin 12\<rparr>,
           bt_zero\<lparr>bt_ID := ''s1'', bt_Asset := spy, bt_Type := SplitTransaction, bt_Price := Fin 2\<rparr>]"

definition after_loss :: account where
  "after_loss = holder\<lparr>a_recentLossSales := [(spy, [\<lparr>ls_date = day 0, ls_lossPerShare = Fin 4, ls_qty = Fin 2\<rparr>])]\<rparr>"

text \<open>A short of 400 against 500 in cash, and a frame of closing prices.\<close>

definition quotes :: "(asset \<times> real) list \<Rightarrow> dataframe" where
  "quotes ps = df_zero\<lparr>df_times := [day 1], df_assets := map fst ps, df_metrics := [MetricClose], df_freq := Daily,
     df_columns := map (\<lambda>p. [Fin (snd p)]) ps, df_assetIndex := mk_assetIndex (map fst ps)\<rparr>"

definition short_seller :: account where
  "short_seller = account_new\<lparr>a_cash := Fin 500, a_holdings := [(spy, Fin (- 400))], a_prices := Some (quotes [(spy, 1)])\<rparr>"

definition half_covered :: account where
  "half_covered = short_seller\<lparr>a_cash := Fin 300, a_holdings := [(spy, Fin (- 200))]\<rparr>"

definition sample_broker :: simBroker where
  "sample_broker = NewSimulatedBroker\<lparr>sb_prices := Some (\<lambda>_. Inr (quotes [(spy, 1)])), sb_hasPortfolio := True,
     sb_maxLeverage := Fin 2\<rparr>"

definition buyer :: account where
  "buyer = account_new\<lparr>a_cash := Fin 500, a_prices := Some (quotes [(spy, 1)])\<rparr>"

definition buy_order :: order where
  "buy_order = order_zero\<lparr>o_ID := ''o1'', o_Asset := spy, o_Side := Buy, o_Qty := Fin 600\<rparr>"

definition buy_fill :: fill where
  "buy_fill = \<lparr>f_OrderID = ''o1'', f_Price = Fin 1, f_Qty = Fin 600, f_FilledAt = sb_date sample_broker, f_Err = None\<rparr>"

definition stop_leg :: order where
  "stop_leg = order_zero\<lparr>o_ID := ''g-sl'', o_Asset := spy, o_Side := Sell, o_Qty := Fin 5, o_StopPrice := Fin 90,
     o_GroupID := ''g'', o_GroupRole := RoleStopLoss\<rparr>"

definition profit_leg :: order where
  "profit_leg = stop_leg\<lparr>o_ID := ''g-tp'', o_LimitPrice := Fin 120, o_GroupRole := RoleTakeProfit\<rparr>"

definition leg_fill :: "order \<Rightarrow> real \<Rightarrow> fill" where
  "leg_fill ord p = \<lparr>f_OrderID = o_ID ord, f_Price = Fin p, f_Qty = o_Qty ord, f_FilledAt = day 3, f_Err = None\<rparr>"

definition protected :: "simBroker drain_state" where
  "protected = \<lparr>ds_acct = holder\<lparr>a_pendingOrders := [(''g-sl'', stop_leg), (''g-tp'', profit_leg)],
       a_pendingGroups := [(''g'', \<lparr>g_ID = ''g'', g_Type = GroupOCO, g_OrderIDs = [''g-sl'', ''g-tp'']\<rparr>)]\<rparr>,
     ds_brk = sample_broker, ds_batch = None, ds_exits = []\<rparr>"

definition guarded :: simBroker where
  "guarded = sample_broker\<lparr>sb_pending := [(''g-sl'', stop_leg), (''g-tp'', profit_leg)], sb_groups := [(''g'', [''g-sl'', ''g-tp''])]\<rparr>"

definition short_entry :: deferredExitInfo where
  "short_entry = \<lparr>dx_groupID = ''g'', dx_spec = \<lparr>gs_GroupID = ''g'', gs_Type = GroupBracket, gs_EntryIndex = 0,
       gs_StopLoss = StopLossPercent (Fin 5), gs_TakeProfit = TakeProfitPercent (Fin 10)\<rparr>,
     dx_entrySide = Sell, dx_fillPrice = Fin 100, dx_asset = spy, dx_qty = Fin 5, dx_batchID = 1\<rparr>"

definition priced_holder :: account where
  "priced_holder = holder\<lparr>a_prices := Some (quotes [(spy, 90), (tlt, 7)])\<rparr>"

definition half_half :: Allocation where
  "half_half = \<lparr>al_Date = day 2, al_Members = [(spy, Fin (1/2)), (tlt, Fin (1/2))], al_Justification = ''even''\<rparr>"

definition all_bonds :: Allocation where
  "all_bonds = \<lparr>al_Date = day 2, al_Members = [(tlt, Fin 1)], al_Justification = ''bonds''\<rparr>"

section \<open>Evaluation\<close>

lemma trade_sel [simp]:
  "t_ID (trade ty i d ast q p) = i" "t_Type (trade ty i d ast q p) = ty" "t_Asset (trade ty i d ast q p) = ast"
  "t_Qty (trade ty i d ast q p) = Fin q" "t_Price (trade ty i d ast q p) = Fin p" "t_Date (trade ty i d ast q p) = day d"
  by (simp_all add: trade_def)

lemma funded_reachable: "reachable funded"
  by (rule reach_cash) simp

lemma invested_reachable: "reachable invested"
  by (rule reach_record [OF funded_reachable]) (simp add: txn_ok_def)

lemma holder_sel [simp]:
  "a_cash holder = Fin 500" "a_holdings holder = [(spy, Fin 5)]" "a_taxLots holder = [(spy, [lot1])]"
  "mhas (a_excursions holder) spy" "a_substitutions holder = []"
  by (simp_all add: holder_def account_new_def)

lemma lot1_sel [simp]: "lot_fin lot1" "lots_sum [lot1] = 5" "lot_ID lot1 = ''lot-1''" "lot_Qty lot1 = Fin 5"
  by (simp_all add: lot1_def lot_fin_def lots_sum_def)

lemma quotes_spy [simp]: "df_Value (quotes [(spy, p)]) spy MetricClose = Fin p"
  by (simp add: quotes_def df_Value_def df_zero_def mk_assetIndex_def metricIndex_def colSlice_def colIdx_def Let_def)

lemma short_seller_values [simp]:
  "LongMarketValue short_seller = Fin 0" "ShortMarketValue short_seller = Fin 400" "Equity short_seller = Fin 100"
  by (simp_all add: short_seller_def LongMarketValue_def ShortMarketValue_def Equity_def account_new_def Let_def)

lemma short_seller_priced: "priced short_seller"
  by (simp add: priced_def) (simp add: short_seller_def account_new_def)

lemma default_rates [simp]:
  "a_maintenanceMargin a = Fin 0 \<Longrightarrow> maintenanceMarginRate a = Fin (30/100)"
  "a_grossMaintenanceLeverage a = Fin 0 \<Longrightarrow> GrossMaintenanceLeverage a = Fin 4"
  by (simp_all add: maintenanceMarginRate_def GrossMaintenanceLeverage_def defaultMaintenanceMarginRate_def
      defaultGrossMaintenanceLeverage_def)

lemma short_seller_rates [simp]:
  "a_maintenanceMargin short_seller = Fin 0" "a_grossMaintenanceLeverage short_seller = Fin 0" 
  by (simp_all add: short_seller_def account_new_def)

lemma quotes_value:
  "df_Value (quotes [(x, p)]) ast MetricClose
     = (if CompositeFigi ast = CompositeFigi x then Fin p else NaN)"
  "CompositeFigi x \<noteq> CompositeFigi y \<Longrightarrow> df_Value (quotes [(x, p), (y, q)]) ast MetricClose
     = (if CompositeFigi ast = CompositeFigi x then Fin p else if CompositeFigi ast = CompositeFigi y then Fin q else NaN)"
  by (auto simp: quotes_def df_Value_def df_zero_def mk_assetIndex_def metricIndex_def colSlice_def colIdx_def Let_def)

lemma spy_tlt [simp]: "spy \<noteq> tlt" "tlt \<noteq> spy" "CompositeFigi spy = ''BBG-SPY''" "CompositeFigi tlt = ''BBG-TLT''"
  by (simp_all add: spy_def tlt_def)

lemma quotes_marks [simp]: "marks_ok (quotes [(spy, p)])" "marks_ok (quotes [(spy, p), (tlt, q)])"
  by (simp_all add: marks_ok_def quotes_value)

lemma buy_order_sel [simp]: "\<not> is_exit buy_order" "o_ID buy_order = ''o1''"
  by (simp_all add: is_exit_def buy_order_def order_zero_def)

lemma sample_submit:
  "sim_Submit buyer buy_order sample_broker = (None, sample_broker\<lparr>sb_fills := [buy_fill]\<rparr>)"
  by (simp add: sim_Submit_def is_exit_def buy_order_def order_zero_def sample_broker_def NewSimulatedBroker_def
      pipeline_FillBase_def closeFill_Fill_def quotes_value Let_def pipeline_Adjust_def margin_check_def buyer_def
      Position_def mget_def ShortMarketValue_def LongMarketValue_def Equity_def account_new_def queue_remainder_def
      deliverFill_def fillChannelSize_def buy_fill_def)

lemma protected_orders: "a_pendingOrders (ds_acct protected) = [(''g-sl'', stop_leg), (''g-tp'', profit_leg)]"
  "is_exit stop_leg" "is_exit profit_leg"
  by (simp_all add: protected_def is_exit_def stop_leg_def profit_leg_def)

lemma empty_batch [simp]:
  "b_Orders (NewBatch t) = []" "b_executed (NewBatch t) = 0" "unexecutedOrders (NewBatch t) = []"
  "ProjectedHoldings port (NewBatch t) = Holdings port"
  by (simp_all add: NewBatch_def unexecutedOrders_def ProjectedHoldings_def)

lemma holder_Holdings [simp]: "Holdings holder = [(spy, Fin 5)]"
  by (simp add: Holdings_def)

lemma priced_holder_prices:
  "batch_priceOf priced_holder x = (if CompositeFigi x = ''BBG-SPY'' then Fin 90
     else if CompositeFigi x = ''BBG-TLT'' then Fin 7 else Fin 0)"
  by (auto simp: priced_holder_def batch_priceOf_def quotes_value Let_def Position_def PositionValue_def mget_def)

lemma priced_holder_projectable: "projectable priced_holder (NewBatch t)"
  by (simp add: projectable_def priced_holder_prices) (simp add: priced_holder_def)

lemma half_half_ok [simp]: "target_ok half_half" "map_of (alloc_members half_half) tlt = Some (Fin (1/2))"
  by (simp_all add: target_ok_def half_half_def alloc_members_def CashAsset_def spy_def tlt_def)

lemma visits_all_id [simp]: "visits_all (\<lambda>m. m)" by (simp add: visits_all_def)

lemma first_row: "\<exists>pd. record_equity (holder\<lparr>a_prices := Some df\<rparr>) df = Inr pd"
  by (simp add: record_equity_def NewDataFrame_def holder_def account_new_def Let_def)

end
