(* ===== verification/SampleMarket.thy ===== *)
theory SampleMarket
  imports Samples
begin

text \<open>
  A market with one day of quotes and a loss reported on it, a provider that serves it and a program that
  trades in it: the concrete services on which the witnesses about the engine run.
\<close>

section \<open>A market with one day of quotes\<close>

definition market_day :: gotime where "market_day = 19724 * day_ns + 16 * hour_ns"

definition market_value :: "metric \<Rightarrow> f64" where
  "market_value m = (if m = SplitFactor then 1 else if m = Dividend then 0 else if m = ''NetIncome'' then Fin (- 3) else Fin 100)"

definition market :: quotes where
  "market = \<lparr>qt_value = (\<lambda>figi m d. if d = dateKey market_day then market_value m else NaN), qt_stamp = (\<lambda>d. market_day)\<rparr>"

definition market_fetch :: "nat \<Rightarrow> request \<Rightarrow> goerr + dataframe" where
  "market_fetch p rq =
     (if dateKey (rq_Start rq) \<le> dateKey market_day \<and> dateKey market_day \<le> dateKey (rq_End rq)
      then NewDataFrame [market_day] (rq_Assets rq) (rq_Metrics rq) Daily (concat (map (\<lambda>a. map (\<lambda>m. [market_value m]) (rq_Metrics rq)) (rq_Assets rq)))
      else NewDataFrame [] [] [] Daily [])"

definition market_services :: services where
  "market_services = \<lparr>sv_data = \<lparr>fe_route = map (\<lambda>m. (m, 0)) [MetricClose, AdjClose, MetricHigh, MetricLow, Volume, Dividend, SplitFactor, ''NetIncome''],
     fe_fetch = market_fetch\<rparr>, sv_intraday = None, sv_pow = (\<lambda>x y. x)\<rparr>"

lemma market_frame:
  assumes "NewDataFrame [market_day] as ms Daily (concat (map (\<lambda>a. map (\<lambda>m. [market_value m]) ms) as)) = Inr df"
  shows "df_wf df \<and> df_err df = None \<and> df_times df = [market_day]
    \<and> df_Column df a m = (if CompositeFigi a \<in> CompositeFigi ` set as \<and> m \<in> set ms then Some [market_value m] else None)"
proof -
  have s: "df_wf df" "df_err df = None" "df_times df = [market_day]" "df_assets df = as" "df_metrics df = ms"
    using assms NewDataFrame_wf [OF assms] by (auto simp: NewDataFrame_def Let_def split: if_splits)
  show ?thesis
  proof (cases "CompositeFigi a \<in> CompositeFigi ` set as \<and> m \<in> set ms")
    case True
    then obtain b where b: "b \<in> set as" "CompositeFigi b = CompositeFigi a" by auto
    have "df_Column df b m = Some [market_value m]"
      by (rule grid_frame [where g = "\<lambda>a m. [market_value m]", OF assms]) (use b True in simp_all)
    moreover have "df_Column df a m = df_Column df b m" using b(2) by (simp add: df_Column_def)
    ultimately show ?thesis using s True by simp
  next
    case False
    then have "df_Column df a m = None" using s df_Column_has [OF s(1,2), of a m] by (auto simp: df_has_def)
    then show ?thesis using s False by simp
  qed
qed

lemma market_fetch_quotes: "providers_quote (sv_data market_services) market"
  unfolding providers_quote_def
proof (intro allI impI)
  fix p rq df
  assume "fe_fetch (sv_data market_services) p rq = Inr df"
  then have f: "market_fetch p rq = Inr df" by (simp add: market_services_def)
  have md: "market_day mod second_ns = 0" by (simp add: market_day_def ns_defs)
  have out: "qt_value market x m (dateKey t) = NaN" if "dateKey t \<noteq> dateKey market_day" for x m t
    using that by (simp add: market_def)
  show "df_wf df \<and> df_err df = None \<and> time_stamped market (df_times df) \<and> sorted_wrt (<) (map dateKey (df_times df))
   \<and> (\<forall>t\<in>set (df_times df). dateKey (rq_Start rq) \<le> dateKey t \<and> dateKey t \<le> dateKey (rq_End rq))
   \<and> (\<forall>a m col. df_Column df a m = Some col \<longrightarrow>
        (\<forall>i<length (df_times df). col ! i = qt_value market (CompositeFigi a) m (dateKey (df_times df ! i)))
      \<and> (\<forall>t. rq_Start rq \<le> t \<longrightarrow> t \<le> rq_End rq \<longrightarrow> dateKey t \<notin> dateKey ` set (df_times df) \<longrightarrow> qt_value market (CompositeFigi a) m (dateKey t) = NaN))
   \<and> (\<forall>a\<in>set (rq_Assets rq). \<forall>m\<in>set (rq_Metrics rq). map_of (fe_route (sv_data market_services)) m = Some p \<longrightarrow> df_Column df a m = None \<or> df_times df = [] \<longrightarrow>
        (\<forall>t. rq_Start rq \<le> t \<longrightarrow> t \<le> rq_End rq \<longrightarrow> qt_value market (CompositeFigi a) m (dateKey t) = NaN))"
  proof (cases "dateKey (rq_Start rq) \<le> dateKey market_day \<and> dateKey market_day \<le> dateKey (rq_End rq)")
    case True
    have "NewDataFrame [market_day] (rq_Assets rq) (rq_Metrics rq) Daily (concat (map (\<lambda>a. map (\<lambda>m. [market_value m]) (rq_Metrics rq)) (rq_Assets rq))) = Inr df"
      using f True by (simp add: market_fetch_def)
    note M = market_frame [OF this]
    show ?thesis using M md out True by (auto simp: time_stamped_def market_def split: if_splits)
  next
    case False
    have df: "NewDataFrame [] [] [] Daily [] = Inr df" using f unfolding market_fetch_def by (simp only: if_not_P [OF False])
    then have "df_wf df" "df_err df = None" "df_times df = []" "\<And>a m. df_Column df a m = None"
      using NewDataFrame_wf [OF df] by (auto simp: NewDataFrame_def df_Column_def mk_assetIndex_def)
    moreover have "dateKey t \<noteq> dateKey market_day" if "rq_Start rq \<le> t" "t \<le> rq_End rq" for t
      using False dateKey_mono [OF that(1)] dateKey_mono [OF that(2)] by auto
    ultimately show ?thesis using out by simp
  qed
qed

lemma market_ok: "services_ok market_services market"
  using market_fetch_quotes
  by (auto simp: services_ok_def quotes_ok_def entry_ok_def market_def market_value_def market_metrics_def metric_defs) (simp add: market_services_def)

section \<open>A program that buys one share\<close>

definition buy_one :: strategy_call where
  "buy_one cs dk b = (None, dk_eng dk, b\<lparr>b_Orders := b_Orders b @ [order_zero\<lparr>o_Asset := spy, o_Side := Buy, o_Qty := 1\<rparr>]\<rparr>)"

definition share_buyer :: strategy where
  "share_buyer = \<lparr>st_Compute = buy_one, st_Reconcile = None, st_OnMarginCall = None\<rparr>"

definition buy_program :: program where
  "buy_program = \<lparr>pg_services = market_services, pg_strategy = share_buyer, pg_middleware = [], pg_children = [(''child'', share_buyer)]\<rparr>"

lemma share_buyer_ok: "strategy_ok sv q share_buyer"
  by (auto simp: strategy_ok_def share_buyer_def strategy_call_ok_def buy_one_def desk_ok_def batch_ok_def one_f64_Fin)

lemma buy_program_ok: "program_ok buy_program market"
  by (simp add: program_ok_def buy_program_def market_ok share_buyer_ok)

definition fresh_engine :: engine where
  "fresh_engine = \<lparr>e_currentDate = time_zero, e_currentTime = time_zero, e_predicting = False, e_cache = None, e_cacheMaxBytes = 0,
     e_benchmark = asset_zero, e_riskFreeResolved = False, e_riskFreeAssetDGS = asset_zero, e_riskFreeTimes = [], e_riskFreeValues = [],
     e_riskFreeIndex = [], e_riskFreeCumulative = 0, e_intradayFill = None\<rparr>"

definition fresh_seat :: seat where
  "fresh_seat = \<lparr>se_acct = SetBroker True funded, se_brk = SetPortfolio NewSimulatedBroker\<rparr>"

definition fresh_world :: world where
  "fresh_world = \<lparr>w_eng = fresh_engine, w_parent = fresh_seat, w_children = [(''child'', fresh_seat)]\<rparr>"

lemma fresh_engine_ok: "engine_ok sv q fresh_engine"
  by (simp add: engine_ok_def with_cache_def fresh_engine_def cache_ok_def cache_get_def newDataCache_def)

lemma fresh_seat_ok: "seat_ok fresh_seat"
proof -
  have "books_ok (WithCash (Fin 1000) (day 0) account_new)"
    by (simp add: books_ok_def WithCash_def acct_inv_irrelevant ledger_def open_holdings_def transaction_zero_def) (simp add: account_new_def)
  then have "books_ok (SetBroker True funded)" by (rule books_ok_frame [rotated]) (simp add: SetBroker_def books_def)
  then show ?thesis by (simp add: seat_ok_def fresh_seat_def SetPortfolio_def NewSimulatedBroker_def broker_ok_def pipe_ok_def)
qed

lemma fresh_world_ok: "world_ok buy_program market fresh_world"
  by (simp add: world_ok_def fresh_world_def fresh_engine_ok fresh_seat_ok buy_program_def)

definition one_day :: "backtestStep list" where
  "one_day = [\<lparr>bs_date = market_day, bs_parentFirings = [market_day], bs_childFirings = [(''child'', [market_day])]\<rparr>]"

lemma one_day_ok: "list_all (step_ok buy_program) one_day"
  by (simp add: one_day_def step_ok_def buy_program_def)

section \<open>Queries\<close>

definition week :: Period where "week = \<lparr>p_N = 7, p_Unit = UnitDay, p_TimeOfDay = []\<rparr>"

definition today :: engine where
  "today = fresh_engine\<lparr>e_currentDate := market_day, e_currentTime := market_day\<rparr>"

lemma today_ok: "engine_ok sv q today"
  by (simp add: today_def engine_ok_clock fresh_engine_ok)

abbreviation market_env :: fetch_env where "market_env \<equiv> sv_data market_services"

lemma new_cache_ok: "cache_ok q (newDataCache n)"
  by (simp add: cache_ok_def cache_get_def newDataCache_def)

lemma quotes_wf: "df_wf (quotes ps) \<and> df_err (quotes ps) = None \<and> df_times (quotes ps) = [day 1] \<and> df_freq (quotes ps) = Daily"
  by (simp add: quotes_def df_wf_def df_zero_def list_all_iff)

lemma quotes_keys: "df_keys (quotes [p])"
  by (simp add: df_keys_def quotes_def)

lemma last_with_quotes: "last_with [quotes [(spy, 3)], quotes [(spy, 4)]] spy MetricClose = Some (quotes [(spy, 4)])"
  by (simp add: last_with_def df_has_def) (simp add: quotes_def)

lemma today_fetch:
  "\<exists>df e. engine_Fetch market_services [spy] week [MetricClose] today = (Some (Inr df), e) \<and> df_times df = [market_day]"
proof -
  obtain x e where x: "engine_Fetch market_services [spy] week [MetricClose] today = (x, e)" by fastforce
  have "map_option (map_sum id df_times) (fst (engine_Fetch market_services [spy] week [MetricClose] today)) = Some (Inr [market_day])"
    by code_simp
  then have "map_option (map_sum id df_times) x = Some (Inr [market_day])" by (simp only: x fst_conv)
  then obtain df where f: "x = Some (Inr df)" "df_times df = [market_day]"
    by (cases x) (auto simp: map_sum_def split: sum.splits)
  then show ?thesis using x by blast
qed

section \<open>A numeric library\<close>

definition plain_gonum :: gonum where
  "plain_gonum = \<lparr>gn_AddTo = map2 (+), gn_SubTo = map2 (-), gn_MulTo = map2 (*), gn_DivTo = map2 (/),
     gn_AddConst = (\<lambda>c. map (\<lambda>x. x + c)), gn_Scale = (\<lambda>c. map (\<lambda>x. x * c)), gn_CumSum = running_sums, gn_Sum = sum_list,
     gn_Max = (\<lambda>xs. if xs = [] then None else Some (foldl maxF (hd xs) xs)),
     gn_Min = (\<lambda>xs. if xs = [] then None else Some (hd xs)), gn_Mean = (\<lambda>xs. sum_list xs / Fin (real (length xs))),
     gn_Quantile = (\<lambda>p xs. None)\<rparr>"

lemma plain_gonum_ok: "gonum_ok plain_gonum"
  by (simp add: gonum_ok_def plain_gonum_def)

end
