(* ===== verification/TradeCron.thy ===== *)
theory TradeCron
  imports FrameStats
begin

text \<open>
  The trading calendar (tradecron/): market days, holidays and early closes, the searches for the
  first and last trading day of a week or month, the parsing of schedule strings, and \<open>Next\<close>,
  the next firing of a schedule. Times are wall-clock times of New York, in which the code does
  all its arithmetic. The cron library is a parameter. Shows that the searches end and find the
  day they name, that offsets from the open and the close are added exactly, and that a firing
  is later than the time asked about, lies in market hours and, for the month and week
  modifiers, on the day they name.
\<close>

section \<open>Market days\<close>

record MarketHours =
  mh_Open :: int
  mh_Close :: int

definition RegularHours :: MarketHours where "RegularHours = \<lparr>mh_Open = 930, mh_Close = 1600\<rparr>"
definition ExtendedHours :: MarketHours where "ExtendedHours = \<lparr>mh_Open = 700, mh_Close = 2000\<rparr>"
definition AllHours :: MarketHours where "AllHours = \<lparr>mh_Open = 0, mh_Close = 2359\<rparr>"

definition coversFullDay :: "MarketHours \<Rightarrow> bool" where
  "coversFullDay mh \<longleftrightarrow> mh_Open mh \<le> 0 \<and> mh_Close mh \<ge> 2359"

record MarketHoliday =
  hd_Date :: gotime
  hd_EarlyClose :: bool
  hd_CloseTime :: int

text \<open>The calendar maps the day of a holiday to its close, 0 for a day without trading.\<close>

definition SetMarketHolidays :: "MarketHoliday list \<Rightarrow> (int, int) gomap" where
  "SetMarketHolidays items =
     foldl (\<lambda>m h. mput (days_of (hd_Date h)) (if hd_EarlyClose h then hd_CloseTime h else 0) m) [] items"

record MarketStatus =
  ms_hours :: MarketHours
  ms_holidays :: "(int, int) gomap"

definition EarlyClose :: "MarketStatus \<Rightarrow> gotime \<Rightarrow> int" where
  "EarlyClose ms t = mget 0 (ms_holidays ms) (days_of t)"

definition IsMarketHoliday :: "MarketStatus \<Rightarrow> gotime \<Rightarrow> bool" where
  "IsMarketHoliday ms t = (if mget 0 (ms_holidays ms) (days_of t) \<noteq> 0 then False else mhas (ms_holidays ms) (days_of t))"

definition IsMarketDay :: "MarketStatus \<Rightarrow> gotime \<Rightarrow> bool" where
  "IsMarketDay ms t \<longleftrightarrow> \<not> (time_weekday t = 6 \<or> time_weekday t = 0) \<and> \<not> IsMarketHoliday ms t"

definition hhmm :: "gotime \<Rightarrow> int" where
  "hhmm t = clock_of t div hour_ns * 100 + clock_of t div minute_ns mod 60"

definition IsMarketOpen :: "MarketStatus \<Rightarrow> gotime \<Rightarrow> bool" where
  "IsMarketOpen ms t =
     (if \<not> IsMarketDay ms t then False
      else let closeTime = (if \<not> coversFullDay (ms_hours ms) \<and> EarlyClose ms t \<noteq> 0 then EarlyClose ms t else mh_Close (ms_hours ms))
        in \<not> (hhmm t < mh_Open (ms_hours ms) \<or> hhmm t > closeTime))"

section \<open>Searching for market days\<close>

text \<open>The loops over the calendar, one day forward or one day back at a time.\<close>

definition last_holiday :: "MarketStatus \<Rightarrow> int" where "last_holiday ms = fold max (mkeys (ms_holidays ms)) 0"
definition first_holiday :: "MarketStatus \<Rightarrow> int" where "first_holiday ms = fold min (mkeys (ms_holidays ms)) 0"

lemma fold_max: "fold max xs (a :: int) \<ge> a \<and> (x \<in> set xs \<longrightarrow> fold max xs a \<ge> x)"
  by (induction xs arbitrary: a) (auto simp: max_def, (meson dual_order.trans linear)+)

lemma fold_min: "fold min xs (a :: int) \<le> a \<and> (x \<in> set xs \<longrightarrow> fold min xs a \<le> x)"
  by (induction xs arbitrary: a) (auto simp: min_def, (meson dual_order.trans linear)+)

lemma holiday_range: "IsMarketHoliday ms t \<Longrightarrow> first_holiday ms \<le> days_of t \<and> days_of t \<le> last_holiday ms"
  using fold_max [of 0 "mkeys (ms_holidays ms)"] fold_min [of "mkeys (ms_holidays ms)" 0]
  by (auto simp: IsMarketHoliday_def last_holiday_def first_holiday_def mhas_iff_key split: if_splits)

lemma next_day: "days_of (time_addDate t 0 0 k) = days_of t + k" "clock_of (time_addDate t 0 0 k) = clock_of t"
  by (simp_all add: time_addDate_days days_of_def clock_of_def ns_defs)

function forward_to_market_day :: "MarketStatus \<Rightarrow> gotime \<Rightarrow> gotime" where
  "forward_to_market_day ms t = (if IsMarketDay ms t then t else forward_to_market_day ms (time_addDate t 0 0 1))"
  by pat_completeness auto
termination
proof (relation "measure (\<lambda>(ms, t). nat (3 * max 0 (last_holiday ms + 1 - days_of t)) + (if time_weekday t = 6 then 2 else if time_weekday t = 0 then 1 else 0))")
  fix ms t
  assume "\<not> IsMarketDay ms t"
  then have "time_weekday t = 6 \<or> time_weekday t = 0 \<or> days_of t \<le> last_holiday ms" using holiday_range by (auto simp: IsMarketDay_def)
  moreover have "time_weekday (time_addDate t 0 0 1) = (time_weekday t + 1) mod 7" by (simp add: time_weekday_def next_day mod_simps add.assoc)
  ultimately show "((ms, time_addDate t 0 0 1), ms, t) \<in> measure (\<lambda>(ms, t). nat (3 * max 0 (last_holiday ms + 1 - days_of t))
      + (if time_weekday t = 6 then 2 else if time_weekday t = 0 then 1 else 0))"
    by (auto simp: next_day max_def)
qed simp

function back_to_market_day :: "MarketStatus \<Rightarrow> gotime \<Rightarrow> gotime" where
  "back_to_market_day ms t = (if IsMarketDay ms t then t else back_to_market_day ms (time_addDate t 0 0 (- 1)))"
  by pat_completeness auto
termination
proof (relation "measure (\<lambda>(ms, t). nat (3 * max 0 (days_of t + 1 - first_holiday ms)) + (if time_weekday t = 0 then 2 else if time_weekday t = 6 then 1 else 0))")
  fix ms t
  assume "\<not> IsMarketDay ms t"
  then have "time_weekday t = 6 \<or> time_weekday t = 0 \<or> days_of t \<ge> first_holiday ms" using holiday_range by (auto simp: IsMarketDay_def)
  moreover have "time_weekday (time_addDate t 0 0 (- 1)) = (time_weekday t - 1) mod 7" by (simp add: time_weekday_def next_day mod_simps)
  ultimately show "((ms, time_addDate t 0 0 (- 1)), ms, t) \<in> measure (\<lambda>(ms, t). nat (3 * max 0 (days_of t + 1 - first_holiday ms))
      + (if time_weekday t = 0 then 2 else if time_weekday t = 6 then 1 else 0))"
    by (auto simp: next_day max_def)
qed simp

declare forward_to_market_day.simps [simp del] back_to_market_day.simps [simp del]


text \<open>A search stops at the first market day it meets.\<close>

lemma back_shift: "time_addDate t 0 0 (- 1) = t - day_ns" "time_addDate t 0 0 1 = t + day_ns"
  by (simp_all add: time_addDate_days)

lemma days_shift: "days_of (t - day_ns) = days_of t - 1" "days_of (t + day_ns) = days_of t + 1"
  using next_day(1) [of t "- 1"] next_day(1) [of t 1] by (simp_all add: back_shift)

lemma clock_shift: "clock_of (t - day_ns) = clock_of t" "clock_of (t + day_ns) = clock_of t"
  using next_day(2) [of t "- 1"] next_day(2) [of t 1] by (simp_all add: back_shift)

lemma IsMarketDay_day: "days_of t = days_of u \<Longrightarrow> IsMarketDay ms t = IsMarketDay ms u"
  by (simp add: IsMarketDay_def IsMarketHoliday_def time_weekday_def)

lemma forward_finds:
  "IsMarketDay ms (forward_to_market_day ms t) \<and> days_of t \<le> days_of (forward_to_market_day ms t)
   \<and> clock_of (forward_to_market_day ms t) = clock_of t
   \<and> (\<forall>u. days_of t \<le> days_of u \<and> days_of u < days_of (forward_to_market_day ms t) \<longrightarrow> \<not> IsMarketDay ms u)"
proof (induction ms t rule: forward_to_market_day.induct)
  case (1 ms t)
  show ?case
  proof (cases "IsMarketDay ms t")
    case False
    then have *: "forward_to_market_day ms t = forward_to_market_day ms (t + day_ns)"
      by (simp add: forward_to_market_day.simps [of ms t] back_shift)
    have "\<not> IsMarketDay ms u" if "days_of t \<le> days_of u" "days_of u < days_of (forward_to_market_day ms (t + day_ns))" for u
      using that 1 [OF False] False IsMarketDay_day [of u t ms] by (cases "days_of u = days_of t") (auto simp: back_shift days_shift)
    then show ?thesis using 1 [OF False] unfolding * by (auto simp: back_shift days_shift clock_shift)
  qed (auto simp: forward_to_market_day.simps [of ms t])
qed

lemma back_finds:
  "IsMarketDay ms (back_to_market_day ms t) \<and> days_of (back_to_market_day ms t) \<le> days_of t
   \<and> clock_of (back_to_market_day ms t) = clock_of t
   \<and> (\<forall>u. days_of (back_to_market_day ms t) < days_of u \<and> days_of u \<le> days_of t \<longrightarrow> \<not> IsMarketDay ms u)"
proof (induction ms t rule: back_to_market_day.induct)
  case (1 ms t)
  show ?case
  proof (cases "IsMarketDay ms t")
    case False
    then have *: "back_to_market_day ms t = back_to_market_day ms (t - day_ns)"
      by (simp add: back_to_market_day.simps [of ms t] back_shift)
    have "\<not> IsMarketDay ms u" if "days_of (back_to_market_day ms (t - day_ns)) < days_of u" "days_of u \<le> days_of t" for u
      using that 1 [OF False] False IsMarketDay_day [of u t ms] by (cases "days_of u = days_of t") (auto simp: back_shift days_shift)
    then show ?thesis using 1 [OF False] unfolding * by (auto simp: back_shift days_shift clock_shift)
  qed (auto simp: back_to_market_day.simps [of ms t])
qed

section \<open>Dates\<close>

text \<open>\<open>time.Date\<close> with the clock of the day in nanoseconds.\<close>

definition time_Date :: "int \<Rightarrow> int \<Rightarrow> int \<Rightarrow> int \<Rightarrow> gotime" where
  "time_Date y m d clock = days_of_civil y m d * day_ns + clock"

definition at_clock :: "gotime \<Rightarrow> int \<Rightarrow> gotime" where
  "at_clock t clock = (case time_date t of (y, m, d) \<Rightarrow> time_Date y m d clock)"

definition end_of_day_clock :: int where "end_of_day_clock = 23 * hour_ns + 59 * minute_ns + 59 * second_ns + 999999999"

definition first_of_month :: "gotime \<Rightarrow> gotime" where
  "first_of_month t = (case time_date t of (y, m, d) \<Rightarrow> time_Date y m 1 0)"

definition month_count :: "gotime \<Rightarrow> int" where
  "month_count t = (case time_date t of (y, m, d) \<Rightarrow> 12 * y + m)"

lemma at_clock_day: "at_clock t c = days_of t * day_ns + c"
  using days_of_civil_of_days [of "days_of t"] by (auto simp: at_clock_def time_Date_def time_date_def split: prod.splits)

lemma days_clock: "0 \<le> c \<Longrightarrow> c < day_ns \<Longrightarrow> days_of (n * day_ns + c) = n \<and> clock_of (n * day_ns + c) = c"
  by (simp add: days_of_def clock_of_def ns_defs)

lemma month_span: "month_start (month_count t - 3) \<le> days_of t" "days_of t < month_start (month_count t - 2)"
  using civil_month [of "days_of t"] by (auto simp: month_count_def time_date_def split: prod.splits)

lemma month_count_iff: "month_start (M - 3) \<le> days_of t \<and> days_of t < month_start (M - 2) \<longleftrightarrow> M = month_count t"
  using civil_month_iff [of "days_of t" _ _ _ "M - 3"] by (auto simp: month_count_def time_date_def split: prod.splits)

lemma time_Date_day1: "time_Date y m 1 c = month_start (12 * y + m - 3) * day_ns + c"
  by (simp add: time_Date_def days_of_civil_month)

lemma first_of_month: "first_of_month t = month_start (month_count t - 3) * day_ns"
  by (auto simp: first_of_month_def month_count_def time_Date_day1 split: prod.splits)

lemma month_start_less: "month_start (M - 3) < month_start (M - 2)"
  using month_start_step [of "M - 3"] by simp

lemma month_of_start: "days_of t = month_start (M - 3) \<Longrightarrow> month_count t = M"
  using month_count_iff [of M t] month_start_less [of M] by auto

lemma first_of_month_day: "days_of (first_of_month t) = month_start (month_count t - 3)" "clock_of (first_of_month t) = 0"
  "month_count (first_of_month t) = month_count t"
  using days_clock [of 0 "month_start (month_count t - 3)"] month_of_start [of "first_of_month t" "month_count t"]
  by (simp_all add: first_of_month ns_defs)

lemma date_of_first: "month_count t = M \<Longrightarrow> days_of t = month_start (M - 3) \<Longrightarrow> \<exists>y m. time_date t = (y, m, 1) \<and> M = 12 * y + m"
  using civil_month(5) [of "days_of t"] by (auto simp: month_count_def time_date_def split: prod.splits)

lemma addDate_first: "time_addDate (first_of_month t) 0 k d = (month_start (month_count t + k - 3) + d) * day_ns"
proof -
  obtain y m where "time_date (first_of_month t) = (y, m, 1)" "month_count t = 12 * y + m"
    using date_of_first [of "first_of_month t" "month_count t"] first_of_month_day by auto
  then show ?thesis using first_of_month_day(2) by (simp add: time_addDate_def days_of_civil_month algebra_simps)
qed


section \<open>First and last trading days\<close>

definition NextFirstTradingDayOfMonth :: "MarketStatus \<Rightarrow> gotime \<Rightarrow> gotime" where
  "NextFirstTradingDayOfMonth ms t = forward_to_market_day ms (time_addDate (first_of_month t) 0 1 0)"

definition NextFirstTradingDayOfWeek :: "MarketStatus \<Rightarrow> gotime \<Rightarrow> gotime" where
  "NextFirstTradingDayOfWeek ms t =
     (let daysToWeekBegin = (8 - time_weekday t) mod 7;
          weekStart = forward_to_market_day ms (time_addDate t 0 0 daysToWeekBegin)
      in at_clock weekStart 0)"

definition NextLastTradingDayOfWeek :: "MarketStatus \<Rightarrow> gotime \<Rightarrow> gotime" where
  "NextLastTradingDayOfWeek ms t =
     (let daysToFriday = 5 - time_weekday t;
          lastDayOfWeek = back_to_market_day ms (time_addDate t 0 0 daysToFriday)
      in at_clock lastDayOfWeek 0)"

text \<open>
  The last day of a month after the last holiday is at most two days before a market day, so the
  search over months ends.
\<close>

definition holiday_month :: "MarketStatus \<Rightarrow> int" where
  "holiday_month ms = month_count (last_holiday ms * day_ns)"

lemma after_holidays: "holiday_month ms < month_count t \<Longrightarrow> last_holiday ms < days_of t"
proof -
  assume "holiday_month ms < month_count t"
  then have "month_start (holiday_month ms - 2) \<le> month_start (month_count t - 3)" by (intro month_start_le) simp
  moreover have "last_holiday ms < month_start (holiday_month ms - 2)"
    using month_span(2) [of "last_holiday ms * day_ns"] days_clock [of 0 "last_holiday ms"] by (simp add: holiday_month_def ns_defs)
  ultimately show ?thesis using month_span(1) [of t] by simp
qed

lemma weekday_near: "\<exists>k. 0 \<le> k \<and> k \<le> 2 \<and> \<not> ((n - k + 4) mod 7 = (6 :: int) \<or> (n - k + 4) mod 7 = 0)"
  by presburger

lemma last_day_searched:
  assumes h: "holiday_month ms < month_count t"
  shows "month_start (month_count t - 3) \<le> days_of (back_to_market_day ms (time_addDate (first_of_month t) 0 1 (- 1)))"
proof (rule ccontr)
  let ?l = "time_addDate (first_of_month t) 0 1 (- 1)"
  assume a: "\<not> month_start (month_count t - 3) \<le> days_of (back_to_market_day ms ?l)"
  have l: "days_of ?l = month_start (month_count t - 2) - 1"
    using days_clock [of 0 "month_start (month_count t - 2) - 1"] by (simp add: addDate_first ns_defs)
  obtain k where k: "0 \<le> k" "k \<le> 2" "\<not> ((days_of ?l - k + 4) mod 7 = 6 \<or> (days_of ?l - k + 4) mod 7 = 0)"
    using weekday_near by blast
  define u where "u = (days_of ?l - k) * day_ns"
  have u: "days_of u = days_of ?l - k" using days_clock [of 0 "days_of ?l - k"] by (simp add: u_def ns_defs)
  have m: "month_start (month_count t - 3) \<le> days_of u" "days_of u < month_start (month_count t - 2)"
    using month_start_step [of "month_count t - 3"] l u k by simp_all
  then have "month_count u = month_count t" using month_count_iff [of "month_count t" u] by simp
  then have "\<not> IsMarketHoliday ms u" using after_holidays [of ms u] h holiday_range [of ms u] by auto
  then have "IsMarketDay ms u" using k(3) u by (simp add: IsMarketDay_def time_weekday_def)
  then show False using back_finds [of ms ?l] a m u k(1) by auto
qed

function NextLastTradingDayOfMonth :: "MarketStatus \<Rightarrow> gotime \<Rightarrow> gotime" where
  "NextLastTradingDayOfMonth ms t =
     (let tDate = at_clock t 0; firstOfMonth = first_of_month t;
          lastOfMonth = back_to_market_day ms (time_addDate firstOfMonth 0 1 (- 1))
      in if lastOfMonth < tDate then NextLastTradingDayOfMonth ms (time_addDate firstOfMonth 0 1 0) else lastOfMonth)"
  by pat_completeness auto
termination
proof (relation "measure (\<lambda>(ms, t). if month_count t \<le> holiday_month ms then nat (holiday_month ms - month_count t) + 2
    else if days_of t = month_start (month_count t - 3) then 0 else 1)", goal_cases)
  case (2 ms t x xa xb)
  define r where "r = time_addDate (first_of_month t) 0 1 0"
  have d: "days_of r = month_start (month_count t - 2)"
    using days_clock [of 0 "month_start (month_count t - 2)"] by (simp add: r_def addDate_first ns_defs)
  then have c: "month_count r = month_count t + 1" using month_of_start [of r "month_count t + 1"] by simp
  have "days_of t \<noteq> month_start (month_count t - 3)" if n: "\<not> month_count t \<le> holiday_month ms"
  proof
    assume e: "days_of t = month_start (month_count t - 3)"
    have "days_of t * day_ns \<le> back_to_market_day ms (time_addDate (first_of_month t) 0 1 (- 1))"
      using last_day_searched [of ms t] n e time_split [of "back_to_market_day ms (time_addDate (first_of_month t) 0 1 (- 1))"]
      by (simp add: clock_of_def ns_defs)
    then show False using 2 by (simp add: at_clock_day)
  qed
  then show ?case using c d 2(2) by (auto simp: r_def [symmetric] 2)
qed simp

declare NextLastTradingDayOfMonth.simps [simp del]


definition is_month_end :: "MarketStatus \<Rightarrow> gotime \<Rightarrow> bool" where
  "is_month_end ms t \<longleftrightarrow> IsMarketDay ms t \<and> (\<forall>u. month_count u = month_count t \<and> IsMarketDay ms u \<longrightarrow> days_of u \<le> days_of t)"

lemma day_less_iff: "t < n * day_ns \<longleftrightarrow> days_of t < n"
proof -
  have "0 \<le> clock_of t" "clock_of t < day_ns" by (simp_all add: clock_of_def ns_defs)
  then show ?thesis using time_split [of t] mult_right_mono [of n "days_of t" day_ns] mult_right_mono [of "days_of t + 1" n day_ns]
    by (auto simp: ns_defs not_less [symmetric])
qed

lemma last_of_month:
  fixes ms :: MarketStatus
  defines "l t \<equiv> back_to_market_day ms (time_addDate (first_of_month t) 0 1 (- 1))"
  shows "IsMarketDay ms (l t)" "clock_of (l t) = 0" "days_of (l t) < month_start (month_count t - 2)"
    "month_count u = month_count t \<Longrightarrow> IsMarketDay ms u \<Longrightarrow> days_of u \<le> days_of (l t)"
    "l t < at_clock t 0 \<longleftrightarrow> days_of (l t) < days_of t"
proof -
  let ?e = "time_addDate (first_of_month t) 0 1 (- 1)"
  have e: "days_of ?e = month_start (month_count t - 2) - 1" "clock_of ?e = 0"
    using days_clock [of 0 "month_start (month_count t - 2) - 1"] by (simp_all add: addDate_first ns_defs)
  note b = back_finds [of ms ?e]
  show "IsMarketDay ms (l t)" "clock_of (l t) = 0" "days_of (l t) < month_start (month_count t - 2)" using b e by (auto simp: l_def)
  show "l t < at_clock t 0 \<longleftrightarrow> days_of (l t) < days_of t" by (simp add: at_clock_day day_less_iff)
  show "days_of u \<le> days_of (l t)" if "month_count u = month_count t" "IsMarketDay ms u"
    using b e that month_span(2) [of u] by (force simp: l_def)
qed

lemma NextLast_finds:
  "clock_of (NextLastTradingDayOfMonth ms t) = 0 \<and> is_month_end ms (NextLastTradingDayOfMonth ms t)
   \<and> days_of t \<le> days_of (NextLastTradingDayOfMonth ms t)
   \<and> (\<forall>u. is_month_end ms u \<and> days_of t \<le> days_of u \<longrightarrow> days_of (NextLastTradingDayOfMonth ms t) \<le> days_of u)"
proof (induction ms t rule: NextLastTradingDayOfMonth.induct)
  case (1 ms t)
  let ?l = "back_to_market_day ms (time_addDate (first_of_month t) 0 1 (- 1))"
  let ?r = "time_addDate (first_of_month t) 0 1 0"
  note l = last_of_month [where ms = ms]
  have unf: "NextLastTradingDayOfMonth ms t = (if days_of ?l < days_of t then NextLastTradingDayOfMonth ms ?r else ?l)"
    by (simp add: NextLastTradingDayOfMonth.simps [of ms t] l(5))
  have r: "days_of ?r = month_start (month_count t - 2)"
    using days_clock [of 0 "month_start (month_count t - 2)"] by (simp add: addDate_first ns_defs)
  show ?case
  proof (cases "days_of ?l < days_of t")
    case True
    then have *: "NextLastTradingDayOfMonth ms t = NextLastTradingDayOfMonth ms ?r" using unf by simp
    have IH: "clock_of (NextLastTradingDayOfMonth ms ?r) = 0 \<and> is_month_end ms (NextLastTradingDayOfMonth ms ?r)
        \<and> days_of ?r \<le> days_of (NextLastTradingDayOfMonth ms ?r)
        \<and> (\<forall>u. is_month_end ms u \<and> days_of ?r \<le> days_of u \<longrightarrow> days_of (NextLastTradingDayOfMonth ms ?r) \<le> days_of u)"
      by (rule 1 [OF refl refl refl]) (use True in \<open>simp add: l(5)\<close>)
    have "days_of ?r \<le> days_of u" if u: "is_month_end ms u" "days_of t \<le> days_of u" for u
    proof (rule ccontr)
      assume "\<not> days_of ?r \<le> days_of u"
      then have "month_count u = month_count t" using month_count_iff [of "month_count t" u] month_span(1) [of t] u(2) r by simp
      then show False using l(4) [of u t] u True by (auto simp: is_month_end_def)
    qed
    then show ?thesis using IH month_span(2) [of t] r unfolding * by fastforce
  next
    case False
    then have *: "NextLastTradingDayOfMonth ms t = ?l" using unf by simp
    have m: "month_count ?l = month_count t" using month_count_iff [of "month_count t" ?l] month_span(1) [of t] l(3) [of t] False by simp
    have "days_of ?l \<le> days_of u" if u: "is_month_end ms u" "days_of t \<le> days_of u" for u
    proof (rule ccontr)
      assume c: "\<not> days_of ?l \<le> days_of u"
      then have "month_count u = month_count t" using month_count_iff [of "month_count t" u] month_span(1) [of t] l(3) [of t] u(2) by simp
      then show False using u(1) l(1) [of t] m c by (auto simp: is_month_end_def)
    qed
    moreover have "is_month_end ms ?l" using l(1) [of t] l(4) [of _ t] m by (auto simp: is_month_end_def)
    ultimately show ?thesis using l(2) [of t] False unfolding * by simp
  qed
qed

section \<open>Schedule strings\<close>

datatype cron_error = ErrConflictingModifiers | ErrFieldOutOfBounds | ErrMalformedTimeSpec | ErrUnknownModifier | ErrCronParse

definition AtOpen :: string where "AtOpen = ''@open''"
definition AtClose :: string where "AtClose = ''@close''"
definition AtDaily :: string where "AtDaily = ''@daily''"
definition AtWeekBegin :: string where "AtWeekBegin = ''@weekbegin''"
definition AtWeekEnd :: string where "AtWeekEnd = ''@weekend''"
definition AtMonthBegin :: string where "AtMonthBegin = ''@monthbegin''"
definition AtMonthEnd :: string where "AtMonthEnd = ''@monthend''"
definition AtQuarterBegin :: string where "AtQuarterBegin = ''@quarterbegin''"
definition AtQuarterEnd :: string where "AtQuarterEnd = ''@quarterend''"

lemmas flag_defs = AtOpen_def AtClose_def AtDaily_def AtWeekBegin_def AtWeekEnd_def AtMonthBegin_def AtMonthEnd_def
  AtQuarterBegin_def AtQuarterEnd_def

text \<open>\<open>strings.Split\<close> and \<open>strings.Join\<close> with a single space, \<open>strings.TrimSpace\<close> on ASCII text, and \<open>strconv.Atoi\<close>.\<close>

fun split_space :: "string \<Rightarrow> string list" where
  "split_space [] = [[]]"
| "split_space (c # cs) = (if c = CHR '' '' then [] # split_space cs
     else case split_space cs of [] \<Rightarrow> [[c]] | w # ws \<Rightarrow> (c # w) # ws)"

fun join_space :: "string list \<Rightarrow> string" where
  "join_space [] = []"
| "join_space [w] = w"
| "join_space (w # v # ws) = w @ CHR '' '' # join_space (v # ws)"

definition is_space :: "char \<Rightarrow> bool" where
  "is_space c \<longleftrightarrow> c \<in> {CHR '' '', CHR 0x09, CHR 0x0A, CHR 0x0B, CHR 0x0C, CHR 0x0D}"

definition trim_space :: "string \<Rightarrow> string" where
  "trim_space s = rev (dropWhile is_space (rev (dropWhile is_space s)))"

definition is_digit :: "char \<Rightarrow> bool" where
  "is_digit c \<longleftrightarrow> (of_char c :: nat) \<ge> 48 \<and> (of_char c :: nat) \<le> 57"

definition Atoi :: "string \<Rightarrow> int option" where
  "Atoi s =
     (let neg = (case s of c # _ \<Rightarrow> c = CHR ''-'' | [] \<Rightarrow> False);
          ds = (case s of c # cs \<Rightarrow> if c = CHR ''-'' \<or> c = CHR ''+'' then cs else s | [] \<Rightarrow> []);
          v = (if neg then - int (read_nat ds) else int (read_nat ds))
      in if ds = [] \<or> \<not> list_all is_digit ds then None else if - (2 ^ 63) \<le> v \<and> v < 2 ^ 63 then Some v else None)"

definition is_special :: "string \<Rightarrow> bool" where
  "is_special token \<longleftrightarrow> (case token of c # _ \<Rightarrow> c = CHR ''@'' | [] \<Rightarrow> False)"

definition expandBriefFormat :: "string \<Rightarrow> string" where
  "expandBriefFormat spec =
     (let tokens = split_space spec; expectedLength = 5 + length (filter is_special tokens)
      in join_space (tokens @ replicate (expectedLength - length tokens) ''*''))"

text \<open>Go's division truncates toward zero, and the remainder takes the sign of the dividend.\<close>

definition go_div :: "int \<Rightarrow> int \<Rightarrow> int" where "go_div a b = sgn a * sgn b * (\<bar>a\<bar> div \<bar>b\<bar>)"
definition go_mod :: "int \<Rightarrow> int \<Rightarrow> int" where "go_mod a b = a - b * go_div a b"

definition token_value :: "string \<Rightarrow> int option" where
  "token_value s = (if s = ''*'' then Some 0 else Atoi s)"

definition parseTimeRelativeTo :: "string list \<Rightarrow> int \<Rightarrow> int \<Rightarrow> cron_error + string" where
  "parseTimeRelativeTo tokens hours minutes =
     (if length tokens < 5 then Inl ErrMalformedTimeSpec
      else case token_value (tokens ! 0) of None \<Rightarrow> Inl ErrMalformedTimeSpec
      | Some mins0 \<Rightarrow>
        (case token_value (tokens ! 1) of None \<Rightarrow> Inl ErrMalformedTimeSpec
         | Some hrs0 \<Rightarrow>
           let mins1 = wrap64 (mins0 + minutes);
               rolls = mins1 > 59 \<or> mins1 < - 59;
               hrs1 = (if rolls then wrap64 (hrs0 + go_div mins1 60) else hrs0);
               mins2 = (if rolls then go_mod mins1 60 else mins1);
               hrs2 = wrap64 (hrs1 + hours);
               mins3 = (if mins2 < 0 then 60 + mins2 else mins2);
               hrs3 = (if mins2 < 0 then wrap64 (hrs2 - 1) else hrs2)
           in if hrs3 < 0 then Inl ErrFieldOutOfBounds
              else if hrs3 > 23 then Inl ErrFieldOutOfBounds
              else Inr (join_space [show_int mins3, show_int hrs3, tokens ! 2, tokens ! 3, tokens ! 4])))"


lemma wrap64_id: "- (2 ^ 63) \<le> x \<Longrightarrow> x < 2 ^ 63 \<Longrightarrow> wrap64 x = x"
  by (simp add: wrap64_def)

lemma go_div_mod: "a = 60 * go_div a 60 + go_mod a 60 \<and> \<bar>go_mod a 60\<bar> \<le> 59 \<and> \<bar>go_div a 60\<bar> \<le> \<bar>a\<bar>"
proof -
  have q: "b = 60 * (b div 60) + b mod 60" "0 \<le> b mod 60" "b mod 60 \<le> 59" for b :: int by simp_all
  have "go_div a 60 = (if 0 \<le> a then a div 60 else - ((- a) div 60))" by (simp add: go_div_def sgn_if)
  then show ?thesis using q [of a] q [of "- a"] by (auto simp: go_mod_def)
qed

lemma parse_exact:
  assumes n: "\<not> length tokens < 5" and m: "token_value (tokens ! 0) = Some mins" and h: "token_value (tokens ! 1) = Some hrs"
    and b: "\<bar>mins\<bar> \<le> 2 ^ 60" "\<bar>hrs\<bar> \<le> 2 ^ 60" "\<bar>hours\<bar> \<le> 2 ^ 60" "\<bar>minutes\<bar> \<le> 2 ^ 60"
  defines "T \<equiv> 60 * (hrs + hours) + (mins + minutes)"
  shows "parseTimeRelativeTo tokens hours minutes =
    (if 0 \<le> T \<and> T < 24 * 60 then Inr (join_space [show_int (T mod 60), show_int (T div 60), tokens ! 2, tokens ! 3, tokens ! 4])
     else Inl ErrFieldOutOfBounds)"
proof -
  define a where "a = mins + minutes"
  define c where "c = (a > 59 \<or> a < - 59)"
  define h1 m1 where "h1 = (if c then hrs + go_div a 60 else hrs)" and "m1 = (if c then go_mod a 60 else a)"
  define h3 m3 where "h3 = (if m1 < 0 then h1 + hours - 1 else h1 + hours)" and "m3 = (if m1 < 0 then 60 + m1 else m1)"
  have a: "wrap64 a = a" using b by (intro wrap64_id) (auto simp: a_def)
  have g: "a = 60 * go_div a 60 + go_mod a 60" "\<bar>go_mod a 60\<bar> \<le> 59" "\<bar>go_div a 60\<bar> \<le> \<bar>a\<bar>" using go_div_mod [of a] by simp_all
  have h1: "wrap64 (hrs + go_div a 60) = hrs + go_div a 60" using b g(3) by (intro wrap64_id) (auto simp: a_def)
  have bh: "\<bar>h1\<bar> \<le> 2 ^ 60 + 2 ^ 61" using b g(3) by (auto simp: h1_def a_def)
  have h2: "wrap64 (h1 + hours) = h1 + hours" "wrap64 (h1 + hours - 1) = h1 + hours - 1" using b bh by (intro wrap64_id; simp)+
  have m1: "\<bar>m1\<bar> \<le> 59" using g(2) by (auto simp: m1_def c_def)
  have T: "T = 60 * h3 + m3" using g(1) by (simp add: h3_def m3_def h1_def m1_def T_def a_def)
  have m3: "0 \<le> m3" "m3 < 60" using m1 by (auto simp: m3_def)
  have dm: "T div 60 = h3" "T mod 60 = m3" unfolding T using m3 by simp_all
  have in_day: "0 \<le> T \<and> T < 24 * 60 \<longleftrightarrow> \<not> h3 < 0 \<and> \<not> h3 > 23" using T m3 by linarith
  have "parseTimeRelativeTo tokens hours minutes =
      (if h3 < 0 then Inl ErrFieldOutOfBounds else if h3 > 23 then Inl ErrFieldOutOfBounds
       else Inr (join_space [show_int m3, show_int h3, tokens ! 2, tokens ! 3, tokens ! 4]))"
    unfolding parseTimeRelativeTo_def m h Let_def option.case a_def [symmetric] a c_def [symmetric] h1 h1_def [symmetric] m1_def [symmetric]
      h2 h3_def [symmetric] m3_def [symmetric] using n by (simp only: if_False)
  then show ?thesis unfolding in_day dm by simp
qed

record TradeCron =
  tc_Schedule :: "gotime \<Rightarrow> gotime"
  tc_ScheduleString :: string
  tc_TimeSpec :: string
  tc_TimeFlag :: string
  tc_DateFlag :: string
  tc_marketStatus :: MarketStatus

text \<open>
  The modifiers are read one after the other into the time specification, the time flag and the
  date flag; an empty string is a flag that is not set.
\<close>

definition date_flags :: "string list" where
  "date_flags = [AtWeekBegin, AtWeekEnd, AtMonthBegin, AtMonthEnd, AtQuarterBegin, AtQuarterEnd]"

fun read_modifiers :: "string list \<Rightarrow> MarketHours \<Rightarrow> string list \<Rightarrow> string \<times> string \<times> string \<Rightarrow> cron_error + string \<times> string \<times> string" where
  "read_modifiers ts hours [] st = Inr st"
| "read_modifiers ts hours (token # rest) (timeSpec, timeFlag, dateFlag) =
     (if token = AtOpen then
        (if timeFlag \<noteq> [] then Inl ErrConflictingModifiers
         else case parseTimeRelativeTo ts (go_div (mh_Open hours) 100) (go_mod (mh_Open hours) 100) of
             Inl e \<Rightarrow> Inl e
           | Inr spec \<Rightarrow> read_modifiers ts hours rest (spec, AtOpen, dateFlag))
      else if token = AtClose then
        (if timeFlag \<noteq> [] then Inl ErrConflictingModifiers
         else case parseTimeRelativeTo ts (go_div (mh_Close hours) 100) (go_mod (mh_Close hours) 100) of
             Inl e \<Rightarrow> Inl e
           | Inr spec \<Rightarrow> read_modifiers ts hours rest (spec, AtClose, dateFlag))
      else if List.member date_flags token then
        (if dateFlag \<noteq> [] then Inl ErrConflictingModifiers
         else read_modifiers ts hours rest (timeSpec, timeFlag, token))
      else Inl ErrUnknownModifier)"

definition default_time :: "string list \<Rightarrow> MarketHours \<Rightarrow> string \<times> string \<times> string \<Rightarrow> cron_error + string \<times> string \<times> string" where
  "default_time ts hours st =
     (case st of (timeSpec, timeFlag, dateFlag) \<Rightarrow>
        if timeFlag = [] \<and> dateFlag \<noteq> [] then
          if List.member [AtMonthEnd, AtWeekEnd, AtQuarterEnd] dateFlag then
            (case parseTimeRelativeTo ts (go_div (mh_Close hours) 100) (go_mod (mh_Close hours) 100) of
               Inl e \<Rightarrow> Inl e | Inr spec \<Rightarrow> Inr (spec, AtClose, dateFlag))
          else
            (case parseTimeRelativeTo ts (go_div (mh_Open hours) 100) (go_mod (mh_Open hours) 100) of
               Inl e \<Rightarrow> Inl e | Inr spec \<Rightarrow> Inr (spec, AtOpen, dateFlag))
        else Inr st)"

definition New_schedule :: "(string \<Rightarrow> (gotime \<Rightarrow> gotime) option) \<Rightarrow> (int, int) gomap \<Rightarrow> string \<Rightarrow> MarketHours \<Rightarrow> cron_error + TradeCron" where
  "New_schedule specParser holidays cronSpec hours =
     (let trimmed = trim_space cronSpec;
          scheduleStr = expandBriefFormat (if trimmed = AtDaily then ''@open * * *'' else trimmed);
          tokens = split_space scheduleStr;
          specialTokens = filter is_special tokens;
          timeSpecTokens = filter (\<lambda>t. \<not> is_special t) tokens
      in case read_modifiers timeSpecTokens hours specialTokens ([], [], []) of
           Inl e \<Rightarrow> Inl e
         | Inr st \<Rightarrow>
           (case default_time timeSpecTokens hours st of
              Inl e \<Rightarrow> Inl e
            | Inr (timeSpec0, timeFlag, dateFlag) \<Rightarrow>
              let timeSpec = (if timeSpec0 = [] then join_space timeSpecTokens else timeSpec0) in
              case specParser timeSpec of
                None \<Rightarrow> Inl ErrCronParse
              | Some schedule \<Rightarrow>
                Inr \<lparr>tc_Schedule = schedule, tc_ScheduleString = cronSpec, tc_TimeSpec = timeSpec, tc_TimeFlag = timeFlag,
                     tc_DateFlag = dateFlag, tc_marketStatus = \<lparr>ms_hours = hours, ms_holidays = holidays\<rparr>\<rparr>))"


section \<open>The next firing\<close>

definition quarterStartMonth :: "int \<Rightarrow> int" where "quarterStartMonth mo = (mo - 1) div 3 * 3 + 1"

definition quarterEndMonth :: "int \<Rightarrow> int" where "quarterEndMonth mo = quarterStartMonth mo + 2"

definition nextQuarterFirstMonth :: "gotime \<Rightarrow> gotime" where
  "nextQuarterFirstMonth tt =
     (case time_date tt of (year, month, _) \<Rightarrow>
        let start = quarterStartMonth month + 3
        in if start > 12 then time_Date (year + 1) (start - 12) 1 0 else time_Date year start 1 0)"

text \<open>An HHMM value on the day of \<open>t\<close>.\<close>

definition at_hhmm :: "gotime \<Rightarrow> int \<Rightarrow> gotime" where
  "at_hhmm t v = at_clock t (go_div v 100 * hour_ns + go_mod v 100 * minute_ns)"

text \<open>The last instant before the month that starts on the given date.\<close>

definition before_month :: "int \<Rightarrow> int \<Rightarrow> gotime" where
  "before_month y m = time_addDate (time_Date y m 1 end_of_day_clock) 0 0 (- 1)"

definition week_begin_date :: "MarketStatus \<Rightarrow> gotime \<Rightarrow> gotime \<Rightarrow> gotime" where
  "week_begin_date ms forDate nextDate =
     (let checkDate = NextFirstTradingDayOfWeek ms forDate;
          firstTradingDay = at_clock checkDate (clock_of nextDate)
      in if nextDate > firstTradingDay then NextFirstTradingDayOfWeek ms nextDate else checkDate)"

text \<open>The time of the firing on a date: the early close instead of the time of the schedule, for a schedule at the close.\<close>

definition scheduled_close :: "TradeCron \<Rightarrow> gotime \<Rightarrow> gotime \<Rightarrow> gotime" where
  "scheduled_close tc checkDate nextDate =
     (if tc_TimeFlag tc = AtClose \<and> EarlyClose (tc_marketStatus tc) checkDate \<noteq> 0
      then at_hhmm checkDate (EarlyClose (tc_marketStatus tc) checkDate)
      else at_clock checkDate (clock_of nextDate))"

definition week_end_date :: "TradeCron \<Rightarrow> gotime \<Rightarrow> gotime \<Rightarrow> gotime" where
  "week_end_date tc forDate nextDate =
     (let ms = tc_marketStatus tc; checkDate = NextLastTradingDayOfWeek ms forDate
      in if \<not> forDate < scheduled_close tc checkDate nextDate
         then let d = (8 - time_weekday checkDate) mod 7; daysToMonday = (if d = 0 then 7 else d)
              in NextLastTradingDayOfWeek ms (time_addDate checkDate 0 0 daysToMonday)
         else checkDate)"

definition month_begin_date :: "MarketStatus \<Rightarrow> gotime \<Rightarrow> gotime \<Rightarrow> gotime" where
  "month_begin_date ms forDate nextDate =
     (case time_date forDate of (y, m, _) \<Rightarrow>
        let firstTradingDayOfThisMonth = NextFirstTradingDayOfMonth ms (before_month y m);
            dateOnly = at_clock forDate 0
        in if firstTradingDayOfThisMonth > dateOnly \<or> firstTradingDayOfThisMonth = dateOnly
           then if nextDate > at_clock firstTradingDayOfThisMonth (clock_of nextDate)
                then NextFirstTradingDayOfMonth ms forDate else firstTradingDayOfThisMonth
           else let checkDate = NextFirstTradingDayOfMonth ms forDate
                in if nextDate > at_clock checkDate (clock_of nextDate) then NextFirstTradingDayOfMonth ms nextDate else checkDate)"

definition month_end_date :: "TradeCron \<Rightarrow> gotime \<Rightarrow> gotime \<Rightarrow> gotime" where
  "month_end_date tc forDate nextDate =
     (let ms = tc_marketStatus tc; checkDate = NextLastTradingDayOfMonth ms forDate
      in if \<not> forDate < scheduled_close tc checkDate nextDate
         then (case time_date checkDate of (y, m, _) \<Rightarrow> NextLastTradingDayOfMonth ms (time_Date y (m + 1) 1 0))
         else checkDate)"

definition first_of_quarter :: "MarketStatus \<Rightarrow> gotime \<Rightarrow> gotime" where
  "first_of_quarter ms q = (case time_date q of (y, m, _) \<Rightarrow> NextFirstTradingDayOfMonth ms (before_month y m))"

definition quarter_begin_date :: "MarketStatus \<Rightarrow> gotime \<Rightarrow> gotime \<Rightarrow> gotime" where
  "quarter_begin_date ms forDate nextDate =
     (case time_date forDate of (y, m, _) \<Rightarrow>
        let firstTradingDayOfThisQuarter = NextFirstTradingDayOfMonth ms (before_month y (quarterStartMonth m));
            dateOnly = at_clock forDate 0
        in if firstTradingDayOfThisQuarter > dateOnly \<or> firstTradingDayOfThisQuarter = dateOnly
           then if nextDate > at_clock firstTradingDayOfThisQuarter (clock_of nextDate)
                then first_of_quarter ms (nextQuarterFirstMonth forDate) else firstTradingDayOfThisQuarter
           else let checkDate = first_of_quarter ms (nextQuarterFirstMonth forDate)
                in if nextDate > at_clock checkDate (clock_of nextDate)
                   then first_of_quarter ms (nextQuarterFirstMonth nextDate) else checkDate)"

definition quarter_end_date :: "TradeCron \<Rightarrow> gotime \<Rightarrow> gotime \<Rightarrow> gotime" where
  "quarter_end_date tc forDate nextDate =
     (case time_date forDate of (y, m, _) \<Rightarrow>
        let ms = tc_marketStatus tc; checkDate = NextLastTradingDayOfMonth ms (time_Date y (quarterEndMonth m) 1 0)
        in if \<not> forDate < scheduled_close tc checkDate nextDate
           then (case time_date (nextQuarterFirstMonth forDate) of (y', m', _) \<Rightarrow>
                   NextLastTradingDayOfMonth ms (time_Date y' (quarterEndMonth m') 1 0))
           else checkDate)"

text \<open>The date from which the schedule is searched, by the date modifier.\<close>

definition search_from :: "TradeCron \<Rightarrow> gotime \<Rightarrow> gotime" where
  "search_from tc forDate =
     (let ms = tc_marketStatus tc; nextDate = tc_Schedule tc forDate; flag = tc_DateFlag tc;
          checkDate =
            (if flag = AtWeekBegin then week_begin_date ms forDate nextDate
             else if flag = AtWeekEnd then week_end_date tc forDate nextDate
             else if flag = AtMonthBegin then month_begin_date ms forDate nextDate
             else if flag = AtMonthEnd then month_end_date tc forDate nextDate
             else if flag = AtQuarterBegin then quarter_begin_date ms forDate nextDate
             else if flag = AtQuarterEnd then quarter_end_date tc forDate nextDate
             else forDate)
      in if checkDate < forDate then forDate else checkDate)"

text \<open>
  The loop over the firings of the cron schedule. The code panics in the iteration after the
  5001st, which is the value None here.
\<close>

function next_open :: "TradeCron \<Rightarrow> gotime \<Rightarrow> int \<Rightarrow> gotime \<Rightarrow> gotime option" where
  "next_open tc forDate actualIters checkDate0 =
     (if actualIters > 5000 then None
      else let ms = tc_marketStatus tc; checkDate = tc_Schedule tc checkDate0 in
        if IsMarketOpen ms checkDate then Some checkDate
        else if tc_TimeFlag tc = AtClose \<and> IsMarketDay ms checkDate \<and> EarlyClose ms checkDate \<noteq> 0
             \<and> at_hhmm checkDate (EarlyClose ms checkDate) > forDate
        then Some (at_hhmm checkDate (EarlyClose ms checkDate))
        else next_open tc forDate (actualIters + 1) checkDate)"
  by pat_completeness auto
termination by (relation "measure (\<lambda>(_, _, k, _). nat (5001 - k))") auto

declare next_open.simps [simp del]

definition Next :: "TradeCron \<Rightarrow> gotime \<Rightarrow> gotime option" where
  "Next tc forDate = next_open tc forDate 0 (search_from tc forDate)"

definition IsTradeDay :: "TradeCron \<Rightarrow> gotime \<Rightarrow> bool option" where
  "IsTradeDay tc forDate =
     (let startOfDay = at_clock forDate 0;
          previousDay = at_clock (time_addDate startOfDay 0 0 (- 1)) end_of_day_clock
      in case Next tc previousDay of
           None \<Rightarrow> None
         | Some t \<Rightarrow> Some (at_clock t 0 = startOfDay))"


section \<open>When a schedule fires\<close>

text \<open>
  \<open>Schedule.Next\<close> of the cron library gives a time later than its argument; a daily schedule
  fires once a day at a fixed time. The calendar is well formed when an early close lies in the
  session.
\<close>

definition cron_later :: "(gotime \<Rightarrow> gotime) \<Rightarrow> bool" where "cron_later sch \<longleftrightarrow> (\<forall>t. sch t > t)"

definition daily_at :: "int \<Rightarrow> (gotime \<Rightarrow> gotime) \<Rightarrow> bool" where
  "daily_at c sch \<longleftrightarrow> 0 \<le> c \<and> c < day_ns \<and> (\<forall>t. sch t = (if clock_of t < c then at_clock t c else at_clock t c + day_ns))"

definition valid_hhmm :: "int \<Rightarrow> bool" where "valid_hhmm v \<longleftrightarrow> 0 \<le> v \<and> v div 100 < 24 \<and> v mod 100 < 60"

definition hhmm_clock :: "int \<Rightarrow> int" where "hhmm_clock v = v div 100 * hour_ns + v mod 100 * minute_ns"

definition calendar_ok :: "MarketStatus \<Rightarrow> bool" where
  "calendar_ok ms \<longleftrightarrow> valid_hhmm (mh_Open (ms_hours ms)) \<and> valid_hhmm (mh_Close (ms_hours ms))
     \<and> mh_Open (ms_hours ms) \<le> mh_Close (ms_hours ms)
     \<and> list_all (\<lambda>(_, v). v \<noteq> 0 \<longrightarrow> valid_hhmm v \<and> mh_Open (ms_hours ms) \<le> v \<and> v \<le> mh_Close (ms_hours ms)) (ms_holidays ms)"

definition close_of :: "MarketStatus \<Rightarrow> gotime \<Rightarrow> gotime" where
  "close_of ms t = at_hhmm t (if EarlyClose ms t \<noteq> 0 then EarlyClose ms t else mh_Close (ms_hours ms))"

lemma at_hhmm_clock: "valid_hhmm v \<Longrightarrow> at_hhmm t v = days_of t * day_ns + hhmm_clock v"
  by (cases "v = 0") (simp_all add: at_hhmm_def at_clock_day hhmm_clock_def valid_hhmm_def go_div_def go_mod_def minus_mult_div_eq_mod)

lemma hhmm_clock_range: "valid_hhmm v \<Longrightarrow> 0 \<le> hhmm_clock v \<and> hhmm_clock v < day_ns"
proof -
  assume v: "valid_hhmm v"
  then have "0 \<le> v div 100" "0 \<le> v mod 100" by (simp_all add: valid_hhmm_def pos_imp_zdiv_nonneg_iff)
  moreover have "v div 100 \<le> 23" "v mod 100 \<le> 59" using v by (simp_all add: valid_hhmm_def)
  ultimately show ?thesis by (simp add: hhmm_clock_def ns_defs)
qed

lemma at_hhmm_day: "valid_hhmm v \<Longrightarrow> days_of (at_hhmm t v) = days_of t"
  using days_clock [of "hhmm_clock v" "days_of t"] hhmm_clock_range [of v] by (simp add: at_hhmm_clock)

lemma hhmm_at: "valid_hhmm v \<Longrightarrow> hhmm (at_hhmm t v) = v"
proof -
  assume v: "valid_hhmm v"
  define h m where "h = v div 100" and "m = v mod 100"
  have hm: "0 \<le> m" "m < 60" "v = h * 100 + m" using v by (simp_all add: h_def m_def valid_hhmm_def)
  have c: "clock_of (at_hhmm t v) = (60 * h + m) * minute_ns"
    using days_clock [of "hhmm_clock v" "days_of t"] hhmm_clock_range [OF v] v
    by (simp add: at_hhmm_clock hhmm_clock_def h_def m_def ns_defs)
  have "(60 * h + m) * minute_ns div minute_ns = 60 * h + m" by (simp add: ns_defs)
  moreover have "(60 * h + m) * minute_ns div hour_ns = h"
    by (rule int_div_pos_eq [where r = "m * minute_ns"]) (use hm in \<open>simp_all add: ns_defs\<close>)
  moreover have "(60 * h + m) mod 60 = m" using hm by simp
  ultimately have "hhmm (at_hhmm t v) = h * 100 + m" unfolding hhmm_def c by presburger
  then show ?thesis using hm(3) by simp
qed

lemma EarlyClose_day: "days_of t = days_of u \<Longrightarrow> EarlyClose ms t = EarlyClose ms u"
  by (simp add: EarlyClose_def)

lemma early_close_ok:
  assumes "calendar_ok ms" "EarlyClose ms t \<noteq> 0"
  shows "valid_hhmm (EarlyClose ms t) \<and> mh_Open (ms_hours ms) \<le> EarlyClose ms t \<and> EarlyClose ms t \<le> mh_Close (ms_hours ms)"
  using assms by (auto simp: calendar_ok_def EarlyClose_def mget_def list_all_iff dest!: map_of_SomeD split: option.splits)

lemma open_at_hhmm:
  assumes "valid_hhmm v" "IsMarketDay ms t" "mh_Open (ms_hours ms) \<le> v"
    "v \<le> (if \<not> coversFullDay (ms_hours ms) \<and> EarlyClose ms t \<noteq> 0 then EarlyClose ms t else mh_Close (ms_hours ms))"
  shows "IsMarketOpen ms (at_hhmm t v)"
proof -
  have "days_of (at_hhmm t v) = days_of t" using assms(1) by (rule at_hhmm_day)
  then have "IsMarketDay ms (at_hhmm t v)" "EarlyClose ms (at_hhmm t v) = EarlyClose ms t"
    using assms(2) IsMarketDay_day EarlyClose_day by blast+
  then show ?thesis using assms hhmm_at [OF assms(1), of t] by (auto simp: IsMarketOpen_def Let_def split: if_splits)
qed

text \<open>A firing is later than the time asked about and lies in the session of a market day.\<close>

lemma next_open_sound:
  assumes "cron_later (tc_Schedule tc)"
  shows "next_open tc t k s = Some r \<Longrightarrow> t \<le> s \<Longrightarrow> t < r \<and> (calendar_ok (tc_marketStatus tc) \<longrightarrow> IsMarketOpen (tc_marketStatus tc) r)"
  using assms
proof (induction tc t k s rule: next_open.induct)
  case (1 tc t k s)
  let ?ms = "tc_marketStatus tc" and ?c = "tc_Schedule tc s"
  have l: "s < ?c" using 1(4) by (simp add: cron_later_def)
  have k: "\<not> 5000 < k" using 1(2) by (auto simp: next_open.simps [of tc t k s])
  have snap: "calendar_ok ?ms \<longrightarrow> IsMarketOpen ?ms (at_hhmm ?c (EarlyClose ?ms ?c))" if "IsMarketDay ?ms ?c" "EarlyClose ?ms ?c \<noteq> 0"
    using early_close_ok [of ?ms ?c] that open_at_hhmm [of "EarlyClose ?ms ?c" ?ms ?c] by auto
  show ?case
  proof (cases "IsMarketOpen ?ms ?c \<or> (tc_TimeFlag tc = AtClose \<and> IsMarketDay ?ms ?c \<and> EarlyClose ?ms ?c \<noteq> 0 \<and> at_hhmm ?c (EarlyClose ?ms ?c) > t)")
    case True
    then show ?thesis using 1(2,3) l k snap by (auto simp: next_open.simps [of tc t k s] Let_def split: if_splits)
  next
    case False
    then have "next_open tc t (k + 1) ?c = Some r" using 1(2) k by (auto simp: next_open.simps [of tc t k s] Let_def)
    then show ?thesis using 1(1) [OF k refl refl] False 1(3,4) l by auto
  qed
qed

lemma search_from_later: "t \<le> search_from tc t"
  by (simp add: search_from_def Let_def)

lemma Next_sound:
  assumes "cron_later (tc_Schedule tc)" "Next tc t = Some r"
  shows "t < r" "calendar_ok (tc_marketStatus tc) \<Longrightarrow> IsMarketOpen (tc_marketStatus tc) r"
  using next_open_sound [of tc t 0 "search_from tc t" r] assms search_from_later by (auto simp: Next_def)


text \<open>
  A schedule that fires daily at the close, on the last trading day of the month: the firing is
  the close, early or regular, of the first such day whose close is still to come.
\<close>

definition at_daily_close :: "TradeCron \<Rightarrow> bool" where
  "at_daily_close tc \<longleftrightarrow> tc_TimeFlag tc = AtClose \<and> calendar_ok (tc_marketStatus tc) \<and> \<not> coversFullDay (ms_hours (tc_marketStatus tc))
     \<and> daily_at (hhmm_clock (mh_Close (ms_hours (tc_marketStatus tc)))) (tc_Schedule tc)"

lemma close_value:
  assumes "calendar_ok ms"
  obtains v where "close_of ms t = days_of t * day_ns + hhmm_clock v" "valid_hhmm v"
  using assms early_close_ok [OF assms, of t] at_hhmm_clock by (auto simp: close_of_def calendar_ok_def split: if_splits)

lemma days_close: "calendar_ok ms \<Longrightarrow> days_of (close_of ms t) = days_of t"
  using close_value [of ms t] days_clock hhmm_clock_range by metis

lemma close_of_day: "days_of t = days_of u \<Longrightarrow> close_of ms t = close_of ms u"
  by (simp add: close_of_def at_hhmm_def at_clock_day EarlyClose_def)

lemma hhmm_clock_le: "valid_hhmm v \<Longrightarrow> valid_hhmm w \<Longrightarrow> v \<le> w \<Longrightarrow> hhmm_clock v \<le> hhmm_clock w"
proof -
  assume vw: "valid_hhmm v" "valid_hhmm w" "v \<le> w"
  have "v = 100 * (v div 100) + v mod 100" "w = 100 * (w div 100) + w mod 100" "0 \<le> v mod 100" "0 \<le> w mod 100" by simp_all
  moreover have "v mod 100 < 60" "w mod 100 < 60" using vw by (simp_all add: valid_hhmm_def)
  moreover have "v div 100 \<le> w div 100" using vw(3) by (simp add: zdiv_mono1)
  ultimately have "60 * (v div 100) + v mod 100 \<le> 60 * (w div 100) + w mod 100"
    using vw(3) by (cases "v div 100 = w div 100") linarith+
  then show ?thesis by (simp add: hhmm_clock_def ns_defs)
qed

lemma close_le_regular:
  assumes "calendar_ok ms"
  shows "close_of ms t \<le> days_of t * day_ns + hhmm_clock (mh_Close (ms_hours ms))"
  using early_close_ok [OF assms, of t] hhmm_clock_le assms by (auto simp: close_of_def at_hhmm_clock calendar_ok_def)

lemma days_le: "t \<le> u \<Longrightarrow> days_of t \<le> days_of u"
  by (simp add: days_of_def zdiv_mono1 ns_defs)

lemma close_mono: "calendar_ok ms \<Longrightarrow> days_of t \<le> days_of u \<Longrightarrow> close_of ms t \<le> close_of ms u"
  using close_of_day [of t u ms] days_close [of ms t] days_close [of ms u] days_le [of "close_of ms u" "close_of ms t"]
  by (cases "days_of t = days_of u") fastforce+

lemma fires_at_close:
  assumes tc: "at_daily_close tc" and D: "IsMarketDay (tc_marketStatus tc) x" and t: "t < close_of (tc_marketStatus tc) x"
    and sch: "tc_Schedule tc s = at_hhmm x (mh_Close (ms_hours (tc_marketStatus tc)))" and k: "k \<le> 5000"
  shows "next_open tc t k s = Some (close_of (tc_marketStatus tc) x)"
proof -
  let ?ms = "tc_marketStatus tc"
  let ?C = "mh_Close (ms_hours ?ms)"
  have ok: "calendar_ok ?ms" "tc_TimeFlag tc = AtClose" "\<not> coversFullDay (ms_hours ?ms)" using tc by (auto simp: at_daily_close_def)
  have C: "valid_hhmm ?C" "mh_Open (ms_hours ?ms) \<le> ?C" using ok(1) by (auto simp: calendar_ok_def)
  have d: "days_of (at_hhmm x ?C) = days_of x" using C(1) by (rule at_hhmm_day)
  have day: "IsMarketDay ?ms (at_hhmm x ?C)" "EarlyClose ?ms (at_hhmm x ?C) = EarlyClose ?ms x"
    using D IsMarketDay_day [OF d, of ?ms] EarlyClose_day [OF d, of ?ms] by simp_all
  have again: "at_hhmm (at_hhmm x ?C) v = at_hhmm x v" for v unfolding at_hhmm_def [of "at_hhmm x ?C"] at_hhmm_def [of x v] at_clock_day d ..
  show ?thesis
  proof (cases "EarlyClose ?ms x = 0")
    case True
    then have "IsMarketOpen ?ms (at_hhmm x ?C)" using open_at_hhmm [of ?C ?ms x] C D by simp
    then show ?thesis using True k by (simp add: next_open.simps [of tc t k s] sch close_of_def)
  next
    case False
    have E: "EarlyClose ?ms x \<le> ?C" using early_close_ok [OF ok(1) False] by simp
    have op: "IsMarketOpen ?ms (at_hhmm x ?C) \<longleftrightarrow> ?C = EarlyClose ?ms x"
      using E C day False ok(3) hhmm_at [OF C(1), of x] by (auto simp: IsMarketOpen_def Let_def)
    show ?thesis using op False t k ok(2) day again by (simp add: next_open.simps [of tc t k s] sch close_of_def Let_def)
  qed
qed

lemma next_close:
  assumes "at_daily_close tc"
  shows "tc_Schedule tc s = (if clock_of s < hhmm_clock (mh_Close (ms_hours (tc_marketStatus tc)))
      then at_hhmm s (mh_Close (ms_hours (tc_marketStatus tc))) else at_hhmm (s + day_ns) (mh_Close (ms_hours (tc_marketStatus tc))))"
  using assms by (auto simp: at_daily_close_def calendar_ok_def daily_at_def at_clock_day at_hhmm_clock days_shift distrib_right)

lemma before_close:
  assumes "calendar_ok ms" "s < close_of ms s"
  shows "clock_of s < hhmm_clock (mh_Close (ms_hours ms))"
  using close_le_regular [OF assms(1), of s] time_split [of s] assms(2) by linarith

lemma scheduled_is_close:
  assumes "at_daily_close tc"
  shows "scheduled_close tc d (tc_Schedule tc t) = close_of (tc_marketStatus tc) d"
proof -
  let ?C = "mh_Close (ms_hours (tc_marketStatus tc))"
  have C: "valid_hhmm ?C" "daily_at (hhmm_clock ?C) (tc_Schedule tc)" "tc_TimeFlag tc = AtClose"
    using assms by (auto simp: at_daily_close_def calendar_ok_def)
  have "clock_of (tc_Schedule tc t) = hhmm_clock ?C"
    using C(2) days_clock [of "hhmm_clock ?C" "days_of t"] by (auto simp: daily_at_def at_clock_day clock_shift)
  then show ?thesis using C by (simp add: scheduled_close_def close_of_def at_clock_day at_hhmm_clock)
qed

lemma midnight_less_close:
  assumes ok: "calendar_ok ms" and o: "0 < mh_Open (ms_hours ms)" and c: "clock_of d = 0"
  shows "d < close_of ms d"
proof -
  let ?v = "if EarlyClose ms d \<noteq> 0 then EarlyClose ms d else mh_Close (ms_hours ms)"
  have v: "valid_hhmm ?v" "0 < ?v" using ok o early_close_ok [OF ok, of d] by (auto simp: calendar_ok_def)
  have q: "?v = 100 * (?v div 100) + ?v mod 100" "0 \<le> ?v mod 100" by simp_all
  have p: "0 \<le> ?v div 100" using v(2) by (simp add: pos_imp_zdiv_nonneg_iff)
  have "0 < hhmm_clock ?v"
  proof (cases "?v div 100 = 0")
    case True
    then have "0 < ?v mod 100" using q(1) v(2) by linarith
    then show ?thesis using True by (simp add: hhmm_clock_def ns_defs)
  next
    case False
    then have "0 < ?v div 100" using p by linarith
    then show ?thesis using q(2) by (simp add: hhmm_clock_def ns_defs)
  qed
  then show ?thesis using at_hhmm_clock [OF v(1), of d] time_split [of d] c by (simp add: close_of_def)
qed

lemma month_end_day: "is_month_end ms t \<Longrightarrow> days_of t = days_of u \<Longrightarrow> is_month_end ms u"
  using IsMarketDay_day [of t u ms] by (auto simp: is_month_end_def month_count_def time_date_def)

lemma month_end_firing:
  assumes tc: "at_daily_close tc" "tc_DateFlag tc = AtMonthEnd" and o: "0 < mh_Open (ms_hours (tc_marketStatus tc))"
  defines "ms \<equiv> tc_marketStatus tc"
  shows "\<exists>r. Next tc t = Some r \<and> t < r \<and> r = close_of ms r \<and> is_month_end ms r
    \<and> (\<forall>u. is_month_end ms u \<and> t < close_of ms u \<longrightarrow> r \<le> close_of ms u)"
proof -
  have ok: "calendar_ok ms" using tc(1) by (simp add: ms_def at_daily_close_def)
  define D where "D = NextLastTradingDayOfMonth ms t"
  have D: "clock_of D = 0" "is_month_end ms D" "days_of t \<le> days_of D" and Dl: "\<And>u. is_month_end ms u \<Longrightarrow> days_of t \<le> days_of u \<Longrightarrow> days_of D \<le> days_of u"
    using NextLast_finds [of ms t] by (auto simp: D_def)
  have later: "days_of t \<le> days_of u" if "t < close_of ms u" for u using days_le [of t "close_of ms u"] days_close [OF ok] that by simp
  have fires: ?thesis
    if E: "clock_of E = 0" "is_month_end ms E" "t < close_of ms E" "month_end_date tc t (tc_Schedule tc t) = E"
      and le: "\<And>u. is_month_end ms u \<Longrightarrow> t < close_of ms u \<Longrightarrow> days_of E \<le> days_of u" for E
  proof -
    define s where "s = (if E < t then t else E)"
    have s: "search_from tc t = s" using tc(2) E(4) by (simp add: search_from_def Let_def s_def flag_defs)
    have d: "days_of s = days_of E" using days_le [of E t] later [OF E(3)] by (auto simp: s_def)
    have cl: "close_of ms s = close_of ms E" using d by (rule close_of_day)
    have "s < close_of ms s" using midnight_less_close [OF ok _ E(1)] E(3) o unfolding cl by (simp add: s_def ms_def)
    moreover have "IsMarketDay ms s" using E(2) IsMarketDay_day [OF d, of ms] by (simp add: is_month_end_def)
    ultimately have N: "Next tc t = Some (close_of ms E)"
      using fires_at_close [OF tc(1), of s t s 0] next_close [OF tc(1), of s] before_close [OF ok] E(3) cl by (simp add: Next_def s ms_def)
    have dc: "days_of (close_of ms E) = days_of E" by (rule days_close [OF ok])
    show ?thesis using N E(3) close_of_day [OF dc, of ms] month_end_day [OF E(2) dc [symmetric]] le close_mono [OF ok] by auto
  qed
  show ?thesis
  proof (cases "t < close_of ms D")
    case True
    have "month_end_date tc t (tc_Schedule tc t) = D"
      using True scheduled_is_close [OF tc(1)] by (simp add: month_end_date_def Let_def D_def ms_def)
    then show ?thesis using fires [OF D(1,2) True] Dl later by blast
  next
    case False
    define E where "E = month_end_date tc t (tc_Schedule tc t)"
    obtain y m d where ymd: "time_date D = (y, m, d)" by (cases "time_date D")
    then have M: "month_count D = 12 * y + m" by (simp add: month_count_def)
    define f where "f = time_Date y (m + 1) 1 0"
    have f: "days_of f = month_start (month_count D - 2)"
      using days_clock [of 0 "month_start (month_count D - 2)"] by (simp add: f_def time_Date_day1 M ns_defs)
    have EE: "E = NextLastTradingDayOfMonth ms f"
      using False scheduled_is_close [OF tc(1)] ymd by (simp add: E_def month_end_date_def Let_def D_def [symmetric] ms_def [symmetric] f_def)
    have E: "clock_of E = 0" "is_month_end ms E" "days_of f \<le> days_of E"
      and El: "\<And>u. is_month_end ms u \<Longrightarrow> days_of f \<le> days_of u \<Longrightarrow> days_of E \<le> days_of u"
      using NextLast_finds [of ms f] by (auto simp: EE)
    have DE: "days_of D < days_of E" using month_span(2) [of D] f E(3) by simp
    have "t < E" using DE D(3) days_le [of E t] by linarith
    then have tE: "t < close_of ms E" using midnight_less_close [OF ok _ E(1)] o by (simp add: ms_def)
    have "days_of f \<le> days_of u" if u: "is_month_end ms u" "t < close_of ms u" for u
    proof (rule ccontr)
      assume n: "\<not> days_of f \<le> days_of u"
      have "days_of D \<le> days_of u" using Dl [OF u(1) later [OF u(2)]] .
      then have "month_count u = month_count D" using month_count_iff [of "month_count D" u] month_span(1) [of D] n f by simp
      then have "days_of u \<le> days_of D" using u(1) D(2) by (auto simp: is_month_end_def)
      then show False using False u(2) close_mono [OF ok, of u D] by simp
    qed
    then show ?thesis using fires [OF E(1,2) tE] El E_def by blast
  qed
qed


text \<open>The daily schedule of the backtest fires at the close of every market day.\<close>

lemma missed_nothing:
  assumes ok: "calendar_ok ms" and u: "s < close_of ms u" "clock_of s \<ge> hhmm_clock (mh_Close (ms_hours ms))"
  shows "days_of s < days_of u"
proof -
  have "days_of s \<le> days_of u" using days_le [of s "close_of ms u"] days_close [OF ok, of u] u(1) by simp
  moreover have "days_of s \<noteq> days_of u" using close_le_regular [OF ok, of u] time_split [of s] u by auto
  ultimately show ?thesis by simp
qed

lemma daily_loop:
  assumes tc: "at_daily_close tc" and o: "0 < mh_Open (ms_hours (tc_marketStatus tc))"
    and D: "IsMarketDay (tc_marketStatus tc) D" "t < close_of (tc_marketStatus tc) D"
  defines "ms \<equiv> tc_marketStatus tc" and "C \<equiv> mh_Close (ms_hours (tc_marketStatus tc))"
  shows "t \<le> s \<Longrightarrow> (\<And>u. IsMarketDay ms u \<Longrightarrow> t < close_of ms u \<Longrightarrow> s < close_of ms u)
    \<Longrightarrow> n = nat (days_of D - days_of s) + (if clock_of s < hhmm_clock C then 1 else 0) \<Longrightarrow> k + int n \<le> 5000
    \<Longrightarrow> \<exists>r. next_open tc t k s = Some r \<and> t < r \<and> IsMarketDay ms r \<and> r = close_of ms r
      \<and> (\<forall>u. IsMarketDay ms u \<and> t < close_of ms u \<longrightarrow> r \<le> close_of ms u)"
proof (induction n arbitrary: s k rule: less_induct)
  case (less n)
  have ok: "calendar_ok ms" and C: "valid_hhmm C" using tc by (auto simp: ms_def C_def at_daily_close_def calendar_ok_def)
  define x where "x = (if clock_of s < hhmm_clock C then s else s + day_ns)"
  have sch: "tc_Schedule tc s = at_hhmm x C" using next_close [OF tc, of s] by (simp add: x_def C_def ms_def)
  have after: "days_of x \<le> days_of u" if "IsMarketDay ms u" "t < close_of ms u" for u
    using less.prems(2) [OF that] missed_nothing [OF ok, of s u] days_le [of s "close_of ms u"] days_close [OF ok, of u]
    by (cases "clock_of s < hhmm_clock C") (auto simp: x_def days_shift C_def ms_def)
  have k: "k \<le> 5000" using less.prems(4) by simp
  show ?case
  proof (cases "IsMarketDay ms x \<and> t < close_of ms x")
    case True
    have dc: "days_of (close_of ms x) = days_of x" by (rule days_close [OF ok])
    have "next_open tc t k s = Some (close_of ms x)"
      using fires_at_close [OF tc, of x t s k] True sch k by (simp add: ms_def C_def)
    then show ?thesis using True after close_mono [OF ok, of x] close_of_day [OF dc, of ms] IsMarketDay_day [OF dc, of ms] by auto
  next
    case False
    let ?c = "at_hhmm x C"
    have dc: "days_of ?c = days_of x" using C by (rule at_hhmm_day)
    have cc: "clock_of ?c = hhmm_clock C" using days_clock [of "hhmm_clock C" "days_of x"] hhmm_clock_range [OF C] by (simp add: at_hhmm_clock [OF C])
    have le: "close_of ms x \<le> ?c" using close_le_regular [OF ok, of x] by (simp add: at_hhmm_clock [OF C]) (simp add: C_def ms_def)
    have sx: "s \<le> ?c"
    proof -
      have "0 \<le> clock_of s" "clock_of s < day_ns" by (simp_all add: clock_of_def ns_defs)
      then show ?thesis using time_split [of s] hhmm_clock_range [OF C] by (auto simp: x_def at_hhmm_clock [OF C] days_shift distrib_right)
    qed
    have day: "IsMarketDay ms ?c = IsMarketDay ms x" "EarlyClose ms ?c = EarlyClose ms x" "close_of ms ?c = close_of ms x"
      using IsMarketDay_day [OF dc] EarlyClose_day [OF dc] close_of_day [OF dc] by simp_all
    have skip: "next_open tc t k s = next_open tc t (k + 1) ?c"
    proof (cases "IsMarketDay ms x")
      case no: False
      then have "\<not> IsMarketOpen ms ?c" using day(1) by (simp add: IsMarketOpen_def)
      then show ?thesis using k no day(1) by (simp add: next_open.simps [of tc t k s] sch ms_def Let_def)
    next
      case yes: True
      then have early: "close_of ms x \<le> t" using False by simp
      have "EarlyClose ms x \<noteq> 0 \<and> at_hhmm x (EarlyClose ms x) \<le> t \<and> EarlyClose ms x \<noteq> C"
      proof -
        have "t < ?c \<or> s = ?c" using sx less.prems(1) by linarith
        moreover have "s \<noteq> ?c" using dc cc by (auto simp: x_def days_shift split: if_splits)
        ultimately show ?thesis using early by (auto simp: close_of_def C_def ms_def split: if_splits)
      qed
      moreover have "EarlyClose ms x \<le> C" if "EarlyClose ms x \<noteq> 0" using early_close_ok [OF ok that] by (simp add: C_def ms_def)
      moreover have "at_hhmm ?c v = at_hhmm x v" for v unfolding at_hhmm_def [of ?c] at_hhmm_def [of x v] at_clock_day dc ..
      moreover have "\<not> IsMarketOpen ms ?c" if "EarlyClose ms x \<noteq> 0" "EarlyClose ms x < C"
        using that tc day hhmm_at [OF C, of x] by (auto simp: IsMarketOpen_def Let_def at_daily_close_def ms_def)
      ultimately show ?thesis using k day(2) by (simp add: next_open.simps [of tc t k s] sch ms_def Let_def)
    qed
    have far: "days_of x < days_of u" if u: "IsMarketDay ms u" "t < close_of ms u" for u
      using after [OF u] False u IsMarketDay_day [of x u ms] close_of_day [of x u ms] by (cases "days_of x = days_of u") auto
    have inv: "?c < close_of ms u" if u: "IsMarketDay ms u" "t < close_of ms u" for u
      using far [OF u] dc days_close [OF ok, of u] days_le [of "close_of ms u" ?c] by linarith
    have Dx: "days_of x < days_of D" using far D by (simp add: ms_def)
    define m where "m = nat (days_of D - days_of ?c) + (if clock_of ?c < hhmm_clock C then 1 else 0)"
    have m: "m < n" using Dx dc cc less.prems(3) by (auto simp: m_def x_def days_shift)
    show ?thesis unfolding skip
      by (rule less.IH [OF m]) (use less.prems(1,4) sx inv m in \<open>auto simp: m_def\<close>)
  qed
qed

definition calendar_dense :: "MarketStatus \<Rightarrow> bool" where
  "calendar_dense ms \<longleftrightarrow> (\<forall>n. \<exists>u. n < days_of u \<and> days_of u \<le> n + 4000 \<and> IsMarketDay ms u)"

lemma daily_firing:
  assumes tc: "at_daily_close tc" "tc_DateFlag tc = []" and o: "0 < mh_Open (ms_hours (tc_marketStatus tc))"
    and d: "calendar_dense (tc_marketStatus tc)"
  defines "ms \<equiv> tc_marketStatus tc"
  shows "\<exists>r. Next tc t = Some r \<and> t < r \<and> IsMarketDay ms r \<and> r = close_of ms r
    \<and> (\<forall>u. IsMarketDay ms u \<and> t < close_of ms u \<longrightarrow> r \<le> close_of ms u)"
proof -
  have ok: "calendar_ok ms" using tc(1) by (simp add: ms_def at_daily_close_def)
  obtain u where u: "days_of t < days_of u" "days_of u \<le> days_of t + 4000" "IsMarketDay ms u"
    using d by (auto simp: calendar_dense_def ms_def)
  have tu: "t < close_of ms u" using days_close [OF ok, of u] days_le [of "close_of ms u" t] u(1) by linarith
  have s: "search_from tc t = t" using tc(2) by (simp add: search_from_def flag_defs)
  show ?thesis unfolding Next_def s ms_def
    by (rule daily_loop [OF tc(1) o _ _ order_refl _ refl]) (use u tu in \<open>auto simp: ms_def\<close>)
qed

end
