(* ===== verification/Backtest.thy ===== *)
theory Backtest
  imports EngineSound TradeCron
begin

text \<open>
  The set-up of a backtest (engine/backtest.go): the enumeration of the trading days and of the
  firings of the parent and child schedules on them. Shows that the enumeration returns, that the
  steps are exactly the trading days of the range in order, and that every firing of a schedule
  is part of exactly one step, on its own day and in its order.
\<close>

section \<open>Enumerating the firings of a schedule\<close>

partial_function (option) collect_firings :: "(gotime \<Rightarrow> gotime option) \<Rightarrow> gotime \<Rightarrow> gotime \<Rightarrow> gotime list option" where
  "collect_firings nxt end' cur =
     (if cur > end' then Some []
      else Option.bind (nxt (cur + 1)) (\<lambda>c. Option.bind (collect_firings nxt end' c) (\<lambda>xs. Some (cur # xs))))"

definition firings :: "(gotime \<Rightarrow> gotime option) \<Rightarrow> gotime \<Rightarrow> gotime \<Rightarrow> gotime list option" where
  "firings nxt start end' = Option.bind (nxt (start - 1)) (collect_firings nxt end')"

text \<open>The firings of a range grouped by calendar date.\<close>

type_synonym day_firings = "(int \<times> int \<times> int, gotime list) gomap"

definition by_date :: "gotime list \<Rightarrow> day_firings" where
  "by_date ts = foldl (\<lambda>m t. mput (time_date t) (mget [] m (time_date t) @ [t]) m) [] ts"

lemma by_date_filter: "mget [] (by_date ts) k = filter (\<lambda>t. time_date t = k) ts"
proof -
  have "mget [] (foldl (\<lambda>m t. mput (time_date t) (mget [] m (time_date t) @ [t]) m) m ts) k
      = mget [] m k @ filter (\<lambda>t. time_date t = k) ts" for m :: day_firings
    by (induction ts arbitrary: m) (auto simp: mget_def)
  then show ?thesis by (simp add: by_date_def mget_def)
qed

section \<open>The steps of a backtest\<close>

definition step_of :: "day_firings \<Rightarrow> (string \<times> day_firings) list \<Rightarrow> gotime \<Rightarrow> backtestStep" where
  "step_of parents children cur =
     \<lparr>bs_date = cur, bs_parentFirings = mget [] parents (time_date cur),
      bs_childFirings = filter (\<lambda>(_, ts). ts \<noteq> []) (map (\<lambda>(n, m). (n, mget [] m (time_date cur))) children)\<rparr>"

fun child_firings_by_date :: "gotime \<Rightarrow> gotime \<Rightarrow> (string \<times> TradeCron) list \<Rightarrow> (string \<times> day_firings) list option" where
  "child_firings_by_date start end' [] = Some []"
| "child_firings_by_date start end' ((n, tc) # cs) =
     Option.bind (firings (Next tc) start end') (\<lambda>ts.
       Option.bind (child_firings_by_date start end' cs) (\<lambda>rest. Some ((n, by_date ts) # rest)))"

text \<open>The end of the range is extended to the last instant of its day.\<close>

definition inclusive_end :: "gotime \<Rightarrow> gotime" where
  "inclusive_end end' = at_clock end' end_of_day_clock"

definition enumerate_steps :: "TradeCron \<Rightarrow> TradeCron \<Rightarrow> (string \<times> TradeCron) list \<Rightarrow> gotime \<Rightarrow> gotime \<Rightarrow> backtestStep list option" where
  "enumerate_steps daily parent children start end' =
     Option.bind (firings (Next parent) start end') (\<lambda>ps.
       Option.bind (child_firings_by_date start end' children) (\<lambda>cs.
         Option.bind (firings (Next daily) start end') (\<lambda>days.
           Some (map (step_of (by_date ps) cs) days))))"

section \<open>A schedule and its firings\<close>

text \<open>
  What the enumeration needs of a schedule: it always answers, with a later time. A schedule
  with a known set of firings answers with the first one after the time asked about.
\<close>

locale ticker =
  fixes nxt :: "gotime \<Rightarrow> gotime option"
  assumes answers: "nxt t \<noteq> None" and later: "nxt t = Some r \<Longrightarrow> t < r"
begin

lemma collect_sorted:
  "\<exists>xs. collect_firings nxt end' cur = Some xs \<and> sorted_wrt (<) xs \<and> (\<forall>u\<in>set xs. cur \<le> u \<and> u \<le> end' \<and> (u = cur \<or> (\<exists>t. nxt t = Some u)))"
proof (induction "nat (end' - cur + 1)" arbitrary: cur rule: less_induct)
  case less
  show ?case
  proof (cases "cur > end'")
    case True
    then show ?thesis by (auto simp: collect_firings.simps [of nxt end' cur])
  next
    case False
    obtain r where r: "nxt (cur + 1) = Some r" "cur + 1 < r" using answers [of "cur + 1"] later by blast
    obtain xs where xs: "collect_firings nxt end' r = Some xs" "sorted_wrt (<) xs"
        "\<forall>u\<in>set xs. r \<le> u \<and> u \<le> end' \<and> (u = r \<or> (\<exists>t. nxt t = Some u))"
      using less.hyps [of r] r False by force
    then show ?thesis using r False by (force simp: collect_firings.simps [of nxt end' cur])
  qed
qed

lemma firings_sorted:
  "\<exists>xs. firings nxt start end' = Some xs \<and> sorted_wrt (<) xs \<and> (\<forall>u\<in>set xs. start \<le> u \<and> u \<le> end' \<and> (\<exists>t. nxt t = Some u))"
proof -
  obtain r where r: "nxt (start - 1) = Some r" "start - 1 < r" using answers [of "start - 1"] later by blast
  then show ?thesis using collect_sorted [of end' r] by (force simp: firings_def)
qed

end

locale schedule = ticker +
  fixes fires :: "gotime \<Rightarrow> bool"
  assumes first_firing: "nxt t = Some r \<Longrightarrow> fires r \<and> (\<forall>u. fires u \<and> t < u \<longrightarrow> r \<le> u)"
    and apart: "fires u \<Longrightarrow> fires v \<Longrightarrow> u \<noteq> v + 1"
begin

lemma collect_complete:
  "fires cur \<Longrightarrow> collect_firings nxt end' cur = Some xs \<Longrightarrow> fires u \<Longrightarrow> cur \<le> u \<Longrightarrow> u \<le> end' \<Longrightarrow> u \<in> set xs"
proof (induction "nat (end' - cur + 1)" arbitrary: cur xs rule: less_induct)
  case less
  obtain r where r: "nxt (cur + 1) = Some r" "cur + 1 < r" using answers [of "cur + 1"] later by blast
  note f = first_firing [OF r(1)]
  obtain ys where ys: "collect_firings nxt end' r = Some ys" using collect_sorted [of end' r] by blast
  have xs: "xs = cur # ys" using less.prems r ys by (simp add: collect_firings.simps [of nxt end' cur])
  show ?case
  proof (cases "u = cur")
    case False
    then have ru: "r \<le> u" using f less.prems apart [OF less.prems(3) less.prems(1)] by force
    have "u \<in> set ys" by (rule less.hyps [OF _ _ ys less.prems(3) ru less.prems(5)]) (use f r less.prems ru in auto)
    then show ?thesis by (simp add: xs)
  qed (simp add: xs)
qed

lemma firings_exact:
  "\<exists>xs. firings nxt start end' = Some xs \<and> sorted_wrt (<) xs \<and> set xs = {u. fires u \<and> start \<le> u \<and> u \<le> end'}"
proof -
  obtain r where r: "nxt (start - 1) = Some r" "start - 1 < r" using answers [of "start - 1"] later by blast
  obtain xs where xs: "firings nxt start end' = Some xs" "sorted_wrt (<) xs"
      "\<forall>u\<in>set xs. start \<le> u \<and> u \<le> end' \<and> (\<exists>t. nxt t = Some u)" using firings_sorted by blast
  have "u \<in> set xs" if u: "fires u" "start \<le> u" "u \<le> end'" for u
    using collect_complete [of r end' xs u] first_firing [OF r(1)] xs(1) r u by (auto simp: firings_def)
  then show ?thesis using xs first_firing by blast
qed

end

section \<open>Firings of trading schedules\<close>

text \<open>A cron schedule of five fields fires on whole minutes.\<close>

definition cron_minutes :: "(gotime \<Rightarrow> gotime) \<Rightarrow> bool" where "cron_minutes sch \<longleftrightarrow> (\<forall>t. sch t mod minute_ns = 0)"

definition market_close :: "MarketStatus \<Rightarrow> gotime \<Rightarrow> bool" where
  "market_close ms u \<longleftrightarrow> IsMarketDay ms u \<and> u = close_of ms u"

lemma closes_apart:
  assumes "calendar_ok ms" "u = close_of ms u" "v = close_of ms v"
  shows "u \<noteq> v + 1"
proof
  assume e: "u = v + 1"
  have w: "minute_ns dvd close_of ms x" for x
  proof -
    obtain v where "close_of ms x = days_of x * day_ns + hhmm_clock v" by (rule close_value [OF assms(1)])
    then show ?thesis by (auto simp: hhmm_clock_def day_ns_def hour_ns_def intro!: dvd_add)
  qed
  have "minute_ns dvd v + 1" "minute_ns dvd v" using w [of u] w [of v] assms(2,3) e by simp_all
  then have "minute_ns dvd 1" using dvd_diff [of minute_ns "v + 1" v] by simp
  then show False by (simp add: ns_defs)
qed

lemma daily_closes:
  assumes "at_daily_close tc" "tc_DateFlag tc = []" "0 < mh_Open (ms_hours (tc_marketStatus tc))" "calendar_dense (tc_marketStatus tc)"
  shows "schedule (Next tc) (market_close (tc_marketStatus tc))"
proof
  note f = daily_firing [OF assms]
  show "Next tc t \<noteq> None" for t using f [of t] by auto
  show "t < r" if "Next tc t = Some r" for t r using f [of t] that by auto
  show "market_close (tc_marketStatus tc) r \<and> (\<forall>u. market_close (tc_marketStatus tc) u \<and> t < u \<longrightarrow> r \<le> u)" if "Next tc t = Some r" for t r
    using f [of t] that unfolding market_close_def by (metis option.inject)
  show "u \<noteq> v + 1" if "market_close (tc_marketStatus tc) u" "market_close (tc_marketStatus tc) v" for u v
    using closes_apart [of "tc_marketStatus tc" u v] assms(1) that by (auto simp: market_close_def at_daily_close_def)
qed

definition month_end_close :: "MarketStatus \<Rightarrow> gotime \<Rightarrow> bool" where
  "month_end_close ms u \<longleftrightarrow> is_month_end ms u \<and> u = close_of ms u"

lemma month_end_closes:
  assumes "at_daily_close tc" "tc_DateFlag tc = AtMonthEnd" "0 < mh_Open (ms_hours (tc_marketStatus tc))"
  shows "schedule (Next tc) (month_end_close (tc_marketStatus tc))"
proof
  note f = month_end_firing [OF assms]
  show "Next tc t \<noteq> None" for t using f [of t] by auto
  show "t < r" if "Next tc t = Some r" for t r using f [of t] that by auto
  show "month_end_close (tc_marketStatus tc) r \<and> (\<forall>u. month_end_close (tc_marketStatus tc) u \<and> t < u \<longrightarrow> r \<le> u)" if "Next tc t = Some r" for t r
    using f [of t] that unfolding month_end_close_def by (metis option.inject)
  show "u \<noteq> v + 1" if "month_end_close (tc_marketStatus tc) u" "month_end_close (tc_marketStatus tc) v" for u v
    using closes_apart [of "tc_marketStatus tc" u v] assms(1) that by (auto simp: month_end_close_def at_daily_close_def)
qed

definition answering :: "TradeCron \<Rightarrow> bool" where
  "answering tc \<longleftrightarrow> cron_later (tc_Schedule tc) \<and> cron_minutes (tc_Schedule tc) \<and> calendar_ok (tc_marketStatus tc) \<and> (\<forall>t. Next tc t \<noteq> None)"

lemma answering_ticker: "answering tc \<Longrightarrow> ticker (Next tc)"
  by unfold_locales (auto simp: answering_def dest: Next_sound(1))


text \<open>A firing on a whole minute of a session is not after the close of its day.\<close>

lemma minute_le_hhmm:
  assumes m: "minute_ns dvd r" and v: "valid_hhmm v" and h: "hhmm r \<le> v"
  shows "r \<le> at_hhmm r v"
proof -
  define c where "c = clock_of r div minute_ns"
  have "minute_ns dvd clock_of r" using m dvd_mod [of minute_ns r day_ns] by (simp add: clock_of_def day_ns_def hour_ns_def)
  then have c: "clock_of r = c * minute_ns" by (simp add: c_def)
  have "hhmm r = c div 60 * 100 + c mod 60"
  proof -
    have "c * minute_ns div hour_ns = c div 60" by (simp add: hour_ns_def ns_defs)
    then show ?thesis unfolding hhmm_def c by (simp add: ns_defs)
  qed
  moreover have "c = 60 * (c div 60) + c mod 60" "v = 100 * (v div 100) + v mod 100" "0 \<le> c mod 60" "c mod 60 < 60" "0 \<le> v mod 100" "v mod 100 < 60"
    using v by (simp_all add: valid_hhmm_def)
  ultimately have "c \<le> 60 * (v div 100) + v mod 100" using h by (cases "c div 60 \<le> v div 100 - 1") linarith+
  then have "clock_of r \<le> hhmm_clock v" unfolding c by (simp add: hhmm_clock_def ns_defs)
  then show ?thesis using time_split [of r] at_hhmm_clock [OF v, of r] by linarith
qed

lemma next_open_minute:
  assumes "cron_minutes (tc_Schedule tc)" "calendar_ok (tc_marketStatus tc)"
  shows "next_open tc t k s = Some r \<Longrightarrow> minute_ns dvd r"
  using assms
proof (induction tc t k s rule: next_open.induct)
  case (1 tc t k s)
  let ?ms = "tc_marketStatus tc" and ?c = "tc_Schedule tc s"
  have c: "minute_ns dvd ?c" using 1(3) by (simp add: cron_minutes_def mod_0_imp_dvd)
  have k: "\<not> 5000 < k" using 1(2) by (auto simp: next_open.simps [of tc t k s])
  have e: "minute_ns dvd at_hhmm ?c (EarlyClose ?ms ?c)" if "EarlyClose ?ms ?c \<noteq> 0"
    using early_close_ok [OF 1(4) that] by (auto simp: at_hhmm_clock hhmm_clock_def day_ns_def hour_ns_def intro!: dvd_add)
  show ?case
  proof (cases "IsMarketOpen ?ms ?c \<or> (tc_TimeFlag tc = AtClose \<and> IsMarketDay ?ms ?c \<and> EarlyClose ?ms ?c \<noteq> 0 \<and> at_hhmm ?c (EarlyClose ?ms ?c) > t)")
    case True
    then show ?thesis using 1(2) k c e by (auto simp: next_open.simps [of tc t k s] Let_def split: if_splits)
  next
    case False
    then have "next_open tc t (k + 1) ?c = Some r" using 1(2) k by (auto simp: next_open.simps [of tc t k s] Let_def)
    then show ?thesis using 1(1) [OF k refl refl] False 1(3,4) by auto
  qed
qed

lemma next_minute: "cron_minutes (tc_Schedule tc) \<Longrightarrow> calendar_ok (tc_marketStatus tc) \<Longrightarrow> Next tc t = Some r \<Longrightarrow> minute_ns dvd r"
  unfolding Next_def by (rule next_open_minute)

lemma firing_in_session:
  assumes tc: "answering tc" and r: "Next tc t = Some r" and f: "\<not> coversFullDay (ms_hours (tc_marketStatus tc))"
  shows "IsMarketDay (tc_marketStatus tc) r" "r \<le> close_of (tc_marketStatus tc) r"
proof -
  let ?ms = "tc_marketStatus tc"
  have ok: "calendar_ok ?ms" "cron_later (tc_Schedule tc)" "cron_minutes (tc_Schedule tc)" using tc by (auto simp: answering_def)
  have o: "IsMarketOpen ?ms r" using Next_sound(2) [OF ok(2) r ok(1)] .
  then show "IsMarketDay ?ms r" by (auto simp: IsMarketOpen_def split: if_splits)
  define v where "v = (if EarlyClose ?ms r \<noteq> 0 then EarlyClose ?ms r else mh_Close (ms_hours ?ms))"
  have v: "valid_hhmm v" using ok(1) early_close_ok [OF ok(1), of r] by (auto simp: v_def calendar_ok_def)
  have "hhmm r \<le> v" using o f by (auto simp: IsMarketOpen_def Let_def v_def split: if_splits)
  moreover have "minute_ns dvd r" using next_minute [OF ok(3,1) r] .
  ultimately have "r \<le> at_hhmm r v" using minute_le_hhmm [OF _ v] by blast
  then show "r \<le> close_of ?ms r" by (simp add: close_of_def v_def)
qed


section \<open>No firing is lost\<close>

lemma time_date_inj: "time_date t = time_date u \<longleftrightarrow> days_of t = days_of u"
  using days_of_civil_of_days [of "days_of t"] days_of_civil_of_days [of "days_of u"]
  by (auto simp: time_date_def split: prod.splits)

lemma strictly_sorted: "sorted_wrt (<) (xs :: int list) \<longleftrightarrow> sorted xs \<and> distinct xs"
  by (rule strict_sorted_iff)

text \<open>Splitting an increasing list of times by the days of an increasing list of days loses nothing.\<close>

lemma split_by_days:
  assumes "sorted_wrt (<) ts" "sorted_wrt (<) ds" "\<forall>t\<in>set ts. days_of t \<in> days_of ` set ds" "inj_on days_of (set ds)"
  shows "concat (map (\<lambda>d. filter (\<lambda>t. time_date t = time_date d) ts) ds) = ts"
proof -
  let ?f = "\<lambda>d. filter (\<lambda>t. time_date t = time_date d) ts"
  have st: "sorted_wrt (<) (?f d)" for d using assms(1) sorted_wrt_filter by blast
  have "sorted_wrt (<) (concat (map ?f es))" if "sorted_wrt (<) es" "inj_on days_of (set es)" for es
    using that
  proof (induction es)
    case (Cons e es)
    have "x < y" if x: "x \<in> set (?f e)" and y: "y \<in> set (?f d)" and d: "d \<in> set es" for x y d
    proof -
      have "e < d" using Cons.prems(1) d by simp
      then have "days_of e \<le> days_of d" "days_of e \<noteq> days_of d" using days_le [of e d] Cons.prems d by (auto simp: inj_on_def)
      then have "days_of x < days_of y" using x y by (simp add: time_date_inj)
      then show ?thesis using days_le [of y x] by linarith
    qed
    then show ?case using Cons st [of e] by (auto simp: sorted_wrt_append)
  qed simp
  then have "sorted_wrt (<) (concat (map ?f ds))" using assms(2,4) by blast
  moreover have "set (concat (map ?f ds)) = set ts" using assms(3) by (auto simp: time_date_inj)
  ultimately show ?thesis using assms(1) sorted_distinct_set_unique [of "concat (map ?f ds)" ts] by (simp only: strictly_sorted)
qed

lemma child_firings:
  assumes "\<forall>(n, tc)\<in>set cs. ticker (Next tc)"
  shows "\<exists>ms. child_firings_by_date start end' cs = Some ms \<and> map fst ms = map fst cs
    \<and> (\<forall>n tc. map_of cs n = Some tc \<longrightarrow> (\<exists>ts. firings (Next tc) start end' = Some ts \<and> map_of ms n = Some (by_date ts)))"
  using assms
proof (induction cs)
  case (Cons c cs)
  obtain n tc where c: "c = (n, tc)" by (cases c)
  obtain ts where ts: "firings (Next tc) start end' = Some ts" using ticker.firings_sorted [of "Next tc" start end'] Cons.prems c by auto
  obtain ms where "child_firings_by_date start end' cs = Some ms" "map fst ms = map fst cs"
      "\<forall>n tc. map_of cs n = Some tc \<longrightarrow> (\<exists>ts. firings (Next tc) start end' = Some ts \<and> map_of ms n = Some (by_date ts))"
    using Cons by auto
  then show ?case using ts by (intro exI [of _ "(n, by_date ts) # ms"]) (auto simp: c)
qed simp

lemma child_get:
  assumes "distinct (map fst cm)" "map_of cm n = Some m"
  shows "mget [] (filter (\<lambda>(_, ts). ts \<noteq> []) (map (\<lambda>(n, m). (n, mget [] m (time_date d))) cm)) n = mget [] m (time_date d)"
  using assms
proof (induction cm)
  case (Cons c cm)
  have "map_of (filter (\<lambda>(_, ts). ts \<noteq> []) (map (\<lambda>(n, m). (n, mget [] m (time_date d))) cm)) n = None" if "n \<notin> fst ` set cm"
    using that by (force simp: map_of_eq_None_iff)
  then show ?case using Cons by (cases c) (auto simp: mget_def split: if_splits)
qed simp

lemma close_by_end:
  assumes "calendar_ok ms" "u \<le> inclusive_end x"
  shows "close_of ms u \<le> inclusive_end x"
proof -
  have x: "inclusive_end x = days_of x * day_ns + (day_ns - 1)" by (simp add: inclusive_end_def at_clock_day end_of_day_clock_def ns_defs)
  have "days_of u \<le> days_of x" using days_le [OF assms(2)] days_clock [of "day_ns - 1" "days_of x"] by (simp add: x ns_defs)
  then have "days_of (close_of ms u) \<le> days_of x" using days_close [OF assms(1)] by simp
  then show ?thesis using day_less_iff [of "close_of ms u" "days_of x + 1"] by (simp add: x distrib_right)
qed

lemma market_close_same: "market_close ms u \<Longrightarrow> market_close ms v \<Longrightarrow> days_of u = days_of v \<Longrightarrow> u = v"
  unfolding market_close_def using close_of_day by metis

lemma enumeration_complete:
  fixes end' :: gotime
  assumes daily: "at_daily_close daily" "tc_DateFlag daily = []" "0 < mh_Open (ms_hours ms)" "calendar_dense ms" "tc_marketStatus daily = ms"
    and parent: "answering parent" "tc_marketStatus parent = ms"
    and children: "\<forall>(n, tc)\<in>set cs. answering tc \<and> tc_marketStatus tc = ms" "distinct (map fst cs)"
  defines "e \<equiv> inclusive_end end'"
  shows "\<exists>steps. enumerate_steps daily parent cs start e = Some steps
    \<and> sorted_wrt (<) (map bs_date steps) \<and> set (map bs_date steps) = {u. market_close ms u \<and> start \<le> u \<and> u \<le> e}
    \<and> firings (Next parent) start e = Some (concat (map bs_parentFirings steps))
    \<and> (\<forall>n tc. map_of cs n = Some tc \<longrightarrow> firings (Next tc) start e = Some (concat (map (\<lambda>s. mget [] (bs_childFirings s) n) steps)))"
proof -
  have ok: "calendar_ok ms" "\<not> coversFullDay (ms_hours ms)" using daily(1,5) by (auto simp: at_daily_close_def)
  obtain ds where ds: "firings (Next daily) start e = Some ds" "sorted_wrt (<) ds" "set ds = {u. market_close ms u \<and> start \<le> u \<and> u \<le> e}"
    using schedule.firings_exact [OF daily_closes [OF daily(1,2)], of start e] daily(3,4,5) by auto
  have inj: "inj_on days_of (set ds)" using market_close_same [of ms] by (auto simp: ds(3) inj_on_def)
  have covered: "\<exists>ts. firings (Next tc) start e = Some ts \<and> concat (map (\<lambda>d. filter (\<lambda>t. time_date t = time_date d) ts) ds) = ts"
    if tc: "answering tc" "tc_marketStatus tc = ms" for tc
  proof -
    obtain ts where ts: "firings (Next tc) start e = Some ts" "sorted_wrt (<) ts" "\<forall>u\<in>set ts. start \<le> u \<and> u \<le> e \<and> (\<exists>t. Next tc t = Some u)"
      using ticker.firings_sorted [OF answering_ticker [OF tc(1)], of start e] by blast
    have "days_of u \<in> days_of ` set ds" if u: "u \<in> set ts" for u
    proof -
      obtain t where t: "Next tc t = Some u" "start \<le> u" "u \<le> e" using ts(3) u by blast
      have s: "IsMarketDay ms u" "u \<le> close_of ms u" using firing_in_session [OF tc(1) t(1)] ok(2) tc(2) by auto
      have d: "days_of (close_of ms u) = days_of u" by (rule days_close [OF ok(1)])
      have "market_close ms (close_of ms u)" using s(1) IsMarketDay_day [OF d, of ms] close_of_day [OF d, of ms] by (simp add: market_close_def)
      moreover have "close_of ms u \<le> e" using close_by_end [OF ok(1)] t(3) e_def by blast
      ultimately have "close_of ms u \<in> set ds" using ds(3) s(2) t(2) by auto
      then show ?thesis using d image_eqI [of "days_of u" days_of "close_of ms u" "set ds"] by simp
    qed
    then show ?thesis using split_by_days [OF ts(2) ds(2) _ inj] ts(1) by blast
  qed
  obtain ps where ps: "firings (Next parent) start e = Some ps" "concat (map (\<lambda>d. filter (\<lambda>t. time_date t = time_date d) ps) ds) = ps"
    using covered [OF parent] by blast
  obtain cm where cm: "child_firings_by_date start e cs = Some cm" "map fst cm = map fst cs"
      "\<forall>n tc. map_of cs n = Some tc \<longrightarrow> (\<exists>ts. firings (Next tc) start e = Some ts \<and> map_of cm n = Some (by_date ts))"
    using child_firings [of cs start e] children(1) answering_ticker by blast
  have child: "firings (Next tc) start e = Some (concat (map (\<lambda>d. mget [] (bs_childFirings (step_of (by_date ps) cm d)) n) ds))"
    if n: "map_of cs n = Some tc" for n tc
  proof -
    obtain ts where ts: "firings (Next tc) start e = Some ts" "map_of cm n = Some (by_date ts)" using cm(3) n by blast
    have "answering tc \<and> tc_marketStatus tc = ms" using children(1) map_of_SomeD [OF n] by fast
    then have c: "concat (map (\<lambda>d. filter (\<lambda>t. time_date t = time_date d) ts) ds) = ts" using covered [of tc] ts(1) by auto
    have "mget [] (bs_childFirings (step_of (by_date ps) cm d)) n = filter (\<lambda>t. time_date t = time_date d) ts" for d
      using child_get [of cm n "by_date ts" d] ts(2) children(2) cm(2) by (simp add: step_of_def by_date_filter)
    then show ?thesis using c ts(1) by simp
  qed
  have "enumerate_steps daily parent cs start e = Some (map (step_of (by_date ps) cm) ds)"
    by (simp add: enumerate_steps_def ps(1) cm(1) ds(1))
  moreover have "map bs_date (map (step_of (by_date ps) cm) ds) = ds" by (simp add: step_of_def o_def)
  moreover have "concat (map bs_parentFirings (map (step_of (by_date ps) cm) ds)) = ps" using ps(2) by (simp add: step_of_def by_date_filter o_def)
  ultimately show ?thesis using ds(2,3) ps(1) child by (intro exI [of _ "map (step_of (by_date ps) cm) ds"]) (simp add: o_def)
qed

end
