(* ===== verification/BacktestSetup.thy ===== *)
theory BacktestSetup
  imports Backtest
begin

text \<open>
  The set-up of a backtest: the account (engine/engine.go, portfolio/snapshot.go), the assets a
  strategy names, the check that data covers the warm-up window (engine/warmup.go), the last day
  for which end-of-day data can be expected (engine/stale\_data.go), the weights of child
  portfolios (engine/child\_allocations.go), and the whole run. Shows that counting back trading
  days is exact, that a start date accepted in strict mode has enough data, that an account
  restored from a snapshot keeps its books, and that a backtest from a fresh deposit returns with
  all books consistent.
\<close>

section \<open>Accounts\<close>

definition BorrowRate :: "account \<Rightarrow> f64" where
  "BorrowRate a = (if a_borrowRate a > 0 then a_borrowRate a else Fin 0.005)"

text \<open>\<open>WithPortfolioSnapshot\<close>: the snapshot is the account of an earlier run.\<close>

definition put_all_entries :: "('k \<times> 'v) list \<Rightarrow> ('k, 'v) gomap \<Rightarrow> ('k, 'v) gomap" where
  "put_all_entries es m = foldl (\<lambda>m (k, v). mput k v m) m es"

definition append_all_entries :: "('k \<times> 'v list) list \<Rightarrow> ('k, 'v list) gomap \<Rightarrow> ('k, 'v list) gomap" where
  "append_all_entries es m = foldl (\<lambda>m (k, vs). mput k (mget [] m k @ vs) m) m es"

definition WithPortfolioSnapshot :: "account \<Rightarrow> account \<Rightarrow> account" where
  "WithPortfolioSnapshot snap acct =
     acct\<lparr>a_cash := a_cash snap,
          a_holdings := put_all_entries (Holdings snap) (a_holdings acct),
          a_transactions := a_transactions acct @ a_transactions snap,
          a_batches := a_batches acct @ a_batches snap,
          a_perfData := (case a_perfData snap of None \<Rightarrow> a_perfData acct | Some df \<Rightarrow> df_Copy df),
          a_taxLots := append_all_entries (a_taxLots snap) (a_taxLots acct),
          a_tradeDetails := a_tradeDetails acct @ a_tradeDetails snap,
          a_excursions := put_all_entries (a_excursions snap) (a_excursions acct),
          a_shortLots := append_all_entries (a_shortLots snap) (a_shortLots acct)\<rparr>"

record funding =
  fd_account :: "account option"
  fd_snapshot :: "account option"
  fd_initialDeposit :: f64

definition createAccount :: "funding \<Rightarrow> gotime \<Rightarrow> goerr + account" where
  "createAccount fd start =
     (case fd_account fd of
        Some a \<Rightarrow> Inr (if a_hasBroker a then a else SetBroker True a)
      | None \<Rightarrow>
        (case fd_snapshot fd of
           Some snap \<Rightarrow> Inr (SetBroker True (WithPortfolioSnapshot snap account_new))
         | None \<Rightarrow>
           if fd_initialDeposit fd \<le> 0 then Inl (Err ''engine: initial deposit must be positive'')
           else Inr (SetBroker True (WithCash (fd_initialDeposit fd) start account_new))))"

text \<open>The broker of the parent, wired to its account, and the account and broker of a child.\<close>

definition parent_broker :: "pipeline option \<Rightarrow> account \<Rightarrow> simBroker" where
  "parent_broker model acct =
     (let sb = (case model of None \<Rightarrow> NewSimulatedBroker | Some pp \<Rightarrow> SetFillPipeline pp NewSimulatedBroker)
      in sb_SetMaxLeverage (MaxLeverage acct) (SetBorrowRate (BorrowRate acct) (SetPortfolio sb)))"

definition child_seat :: "gotime \<Rightarrow> seat" where
  "child_seat start = \<lparr>se_acct = SetBroker True (WithCash (Fin 100) start account_new), se_brk = SetPortfolio NewSimulatedBroker\<rparr>"

section \<open>The risk-free series\<close>

definition engine_range :: "services \<Rightarrow> asset list \<Rightarrow> metric list \<Rightarrow> gotime \<Rightarrow> gotime \<Rightarrow> engine \<Rightarrow> (goerr + dataframe) option \<times> engine" where
  "engine_range sv assets metrics s t e =
     (case fetchRange (sv_data sv) assets metrics s t (with_cache e) of (r, c) \<Rightarrow> (r, e\<lparr>e_cache := Some c\<rparr>))"

definition risk_free_index :: "gotime list \<Rightarrow> (gotime, nat) gomap" where
  "risk_free_index ts = foldl (\<lambda>m (i, t). mput (midnight_utc t) i m) [] (enumerate 0 ts)"

definition prefetch_risk_free :: "services \<Rightarrow> asset option \<Rightarrow> gotime \<Rightarrow> gotime \<Rightarrow> engine \<Rightarrow> engine option" where
  "prefetch_risk_free sv found start end' e =
     (case found of
        None \<Rightarrow> Some (e\<lparr>e_riskFreeCumulative := 0\<rparr>)
      | Some dgs \<Rightarrow>
        let e1 = e\<lparr>e_riskFreeResolved := True, e_riskFreeAssetDGS := dgs\<rparr> in
        case engine_range sv [dgs] [MetricClose] (time_addDate start (- 2) 0 0) end' e1 of
          (None, _) \<Rightarrow> None
        | (Some (Inl _), e2) \<Rightarrow> Some (e2\<lparr>e_riskFreeCumulative := 0\<rparr>)
        | (Some (Inr df), e2) \<Rightarrow>
            if df_Len df > 0
            then Some (e2\<lparr>e_riskFreeTimes := df_times df,
                          e_riskFreeValues := (case df_Column df dgs MetricClose of Some col \<Rightarrow> col | None \<Rightarrow> replicate (df_Len df) 0),
                          e_riskFreeIndex := risk_free_index (df_times df), e_riskFreeCumulative := 0\<rparr>)
            else Some (e2\<lparr>e_riskFreeCumulative := 0\<rparr>))"

section \<open>The assets of a strategy\<close>

text \<open>
  The exported fields of a strategy as reflection sees them: an asset, a universe with a fixed
  list of members, or anything else.
\<close>

datatype strategy_field = AssetField asset | StaticUniverseField "asset list" | OtherField

definition addAsset :: "asset \<Rightarrow> asset list \<Rightarrow> asset list" where
  "addAsset a result =
     (if a = asset_zero \<or> CompositeFigi a = [] then result
      else if CompositeFigi a \<in> CompositeFigi ` set result then result else result @ [a])"

fun field_assets :: "strategy_field \<Rightarrow> asset list" where
  "field_assets (AssetField a) = [a]"
| "field_assets (StaticUniverseField as) = as"
| "field_assets OtherField = []"

definition collectStrategyAssets :: "strategy_field list \<Rightarrow> asset \<Rightarrow> asset list" where
  "collectStrategyAssets fs benchmark = addAsset benchmark (fold addAsset (concat (map field_assets fs)) [])"

definition appendUniqueAsset :: "asset list \<Rightarrow> asset \<Rightarrow> asset list" where
  "appendUniqueAsset assets candidate = addAsset candidate assets"

text \<open>The assets of the parent and of its children, without repetition.\<close>

definition all_strategy_assets :: "strategy_field list \<Rightarrow> strategy_field list list \<Rightarrow> asset \<Rightarrow> asset list" where
  "all_strategy_assets parent children benchmark =
     foldl appendUniqueAsset (collectStrategyAssets parent benchmark) (concat (map (\<lambda>c. collectStrategyAssets c asset_zero) children))"

section \<open>Warm-up\<close>

fun walk_attempts :: "(gotime \<Rightarrow> gotime option) \<Rightarrow> gotime \<Rightarrow> nat \<Rightarrow> nat list \<Rightarrow> (goerr + gotime) option" where
  "walk_attempts daily from days [] = Some (Inl (Err ''walkBackTradingDays: could not find enough trading days''))"
| "walk_attempts daily from days (attempt # rest) =
     Option.bind (firings daily (time_addDate from 0 0 (- int (days * 2 * 2 ^ attempt))) from) (\<lambda>tradingDays.
       if length tradingDays \<ge> days + 1 then Some (Inr (tradingDays ! (length tradingDays - 1 - days)))
       else walk_attempts daily from days rest)"

definition walkBackTradingDays :: "(gotime \<Rightarrow> gotime option) \<Rightarrow> gotime \<Rightarrow> int \<Rightarrow> (goerr + gotime) option" where
  "walkBackTradingDays daily from days =
     (if days < 0 then Some (Inl (Err ''walkBackTradingDays: days must be non-negative''))
      else if days = 0 then Some (Inr from)
      else walk_attempts daily from (nat days) [0, 1, 2])"

definition priced_count :: "dataframe \<Rightarrow> asset \<Rightarrow> nat" where
  "priced_count df a = (case df_Column df a MetricClose of None \<Rightarrow> 0 | Some col \<Rightarrow> length (filter (\<lambda>v. \<not> isNaN v) col))"

definition checkWarmupData :: "services \<Rightarrow> int \<Rightarrow> asset list \<Rightarrow> gotime \<Rightarrow> gotime \<Rightarrow> engine \<Rightarrow> (goerr + asset list) option \<times> engine" where
  "checkWarmupData sv warmup assets warmupStart tradeStart e =
     (case engine_range sv assets [MetricClose] warmupStart tradeStart e of
        (None, e1) \<Rightarrow> (None, e1)
      | (Some (Inl err), e1) \<Rightarrow> (Some (Inl err), e1)
      | (Some (Inr df), e1) \<Rightarrow> (Some (Inr (filter (\<lambda>a. int (priced_count df a) < warmup) assets)), e1))"

text \<open>The scan for a later start.\<close>

partial_function (option) scan_start :: "services \<Rightarrow> (gotime \<Rightarrow> gotime option) \<Rightarrow> int \<Rightarrow> gotime \<Rightarrow> gotime
    \<Rightarrow> asset list \<Rightarrow> engine \<Rightarrow> ((goerr + gotime) \<times> engine) option" where
  "scan_start sv daily warmup end' candidate assets e =
     (if candidate > end' then Some (Inl (Err ''engine: no valid start date with sufficient warmup data''), e)
      else Option.bind (walkBackTradingDays daily candidate warmup) (\<lambda>w.
        case w of
          Inl err \<Rightarrow> Some (Inl (Wrap ''engine: computing warmup start'' err), e)
        | Inr ws \<Rightarrow>
          (case checkWarmupData sv warmup assets ws candidate e of
             (None, e1) \<Rightarrow> None
           | (Some (Inl err), e1) \<Rightarrow> Some (Inl (Wrap ''engine: checking warmup data'' err), e1)
           | (Some (Inr insufficient), e1) \<Rightarrow>
               if insufficient = [] then Some (Inr candidate, e1)
               else Option.bind (daily (candidate + 1)) (\<lambda>c. scan_start sv daily warmup end' c insufficient e1))))"

definition validateWarmup :: "services \<Rightarrow> (gotime \<Rightarrow> gotime option) \<Rightarrow> (gotime \<Rightarrow> gotime option)
    \<Rightarrow> bool \<Rightarrow> int list \<Rightarrow> asset list \<Rightarrow> gotime \<Rightarrow> gotime \<Rightarrow> engine \<Rightarrow> ((goerr + gotime) \<times> engine) option" where
  "validateWarmup sv daily sched strict warmups assets start end' e =
     (let warmup = (case warmups of [] \<Rightarrow> 0 | w # ws \<Rightarrow> fold max ws w) in
      if warmup = 0 then Some (Inr start, e)
      else if warmup < 0 then Some (Inl (Err ''engine: negative warmup value''), e)
      else Option.bind (sched (start - 1)) (\<lambda>firstTradeDate.
        if assets = [] then Some (Inr start, e)
        else Option.bind (walkBackTradingDays daily firstTradeDate warmup) (\<lambda>w.
          case w of
            Inl err \<Rightarrow> Some (Inl (Wrap ''engine: computing warmup start'' err), e)
          | Inr ws \<Rightarrow>
            (case checkWarmupData sv warmup assets ws firstTradeDate e of
               (None, e1) \<Rightarrow> None
             | (Some (Inl err), e1) \<Rightarrow> Some (Inl (Wrap ''engine: checking warmup data'' err), e1)
             | (Some (Inr insufficient), e1) \<Rightarrow>
                 if insufficient = [] then Some (Inr start, e1)
                 else if strict then Some (Inl (Err ''engine: insufficient warmup data''), e1)
                 else Option.bind (daily (firstTradeDate + 1)) (\<lambda>c. scan_start sv daily warmup end' c insufficient e1)))))"

section \<open>The last day with data\<close>

definition marketCloseHour :: int where "marketCloseHour = 16"

definition previousTradingDay :: "gotime \<Rightarrow> MarketStatus \<Rightarrow> gotime" where
  "previousTradingDay from ms = back_to_market_day ms (time_addDate from 0 0 (- 1))"

definition allStrategyAssetsPriced :: "services \<Rightarrow> asset list \<Rightarrow> gotime \<Rightarrow> engine \<Rightarrow> bool option \<times> engine" where
  "allStrategyAssetsPriced sv assets date e =
     (if assets = [] then (Some True, e)
      else case engine_range sv assets [MetricClose] date date e of
             (None, e1) \<Rightarrow> (None, e1)
           | (Some (Inl _), e1) \<Rightarrow> (Some False, e1)
           | (Some (Inr df), e1) \<Rightarrow>
               (Some (case List.find (\<lambda>i. dateKey (df_times df ! i) = dateKey date) [0..<df_Len df] of
                        None \<Rightarrow> False
                      | Some i \<Rightarrow> list_all (\<lambda>a. case df_Column df a MetricClose of None \<Rightarrow> False
                                          | Some col \<Rightarrow> i < length col \<and> \<not> isNaN (col ! i)) assets), e1))"

definition adjustEndForExpectedEOD :: "services \<Rightarrow> MarketStatus \<Rightarrow> asset list \<Rightarrow> gotime \<Rightarrow> gotime \<Rightarrow> engine \<Rightarrow> gotime option \<times> engine" where
  "adjustEndForExpectedEOD sv ms assets end' now e =
     (let today = at_clock now 0;
          closeToday = at_clock today (marketCloseHour * hour_ns);
          trim = (\<lambda>expectedLast. let expectedEnd = at_clock expectedLast end_of_day_clock in if \<not> end' > expectedEnd then end' else expectedEnd)
      in if IsMarketDay ms today \<and> \<not> now < closeToday
         then (case allStrategyAssetsPriced sv assets today e of
                 (None, e1) \<Rightarrow> (None, e1)
               | (Some True, e1) \<Rightarrow> (Some (trim today), e1)
               | (Some False, e1) \<Rightarrow> (Some (trim (previousTradingDay today ms)), e1))
         else (Some (trim (previousTradingDay today ms)), e))"


section \<open>Child allocations\<close>

definition child_weights :: "(string \<times> f64) list \<Rightarrow> (string, f64) gomap option \<Rightarrow> (string, f64) gomap" where
  "child_weights declared overrides =
     (let weights = put_all_entries declared [] in
      case overrides of None \<Rightarrow> weights | Some ov \<Rightarrow> put_all_entries ov weights)"

definition add_weight :: "asset \<Rightarrow> f64 \<Rightarrow> (asset, f64) gomap \<Rightarrow> (asset, f64) gomap" where
  "add_weight a w m = mput a (mget 0 m a + w) m"

definition child_members :: "f64 \<Rightarrow> account \<Rightarrow> (asset, f64) gomap \<Rightarrow> (asset, f64) gomap" where
  "child_members w acct members =
     (if feq w 0 then members
      else let v = AccountValue acct in
        if feq v 0 then add_weight CashAsset w members
        else let cashFraction = a_cash acct / v;
                 m1 = (if cashFraction > 0 then add_weight CashAsset (w * cashFraction) members else members)
             in foldl (\<lambda>m held. add_weight held (w * (PositionValue acct held / v)) m) m1 (mkeys (Holdings acct)))"

definition ChildAllocations :: "(string \<times> f64 \<times> account) list \<Rightarrow> (string, f64) gomap option \<Rightarrow> goerr + (asset, f64) gomap" where
  "ChildAllocations children overrides =
     (if children = [] then Inr []
      else let weights = child_weights (map (\<lambda>(n, w, a). (n, w)) children) overrides;
               totalWeight = foldl (\<lambda>t (n, w). t + w) 0 weights
        in if totalWeight > 1 + Fin (1 / 10 ^ 9) then Inl (Err ''engine: child weights sum above 1'')
           else Inr (foldl (\<lambda>m (n, _, a). child_members (mget 0 weights n) a m) [] children))"

section \<open>The run\<close>

record config =
  cf_funding :: funding
  cf_margin :: engineMargin
  cf_fillModel :: "pipeline option"
  cf_riskFree :: "asset option"

text \<open>The world a backtest starts from.\<close>

definition set_up :: "program \<Rightarrow> config \<Rightarrow> gotime \<Rightarrow> gotime \<Rightarrow> engine \<Rightarrow> (goerr + world) option" where
  "set_up p cf start end' e =
     (case createAccount (cf_funding cf) start of
        Inl err \<Rightarrow> Some (Inl err)
      | Inr a0 \<Rightarrow>
        let a1 = (if e_benchmark e \<noteq> asset_zero then SetBenchmark (e_benchmark e) a0 else a0);
            acct = applyMarginConfig (cf_margin cf) a1
        in case prefetch_risk_free (pg_services p) (cf_riskFree cf) start end' e of
             None \<Rightarrow> None
           | Some e1 \<Rightarrow>
             Some (Inr \<lparr>w_eng = e1, w_parent = \<lparr>se_acct = acct, se_brk = parent_broker (cf_fillModel cf) acct\<rparr>,
                        w_children = map (\<lambda>(n, _). (n, child_seat start)) (pg_children p)\<rparr>))"

definition run_backtest :: "program \<Rightarrow> config \<Rightarrow> TradeCron \<Rightarrow> TradeCron \<Rightarrow> (string \<times> TradeCron) list
    \<Rightarrow> gotime \<Rightarrow> gotime \<Rightarrow> engine \<Rightarrow> (goerr + goerr option \<times> world) option" where
  "run_backtest p cf daily parent children start end' e =
     Option.bind (set_up p cf start end' e) (\<lambda>r.
       case r of
         Inl err \<Rightarrow> Some (Inl err)
       | Inr w \<Rightarrow> Option.bind (enumerate_steps daily parent children start end') (\<lambda>steps.
           map_option Inr (run_steps p steps w)))"


section \<open>Counting back trading days\<close>

lemma count_after:
  fixes xs :: "int list"
  assumes "sorted_wrt (<) xs" "i < length xs"
  shows "card {u \<in> set xs. xs ! i < u} = length xs - 1 - i"
proof -
  have "{u \<in> set xs. xs ! i < u} = set (drop (Suc i) xs)"
  proof (rule set_eqI)
    fix u
    show "u \<in> {u \<in> set xs. xs ! i < u} \<longleftrightarrow> u \<in> set (drop (Suc i) xs)"
    proof
      assume "u \<in> {u \<in> set xs. xs ! i < u}"
      then obtain j where j: "j < length xs" "u = xs ! j" "xs ! i < xs ! j" by (auto simp: in_set_conv_nth)
      have "\<not> j \<le> i" using sorted_wrt_nth_less [OF assms(1), of j i] assms(2) j by (cases "j = i") auto
      then show "u \<in> set (drop (Suc i) xs)" using j by (auto simp: in_set_conv_nth intro!: exI [of _ "j - Suc i"])
    next
      assume "u \<in> set (drop (Suc i) xs)"
      then obtain j where "j < length (drop (Suc i) xs)" "u = drop (Suc i) xs ! j" by (auto simp only: in_set_conv_nth)
      then have "Suc i + j < length xs" "u = xs ! (Suc i + j)" by simp_all
      then show "u \<in> {u \<in> set xs. xs ! i < u}" using sorted_wrt_nth_less [OF assms(1), of i "Suc i + j"] by auto
    qed
  qed
  moreover have "distinct (drop (Suc i) xs)" using assms(1) by (simp add: strictly_sorted)
  ultimately show ?thesis using assms(2) by (simp add: distinct_card)
qed

context schedule
begin

lemma walk_attempts_exact:
  "\<exists>r. walk_attempts nxt from days ks = Some r
    \<and> (\<forall>d. r = Inr d \<longrightarrow> fires d \<and> d \<le> from \<and> card {u. fires u \<and> d < u \<and> u \<le> from} = days)"
proof (induction ks)
  case (Cons k ks)
  define s where "s = time_addDate from 0 0 (- int (days * 2 * 2 ^ k))"
  obtain xs where xs: "firings nxt s from = Some xs" "sorted_wrt (<) xs" "set xs = {u. fires u \<and> s \<le> u \<and> u \<le> from}"
    using firings_exact by blast
  show ?case
  proof (cases "length xs \<ge> days + 1")
    case True
    define i where "i = length xs - 1 - days"
    have i: "i < length xs" "length xs - 1 - i = days" using True by (auto simp: i_def)
    have d: "xs ! i \<in> set xs" using i(1) by simp
    then have di: "fires (xs ! i)" "s \<le> xs ! i" "xs ! i \<le> from" unfolding xs(3) by simp_all
    have "{u. fires u \<and> xs ! i < u \<and> u \<le> from} = {u \<in> set xs. xs ! i < u}" using di unfolding xs(3) by force
    then have "card {u. fires u \<and> xs ! i < u \<and> u \<le> from} = days" using count_after [OF xs(2) i(1)] i(2) by simp
    moreover have "walk_attempts nxt from days (k # ks) = Some (Inr (xs ! i))" using True xs(1) by (simp add: s_def i_def)
    ultimately show ?thesis using di by simp
  next
    case False
    then have "walk_attempts nxt from days (k # ks) = walk_attempts nxt from days ks" using xs(1) by (simp add: s_def)
    then show ?thesis using Cons by simp
  qed
qed simp

lemma walk_back_exact:
  assumes "0 < days"
  shows "\<exists>r. walkBackTradingDays nxt from days = Some r
    \<and> (\<forall>d. r = Inr d \<longrightarrow> fires d \<and> d \<le> from \<and> int (card {u. fires u \<and> d < u \<and> u \<le> from}) = days)"
  using walk_attempts_exact [of "from" "nat days" "[0, 1, 2]"] assms by (auto simp: walkBackTradingDays_def)

end

section \<open>Data of the warm-up window\<close>

lemma engine_range_reports:
  assumes sv: "services_ok sv q" and e: "engine_ok sv q e" and st: "s \<noteq> t"
    and f: "engine_range sv assets metrics s t e = (r, e')"
  shows "engine_ok sv q e' \<and> ((\<exists>er. r = Some (Inl er)) \<or> (\<exists>df. r = Some (Inr df) \<and> reports q assets metrics s t df))"
proof -
  obtain c where c: "fetchRange (sv_data sv) assets metrics s t (with_cache e) = (r, c)" "e' = e\<lparr>e_cache := Some c\<rparr>"
    using f by (auto simp: engine_range_def split: prod.splits)
  have "providers_quote (sv_data sv) q" "cache_ok q (with_cache e)"
    using sv e by (auto simp: services_ok_def engine_ok_def)
  from fetchRange_reports [OF this c(1) st] show ?thesis using e c(2) by (auto simp: engine_ok_def with_cache_def)
qed

text \<open>The dates of a window on which a close is quoted for an identifier.\<close>

definition quoted_dates :: "quotes \<Rightarrow> string \<Rightarrow> gotime \<Rightarrow> gotime \<Rightarrow> int set" where
  "quoted_dates q f s t = {d \<in> range dateKey. dateKey s \<le> d \<and> d \<le> dateKey t \<and> qt_value q f MetricClose d \<noteq> NaN}"

lemma priced_count_quotes:
  assumes r: "reports q assets [MetricClose] s t df" and a: "a \<in> set assets"
  shows "priced_count df a \<le> card (quoted_dates q (CompositeFigi a) s t)"
proof (cases "df_times df = []")
  case True
  have "length col = 0" if "df_Column df a MetricClose = Some col" for col
    using df_Column_length [OF _ that] r True by (simp add: reports_def)
  then show ?thesis by (auto simp: priced_count_def split: option.splits)
next
  case False
  let ?v = "\<lambda>u. qt_value q (CompositeFigi a) MetricClose (dateKey u)" and ?f = "CompositeFigi a"
  let ?ts = "filter (\<lambda>u. ?v u \<noteq> NaN) (df_times df)"
  have "\<not> IsFundamental MetricClose" by code_simp
  then have "answers q ?f MetricClose (nz_year nyc s) = (\<lambda>u v. v = ?v u)" by (simp add: answers_def fun_eq_iff)
  then obtain col where "df_Column df a MetricClose = Some col" "list_all2 (\<lambda>u v. v = ?v u) (df_times df) col"
    using r a False by (auto simp: reports_def)
  moreover from this have "col = map ?v (df_times df)" by (auto simp: list_all2_conv_all_nth intro!: nth_equalityI)
  ultimately have "priced_count df a = length ?ts" by (simp add: priced_count_def filter_map o_def isNaN_iff)
  also have "\<dots> = card (dateKey ` set ?ts)"
  proof -
    have "distinct (map dateKey (df_times df))" using r by (simp add: reports_def strict_sorted_iff)
    then have "distinct (map dateKey ?ts)" by (rule distinct_map_filter)
    then show ?thesis using distinct_card [of "map dateKey ?ts"] by (simp only: set_map length_map)
  qed
  also have "\<dots> \<le> card (quoted_dates q ?f s t)"
  proof (rule card_mono)
    show "finite (quoted_dates q ?f s t)" by (rule finite_subset [of _ "{dateKey s..dateKey t}"]) (auto simp: quoted_dates_def)
    show "dateKey ` set ?ts \<subseteq> quoted_dates q ?f s t" using r by (auto simp: quoted_dates_def reports_def)
  qed
  finally show ?thesis .
qed

lemma checkWarmupData_enough:
  assumes sv: "services_ok sv q" and e: "engine_ok sv q e" and st: "s \<noteq> t"
    and c: "checkWarmupData sv warmup assets s t e = (Some (Inr []), e')"
  shows "\<forall>a\<in>set assets. warmup \<le> int (card (quoted_dates q (CompositeFigi a) s t))"
proof -
  obtain r e1 where r: "engine_range sv assets [MetricClose] s t e = (r, e1)" by fastforce
  then obtain df where df: "r = Some (Inr df)" "filter (\<lambda>a. int (priced_count df a) < warmup) assets = []"
    using c by (auto simp: checkWarmupData_def split: option.splits sum.splits)
  have R: "reports q assets [MetricClose] s t df" using engine_range_reports [OF sv e st r] df(1) by auto
  have "warmup \<le> int (priced_count df a)" if "a \<in> set assets" for a using df(2) that by (auto simp: filter_empty_conv not_less)
  then show ?thesis using priced_count_quotes [OF R] by force
qed

text \<open>A start date that strict mode accepts is the date asked for, and every asset has the quotes of its warm-up window.\<close>

lemma strict_warmup_enough:
  assumes sv: "services_ok sv q" and e: "engine_ok sv q e"
    and d: "schedule daily fires" and w: "warmup = fold max ws w" "0 < warmup" and ne: "assets \<noteq> []"
    and v: "validateWarmup sv daily sched True (w # ws) assets start end' e = Some (Inr s, e')"
  shows "s = start \<and> (\<exists>first from. sched (start - 1) = Some first \<and> fires from
      \<and> int (card {u. fires u \<and> from < u \<and> u \<le> first}) = warmup
      \<and> (\<forall>a\<in>set assets. warmup \<le> int (card (quoted_dates q (CompositeFigi a) from first))))"
proof -
  obtain f where f: "sched (start - 1) = Some f" using v w ne by (cases "sched (start - 1)") (simp_all add: validateWarmup_def Let_def)
  obtain r where r: "walkBackTradingDays daily f warmup = Some r"
      "\<And>d. r = Inr d \<Longrightarrow> fires d \<and> d \<le> f \<and> int (card {u. fires u \<and> d < u \<and> u \<le> f}) = warmup"
    using schedule.walk_back_exact [OF d w(2), of f] by blast
  obtain x e1 where c: "case r of Inl _ \<Rightarrow> True | Inr b \<Rightarrow> checkWarmupData sv warmup assets b f e = (x, e1)"
    by (cases r) fastforce+
  have V: "(case r of Inl err \<Rightarrow> Some (Inl (Wrap ''engine: computing warmup start'' err), e)
      | Inr ws \<Rightarrow> (case checkWarmupData sv warmup assets ws f e of
          (None, e1) \<Rightarrow> None | (Some (Inl err), e1) \<Rightarrow> Some (Inl (Wrap ''engine: checking warmup data'' err), e1)
        | (Some (Inr insufficient), e1) \<Rightarrow> if insufficient = [] then Some (Inr start, e1)
            else Some (Inl (Err ''engine: insufficient warmup data''), e1))) = Some (Inr s, e')"
    using v w ne f r(1) by (auto simp: validateWarmup_def Let_def split: sum.splits option.splits prod.splits if_splits)
  then obtain b where b: "r = Inr b" by (cases r) auto
  have k: "x = Some (Inr [])" "s = start" using V c by (auto simp: b split: option.splits sum.splits if_splits)
  note R = r(2) [OF b]
  have "{u. fires u \<and> f < u \<and> u \<le> f} = {}" by auto
  then have ne': "b \<noteq> f" using R w(2) by (metis card.empty of_nat_0 less_irrefl)
  have "checkWarmupData sv warmup assets b f e = (Some (Inr []), e1)" using c k by (simp add: b)
  from checkWarmupData_enough [OF sv e ne' this] show ?thesis using f R k(2) by blast
qed


section \<open>The last day of a run has closed\<close>

lemma previous_day: "IsMarketDay ms (previousTradingDay t ms) \<and> days_of (previousTradingDay t ms) < days_of t"
  using back_finds [of ms "time_addDate t 0 0 (- 1)"] next_day(1) [of t "- 1"] by (simp add: previousTradingDay_def)

lemma trimmed_end_closed:
  assumes a: "adjustEndForExpectedEOD sv ms assets end' now e = (Some x, e')" and ok: "calendar_ok ms"
    and h: "mh_Close (ms_hours ms) = 1600" and u: "u = close_of ms u" "u \<le> x"
  shows "x \<le> end' \<and> u \<le> now"
proof -
  define today where "today = at_clock now 0"
  have today: "days_of today = days_of now" "today = days_of now * day_ns" using days_clock [of 0 "days_of now"] by (simp_all add: today_def at_clock_day ns_defs)
  define trim where "trim d = (if \<not> end' > at_clock d end_of_day_clock then end' else at_clock d end_of_day_clock)" for d
  have le: "x \<le> end' \<and> days_of u \<le> days_of d" if x: "x = trim d" for d
  proof -
    have E: "at_clock d end_of_day_clock = inclusive_end d" by (simp add: inclusive_end_def)
    have "u \<le> inclusive_end d" using u(2) x by (auto simp: trim_def E split: if_splits)
    then have "days_of u \<le> days_of (inclusive_end d)" by (rule days_le)
    moreover have "days_of (inclusive_end d) = days_of d"
      using days_clock [of end_of_day_clock "days_of d"] by (simp add: inclusive_end_def at_clock_day end_of_day_clock_def ns_defs)
    ultimately show ?thesis using x by (auto simp: trim_def E split: if_splits)
  qed
  have before: "u \<le> now" if "days_of u < days_of now" using that days_le [of now u] by linarith
  have prev: ?thesis if "x = trim (previousTradingDay today ms)"
    using le [OF that] previous_day [of ms today] before today(1) by linarith
  show ?thesis
  proof (cases "IsMarketDay ms today \<and> \<not> now < at_clock today (marketCloseHour * hour_ns)")
    case True
    have now: "days_of now * day_ns + 16 * hour_ns \<le> now" using True today by (simp add: at_clock_day marketCloseHour_def)
    have td: ?thesis if x: "x = trim today"
    proof -
      have d: "days_of u \<le> days_of now" using le [OF x] today(1) by simp
      have "hhmm_clock 1600 = 16 * hour_ns" by (simp add: hhmm_clock_def)
      then have "u \<le> days_of u * day_ns + 16 * hour_ns" using close_le_regular [OF ok, of u] u(1) h by metis
      then have "u \<le> now" if "days_of u = days_of now" using that now by simp
      then show ?thesis using le [OF x] d before by force
    qed
    show ?thesis using a True td prev
      by (auto simp: adjustEndForExpectedEOD_def Let_def today_def [symmetric] trim_def [symmetric] split: prod.splits option.splits bool.splits)
  next
    case False
    then have "x = trim (previousTradingDay today ms)" using a
      by (auto simp: adjustEndForExpectedEOD_def Let_def today_def [symmetric] trim_def [symmetric])
    then show ?thesis by (rule prev)
  qed
qed

section \<open>Resuming from a snapshot\<close>

lemma put_new: "k \<notin> fst ` set m \<Longrightarrow> mput k v m = m @ [(k, v)]"
  by (induction m) auto

lemma put_all_new: "distinct (mkeys es) \<Longrightarrow> fst ` set es \<inter> fst ` set m = {} \<Longrightarrow> put_all_entries es m = m @ es"
proof (induction es arbitrary: m)
  case (Cons e es)
  obtain k v where e: "e = (k, v)" by (cases e)
  have "put_all_entries (e # es) m = put_all_entries es (m @ [(k, v)])" using Cons.prems put_new [of k m v] by (auto simp: put_all_entries_def e)
  then show ?case using Cons.IH [of "m @ [(k, v)]"] Cons.prems by (auto simp: e)
qed (simp add: put_all_entries_def)

lemma append_all_new: "distinct (mkeys es) \<Longrightarrow> fst ` set es \<inter> fst ` set m = {} \<Longrightarrow> append_all_entries es m = m @ es"
proof (induction es arbitrary: m)
  case (Cons e es)
  obtain k v where e: "e = (k, v)" by (cases e)
  have k: "k \<notin> fst ` set m" using Cons.prems by (auto simp: e)
  then have "mget [] m k = []" by (auto simp: mget_def map_of_eq_None_iff [THEN iffD2] split: option.splits dest: map_of_SomeD)
  then have "append_all_entries (e # es) m = append_all_entries es (m @ [(k, v)])" using put_new [OF k, of v] by (simp add: append_all_entries_def e)
  then show ?case using Cons.IH [of "m @ [(k, v)]"] Cons.prems by (auto simp: e)
qed (simp add: append_all_entries_def)

lemma snapshot_restores:
  assumes "books_ok snap" "a_substitutions snap = []" "mwf (a_taxLots snap)" "mwf (a_shortLots snap)"
  defines "r \<equiv> SetBroker True (WithPortfolioSnapshot snap account_new)"
  shows "a_cash r = a_cash snap \<and> a_holdings r = a_holdings snap \<and> a_transactions r = a_transactions snap
    \<and> a_taxLots r = a_taxLots snap \<and> a_shortLots r = a_shortLots snap \<and> books_ok r"
proof -
  have w: "mwf (a_holdings snap)" using assms(1) by (simp add: books_ok_def)
  have f: "a_cash r = a_cash snap" "a_holdings r = a_holdings snap" "a_transactions r = a_transactions snap"
    "a_taxLots r = a_taxLots snap" "a_shortLots r = a_shortLots snap" "a_recentLossSales r = []" "a_recentBuys r = []"
    using put_all_new [of "a_holdings snap" "[]"] append_all_new [of "a_taxLots snap" "[]"] append_all_new [of "a_shortLots snap" "[]"] w assms(2-4)
    by (simp_all add: r_def SetBroker_def WithPortfolioSnapshot_def account_new_def Holdings_def)
  have "tracking_ok r" by (simp add: tracking_ok_def tracking_fin_def f mget_def)
  then have "books_ok r" using assms(1) by (auto simp: books_ok_def acct_inv_def position_inv_def ledger_def f)
  then show ?thesis using f by simp
qed


section \<open>A whole backtest\<close>

lemma fresh_books: "fin c \<Longrightarrow> books_ok (SetBroker True (WithCash c d account_new))"
proof (rule books_ok_frame)
  show "books (SetBroker True (WithCash c d account_new)) = books (WithCash c d account_new)" by (simp add: SetBroker_def books_def)
  show "fin c \<Longrightarrow> books_ok (WithCash c d account_new)"
    by (simp add: books_ok_def WithCash_def acct_inv_irrelevant ledger_def open_holdings_def transaction_zero_def) (simp add: account_new_def)
qed

definition funding_ok :: "funding \<Rightarrow> bool" where
  "funding_ok fd \<longleftrightarrow> (\<forall>a. fd_account fd = Some a \<longrightarrow> books_ok a)
     \<and> (\<forall>s. fd_snapshot fd = Some s \<longrightarrow> books_ok s \<and> a_substitutions s = [] \<and> mwf (a_taxLots s) \<and> mwf (a_shortLots s))
     \<and> fin (fd_initialDeposit fd)"

lemma createAccount_ok:
  assumes "funding_ok fd" "createAccount fd start = Inr a"
  shows "books_ok a"
proof (cases "fd_account fd")
  case (Some b)
  have "books (SetBroker True b) = books b" by (simp add: SetBroker_def books_def)
  then show ?thesis using assms Some books_ok_frame [of "SetBroker True b" b] by (auto simp: createAccount_def funding_ok_def)
next
  case None
  then show ?thesis using assms snapshot_restores fresh_books
    by (auto simp: createAccount_def funding_ok_def split: option.splits if_splits)
qed

lemma applyMarginConfig_books: "books (applyMarginConfig em a) = books a"
proof -
  have m: "books (SetMaxLeverage x b) = books b" "books (SetGrossMaintenanceLeverage x b) = books b" for x b
    by (simp_all add: SetMaxLeverage_def SetGrossMaintenanceLeverage_def books_def)
  show ?thesis by (auto simp: applyMarginConfig_def Let_def m split: option.splits prod.splits)
qed

lemma engine_range_ok:
  assumes sv: "services_ok sv q" and e: "engine_ok sv q e"
    and f: "engine_range sv assets metrics s t e = (r, e')"
  shows "engine_ok sv q e' \<and> r \<noteq> None"
proof (cases "s = t")
  case True
  obtain c where c: "fetchRange (sv_data sv) assets metrics s t (with_cache e) = (r, c)" "e' = e\<lparr>e_cache := Some c\<rparr>"
    using f by (auto simp: engine_range_def split: prod.splits)
  have "providers_quote (sv_data sv) q" "cache_ok q (with_cache e)"
    using sv e by (auto simp: services_ok_def engine_ok_def)
  from fetchRange_point [OF this, of assets metrics t r c] show ?thesis using e c True by (auto simp: engine_ok_def with_cache_def)
next
  case False
  then show ?thesis using engine_range_reports [OF sv e False f] by auto
qed

lemma engine_ok_riskfree:
  "engine_ok sv q e \<Longrightarrow> engine_ok sv q (e\<lparr>e_riskFreeResolved := a, e_riskFreeAssetDGS := b\<rparr>)"
  "engine_ok sv q e \<Longrightarrow> engine_ok sv q (e\<lparr>e_riskFreeCumulative := x\<rparr>)"
  "engine_ok sv q e \<Longrightarrow> engine_ok sv q (e\<lparr>e_riskFreeTimes := ts, e_riskFreeValues := vs, e_riskFreeIndex := ix, e_riskFreeCumulative := x\<rparr>)"
  by (auto simp: engine_ok_def with_cache_def split: option.splits)

lemma prefetch_ok:
  assumes "services_ok sv q" "engine_ok sv q e"
  shows "\<exists>e'. prefetch_risk_free sv found s t e = Some e' \<and> engine_ok sv q e'"
proof (cases found)
  case (Some dgs)
  let ?e = "e\<lparr>e_riskFreeResolved := True, e_riskFreeAssetDGS := dgs\<rparr>"
  obtain r e1 where r: "engine_range sv [dgs] [MetricClose] (time_addDate s (- 2) 0 0) t ?e = (r, e1)" by fastforce
  have "engine_ok sv q e1 \<and> r \<noteq> None" using engine_range_ok [OF assms(1) engine_ok_riskfree(1) [OF assms(2)] r] .
  then show ?thesis using r Some by (auto simp: prefetch_risk_free_def Let_def engine_ok_riskfree split: sum.splits)
qed (simp add: prefetch_risk_free_def engine_ok_riskfree assms)

lemma set_up_ok:
  assumes p: "program_ok p q" and e: "engine_ok (pg_services p) q e"
    and f: "funding_ok (cf_funding cf)" and m: "\<forall>pp. cf_fillModel cf = Some pp \<longrightarrow> pipe_ok pp"
  shows "(\<exists>err. set_up p cf s t e = Some (Inl err) \<and> createAccount (cf_funding cf) s = Inl err)
    \<or> (\<exists>w. set_up p cf s t e = Some (Inr w) \<and> world_ok p q w)"
proof (cases "createAccount (cf_funding cf) s")
  case (Inr a)
  obtain e1 where e1: "prefetch_risk_free (pg_services p) (cf_riskFree cf) s t e = Some e1" "engine_ok (pg_services p) q e1"
    using prefetch_ok [OF _ e, of "cf_riskFree cf" s t] p by (auto simp: program_ok_def)
  define acct where "acct = applyMarginConfig (cf_margin cf) (if e_benchmark e \<noteq> asset_zero then SetBenchmark (e_benchmark e) a else a)"
  have "books acct = books a" unfolding acct_def applyMarginConfig_books by (simp add: SetBenchmark_def books_def)
  then have A: "books_ok acct" using createAccount_ok [OF f Inr] books_ok_frame by blast
  have B: "broker_ok (parent_broker (cf_fillModel cf) acct)"
    using m by (auto simp: parent_broker_def Let_def broker_ok_def sb_SetMaxLeverage_def SetBorrowRate_def SetPortfolio_def SetFillPipeline_def
        NewSimulatedBroker_def pipe_ok_def split: option.splits)
  have C: "seat_ok (child_seat s)" using fresh_books [of "Fin 100" s]
    by (simp add: seat_ok_def child_seat_def SetPortfolio_def NewSimulatedBroker_def broker_ok_def pipe_ok_def)
  let ?w = "\<lparr>w_eng = e1, w_parent = \<lparr>se_acct = acct, se_brk = parent_broker (cf_fillModel cf) acct\<rparr>,
      w_children = map (\<lambda>(n, _). (n, child_seat s)) (pg_children p)\<rparr>"
  have ch: "map_of (map (\<lambda>(n, _). (n, child_seat s)) cs) n = (if n \<in> fst ` set cs then Some (child_seat s) else None)" for cs n
    by (induction cs) auto
  have "world_ok p q ?w" using A B C e1(2) by (auto simp: world_ok_def seat_ok_def ch mhas_def map_of_eq_None_iff split: if_splits)
  moreover have "set_up p cf s t e = Some (Inr ?w)" using Inr e1(1) by (simp add: set_up_def Let_def acct_def)
  ultimately show ?thesis by blast
qed (simp add: set_up_def)

lemma step_of_ok:
  assumes "fst ` set cm \<subseteq> fst ` set (pg_children p)"
  shows "step_ok p (step_of m cm d)"
proof -
  have "mhas (pg_children p) n" if "(n, ts) \<in> set cm" for n ts
    using assms imageI [OF that, of fst] by (auto simp: mhas_iff_key)
  then show ?thesis by (auto simp: list_all_iff step_ok_def step_of_def)
qed

lemma backtest_sound:
  fixes end0 :: gotime
  assumes p: "program_ok p q" "engine_ok (pg_services p) q e"
    and f: "funding_ok (cf_funding cf)" "\<forall>pp. cf_fillModel cf = Some pp \<longrightarrow> pipe_ok pp"
    and daily: "at_daily_close daily" "tc_DateFlag daily = []" "0 < mh_Open (ms_hours ms)" "calendar_dense ms" "tc_marketStatus daily = ms"
    and parent: "answering parent" "tc_marketStatus parent = ms"
    and children: "\<forall>(n, tc)\<in>set cs. answering tc \<and> tc_marketStatus tc = ms" "distinct (map fst cs)" "fst ` set cs \<subseteq> fst ` set (pg_children p)"
  shows "(\<exists>err. run_backtest p cf daily parent cs start (inclusive_end end0) e = Some (Inl err) \<and> createAccount (cf_funding cf) start = Inl err)
    \<or> (\<exists>er w. run_backtest p cf daily parent cs start (inclusive_end end0) e = Some (Inr (er, w)) \<and> world_ok p q w)"
proof -
  let ?e = "inclusive_end end0"
  obtain steps where s: "enumerate_steps daily parent cs start ?e = Some steps"
    using enumeration_complete [OF daily parent children(1,2), of start end0] by blast
  have ok: "list_all (step_ok p) steps"
  proof -
    obtain ps cm ds where st: "steps = map (step_of (by_date ps) cm) ds" "child_firings_by_date start ?e cs = Some cm"
      using s by (auto simp: enumerate_steps_def bind_eq_Some_conv)
    have "\<forall>(n, tc)\<in>set cs. ticker (Next tc)" using children(1) answering_ticker by blast
    then have "map fst cm = map fst cs" using child_firings [of cs start ?e] st(2) by auto
    then have "fst ` set cm = fst ` set cs" by (simp only: set_map [symmetric])
    then have "fst ` set cm \<subseteq> fst ` set (pg_children p)" using children(3) by simp
    then show ?thesis using step_of_ok by (simp add: st(1) list_all_iff)
  qed
  show ?thesis using set_up_ok [OF p f, of start "?e"]
  proof (elim disjE exE conjE)
    fix w assume w: "set_up p cf start ?e e = Some (Inr w)" "world_ok p q w"
    obtain er w' where "run_steps p steps w = Some (er, w')" "world_ok p q w'"
      using run_steps_ok [OF p(1) ok w(2)] by blast
    then show ?thesis using w s by (simp add: run_backtest_def)
  qed (simp add: run_backtest_def)
qed


section \<open>Child allocations add up\<close>

abbreviation weight_sum :: "(asset, f64) gomap \<Rightarrow> f64" where "weight_sum m \<equiv> sum_list (map snd m)"

lemma add_weight_sum: "weight_sum (add_weight a w m) = weight_sum m + w"
proof -
  have "sum_list (map snd (mput a (mget 0 m a + w) m)) = sum_list (map snd m) + w"
    by (induction m) (auto simp: mget_def ac_simps simp del: zero_f64_Fin)
  then show ?thesis by (simp add: add_weight_def)
qed

lemma add_weights_sum: "weight_sum (foldl (\<lambda>m x. add_weight x (f x) m) m xs) = weight_sum m + sum_list (map f xs)"
  by (induction xs arbitrary: m) (simp_all add: add_weight_sum add.assoc del: zero_f64_Fin)

text \<open>The value of a position, as the account value counts it.\<close>

lemma foldl_value:
  "foldl (\<lambda>total (ast, qty). let v = df_Value df ast MetricClose in if isNaN v then total else total + qty * v) z hs
   = z + sum_list (map (\<lambda>(ast, qty). if isNaN (df_Value df ast MetricClose) then 0 else qty * df_Value df ast MetricClose) hs)"
  by (induction hs arbitrary: z) (auto simp: Let_def add.assoc)

lemma value_is_cash_and_positions:
  assumes h: "open_holdings (a_holdings a)" "mwf (a_holdings a)"
  shows "AccountValue a = a_cash a + sum_list (map (PositionValue a) (mkeys (a_holdings a)))"
proof (cases "a_prices a")
  case None
  then have "map (PositionValue a) (mkeys (a_holdings a)) = map (\<lambda>_. 0) (a_holdings a)"
    by (simp add: PositionValue_def Let_def del: zero_f64_Fin)
  then have "sum_list (map (PositionValue a) (mkeys (a_holdings a))) = 0" by (simp only: sum_list_0)
  then show ?thesis using None by (simp add: AccountValue_def)
next
  case (Some df)
  have "map (PositionValue a) (mkeys (a_holdings a))
      = map (\<lambda>(ast, qty). if isNaN (df_Value df ast MetricClose) then 0 else qty * df_Value df ast MetricClose) (a_holdings a)"
  proof (unfold map_map, rule map_cong [OF refl])
    fix e assume e: "e \<in> set (a_holdings a)"
    obtain x v where x: "e = (x, v)" by (cases e)
    have m: "mget 0 (a_holdings a) x = v" using map_of_is_SomeI [OF h(2), of x v] e x by (simp add: mget_def)
    have "\<not> feq v 0" using h(1) e x by (auto simp: open_holdings_def fin_feq)
    then show "(PositionValue a \<circ> fst) e = (case e of (ast, qty) \<Rightarrow> if isNaN (df_Value df ast MetricClose) then 0 else qty * df_Value df ast MetricClose)"
      using Some m x by (simp add: PositionValue_def Let_def del: zero_f64_Fin)
  qed
  then show ?thesis using Some by (simp only: AccountValue_def option.case foldl_value)
qed


lemma fin_plus_iff: "fin (x + y) \<longleftrightarrow> fin x \<and> fin y"
  by (cases x; cases y) simp_all

lemma fin_sum_parts: "fin (sum_list xs) \<Longrightarrow> x \<in> set xs \<Longrightarrow> fin x" for xs :: "f64 list"
  by (induction xs) (auto simp: fin_plus_iff)

definition child_ok :: "account \<Rightarrow> bool" where
  "child_ok a \<longleftrightarrow> books_ok a \<and> a_substitutions a = [] \<and> fin (AccountValue a) \<and> 0 \<le> a_cash a \<and> 0 < AccountValue a"

lemma scaled_sum:
  assumes "fin w" "fin v" "fval v \<noteq> 0" "\<forall>x\<in>set xs. fin (f x)"
  shows "sum_list (map (\<lambda>x. w * (f x / v)) xs) = Fin (fval w * (sum_list (map (\<lambda>x. fval (f x)) xs) / fval v))"
  using assms(4)
proof (induction xs)
  case (Cons x xs)
  have "fin (w * (f x / v))" "fval (w * (f x / v)) = fval w * (fval (f x) / fval v)" using assms Cons.prems by auto
  then have "w * (f x / v) = Fin (fval w * (fval (f x) / fval v))" by (metis Fin_fval)
  then show ?case using Cons by (simp add: add_divide_distrib distrib_left)
qed simp

lemma child_members_sum:
  assumes w: "fin w" and a: "child_ok a"
  shows "weight_sum (child_members w a m) = weight_sum m + w"
proof (cases "feq w 0")
  case True
  then have "w = 0" using w by (auto simp: fin_feq fin_eq_iff)
  then show ?thesis by (simp add: child_members_def)
next
  case False
  let ?v = "AccountValue a" and ?p = "PositionValue a" and ?hs = "mkeys (a_holdings a)"
  have h: "open_holdings (a_holdings a)" "mwf (a_holdings a)" "fin (a_cash a)" "Holdings a = a_holdings a"
    using a by (auto simp: child_ok_def books_ok_def acct_inv_def Holdings_def)
  have v: "fin ?v" "0 < fval ?v" "0 \<le> fval (a_cash a)" using a h(3) by (auto simp: child_ok_def fin_order)
  have sum: "?v = a_cash a + sum_list (map ?p ?hs)" using h by (intro value_is_cash_and_positions)
  then have fs: "fin (sum_list (map ?p ?hs))" using v(1) by (metis fin_plus_iff)
  then have fp: "\<forall>x\<in>set ?hs. fin (?p x)" using fin_sum_parts by fastforce
  have S: "sum_list (map (\<lambda>x. w * (?p x / ?v)) ?hs) = Fin (fval w * (fval (sum_list (map ?p ?hs)) / fval ?v))"
  proof -
    have "fval (sum_list (map ?p ?hs)) = sum_list (map (\<lambda>x. fval (?p x)) ?hs)"
      by (subst fval_sum_list) (use fp in \<open>auto simp: o_def\<close>)
    then show ?thesis using scaled_sum [OF w v(1) _ fp] v(2) by simp
  qed
  have tot: "fval ?v = fval (a_cash a) + fval (sum_list (map ?p ?hs))" using sum h(3) fs by (metis fval_arith(1))
  have nz: "\<not> feq ?v 0" using v by (auto simp: fin_feq)
  let ?c = "a_cash a / ?v"
  have c: "fin ?c" "fval ?c = fval (a_cash a) / fval ?v" using v h(3) by auto
  have wc: "w * ?c = Fin (fval w * (fval (a_cash a) / fval ?v))" using c w by (metis Fin_fval fin_arith(3) fval_arith(3))
  define m1 where "m1 = (if ?c > 0 then add_weight CashAsset (w * ?c) m else m)"
  have m1: "weight_sum m1 = weight_sum m + Fin (fval w * (fval (a_cash a) / fval ?v))"
  proof (cases "?c > 0")
    case True
    then show ?thesis by (simp add: m1_def add_weight_sum wc)
  next
    case n: False
    then have "fval (a_cash a) / fval ?v \<le> 0" using c by (auto simp: fin_order)
    then have "fval (a_cash a) = 0" using v by (simp add: divide_le_0_iff)
    then show ?thesis using n by (simp add: m1_def)
  qed
  have "child_members w a m = foldl (\<lambda>m held. add_weight held (w * (?p held / ?v)) m) m1 ?hs"
    using False nz h(4) by (simp add: child_members_def Let_def m1_def)
  then have "weight_sum (child_members w a m) = weight_sum m + (Fin (fval w * (fval (a_cash a) / fval ?v))
      + Fin (fval w * (fval (sum_list (map ?p ?hs)) / fval ?v)))"
    using m1 S by (simp only: add_weights_sum add.assoc)
  also have "Fin (fval w * (fval (a_cash a) / fval ?v)) + Fin (fval w * (fval (sum_list (map ?p ?hs)) / fval ?v)) = w"
    using tot v w by (simp add: distrib_left [symmetric] add_divide_distrib [symmetric])
  finally show ?thesis .
qed

lemma child_allocations_sum:
  assumes c: "\<forall>(n, w, a)\<in>set children. child_ok a"
    and w: "\<forall>(n, w, a)\<in>set children. fin (mget 0 (child_weights (map (\<lambda>(n, w, a). (n, w)) children) overrides) n)"
    and r: "ChildAllocations children overrides = Inr members"
  shows "weight_sum members = sum_list (map (\<lambda>(n, w, a). mget 0 (child_weights (map (\<lambda>(n, w, a). (n, w)) children) overrides) n) children)"
proof -
  let ?w = "\<lambda>n. mget 0 (child_weights (map (\<lambda>(n, w, a). (n, w)) children) overrides) n"
  have "weight_sum (foldl (\<lambda>m (n, _, a). child_members (?w n) a m) m cs) = weight_sum m + sum_list (map (\<lambda>(n, w, a). ?w n) cs)"
    if "set cs \<subseteq> set children" for cs m
    using that
  proof (induction cs arbitrary: m)
    case (Cons x cs)
    obtain n w' a where x: "x = (n, w', a)" by (cases x)
    have "weight_sum (child_members (?w n) a m) = weight_sum m + ?w n" using c w Cons.prems x by (intro child_members_sum) auto
    then show ?case using Cons by (simp add: x add.assoc del: zero_f64_Fin)
  qed simp
  from this [of children "[]"] show ?thesis using r
    by (auto simp: ChildAllocations_def Let_def split: if_splits)
qed

end
