(* ===== verification/SampleCalendar.thy ===== *)
theory SampleCalendar
  imports SampleMarket BacktestSetup
begin

text \<open>
  A concrete exchange calendar and the schedules read from the specifications of a daily and a
  monthly backtest, on which the laws of schedules are discharged.
\<close>

declare collect_firings.simps [code]

section \<open>The calendar of the exchange\<close>

text \<open>
  A schedule of the cron library that fires once a day, the two schedules a backtest at the close
  reads from their specifications, and a calendar with holidays and an early close.
\<close>

lemma dense_calendar:
  assumes "length (ms_holidays ms) < 571"
  shows "calendar_dense ms"
  unfolding calendar_dense_def
proof
  fix n :: int
  obtain j where j: "0 \<le> j" "j \<le> 2" "\<not> ((n + 3 - j + 4) mod 7 = 6 \<or> (n + 3 - j + 4) mod 7 = 0)" using weekday_near [of "n + 3"] by blast
  define f where "f k = n + 3 - j + 7 * int k" for k :: nat
  have inj: "inj_on f {..<571}" by (auto simp: f_def inj_on_def)
  have "\<not> f ` {..<571} \<subseteq> set (mkeys (ms_holidays ms))"
  proof
    assume "f ` {..<571} \<subseteq> set (mkeys (ms_holidays ms))"
    then have "card (f ` {..<571}) \<le> card (set (mkeys (ms_holidays ms)))" by (intro card_mono) auto
    also have "\<dots> \<le> length (ms_holidays ms)" using card_length [of "mkeys (ms_holidays ms)"] by simp
    finally show False using assms by (simp add: card_image [OF inj])
  qed
  then obtain k where k: "k < 571" "f k \<notin> set (mkeys (ms_holidays ms))" by blast
  define u where "u = f k * day_ns"
  have u: "days_of u = f k" using days_clock [of 0 "f k"] by (simp add: u_def ns_defs)
  have "(f k + 4) mod 7 = (n + 3 - j + 4) mod 7"
    using mod_mult_self2 [of "n + 3 - j + 4" 7 "int k"] by (simp only: f_def add.commute add.left_commute add.assoc)
  then have "\<not> (time_weekday u = 6 \<or> time_weekday u = 0)" using j(3) unfolding time_weekday_def u by metis
  moreover have "\<not> IsMarketHoliday ms u" using k(2) u by (simp add: IsMarketHoliday_def mhas_iff_key)
  ultimately have "IsMarketDay ms u" by (simp add: IsMarketDay_def)
  moreover have "n < f k" "f k \<le> n + 4000" using j k(1) by (auto simp: f_def)
  ultimately show "\<exists>u. n < days_of u \<and> days_of u \<le> n + 4000 \<and> IsMarketDay ms u" using u by (intro exI [of _ u]) simp
qed

definition every_day :: "int \<Rightarrow> gotime \<Rightarrow> gotime" where
  "every_day c t = (if clock_of t < c then at_clock t c else at_clock t c + day_ns)"

definition at_four :: "string \<Rightarrow> (gotime \<Rightarrow> gotime) option" where
  "at_four spec = (if spec = ''0 16 * * *'' then Some (every_day (16 * hour_ns)) else None)"

definition nyse_holidays :: "(int, int) gomap" where
  "nyse_holidays = SetMarketHolidays
     [\<lparr>hd_Date = time_Date 2024 1 1 0, hd_EarlyClose = False, hd_CloseTime = 0\<rparr>,
      \<lparr>hd_Date = time_Date 2024 1 15 0, hd_EarlyClose = False, hd_CloseTime = 0\<rparr>,
      \<lparr>hd_Date = time_Date 2024 7 3 0, hd_EarlyClose = True, hd_CloseTime = 1300\<rparr>]"

definition nyse :: MarketStatus where "nyse = \<lparr>ms_hours = RegularHours, ms_holidays = nyse_holidays\<rparr>"

definition bell :: "string \<Rightarrow> string \<Rightarrow> TradeCron" where
  "bell spec flag = \<lparr>tc_Schedule = every_day (16 * hour_ns), tc_ScheduleString = spec, tc_TimeSpec = ''0 16 * * *'', tc_TimeFlag = AtClose,
     tc_DateFlag = flag, tc_marketStatus = nyse\<rparr>"

lemma read_bell:
  "read_modifiers [''*'', ''*'', ''*'', ''*'', ''*''] RegularHours [AtClose] ([], [], []) = Inr (''0 16 * * *'', AtClose, [])"
  "read_modifiers [''*'', ''*'', ''*'', ''*'', ''*''] RegularHours [AtMonthEnd] ([], [], []) = Inr ([], [], AtMonthEnd)"
  "default_time [''*'', ''*'', ''*'', ''*'', ''*''] RegularHours (''0 16 * * *'', AtClose, []) = Inr (''0 16 * * *'', AtClose, [])"
  "default_time [''*'', ''*'', ''*'', ''*'', ''*''] RegularHours ([], [], AtMonthEnd) = Inr (''0 16 * * *'', AtClose, AtMonthEnd)"
  by code_simp+

lemma split_bell:
  "trim_space ''@close * * *'' = ''@close * * *''" "trim_space ''@monthend'' = ''@monthend''" "''@close * * *'' \<noteq> AtDaily" "''@monthend'' \<noteq> AtDaily"
  "split_space (expandBriefFormat ''@close * * *'') = [AtClose, ''*'', ''*'', ''*'', ''*'', ''*'']"
  "split_space (expandBriefFormat ''@monthend'') = [AtMonthEnd, ''*'', ''*'', ''*'', ''*'', ''*'']"
  "is_special AtClose" "is_special AtMonthEnd" "\<not> is_special ''*''"
  by code_simp+

lemma New_bell:
  "New_schedule at_four nyse_holidays ''@close * * *'' RegularHours = Inr (bell ''@close * * *'' [])"
  "New_schedule at_four nyse_holidays ''@monthend'' RegularHours = Inr (bell ''@monthend'' AtMonthEnd)"
  unfolding New_schedule_def Let_def by (simp_all add: split_bell read_bell at_four_def bell_def nyse_def del: read_modifiers.simps)

lemma nyse_ok: "calendar_ok nyse" "\<not> coversFullDay (ms_hours nyse)" "0 < mh_Open (ms_hours nyse)" "calendar_dense nyse"
proof -
  show "calendar_ok nyse" by code_simp
  show "\<not> coversFullDay (ms_hours nyse)" "0 < mh_Open (ms_hours nyse)" by code_simp+
  have "length (ms_holidays nyse) = 3" by code_simp
  then show "calendar_dense nyse" by (intro dense_calendar) simp
qed

lemma bell_at_close: "at_daily_close (bell spec flag)"
proof -
  have "hhmm_clock (mh_Close (ms_hours nyse)) = 16 * hour_ns" by code_simp
  then show ?thesis using nyse_ok by (auto simp: at_daily_close_def bell_def daily_at_def every_day_def ns_defs)
qed

interpretation closing: schedule "Next (bell spec [])" "market_close nyse" for spec
  using daily_closes [OF bell_at_close, of spec "[]"] nyse_ok by (simp add: bell_def)

interpretation monthly: schedule "Next (bell spec AtMonthEnd)" "month_end_close nyse" for spec
  using month_end_closes [OF bell_at_close, of spec AtMonthEnd] nyse_ok by (simp add: bell_def)

lemma bell_fields [simp]: "tc_marketStatus (bell spec flag) = nyse" "tc_DateFlag (bell spec flag) = flag"
  by (simp_all add: bell_def)

lemma every_day_later: assumes "0 \<le> c" shows "cron_later (every_day c)"
  unfolding cron_later_def
proof
  fix t
  have "0 \<le> clock_of t" "clock_of t < day_ns" by (simp_all add: clock_of_def ns_defs)
  then show "t < every_day c t" using time_split [of t] assms by (simp add: every_day_def at_clock_day)
qed

lemma every_day_minutes: "minute_ns dvd c \<Longrightarrow> cron_minutes (every_day c)"
  by (auto simp: cron_minutes_def every_day_def at_clock_day day_ns_def hour_ns_def intro!: dvd_imp_mod_0 dvd_add)

lemma bell_answers: "answering (bell spec [])" "answering (bell spec AtMonthEnd)"
proof -
  have "cron_later (every_day (16 * hour_ns))" "cron_minutes (every_day (16 * hour_ns))"
    using every_day_later every_day_minutes by (simp_all add: hour_ns_def minute_ns_def second_ns_def)
  then show "answering (bell spec [])" "answering (bell spec AtMonthEnd)"
    using closing.answers monthly.answers nyse_ok(1) by (simp_all add: answering_def) (simp_all add: bell_def)
qed


section \<open>A backtest from a deposit\<close>

definition plain_config :: config where
  "plain_config = \<lparr>cf_funding = \<lparr>fd_account = None, fd_snapshot = None, fd_initialDeposit = Fin 1000\<rparr>,
     cf_margin = \<lparr>em_description = None, em_marginModel = None, em_maxLeverage = 0, em_grossMaintenanceLeverage = 0\<rparr>,
     cf_fillModel = None, cf_riskFree = None\<rparr>"

definition third_of_january :: gotime where "third_of_january = time_Date 2024 1 3 0"

lemma warmup_checked:
  "\<exists>e. validateWarmup market_services (Next (bell [] [])) (Next (bell [] [])) True [1] [spy] third_of_january (third_of_january + day_ns) fresh_engine
     = Some (Inr third_of_january, e)"
proof -
  have "map_option fst (validateWarmup market_services (Next (bell [] [])) (Next (bell [] [])) True [1] [spy]
      third_of_january (third_of_january + day_ns) fresh_engine) = Some (Inr third_of_january)"
    by code_simp
  then show ?thesis by (auto simp: map_option_eq_Some)
qed

text \<open>An account of an earlier run, with five shares.\<close>

definition saved :: account where
  "saved = holder\<lparr>a_transactions := [transaction_zero\<lparr>t_Type := DepositTransaction, t_Amount := Fin 500\<rparr>]\<rparr>"

lemma saved_ok: "books_ok saved" "a_substitutions saved = []" "mwf (a_taxLots saved)" "mwf (a_shortLots saved)"
proof -
  have p: "position_inv saved x" for x
  proof -
    have "a_shortLots saved = []" by (simp add: saved_def) (simp add: holder_def account_new_def)
    then show ?thesis by (cases "x = spy") (auto simp: position_inv_def lots_match_def mget_def saved_def)
  qed
  have "tracking_ok saved" by (simp add: tracking_ok_def tracking_fin_def saved_def mget_def) (simp add: holder_def account_new_def)
  then show "books_ok saved" using p
    by (simp add: books_ok_def acct_inv_def ledger_def open_holdings_def) (simp add: saved_def transaction_zero_def)
  show "a_substitutions saved = []" "mwf (a_taxLots saved)" "mwf (a_shortLots saved)" by (simp_all add: saved_def) (simp_all add: holder_def account_new_def)
qed

end
