(* ===== verification/GainReplay.thy ===== *)
theory GainReplay
  imports Ledger
begin

text \<open>
  The replay of the transaction log behind the tax metrics (portfolio/metric\_helpers.go):
  first-in first-out lot matching, one gain event per closing transaction, dividend income,
  and \<open>RealizedGainsYTD\<close> of account.go. Shows that a replay accounts for every traded dollar
  and that a date window only selects events.
\<close>

section \<open>Replaying the log\<close>

record replay_lot =
  rl_date :: gotime
  rl_qty :: f64
  rl_price :: f64

record gainEvent =
  ge_date :: gotime
  ge_ltcg :: f64
  ge_stcg :: f64

definition inRange :: "gotime \<Rightarrow> gotime \<Rightarrow> gotime \<Rightarrow> bool" where
  "inRange start end' date \<longleftrightarrow>
     \<not> (start \<noteq> time_zero \<and> date < start) \<and> \<not> (end' \<noteq> time_zero \<and> date > end')"

text \<open>\<open>consume\<close>: the pieces handed to the callback, the lots left and the unmatched quantity.\<close>

fun consume :: "replay_lot list \<Rightarrow> f64 \<Rightarrow> (replay_lot \<times> f64) list \<times> replay_lot list \<times> f64" where
  "consume [] qty = ([], [], qty)"
| "consume (l # ls) qty =
     (if qty > 0 then
        let matchedQty = (if rl_qty l > qty then qty else rl_qty l) in
        if rl_qty l \<le> qty
        then (case consume ls (qty - rl_qty l) of (ms, rest, q) \<Rightarrow> ((l, matchedQty) # ms, rest, q))
        else ([(l, matchedQty)], l\<lparr>rl_qty := rl_qty l - qty\<rparr> # ls, 0)
      else ([], l # ls, qty))"

record replay =
  rp_longLots :: "(string, replay_lot list) gomap"
  rp_shortLots :: "(string, replay_lot list) gomap"
  rp_events :: "gainEvent list"
  rp_qualDiv :: f64
  rp_nonQualDiv :: f64

definition replay_start :: replay where
  "replay_start = \<lparr>rp_longLots = [], rp_shortLots = [], rp_events = [], rp_qualDiv = 0, rp_nonQualDiv = 0\<rparr>"

definition open_lot :: "string \<Rightarrow> transaction \<Rightarrow> f64 \<Rightarrow> (string, replay_lot list) gomap \<Rightarrow> (string, replay_lot list) gomap" where
  "open_lot key txn remaining m =
     (if remaining > 0
      then mput key (mget [] m key @ [\<lparr>rl_date = t_Date txn, rl_qty = remaining, rl_price = t_Price txn\<rparr>]) m
      else m)"

definition add_event :: "bool \<Rightarrow> gainEvent \<Rightarrow> gainEvent list \<Rightarrow> gainEvent list" where
  "add_event attribute event events =
     (if attribute \<and> (\<not> feq (ge_ltcg event) 0 \<or> \<not> feq (ge_stcg event) 0) then events @ [event] else events)"

definition cover_gain :: "transaction \<Rightarrow> gainEvent \<Rightarrow> replay_lot \<times> f64 \<Rightarrow> gainEvent" where
  "cover_gain txn event = (\<lambda>(matched, q). event\<lparr>ge_stcg := ge_stcg event + (rl_price matched - t_Price txn) * q\<rparr>)"

definition close_gain :: "transaction \<Rightarrow> gainEvent \<Rightarrow> replay_lot \<times> f64 \<Rightarrow> gainEvent" where
  "close_gain txn event = (\<lambda>(matched, q).
     let gain = (t_Price txn - rl_price matched) * q in
     if days_between (t_Date txn) (rl_date matched) > 365
     then event\<lparr>ge_ltcg := ge_ltcg event + gain\<rparr>
     else event\<lparr>ge_stcg := ge_stcg event + gain\<rparr>)"

definition matched_event ::
    "(transaction \<Rightarrow> gainEvent \<Rightarrow> replay_lot \<times> f64 \<Rightarrow> gainEvent) \<Rightarrow> bool \<Rightarrow> transaction \<Rightarrow> (replay_lot \<times> f64) list \<Rightarrow> gainEvent" where
  "matched_event gain attribute txn ms =
     (let event = \<lparr>ge_date = t_Date txn, ge_ltcg = 0, ge_stcg = 0\<rparr>
      in if attribute then foldl (gain txn) event ms else event)"

definition replay_buy :: "bool \<Rightarrow> transaction \<Rightarrow> replay \<Rightarrow> replay" where
  "replay_buy attribute txn s =
     (let key = CompositeFigi (t_Asset txn) in
      case consume (mget [] (rp_shortLots s) key) (t_Qty txn) of (ms, rest, remaining) \<Rightarrow>
        s\<lparr>rp_shortLots := mput key rest (rp_shortLots s),
          rp_longLots := open_lot key txn remaining (rp_longLots s),
          rp_events := add_event attribute (matched_event cover_gain attribute txn ms) (rp_events s)\<rparr>)"

definition replay_sell :: "bool \<Rightarrow> transaction \<Rightarrow> replay \<Rightarrow> replay" where
  "replay_sell attribute txn s =
     (let key = CompositeFigi (t_Asset txn) in
      case consume (mget [] (rp_longLots s) key) (t_Qty txn) of (ms, rest, remaining) \<Rightarrow>
        s\<lparr>rp_longLots := mput key rest (rp_longLots s),
          rp_shortLots := open_lot key txn remaining (rp_shortLots s),
          rp_events := add_event attribute (matched_event close_gain attribute txn ms) (rp_events s)\<rparr>)"

definition rescale_lot :: "f64 \<Rightarrow> replay_lot \<Rightarrow> replay_lot" where
  "rescale_lot factor l = l\<lparr>rl_qty := rl_qty l * factor, rl_price := rl_price l / factor\<rparr>"

definition replay_split :: "transaction \<Rightarrow> replay \<Rightarrow> replay" where
  "replay_split txn s =
     (let key = CompositeFigi (t_Asset txn) in
      if feq (t_Price txn) 0 then s
      else s\<lparr>rp_longLots := AList.map_entry key (map (rescale_lot (t_Price txn))) (rp_longLots s),
             rp_shortLots := AList.map_entry key (map (rescale_lot (t_Price txn))) (rp_shortLots s)\<rparr>)"

definition replay_dividend :: "bool \<Rightarrow> transaction \<Rightarrow> replay \<Rightarrow> replay" where
  "replay_dividend attribute txn s =
     (if \<not> attribute then s
      else if t_Qualified txn then s\<lparr>rp_qualDiv := rp_qualDiv s + t_Amount txn\<rparr>
      else s\<lparr>rp_nonQualDiv := rp_nonQualDiv s + t_Amount txn\<rparr>)"

definition replay_step :: "gotime \<Rightarrow> gotime \<Rightarrow> replay \<Rightarrow> transaction \<Rightarrow> replay" where
  "replay_step start end' s txn =
     (let attribute = inRange start end' (t_Date txn) in
      case t_Type txn of
        BuyTransaction \<Rightarrow> replay_buy attribute txn s
      | SellTransaction \<Rightarrow> replay_sell attribute txn s
      | SplitTransaction \<Rightarrow> replay_split txn s
      | DividendTransaction \<Rightarrow> replay_dividend attribute txn s
      | _ \<Rightarrow> s)"

definition replayGainEvents :: "transaction list \<Rightarrow> gotime \<Rightarrow> gotime \<Rightarrow> replay" where
  "replayGainEvents txns start end' = foldl (replay_step start end') replay_start txns"

record realized =
  rg_ltcg :: f64
  rg_stcg :: f64
  rg_qualDiv :: f64
  rg_nonQualDiv :: f64

definition realizedGainsInRange :: "transaction list \<Rightarrow> gotime \<Rightarrow> gotime \<Rightarrow> realized" where
  "realizedGainsInRange txns start end' =
     (let r = replayGainEvents txns start end' in
      \<lparr>rg_ltcg = foldl (\<lambda>s e. s + ge_ltcg e) 0 (rp_events r),
       rg_stcg = foldl (\<lambda>s e. s + ge_stcg e) 0 (rp_events r),
       rg_qualDiv = rp_qualDiv r, rg_nonQualDiv = rp_nonQualDiv r\<rparr>)"

definition realizedGains :: "transaction list \<Rightarrow> realized" where
  "realizedGains txns = realizedGainsInRange txns time_zero time_zero"

definition RealizedGainsYTD :: "account \<Rightarrow> f64 \<times> f64" where
  "RealizedGainsYTD a = (let r = realizedGains (a_transactions a) in (rg_ltcg r, rg_stcg r))"

section \<open>Matching keeps quantities and costs\<close>

definition lot_value :: "replay_lot \<Rightarrow> real" where
  "lot_value l = fval (rl_qty l) * fval (rl_price l)"

definition lots_value :: "replay_lot list \<Rightarrow> real" where
  "lots_value ls = sum_list (map lot_value ls)"

definition rl_fin :: "replay_lot \<Rightarrow> bool" where
  "rl_fin l \<longleftrightarrow> fin (rl_qty l) \<and> fin (rl_price l)"

definition open_value :: "(string, replay_lot list) gomap \<Rightarrow> real" where
  "open_value m = sum_list (map (lots_value \<circ> snd) m)"

lemma lots_value_simps [simp]:
  "lots_value [] = 0" "lots_value (l # ls) = lot_value l + lots_value ls"
  "lots_value (ls @ ks) = lots_value ls + lots_value ks"
  by (simp_all add: lots_value_def)

lemma open_value_Nil [simp]: "open_value [] = 0"
  by (simp add: open_value_def)

lemma open_value_put [simp]: "open_value (mput k ls m) = open_value m - lots_value (mget [] m k) + lots_value ls"
  by (induction m) (auto simp: open_value_def)

lemma consume_accounts:
  assumes "consume ls qty = (ms, rest, q)" "list_all rl_fin ls" "fin qty" "0 \<le> fval qty"
  shows "list_all rl_fin rest \<and> fin q \<and> 0 \<le> fval q
    \<and> list_all (\<lambda>(l, m). rl_fin l \<and> fin m) ms
    \<and> sum_list (map (\<lambda>(l, m). fval m) ms) + fval q = fval qty
    \<and> sum_list (map (\<lambda>(l, m). fval m * fval (rl_price l)) ms) + lots_value rest = lots_value ls"
  using assms
proof (induction ls arbitrary: qty ms rest q)
  case Nil
  then show ?case by auto
next
  case (Cons l ls)
  show ?case
  proof (cases "qty > 0 \<and> rl_qty l \<le> qty")
    case True
    obtain ms' rest' q' where c: "consume ls (qty - rl_qty l) = (ms', rest', q')" by (metis prod_cases3)
    have "\<not> rl_qty l > qty" using True Cons.prems(2,3) by (auto simp: fin_order rl_fin_def)
    then have m: "ms = (l, rl_qty l) # ms'" "rest = rest'" "q = q'" using Cons.prems(1) True c by auto
    have "fin (qty - rl_qty l)" "0 \<le> fval (qty - rl_qty l)" using True Cons.prems(2,3) by (auto simp: fin_order rl_fin_def)
    then show ?thesis using Cons.IH [OF c _ ] Cons.prems(2,3) m by (auto simp: rl_fin_def lot_value_def)
  next
    case False
    then show ?thesis using Cons.prems by (auto simp: rl_fin_def lot_value_def fin_order algebra_simps split: if_splits)
  qed
qed

definition lots_map_fin :: "(string, replay_lot list) gomap \<Rightarrow> bool" where
  "lots_map_fin m \<longleftrightarrow> list_all (\<lambda>(k, ls). list_all rl_fin ls) m"

lemma lots_map_fin_get: "lots_map_fin m \<Longrightarrow> list_all rl_fin (mget [] m k)"
  by (induction m) (auto simp: lots_map_fin_def)

lemma lots_map_fin_put: "lots_map_fin m \<Longrightarrow> list_all rl_fin ls \<Longrightarrow> lots_map_fin (mput k ls m)"
  by (induction m) (auto simp: lots_map_fin_def)

lemma rescale_lots:
  assumes "lots_map_fin m" "fin f" "\<not> feq f 0"
  shows "lots_map_fin (AList.map_entry k (map (rescale_lot f)) m)"
    and "open_value (AList.map_entry k (map (rescale_lot f)) m) = open_value m"
proof -
  have f: "fval f \<noteq> 0" using assms(2,3) by (simp add: fin_feq)
  have v: "rl_fin (rescale_lot f l) \<and> lot_value (rescale_lot f l) = lot_value l" if "rl_fin l" for l
    using that f assms(2) by (simp add: rl_fin_def rescale_lot_def lot_value_def)
  then have w: "list_all rl_fin (map (rescale_lot f) ls) \<and> lots_value (map (rescale_lot f) ls) = lots_value ls"
    if "list_all rl_fin ls" for ls using that by (induction ls) auto
  show "lots_map_fin (AList.map_entry k (map (rescale_lot f)) m)"
    using assms(1) w by (induction m) (auto simp: lots_map_fin_def list_all_iff)
  show "open_value (AList.map_entry k (map (rescale_lot f)) m) = open_value m"
    using assms(1) w by (induction m) (auto simp: lots_map_fin_def open_value_def)
qed

lemma open_lot_value:
  assumes "lots_map_fin m" "fin q" "0 \<le> fval q" "fin (t_Price txn)"
  shows "lots_map_fin (open_lot key txn q m) \<and> open_value (open_lot key txn q m) = open_value m + fval q * fval (t_Price txn)"
  using assms lots_map_fin_get [OF assms(1), of key]
  by (auto simp: open_lot_def lot_value_def rl_fin_def fin_order intro!: lots_map_fin_put)

section \<open>Gains of an event\<close>

definition event_gain :: "gainEvent \<Rightarrow> real" where
  "event_gain e = fval (ge_ltcg e) + fval (ge_stcg e)"

definition event_fin :: "gainEvent \<Rightarrow> bool" where
  "event_fin e \<longleftrightarrow> fin (ge_ltcg e) \<and> fin (ge_stcg e)"

lemma cover_gain_step:
  assumes "rl_fin l" "fin m" "fin (t_Price txn)" "event_fin e"
  shows "event_fin (cover_gain txn e (l, m))"
    and "event_gain (cover_gain txn e (l, m)) = event_gain e + fval m * fval (rl_price l) - fval (t_Price txn) * fval m"
  using assms by (simp_all add: cover_gain_def event_fin_def event_gain_def rl_fin_def algebra_simps)

lemma close_gain_step:
  assumes "rl_fin l" "fin m" "fin (t_Price txn)" "event_fin e"
  shows "event_fin (close_gain txn e (l, m))"
    and "event_gain (close_gain txn e (l, m)) = event_gain e + fval (t_Price txn) * fval m - fval m * fval (rl_price l)"
  using assms by (simp_all add: close_gain_def event_fin_def event_gain_def rl_fin_def Let_def algebra_simps)

lemma cover_event:
  assumes "list_all (\<lambda>(l, m). rl_fin l \<and> fin m) ms" "fin (t_Price txn)" "event_fin e"
  shows "event_fin (foldl (cover_gain txn) e ms)
    \<and> event_gain (foldl (cover_gain txn) e ms)
      = event_gain e + sum_list (map (\<lambda>(l, m). fval m * fval (rl_price l)) ms)
        - fval (t_Price txn) * sum_list (map (\<lambda>(l, m). fval m) ms)"
  using assms by (induction ms arbitrary: e) (auto simp: cover_gain_step distrib_left)

lemma close_event:
  assumes "list_all (\<lambda>(l, m). rl_fin l \<and> fin m) ms" "fin (t_Price txn)" "event_fin e"
  shows "event_fin (foldl (close_gain txn) e ms)
    \<and> event_gain (foldl (close_gain txn) e ms)
      = event_gain e + fval (t_Price txn) * sum_list (map (\<lambda>(l, m). fval m) ms)
        - sum_list (map (\<lambda>(l, m). fval m * fval (rl_price l)) ms)"
  using assms by (induction ms arbitrary: e) (auto simp: close_gain_step distrib_left)

definition events_gain :: "gainEvent list \<Rightarrow> real" where
  "events_gain es = sum_list (map event_gain es)"

lemma add_event_gain:
  assumes "event_fin e" "list_all event_fin es"
  shows "list_all event_fin (add_event True e es) \<and> events_gain (add_event True e es) = events_gain es + event_gain e"
  using assms by (auto simp: add_event_def events_gain_def event_gain_def event_fin_def fin_order)

section \<open>Every traded dollar is accounted for\<close>

text \<open>The transactions the replay is meant for: finite, with the quantity of a trade not negative.\<close>

definition replayable :: "transaction \<Rightarrow> bool" where
  "replayable txn \<longleftrightarrow> fin (t_Qty txn) \<and> fin (t_Price txn)
     \<and> (t_Type txn = BuyTransaction \<or> t_Type txn = SellTransaction \<longrightarrow> 0 \<le> t_Qty txn)"

definition trade_flow :: "transaction \<Rightarrow> real" where
  "trade_flow txn = (case t_Type txn of
     BuyTransaction \<Rightarrow> - (fval (t_Qty txn) * fval (t_Price txn))
   | SellTransaction \<Rightarrow> fval (t_Qty txn) * fval (t_Price txn)
   | _ \<Rightarrow> 0)"

definition replay_inv :: "real \<Rightarrow> replay \<Rightarrow> bool" where
  "replay_inv flow s \<longleftrightarrow> lots_map_fin (rp_longLots s) \<and> lots_map_fin (rp_shortLots s) \<and> list_all event_fin (rp_events s)
     \<and> flow = events_gain (rp_events s) - open_value (rp_longLots s) + open_value (rp_shortLots s)"

lemma replay_buy_inv:
  assumes "replay_inv flow s" "fin (t_Qty txn)" "fin (t_Price txn)" "0 \<le> fval (t_Qty txn)"
  shows "replay_inv (flow - fval (t_Qty txn) * fval (t_Price txn)) (replay_buy True txn s)"
proof -
  define key where "key = CompositeFigi (t_Asset txn)"
  obtain ms rest q where c: "consume (mget [] (rp_shortLots s) key) (t_Qty txn) = (ms, rest, q)" by (metis prod_cases3)
  have i: "lots_map_fin (rp_longLots s)" "lots_map_fin (rp_shortLots s)" "list_all event_fin (rp_events s)"
    using assms(1) by (auto simp: replay_inv_def)
  note a = consume_accounts [OF c lots_map_fin_get [OF i(2)] assms(2,4)]
  define e where "e = matched_event cover_gain True txn ms"
  have "event_fin \<lparr>ge_date = t_Date txn, ge_ltcg = 0, ge_stcg = 0\<rparr>" by (simp add: event_fin_def)
  from cover_event [OF _ assms(3) this, of ms] a
  have e: "event_fin e" "event_gain e = sum_list (map (\<lambda>(l, m). fval m * fval (rl_price l)) ms) - fval (t_Price txn) * sum_list (map (\<lambda>(l, m). fval m) ms)"
    by (auto simp: e_def matched_event_def event_gain_def)
  have r: "replay_buy True txn s = s\<lparr>rp_shortLots := mput key rest (rp_shortLots s), rp_longLots := open_lot key txn q (rp_longLots s),
      rp_events := add_event True e (rp_events s)\<rparr>"
    using c by (simp add: replay_buy_def Let_def key_def e_def)
  have "fval (t_Qty txn) * fval (t_Price txn) = fval q * fval (t_Price txn) + fval (t_Price txn) * sum_list (map (\<lambda>(l, m). fval m) ms)"
    using a by (metis add.commute distrib_left mult.commute)
  then show ?thesis using assms(1) a add_event_gain [OF e(1) i(3)] e(2) open_lot_value [OF i(1), of q txn key] lots_map_fin_put [OF i(2), of rest key] assms(3)
    by (simp add: replay_inv_def r)
qed

lemma replay_sell_inv:
  assumes "replay_inv flow s" "fin (t_Qty txn)" "fin (t_Price txn)" "0 \<le> fval (t_Qty txn)"
  shows "replay_inv (flow + fval (t_Qty txn) * fval (t_Price txn)) (replay_sell True txn s)"
proof -
  define key where "key = CompositeFigi (t_Asset txn)"
  obtain ms rest q where c: "consume (mget [] (rp_longLots s) key) (t_Qty txn) = (ms, rest, q)" by (metis prod_cases3)
  have i: "lots_map_fin (rp_longLots s)" "lots_map_fin (rp_shortLots s)" "list_all event_fin (rp_events s)"
    using assms(1) by (auto simp: replay_inv_def)
  note a = consume_accounts [OF c lots_map_fin_get [OF i(1)] assms(2,4)]
  define e where "e = matched_event close_gain True txn ms"
  have "event_fin \<lparr>ge_date = t_Date txn, ge_ltcg = 0, ge_stcg = 0\<rparr>" by (simp add: event_fin_def)
  from close_event [OF _ assms(3) this, of ms] a
  have e: "event_fin e" "event_gain e = fval (t_Price txn) * sum_list (map (\<lambda>(l, m). fval m) ms) - sum_list (map (\<lambda>(l, m). fval m * fval (rl_price l)) ms)"
    by (auto simp: e_def matched_event_def event_gain_def)
  have r: "replay_sell True txn s = s\<lparr>rp_longLots := mput key rest (rp_longLots s), rp_shortLots := open_lot key txn q (rp_shortLots s),
      rp_events := add_event True e (rp_events s)\<rparr>"
    using c by (simp add: replay_sell_def Let_def key_def e_def)
  have "fval (t_Qty txn) * fval (t_Price txn) = fval q * fval (t_Price txn) + fval (t_Price txn) * sum_list (map (\<lambda>(l, m). fval m) ms)"
    using a by (metis add.commute distrib_left mult.commute)
  then show ?thesis using assms(1) a add_event_gain [OF e(1) i(3)] e(2) open_lot_value [OF i(2), of q txn key] lots_map_fin_put [OF i(1), of rest key] assms(3)
    by (simp add: replay_inv_def r)
qed

lemma replay_split_inv:
  assumes "replay_inv flow s" "fin (t_Price txn)"
  shows "replay_inv flow (replay_split txn s)"
  using assms by (simp add: replay_split_def replay_inv_def rescale_lots Let_def)

lemma replay_dividend_inv: "replay_inv flow s \<Longrightarrow> replay_inv flow (replay_dividend b txn s)"
  by (simp add: replay_dividend_def replay_inv_def)

lemma replay_step_inv:
  assumes "replay_inv flow s" "replayable txn"
  shows "replay_inv (flow + trade_flow txn) (replay_step time_zero time_zero s txn)"
proof -
  have q: "fin (t_Qty txn)" "fin (t_Price txn)" using assms(2) by (auto simp: replayable_def)
  have b: "0 \<le> fval (t_Qty txn)" if "t_Type txn = BuyTransaction \<or> t_Type txn = SellTransaction"
    using assms(2) that by (auto simp: replayable_def fin_order)
  show ?thesis
    using assms(1) replay_buy_inv [OF assms(1) q] replay_sell_inv [OF assms(1) q] b
      replay_split_inv [OF assms(1) q(2)] replay_dividend_inv [OF assms(1)]
    by (cases "t_Type txn") (simp_all add: replay_step_def inRange_def trade_flow_def Let_def)
qed

lemma replay_accounts:
  assumes "list_all replayable txns"
  shows "replay_inv (sum_list (map trade_flow txns)) (replayGainEvents txns time_zero time_zero)"
proof -
  have "replay_inv (flow + sum_list (map trade_flow txns)) (foldl (replay_step time_zero time_zero) s txns)"
    if "replay_inv flow s" for flow s
    using that assms
  proof (induction txns arbitrary: flow s)
    case (Cons txn txns)
    have "replay_inv (flow + trade_flow txn) (replay_step time_zero time_zero s txn)"
      using replay_step_inv Cons.prems by simp
    from Cons.IH [OF this] Cons.prems show ?case by (simp add: add.assoc)
  qed simp
  moreover have "replay_inv 0 replay_start" by (simp add: replay_inv_def replay_start_def lots_map_fin_def events_gain_def)
  ultimately show ?thesis by (metis replayGainEvents_def add_0)
qed

lemma events_gain_split:
  assumes "list_all event_fin es"
  shows "events_gain es = fval (foldl (\<lambda>s e. s + ge_ltcg e) 0 es) + fval (foldl (\<lambda>s e. s + ge_stcg e) 0 es)
    \<and> fin (foldl (\<lambda>s e. s + ge_ltcg e) 0 es) \<and> fin (foldl (\<lambda>s e. s + ge_stcg e) 0 es)"
proof -
  have "fin (sum_list (map f es)) \<and> fval (sum_list (map f es)) = sum_list (map (fval \<circ> f) es)" if "\<forall>e\<in>set es. fin (f e)" for f
    using that fin_sum_list [of "map f es"] fval_sum_list [of "map f es"] by auto
  moreover have "events_gain es = (\<Sum>e\<leftarrow>es. fval (ge_ltcg e)) + (\<Sum>e\<leftarrow>es. fval (ge_stcg e))"
    by (induction es) (simp_all add: events_gain_def event_gain_def)
  ultimately show ?thesis
    using assms by (simp add: foldl_plus_f64 event_fin_def list_all_iff comp_def)
qed

text \<open>
  Sales less purchases are the realised gains, less what the open long lots cost, plus what the
  open short lots brought in.
\<close>

lemma realized_accounts:
  assumes "list_all replayable txns"
  defines "r \<equiv> realizedGains txns" and "s \<equiv> replayGainEvents txns time_zero time_zero"
  shows "fin (rg_ltcg r) \<and> fin (rg_stcg r)
    \<and> sum_list (map trade_flow txns)
      = fval (rg_ltcg r) + fval (rg_stcg r) - open_value (rp_longLots s) + open_value (rp_shortLots s)"
  using replay_accounts [OF assms(1)] events_gain_split
  by (simp add: r_def s_def realizedGains_def realizedGainsInRange_def replay_inv_def Let_def)

section \<open>Windows select events\<close>

lemma matched_event_date: "ge_date (matched_event cover_gain b txn ms) = t_Date txn" "ge_date (matched_event close_gain b txn ms) = t_Date txn"
proof -
  have "ge_date (foldl (cover_gain txn) e ms) = ge_date e" "ge_date (foldl (close_gain txn) e ms) = ge_date e" for e
    by (induction ms arbitrary: e) (auto simp: cover_gain_def close_gain_def Let_def split: prod.splits)
  then show "ge_date (matched_event cover_gain b txn ms) = t_Date txn" "ge_date (matched_event close_gain b txn ms) = t_Date txn"
    by (simp_all add: matched_event_def Let_def)
qed

lemma add_event_window:
  assumes "es = filter (P \<circ> ge_date) es'" "ge_date e = d" "P d \<Longrightarrow> e' = e"
  shows "add_event (P d) e' es = filter (P \<circ> ge_date) (add_event True e es')"
  using assms by (auto simp: add_event_def)

definition same_replay :: "(gotime \<Rightarrow> bool) \<Rightarrow> replay \<Rightarrow> replay \<Rightarrow> bool" where
  "same_replay P s s' \<longleftrightarrow> rp_longLots s = rp_longLots s' \<and> rp_shortLots s = rp_shortLots s'
     \<and> rp_events s = filter (P \<circ> ge_date) (rp_events s')"

lemma replay_step_window:
  assumes "same_replay (inRange b e) s s'"
  shows "same_replay (inRange b e) (replay_step b e s txn) (replay_step time_zero time_zero s' txn)"
proof -
  let ?P = "inRange b e" and ?d = "t_Date txn"
  have l: "rp_longLots s = rp_longLots s'" "rp_shortLots s = rp_shortLots s'" "rp_events s = filter (?P \<circ> ge_date) (rp_events s')"
    using assms by (auto simp: same_replay_def)
  have t: "inRange time_zero time_zero d" for d by (simp add: inRange_def)
  have m: "add_event (?P ?d) (matched_event g (?P ?d) txn ms) (rp_events s)
      = filter (?P \<circ> ge_date) (add_event True (matched_event g True txn ms) (rp_events s'))"
    if "g = cover_gain \<or> g = close_gain" for g ms
    by (rule add_event_window [OF l(3)]) (use that matched_event_date in auto)
  show ?thesis
    using l m by (cases "t_Type txn")
      (auto simp: replay_step_def t same_replay_def replay_buy_def replay_sell_def replay_split_def replay_dividend_def Let_def split: prod.splits)
qed

lemma replay_window:
  "rp_events (replayGainEvents txns b e) = filter (inRange b e \<circ> ge_date) (rp_events (replayGainEvents txns time_zero time_zero))"
proof -
  have "same_replay (inRange b e) (foldl (replay_step b e) s txns) (foldl (replay_step time_zero time_zero) s' txns)"
    if "same_replay (inRange b e) s s'" for s s'
    using that by (induction txns arbitrary: s s') (auto intro: replay_step_window)
  then have "same_replay (inRange b e) (replayGainEvents txns b e) (replayGainEvents txns time_zero time_zero)"
    unfolding replayGainEvents_def by (simp add: same_replay_def replay_start_def)
  then show ?thesis by (simp add: same_replay_def)
qed

end
