(* ===== verification/PortfolioStats.thy ===== *)
theory PortfolioStats
  imports GainReplay FrameStats
begin

text \<open>
  The statistics interface of an account (portfolio/metric\_query.go, windowed\_stats.go,
  benchmark\_view.go, drawdown\_detail.go, annual\_returns.go, monthly\_returns.go and the derived
  frames of account.go), and the query that evaluates a metric against it. An implementation of
  the interface is a record of what its methods return; a nil frame is \<open>Some None\<close> and a panic is
  \<open>None\<close>. The cache of derived frames is left out.
\<close>

section \<open>Sorting\<close>

text \<open>
  \<open>sort.Slice\<close>. The order of elements that compare equal is unspecified in Go; here they keep
  their order.
\<close>

fun insort_less :: "('a \<Rightarrow> 'a \<Rightarrow> bool) \<Rightarrow> 'a \<Rightarrow> 'a list \<Rightarrow> 'a list" where
  "insort_less lt x [] = [x]"
| "insort_less lt x (y # ys) = (if lt y x then y # insort_less lt x ys else x # y # ys)"

definition sort_Slice :: "('a \<Rightarrow> 'a \<Rightarrow> bool) \<Rightarrow> 'a list \<Rightarrow> 'a list" where
  "sort_Slice lt xs = foldr (insort_less lt) xs []"

section \<open>The interface\<close>

type_synonym frame_result = "dataframe option option"

record DrawdownDetail =
  dd_Start :: gotime
  dd_Trough :: gotime
  dd_Recovery :: gotime
  dd_Depth :: f64
  dd_Days :: nat

record stats =
  st_Returns :: "Period option \<Rightarrow> frame_result"
  st_ExcessReturns :: "Period option \<Rightarrow> frame_result"
  st_Drawdown :: "Period option \<Rightarrow> frame_result"
  st_BenchmarkReturns :: "Period option \<Rightarrow> frame_result"
  st_EquitySeries :: "Period option \<Rightarrow> frame_result"
  st_TransactionsView :: "transaction list"
  st_TradeDetailsView :: "tradeDetail list"
  st_PricesView :: frame_result
  st_TaxLotsView :: "(asset, taxlot list) gomap"
  st_ShortLotsView :: "(asset, taxlot list) gomap"
  st_PerfDataView :: frame_result
  st_AnnualReturns :: "metric \<Rightarrow> (goerr + int list \<times> f64 list) option"
  st_DrawdownDetails :: "int \<Rightarrow> DrawdownDetail list"
  st_MonthlyReturns :: "metric \<Rightarrow> (goerr + int list \<times> f64 list list) option"
  st_windowBounds :: "(gotime \<times> gotime) option"

definition on_frame :: "(dataframe \<Rightarrow> dataframe option) \<Rightarrow> frame_result \<Rightarrow> frame_result" where
  "on_frame f r = (case r of None \<Rightarrow> None | Some None \<Rightarrow> Some None | Some (Some df) \<Rightarrow> map_option Some (f df))"

text \<open>A nil column reads as an empty one.\<close>

definition column_of :: "dataframe \<Rightarrow> metric \<Rightarrow> f64 list" where
  "column_of df m = (case df_Column df portfolioAsset m of None \<Rightarrow> [] | Some c \<Rightarrow> c)"

abbreviation equity_of :: "dataframe \<Rightarrow> f64 list" where
  "equity_of df \<equiv> column_of df PortfolioEquity"

section \<open>The account as a provider\<close>

definition pct_frame :: "metric list \<Rightarrow> dataframe \<Rightarrow> dataframe option" where
  "pct_frame ms df = Option.bind (df_Metrics ms df) (df_Pct 1)"

definition acct_Returns :: "account \<Rightarrow> Period option \<Rightarrow> frame_result" where
  "acct_Returns a window =
     on_frame (\<lambda>pd. Option.bind (df_Window window pd) (pct_frame [PortfolioEquity])) (Some (a_perfData a))"

definition acct_ExcessReturns :: "gonum \<Rightarrow> account \<Rightarrow> Period option \<Rightarrow> frame_result" where
  "acct_ExcessReturns g a window =
     on_frame (\<lambda>pd. Option.bind (Option.bind (df_Window window pd) (pct_frame [PortfolioEquity, PortfolioRiskFree])) (\<lambda>perf.
        Option.bind (df_Metrics [PortfolioEquity] perf) (\<lambda>equity. df_Sub g [PortfolioRiskFree] equity perf)))
       (Some (a_perfData a))"

definition drawdown_frame :: "gonum \<Rightarrow> dataframe \<Rightarrow> dataframe option" where
  "drawdown_frame g df =
     Option.bind (df_Metrics [PortfolioEquity] df) (\<lambda>equity.
     Option.bind (df_CumMax equity) (\<lambda>peak.
     Option.bind (df_Sub g [] equity peak) (\<lambda>below. df_Div g [] below peak)))"

definition acct_Drawdown :: "gonum \<Rightarrow> account \<Rightarrow> Period option \<Rightarrow> frame_result" where
  "acct_Drawdown g a window = on_frame (\<lambda>pd. Option.bind (df_Window window pd) (drawdown_frame g)) (Some (a_perfData a))"

definition acct_BenchmarkReturns :: "account \<Rightarrow> Period option \<Rightarrow> frame_result" where
  "acct_BenchmarkReturns a window =
     on_frame (\<lambda>pd. Option.bind (df_Window window pd) (pct_frame [PortfolioBenchmark])) (Some (a_perfData a))"

definition acct_EquitySeries :: "account \<Rightarrow> Period option \<Rightarrow> frame_result" where
  "acct_EquitySeries a window = on_frame (df_Window window) (Some (a_perfData a))"

subsection \<open>Drawdown periods\<close>

record dd_scan =
  ds_found :: "DrawdownDetail list"
  ds_peak :: f64
  ds_peakIdx :: nat
  ds_troughVal :: f64
  ds_troughIdx :: nat
  ds_in :: bool

definition dd_detail :: "gotime list \<Rightarrow> dd_scan \<Rightarrow> gotime \<Rightarrow> nat \<Rightarrow> DrawdownDetail" where
  "dd_detail ts s recovery days =
     \<lparr>dd_Start = ts ! ds_peakIdx s, dd_Trough = ts ! ds_troughIdx s, dd_Recovery = recovery,
      dd_Depth = (ds_troughVal s - ds_peak s) / ds_peak s, dd_Days = days\<rparr>"

definition dd_step :: "gotime list \<Rightarrow> f64 list \<Rightarrow> dd_scan \<Rightarrow> nat \<Rightarrow> dd_scan" where
  "dd_step ts equity s idx =
     (let e = equity ! idx in
      if e \<ge> ds_peak s then
        \<lparr>ds_found = (if ds_in s then ds_found s @ [dd_detail ts s (ts ! idx) (idx - ds_peakIdx s)] else ds_found s),
         ds_peak = e, ds_peakIdx = idx, ds_troughVal = e, ds_troughIdx = idx, ds_in = False\<rparr>
      else if e < ds_troughVal s then s\<lparr>ds_in := True, ds_troughVal := e, ds_troughIdx := idx\<rparr>
      else s\<lparr>ds_in := True\<rparr>)"

definition drawdown_periods :: "gotime list \<Rightarrow> f64 list \<Rightarrow> DrawdownDetail list" where
  "drawdown_periods ts equity =
     (let s = foldl (dd_step ts equity)
            \<lparr>ds_found = [], ds_peak = equity ! 0, ds_peakIdx = 0, ds_troughVal = equity ! 0, ds_troughIdx = 0, ds_in = False\<rparr>
            [1..<length equity]
      in if ds_in s then ds_found s @ [dd_detail ts s time_zero (length equity - 1 - ds_peakIdx s)] else ds_found s)"

definition DrawdownDetails :: "account \<Rightarrow> int \<Rightarrow> DrawdownDetail list" where
  "DrawdownDetails a topN =
     (case a_perfData a of None \<Rightarrow> []
      | Some pd \<Rightarrow>
          let equity = equity_of pd in
          if df_Len pd = 0 \<or> equity = [] then []
          else let ds = sort_Slice (\<lambda>x y. dd_Depth x < dd_Depth y) (drawdown_periods (df_times pd) equity) in
            if topN > 0 \<and> topN < int (length ds) then take (nat topN) ds else ds)"

subsection \<open>Calendar returns\<close>

definition AnnualReturns :: "account \<Rightarrow> metric \<Rightarrow> (goerr + int list \<times> f64 list) option" where
  "AnnualReturns a m =
     (case a_perfData a of None \<Rightarrow> Some (Inr ([], []))
      | Some pd \<Rightarrow>
          let full = column_of pd m in
          if df_Len pd = 0 \<or> full = [] then Some (Inr ([], []))
          else Option.bind (Option.bind (df_Metrics [m] pd) (down_Last Yearly)) (\<lambda>yearly.
            case df_err yearly of Some e \<Rightarrow> Some (Inl e)
            | None \<Rightarrow>
                let values = column_of yearly m; ts = df_times yearly in
                if ts = [] \<or> values = [] then Some (Inr ([], []))
                else Some (Inr (map time_year ts,
                  map (\<lambda>idx. let baseline = (if idx = 0 then full ! 0 else values ! (idx - 1)) in
                     if \<not> feq baseline 0 then (values ! idx - baseline) / baseline else 0) [0..<length ts]))))"

definition month_row :: "f64 list \<Rightarrow> (int, f64 list) gomap \<Rightarrow> gotime \<times> nat \<Rightarrow> (int, f64 list) gomap" where
  "month_row values rows = (\<lambda>(t, idx).
     let row = mget (replicate 12 NaN) rows (time_year t);
         v = (if idx = 0 then NaN
              else let prev = values ! (idx - 1) in
                if \<not> feq prev 0 then (values ! idx - prev) / prev else NaN)
     in mput (time_year t) (row[nat (time_month t - 1) := v]) rows)"

definition MonthlyReturns :: "account \<Rightarrow> metric \<Rightarrow> (goerr + int list \<times> f64 list list) option" where
  "MonthlyReturns a m =
     (case a_perfData a of None \<Rightarrow> Some (Inr ([], []))
      | Some pd \<Rightarrow>
          if df_Len pd = 0 then Some (Inr ([], []))
          else Option.bind (Option.bind (df_Metrics [m] pd) (down_Last Monthly)) (\<lambda>monthly.
            case df_err monthly of Some e \<Rightarrow> Some (Inl e)
            | None \<Rightarrow>
                let values = column_of monthly m; ts = df_times monthly in
                if ts = [] \<or> values = [] then Some (Inr ([], []))
                else let rows = foldl (month_row values) [] (zip ts [0..<length ts]);
                         years = sort (mkeys rows)
                  in Some (Inr (years, map (mget [] rows) years))))"

definition account_stats :: "gonum \<Rightarrow> account \<Rightarrow> stats" where
  "account_stats g a =
     \<lparr>st_Returns = acct_Returns a, st_ExcessReturns = acct_ExcessReturns g a, st_Drawdown = acct_Drawdown g a,
      st_BenchmarkReturns = acct_BenchmarkReturns a, st_EquitySeries = acct_EquitySeries a,
      st_TransactionsView = a_transactions a, st_TradeDetailsView = a_tradeDetails a,
      st_PricesView = Some (a_prices a), st_TaxLotsView = a_taxLots a, st_ShortLotsView = a_shortLots a,
      st_PerfDataView = Some (a_perfData a), st_AnnualReturns = AnnualReturns a,
      st_DrawdownDetails = DrawdownDetails a, st_MonthlyReturns = MonthlyReturns a, st_windowBounds = None\<rparr>"

section \<open>A date range of another provider\<close>

definition newWindowedStats :: "gonum \<Rightarrow> stats \<Rightarrow> gotime \<Rightarrow> gotime \<Rightarrow> stats" where
  "newWindowedStats g inner start end' =
     (let cut = on_frame (Between start end') in
      inner\<lparr>st_Returns := (\<lambda>w. cut (st_Returns inner w)), st_ExcessReturns := (\<lambda>w. cut (st_ExcessReturns inner w)),
        st_Drawdown := (\<lambda>w. on_frame (drawdown_frame g) (cut (st_EquitySeries inner w))),
        st_BenchmarkReturns := (\<lambda>w. cut (st_BenchmarkReturns inner w)),
        st_EquitySeries := (\<lambda>w. cut (st_EquitySeries inner w)),
        st_PerfDataView := cut (st_PerfDataView inner), st_PricesView := cut (st_PricesView inner),
        st_windowBounds := Some (start, end')\<rparr>)"

section \<open>The benchmark as an equity curve\<close>

definition ErrNoBenchmark :: goerr where "ErrNoBenchmark = Err ''benchmark not configured''"
definition ErrBenchmarkNotSupported :: goerr where "ErrBenchmarkNotSupported = Err ''metric does not support benchmark targeting''"
definition ErrInsufficientData :: goerr where "ErrInsufficientData = Err ''insufficient data for metric window''"

definition is_flow :: "transaction \<Rightarrow> bool" where
  "is_flow txn \<longleftrightarrow> t_Type txn = DepositTransaction \<or> t_Type txn = WithdrawalTransaction"

definition benchmarkView :: "account \<Rightarrow> (goerr + account) option" where
  "benchmarkView a =
     (case a_perfData a of None \<Rightarrow> Some (Inl ErrNoBenchmark)
      | Some pd \<Rightarrow>
          let bmCol = column_of pd PortfolioBenchmark; eqCol = equity_of pd in
          if bmCol = [] \<or> feq (hd bmCol) 0 then Some (Inl ErrNoBenchmark)
          else if eqCol = [] \<or> feq (hd eqCol) 0 then Some (Inl ErrNoBenchmark)
          else let scale = hd eqCol / hd bmCol in
            Option.bind (df_Copy pd) (\<lambda>copy.
              case df_Insert portfolioAsset PortfolioEquity (map (\<lambda>v. v * scale) bmCol) copy of
                Inl e \<Rightarrow> Some (Inl e)
              | Inr newPerf \<Rightarrow> Some (Inr (a\<lparr>a_perfData := Some newPerf,
                    a_transactions := filter (\<lambda>txn. \<not> is_flow txn) (a_transactions a)\<rparr>))))"

section \<open>Queries\<close>

record PerformanceMetric =
  pm_Compute :: "stats \<Rightarrow> Period option \<Rightarrow> (goerr + f64) option"
  pm_ComputeSeries :: "stats \<Rightarrow> Period option \<Rightarrow> (goerr + dataframe option) option"
  pm_BenchmarkTargetable :: bool

record PerformanceMetricQuery =
  mq_account :: account
  mq_metric :: PerformanceMetric
  mq_window :: "Period option"
  mq_benchmark :: bool
  mq_abs :: "(gotime \<times> gotime) option"

definition PerformanceMetric_of :: "account \<Rightarrow> PerformanceMetric \<Rightarrow> PerformanceMetricQuery" where
  "PerformanceMetric_of a m = \<lparr>mq_account = a, mq_metric = m, mq_window = None, mq_benchmark = False, mq_abs = None\<rparr>"

definition query_Window :: "Period \<Rightarrow> PerformanceMetricQuery \<Rightarrow> PerformanceMetricQuery" where
  "query_Window p q = q\<lparr>mq_window := Some p\<rparr>"

definition query_Benchmark :: "PerformanceMetricQuery \<Rightarrow> PerformanceMetricQuery" where
  "query_Benchmark q = q\<lparr>mq_benchmark := True\<rparr>"

definition AbsoluteWindow :: "gotime \<Rightarrow> gotime \<Rightarrow> PerformanceMetricQuery \<Rightarrow> PerformanceMetricQuery" where
  "AbsoluteWindow start end' q = q\<lparr>mq_abs := Some (start, end')\<rparr>"

definition resolveStats :: "gonum \<Rightarrow> PerformanceMetricQuery \<Rightarrow> (goerr + stats) option" where
  "resolveStats g q =
     map_option (\<lambda>r. case r of Inl e \<Rightarrow> Inl e
         | Inr acct \<Rightarrow> let st = account_stats g acct in
             Inr (case mq_abs q of None \<Rightarrow> st | Some (s, e) \<Rightarrow> newWindowedStats g st s e))
       (if \<not> mq_benchmark q then Some (Inr (mq_account q))
        else if \<not> pm_BenchmarkTargetable (mq_metric q) then Some (Inl ErrBenchmarkNotSupported)
        else benchmarkView (mq_account q))"

definition with_stats :: "(stats \<Rightarrow> (goerr + 'r) option) \<Rightarrow> (goerr + stats) option \<Rightarrow> (goerr + 'r) option" where
  "with_stats f r = (case r of None \<Rightarrow> None | Some (Inl e) \<Rightarrow> Some (Inl e) | Some (Inr st) \<Rightarrow> f st)"

definition query_Value :: "gonum \<Rightarrow> PerformanceMetricQuery \<Rightarrow> (goerr + f64) option" where
  "query_Value g q = with_stats (\<lambda>st. pm_Compute (mq_metric q) st (mq_window q)) (resolveStats g q)"

definition query_Series :: "gonum \<Rightarrow> PerformanceMetricQuery \<Rightarrow> (goerr + dataframe option) option" where
  "query_Series g q = with_stats (\<lambda>st. pm_ComputeSeries (mq_metric q) st (mq_window q)) (resolveStats g q)"

section \<open>Maximum drawdown\<close>

definition min_drawdown :: "f64 list \<Rightarrow> f64" where
  "min_drawdown col = foldl (\<lambda>m v. if v < m then v else m) 0 col"

definition maxDrawdown_Compute :: "stats \<Rightarrow> Period option \<Rightarrow> (goerr + f64) option" where
  "maxDrawdown_Compute st window =
     (case st_Drawdown st window of None \<Rightarrow> None | Some None \<Rightarrow> Some (Inr 0)
      | Some (Some df) \<Rightarrow> Some (Inr (if equity_of df = [] then 0 else min_drawdown (equity_of df))))"

definition maxDrawdown_ComputeSeries :: "stats \<Rightarrow> Period option \<Rightarrow> (goerr + dataframe option) option" where
  "maxDrawdown_ComputeSeries st window =
     (case st_Drawdown st window of None \<Rightarrow> None | Some None \<Rightarrow> Some (Inr None)
      | Some (Some df) \<Rightarrow>
          if equity_of df = [] then Some (Inr None)
          else Some (map_sum id Some (NewDataFrame (df_times df) [portfolioAsset] [PortfolioEquity] (df_freq df) [equity_of df])))"

definition MaxDrawdown :: PerformanceMetric where
  "MaxDrawdown = \<lparr>pm_Compute = maxDrawdown_Compute, pm_ComputeSeries = maxDrawdown_ComputeSeries, pm_BenchmarkTargetable = True\<rparr>"

section \<open>The drawdown column\<close>

lemma elemWiseOp_frame:
  assumes "df_err df = None" "df_err other = None" "df_times other = df_times df" "elemWiseOp f df other = Some r"
  shows "r = df_zero \<or> df_times r = df_times df" "df_keys r"
proof -
  define cells where "cells = List.product (enumerate 0 (df_assets df)) (enumerate 0 (df_metrics df))"
  obtain P A M where st: "foldl (meet_step df other) ([], [], []) cells = (P, A, M)" by (metis prod_cases3)
  have fi: "findIntersection df other = (P, A, M)" by (simp add: findIntersection_flat st flip: cells_def)
  have k: "distinct (map CompositeFigi A)" "distinct M" using meet_inv(3,5) [of df other cells] st by simp_all
  have m: "df_times s = ts \<and> df_assets s = as \<and> df_metrics s = ms" if "mustNewDataFrame ts as ms fr cols = Some s" for ts as ms fr cols s
    using that by (auto simp: mustNewDataFrame_def NewDataFrame_def Let_def split: if_splits)
  show "r = df_zero \<or> df_times r = df_times df" "df_keys r"
    using assms k by (auto simp: elemWiseOp_def fi empty_frame_eq df_keys_def Let_def dest!: m split: if_splits)
qed

lemma pos_cummax:
  assumes "\<forall>v\<in>set (p # vs). fin v \<and> 0 < fval v"
  shows "cummax_loop p vs = map (\<lambda>j. Fin (Max (fval ` set (p # take (Suc j) vs)))) [0..<length vs]"
  using assms
proof (induction vs arbitrary: p)
  case (Cons v vs)
  define q where "q = (if v > p then v else p)"
  have q: "fin q" "0 < fval q" "fval q = max (fval p) (fval v)" using Cons.prems by (auto simp: q_def fin_order max_def)
  have m: "Max (fval ` set (q # take (Suc j) vs)) = Max (fval ` set (p # take (Suc (Suc j)) (v # vs)))" for j
  proof -
    let ?S = "fval ` set (take (Suc j) vs)"
    show ?thesis by (cases "?S = {}") (auto simp: q(3) max.assoc)
  qed
  have "cummax_loop p (v # vs) = q # cummax_loop q vs" by (simp add: q_def Let_def)
  also have "cummax_loop q vs = map (\<lambda>j. Fin (Max (fval ` set (q # take (Suc j) vs)))) [0..<length vs]"
    using Cons.IH [of q] Cons.prems q by simp
  also have "\<dots> = map (\<lambda>j. Fin (Max (fval ` set (p # take (Suc (Suc j)) (v # vs))))) [0..<length vs]"
    using m by simp
  also have "q = Fin (Max (fval ` set (p # take (Suc 0) (v # vs))))" using q by (simp add: fin_eq_iff)
  finally show ?case by (simp add: map_upt_Suc del: upt_Suc)
qed simp

lemma cummax_prefix_max:
  assumes "\<forall>v\<in>set col. fin v \<and> 0 < fval v"
  shows "cummax_column col = map (\<lambda>j. Fin (Max (fval ` set (take (Suc j) col)))) [0..<length col]"
proof (cases col)
  case (Cons v vs)
  then show ?thesis using pos_cummax [of v vs] assms
    by (simp add: cummax_column_def map_upt_Suc del: upt_Suc)
qed (simp add: cummax_column_def)

definition drop_from_peak :: "f64 list \<Rightarrow> nat \<Rightarrow> real" where
  "drop_from_peak col j = (let peak = Max (fval ` set (take (Suc j) col)) in (fval (col ! j) - peak) / peak)"

lemma drop_from_peak_bounds:
  assumes "\<forall>v\<in>set col. fin v \<and> 0 < fval v" "j < length col"
  shows "- 1 < drop_from_peak col j" "drop_from_peak col j \<le> 0"
    and "i \<le> j \<Longrightarrow> drop_from_peak col j \<le> (fval (col ! j) - fval (col ! i)) / fval (col ! i)"
    and "\<exists>i\<le>j. drop_from_peak col j = (fval (col ! j) - fval (col ! i)) / fval (col ! i)"
proof -
  let ?S = "fval ` set (take (Suc j) col)"
  define p where "p = Max ?S"
  have S: "finite ?S" "?S \<noteq> {}" using assms(2) by auto
  have idx: "fval (col ! i) \<in> ?S" if "i \<le> j" for i
    using that assms(2) by (auto simp: in_set_conv_nth intro!: image_eqI [where x = "col ! i"] exI [of _ i])
  have "p \<in> ?S" unfolding p_def using S by (rule Max_in)
  then obtain k where k: "k \<le> j" "p = fval (col ! k)" using assms(2) by (auto simp: in_set_conv_nth less_Suc_eq_le)
  have pos: "0 < fval (col ! i)" if "i < length col" for i using assms(1) nth_mem [OF that] by blast
  have le: "fval (col ! i) \<le> p" if "i \<le> j" for i unfolding p_def using Max_ge [OF S(1) idx [OF that]] .
  have p0: "0 < p" using k pos [of k] assms(2) by simp
  have d: "drop_from_peak col j = fval (col ! j) / p - 1"
    using p0 by (simp add: drop_from_peak_def Let_def flip: p_def) (simp add: field_simps)
  show "- 1 < drop_from_peak col j" using d p0 pos [OF assms(2)] by simp
  show "drop_from_peak col j \<le> 0" using d p0 le [of j] by simp
  have r: "(fval (col ! j) - fval (col ! i)) / fval (col ! i) = fval (col ! j) / fval (col ! i) - 1" if "i < length col" for i
    using pos [OF that] by (simp add: field_simps)
  show "i \<le> j \<Longrightarrow> drop_from_peak col j \<le> (fval (col ! j) - fval (col ! i)) / fval (col ! i)"
    using d r [of i] le [of i] pos [of i] pos [OF assms(2)] p0 assms(2) by (simp add: frac_le)
  show "\<exists>i\<le>j. drop_from_peak col j = (fval (col ! j) - fval (col ! i)) / fval (col ! i)"
    using k d r [of k] assms(2) by (intro exI [of _ k]) simp
qed

text \<open>The frame operations of a drawdown, on the equity column.\<close>

lemma drawdown_column:
  assumes "df_wf df" "df_keys df" "df_err df = None" "gonum_ok g"
    "df_Column df portfolioAsset PortfolioEquity = Some col" "\<forall>v\<in>set col. fin v \<and> 0 < fval v"
  shows "\<exists>r. drawdown_frame g df = Some r
    \<and> df_Column r portfolioAsset PortfolioEquity = Some (map (\<lambda>j. Fin (drop_from_peak col j)) [0..<length col])"
proof -
  obtain eq where eq: "df_Metrics [PortfolioEquity] df = Some eq"
    using df_Metrics_yields [OF assms(1), of "[PortfolioEquity]"] by (auto simp: yields_def)
  have wf: "df_wf eq" and c: "df_Column eq portfolioAsset PortfolioEquity = Some col"
    using df_Metrics_column [OF assms(1,3) eq] assms(5) by auto
  have pos: "metricIndex df PortfolioEquity \<noteq> None" using assms(5) by (auto simp: df_Column_def split: option.splits if_splits)
  have e: "df_err eq = None" using c by (auto simp: df_Column_def split: if_splits)
  have t: "df_times eq = df_times df \<and> df_assets eq = df_assets df \<and> df_metrics eq = [PortfolioEquity]"
    using eq pos assms(3)
    by (auto simp: df_Metrics_def mustNewDataFrame_def NewDataFrame_def Let_def split: if_splits)
  then have keys: "df_keys eq" using assms(2) by (simp add: df_keys_def)
  have ca: "Some (cummax_column c) = Some (cummax_column c) \<and> length (cummax_column c) = length c" for c by simp
  define pk where "pk = eq\<lparr>df_columns := map cummax_column (df_columns eq)\<rparr>"
  have p: "df_CumMax eq = Some pk" "df_wf pk"
    using df_Apply_eq [OF wf e, of "\<lambda>c. Some (cummax_column c)" cummax_column] e by (simp_all add: df_CumMax_def pk_def)
  have pe: "df_err pk = None" "df_times pk = df_times eq" using e by (simp_all add: pk_def)
  have pc: "df_Column pk portfolioAsset PortfolioEquity = Some (cummax_column col)"
    using df_Column_map [OF wf e pe(1), of cummax_column] c by (simp add: pk_def)
  have ol: "length (gn_SubTo g s t) = length (df_times eq)" "length (gn_DivTo g s t) = length (df_times eq)"
    if "length s = length (df_times eq)" "length t = length (df_times eq)" for s t using gonum_length [OF assms(4) that] by auto
  obtain b where b: "elemWiseOp (gn_SubTo g) eq pk = Some b" "df_wf b" "df_err b = None"
      "df_Column b portfolioAsset PortfolioEquity = Some (gn_SubTo g col (cummax_column col))"
    using elemWiseOp_spec [OF wf p(2) keys e pe(1,2), of "gn_SubTo g"] ol c pc by (auto split: option.splits)
  have bz: "b \<noteq> df_zero" using b(4) df_Column_none by auto
  have bf: "df_times b = df_times eq" "df_keys b" using elemWiseOp_frame [OF e pe b(1)] bz by auto
  obtain r where r: "elemWiseOp (gn_DivTo g) b pk = Some r"
      "df_Column r portfolioAsset PortfolioEquity = Some (gn_DivTo g (gn_SubTo g col (cummax_column col)) (cummax_column col))"
    using elemWiseOp_spec [OF b(2) p(2) bf(2) b(3) pe(1), of "gn_DivTo g"] ol b(4) pc bf(1) pe(2) by (auto split: option.splits)
  have g: "gn_DivTo g (gn_SubTo g col (cummax_column col)) (cummax_column col)
      = map2 (/) (map2 (-) col (cummax_column col)) (cummax_column col)"
    using assms(4) by (simp add: gonum_ok_def)
  have "(col ! j - Fin (Max (fval ` set (take (Suc j) col)))) / Fin (Max (fval ` set (take (Suc j) col))) = Fin (drop_from_peak col j)"
    if "j < length col" for j
  proof -
    let ?p = "Max (fval ` set (take (Suc j) col))"
    have "0 < fval (col ! j)" "fin (col ! j)" using assms(6) nth_mem [OF that] by auto
    moreover have "fval (col ! j) \<le> ?p" using that by (intro Max_ge) (auto simp: in_set_conv_nth intro!: image_eqI [where x = "col ! j"] exI [of _ j])
    ultimately show ?thesis by (cases "col ! j") (auto simp: drop_from_peak_def Let_def)
  qed
  then have "map2 (/) (map2 (-) col (cummax_column col)) (cummax_column col) = map (\<lambda>j. Fin (drop_from_peak col j)) [0..<length col]"
    by (intro nth_equalityI) (simp_all add: cummax_prefix_max [OF assms(6)])
  then show ?thesis using eq p(1) b(1) r g by (simp add: drawdown_frame_def df_Sub_def df_Div_def)
qed

lemma df_Window_frame:
  assumes "df_wf df" "df_keys df" "df_err df = None" "df_Window window df = Some r"
  shows "df_wf r" "df_keys r" "df_err r = None"
proof -
  define good where "good d \<longleftrightarrow> df_wf d \<and> df_keys d \<and> df_err d = None" for d :: dataframe
  have z: "good df_zero" by (simp add: good_def df_keys_def)
  have t: "good d \<Longrightarrow> good (time_slice i j d)" for i j d
    using time_slice_wf [of d i j] by (simp add: good_def df_keys_def time_slice_def)
  have df: "good df" "good (with_dates df)" using assms(1-3) by (simp_all add: good_def df_keys_def)
  have slice: "good x" if "sliceByTimeIndices i j d = Some x" "good d" for i j d x
    using that sliceByTimeIndices_Some [of d i j x] t [of d i j] by (auto simp: good_def)
  have btw: "good x" if "Between s e df = Some x" for s e x
    using that slice [OF _ df(2)] z assms(3) by (auto simp: Between_def empty_frame_eq Let_def simp flip: with_dates_def split: if_splits)
  have "good r"
    using assms(3,4) slice [OF _ df(1)] z btw by (auto simp: df_Window_def empty_frame_eq Let_def split: option.splits if_splits)
  then show "df_wf r" "df_keys r" "df_err r = None" by (simp_all add: good_def)
qed

lemma min_drawdown_min:
  "\<forall>v\<in>set col. fin v \<Longrightarrow> min_drawdown col = Fin (Min (insert 0 (fval ` set col)))"
proof (induction col rule: rev_induct)
  case (snoc v col)
  define m where "m = Min (insert 0 (fval ` set col))"
  have "min_drawdown col = Fin m" using snoc by (simp add: m_def)
  then have "min_drawdown (col @ [v]) = (if v < Fin m then v else Fin m)" by (simp add: min_drawdown_def)
  moreover have "Min (insert 0 (fval ` set (col @ [v]))) = min (fval v) m"
  proof -
    have "insert 0 (fval ` set (col @ [v])) = insert (fval v) (insert 0 (fval ` set col))" by auto
    then show ?thesis unfolding m_def by (simp only: Min_insert [of "insert 0 (fval ` set col)" "fval v"] finite_insert finite_imageI finite_set insert_not_empty not_False_eq_True)
  qed
  ultimately show ?case using snoc.prems by (cases v) (auto simp: min_def)
qed (simp add: min_drawdown_def)

lemma st_Drawdown_account:
  assumes "a_perfData a = Some pd" "df_wf pd" "df_keys pd" "df_err pd = None" "gonum_ok g"
    "acct_EquitySeries a window = Some (Some w)" "df_Column w portfolioAsset PortfolioEquity = Some col"
    "\<forall>v\<in>set col. fin v \<and> 0 < fval v"
  shows "\<exists>r. st_Drawdown (account_stats g a) window = Some (Some r)
    \<and> equity_of r = map (\<lambda>j. Fin (drop_from_peak col j)) [0..<length col]"
proof -
  have w: "df_Window window pd = Some w" using assms(1,6) by (auto simp: acct_EquitySeries_def on_frame_def)
  from drawdown_column [OF df_Window_frame [OF assms(2-4) w] assms(5,7,8)] w assms(1) show ?thesis
    by (auto simp: account_stats_def acct_Drawdown_def on_frame_def column_of_def)
qed

text \<open>The maximum drawdown is the worst decline from any point of the curve to any later one.\<close>

lemma max_drawdown_worst:
  assumes "a_perfData a = Some pd" "df_wf pd" "df_keys pd" "df_err pd = None" "gonum_ok g"
    "acct_EquitySeries a window = Some (Some w)" "df_Column w portfolioAsset PortfolioEquity = Some col"
    "\<forall>v\<in>set col. fin v \<and> 0 < fval v" "col \<noteq> []"
  shows "\<exists>d. maxDrawdown_Compute (account_stats g a) window = Some (Inr (Fin d)) \<and> - 1 < d \<and> d \<le> 0
    \<and> (\<forall>i j. i \<le> j \<longrightarrow> j < length col \<longrightarrow> d \<le> (fval (col ! j) - fval (col ! i)) / fval (col ! i))
    \<and> (\<exists>i j. i \<le> j \<and> j < length col \<and> d = (fval (col ! j) - fval (col ! i)) / fval (col ! i))"
proof -
  note b = drop_from_peak_bounds [OF assms(8)]
  let ?S = "drop_from_peak col ` {0..<length col}"
  define d where "d = Min ?S"
  have S: "finite ?S" "?S \<noteq> {}" using assms(9) by auto
  have "fval ` set (map (\<lambda>j. Fin (drop_from_peak col j)) [0..<length col]) = ?S" by (simp add: image_image)
  moreover have "Min (insert 0 ?S) = d"
  proof -
    have "d \<in> ?S" unfolding d_def using S by (rule Min_in)
    then have "d \<le> 0" using b(2) by auto
    then show ?thesis using S by (simp add: d_def)
  qed
  ultimately have v: "maxDrawdown_Compute (account_stats g a) window = Some (Inr (Fin d))"
    using st_Drawdown_account [OF assms(1-8)] assms(9) min_drawdown_min [of "map (\<lambda>j. Fin (drop_from_peak col j)) [0..<length col]"]
    by (auto simp: maxDrawdown_Compute_def)
  have "d \<in> ?S" unfolding d_def using S by (rule Min_in)
  then obtain k where k: "k < length col" "d = drop_from_peak col k" by auto
  have le: "d \<le> drop_from_peak col j" if "j < length col" for j unfolding d_def using S(1) that by (intro Min_le) auto
  have "d \<le> (fval (col ! j) - fval (col ! i)) / fval (col ! i)" if "i \<le> j" "j < length col" for i j
    using le [OF that(2)] b(3) [OF that(2,1)] by linarith
  then show ?thesis using v k b(1,2,4) [OF k(1)] by metis
qed

end
