(* ===== verification/PortfolioMetrics.thy ===== *)
theory PortfolioMetrics
  imports PortfolioStats
begin

text \<open>
  Performance metrics (portfolio/twrr.go, cagr\_metric.go, the trade, tax, drawdown, return and
  withdrawal metrics), each the Compute method of its file over the interface of
  \<open>PortfolioStats\<close>. Shows that time-weighted returns cancel external flows, that realised and
  unrealised gains split by holding period without loss, and that the withdrawal scans find
  the largest sustainable rate of their grid.
\<close>

type_synonym metric_value = "(goerr + f64) option"

definition count_f64 :: "nat \<Rightarrow> f64" where "count_f64 n = Fin (real n)"

text \<open>\<open>math.Pow\<close> at a positive base.\<close>

fun pow_pos :: "f64 \<Rightarrow> f64 \<Rightarrow> f64" where
  "pow_pos (Fin x) (Fin y) = (if x > 0 then Fin (x powr y) else NaN)"
| "pow_pos PInf (Fin y) = (if y > 0 then PInf else if y = 0 then 1 else 0)"
| "pow_pos x y = NaN"

section \<open>Helpers\<close>

definition removeNaN :: "f64 list \<Rightarrow> f64 list" where
  "removeNaN col = filter (\<lambda>v. \<not> isNaN v) col"

definition alignedRemoveNaN :: "f64 list \<Rightarrow> f64 list \<Rightarrow> f64 list \<times> f64 list" where
  "alignedRemoveNaN colA colB =
     (let ps = filter (\<lambda>(x, y). \<not> isNaN x \<and> \<not> isNaN y) (zip colA colB) in (map fst ps, map snd ps))"

text \<open>The years between the ends of a time axis, as the annualising metrics measure them.\<close>

definition calendar_days :: "gotime list \<Rightarrow> f64" where
  "calendar_days ts = days_between (last ts) (hd ts)"

definition years_of :: "gotime list \<Rightarrow> f64" where
  "years_of ts = calendar_days ts / Fin (36525 / 100)"

definition annualizationFactor :: "gotime list \<Rightarrow> f64" where
  "annualizationFactor ts =
     (if length ts < 2 then 1
      else if calendar_days ts \<le> 0 then 1
      else count_f64 (length ts - 1) / years_of ts)"

definition windowBounds :: "stats \<Rightarrow> Period option \<Rightarrow> (gotime \<times> gotime) option" where
  "windowBounds st window =
     (case st_windowBounds st of Some b \<Rightarrow> Some b
      | None \<Rightarrow>
        (case window of None \<Rightarrow> Some (time_zero, time_zero)
         | Some p \<Rightarrow>
           (case st_EquitySeries st None of None \<Rightarrow> None
            | Some None \<Rightarrow> Some (time_zero, time_zero)
            | Some (Some df) \<Rightarrow>
                if df_times df = [] then Some (time_zero, time_zero)
                else Some (Period_Before p (last (df_times df)), last (df_times df)))))"

definition on_equity :: "metric_value \<Rightarrow> (gotime list \<Rightarrow> f64 list \<Rightarrow> metric_value) \<Rightarrow> frame_result \<Rightarrow> metric_value" where
  "on_equity missing f r = (case r of None \<Rightarrow> None | Some None \<Rightarrow> missing | Some (Some df) \<Rightarrow> f (df_times df) (equity_of df))"

definition value_of :: "f64 \<Rightarrow> metric_value" where "value_of v = Some (Inr v)"

definition on_returns :: "(f64 list \<Rightarrow> f64) \<Rightarrow> stats \<Rightarrow> Period option \<Rightarrow> metric_value" where
  "on_returns f st window =
     on_equity (value_of 0) (\<lambda>_ eq. let col = removeNaN eq in value_of (if col = [] then 0 else f col)) (st_Returns st window)"

section \<open>Time-weighted returns\<close>

definition buildFlowMap :: "transaction list \<Rightarrow> gotime \<Rightarrow> gotime \<Rightarrow> (gotime, f64) gomap" where
  "buildFlowMap txns start end' =
     foldl (\<lambda>flows tx.
       if t_Date tx < start \<or> t_Date tx > end' then flows
       else case t_Type tx of
           DepositTransaction \<Rightarrow> mput (t_Date tx) (mget 0 flows (t_Date tx) + t_Amount tx) flows
         | WithdrawalTransaction \<Rightarrow> mput (t_Date tx) (mget 0 flows (t_Date tx) + t_Amount tx) flows
         | _ \<Rightarrow> flows) [] txns"

fun sub_period_loop :: "(gotime, f64) gomap \<Rightarrow> f64 \<Rightarrow> (f64 \<times> gotime) list \<Rightarrow> f64 list" where
  "sub_period_loop flows subPeriodStart [] = []"
| "sub_period_loop flows subPeriodStart ((e, t) # rest) =
     (let preFlowEquity = e - mget 0 flows t;
          ri = (if \<not> feq subPeriodStart 0 then preFlowEquity / subPeriodStart - 1 else 0)
      in ri # sub_period_loop flows e rest)"

definition subPeriodReturns :: "f64 list \<Rightarrow> gotime list \<Rightarrow> (gotime, f64) gomap \<Rightarrow> f64 list" where
  "subPeriodReturns equityCurve ts flows =
     (if length equityCurve < 2 then [] else sub_period_loop flows (hd equityCurve) (tl (zip equityCurve ts)))"

definition compounded :: "f64 list \<Rightarrow> f64" where
  "compounded returns = foldl (\<lambda>product ri. product * (1 + ri)) 1 returns"

definition flowAdjustedGrowth :: "stats \<Rightarrow> f64 list \<Rightarrow> gotime list \<Rightarrow> f64" where
  "flowAdjustedGrowth st equity ts =
     compounded (subPeriodReturns equity ts (buildFlowMap (st_TransactionsView st) (hd ts) (last ts)))"

definition twrr_Compute :: "stats \<Rightarrow> Period option \<Rightarrow> metric_value" where
  "twrr_Compute st window =
     on_equity (Some (Inl ErrInsufficientData)) (\<lambda>ts equity.
        if length equity < 2 then Some (Inl ErrInsufficientData)
        else value_of (flowAdjustedGrowth st equity ts - 1)) (st_EquitySeries st window)"

fun running_growth :: "f64 \<Rightarrow> f64 list \<Rightarrow> f64 list" where
  "running_growth product [] = []"
| "running_growth product (ri # rs) = (let p = product * (1 + ri) in (p - 1) # running_growth p rs)"

definition twrr_ComputeSeries :: "stats \<Rightarrow> Period option \<Rightarrow> (goerr + dataframe option) option" where
  "twrr_ComputeSeries st window =
     (case st_EquitySeries st window of None \<Rightarrow> None | Some None \<Rightarrow> Some (Inr None)
      | Some (Some df) \<Rightarrow>
          let equity = equity_of df; ts = df_times df in
          if length equity < 2 then Some (Inr None)
          else let returns = subPeriodReturns equity ts (buildFlowMap (st_TransactionsView st) (hd ts) (last ts))
            in Some (map_sum id Some (NewDataFrame (tl ts) [portfolioAsset] [PortfolioEquity] (df_freq df) [running_growth 1 returns])))"

definition TWRR :: PerformanceMetric where
  "TWRR = \<lparr>pm_Compute = twrr_Compute, pm_ComputeSeries = twrr_ComputeSeries, pm_BenchmarkTargetable = True\<rparr>"

definition cagr_Compute :: "stats \<Rightarrow> Period option \<Rightarrow> metric_value" where
  "cagr_Compute st window =
     on_equity (Some (Inl ErrInsufficientData)) (\<lambda>ts eq.
        if length eq < 2 \<or> length ts < 2 then Some (Inl ErrInsufficientData)
        else if years_of ts \<le> 0 \<or> hd eq \<le> 0 \<or> last eq \<le> 0 then Some (Inl ErrInsufficientData)
        else let growth = flowAdjustedGrowth st eq ts in
          if growth \<le> 0 then Some (Inl ErrInsufficientData)
          else value_of (pow_pos growth (1 / years_of ts) - 1)) (st_EquitySeries st window)"

definition recoveryFactor_Compute :: "stats \<Rightarrow> Period option \<Rightarrow> metric_value" where
  "recoveryFactor_Compute st window =
     on_equity (value_of 0) (\<lambda>ts eq.
        if length eq < 2 then value_of 0
        else let totalReturn = flowAdjustedGrowth st eq ts - 1 in
          on_equity (value_of 0) (\<lambda>_ dd. let minDD = min_drawdown dd in
             value_of (if feq minDD 0 then 0 else totalReturn / absF minDD)) (st_Drawdown st window)) (st_EquitySeries st window)"

definition calmar_Compute :: "stats \<Rightarrow> Period option \<Rightarrow> metric_value" where
  "calmar_Compute st window =
     on_equity (value_of 0) (\<lambda>ts eq.
        if length eq < 2 \<or> length ts < 2 \<or> years_of ts \<le> 0 then value_of 0
        else let growth = flowAdjustedGrowth st eq ts in
          if growth \<le> 0 then value_of 0
          else let annualizedReturn = pow_pos growth (1 / years_of ts) - 1 in
            on_equity (value_of 0) (\<lambda>_ dd. let minDD = min_drawdown dd in
               value_of (if feq minDD 0 then 0 else annualizedReturn / absF minDD)) (st_Drawdown st window)) (st_EquitySeries st window)"

section \<open>Drawdown metrics\<close>

definition avgDrawdown_Compute :: "gonum \<Rightarrow> stats \<Rightarrow> Period option \<Rightarrow> metric_value" where
  "avgDrawdown_Compute g st window =
     on_equity (value_of 0) (\<lambda>_ dd. value_of (if dd = [] then 0 else gn_Mean g dd)) (st_Drawdown st window)"

fun drawdown_durations :: "nat \<Rightarrow> f64 list \<Rightarrow> nat list" where
  "drawdown_durations current [] = (if current > 0 then [current] else [])"
| "drawdown_durations current (v # vs) =
     (if v < 0 then drawdown_durations (Suc current) vs
      else if current > 0 then current # drawdown_durations 0 vs
      else drawdown_durations current vs)"

definition avgDrawdownDays_Compute :: "stats \<Rightarrow> Period option \<Rightarrow> metric_value" where
  "avgDrawdownDays_Compute st window =
     on_equity (value_of 0) (\<lambda>_ dd.
        if length dd < 2 then value_of 0
        else let durations = drawdown_durations 0 dd in
          value_of (if durations = [] then 0 else count_f64 (sum_list durations) / count_f64 (length durations))) (st_Drawdown st window)"

section \<open>Return metrics\<close>

definition nPositivePeriods_Compute :: "stats \<Rightarrow> Period option \<Rightarrow> metric_value" where
  "nPositivePeriods_Compute = on_returns (\<lambda>col. count_f64 (length (filter (\<lambda>v. v > 0) col)) / count_f64 (length col))"

definition exposure_Compute :: "stats \<Rightarrow> Period option \<Rightarrow> metric_value" where
  "exposure_Compute = on_returns (\<lambda>col. count_f64 (length (filter (\<lambda>v. \<not> feq v 0) col)) / count_f64 (length col))"

definition streak_step :: "(f64 \<Rightarrow> bool) \<Rightarrow> nat \<times> nat \<Rightarrow> f64 \<Rightarrow> nat \<times> nat" where
  "streak_step good = (\<lambda>(maxStreak, current) v.
     if good v then (if Suc current > maxStreak then (Suc current, Suc current) else (maxStreak, Suc current))
     else (maxStreak, 0))"

definition longest_streak :: "(f64 \<Rightarrow> bool) \<Rightarrow> f64 list \<Rightarrow> nat" where
  "longest_streak good col = fst (foldl (streak_step good) (0, 0) col)"

definition consecutiveWins_Compute :: "stats \<Rightarrow> Period option \<Rightarrow> metric_value" where
  "consecutiveWins_Compute = on_returns (\<lambda>col. count_f64 (longest_streak (\<lambda>v. v > 0) col))"

definition consecutiveLosses_Compute :: "stats \<Rightarrow> Period option \<Rightarrow> metric_value" where
  "consecutiveLosses_Compute = on_returns (\<lambda>col. count_f64 (longest_streak (\<lambda>v. v < 0) col))"

definition gainLossRatio_Compute :: "gonum \<Rightarrow> stats \<Rightarrow> Period option \<Rightarrow> metric_value" where
  "gainLossRatio_Compute g = on_returns (\<lambda>col.
     let positive = filter (\<lambda>v. v > 0) col; negative = filter (\<lambda>v. v < 0) col in
     if positive = [] \<or> negative = [] then NaN else gn_Mean g positive / absF (gn_Mean g negative))"

definition gainToPain_Compute :: "stats \<Rightarrow> Period option \<Rightarrow> metric_value" where
  "gainToPain_Compute = on_returns (\<lambda>col.
     let totalReturn = foldl (+) 0 col;
         negativeSum = foldl (\<lambda>s v. if v < 0 then s + absF v else s) 0 col
     in if feq negativeSum 0 then 0 else totalReturn / negativeSum)"

definition omegaRatio_Compute :: "stats \<Rightarrow> Period option \<Rightarrow> metric_value" where
  "omegaRatio_Compute = on_returns (\<lambda>col.
     let gains = foldl (\<lambda>s v. if v > 0 then s + v else s) 0 col;
         losses = foldl (\<lambda>s v. if v > 0 then s else s + absF v) 0 col
     in if feq losses 0 then 0 else gains / losses)"

definition kellyCriterion_Compute :: "stats \<Rightarrow> Period option \<Rightarrow> metric_value" where
  "kellyCriterion_Compute = on_returns (\<lambda>col.
     let wins = length (filter (\<lambda>v. v > 0) col); losses = length (filter (\<lambda>v. v < 0) col);
         sumWin = foldl (\<lambda>s v. if v > 0 then s + v else s) 0 col;
         sumLoss = foldl (\<lambda>s v. if v < 0 then s + absF v else s) 0 col
     in if wins = 0 \<or> losses = 0 then 0
        else let avgWin = sumWin / count_f64 wins; avgLoss = sumLoss / count_f64 losses;
                 w = count_f64 wins / count_f64 (length col)
          in w - (1 - w) / (avgWin / avgLoss))"

text \<open>\<open>math.Floor(0.05 * n)\<close> and \<open>int(0.05 * n)\<close> of a length.\<close>

definition valueAtRisk_Compute :: "stats \<Rightarrow> Period option \<Rightarrow> metric_value" where
  "valueAtRisk_Compute = on_returns (\<lambda>col. sort_Float64s col ! (5 * length col div 100))"

definition cvar_Compute :: "stats \<Rightarrow> Period option \<Rightarrow> metric_value" where
  "cvar_Compute = on_returns (\<lambda>col.
     let sorted = sort_Float64s col; c = 5 * length col div 100; cutoff = (if c = 0 then 1 else c)
     in foldl (\<lambda>s idx. s + sorted ! idx) 0 [0..<cutoff] / count_f64 cutoff)"

definition tailRatio_Compute :: "stats \<Rightarrow> Period option \<Rightarrow> metric_value" where
  "tailRatio_Compute = on_returns (\<lambda>col.
     let sorted = sort_Float64s col; fifth = sorted ! (5 * length col div 100); p95 = sorted ! (95 * length col div 100)
     in if feq fifth 0 then 0 else p95 / absF fifth)"

section \<open>Trade metrics\<close>

definition roundTrips :: "tradeDetail list \<Rightarrow> transaction list \<Rightarrow> f64 list \<times> f64" where
  "roundTrips details txns =
     (map td_PnL details,
      foldl (\<lambda>total txn. if t_Type txn = SellTransaction then total + t_Price txn * t_Qty txn else total) 0 txns)"

text \<open>The profits of the round trips; their other fields are read from the trade details.\<close>

definition trip_pnls :: "stats \<Rightarrow> f64 list" where
  "trip_pnls st = fst (roundTrips (st_TradeDetailsView st) (st_TransactionsView st))"

definition win_rate :: "f64 list \<Rightarrow> f64" where
  "win_rate pnls = (if pnls = [] then 0 else count_f64 (length (filter (\<lambda>p. p > 0) pnls)) / count_f64 (length pnls))"

definition winRate_Compute :: "stats \<Rightarrow> Period option \<Rightarrow> metric_value" where
  "winRate_Compute st window = value_of (win_rate (trip_pnls st))"

definition trips_in :: "TradeDirection \<Rightarrow> stats \<Rightarrow> f64 list" where
  "trips_in dir st = map snd (filter (\<lambda>(td, pnl). td_Direction td = dir) (zip (st_TradeDetailsView st) (trip_pnls st)))"

definition longWinRate_Compute :: "stats \<Rightarrow> Period option \<Rightarrow> metric_value" where
  "longWinRate_Compute st window = value_of (win_rate (trips_in TradeLong st))"

definition shortWinRate_Compute :: "stats \<Rightarrow> Period option \<Rightarrow> metric_value" where
  "shortWinRate_Compute st window = value_of (win_rate (trips_in TradeShort st))"

definition win_loss_sums :: "f64 list \<Rightarrow> f64 \<times> f64" where
  "win_loss_sums pnls = foldl (\<lambda>(sumWin, sumLoss) p. if p > 0 then (sumWin + p, sumLoss) else (sumWin, sumLoss + p)) (0, 0) pnls"

definition profit_factor :: "f64 list \<Rightarrow> f64" where
  "profit_factor pnls = (case win_loss_sums pnls of (sumWin, sumLoss) \<Rightarrow> if feq sumLoss 0 then NaN else sumWin / absF sumLoss)"

definition finite_trips :: "stats \<Rightarrow> f64 list" where
  "finite_trips st = filter (\<lambda>p. \<not> (isNaN p \<or> isInf p)) (trip_pnls st)"

definition profitFactor_Compute :: "stats \<Rightarrow> Period option \<Rightarrow> metric_value" where
  "profitFactor_Compute st window = value_of (profit_factor (finite_trips st))"

definition longProfitFactor_Compute :: "stats \<Rightarrow> Period option \<Rightarrow> metric_value" where
  "longProfitFactor_Compute st window = value_of (profit_factor (trips_in TradeLong st))"

definition shortProfitFactor_Compute :: "stats \<Rightarrow> Period option \<Rightarrow> metric_value" where
  "shortProfitFactor_Compute st window = value_of (profit_factor (trips_in TradeShort st))"

definition mean_where :: "(f64 \<Rightarrow> bool) \<Rightarrow> f64 list \<Rightarrow> f64" where
  "mean_where keep xs = (let ys = filter keep xs in if ys = [] then 0 else foldl (+) 0 ys / count_f64 (length ys))"

definition averageWin_Compute :: "stats \<Rightarrow> Period option \<Rightarrow> metric_value" where
  "averageWin_Compute st window = value_of (mean_where (\<lambda>p. p > 0) (finite_trips st))"

definition averageLoss_Compute :: "stats \<Rightarrow> Period option \<Rightarrow> metric_value" where
  "averageLoss_Compute st window = value_of (mean_where (\<lambda>p. p \<le> 0) (finite_trips st))"

definition averageHoldingPeriod_Compute :: "stats \<Rightarrow> Period option \<Rightarrow> metric_value" where
  "averageHoldingPeriod_Compute st window = value_of (mean_where (\<lambda>_. True) (map td_HoldDays (st_TradeDetailsView st)))"

definition tradeGainLossRatio_Compute :: "stats \<Rightarrow> Period option \<Rightarrow> metric_value" where
  "tradeGainLossRatio_Compute st window =
     (let pnls = trip_pnls st; wins = filter (\<lambda>p. p > 0) pnls; losses = filter (\<lambda>p. p < 0) pnls in
      value_of (if wins = [] \<or> losses = [] then NaN
        else (foldl (+) 0 wins / count_f64 (length wins)) / absF (foldl (+) 0 losses / count_f64 (length losses))))"

definition averageMFE_Compute :: "stats \<Rightarrow> Period option \<Rightarrow> metric_value" where
  "averageMFE_Compute st window = value_of (mean_where (\<lambda>_. True) (map td_MFE (st_TradeDetailsView st)))"

definition averageMAE_Compute :: "stats \<Rightarrow> Period option \<Rightarrow> metric_value" where
  "averageMAE_Compute st window = value_of (mean_where (\<lambda>_. True) (map td_MAE (st_TradeDetailsView st)))"

definition median :: "f64 list \<Rightarrow> f64" where
  "median xs =
     (if xs = [] then 0
      else let vs = sort_Float64s xs; n = length vs in
        if even n then (vs ! (n div 2 - 1) + vs ! (n div 2)) / 2 else vs ! (n div 2))"

definition medianMFE_Compute :: "stats \<Rightarrow> Period option \<Rightarrow> metric_value" where
  "medianMFE_Compute st window = value_of (median (map td_MFE (st_TradeDetailsView st)))"

definition medianMAE_Compute :: "stats \<Rightarrow> Period option \<Rightarrow> metric_value" where
  "medianMAE_Compute st window = value_of (median (map td_MAE (st_TradeDetailsView st)))"

definition edgeRatio_Compute :: "stats \<Rightarrow> Period option \<Rightarrow> metric_value" where
  "edgeRatio_Compute st window =
     (let trades = st_TradeDetailsView st; n = count_f64 (length trades);
          avgMFE = foldl (\<lambda>s t. s + td_MFE t) 0 trades / n; avgMAE = foldl (\<lambda>s t. s + td_MAE t) 0 trades / n
      in value_of (if trades = [] \<or> feq avgMAE 0 then NaN else avgMFE / absF avgMAE))"

definition trade_return :: "tradeDetail \<Rightarrow> f64" where
  "trade_return t =
     (if td_Direction t = TradeShort then (td_EntryPrice t - td_ExitPrice t) / td_EntryPrice t
      else (td_ExitPrice t - td_EntryPrice t) / td_EntryPrice t)"

definition tradeCaptureRatio_Compute :: "stats \<Rightarrow> Period option \<Rightarrow> metric_value" where
  "tradeCaptureRatio_Compute st window =
     (let trades = st_TradeDetailsView st; n = count_f64 (length trades);
          avgReturn = foldl (\<lambda>s t. s + trade_return t) 0 trades / n; avgMFE = foldl (\<lambda>s t. s + td_MFE t) 0 trades / n
      in value_of (if trades = [] \<or> feq avgMFE 0 then NaN else avgReturn / avgMFE))"

definition turnover_Compute :: "stats \<Rightarrow> Period option \<Rightarrow> metric_value" where
  "turnover_Compute st window =
     (let totalSellValue = snd (roundTrips (st_TradeDetailsView st) (st_TransactionsView st)) in
      on_equity (value_of 0) (\<lambda>ts eq.
        if length eq < 2 \<or> feq totalSellValue 0 then value_of 0
        else let meanValue = foldl (+) 0 eq / count_f64 (length eq) in
          if meanValue \<le> 0 then value_of 0
          else let periodDays = calendar_days ts in
            value_of (if periodDays \<le> 0 then 0 else (totalSellValue / meanValue) * (Fin (36525 / 100) / periodDays)))
        (st_PerfDataView st))"

section \<open>Tax metrics\<close>

record taxRates =
  tr_LTCG :: f64
  tr_STCG :: f64

definition defaultTaxRates :: taxRates where
  "defaultTaxRates = \<lparr>tr_LTCG = Fin (15 / 100), tr_STCG = Fin (25 / 100)\<rparr>"

definition in_window :: "(realized \<Rightarrow> metric_value) \<Rightarrow> stats \<Rightarrow> Period option \<Rightarrow> metric_value" where
  "in_window f st window =
     (case windowBounds st window of None \<Rightarrow> None
      | Some (start, end') \<Rightarrow> f (realizedGainsInRange (st_TransactionsView st) start end'))"

definition ltcg_Compute :: "stats \<Rightarrow> Period option \<Rightarrow> metric_value" where
  "ltcg_Compute = in_window (\<lambda>r. value_of (rg_ltcg r))"

definition stcg_Compute :: "stats \<Rightarrow> Period option \<Rightarrow> metric_value" where
  "stcg_Compute = in_window (\<lambda>r. value_of (rg_stcg r))"

definition dividend_income :: "bool \<Rightarrow> stats \<Rightarrow> Period option \<Rightarrow> metric_value" where
  "dividend_income qualified st window =
     (case windowBounds st window of None \<Rightarrow> None
      | Some (start, end') \<Rightarrow>
          value_of (foldl (\<lambda>total tx.
             if t_Type tx \<noteq> DividendTransaction \<or> t_Qualified tx \<noteq> qualified then total
             else if start \<noteq> time_zero \<and> t_Date tx < start then total
             else if end' \<noteq> time_zero \<and> t_Date tx > end' then total
             else total + t_Amount tx) 0 (st_TransactionsView st)))"

definition qualifiedDividends_Compute :: "stats \<Rightarrow> Period option \<Rightarrow> metric_value" where
  "qualifiedDividends_Compute = dividend_income True"

definition nonQualifiedIncome_Compute :: "stats \<Rightarrow> Period option \<Rightarrow> metric_value" where
  "nonQualifiedIncome_Compute = dividend_income False"

definition gains_tax :: "taxRates \<Rightarrow> f64 \<Rightarrow> f64 \<Rightarrow> f64" where
  "gains_tax rates ltcg stcg =
     (let t = (if stcg > 0 then 0 + tr_STCG rates * stcg else 0) in if ltcg > 0 then t + tr_LTCG rates * ltcg else t)"

definition taxDrag_Compute :: "stats \<Rightarrow> Period option \<Rightarrow> metric_value" where
  "taxDrag_Compute st window =
     on_equity (value_of 0) (\<lambda>_ ec.
        if length ec < 2 then value_of 0
        else let preTaxReturn = last ec - hd ec in
          if preTaxReturn \<le> 0 then value_of 0
          else in_window (\<lambda>r. value_of (gains_tax defaultTaxRates (rg_ltcg r) (rg_stcg r) / preTaxReturn)) st window)
      (st_EquitySeries st window)"

definition taxCostRatio_Compute :: "stats \<Rightarrow> Period option \<Rightarrow> metric_value" where
  "taxCostRatio_Compute st window =
     on_equity (value_of 0) (\<lambda>_ ec.
        if length ec < 2 then value_of 0
        else let totalGain = last ec - hd ec in
          if totalGain \<le> 0 then value_of 0
          else in_window (\<lambda>r. value_of
             ((gains_tax \<lparr>tr_LTCG = Fin (15 / 100), tr_STCG = Fin (25 / 100)\<rparr> (rg_ltcg r) (rg_stcg r)
               + Fin (15 / 100) * rg_qualDiv r + Fin (25 / 100) * rg_nonQualDiv r) / totalGain)) st window)
      (st_EquitySeries st window)"

definition lot_gains :: "(f64 \<Rightarrow> bool) \<Rightarrow> gotime \<Rightarrow> (taxlot \<Rightarrow> f64) \<Rightarrow> f64 \<Rightarrow> taxlot list \<Rightarrow> f64" where
  "lot_gains bucket now gain tot lots =
     foldl (\<lambda>t lot. if bucket (days_between now (lot_Date lot)) then t + gain lot else t) tot lots"

fun long_lot_gains :: "(f64 \<Rightarrow> bool) \<Rightarrow> gotime \<Rightarrow> dataframe \<Rightarrow> f64 \<Rightarrow> (asset, taxlot list) gomap \<Rightarrow> f64 option" where
  "long_lot_gains bucket now prices tot [] = Some tot"
| "long_lot_gains bucket now prices tot ((ast, lots) # rest) =
     (let currentPrice = df_Value prices ast MetricClose in
      if isNaN currentPrice then None
      else long_lot_gains bucket now prices
             (lot_gains bucket now (\<lambda>lot. (currentPrice - lot_Price lot) * lot_Qty lot) tot lots) rest)"

definition short_lot_gains :: "(f64 \<Rightarrow> bool) \<Rightarrow> gotime \<Rightarrow> dataframe \<Rightarrow> f64 \<Rightarrow> (asset, taxlot list) gomap \<Rightarrow> f64" where
  "short_lot_gains bucket now prices tot m =
     foldl (\<lambda>t (ast, lots). let currentPrice = df_Value prices ast MetricClose in
        if isNaN currentPrice then t
        else lot_gains bucket now (\<lambda>lot. (lot_Price lot - currentPrice) * lot_Qty lot) t lots) tot m"

definition unrealized_gains :: "(f64 \<Rightarrow> bool) \<Rightarrow> stats \<Rightarrow> metric_value" where
  "unrealized_gains bucket st =
     (case (st_PricesView st, st_PerfDataView st) of
        (Some (Some prices), Some (Some pd)) \<Rightarrow>
          if df_times pd = [] then value_of 0
          else let now = last (df_times pd) in
            (case long_lot_gains bucket now prices 0 (st_TaxLotsView st) of None \<Rightarrow> value_of NaN
             | Some tot \<Rightarrow> value_of (short_lot_gains bucket now prices tot (st_ShortLotsView st)))
      | (None, _) \<Rightarrow> None | (_, None) \<Rightarrow> None
      | _ \<Rightarrow> value_of 0)"

definition unrealizedLTCG_Compute :: "stats \<Rightarrow> Period option \<Rightarrow> metric_value" where
  "unrealizedLTCG_Compute st window = unrealized_gains (\<lambda>days. days > 365) st"

definition unrealizedSTCG_Compute :: "stats \<Rightarrow> Period option \<Rightarrow> metric_value" where
  "unrealizedSTCG_Compute st window = unrealized_gains (\<lambda>days. days \<le> 365) st"

fun tax_curve :: "f64 \<Rightarrow> (gotime \<times> f64) list \<Rightarrow> (gotime \<times> f64) list \<Rightarrow> f64 list" where
  "tax_curve cumTax events [] = []"
| "tax_curve cumTax ((d, amount) # events) ((t, e) # rest) =
     (if d \<le> t then tax_curve (cumTax + amount) events ((t, e) # rest)
      else (e - cumTax) # tax_curve cumTax ((d, amount) # events) rest)"
| "tax_curve cumTax [] ((t, e) # rest) = (e - cumTax) # tax_curve cumTax [] rest"

definition tax_events :: "taxRates \<Rightarrow> gainEvent list \<Rightarrow> (gotime \<times> f64) list" where
  "tax_events rates gains =
     List.map_filter (\<lambda>e. let tax = gains_tax rates (ge_ltcg e) (ge_stcg e) in
        if tax > 0 then Some (ge_date e, tax) else None) gains"

definition afterTaxEquity ::
    "f64 list \<Rightarrow> gotime list \<Rightarrow> transaction list \<Rightarrow> gotime \<Rightarrow> gotime \<Rightarrow> taxRates \<Rightarrow> f64 list option" where
  "afterTaxEquity equity ts txns start end' rates =
     (if equity = [] \<or> length ts \<noteq> length equity then None
      else Some (tax_curve 0 (tax_events rates (rp_events (replayGainEvents txns start end'))) (zip ts equity)))"

definition after_tax_growth :: "stats \<Rightarrow> Period option \<Rightarrow> gotime list \<Rightarrow> f64 list \<Rightarrow> (f64 list \<Rightarrow> f64 \<Rightarrow> metric_value) \<Rightarrow> metric_value" where
  "after_tax_growth st window ts equity f =
     (case windowBounds st window of None \<Rightarrow> None
      | Some (start, end') \<Rightarrow>
          (case afterTaxEquity equity ts (st_TransactionsView st) start end' defaultTaxRates of
             None \<Rightarrow> Some (Inl ErrInsufficientData)
           | Some adjusted \<Rightarrow> f adjusted (flowAdjustedGrowth st adjusted ts)))"

definition afterTaxTWRR_Compute :: "stats \<Rightarrow> Period option \<Rightarrow> metric_value" where
  "afterTaxTWRR_Compute st window =
     on_equity (Some (Inl ErrInsufficientData)) (\<lambda>ts equity.
        if length equity < 2 then Some (Inl ErrInsufficientData)
        else after_tax_growth st window ts equity (\<lambda>adjusted growth. value_of (growth - 1))) (st_EquitySeries st window)"

definition afterTaxCAGR_Compute :: "stats \<Rightarrow> Period option \<Rightarrow> metric_value" where
  "afterTaxCAGR_Compute st window =
     on_equity (Some (Inl ErrInsufficientData)) (\<lambda>ts equity.
        if length equity < 2 \<or> length ts < 2 then Some (Inl ErrInsufficientData)
        else after_tax_growth st window ts equity (\<lambda>adjusted growth.
           if hd adjusted \<le> 0 \<or> years_of ts \<le> 0 \<or> growth \<le> 0 then Some (Inl ErrInsufficientData)
           else value_of (pow_pos growth (1 / years_of ts) - 1))) (st_EquitySeries st window)"

section \<open>Withdrawal metrics\<close>

definition defaultInflationRate :: real where "defaultInflationRate = 3 / 100"

definition time_unix :: "gotime \<Rightarrow> int" where "time_unix t = t div 1000000000"

record withdrawal =
  wd_balance :: f64
  wd_years :: nat

text \<open>
  One day of \<open>withdrawalSustainable\<close>: the value before and on the day, and its time. The next
  year boundary is a function of the years elapsed.
\<close>

definition withdraw_day ::
    "gotime \<Rightarrow> f64 \<Rightarrow> f64 \<Rightarrow> bool \<Rightarrow> withdrawal \<Rightarrow> (f64 \<times> f64) \<times> gotime \<Rightarrow> withdrawal option" where
  "withdraw_day startDate startBalance rate dynamic s = (\<lambda>((prev, cur), t).
     let balance = (if prev > 0 then wd_balance s * (1 + (cur - prev) / prev) else wd_balance s) in
     if time_unix t \<ge> time_unix (time_addDate startDate (int (wd_years s) + 1) 0 0)
     then let years = Suc (wd_years s);
              w0 = rate * startBalance * Fin ((1 + defaultInflationRate) ^ years);
              w = (if dynamic \<and> balance * rate < w0 then balance * rate else w0);
              after = balance - w
          in if after \<le> 0 then None else Some \<lparr>wd_balance = after, wd_years = years\<rparr>
     else Some (s\<lparr>wd_balance := balance\<rparr>))"

fun withdraw_days ::
    "gotime \<Rightarrow> f64 \<Rightarrow> f64 \<Rightarrow> bool \<Rightarrow> withdrawal \<Rightarrow> ((f64 \<times> f64) \<times> gotime) list \<Rightarrow> withdrawal option" where
  "withdraw_days startDate startBalance rate dynamic s [] = Some s"
| "withdraw_days startDate startBalance rate dynamic s (d # ds) =
     (case withdraw_day startDate startBalance rate dynamic s d of None \<Rightarrow> None
      | Some s' \<Rightarrow> withdraw_days startDate startBalance rate dynamic s' ds)"

definition withdrawalSustainable ::
    "f64 list \<Rightarrow> gotime list \<Rightarrow> f64 \<Rightarrow> bool \<Rightarrow> (f64 \<Rightarrow> f64 \<Rightarrow> f64 \<Rightarrow> bool) \<Rightarrow> bool" where
  "withdrawalSustainable equity ts rate dynamic criterion =
     (if length equity < 2 \<or> length ts < 2 then False
      else case withdraw_days (hd ts) (hd equity) rate dynamic \<lparr>wd_balance = hd equity, wd_years = 0\<rparr>
                  (zip (zip equity (tl equity)) (tl ts)) of
             None \<Rightarrow> False
           | Some s \<Rightarrow> criterion (hd equity) (wd_balance s) (pow_pos (Fin (1 + defaultInflationRate)) (years_of ts)))"

fun rate_scan :: "(f64 \<Rightarrow> bool) \<Rightarrow> nat \<Rightarrow> nat \<Rightarrow> f64 \<Rightarrow> f64" where
  "rate_scan ok 0 rateBps best = best"
| "rate_scan ok (Suc n) rateBps best =
     (let rate = Fin (real rateBps / 1000) in if ok rate then rate_scan ok n (Suc rateBps) rate else best)"

definition withdrawal_rate :: "bool \<Rightarrow> (f64 \<Rightarrow> f64 \<Rightarrow> f64 \<Rightarrow> bool) \<Rightarrow> stats \<Rightarrow> Period option \<Rightarrow> metric_value" where
  "withdrawal_rate dynamic criterion st window =
     on_equity (value_of 0) (\<lambda>ts equity.
        if length equity < 2 \<or> length ts < 2 then value_of 0
        else if calendar_days ts < 365 then value_of 0
        else value_of (rate_scan (\<lambda>rate. withdrawalSustainable equity ts rate dynamic criterion) 200 1 0)) (st_EquitySeries st window)"

definition safeWithdrawalRate_Compute :: "stats \<Rightarrow> Period option \<Rightarrow> metric_value" where
  "safeWithdrawalRate_Compute = withdrawal_rate False (\<lambda>start end' inflation. True)"

definition perpetualWithdrawalRate_Compute :: "stats \<Rightarrow> Period option \<Rightarrow> metric_value" where
  "perpetualWithdrawalRate_Compute = withdrawal_rate False (\<lambda>start end' inflation. end' \<ge> start * inflation)"

definition dynamicWithdrawalRate_Compute :: "stats \<Rightarrow> Period option \<Rightarrow> metric_value" where
  "dynamicWithdrawalRate_Compute = withdrawal_rate True (\<lambda>start end' inflation. True)"

section \<open>Time-weighted returns cancel flows\<close>

definition net_flow :: "transaction list \<Rightarrow> gotime \<Rightarrow> f64" where
  "net_flow txns t = sum_list (map t_Amount (filter (\<lambda>tx. is_flow tx \<and> t_Date tx = t) txns))"

lemma buildFlowMap_lookup:
  assumes "start \<le> t" "t \<le> end'"
  shows "mget 0 (buildFlowMap txns start end') t = net_flow txns t"
proof -
  let ?step = "\<lambda>flows tx. if t_Date tx < start \<or> t_Date tx > end' then flows
       else case t_Type tx of
           DepositTransaction \<Rightarrow> mput (t_Date tx) (mget 0 flows (t_Date tx) + t_Amount tx) flows
         | WithdrawalTransaction \<Rightarrow> mput (t_Date tx) (mget 0 flows (t_Date tx) + t_Amount tx) flows
         | _ \<Rightarrow> flows"
  have one: "mget 0 (?step m tx) t = mget 0 m t + (if is_flow tx \<and> t_Date tx = t then t_Amount tx else 0)" for m tx
    using assms by (cases "t_Type tx") (auto simp: is_flow_def simp del: zero_f64_Fin)
  have "mget 0 (foldl ?step m txns) t = mget 0 m t + net_flow txns t" for m
  proof (induction txns arbitrary: m)
    case (Cons tx txns)
    show ?case unfolding foldl_Cons Cons.IH one by (simp add: net_flow_def add.assoc del: zero_f64_Fin)
  qed (simp add: net_flow_def)
  then show ?thesis by (simp add: buildFlowMap_def)
qed

lemma sub_period_growth:
  assumes "\<forall>i<length gs. fval (es ! Suc i) = fval (es ! i) * (1 + gs ! i) + fval (mget 0 flows (ts ! Suc i))
      \<and> fin (mget 0 flows (ts ! Suc i)) \<and> fval (es ! i) \<noteq> 0"
    "\<forall>e\<in>set es. fin e" "length es = Suc (length gs)" "length ts = length es"
  shows "sub_period_loop flows (hd es) (tl (zip es ts)) = map Fin gs"
  using assms
proof (induction gs arbitrary: es ts)
  case (Cons g gs)
  obtain e e' es' where es: "es = e # e' # es'" using Cons.prems(3) by (metis Suc_length_conv)
  obtain t t' ts' where ts: "ts = t # t' # ts'" using Cons.prems(4) es by (metis Suc_length_conv length_Cons)
  have h: "fval e' = fval e * (1 + g) + fval (mget 0 flows t')" "fin (mget 0 flows t')" "fval e \<noteq> 0" "fin e" "fin e'"
    using Cons.prems(1,2) es ts by force+
  have "sub_period_loop flows (hd (e' # es')) (tl (zip (e' # es') (t' # ts'))) = map Fin gs"
  proof (rule Cons.IH)
    show "\<forall>i<length gs. fval ((e' # es') ! Suc i) = fval ((e' # es') ! i) * (1 + gs ! i) + fval (mget 0 flows ((t' # ts') ! Suc i))
      \<and> fin (mget 0 flows ((t' # ts') ! Suc i)) \<and> fval ((e' # es') ! i) \<noteq> 0"
    proof (intro allI impI)
      fix i
      assume "i < length gs"
      then show "fval ((e' # es') ! Suc i) = fval ((e' # es') ! i) * (1 + gs ! i) + fval (mget 0 flows ((t' # ts') ! Suc i))
          \<and> fin (mget 0 flows ((t' # ts') ! Suc i)) \<and> fval ((e' # es') ! i) \<noteq> 0"
        using Cons.prems(1) [rule_format, of "Suc i"] es ts by simp
    qed
  qed (use Cons.prems es ts in auto)
  moreover have "(e' - mget 0 flows t') / e - 1 = Fin g"
    using h by (cases e; cases e'; cases "mget 0 flows t'") (auto simp: field_simps)
  ultimately show ?case using h es ts by (auto simp: fin_order)
qed (auto simp: length_Suc_conv)

lemma compounded_Fin: "compounded (map Fin gs) = Fin (prod_list (map (\<lambda>g. 1 + g) gs))"
proof -
  have "foldl (\<lambda>p ri. p * (1 + ri)) (Fin x) (map Fin gs) = Fin (x * prod_list (map (\<lambda>g. 1 + g) gs))" for x
    by (induction gs arbitrary: x) (simp_all add: mult.assoc)
  from this [of 1] show ?thesis by (simp add: compounded_def)
qed

lemma twrr_growth:
  assumes "st_EquitySeries st window = Some (Some w)" "es = equity_of w" "ts = df_times w"
    "length es = Suc (length gs)" "gs \<noteq> []" "length ts = length es" "sorted ts" "\<forall>e\<in>set es. fin e"
    "\<forall>i<length gs. fval (es ! Suc i) = fval (es ! i) * (1 + gs ! i) + fval (net_flow (st_TransactionsView st) (ts ! Suc i))
      \<and> fin (net_flow (st_TransactionsView st) (ts ! Suc i)) \<and> fval (es ! i) \<noteq> 0"
  shows "twrr_Compute st window = Some (Inr (Fin (prod_list (map (\<lambda>g. 1 + g) gs) - 1)))"
proof -
  let ?fl = "buildFlowMap (st_TransactionsView st) (hd ts) (last ts)"
  have "ts \<noteq> []" using assms(4,6) by auto
  then have "hd ts \<le> ts ! i \<and> ts ! i \<le> last ts" if "i < length ts" for i
    using that assms(7) sorted_nth_mono [of ts 0 i] sorted_nth_mono [of ts i "length ts - 1"] by (simp add: hd_conv_nth last_conv_nth)
  then have f: "mget 0 ?fl (ts ! Suc i) = net_flow (st_TransactionsView st) (ts ! Suc i)" if "i < length gs" for i
    using that assms(4,6) by (intro buildFlowMap_lookup) auto
  have "subPeriodReturns es ts ?fl = map Fin gs"
    using sub_period_growth [of gs es ?fl ts] assms(4-6,8,9) f by (cases gs) (auto simp: subPeriodReturns_def)
  then show ?thesis using assms(1-5) compounded_Fin [of gs]
    by (cases gs) (simp_all add: twrr_Compute_def on_equity_def flowAdjustedGrowth_def value_of_def)
qed

section \<open>Unrealised gains split by holding period\<close>

lemma lot_gains_sum:
  "lot_gains bucket now gain tot lots
     = tot + sum_list (map (\<lambda>lot. if bucket (days_between now (lot_Date lot)) then gain lot else 0) lots)"
  by (induction lots arbitrary: tot) (simp_all add: lot_gains_def add.assoc)

definition entry_gains :: "(f64 \<Rightarrow> bool) \<Rightarrow> gotime \<Rightarrow> (asset \<Rightarrow> taxlot \<Rightarrow> f64) \<Rightarrow> (asset, taxlot list) gomap \<Rightarrow> f64" where
  "entry_gains bucket now gain m = sum_list (map (\<lambda>(ast, lots).
     sum_list (map (\<lambda>lot. if bucket (days_between now (lot_Date lot)) then gain ast lot else 0) lots)) m)"

abbreviation long_gain :: "dataframe \<Rightarrow> asset \<Rightarrow> taxlot \<Rightarrow> f64" where
  "long_gain prices ast lot \<equiv> (df_Value prices ast MetricClose - lot_Price lot) * lot_Qty lot"

abbreviation short_gain :: "dataframe \<Rightarrow> asset \<Rightarrow> taxlot \<Rightarrow> f64" where
  "short_gain prices ast lot \<equiv> (lot_Price lot - df_Value prices ast MetricClose) * lot_Qty lot"

lemma long_lot_gains_sum:
  assumes "\<forall>(ast, lots)\<in>set m. \<not> isNaN (df_Value prices ast MetricClose)"
  shows "long_lot_gains bucket now prices tot m = Some (tot + entry_gains bucket now (long_gain prices) m)"
  using assms
  by (induction m arbitrary: tot) (auto simp: entry_gains_def lot_gains_sum Let_def add.assoc)

lemma short_lot_gains_sum:
  assumes "\<forall>(ast, lots)\<in>set m. \<not> isNaN (df_Value prices ast MetricClose)"
  shows "short_lot_gains bucket now prices tot m = tot + entry_gains bucket now (short_gain prices) m"
  using assms unfolding short_lot_gains_def
  by (induction m arbitrary: tot) (auto simp: entry_gains_def lot_gains_sum Let_def add.assoc)

definition lots_quoted :: "dataframe \<Rightarrow> (asset, taxlot list) gomap \<Rightarrow> bool" where
  "lots_quoted prices m \<longleftrightarrow> (\<forall>(ast, lots)\<in>set m. fin (df_Value prices ast MetricClose) \<and> (\<forall>lot\<in>set lots. fin (lot_Price lot) \<and> fin (lot_Qty lot)))"

lemma bucket_split:
  assumes "\<forall>(ast, lots)\<in>set m. \<forall>lot\<in>set lots. fin (gain ast lot)"
  shows "fin (entry_gains b now gain m)"
    and "fval (entry_gains (\<lambda>d. d > 365) now gain m) + fval (entry_gains (\<lambda>d. d \<le> 365) now gain m)
       = (\<Sum>(ast, lots)\<leftarrow>m. \<Sum>lot\<leftarrow>lots. fval (gain ast lot))"
proof -
  have inner: "fin (sum_list (map (\<lambda>lot. if b (d lot) then h lot else 0) lots))
    \<and> fval (sum_list (map (\<lambda>lot. if b (d lot) then h lot else 0) lots)) = (\<Sum>lot\<leftarrow>lots. if b (d lot) then fval (h lot) else 0)"
    if "\<forall>lot\<in>set lots. fin (h lot)" for b and d :: "taxlot \<Rightarrow> f64" and h :: "taxlot \<Rightarrow> f64" and lots
    using that by (induction lots) auto
  have outer: "fin (entry_gains b now gain m)
    \<and> fval (entry_gains b now gain m) = (\<Sum>(ast, lots)\<leftarrow>m. \<Sum>lot\<leftarrow>lots. if b (days_between now (lot_Date lot)) then fval (gain ast lot) else 0)" for b
    using assms
  proof (induction m)
    case (Cons x m)
    then show ?case using inner [where b = b and d = "\<lambda>lot. days_between now (lot_Date lot)"]
      by (cases x) (auto simp: entry_gains_def)
  qed (simp add: entry_gains_def)
  show "fin (entry_gains b now gain m)" using outer by blast
  have days: "fin (days_between now t)" for t by (simp add: days_between_def)
  have lots: "(\<Sum>lot\<leftarrow>lots. if days_between now (lot_Date lot) > 365 then h lot else 0)
      + (\<Sum>lot\<leftarrow>lots. if days_between now (lot_Date lot) \<le> 365 then h lot else 0) = (\<Sum>lot\<leftarrow>lots. h lot)" for lots and h :: "taxlot \<Rightarrow> real"
    by (induction lots) (auto simp: fin_order days)
  have "(\<Sum>(ast, lots)\<leftarrow>m. \<Sum>lot\<leftarrow>lots. if days_between now (lot_Date lot) > 365 then fval (gain ast lot) else 0)
      + (\<Sum>(ast, lots)\<leftarrow>m. \<Sum>lot\<leftarrow>lots. if days_between now (lot_Date lot) \<le> 365 then fval (gain ast lot) else 0)
      = (\<Sum>(ast, lots)\<leftarrow>m. \<Sum>lot\<leftarrow>lots. fval (gain ast lot))"
  proof (induction m)
    case (Cons x m)
    obtain ast ls where x: "x = (ast, ls)" by (cases x)
    show ?case using Cons lots [where lots = ls and h = "\<lambda>lot. fval (gain ast lot)"] by (simp add: x)
  qed simp
  then show "fval (entry_gains (\<lambda>d. d > 365) now gain m) + fval (entry_gains (\<lambda>d. d \<le> 365) now gain m)
       = (\<Sum>(ast, lots)\<leftarrow>m. \<Sum>lot\<leftarrow>lots. fval (gain ast lot))"
    using outer by simp
qed

lemma unrealized_split:
  assumes "st_PricesView st = Some (Some prices)" "st_PerfDataView st = Some (Some pd)" "df_times pd \<noteq> []"
    "lots_quoted prices (st_TaxLotsView st)" "lots_quoted prices (st_ShortLotsView st)"
  shows "\<exists>l s. unrealizedLTCG_Compute st w = Some (Inr (Fin l)) \<and> unrealizedSTCG_Compute st w = Some (Inr (Fin s))
    \<and> l + s = (\<Sum>(ast, lots)\<leftarrow>st_TaxLotsView st. \<Sum>lot\<leftarrow>lots. fval (long_gain prices ast lot))
        + (\<Sum>(ast, lots)\<leftarrow>st_ShortLotsView st. \<Sum>lot\<leftarrow>lots. fval (short_gain prices ast lot))"
proof -
  let ?L = "st_TaxLotsView st" and ?S = "st_ShortLotsView st" and ?now = "last (df_times pd)"
  have nn: "\<forall>(ast, lots)\<in>set ?L. \<not> isNaN (df_Value prices ast MetricClose)" "\<forall>(ast, lots)\<in>set ?S. \<not> isNaN (df_Value prices ast MetricClose)"
    using assms(4,5) by (auto simp: lots_quoted_def fin_iff_not)
  have L: "\<forall>(ast, lots)\<in>set ?L. \<forall>lot\<in>set lots. fin (long_gain prices ast lot)"
    and S: "\<forall>(ast, lots)\<in>set ?S. \<forall>lot\<in>set lots. fin (short_gain prices ast lot)"
    using assms(4,5) by (auto simp: lots_quoted_def)
  have v: "unrealized_gains b st = Some (Inr (0 + entry_gains b ?now (long_gain prices) ?L + entry_gains b ?now (short_gain prices) ?S))" for b
    using assms(1-3) long_lot_gains_sum [OF nn(1)] short_lot_gains_sum [OF nn(2)] by (simp add: unrealized_gains_def value_of_def Let_def)
  show ?thesis
    using v bucket_split [OF L, where now = ?now] bucket_split [OF S, where now = ?now]
    unfolding unrealizedLTCG_Compute_def unrealizedSTCG_Compute_def
    by (intro exI [of _ "fval (entry_gains (\<lambda>d. d > 365) ?now (long_gain prices) ?L) + fval (entry_gains (\<lambda>d. d > 365) ?now (short_gain prices) ?S)"]
         exI [of _ "fval (entry_gains (\<lambda>d. d \<le> 365) ?now (long_gain prices) ?L) + fval (entry_gains (\<lambda>d. d \<le> 365) ?now (short_gain prices) ?S)"])
       (auto simp: fin_eq_iff)
qed

section \<open>Withdrawal rates\<close>

lemma rate_scan_prefix:
  "\<exists>n\<le>N. rate_scan ok N (Suc k) (Fin (real k / 1000)) = Fin (real (k + n) / 1000)
     \<and> (\<forall>i. k < i \<and> i \<le> k + n \<longrightarrow> ok (Fin (real i / 1000)))
     \<and> (n < N \<longrightarrow> \<not> ok (Fin (real (Suc (k + n)) / 1000)))"
proof (induction N arbitrary: k)
  case (Suc N)
  show ?case
  proof (cases "ok (Fin (real (Suc k) / 1000))")
    case True
    from Suc.IH [of "Suc k"] obtain n where n: "n \<le> N" "rate_scan ok N (Suc (Suc k)) (Fin (real (Suc k) / 1000)) = Fin (real (Suc k + n) / 1000)"
      "\<forall>i. Suc k < i \<and> i \<le> Suc k + n \<longrightarrow> ok (Fin (real i / 1000))" "n < N \<longrightarrow> \<not> ok (Fin (real (Suc (Suc k + n)) / 1000))" by blast
    have "ok (Fin (real i / 1000))" if "k < i" "i \<le> k + Suc n" for i
      using n(3) True that by (cases "i = Suc k") auto
    then show ?thesis using n(1,2,4) True by (intro exI [of _ "Suc n"]) (simp add: Let_def)
  next
    case False
    then show ?thesis by (intro exI [of _ 0]) (auto simp: Let_def)
  qed
qed auto

lemma rate_scan_largest:
  assumes "\<And>i j. 0 < i \<Longrightarrow> i \<le> j \<Longrightarrow> j \<le> N \<Longrightarrow> ok (Fin (real j / 1000)) \<Longrightarrow> ok (Fin (real i / 1000))"
  shows "\<exists>n\<le>N. rate_scan ok N 1 0 = Fin (real n / 1000) \<and> (\<forall>k. 0 < k \<and> k \<le> N \<longrightarrow> (ok (Fin (real k / 1000)) \<longleftrightarrow> k \<le> n))"
proof -
  obtain n where n: "n \<le> N" "rate_scan ok N 1 0 = Fin (real n / 1000)" "\<forall>i. 0 < i \<and> i \<le> n \<longrightarrow> ok (Fin (real i / 1000))"
      "n < N \<longrightarrow> \<not> ok (Fin (real (Suc n) / 1000))"
    using rate_scan_prefix [of N ok 0] by auto
  have "k \<le> n" if "0 < k" "k \<le> N" "ok (Fin (real k / 1000))" for k
    using that n(4) assms [of "Suc n" k] by (metis Suc_leI leI le_trans zero_less_Suc order_less_le_trans)
  then show ?thesis using n(1-3) by blast
qed

text \<open>A lower rate never leaves a smaller balance.\<close>

definition wd_le :: "withdrawal \<Rightarrow> withdrawal \<Rightarrow> bool" where
  "wd_le s s' \<longleftrightarrow> wd_years s = wd_years s' \<and> fin (wd_balance s) \<and> fin (wd_balance s')
     \<and> 0 \<le> fval (wd_balance s) \<and> fval (wd_balance s) \<le> fval (wd_balance s')"

definition grown :: "f64 \<Rightarrow> f64 \<Rightarrow> f64 \<Rightarrow> f64" where
  "grown balance prev cur = (if prev > 0 then balance * (1 + (cur - prev) / prev) else balance)"

lemma grown_mono:
  assumes "fin b" "fin b'" "0 \<le> fval b" "fval b \<le> fval b'" "fin prev" "fin cur" "0 \<le> fval cur"
  shows "fin (grown b prev cur)" "fin (grown b' prev cur)" "0 \<le> fval (grown b prev cur)" "fval (grown b prev cur) \<le> fval (grown b' prev cur)"
proof -
  have f: "1 + (cur - prev) / prev = Fin (fval cur / fval prev)" if "prev > 0"
    using that assms(5,6) by (cases cur; cases prev) (auto simp: field_simps)
  show "fin (grown b prev cur)" "fin (grown b' prev cur)" "0 \<le> fval (grown b prev cur)" "fval (grown b prev cur) \<le> fval (grown b' prev cur)"
    using assms f by (auto simp: grown_def fin_order mult_right_mono divide_right_mono)
qed

definition withdrawn :: "f64 \<Rightarrow> f64 \<Rightarrow> bool \<Rightarrow> nat \<Rightarrow> f64 \<Rightarrow> f64" where
  "withdrawn startBalance rate dynamic years balance =
     (let w0 = rate * startBalance * Fin ((1 + defaultInflationRate) ^ years)
      in balance - (if dynamic \<and> balance * rate < w0 then balance * rate else w0))"

lemma withdrawn_mono:
  assumes "fin b" "fin b'" "0 \<le> fval b" "fval b \<le> fval b'" "fin r" "fin r'" "0 \<le> fval r'" "fval r' \<le> fval r" "fval r \<le> 1"
    "fin s" "0 \<le> fval s"
  shows "fin (withdrawn s r dyn n b)" "fin (withdrawn s r' dyn n b')" "fval (withdrawn s r dyn n b) \<le> fval (withdrawn s r' dyn n b')"
proof -
  define c where "c = fval s * (1 + defaultInflationRate) ^ n"
  have c: "0 \<le> c" using assms(11) by (simp add: c_def defaultInflationRate_def)
  have v: "fin (withdrawn s x dyn n y) \<and> fval (withdrawn s x dyn n y) = fval y - (if dyn then min (fval y * fval x) (fval x * c) else fval x * c)"
    if "fin x" "fin y" for x y using that assms(10) by (auto simp: withdrawn_def Let_def fin_order c_def min_def mult.assoc)
  show "fin (withdrawn s r dyn n b)" "fin (withdrawn s r' dyn n b')" using v assms(1,2,5,6) by auto
  have p: "fval r' * c \<le> fval r * c" using assms(8) c by (rule mult_right_mono)
  have "fval b * (1 - fval r) \<le> fval b' * (1 - fval r')" using assms by (intro mult_mono) auto
  then have q: "fval b - fval b * fval r \<le> fval b' - fval b' * fval r'" by (simp add: algebra_simps)
  show "fval (withdrawn s r dyn n b) \<le> fval (withdrawn s r' dyn n b')"
    using v [OF assms(5,1)] v [OF assms(6,2)] p q assms(4) by (auto simp: min_def)
qed

lemma withdraw_day_eq:
  "withdraw_day startDate startBalance rate dynamic s ((prev, cur), t) =
     (let balance = grown (wd_balance s) prev cur in
      if time_unix t \<ge> time_unix (time_addDate startDate (int (wd_years s) + 1) 0 0)
      then let after = withdrawn startBalance rate dynamic (Suc (wd_years s)) balance in
           if after \<le> 0 then None else Some \<lparr>wd_balance = after, wd_years = Suc (wd_years s)\<rparr>
      else Some (s\<lparr>wd_balance := balance\<rparr>))"
  by (simp add: withdraw_day_def grown_def withdrawn_def Let_def)

lemma withdraw_day_mono:
  assumes "wd_le s s'" "withdraw_day d0 b0 r dyn s ((prev, cur), t) = Some u"
    "fin r" "fin r'" "0 \<le> fval r'" "fval r' \<le> fval r" "fval r \<le> 1" "fin b0" "0 \<le> fval b0"
    "fin prev" "fin cur" "0 \<le> fval cur"
  shows "\<exists>u'. withdraw_day d0 b0 r' dyn s' ((prev, cur), t) = Some u' \<and> wd_le u u'"
proof -
  have le: "fin (wd_balance s)" "fin (wd_balance s')" "0 \<le> fval (wd_balance s)" "fval (wd_balance s) \<le> fval (wd_balance s')" "wd_years s' = wd_years s"
    using assms(1) by (simp_all add: wd_le_def)
  note g = grown_mono [OF le(1-4) assms(10-12)]
  note w = withdrawn_mono [OF g assms(3-9), of dyn "Suc (wd_years s)"]
  show ?thesis
  proof (cases "time_unix t \<ge> time_unix (time_addDate d0 (int (wd_years s) + 1) 0 0)")
    case True
    let ?x = "withdrawn b0 r dyn (Suc (wd_years s)) (grown (wd_balance s) prev cur)"
    have x: "\<not> ?x \<le> 0" "u = \<lparr>wd_balance = ?x, wd_years = Suc (wd_years s)\<rparr>"
      using assms(2) True by (auto simp: withdraw_day_eq Let_def split: if_splits)
    have "\<not> withdrawn b0 r' dyn (Suc (wd_years s)) (grown (wd_balance s') prev cur) \<le> 0"
      using x(1) w by (simp add: fin_order)
    then show ?thesis using x w True le(5) by (simp add: withdraw_day_eq Let_def wd_le_def fin_order)
  next
    case False
    then show ?thesis using assms(2) g le(5) by (auto simp: withdraw_day_eq Let_def wd_le_def)
  qed
qed

lemma withdraw_days_mono:
  assumes "wd_le s s'" "withdraw_days d0 b0 r dyn s ds = Some u"
    "fin r" "fin r'" "0 \<le> fval r'" "fval r' \<le> fval r" "fval r \<le> 1" "fin b0" "0 \<le> fval b0"
    "\<forall>((prev, cur), t)\<in>set ds. fin prev \<and> fin cur \<and> 0 \<le> fval cur"
  shows "\<exists>u'. withdraw_days d0 b0 r' dyn s' ds = Some u' \<and> wd_le u u'"
  using assms(1,2,10)
proof (induction ds arbitrary: s s')
  case (Cons d ds)
  obtain prev cur t where d: "d = ((prev, cur), t)" by (metis surj_pair)
  from Cons.prems(2) obtain v where v: "withdraw_day d0 b0 r dyn s d = Some v" "withdraw_days d0 b0 r dyn v ds = Some u"
    by (auto split: option.splits)
  have c: "fin prev" "fin cur" "0 \<le> fval cur" using Cons.prems(3) by (auto simp: d)
  obtain v' where v': "withdraw_day d0 b0 r' dyn s' d = Some v'" "wd_le v v'"
    using withdraw_day_mono [OF Cons.prems(1) v(1) [unfolded d] assms(3-9) c] d by blast
  from Cons.IH [OF v'(2) v(2)] Cons.prems(3) v'(1) show ?case by auto
qed simp

lemma sustainable_mono:
  assumes "withdrawalSustainable es ts r dyn crit" "\<forall>e\<in>set es. fin e \<and> 0 \<le> fval e"
    "fin r" "fin r'" "0 \<le> fval r'" "fval r' \<le> fval r" "fval r \<le> 1"
    and crit: "\<And>b b'. fin b \<Longrightarrow> fin b' \<Longrightarrow> fval b \<le> fval b' \<Longrightarrow> crit (hd es) b fl \<Longrightarrow> crit (hd es) b' fl"
    and inf: "fl = pow_pos (Fin (1 + defaultInflationRate)) (years_of ts)"
  shows "withdrawalSustainable es ts r' dyn crit"
proof -
  have len: "\<not> (length es < 2 \<or> length ts < 2)" using assms(1) by (auto simp: withdrawalSustainable_def)
  let ?s = "\<lparr>wd_balance = hd es, wd_years = 0\<rparr>" and ?ds = "zip (zip es (tl es)) (tl ts)"
  obtain u where u: "withdraw_days (hd ts) (hd es) r dyn ?s ?ds = Some u" "crit (hd es) (wd_balance u) fl"
    using assms(1) len inf by (auto simp: withdrawalSustainable_def split: option.splits)
  have "hd es \<in> set es" using len by (intro hd_in_set) auto
  then have h: "fin (hd es)" "0 \<le> fval (hd es)" using assms(2) by auto
  have le: "wd_le ?s ?s" using h by (simp add: wd_le_def)
  have ds: "\<forall>((prev, cur), t)\<in>set ?ds. fin prev \<and> fin cur \<and> 0 \<le> fval cur"
  proof (intro ballI, clarify)
    fix prev cur t
    assume "((prev, cur), t) \<in> set ?ds"
    then have "(prev, cur) \<in> set (zip es (tl es))" by (rule set_zip_leftD)
    then have "prev \<in> set es" "cur \<in> set (tl es)" by (rule set_zip_leftD, rule set_zip_rightD)
    moreover have "cur \<in> set es" using len \<open>cur \<in> set (tl es)\<close> by (cases es) auto
    ultimately show "fin prev \<and> fin cur \<and> 0 \<le> fval cur" using assms(2) by simp
  qed
  obtain u' where "withdraw_days (hd ts) (hd es) r' dyn ?s ?ds = Some u'" "wd_le u u'"
    using withdraw_days_mono [OF le u(1) assms(3-7) h ds] by (elim exE conjE)
  then show ?thesis using len inf crit [of "wd_balance u" "wd_balance u'"] u(2) by (simp add: withdrawalSustainable_def wd_le_def)
qed

lemma withdrawal_rate_largest:
  assumes "st_EquitySeries st window = Some (Some w)" "es = equity_of w" "ts = df_times w"
    "2 \<le> length es" "2 \<le> length ts" "365 \<le> calendar_days ts" "\<forall>e\<in>set es. fin e \<and> 0 \<le> fval e"
    and crit: "\<And>s b b' i. fin b \<Longrightarrow> fin b' \<Longrightarrow> fval b \<le> fval b' \<Longrightarrow> crit s b i \<Longrightarrow> crit s b' i"
  shows "\<exists>n\<le>200. withdrawal_rate dyn crit st window = Some (Inr (Fin (real n / 1000)))
    \<and> (\<forall>k. 0 < k \<and> k \<le> 200 \<longrightarrow> (withdrawalSustainable es ts (Fin (real k / 1000)) dyn crit \<longleftrightarrow> k \<le> n))"
proof -
  define ok where "ok rate \<longleftrightarrow> withdrawalSustainable es ts rate dyn crit" for rate
  have mono: "ok (Fin (real i / 1000))" if "0 < i" "i \<le> j" "j \<le> 200" "ok (Fin (real j / 1000))" for i j
    unfolding ok_def by (rule sustainable_mono [OF that(4) [unfolded ok_def] assms(7) _ _ _ _ _ crit refl]) (use that in auto)
  have "\<exists>n\<le>200. rate_scan ok 200 1 0 = Fin (real n / 1000) \<and> (\<forall>k. 0 < k \<and> k \<le> 200 \<longrightarrow> ok (Fin (real k / 1000)) = (k \<le> n))"
    by (rule rate_scan_largest) (rule mono)
  then obtain n where n: "n \<le> 200" "rate_scan ok 200 1 0 = Fin (real n / 1000)"
    "\<forall>k. 0 < k \<and> k \<le> 200 \<longrightarrow> ok (Fin (real k / 1000)) = (k \<le> n)" by (elim exE conjE)
  have "\<not> calendar_days ts < 365" using assms(6) by (auto simp: calendar_days_def days_between_def fin_order)
  then have "withdrawal_rate dyn crit st window = Some (Inr (rate_scan ok 200 1 0))"
    using assms(1-5) unfolding ok_def by (simp add: withdrawal_rate_def on_equity_def value_of_def)
  then show ?thesis using n unfolding ok_def by (intro exI [of _ n] conjI) simp_all
qed

section \<open>The after-tax curve\<close>

definition tax_until :: "(gotime \<times> f64) list \<Rightarrow> gotime \<Rightarrow> f64" where
  "tax_until events t = sum_list (map snd (filter (\<lambda>(d, _). d \<le> t) events))"

lemma tax_until_none: "\<forall>x\<in>set events. t < fst x \<Longrightarrow> tax_until events t = 0"
  by (induction events) (auto simp: tax_until_def)

lemma tax_curve_sum:
  assumes "sorted (map fst events)" "sorted (map fst rows)"
  shows "tax_curve cum events rows = map (\<lambda>(t, e). e - (cum + tax_until events t)) rows"
  using assms
proof (induction cum events rows rule: tax_curve.induct)
  case (2 cum d amount events t e rest)
  show ?case
  proof (cases "d \<le> t")
    case True
    have "tax_until ((d, amount) # events) t' = amount + tax_until events t'" if "t \<le> t'" for t'
      using True that by (simp add: tax_until_def)
    moreover have "\<forall>(t', e')\<in>set rest. t \<le> t'" using 2(4) by auto
    ultimately show ?thesis using True 2 by (auto simp: add.assoc)
  next
    case False
    have "tax_until ((d, amount) # events) t = 0" using False 2(3) by (intro tax_until_none) auto
    then show ?thesis using False 2 by simp
  qed
qed (simp_all add: tax_until_def)

lemma afterTaxEquity_exact:
  assumes "es \<noteq> []" "length ts = length es" "sorted ts"
    "evs = tax_events rates (rp_events (replayGainEvents txns b e))" "sorted (map fst evs)"
  shows "afterTaxEquity es ts txns b e rates = Some (map (\<lambda>(t, v). v - tax_until evs t) (zip ts es))"
  using tax_curve_sum [of evs "zip ts es" 0] assms by (simp add: afterTaxEquity_def)

end
