(* ===== verification/RiskMiddleware.thy ===== *)
theory RiskMiddleware
  imports PortfolioStats SimInvariant "HOL-Library.Sublist"
begin

text \<open>
  The risk middleware (engine/middleware/risk): each processes the batch of proposed orders
  before execution. A \<open>range\<close> over a map takes its iteration order as an argument. The data
  source of the volatility scaler is an argument; a panic of the drawdown series, which a
  well-formed history excludes, reads as no data. Shows what each limit guarantees about the
  orders it lets through, and that all of them keep to the middleware interface.
\<close>

section \<open>Formatted numbers\<close>

text \<open>The verbs \<open>%.nf\<close> of package fmt: the decimal rounded half to even.\<close>

definition round_even :: "real \<Rightarrow> int" where
  "round_even x = (let k = \<lfloor>x\<rfloor>; d = x - of_int k in
     if d < 1 / 2 \<or> d = 1 / 2 \<and> even k then k else k + 1)"

fun pad_left :: "nat \<Rightarrow> string \<Rightarrow> string" where
  "pad_left n s = replicate (n - length s) CHR ''0'' @ s"

fun show_fixed :: "nat \<Rightarrow> f64 \<Rightarrow> string" where
  "show_fixed n (Fin r) =
     (let k = round_even (\<bar>r\<bar> * 10 ^ n) in
      (if r < 0 then ''-'' else []) @ show_int (k div 10 ^ n)
      @ (if n = 0 then [] else ''.'' @ pad_left n (show_int (k mod 10 ^ n))))"
| "show_fixed n NaN = ''NaN''"
| "show_fixed n PInf = ''+Inf''"
| "show_fixed n NInf = ''-Inf''"

declare show_fixed.simps [simp del]

definition show_pct :: "f64 \<Rightarrow> string" where
  "show_pct x = show_fixed 1 (x * 100) @ ''%''"

definition show_side :: "Side \<Rightarrow> string" where
  "show_side side = (case side of Buy \<Rightarrow> ''0'' | Sell \<Rightarrow> ''1'')"

section \<open>Exposure limits\<close>

definition projectExposureChange :: "account \<Rightarrow> order \<Rightarrow> f64 \<times> f64 \<Rightarrow> f64 \<times> f64" where
  "projectExposureChange port ord = (\<lambda>(longMV, shortMV).
     let currentQty = Position port (o_Asset ord);
         positionValue = PositionValue port (o_Asset ord);
         dollarAmount = (if o_Amount ord > 0 then o_Amount ord
                         else if o_Qty ord > 0 then
                           (if \<not> feq currentQty 0 then o_Qty ord * absF (positionValue / currentQty) else 0)
                         else 0)
     in case o_Side ord of
          Buy \<Rightarrow>
            if currentQty < 0 then
              let shortPositionValue = absF currentQty * absF (positionValue / currentQty) in
              if dollarAmount \<le> shortPositionValue then (longMV, shortMV - dollarAmount)
              else (longMV + (dollarAmount - shortPositionValue), shortMV - shortPositionValue)
            else (longMV + dollarAmount, shortMV)
        | Sell \<Rightarrow>
            if currentQty > 0 then
              let longPositionValue = currentQty * (positionValue / currentQty) in
              if dollarAmount \<le> longPositionValue then (longMV - dollarAmount, shortMV)
              else (longMV - longPositionValue, shortMV + (dollarAmount - longPositionValue))
            else (longMV, shortMV + dollarAmount))"

fun exposure_filter ::
    "account \<Rightarrow> (f64 \<times> f64 \<Rightarrow> f64) \<Rightarrow> f64 \<Rightarrow> (order \<Rightarrow> f64 \<Rightarrow> batch \<Rightarrow> batch) \<Rightarrow> f64 \<times> f64 \<Rightarrow> batch \<Rightarrow> order list
     \<Rightarrow> order list \<times> batch" where
  "exposure_filter port exposure limit note mv b [] = ([], b)"
| "exposure_filter port exposure limit note mv b (ord # ords) =
     (let proj = projectExposureChange port ord mv; e = exposure proj in
      if e > limit then exposure_filter port exposure limit note mv (note ord e b) ords
      else case exposure_filter port exposure limit note proj b ords of (kept, b') \<Rightarrow> (ord # kept, b'))"

definition exposure_limit ::
    "(f64 \<Rightarrow> f64 \<times> f64 \<Rightarrow> f64) \<Rightarrow> f64 \<Rightarrow> (order \<Rightarrow> f64 \<Rightarrow> batch \<Rightarrow> batch) \<Rightarrow> middleware" where
  "exposure_limit exposure limit note = (\<lambda>(port, b).
     let equity = Equity port in
     if equity \<le> 0 then (None, port, b)
     else case exposure_filter port (exposure equity) limit note (LongMarketValue port, ShortMarketValue port) b (b_Orders b)
            of (kept, b') \<Rightarrow> (None, port, b'\<lparr>b_Orders := kept\<rparr>))"

definition gross_exposure :: "f64 \<Rightarrow> f64 \<times> f64 \<Rightarrow> f64" where
  "gross_exposure equity = (\<lambda>(longMV, shortMV). (longMV + shortMV) / equity)"

definition net_exposure :: "f64 \<Rightarrow> f64 \<times> f64 \<Rightarrow> f64" where
  "net_exposure equity = (\<lambda>(longMV, shortMV). absF (longMV - shortMV) / equity)"

definition exposure_note :: "string \<Rightarrow> string \<Rightarrow> f64 \<Rightarrow> order \<Rightarrow> f64 \<Rightarrow> batch \<Rightarrow> batch" where
  "exposure_note key name limit ord e b =
     batch_Annotate key
       (''dropped '' @ show_side (o_Side ord) @ '' '' @ Ticker (o_Asset ord) @ '': '' @ name @ '' exposure would be '' @ show_pct e
        @ '' (limit '' @ show_pct limit @ '')'') b"

definition GrossExposureLimit :: "f64 \<Rightarrow> middleware" where
  "GrossExposureLimit maxGross =
     exposure_limit gross_exposure maxGross (exposure_note ''risk:gross-exposure-limit'' ''gross'' maxGross)"

definition NetExposureLimit :: "f64 \<Rightarrow> middleware" where
  "NetExposureLimit maxNet =
     exposure_limit net_exposure maxNet (exposure_note ''risk:net-exposure-limit'' ''net'' maxNet)"

section \<open>The drawdown circuit breaker\<close>

definition market_day_order :: "asset \<Rightarrow> Side \<Rightarrow> f64 \<Rightarrow> f64 \<Rightarrow> order" where
  "market_day_order ast side qty amount =
     order_zero\<lparr>o_Asset := ast, o_Side := side, o_Qty := qty, o_Amount := amount, o_OrderType := Market, o_TimeInForce := Day\<rparr>"

definition current_drawdown :: "gonum \<Rightarrow> account \<Rightarrow> f64 option" where
  "current_drawdown g port =
     (case query_Series g (PerformanceMetric_of port MaxDrawdown) of
        Some (Inr (Some ddSeries)) \<Rightarrow>
          if df_Len ddSeries = 0 then None
          else (case df_Column ddSeries (hd (df_assets ddSeries)) (hd (df_metrics ddSeries)) of
                  Some ddCol \<Rightarrow> if ddCol = [] then None else Some (last ddCol)
                | None \<Rightarrow> None)
      | _ \<Rightarrow> None)"

definition DrawdownCircuitBreaker :: "gonum \<Rightarrow> range_order \<Rightarrow> f64 \<Rightarrow> middleware" where
  "DrawdownCircuitBreaker g it threshold = (\<lambda>(port, b).
     case current_drawdown g port of None \<Rightarrow> (None, port, b)
     | Some dd \<Rightarrow>
         if isNaN dd \<or> absF dd < threshold then (None, port, b)
         else let sells = map (\<lambda>(ast, qty). market_day_order ast Sell qty 0) (filter (\<lambda>(ast, qty). qty > 0) (it (Holdings port)))
           in (None, port, batch_Annotate ''risk:drawdown-circuit-breaker''
                 (''drawdown '' @ show_pct (absF dd) @ '' exceeds '' @ show_pct threshold @ '' threshold, force-liquidating all positions'')
                 (b\<lparr>b_Orders := sells\<rparr>)))"

section \<open>Position limits\<close>

record positionEntry =
  pe_asset :: asset
  pe_value :: f64
  pe_qty :: f64

definition position_entries :: "range_order \<Rightarrow> account \<Rightarrow> batch \<Rightarrow> positionEntry list" where
  "position_entries it port b =
     (let totalValue = ProjectedValue port b; holdings = ProjectedHoldings port b in
      map (\<lambda>(ast, weight). \<lparr>pe_asset = ast, pe_value = absF (weight * totalValue), pe_qty = mget 0 holdings ast\<rparr>)
        (it (ProjectedWeights port b)))"

definition close_entry :: "positionEntry \<Rightarrow> order" where
  "close_entry pos =
     (if pe_qty pos < 0 then market_day_order (pe_asset pos) Buy (- pe_qty pos) 0
      else market_day_order (pe_asset pos) Sell (pe_qty pos) 0)"

definition drop_entry :: "int \<Rightarrow> batch \<Rightarrow> positionEntry \<Rightarrow> batch" where
  "drop_entry limit b pos =
     batch_Annotate ''risk:max-position-count''
       (''dropped '' @ Ticker (pe_asset pos) @ '' ($'' @ show_fixed 0 (pe_value pos) @ '', smallest position) to stay within ''
        @ show_int limit @ '' position limit'')
       (b\<lparr>b_Orders := b_Orders b @ [close_entry pos]\<rparr>)"

definition MaxPositionCount :: "range_order \<Rightarrow> int \<Rightarrow> middleware" where
  "MaxPositionCount it limit = (\<lambda>(port, b).
     if int (length (ProjectedWeights port b)) \<le> limit then (None, port, b)
     else let positions = sort_Slice (\<lambda>x y. pe_value x < pe_value y) (position_entries it port b);
              dropCount = nat (int (length positions) - limit)
          in (None, port, foldl (drop_entry limit) b (take dropCount positions)))"

definition cap_position :: "f64 \<Rightarrow> f64 \<Rightarrow> batch \<Rightarrow> asset \<times> f64 \<Rightarrow> batch" where
  "cap_position limit totalValue b = (\<lambda>(posAsset, weight).
     let absWeight = absF weight in
     if absWeight \<le> limit then b
     else let excessDollars = (absWeight - limit) * totalValue in
       if weight > 0 then
         batch_Annotate ''risk:max-position-size''
           (''capped '' @ Ticker posAsset @ '' from '' @ show_pct weight @ '' to '' @ show_pct limit @ '', $'' @ show_fixed 0 excessDollars @ '' moved to cash'')
           (b\<lparr>b_Orders := b_Orders b @ [market_day_order posAsset Sell 0 excessDollars]\<rparr>)
       else
         batch_Annotate ''risk:max-position-size''
           (''capped short '' @ Ticker posAsset @ '' from '' @ show_pct absWeight @ '' to '' @ show_pct limit @ '', $'' @ show_fixed 0 excessDollars @ '' covered'')
           (b\<lparr>b_Orders := b_Orders b @ [market_day_order posAsset Buy 0 excessDollars]\<rparr>))"

definition MaxPositionSize :: "range_order \<Rightarrow> f64 \<Rightarrow> middleware" where
  "MaxPositionSize it limit = (\<lambda>(port, b).
     (None, port, foldl (cap_position limit (ProjectedValue port b)) b (it (ProjectedWeights port b))))"

section \<open>Volatility scaling\<close>

fun logF :: "f64 \<Rightarrow> f64" where
  "logF (Fin x) = (if x > 0 then Fin (ln x) else if x = 0 then NInf else NaN)"
| "logF PInf = PInf"
| "logF x = NaN"

definition log_returns :: "f64 list \<Rightarrow> f64 list option" where
  "log_returns prices =
     (if list_ex (\<lambda>(p, q). p \<le> 0 \<or> q \<le> 0) (zip prices (tl prices)) then None
      else Some (map (\<lambda>(p, q). logF (q / p)) (zip prices (tl prices))))"

definition sample_stdDev :: "f64 list \<Rightarrow> f64" where
  "sample_stdDev xs =
     (let mean = foldl (+) 0 xs / Fin (real (length xs));
          variance = foldl (\<lambda>v x. v + (x - mean) * (x - mean)) 0 xs / Fin (real (length xs) - 1)
      in sqrtF variance)"

definition computeAnnualizedVol :: "dataframe option \<Rightarrow> asset \<Rightarrow> nat \<Rightarrow> f64" where
  "computeAnnualizedVol priceFrame ast lookback =
     (case priceFrame of None \<Rightarrow> NaN
      | Some df \<Rightarrow>
          let col = (case df_Column df ast MetricClose of None \<Rightarrow> [] | Some c \<Rightarrow> c);
              prices = (if length col > lookback + 1 then drop (length col - (lookback + 1)) col else col)
          in if length prices < 2 then NaN
             else (case log_returns prices of None \<Rightarrow> NaN
                   | Some returns \<Rightarrow> sample_stdDev returns * sqrtF 252))"

record volEntry =
  ve_asset :: asset
  ve_vol :: f64
  ve_originalWeight :: f64

type_synonym price_source = "asset list \<Rightarrow> Period \<Rightarrow> metric list \<Rightarrow> goerr + dataframe option"

definition vol_entries :: "dataframe option \<Rightarrow> nat \<Rightarrow> (asset \<times> f64) list \<Rightarrow> volEntry list" where
  "vol_entries priceFrame lookback weights =
     List.map_filter (\<lambda>(ast, weight).
        let vol = computeAnnualizedVol priceFrame ast lookback in
        if isNaN vol \<or> vol \<le> 0 then None
        else Some \<lparr>ve_asset = ast, ve_vol = vol, ve_originalWeight = absF weight\<rparr>) weights"

definition target_weight :: "volEntry list \<Rightarrow> volEntry \<Rightarrow> f64" where
  "target_weight withVol entry =
     (1 / ve_vol entry) / foldl (\<lambda>s e. s + 1 / ve_vol e) 0 withVol * foldl (\<lambda>s e. s + ve_originalWeight e) 0 withVol"

definition scale_entry :: "volEntry list \<Rightarrow> f64 \<Rightarrow> batch \<times> string \<Rightarrow> volEntry \<Rightarrow> batch \<times> string" where
  "scale_entry withVol totalValue = (\<lambda>(b, details) entry.
     let target = target_weight withVol entry in
     if target \<ge> ve_originalWeight entry then (b, details)
     else let excessDollars = (ve_originalWeight entry - target) * totalValue in
       (b\<lparr>b_Orders := b_Orders b @ [market_day_order (ve_asset entry) Sell 0 excessDollars]\<rparr>,
        details @ Ticker (ve_asset entry) @ '': vol='' @ show_pct (ve_vol entry) @ '' weight '' @ show_pct (ve_originalWeight entry)
          @ ''->'' @ show_pct target @ ''; ''))"

definition VolatilityScaler :: "price_source \<Rightarrow> range_order \<Rightarrow> range_order \<Rightarrow> nat \<Rightarrow> middleware" where
  "VolatilityScaler fetch it1 it2 lookback = (\<lambda>(port, b).
     let weights = ProjectedWeights port b; totalValue = ProjectedValue port b in
     if weights = [] then (None, port, b)
     else if feq totalValue 0 then (None, port, b)
     else case fetch (map fst (it1 weights)) (mk_Period (int (lookback * 7 div 5 + 5)) UnitDay) [MetricClose] of
            Inl e \<Rightarrow> (Some (Wrap ''volatility scaler: fetch prices'' e), port, b)
          | Inr priceFrame \<Rightarrow>
              let withVol = vol_entries priceFrame lookback (it2 weights) in
              if withVol = [] then (None, port, b)
              else (case foldl (scale_entry withVol totalValue) (b, []) withVol of
                      (b', details) \<Rightarrow>
                        (None, port, if details \<noteq> [] then batch_Annotate ''risk:volatility-scaler'' details b' else b')))"

section \<open>The interface is kept\<close>

lemma market_day_order_simps [simp]:
  "o_Asset (market_day_order k s q a) = k" "o_Side (market_day_order k s q a) = s"
  "o_Qty (market_day_order k s q a) = q" "o_Amount (market_day_order k s q a) = a"
  by (simp_all add: market_day_order_def)

lemma batch_Annotate_sel [simp]:
  "b_Orders (batch_Annotate k v b) = b_Orders b" "b_executed (batch_Annotate k v b) = b_executed b"
  "b_Timestamp (batch_Annotate k v b) = b_Timestamp b" "b_groups (batch_Annotate k v b) = b_groups b"
  by (simp_all add: batch_Annotate_def)

text \<open>A middleware that only rewrites the batch, with orders of non-negative quantity.\<close>

definition order_rewriter :: "middleware \<Rightarrow> bool" where
  "order_rewriter mw \<longleftrightarrow> (\<forall>a b e a' b'. batch_ok b \<longrightarrow> mw (a, b) = (e, a', b') \<longrightarrow> a' = a \<and> batch_ok b')"

lemma order_rewriter_ok: "order_rewriter mw \<Longrightarrow> middleware_ok mw"
  unfolding order_rewriter_def middleware_ok_def by (metis (no_types))

lemma exposure_filter_sub:
  "exposure_filter port ex limit note mv b ords = (kept, b') \<Longrightarrow> subseq kept ords"
proof (induction ords arbitrary: mv b kept b')
  case (Cons ord ords)
  obtain k b1 where k: "exposure_filter port ex limit note (projectExposureChange port ord mv) b ords = (k, b1)" by force
  show ?case
  proof (cases "ex (projectExposureChange port ord mv) > limit")
    case True
    then have "subseq kept ords" using Cons.prems by (intro Cons.IH) (simp add: Let_def)
    then show ?thesis by (rule list_emb_Cons)
  next
    case False
    then have "kept = ord # k" using Cons.prems k by (simp add: Let_def)
    then show ?thesis using Cons.IH [OF k] by simp
  qed
qed simp

lemma exposure_limit_rewriter: "order_rewriter (exposure_limit ex limit note)"
proof -
  have "batch_ok (b'\<lparr>b_Orders := kept\<rparr>)" if "exposure_filter port e limit note mv b (b_Orders b) = (kept, b')" "batch_ok b" for port e mv b kept b'
    using list_emb_set [OF exposure_filter_sub [OF that(1)]] that(2) by (fastforce simp: batch_ok_def list_all_iff)
  then show ?thesis by (auto simp: order_rewriter_def exposure_limit_def Let_def split: if_splits prod.splits)
qed

lemma breaker_rewriter: "order_rewriter (DrawdownCircuitBreaker g it threshold)"
  by (auto simp: order_rewriter_def DrawdownCircuitBreaker_def batch_ok_def list_all_iff Let_def nn_pos
      split: option.splits if_splits)

lemma foldl_batch_ok: "batch_ok b \<Longrightarrow> (\<And>b x. batch_ok b \<Longrightarrow> batch_ok (f b x)) \<Longrightarrow> batch_ok (foldl f b xs)"
  by (induction xs arbitrary: b) auto

lemma close_entry_nn: "nn (o_Qty (close_entry pos))"
  by (cases "pe_qty pos") (auto simp: close_entry_def)

lemma count_rewriter: "order_rewriter (MaxPositionCount it limit)"
  using close_entry_nn
  by (auto simp: order_rewriter_def MaxPositionCount_def Let_def drop_entry_def batch_ok_def
      intro!: foldl_batch_ok [unfolded batch_ok_def] split: if_splits)

lemma size_rewriter: "order_rewriter (MaxPositionSize it limit)"
  by (auto simp: order_rewriter_def MaxPositionSize_def Let_def cap_position_def batch_ok_def
      intro!: foldl_batch_ok [unfolded batch_ok_def])

lemma scaler_rewriter: "order_rewriter (VolatilityScaler fetch it1 it2 lookback)"
proof -
  have "batch_ok (fst (foldl (scale_entry wv tv) (b, s) es))" if "batch_ok b" for wv tv b s es
    using that by (induction es arbitrary: b s) (auto simp: scale_entry_def Let_def batch_ok_def)
  then have "batch_ok b'" if "foldl (scale_entry wv tv) (b, s) es = (b', s')" "batch_ok b" for wv tv b s es b' s'
    using that by (metis fst_conv)
  then show ?thesis
    by (auto simp: order_rewriter_def VolatilityScaler_def Let_def batch_ok_def split: if_splits sum.splits prod.splits)
qed

section \<open>What the exposure limits let through\<close>

text \<open>The market values after a list of orders, as the limits project them.\<close>

definition projected_values :: "account \<Rightarrow> order list \<Rightarrow> f64 \<times> f64 \<Rightarrow> f64 \<times> f64" where
  "projected_values port ords mv = foldl (\<lambda>mv ord. projectExposureChange port ord mv) mv ords"

lemma exposure_filter_kept:
  assumes "exposure_filter port ex limit note mv b ords = (kept, b')"
  shows "0 < n \<Longrightarrow> n \<le> length kept \<Longrightarrow> \<not> ex (projected_values port (take n kept) mv) > limit"
    and "(\<forall>n\<in>{1..length ords}. \<not> ex (projected_values port (take n ords) mv) > limit) \<Longrightarrow> kept = ords"
  using assms
proof (induction ords arbitrary: mv b kept b' n)
  case (Cons ord ords)
  {
    case 1
    define p where "p = projectExposureChange port ord mv"
    show ?case
    proof (cases "ex p > limit")
      case True
      then have "exposure_filter port ex limit note mv (note ord (ex p) b) ords = (kept, b')" using 1(3) by (simp add: Let_def p_def)
      then show ?thesis by (rule Cons.IH(1) [OF 1(1,2)])
    next
      case False
      obtain k b1 where k: "exposure_filter port ex limit note p b ords = (k, b1)" by force
      then have kept: "kept = ord # k" using 1 False by (simp add: Let_def p_def)
      obtain m where n: "n = Suc m" using 1(1) by (cases n) auto
      show ?thesis using Cons.IH(1) [OF _ _ k, of m] False 1(2) kept n
        by (cases m) (auto simp: projected_values_def p_def)
    qed
  next
    case 2
    define p where "p = projectExposureChange port ord mv"
    have "\<not> ex p > limit" using 2(1) [THEN bspec, of 1] by (simp add: projected_values_def p_def)
    moreover obtain k b1 where k: "exposure_filter port ex limit note p b ords = (k, b1)" by force
    moreover have "\<not> ex (projected_values port (take n ords) p) > limit" if "n \<in> {1..length ords}" for n
      using 2(1) [THEN bspec, of "Suc n"] that by (simp add: projected_values_def p_def)
    ultimately show ?case using 2(2) Cons.IH(2) [OF _ k] by (auto simp: Let_def p_def)
  }
qed (auto simp: projected_values_def)

lemma exposure_limit_kept:
  assumes "exposure_limit ex limit note (port, b) = (e, port', b')" "\<not> Equity port \<le> 0"
  defines "mv \<equiv> (LongMarketValue port, ShortMarketValue port)"
  shows "e = None" "port' = port" "subseq (b_Orders b') (b_Orders b)"
    "0 < n \<Longrightarrow> n \<le> length (b_Orders b') \<Longrightarrow> \<not> ex (Equity port) (projected_values port (take n (b_Orders b')) mv) > limit"
    "(\<forall>n\<in>{1..length (b_Orders b)}. \<not> ex (Equity port) (projected_values port (take n (b_Orders b)) mv) > limit) \<Longrightarrow> b_Orders b' = b_Orders b"
proof -
  obtain kept b1 where k: "exposure_filter port (ex (Equity port)) limit note mv b (b_Orders b) = (kept, b1)" by force
  then have "e = None" "port' = port" "b_Orders b' = kept"
    using assms(1,2) by (auto simp: exposure_limit_def Let_def mv_def)
  then show "e = None" "port' = port" "subseq (b_Orders b') (b_Orders b)"
    "0 < n \<Longrightarrow> n \<le> length (b_Orders b') \<Longrightarrow> \<not> ex (Equity port) (projected_values port (take n (b_Orders b')) mv) > limit"
    "(\<forall>n\<in>{1..length (b_Orders b)}. \<not> ex (Equity port) (projected_values port (take n (b_Orders b)) mv) > limit) \<Longrightarrow> b_Orders b' = b_Orders b"
    using exposure_filter_kept [OF k] exposure_filter_sub [OF k] by auto
qed

section \<open>What the circuit breaker leaves\<close>

lemma breaker_fires:
  assumes "current_drawdown g port = Some dd" "fin dd" "\<not> absF dd < threshold" "visits_all it"
    "a_substitutions port = []" "mwf (a_holdings port)" "fin_entries (a_holdings port)" "b_executed b = 0"
  shows "\<exists>b'. DrawdownCircuitBreaker g it threshold (port, b) = (None, port, b')
    \<and> (\<forall>x. mget 0 (ProjectedHoldings port b') x = (if 0 < Position port x then 0 else Position port x))
    \<and> (\<forall>ord\<in>set (b_Orders b'). o_Side ord = Sell \<and> o_Qty ord = Position port (o_Asset ord) \<and> 0 < Position port (o_Asset ord))"
proof -
  define H where "H = it (a_holdings port)"
  have H: "set H = set (a_holdings port)" "mwf H" "map_of H = map_of (a_holdings port)"
    using visits_all_simps [OF assms(4)] assms(6) by (simp_all add: H_def)
  define sells where "sells = map (\<lambda>(ast, qty). market_day_order ast Sell qty 0) (filter (\<lambda>(ast, qty). qty > 0) H)"
  obtain ann where b': "DrawdownCircuitBreaker g it threshold (port, b) = (None, port, batch_Annotate ''risk:drawdown-circuit-breaker'' ann (b\<lparr>b_Orders := sells\<rparr>))"
    using assms(1-3,5) by (auto simp: DrawdownCircuitBreaker_def Holdings_def sells_def H_def Let_def fin_iff_not)
  have pos: "Position port x = q" if "(x, q) \<in> set (a_holdings port)" for x q
    using that assms(6) by (simp add: Position_def mget_def map_of_is_SomeI)
  define b1 where "b1 = b\<lparr>b_Orders := []\<rparr>"
  have e: "b_executed b1 \<le> length (b_Orders b1)" using assms(8) by (simp add: b1_def)
  have h1: "ProjectedHoldings port b1 = a_holdings port"
    using assms(5,8) by (simp add: ProjectedHoldings_def unexecutedOrders_def Holdings_def b1_def)
  have net: "net_shares port (map (\<lambda>(ast, qty). market_day_order ast Sell qty 0) (filter (\<lambda>(ast, qty). qty > 0) m)) x
      = sum_list (map (\<lambda>(k, q). if k = x then (if 0 < q then - q else 0) else 0) m)" for x m
    by (induction m) (auto simp: net_shares_def signed_def order_shares_def feq_def Let_def)
  have at: "net_shares port sells x = (if 0 < Position port x then - Position port x else 0)" for x
    unfolding sells_def net sum_list_at_key [OF H(2), where g = "\<lambda>q. if 0 < q then - q else 0"]
    by (auto simp: H(3) Position_def mget_def split: option.splits)
  have "mget 0 (ProjectedHoldings port (b\<lparr>b_Orders := sells\<rparr>)) x = (if 0 < Position port x then 0 else Position port x)" for x
  proof -
    have "fin (Position port x)" using fin_entries_get [OF assms(7)] by (simp add: Position_def)
    then show ?thesis using ProjectedHoldings_append [OF e assms(5), of sells x] at [of x]
      by (auto simp: h1 fin_iff Position_def) (simp_all add: b1_def)
  qed
  moreover have "\<forall>ord\<in>set sells. o_Side ord = Sell \<and> o_Qty ord = Position port (o_Asset ord) \<and> 0 < Position port (o_Asset ord)"
    using pos by (auto simp: sells_def H(1))
  ultimately show ?thesis using b' by (simp add: ProjectedHoldings_def unexecutedOrders_def)
qed

section \<open>Sorting\<close>

lemma insort_less_mset [simp]: "mset (insort_less lt x xs) = add_mset x (mset xs)"
  by (induction xs) auto

lemma sort_Slice_mset [simp]: "mset (sort_Slice lt xs) = mset xs"
  unfolding sort_Slice_def by (induction xs) auto

lemma sort_Slice_set [simp]: "set (sort_Slice lt xs) = set xs"
  using sort_Slice_mset [of lt xs] by (metis mset_eq_setD)

lemma sort_Slice_length [simp]: "length (sort_Slice lt xs) = length xs"
  using sort_Slice_mset [of lt xs] by (metis mset_eq_length)

lemma sort_Slice_sorted:
  assumes "\<And>x y. x \<in> set xs \<Longrightarrow> y \<in> set xs \<Longrightarrow> lt x y \<longleftrightarrow> key x < (key y :: real)"
  shows "sorted_wrt (\<lambda>x y. key x \<le> key y) (sort_Slice lt xs)"
  using assms
proof (induction xs)
  case (Cons x xs)
  have ins: "sorted_wrt (\<lambda>x y. key x \<le> key y) (insort_less lt x ys)"
    if "sorted_wrt (\<lambda>x y. key x \<le> key y) ys" "\<forall>y\<in>set ys. lt y x \<longleftrightarrow> key y < key x" for ys
    using that
  proof (induction ys)
    case (Cons y ys)
    have "set (insort_less lt x ys) = insert x (set ys)" by (metis insort_less_mset set_mset_add_mset_insert set_mset_mset)
    then show ?case using Cons by fastforce
  qed simp
  have "\<forall>y\<in>set (sort_Slice lt xs). lt y x \<longleftrightarrow> key y < key x" using Cons.prems by simp
  then show ?case using ins [of "sort_Slice lt xs"] Cons by (simp add: sort_Slice_def)
qed (simp add: sort_Slice_def)

section \<open>What the position count leaves\<close>

lemma drop_entries_orders:
  "b_Orders (foldl (drop_entry limit) b ps) = b_Orders b @ map close_entry ps
   \<and> b_executed (foldl (drop_entry limit) b ps) = b_executed b \<and> b_Timestamp (foldl (drop_entry limit) b ps) = b_Timestamp b"
  by (induction ps arbitrary: b) (auto simp: drop_entry_def)

lemma mdel_mput: "mdel k (mput k v m) = mdel k m"
  by (induction m) auto

lemma close_entry_project:
  assumes "a_substitutions port = []" "mget 0 m (pe_asset p) = pe_qty p" "fin (pe_qty p)"
  shows "project_order port ts m (close_entry p) = mdel (pe_asset p) m"
proof -
  obtain r where r: "pe_qty p = Fin r" using assms(3) by (auto simp: fin_iff)
  show ?thesis
    using assms(1,2) r
    by (auto simp: project_order_def close_entry_def Let_def ActiveSubstitutions_def order_shares_def mdel_mput)
qed

lemma close_entries_project:
  assumes "a_substitutions port = []" "distinct (map pe_asset ps)" "\<forall>p\<in>set ps. mget 0 m (pe_asset p) = pe_qty p \<and> fin (pe_qty p)"
  shows "foldl (project_order port ts) m (map close_entry ps) = filter (\<lambda>(k, _). k \<notin> pe_asset ` set ps) m"
  using assms(2,3)
proof (induction ps arbitrary: m)
  case (Cons p ps)
  have "project_order port ts m (close_entry p) = mdel (pe_asset p) m"
    by (rule close_entry_project [OF assms(1)]) (use Cons.prems in auto)
  moreover have "foldl (project_order port ts) (mdel (pe_asset p) m) (map close_entry ps)
      = filter (\<lambda>(k, _). k \<notin> pe_asset ` set ps) (mdel (pe_asset p) m)"
  proof (rule Cons.IH)
    have "pe_asset p \<notin> pe_asset ` set ps" using Cons.prems(1) by simp
    then have "\<forall>q\<in>set ps. pe_asset q \<noteq> pe_asset p" by (metis imageI)
    then show "\<forall>q\<in>set ps. mget 0 (mdel (pe_asset p) m) (pe_asset q) = pe_qty q \<and> fin (pe_qty q)" using Cons.prems(2) by simp
  qed (use Cons.prems in auto)
  moreover have "filter (\<lambda>(k, _). k \<notin> pe_asset ` set ps) (mdel (pe_asset p) m) = filter (\<lambda>(k, _). k \<notin> pe_asset ` set (p # ps)) m"
    by (auto simp: AList.delete_eq filter_filter intro!: filter_cong)
  ultimately show ?case by simp
qed simp

lemma length_map_filter: "length (List.map_filter f xs) = length (filter (\<lambda>x. f x \<noteq> None) xs)"
  by (simp add: List.map_filter_def)

definition has_price :: "account \<Rightarrow> asset \<Rightarrow> bool" where
  "has_price port ast \<longleftrightarrow> batch_priceOf port ast > 0"

lemma ProjectedWeights_keys:
  "\<not> feq (ProjectedValue port b) 0 \<Longrightarrow>
   map fst (ProjectedWeights port b) = map fst (filter (\<lambda>(k, _). has_price port k) (ProjectedHoldings port b))"
  unfolding ProjectedWeights_def has_price_def Let_def List.map_filter_def
  by (induction "ProjectedHoldings port b") (auto simp: Let_def comp_def intro!: map_cong filter_cong split: prod.splits)

lemma ProjectedWeights_length:
  "length (ProjectedWeights port b) \<le> length (filter (\<lambda>(k, _). has_price port k) (ProjectedHoldings port b))"
proof (cases "feq (ProjectedValue port b) 0")
  case False
  from ProjectedWeights_keys [OF this] show ?thesis by (metis length_map order_refl)
qed (simp add: ProjectedWeights_def)

lemma ProjectedHoldings_close:
  assumes "projectable port b" "distinct (map pe_asset ps)" "\<forall>p\<in>set ps. mget 0 (ProjectedHoldings port b) (pe_asset p) = pe_qty p \<and> fin (pe_qty p)"
  shows "ProjectedHoldings port (foldl (drop_entry limit) b ps) = filter (\<lambda>(k, _). k \<notin> pe_asset ` set ps) (ProjectedHoldings port b)"
proof -
  have "unexecutedOrders (foldl (drop_entry limit) b ps) = unexecutedOrders b @ map close_entry ps"
    using assms(1) drop_entries_orders [of limit b ps] by (simp add: unexecutedOrders_def projectable_def)
  then show ?thesis
    using close_entries_project [OF _ assms(2,3)] assms(1) drop_entries_orders [of limit b ps]
    by (simp add: ProjectedHoldings_def projectable_def)
qed

lemma MaxPositionCount_drops:
  assumes pj: "projectable port b" and it: "visits_all it" and lim: "0 \<le> limit" "limit < int (length (ProjectedWeights port b))"
  defines "value_at \<equiv> \<lambda>k. \<bar>fval (mget 0 (ProjectedWeights port b) k * ProjectedValue port b)\<bar>"
    and "H \<equiv> ProjectedHoldings port b"
  shows "\<exists>b' D. MaxPositionCount it limit (port, b) = (None, port, b') \<and> D \<subseteq> set (mkeys (ProjectedWeights port b))
    \<and> int (card D) = int (length (ProjectedWeights port b)) - limit
    \<and> ProjectedHoldings port b' = filter (\<lambda>(k, _). k \<notin> D) H
    \<and> int (length (ProjectedWeights port b')) \<le> limit
    \<and> (\<forall>d\<in>D. \<forall>k\<in>set (mkeys (ProjectedWeights port b)) - D. value_at d \<le> value_at k)"
proof -
  define W where "W = ProjectedWeights port b"
  define V where "V = ProjectedValue port b"
  have W0: "W \<noteq> []" using lim by (auto simp: W_def)
  then have V0: "\<not> feq V 0" by (auto simp: W_def V_def ProjectedWeights_def)
  have H: "mwf H" "fin_entries H" using ProjectedHoldings_wf [OF pj] by (simp_all add: H_def)
  have keys: "map fst W = map fst (filter (\<lambda>(k, _). has_price port k) H)" using ProjectedWeights_keys V0 by (simp add: W_def V_def H_def)
  have dW: "distinct (map fst W)" unfolding keys using H(1) by (simp add: distinct_map_filter)
  have Vf: "fin V" using ProjectedValue_fin [OF pj] by (simp add: V_def)
  have Wfin: "\<forall>e\<in>set W. fin (snd e)"
  proof
    fix e
    assume "e \<in> set W"
    then obtain k q where "(k, q) \<in> set H" "snd e = (q * batch_priceOf port k) / V"
      using V0 by (auto simp: W_def ProjectedWeights_def Let_def V_def H_def List.map_filter_def split: if_splits)
    moreover have "fin q" using H(2) calculation(1) by (auto simp: list_all_iff)
    moreover have "fin (batch_priceOf port k)" using pj by (simp add: projectable_def)
    ultimately show "fin (snd e)" using Vf V0 by (simp add: fin_feq)
  qed
  define E where "E = position_entries it port b"
  define S where "S = sort_Slice (\<lambda>x y. pe_value x < pe_value y) E"
  define n where "n = nat (int (length S) - limit)"
  define ps where "ps = take n S"
  have E: "map pe_asset E = map fst (it W)" by (simp add: E_def position_entries_def Let_def W_def comp_def case_prod_beta)
  have lenS: "length S = length W"
    using it arg_cong [OF E, where f = length] by (simp add: S_def visits_all_def) (metis mset_eq_length)
  have n: "n \<le> length S" "int n = int (length W) - limit" using lim lenS by (auto simp: n_def W_def)
  have "distinct (map pe_asset E)" unfolding E using dW visits_all_simps(2) [OF it] by blast
  then have dS: "distinct (map pe_asset S)" using sort_Slice_mset [of _ E] unfolding S_def by (metis mset_eq_imp_distinct_iff mset_map)
  have setS: "pe_asset ` set S = set (map fst W)" using arg_cong [OF E, where f = set] visits_all_simps(1) [OF it] by (simp add: S_def)
  have ent: "pe_qty p = mget 0 H (pe_asset p) \<and> fin (pe_qty p) \<and> pe_value p = absF (mget 0 W (pe_asset p) * V) \<and> fin (pe_value p)" if pS: "p \<in> set S" for p
  proof -
    obtain k w where kw: "(k, w) \<in> set W" "p = \<lparr>pe_asset = k, pe_value = absF (w * V), pe_qty = mget 0 H k\<rparr>"
      using pS visits_all_simps(1) [OF it] by (auto simp: S_def E_def position_entries_def Let_def W_def V_def H_def)
    have "mget 0 W k = w" using kw(1) dW by (simp add: mget_def)
    moreover have "fin w" using Wfin kw(1) by force
    ultimately show ?thesis using kw(2) fin_entries_get [OF H(2)] Vf by simp
  qed
  have mw: "MaxPositionCount it limit (port, b) = (None, port, foldl (drop_entry limit) b ps)"
    using lim(2) by (simp add: MaxPositionCount_def Let_def ps_def n_def S_def E_def)
  define D where "D = pe_asset ` set ps"
  have psS: "set ps \<subseteq> set S" by (simp add: ps_def set_take_subset)
  have dps: "distinct (map pe_asset ps)" using dS by (simp add: ps_def take_map [symmetric])
  have cD: "card D = n" using dps n(1) distinct_card [OF dps] by (simp add: D_def ps_def)
  have hold: "ProjectedHoldings port (foldl (drop_entry limit) b ps) = filter (\<lambda>(k, _). k \<notin> D) H"
    unfolding D_def H_def by (rule ProjectedHoldings_close [OF pj dps]) (use ent psS H_def in auto)
  have sub: "D \<subseteq> set (map fst W)" using psS setS by (auto simp: D_def)
  have "length (filter (\<lambda>(k, _). has_price port k) (filter (\<lambda>(k, _). k \<notin> D) H)) = card (set (map fst W) - D)"
  proof -
    let ?F = "filter (\<lambda>(k, _). has_price port k) (filter (\<lambda>(k, _). k \<notin> D) H)"
    have "distinct (map fst ?F)" using H(1) by (simp add: distinct_map_filter)
    then have "length ?F = card (set (map fst ?F))" using distinct_card by (metis length_map)
    moreover have "set (map fst ?F) = set (map fst W) - D" unfolding keys by auto
    ultimately show ?thesis by simp
  qed
  also have "\<dots> = length W - n" using card_Diff_subset [OF finite_subset [OF sub] sub] cD distinct_card [OF dW] by simp
  finally have cnt: "int (length (ProjectedWeights port (foldl (drop_entry limit) b ps))) \<le> limit"
    using ProjectedWeights_length [of port "foldl (drop_entry limit) b ps"] n lenS unfolding hold by linarith
  have "fin (pe_value p)" if "p \<in> set E" for p using ent that by (metis S_def sort_Slice_set)
  then have srt: "sorted_wrt (\<lambda>x y. fval (pe_value x) \<le> fval (pe_value y)) S"
    unfolding S_def by (intro sort_Slice_sorted fin_less)
  have "value_at d \<le> value_at k" if dk: "d \<in> D" "k \<in> set (map fst W) - D" for d k
  proof -
    obtain p where p: "p \<in> set ps" "pe_asset p = d" using \<open>d \<in> D\<close> by (auto simp: D_def)
    obtain q where q: "q \<in> set S" "pe_asset q = k" using dk(2) setS by (metis DiffD1 imageE)
    have "q \<notin> set ps" using dk(2) q(2) by (auto simp: D_def)
    then have "q \<in> set (drop n S)" using q(1) append_take_drop_id [of n S] by (metis Un_iff ps_def set_append)
    moreover have "sorted_wrt (\<lambda>x y. fval (pe_value x) \<le> fval (pe_value y)) (take n S @ drop n S)" using srt by simp
    ultimately have "fval (pe_value p) \<le> fval (pe_value q)" using p(1) unfolding sorted_wrt_append ps_def by blast
    moreover have "fval (pe_value r) = value_at (pe_asset r)" if "r \<in> set S" for r
      using ent [OF that] by (cases "mget 0 W (pe_asset r) * V") (auto simp: value_at_def W_def V_def)
    ultimately show ?thesis using p q psS by auto
  qed
  then show ?thesis using mw hold cnt sub cD n(2) by (intro exI [of _ "foldl (drop_entry limit) b ps"] exI [of _ D]) (simp add: W_def)
qed

section \<open>What the position size leaves\<close>

text \<open>On a book of long positions, capping is the trimming step of a rebalance to the limit.\<close>

lemma cap_positions_orders:
  assumes "\<forall>(k, w)\<in>set ws. fin w \<and> 0 \<le> fval w \<and> w * V = projectedPositionValue port b k" "fin V" "fin limit" "0 \<le> fval limit"
    "0 < fval V"
  shows "\<exists>ann. foldl (cap_position limit V) b1 ws
      = b1\<lparr>b_Orders := b_Orders b1 @ trim_orders port b [] V (map (\<lambda>(k, _). (k, limit)) ws), b_Annotations := ann\<rparr>"
  using assms(1)
proof (induction ws arbitrary: b1)
  case Nil
  show ?case by (intro exI [of _ "b_Annotations b1"]) (simp add: trim_orders_def List.map_filter_def)
next
  case (Cons e ws)
  obtain k w where e: "e = (k, w)" by force
  obtain r l v where r: "w = Fin r" "limit = Fin l" "V = Fin v" "0 \<le> r" "0 < v" "0 \<le> l"
    using Cons.prems assms(2-5) e by (auto simp: fin_iff)
  have pv: "projectedPositionValue port b k = Fin (r * v)" using Cons.prems e r by auto
  have diff: "limit * V - projectedPositionValue port b k = Fin ((l - r) * v)" using r pv by (simp add: algebra_simps)
  have ord: "rebalance_order [] k Sell (Fin 0) (Fin (- ((l - r) * v))) = market_day_order k Sell (Fin 0) (Fin ((r - l) * v))"
    by (simp add: market_day_order_def rebalance_order_def order_zero_def algebra_simps)
  have s: "(l - r) * v < 0 \<longleftrightarrow> l < r" using r(5) by (simp add: mult_less_0_iff)
  have one: "\<exists>ann. cap_position limit V b1 (k, w) = b1\<lparr>b_Orders := b_Orders b1 @ trim_orders port b [] V [(k, limit)], b_Annotations := ann\<rparr>"
  proof (cases "r \<le> l")
    case True
    then have "trim_orders port b [] V [(k, limit)] = []" using s by (simp add: trim_orders_def diff List.map_filter_def Let_def)
    then show ?thesis using True r by (intro exI [of _ "b_Annotations b1"]) (simp add: cap_position_def Let_def)
  next
    case False
    then have "trim_orders port b [] V [(k, limit)] = [market_day_order k Sell (Fin 0) (Fin ((r - l) * v))]"
      using s by (simp add: trim_orders_def diff List.map_filter_def Let_def ord)
    then show ?thesis using False r by (simp add: cap_position_def Let_def batch_Annotate_def) (rule exI, rule refl)
  qed
  then obtain ann where a: "cap_position limit V b1 (k, w) = b1\<lparr>b_Orders := b_Orders b1 @ trim_orders port b [] V [(k, limit)], b_Annotations := ann\<rparr>" ..
  have tr: "trim_orders port b [] V ((k, limit) # map (\<lambda>(k, _). (k, limit)) ws)
      = trim_orders port b [] V [(k, limit)] @ trim_orders port b [] V (map (\<lambda>(k, _). (k, limit)) ws)"
    by (simp add: trim_orders_def List.map_filter_def Let_def)
  show ?case using Cons.IH [of "cap_position limit V b1 (k, w)"] Cons.prems by (auto simp: e tr a)
qed

lemma projected_annotations [simp]:
  "ProjectedHoldings port (b\<lparr>b_Annotations := x\<rparr>) = ProjectedHoldings port b"
  "ProjectedValue port (b\<lparr>b_Annotations := x\<rparr>) = ProjectedValue port b"
proof -
  have u: "unexecutedOrders (b\<lparr>b_Annotations := x\<rparr>) = unexecutedOrders b" by (simp add: unexecutedOrders_def)
  show h: "ProjectedHoldings port (b\<lparr>b_Annotations := x\<rparr>) = ProjectedHoldings port b"
    by (simp add: ProjectedHoldings_def u)
  have "pendingDollarFlow (b\<lparr>b_Annotations := x\<rparr>) = pendingDollarFlow b" by (simp add: pendingDollarFlow_def u fun_eq_iff)
  then have "pending_unpriced_loop port (b\<lparr>b_Annotations := x\<rparr>) seen tot ords = pending_unpriced_loop port b seen tot ords" for seen tot ords
    by (induction port b seen tot ords rule: pending_unpriced_loop.induct) (simp_all add: Let_def)
  then show "ProjectedValue port (b\<lparr>b_Annotations := x\<rparr>) = ProjectedValue port b"
    by (simp add: ProjectedValue_def h projectedCash_def pendingUnpricedValue_def u)
qed

lemma trim_effect:
  fixes h h' l v p :: real
  assumes "0 < p" "h' = h + (if l * v - h * p < 0 then - of_int \<lfloor>- (l * v - h * p) / p\<rfloor> else 0)"
  shows "h' * p \<le> l * v + p" "h' \<le> h"
proof -
  define n where "n = real_of_int \<lfloor>- (l * v - h * p) / p\<rfloor>"
  have "- (l * v - h * p) / p \<le> n + 1" unfolding n_def by linarith
  then have n: "h * p - l * v \<le> n * p + p" using assms(1) by (simp add: field_simps)
  show "h' * p \<le> l * v + p" using assms n by (auto simp: n_def algebra_simps)
  have "0 \<le> n" if "l * v - h * p < 0" unfolding n_def using that assms(1) by (simp add: divide_nonneg_pos)
  then show "h' \<le> h" using assms(2) by (auto simp: n_def)
qed

lemma MaxPositionSize_caps:
  assumes pj: "projectable port b" and it: "visits_all it" and lim: "fin limit" "0 \<le> fval limit"
    and V: "0 < fval (ProjectedValue port b)" and long: "\<forall>(k, w)\<in>set (ProjectedWeights port b). 0 \<le> fval w"
  shows "\<exists>b'. MaxPositionSize it limit (port, b) = (None, port, b') \<and> fval (ProjectedValue port b) \<le> fval (ProjectedValue port b')
    \<and> (\<forall>x. has_price port x \<longrightarrow> fval (mget 0 (ProjectedHoldings port b') x) * fval (batch_priceOf port x)
          \<le> fval limit * fval (ProjectedValue port b') + fval (batch_priceOf port x)
        \<and> fval (mget 0 (ProjectedHoldings port b') x) \<le> fval (mget 0 (ProjectedHoldings port b) x))"
proof -
  let ?V = "ProjectedValue port b" and ?W = "ProjectedWeights port b" and ?H = "ProjectedHoldings port b"
  have Vf: "fin ?V" using ProjectedValue_fin [OF pj] .
  have V0: "\<not> feq ?V 0" using V Vf by (simp add: fin_feq)
  have H: "mwf ?H" "fin_entries ?H" using ProjectedHoldings_wf [OF pj] by simp_all
  have keys: "map fst ?W = map fst (filter (\<lambda>(k, _). has_price port k) ?H)" using ProjectedWeights_keys [OF V0] .
  have dW: "mwf ?W" unfolding keys using H(1) by (simp add: distinct_map_filter)
  have w: "fin w \<and> 0 \<le> fval w \<and> w * ?V = projectedPositionValue port b k" if kw: "(k, w) \<in> set ?W" for k w
  proof -
    obtain q where q: "(k, q) \<in> set ?H" "w = (q * batch_priceOf port k) / ?V" "batch_priceOf port k > 0"
      using V0 kw by (auto simp: ProjectedWeights_def Let_def List.map_filter_def split: if_splits)
    have m: "mget 0 ?H k = q" using q(1) H(1) by (simp add: mget_def)
    have f: "fin q" "fin (batch_priceOf port k)" using H(2) q(1) pj by (auto simp: list_all_iff projectable_def)
    have "w * ?V = q * batch_priceOf port k" using f Vf V q(2) by (auto simp: fin_iff)
    moreover have "projectedPositionValue port b k = q * batch_priceOf port k" using q(3) m by (cases "batch_priceOf port k") (auto simp: projectedPositionValue_def Let_def)
    moreover have "fin w" using f Vf V q(2) by simp
    ultimately show ?thesis using long kw by auto
  qed
  define ws where "ws = it ?W"
  have ws: "set ws = set ?W" "mwf ws" "map_of ws = map_of ?W" using visits_all_simps [OF it] dW by (simp_all add: ws_def)
  define ms where "ms = map (\<lambda>(k, _ :: f64). (k, limit)) ws"
  define tr where "tr = trim_orders port b [] ?V ms"
  have "\<forall>(k, w)\<in>set ws. fin w \<and> 0 \<le> fval w \<and> w * ?V = projectedPositionValue port b k" using w ws(1) by auto
  from cap_positions_orders [OF this Vf lim V, of b] obtain ann where ann:
    "foldl (cap_position limit ?V) b ws = b\<lparr>b_Orders := b_Orders b @ tr, b_Annotations := ann\<rparr>" by (auto simp: tr_def ms_def)
  define b1 where "b1 = b\<lparr>b_Orders := b_Orders b @ tr\<rparr>"
  have mw: "MaxPositionSize it limit (port, b) = (None, port, b1\<lparr>b_Annotations := ann\<rparr>)"
    using ann by (simp add: MaxPositionSize_def ws_def b1_def)
  have "\<forall>e\<in>set ms. fin (snd e)" using lim by (auto simp: ms_def)
  note t = trim_drift_nonneg [OF pj Vf this, of "[]", folded tr_def]
  have "fin (sum_list (map (value_drift port) tr)) \<and> 0 \<le> fval (sum_list (map (value_drift port) tr))"
    using t(2) by (intro f64_sum_nonneg) auto
  then have V': "fval ?V \<le> fval (ProjectedValue port b1)"
    unfolding b1_def ProjectedValue_append [OF pj t(1)] using Vf by simp
  have main: "fval (mget 0 (ProjectedHoldings port b1) x) * fval (batch_priceOf port x)
        \<le> fval limit * fval (ProjectedValue port b1) + fval (batch_priceOf port x)
      \<and> fval (mget 0 (ProjectedHoldings port b1) x) \<le> fval (mget 0 ?H x)" if x: "has_price port x" for x
  proof -
    obtain p l h v where r: "batch_priceOf port x = Fin p" "0 < p" "limit = Fin l" "mget 0 ?H x = Fin h" "?V = Fin v"
    proof -
      have "fin (batch_priceOf port x)" using pj by (simp add: projectable_def)
      then obtain p where "batch_priceOf port x = Fin p" by (auto simp: fin_iff)
      then show thesis using that x lim(1) Vf fin_entries_get [OF H(2), of x] by (auto simp: has_price_def fin_iff)
    qed
    have d: "limit * ?V - projectedPositionValue port b x = Fin (l * v - h * p)"
      using r by (simp add: projectedPositionValue_def Let_def)
    have mm: "map_of ms x = (if x \<in> fst ` set ws then Some limit else None)"
      unfolding ms_def by (induction ws) auto
    have "mwf ms" using ws(2) by (simp add: ms_def comp_def case_prod_beta)
    from net_trim [OF this r(1,2), of ?V b "\<lambda>_. l * v - h * p" "[]"] d mm
    have net: "net_shares port tr x = (if x \<in> fst ` set ws then Fin (if l * v - h * p < 0 then - of_int \<lfloor>- (l * v - h * p) / p\<rfloor> else 0) else 0)"
      by (auto simp: tr_def split: if_splits)
    have none: "h = 0" if "x \<notin> fst ` set ws"
    proof -
      have "x \<notin> set (map fst ?W)" using that ws(1) by simp
      then have "x \<notin> set (map fst ?H)" using x unfolding keys by auto
      then show ?thesis using r(4) mget_not_has [of ?H x 0] by (simp add: mhas_iff_key)
    qed
    define h' where "h' = h + (if l * v - h * p < 0 then - of_int \<lfloor>- (l * v - h * p) / p\<rfloor> else 0)"
    have lv: "0 \<le> l * v" using lim V r by auto
    have hh: "mget 0 (ProjectedHoldings port b1) x = Fin h'"
      using ProjectedHoldings_append [of b port tr x] pj net none r(4) lv r(2)
      by (auto simp: b1_def projectable_def h'_def)
    have "l * v \<le> l * fval (ProjectedValue port b1)" using V' r lim by (auto intro!: mult_left_mono)
    then show ?thesis using trim_effect [OF r(2) h'_def] hh r by simp
  qed
  show ?thesis using mw main V' by (intro exI [of _ "b1\<lparr>b_Annotations := ann\<rparr>"]) simp
qed

end
