(* ===== verification/TaxMiddleware.thy ===== *)
theory TaxMiddleware
  imports RiskMiddleware
begin

text \<open>
  Tax-loss harvesting (engine/middleware/tax), the configuration of the risk and tax middleware
  and the chain the engine builds from it (engine/middleware/risk/config.go and profiles.go,
  engine/middleware\_config.go). Shows which positions are harvested and that every configured
  chain keeps to the middleware interface.
\<close>

section \<open>The harvester\<close>

record HarvesterConfig =
  hc_LossThreshold :: f64
  hc_GainOffsetOnly :: bool
  hc_Substitutes :: "(asset, asset) gomap"

definition harvest_price :: "account \<Rightarrow> asset \<Rightarrow> f64" where
  "harvest_price port ast =
     (let qty = Position port ast in
      if qty > 0 then PositionValue port ast / qty
      else case a_prices port of None \<Rightarrow> 0
        | Some prices \<Rightarrow> let v = df_Value prices ast MetricClose in if isNaN v then 0 else v)"

text \<open>The last order becomes a dollar order.\<close>

definition set_last_amount :: "f64 \<Rightarrow> batch \<Rightarrow> batch" where
  "set_last_amount dollars b =
     b\<lparr>b_Orders := butlast (b_Orders b) @ [(last (b_Orders b))\<lparr>o_Amount := dollars, o_Qty := 0\<rparr>]\<rparr>"

definition swap_back :: "account \<Rightarrow> batch \<Rightarrow> substitution \<Rightarrow> batch" where
  "swap_back port b sub =
     (let subQty = Position port (sub_Substitute sub);
          subPrice = harvest_price port (sub_Substitute sub);
          just = ''tax-loss harvest swap-back: sell '' @ Ticker (sub_Substitute sub) @ '', buy '' @ Ticker (sub_Original sub)
            @ '' (wash sale window expired)''
      in if \<not> sub_Until sub < b_Timestamp b then b
         else if subQty \<le> 0 then b
         else if subPrice \<le> 0 then b
         else set_last_amount (subQty * subPrice)
                (batch_Order (sub_Original sub) Buy 0 [justificationModifier just]
                  (batch_Order (sub_Substitute sub) Sell subQty [lotSelectionModifier LotHighestCost, justificationModifier just] b)))"

definition basis_total :: "taxlot list \<Rightarrow> f64" where
  "basis_total lots = foldl (\<lambda>c lot. c + lot_Price lot * lot_Qty lot) 0 lots"

definition held_qty :: "taxlot list \<Rightarrow> f64" where
  "held_qty lots = foldl (\<lambda>q lot. q + lot_Qty lot) 0 lots"

definition loss_pct :: "account \<Rightarrow> asset \<Rightarrow> f64" where
  "loss_pct port held =
     (let lots = UnrealizedLots port held in
      - (held_qty lots * harvest_price port held - basis_total lots) / basis_total lots)"

definition harvestable :: "HarvesterConfig \<Rightarrow> account \<Rightarrow> asset \<Rightarrow> bool" where
  "harvestable cfg port held \<longleftrightarrow>
     (let lots = UnrealizedLots port held; price = harvest_price port held in
      lots \<noteq> [] \<and> \<not> price \<le> 0
      \<and> \<not> held_qty lots * price - basis_total lots \<ge> 0
      \<and> \<not> loss_pct port held < hc_LossThreshold cfg
      \<and> \<not> (WashSaleWindow port held \<noteq> [] \<and> \<not> mhas (hc_Substitutes cfg) held))"

definition harvest_one :: "HarvesterConfig \<Rightarrow> account \<times> batch \<Rightarrow> asset \<Rightarrow> account \<times> batch" where
  "harvest_one cfg = (\<lambda>(port, b) held.
     if \<not> harvestable cfg port held then (port, b)
     else
       let qty = held_qty (UnrealizedLots port held);
           just = ''tax-loss harvest: '' @ Ticker held @ '' down '' @ show_pct (loss_pct port held)
             @ '' (threshold '' @ show_pct (hc_LossThreshold cfg) @ '')'';
           b1 = batch_Order held Sell qty [lotSelectionModifier LotHighestCost, justificationModifier just] b
       in case map_of (hc_Substitutes cfg) held of
            None \<Rightarrow> (port, b1)
          | Some substitute \<Rightarrow>
              let b2 = batch_Order substitute Buy 0
                    [justificationModifier (''tax-loss harvest substitute: buy '' @ Ticker substitute @ '' to replace '' @ Ticker held)] b1
              in (RegisterSubstitution held substitute (time_addDate (b_Timestamp b) 0 0 washSaleWindowDays) port,
                  set_last_amount (qty * harvest_price port held) b2))"

type_synonym sub_order = "(asset \<times> substitution) list \<Rightarrow> (asset \<times> substitution) list"

definition TaxLossHarvester :: "range_order \<Rightarrow> sub_order \<Rightarrow> HarvesterConfig \<Rightarrow> middleware" where
  "TaxLossHarvester it itS cfg = (\<lambda>(port, b).
     if hc_GainOffsetOnly cfg \<and> (case RealizedGainsYTD port of (ltcg, stcg) \<Rightarrow> ltcg + stcg \<le> 0) then (None, port, b)
     else
       let b1 = foldl (\<lambda>b (_, sub). swap_back port b sub) b (itS (ActiveSubstitutions port));
           heldAssets = map fst (filter (\<lambda>(ast, qty). qty > 0) (it (Holdings port)))
       in case foldl (harvest_one cfg) (port, b1) heldAssets of (port', b') \<Rightarrow> (None, port', b'))"

section \<open>Configuration\<close>

record RiskConfig =
  rc_Profile :: string
  rc_MaxPositionSize :: "f64 option"
  rc_MaxPositionCount :: "int option"
  rc_DrawdownCircuitBreaker :: "f64 option"
  rc_VolatilityScalerLookback :: "int option"
  rc_GrossExposureLimit :: "f64 option"
  rc_NetExposureLimit :: "f64 option"

definition validProfiles :: "string list" where
  "validProfiles = [[], ''conservative'', ''moderate'', ''aggressive'', ''none'']"

definition outside_unit :: "f64 option \<Rightarrow> bool" where
  "outside_unit v = (case v of None \<Rightarrow> False | Some x \<Rightarrow> x < 0 \<or> x > 1)"

definition RiskConfig_Validate :: "RiskConfig \<Rightarrow> goerr option" where
  "RiskConfig_Validate rc =
     (if rc_Profile rc \<notin> set validProfiles then Some (Err ''unknown profile'')
      else if outside_unit (rc_MaxPositionSize rc) then Some (Err ''max_position_size must be between 0 and 1.0'')
      else if (case rc_MaxPositionCount rc of None \<Rightarrow> False | Some n \<Rightarrow> n < 0) then Some (Err ''max_position_count must be >= 0'')
      else if outside_unit (rc_DrawdownCircuitBreaker rc) then Some (Err ''drawdown_circuit_breaker must be between 0 and 1.0'')
      else if (case rc_VolatilityScalerLookback rc of None \<Rightarrow> False | Some n \<Rightarrow> n < 1)
      then Some (Err ''volatility_scaler_lookback must be >= 1'')
      else if (case rc_GrossExposureLimit rc of None \<Rightarrow> False | Some x \<Rightarrow> x < 0) then Some (Err ''gross_exposure_limit must be >= 0'')
      else if (case rc_NetExposureLimit rc of None \<Rightarrow> False | Some x \<Rightarrow> x < 0) then Some (Err ''net_exposure_limit must be >= 0'')
      else None)"

definition plain_profile :: "string \<Rightarrow> RiskConfig" where
  "plain_profile name = \<lparr>rc_Profile = name, rc_MaxPositionSize = None, rc_MaxPositionCount = None,
     rc_DrawdownCircuitBreaker = None, rc_VolatilityScalerLookback = None, rc_GrossExposureLimit = None, rc_NetExposureLimit = None\<rparr>"

definition ProfileBaseline :: "string \<Rightarrow> RiskConfig" where
  "ProfileBaseline name =
     (if name = ''conservative''
      then (plain_profile name)\<lparr>rc_MaxPositionSize := Some (Fin (20 / 100)), rc_DrawdownCircuitBreaker := Some (Fin (10 / 100)),
             rc_VolatilityScalerLookback := Some 60\<rparr>
      else if name = ''moderate''
      then (plain_profile name)\<lparr>rc_MaxPositionSize := Some (Fin (25 / 100)), rc_DrawdownCircuitBreaker := Some (Fin (15 / 100))\<rparr>
      else if name = ''aggressive''
      then (plain_profile name)\<lparr>rc_MaxPositionSize := Some (Fin (35 / 100)), rc_DrawdownCircuitBreaker := Some (Fin (25 / 100))\<rparr>
      else plain_profile name)"

definition overriding :: "'a option \<Rightarrow> 'a option \<Rightarrow> 'a option" where
  "overriding baseline override = (case override of None \<Rightarrow> baseline | Some x \<Rightarrow> Some x)"

definition RiskConfig_Resolve :: "RiskConfig \<Rightarrow> RiskConfig" where
  "RiskConfig_Resolve rc =
     (let base = ProfileBaseline (rc_Profile rc) in
      \<lparr>rc_Profile = rc_Profile base,
       rc_MaxPositionSize = overriding (rc_MaxPositionSize base) (rc_MaxPositionSize rc),
       rc_MaxPositionCount = overriding (rc_MaxPositionCount base) (rc_MaxPositionCount rc),
       rc_DrawdownCircuitBreaker = overriding (rc_DrawdownCircuitBreaker base) (rc_DrawdownCircuitBreaker rc),
       rc_VolatilityScalerLookback = overriding (rc_VolatilityScalerLookback base) (rc_VolatilityScalerLookback rc),
       rc_GrossExposureLimit = overriding (rc_GrossExposureLimit base) (rc_GrossExposureLimit rc),
       rc_NetExposureLimit = overriding (rc_NetExposureLimit base) (rc_NetExposureLimit rc)\<rparr>)"

record TaxConfig =
  tc_Enabled :: bool
  tc_LossThreshold :: f64
  tc_GainOffsetOnly :: bool
  tc_Substitutes :: "(string, string) gomap"

definition DefaultLossThreshold :: f64 where "DefaultLossThreshold = Fin (5 / 100)"

definition TaxConfig_ApplyDefaults :: "TaxConfig \<Rightarrow> TaxConfig" where
  "TaxConfig_ApplyDefaults tc =
     (if tc_Enabled tc \<and> feq (tc_LossThreshold tc) 0 then tc\<lparr>tc_LossThreshold := DefaultLossThreshold\<rparr> else tc)"

record MiddlewareConfig =
  mc_Risk :: RiskConfig
  mc_Tax :: TaxConfig

definition ValidateAndApplyDefaults :: "MiddlewareConfig \<Rightarrow> goerr + MiddlewareConfig" where
  "ValidateAndApplyDefaults cfg =
     (case RiskConfig_Validate (mc_Risk cfg) of Some e \<Rightarrow> Inl (Wrap ''risk config'' e)
      | None \<Rightarrow> Inr (cfg\<lparr>mc_Tax := TaxConfig_ApplyDefaults (mc_Tax cfg)\<rparr>))"

definition HasMiddleware :: "MiddlewareConfig \<Rightarrow> bool" where
  "HasMiddleware cfg \<longleftrightarrow>
     (let rc = mc_Risk cfg in
      tc_Enabled (mc_Tax cfg) \<or> (rc_Profile rc \<noteq> [] \<and> rc_Profile rc \<noteq> ''none'')
      \<or> rc_MaxPositionSize rc \<noteq> None \<or> rc_MaxPositionCount rc \<noteq> None \<or> rc_DrawdownCircuitBreaker rc \<noteq> None
      \<or> rc_VolatilityScalerLookback rc \<noteq> None \<or> rc_GrossExposureLimit rc \<noteq> None \<or> rc_NetExposureLimit rc \<noteq> None)"

text \<open>
  What the chain is built over: the libraries and data the middleware reach, the range orders,
  and how the engine resolves a ticker.
\<close>

record chain_env =
  ce_gonum :: gonum
  ce_fetch :: price_source
  ce_it :: range_order
  ce_it2 :: range_order
  ce_itS :: sub_order
  ce_Asset :: "string \<Rightarrow> asset"

text \<open>\<open>strings.ToUpper\<close> on ASCII text.\<close>

definition upper_char :: "char \<Rightarrow> char" where
  "upper_char c = (let n = (of_char c :: nat) in if 97 \<le> n \<and> n \<le> 122 then char_of (n - 32) else c)"

definition ToUpper :: "string \<Rightarrow> string" where "ToUpper s = map upper_char s"

definition present :: "('a \<Rightarrow> middleware) \<Rightarrow> 'a option \<Rightarrow> middleware list" where
  "present mk v = (case v of None \<Rightarrow> [] | Some x \<Rightarrow> [mk x])"

definition harvester_config :: "chain_env \<Rightarrow> TaxConfig \<Rightarrow> HarvesterConfig" where
  "harvester_config env tc =
     \<lparr>hc_LossThreshold = tc_LossThreshold tc, hc_GainOffsetOnly = tc_GainOffsetOnly tc,
      hc_Substitutes = foldl (\<lambda>m (from, to). mput (ce_Asset env (ToUpper from)) (ce_Asset env (ToUpper to)) m) [] (tc_Substitutes tc)\<rparr>"

definition buildMiddlewareFromConfig :: "chain_env \<Rightarrow> MiddlewareConfig \<Rightarrow> middleware list" where
  "buildMiddlewareFromConfig env cfg =
     (let r = RiskConfig_Resolve (mc_Risk cfg) in
      present (\<lambda>n. VolatilityScaler (ce_fetch env) (ce_it env) (ce_it2 env) (nat n)) (rc_VolatilityScalerLookback r)
      @ present (MaxPositionSize (ce_it env)) (rc_MaxPositionSize r)
      @ present (MaxPositionCount (ce_it env)) (rc_MaxPositionCount r)
      @ present GrossExposureLimit (rc_GrossExposureLimit r)
      @ present NetExposureLimit (rc_NetExposureLimit r)
      @ present (DrawdownCircuitBreaker (ce_gonum env) (ce_it env)) (rc_DrawdownCircuitBreaker r)
      @ (if tc_Enabled (mc_Tax cfg) then [TaxLossHarvester (ce_it env) (ce_itS env) (harvester_config env (mc_Tax cfg))] else []))"

definition Conservative :: "chain_env \<Rightarrow> middleware list" where
  "Conservative env = [VolatilityScaler (ce_fetch env) (ce_it env) (ce_it2 env) 60, MaxPositionSize (ce_it env) (Fin (20 / 100)),
     DrawdownCircuitBreaker (ce_gonum env) (ce_it env) (Fin (10 / 100))]"

definition Moderate :: "chain_env \<Rightarrow> middleware list" where
  "Moderate env = [MaxPositionSize (ce_it env) (Fin (25 / 100)), DrawdownCircuitBreaker (ce_gonum env) (ce_it env) (Fin (15 / 100))]"

definition Aggressive :: "chain_env \<Rightarrow> middleware list" where
  "Aggressive env = [MaxPositionSize (ce_it env) (Fin (35 / 100)), DrawdownCircuitBreaker (ce_gonum env) (ce_it env) (Fin (25 / 100))]"

definition TaxEfficient :: "range_order \<Rightarrow> sub_order \<Rightarrow> HarvesterConfig \<Rightarrow> middleware list" where
  "TaxEfficient it itS cfg = [TaxLossHarvester it itS cfg]"

section \<open>The interface is kept\<close>

lemma plain_order_appended:
  assumes "\<not> has_bracket mods" "\<not> has_oco mods"
  shows "\<exists>ord. batch_Order ast side qty mods b = b\<lparr>b_Orders := b_Orders b @ [ord]\<rparr>
    \<and> o_Asset ord = ast \<and> o_Side ord = side \<and> o_Qty ord = qty \<and> o_Amount ord = 0"
proof -
  define o0 where "o0 = order_zero\<lparr>o_Asset := ast, o_Qty := qty, o_OrderType := Market, o_TimeInForce := Day, o_Side := side\<rparr>"
  obtain ord br oc where app: "applyOrderModifiers o0 mods = (ord, br, oc)" by (metis prod_cases3)
  note sp = applyOrderModifiers_spec [OF app]
  show ?thesis
    using sp assms app by (intro exI [of _ ord]) (auto simp: batch_Order_def o0_def order_zero_def)
qed

lemma batch_Order_ok:
  assumes "batch_ok b" "nn qty" "\<not> has_bracket mods" "\<not> has_oco mods"
  shows "batch_ok (batch_Order ast side qty mods b)" "b_Orders (batch_Order ast side qty mods b) \<noteq> []"
  using plain_order_appended [OF assms(3,4), of ast side qty b] assms(1,2) by (auto simp: batch_ok_def)

lemma set_last_amount_ok:
  assumes "batch_ok b" "b_Orders b \<noteq> []"
  shows "batch_ok (set_last_amount dollars b)"
proof -
  obtain xs x where "b_Orders b = xs @ [x]" using assms(2) by (metis rev_exhaust)
  then show ?thesis using assms(1) by (simp add: set_last_amount_def batch_ok_def)
qed

lemma harvest_mods [simp]:
  "\<not> has_bracket [justificationModifier j]" "\<not> has_oco [justificationModifier j]"
  "\<not> has_bracket [lotSelectionModifier m, justificationModifier j]" "\<not> has_oco [lotSelectionModifier m, justificationModifier j]"
  by (simp_all add: has_defs)

text \<open>A sale of one asset followed by a dollar purchase of another.\<close>

lemma swap_pair_ok:
  assumes "batch_ok b" "nn q"
  shows "batch_ok (set_last_amount d (batch_Order x Buy 0 [justificationModifier j]
    (batch_Order y Sell q [lotSelectionModifier m, justificationModifier k] b)))"
  by (intro set_last_amount_ok batch_Order_ok assms) simp_all

lemma swap_back_ok:
  assumes "batch_ok b"
  shows "batch_ok (swap_back port b sub)"
proof (cases "Position port (sub_Substitute sub) \<le> 0")
  case False
  then have "nn (Position port (sub_Substitute sub))" by (cases "Position port (sub_Substitute sub)") auto
  from swap_pair_ok [OF assms this] show ?thesis using assms unfolding swap_back_def Let_def by presburger
qed (simp add: swap_back_def Let_def assms)

lemma held_qty_exact:
  assumes "lots_fin ls"
  shows "held_qty ls = Fin (lots_sum ls)"
proof -
  have "foldl (\<lambda>q lot. q + lot_Qty lot) (Fin z) ls = Fin (z + lots_sum ls)" for z
    using assms by (induction ls arbitrary: z) (auto simp: lot_fin_def fin_iff)
  from this [of 0] show ?thesis by (simp add: held_qty_def)
qed

lemma held_qty_nn:
  assumes "books_ok a"
  shows "nn (held_qty (UnrealizedLots a ast))"
proof -
  have "lots_fin (long_lots a ast)" "0 \<le> lots_sum (long_lots a ast)"
    using assms by (auto simp: books_ok_def acct_inv_def position_inv_def lots_match_def)
  then show ?thesis by (simp add: UnrealizedLots_def held_qty_exact)
qed

lemma RegisterSubstitution_books [simp]: "books (RegisterSubstitution o1 s u a) = books a"
  by (simp add: RegisterSubstitution_def books_def)

lemma harvest_one_ok:
  assumes "harvest_one cfg (a, b) held = (a', b')" "books_ok a" "batch_ok b"
  shows "books_ok a' \<and> batch_ok b'"
proof -
  have q: "nn (held_qty (UnrealizedLots a held))" using held_qty_nn [OF assms(2)] .
  have reg: "books_ok (RegisterSubstitution x y u a)" for x y u
    using assms(2) books_ok_cong [OF RegisterSubstitution_books] by blast
  note ok = swap_pair_ok [OF assms(3) q] batch_Order_ok(1) [OF assms(3) q harvest_mods(3,4)]
  show ?thesis
    using assms ok reg by (cases "map_of (hc_Substitutes cfg) held")
      (auto simp only: harvest_one_def Let_def option.case prod.case prod.inject split: if_splits)
qed

lemma harvester_ok: "middleware_ok (TaxLossHarvester it itS cfg)"
proof -
  have folded: "books_ok a' \<and> batch_ok b'" if "foldl (harvest_one cfg) (a, b) hs = (a', b')" "books_ok a" "batch_ok b" for a b hs a' b'
    using that
  proof (induction hs arbitrary: a b)
    case (Cons h hs)
    obtain a1 b1 where h: "harvest_one cfg (a, b) h = (a1, b1)" by force
    show ?case using Cons.IH [of a1 b1] Cons.prems harvest_one_ok [OF h] h by simp
  qed simp
  have swapped: "batch_ok (foldl (\<lambda>b (_, sub). swap_back port b sub) b subs)" if "batch_ok b" for port b subs
    using that by (rule foldl_batch_ok) (auto intro: swap_back_ok)
  show ?thesis
    using folded swapped by (auto simp: middleware_ok_def TaxLossHarvester_def Let_def split: if_splits prod.splits) blast+
qed

lemma present_ok: "(\<And>x. middleware_ok (mk x)) \<Longrightarrow> list_all middleware_ok (present mk v)"
  by (cases v) (simp_all add: present_def)

lemmas risk_middleware_ok = exposure_limit_rewriter [THEN order_rewriter_ok] breaker_rewriter [THEN order_rewriter_ok]
  count_rewriter [THEN order_rewriter_ok] size_rewriter [THEN order_rewriter_ok] scaler_rewriter [THEN order_rewriter_ok]

lemma chain_ok: "list_all middleware_ok (buildMiddlewareFromConfig env cfg)"
  unfolding buildMiddlewareFromConfig_def Let_def list_all_append
  by (intro conjI present_ok) (auto simp: GrossExposureLimit_def NetExposureLimit_def intro: risk_middleware_ok harvester_ok)

section \<open>Profiles\<close>

lemma profile_chain:
  assumes "mc_Risk cfg = plain_profile name" "\<not> tc_Enabled (mc_Tax cfg)"
  shows "name = ''conservative'' \<Longrightarrow> buildMiddlewareFromConfig env cfg = Conservative env"
    "name = ''moderate'' \<Longrightarrow> buildMiddlewareFromConfig env cfg = Moderate env"
    "name = ''aggressive'' \<Longrightarrow> buildMiddlewareFromConfig env cfg = Aggressive env"
    "name = ''none'' \<or> name = [] \<Longrightarrow> buildMiddlewareFromConfig env cfg = []"
  using assms
  by (auto simp: buildMiddlewareFromConfig_def RiskConfig_Resolve_def ProfileBaseline_def plain_profile_def overriding_def
      present_def Let_def Conservative_def Moderate_def Aggressive_def)

section \<open>What is harvested\<close>

lemma harvest_fold:
  assumes "hc_Substitutes cfg = []"
  shows "\<exists>sells. foldl (harvest_one cfg) (port, b) hs = (port, b\<lparr>b_Orders := b_Orders b @ sells\<rparr>)
    \<and> map (\<lambda>ord. (o_Asset ord, o_Side ord, o_Qty ord, o_Amount ord)) sells
      = map (\<lambda>k. (k, Sell, held_qty (UnrealizedLots port k), 0)) (filter (harvestable cfg port) hs)"
proof (induction hs arbitrary: b)
  case (Cons h hs)
  show ?case
  proof (cases "harvestable cfg port h")
    case True
    obtain ord where ord: "harvest_one cfg (port, b) h = (port, b\<lparr>b_Orders := b_Orders b @ [ord]\<rparr>)"
      "o_Asset ord = h" "o_Side ord = Sell" "o_Qty ord = held_qty (UnrealizedLots port h)" "o_Amount ord = 0"
      using plain_order_appended [OF harvest_mods(3,4)] True assms unfolding harvest_one_def Let_def by (simp only: prod.case if_True not_True_eq_False if_False map_of.simps option.case) metis
    obtain sells where "foldl (harvest_one cfg) (port, b\<lparr>b_Orders := b_Orders b @ [ord]\<rparr>) hs
        = (port, (b\<lparr>b_Orders := b_Orders b @ [ord]\<rparr>)\<lparr>b_Orders := (b_Orders b @ [ord]) @ sells\<rparr>)"
      "map (\<lambda>ord. (o_Asset ord, o_Side ord, o_Qty ord, o_Amount ord)) sells
      = map (\<lambda>k. (k, Sell, held_qty (UnrealizedLots port k), 0)) (filter (harvestable cfg port) hs)"
      using Cons.IH [of "b\<lparr>b_Orders := b_Orders b @ [ord]\<rparr>"] by auto
    then show ?thesis using True ord by (intro exI [of _ "ord # sells"]) simp
  next
    case False
    then have "harvest_one cfg (port, b) h = (port, b)" by (simp add: harvest_one_def)
    then show ?thesis using Cons.IH [of b] False by simp
  qed
qed (auto intro: exI [of _ "[]"])

text \<open>A long position is exactly its lots.\<close>

lemma long_position_lots:
  assumes "books_ok a" "0 < Position a k"
  shows "held_qty (UnrealizedLots a k) = Position a k"
proof -
  have m: "lots_match (Position a k) (long_lots a k) (short_lots a k)"
    using assms(1) by (auto simp: books_ok_def acct_inv_def position_inv_def Position_def)
  then obtain p where p: "Position a k = Fin p" by (auto simp: lots_match_def fin_iff)
  have "short_lots a k = []"
  proof (rule ccontr)
    assume "short_lots a k \<noteq> []"
    moreover have "0 \<le> lots_sum (short_lots a k)" using m lots_sum_nonneg by (auto simp: lots_match_def)
    ultimately show False using m p assms(2) by (auto simp: lots_match_def)
  qed
  then show ?thesis using m p by (simp add: lots_match_def UnrealizedLots_def held_qty_exact)
qed

lemma harvest_sells:
  assumes "hc_Substitutes cfg = []" "a_substitutions port = []" "books_ok port" "visits_all it" "itS [] = []"
    "hc_GainOffsetOnly cfg \<longrightarrow> (case RealizedGainsYTD port of (l, s) \<Rightarrow> \<not> l + s \<le> 0)"
  shows "\<exists>sells ks. TaxLossHarvester it itS cfg (port, b) = (None, port, b\<lparr>b_Orders := b_Orders b @ sells\<rparr>)
    \<and> map (\<lambda>ord. (o_Asset ord, o_Side ord, o_Qty ord, o_Amount ord)) sells = map (\<lambda>k. (k, Sell, Position port k, 0)) ks
    \<and> distinct ks \<and> set ks = {k. 0 < Position port k \<and> harvestable cfg port k}"
proof -
  define hs where "hs = map fst (filter (\<lambda>(ast, qty). qty > 0) (it (a_holdings port)))"
  have wf: "mwf (a_holdings port)" using assms(3) by (simp add: books_ok_def)
  note vis = visits_all_simps [OF assms(4), of "a_holdings port"]
  have hs: "set hs = {k. 0 < Position port k}" "distinct hs"
  proof -
    show "distinct hs" using vis(2) wf by (simp add: hs_def distinct_map_filter)
    have "k \<in> set hs \<longleftrightarrow> (\<exists>q. (k, q) \<in> set (a_holdings port) \<and> q > 0)" for k by (force simp: hs_def vis(1))
    moreover have "(k, q) \<in> set (a_holdings port) \<longleftrightarrow> map_of (a_holdings port) k = Some q" for k q using wf by simp
    ultimately show "set hs = {k. 0 < Position port k}" by (auto simp: Position_def mget_def split: option.splits)
  qed
  define ks where "ks = filter (harvestable cfg port) hs"
  obtain sells where s: "foldl (harvest_one cfg) (port, b) hs = (port, b\<lparr>b_Orders := b_Orders b @ sells\<rparr>)"
    "map (\<lambda>ord. (o_Asset ord, o_Side ord, o_Qty ord, o_Amount ord)) sells = map (\<lambda>k. (k, Sell, held_qty (UnrealizedLots port k), 0)) ks"
    using harvest_fold [OF assms(1)] unfolding ks_def by blast
  have "TaxLossHarvester it itS cfg (port, b) = (None, port, b\<lparr>b_Orders := b_Orders b @ sells\<rparr>)"
    using s(1) assms(2,5,6) by (auto simp: TaxLossHarvester_def Let_def ActiveSubstitutions_def Holdings_def hs_def)
  moreover have "map (\<lambda>k. (k, Sell, held_qty (UnrealizedLots port k), 0 :: f64)) ks = map (\<lambda>k. (k, Sell, Position port k, 0)) ks"
    using long_position_lots [OF assms(3)] hs(1) by (auto simp: ks_def)
  ultimately show ?thesis using s(2) hs by (intro exI [of _ sells] exI [of _ ks]) (auto simp: ks_def)
qed

text \<open>The harvester counts on the holdings before the batch: what the batch has projected is not looked at.\<close>

lemma harvest_projection:
  assumes "hc_Substitutes cfg = []" "a_substitutions port = []" "books_ok port" "visits_all it" "itS [] = []"
    "hc_GainOffsetOnly cfg \<longrightarrow> (case RealizedGainsYTD port of (l, s) \<Rightarrow> \<not> l + s \<le> 0)"
    "b_executed b \<le> length (b_Orders b)" "TaxLossHarvester it itS cfg (port, b) = (e, port', b')"
  shows "mget 0 (ProjectedHoldings port b') x = mget 0 (ProjectedHoldings port b) x
    - (if 0 < Position port x \<and> harvestable cfg port x then Position port x else 0)"
proof -
  obtain sells ks where s: "TaxLossHarvester it itS cfg (port, b) = (None, port, b\<lparr>b_Orders := b_Orders b @ sells\<rparr>)"
    "map (\<lambda>ord. (o_Asset ord, o_Side ord, o_Qty ord, o_Amount ord)) sells = map (\<lambda>k. (k, Sell, Position port k, 0)) ks"
    "distinct ks" "set ks = {k. 0 < Position port k \<and> harvestable cfg port k}"
    using harvest_sells [where cfg = cfg and port = port and it = it and itS = itS and b = b] assms(1-6) by blast
  have net: "map (\<lambda>ord. (o_Asset ord, o_Side ord, o_Qty ord, o_Amount ord)) ss = map (\<lambda>k. (k, Sell, Position port k, 0)) ls \<Longrightarrow>
      (\<And>k. k \<in> set ls \<Longrightarrow> 0 < Position port k) \<Longrightarrow> distinct ls \<Longrightarrow>
      net_shares port ss x = (if x \<in> set ls then - Position port x else 0)" for ss ls
  proof (induction ls arbitrary: ss)
    case (Cons l ls)
    then obtain o1 os where ss: "ss = o1 # os" by auto
    then have "net_shares port os x = (if x \<in> set ls then - Position port x else 0)" using Cons by simp
    moreover have "order_shares port o1 = Position port l" "o_Asset o1 = l" "o_Side o1 = Sell"
      using Cons.prems(1) Cons.prems(2) [of l] ss by (auto simp: order_shares_def feq_def Let_def)
    ultimately show ?case using Cons.prems(3) by (auto simp: ss net_shares_def signed_def)
  qed (simp add: net_shares_def)
  have "b' = b\<lparr>b_Orders := b_Orders b @ sells\<rparr>" using s(1) assms(8) by simp
  then show ?thesis
    using ProjectedHoldings_append [OF assms(7,2), of sells x] net [OF s(2) _ s(3)] s(4) by (simp add: f64_diff)
qed

text \<open>In the configured order the harvester runs after the circuit breaker, and sells again what the breaker has sold.\<close>

lemma breaker_then_harvest:
  assumes "current_drawdown g port = Some dd" "fin dd" "\<not> absF dd < threshold" "visits_all it" "itS [] = []"
    "hc_Substitutes cfg = []" "a_substitutions port = []" "books_ok port" "\<not> hc_GainOffsetOnly cfg" "b_executed b = 0"
    "0 < Position port x" "harvestable cfg port x"
  shows "\<exists>b'. run_middleware [DrawdownCircuitBreaker g it threshold, TaxLossHarvester it itS cfg] (port, b) = (None, port, b')
    \<and> mget 0 (ProjectedHoldings port b') x = - Position port x"
proof -
  have h: "mwf (a_holdings port)" "fin_entries (a_holdings port)"
    using assms(8) by (auto simp: books_ok_def open_holdings_def list_all_iff)
  obtain b1 where b1: "DrawdownCircuitBreaker g it threshold (port, b) = (None, port, b1)"
    "mget 0 (ProjectedHoldings port b1) x = 0"
    using breaker_fires [OF assms(1-4,7) h assms(10)] assms(11) by auto
  have e1: "b_executed b1 \<le> length (b_Orders b1)"
    using b1(1) assms(1-3,10) by (auto simp: DrawdownCircuitBreaker_def Let_def fin_iff)
  obtain e2 p2 b2 where b2: "TaxLossHarvester it itS cfg (port, b1) = (e2, p2, b2)" by (metis prod_cases3)
  obtain sells where "TaxLossHarvester it itS cfg (port, b1) = (None, port, b1\<lparr>b_Orders := b_Orders b1 @ sells\<rparr>)"
    using harvest_sells [where cfg = cfg and port = port and it = it and itS = itS and b = b1] assms(4-9) by blast
  moreover have "mget 0 (ProjectedHoldings port b2) x = mget 0 (ProjectedHoldings port b1) x - Position port x"
    using harvest_projection [where cfg = cfg and port = port and it = it and itS = itS and b = b1, OF assms(6,7,8,4,5) _ e1 b2] assms(9,11,12)
    by simp
  ultimately show ?thesis using b1 b2 by (simp add: f64_diff)
qed

text \<open>With an active substitution the breaker sells the original asset, of which the account holds nothing.\<close>

lemma breaker_sells_logical:
  assumes "current_drawdown g port = Some dd" "fin dd" "\<not> absF dd < threshold" "visits_all it"
    "a_holdings port = [(s, q)]" "0 < q" "a_substitutions port \<noteq> []"
    "mapToLogical s (a_substitutions port) (case a_prices port of None \<Rightarrow> time_zero | Some p \<Rightarrow> df_End p) = orig" "orig \<noteq> s"
  shows "\<exists>b'. DrawdownCircuitBreaker g it threshold (port, b) = (None, port, b')
    \<and> b_Orders b' = [market_day_order orig Sell q 0] \<and> Position port orig = 0"
proof -
  have "Holdings port = [(orig, q)]" using assms(5-9) by (cases q) (simp_all add: Holdings_def Let_def mget_def)
  moreover have "it [(orig, q)] = [(orig, q)]" using assms(4) [unfolded visits_all_def, rule_format, of "[(orig, q)]"] by simp
  moreover have "Position port orig = 0" using assms(5,9) by (simp add: Position_def mget_def)
  ultimately show ?thesis using assms(1-3,6) by (auto simp: DrawdownCircuitBreaker_def Let_def fin_iff)
qed

end
