(* ===== verification/Weighting.thy ===== *)
theory Weighting
  imports RiskMiddleware EngineData
begin

text \<open>
  Portfolio construction (package portfolio): the selectors that mark assets in a frame
  (top\_bottom\_n.go, max\_above\_zero.go) and the weightings that turn the marked frame into a
  plan of allocations (equal\_weight.go, weighted\_by\_signal.go, market\_cap\_weighted.go,
  inverse\_volatility.go, risk\_parity.go, risk\_parity\_fast.go). The data source a frame carries
  is an argument. Shows that every weighting invests exactly the whole portfolio in the selected
  assets, that a converged risk parity equalises the risk contributions, and what the selectors pick.
\<close>

definition Selected :: metric where "Selected = ''selected''"
definition MarketCap :: metric where "MarketCap = ''MarketCap''"

section \<open>Helpers\<close>

definition CollectSelected :: "dataframe \<Rightarrow> gotime \<Rightarrow> asset list" where
  "CollectSelected df timestamp =
     filter (\<lambda>a. let sel = df_ValueAt df a Selected timestamp in sel > 0 \<and> \<not> isNaN sel) (df_assets df)"

definition HasSelectedColumn :: "dataframe \<Rightarrow> bool" where
  "HasSelectedColumn df \<longleftrightarrow> list_ex (\<lambda>m. m = Selected) (df_metrics df)"

definition ErrMissingSelected :: "string \<Rightarrow> goerr" where
  "ErrMissingSelected funcName = Err (funcName @ '': DataFrame missing selected column'')"

definition ErrNoDataSource :: "string \<Rightarrow> string \<Rightarrow> goerr" where
  "ErrNoDataSource funcName dataDesc = Err (funcName @ '': DataFrame has no DataSource; cannot fetch '' @ dataDesc)"

definition equalWeightMembers :: "asset list \<Rightarrow> (asset, f64) gomap" where
  "equalWeightMembers chosen = foldl (\<lambda>m a. mput a (1 / Fin (real (length chosen))) m) [] chosen"

definition defaultLookback :: "Period \<Rightarrow> Period" where
  "defaultLookback lookback =
     (if p_N lookback = 0 \<and> p_Unit lookback = UnitDay \<and> p_TimeOfDay lookback = [] then Days 60 else lookback)"

definition nanSafeStd :: "dataframe \<Rightarrow> asset \<Rightarrow> metric \<Rightarrow> f64" where
  "nanSafeStd df a metric =
     (let values = filter (\<lambda>v. \<not> isNaN v) (map (df_ValueAt df a metric) (df_times df)) in
      if length values < 2 then 0
      else let mean = foldl (+) 0 values / Fin (real (length values));
               sumSq = foldl (\<lambda>s v. s + (v - mean) * (v - mean)) 0 values
           in sqrtF (sumSq / Fin (real (length values - 1))))"

text \<open>The loop of each weighting over the rows; \<open>None\<close> is a panic of a frame operation.\<close>

definition plan_loop :: "(gotime \<Rightarrow> (asset, f64) gomap option) \<Rightarrow> gotime list \<Rightarrow> Allocation list option" where
  "plan_loop members ts =
     those (map (\<lambda>t. map_option (\<lambda>m. \<lparr>al_Date = t, al_Members = m, al_Justification = []\<rparr>) (members t)) ts)"

text \<open>The end of a row: equal weights when nothing counts, otherwise the positive shares of the sum.\<close>

definition positive_members :: "asset list \<Rightarrow> f64 list \<Rightarrow> (asset, f64) gomap" where
  "positive_members chosen weights = foldl (\<lambda>m (a, w). if w > 0 then mput a w m else m) [] (zip chosen weights)"

definition proportional :: "asset list \<Rightarrow> f64 list \<Rightarrow> f64 \<Rightarrow> (asset, f64) gomap" where
  "proportional chosen values total' =
     (if feq total' 0 \<and> chosen \<noteq> [] then equalWeightMembers chosen
      else positive_members chosen (map (\<lambda>v. v / total') values))"

definition counted :: "f64 \<Rightarrow> f64" where
  "counted v = (if isNaN v \<or> v \<le> 0 then 0 else v)"

definition counted_sum :: "f64 list \<Rightarrow> f64" where
  "counted_sum vs = foldl (\<lambda>s v. if isNaN v \<or> v \<le> 0 then s else s + v) 0 vs"

section \<open>Weightings without a data source\<close>

type_synonym plan_result = "(goerr + Allocation list) option"

definition EqualWeight :: "dataframe \<Rightarrow> plan_result" where
  "EqualWeight df =
     (if \<not> list_ex (\<lambda>m. m = Selected) (df_metrics df) then Some (Inl (Err ''EqualWeight: DataFrame missing selected column''))
      else map_option Inr (plan_loop (\<lambda>t.
             let chosen = filter (\<lambda>a. df_ValueAt df a Selected t > 0) (df_assets df)
             in Some (equalWeightMembers chosen)) (df_times df)))"

definition WeightedBySignal :: "metric \<Rightarrow> dataframe \<Rightarrow> plan_result" where
  "WeightedBySignal metric df =
     (if \<not> list_ex (\<lambda>m. m = Selected) (df_metrics df) then Some (Inl (Err ''WeightedBySignal: DataFrame missing selected column''))
      else map_option Inr (plan_loop (\<lambda>t.
             let chosen = filter (\<lambda>a. let sel = df_ValueAt df a Selected t in \<not> (sel \<le> 0 \<or> isNaN sel)) (df_assets df);
                 raw = map (\<lambda>a. df_ValueAt df a metric t) chosen
             in Some (proportional chosen (map counted raw) (counted_sum raw))) (df_times df)))"

section \<open>Weightings that may fetch\<close>

record weight_source =
  ws_Fetch :: "asset list \<Rightarrow> Period \<Rightarrow> metric list \<Rightarrow> goerr + dataframe"
  ws_FetchAt :: "asset list \<Rightarrow> gotime \<Rightarrow> metric list \<Rightarrow> goerr + dataframe"
  ws_CurrentDate :: gotime

definition ensureMarketCap :: "weight_source option \<Rightarrow> dataframe \<Rightarrow> asset list \<Rightarrow> goerr + dataframe" where
  "ensureMarketCap source df assets =
     (if list_ex (\<lambda>m. m = MarketCap) (df_metrics df) then Inr df
      else case source of None \<Rightarrow> Inl (ErrNoDataSource ''MarketCapWeighted'' ''MarketCap'')
        | Some src \<Rightarrow> ws_FetchAt src assets (ws_CurrentDate src) [MarketCap])"

definition MarketCapWeighted :: "weight_source option \<Rightarrow> dataframe \<Rightarrow> plan_result" where
  "MarketCapWeighted source df =
     (if \<not> HasSelectedColumn df then Some (Inl (ErrMissingSelected ''MarketCapWeighted''))
      else case ensureMarketCap source df (df_assets df) of Inl e \<Rightarrow> Some (Inl (Wrap ''MarketCapWeighted'' e))
        | Inr mcapDF \<Rightarrow>
            map_option Inr (plan_loop (\<lambda>t.
              let chosen = CollectSelected df t;
                  raw = map (\<lambda>a. df_ValueAt mcapDF a MarketCap t) chosen
              in Some (proportional chosen (map counted raw) (counted_sum raw))) (df_times df)))"

definition ensureMetric :: "weight_source option \<Rightarrow> dataframe \<Rightarrow> asset list \<Rightarrow> Period \<Rightarrow> metric \<Rightarrow> goerr + dataframe" where
  "ensureMetric source df assets lookback metric =
     (if list_ex (\<lambda>m. m = metric) (df_metrics df) then Inr df
      else case source of None \<Rightarrow> Inl (ErrNoDataSource ''ensureMetric'' metric)
        | Some src \<Rightarrow> ws_Fetch src assets lookback [metric])"

definition trailing_returns :: "dataframe \<Rightarrow> Period \<Rightarrow> gotime \<Rightarrow> dataframe option" where
  "trailing_returns priceDF lookback t =
     Option.bind (Between (Period_Before lookback t) t priceDF) (df_Pct 1)"

text \<open>
  The weightings over trailing returns share their frame: the selected column, the price data,
  equal weight for at most one chosen asset, and the rule given as an argument for the rest.
\<close>

definition trailing_plan ::
    "string \<Rightarrow> (dataframe \<Rightarrow> asset list \<Rightarrow> (asset, f64) gomap) \<Rightarrow> weight_source option \<Rightarrow> dataframe \<Rightarrow> Period \<Rightarrow> plan_result" where
  "trailing_plan funcName rule source df lookback0 =
     (if \<not> HasSelectedColumn df then Some (Inl (ErrMissingSelected funcName))
      else let lookback = defaultLookback lookback0 in
        case ensureMetric source df (df_assets df) lookback AdjClose of Inl e \<Rightarrow> Some (Inl (Wrap funcName e))
        | Inr priceDF \<Rightarrow>
            map_option Inr (plan_loop (\<lambda>t.
              let chosen = CollectSelected df t in
              if length chosen \<le> 1 then Some (equalWeightMembers chosen)
              else map_option (\<lambda>returns. rule returns chosen) (trailing_returns priceDF lookback t)) (df_times df)))"

definition inverse_vol_rule :: "dataframe \<Rightarrow> asset list \<Rightarrow> (asset, f64) gomap" where
  "inverse_vol_rule returns chosen =
     (let vols = map (\<lambda>a. nanSafeStd returns a AdjClose) chosen;
          invVols = map (\<lambda>vol. if vol \<le> 0 then 0 else 1 / vol) vols;
          sumInvVol = foldl (\<lambda>s vol. if vol \<le> 0 then s else s + 1 / vol) 0 vols
      in if feq sumInvVol 0 then equalWeightMembers chosen
         else positive_members chosen (map (\<lambda>v. v / sumInvVol) invVols))"

definition InverseVolatility :: "weight_source option \<Rightarrow> dataframe \<Rightarrow> Period \<Rightarrow> plan_result" where
  "InverseVolatility = trailing_plan ''InverseVolatility'' inverse_vol_rule"

section \<open>Risk parity\<close>

definition sampleCovariance :: "f64 list \<Rightarrow> f64 list \<Rightarrow> f64" where
  "sampleCovariance seriesA seriesB =
     (let numObs = length seriesA in
      if numObs < 2 then 0
      else let meanA = foldl (+) 0 seriesA / Fin (real numObs); meanB = foldl (+) 0 seriesB / Fin (real numObs)
           in foldl (\<lambda>cov (x, y). cov + (x - meanA) * (y - meanB)) 0 (zip seriesA seriesB) / Fin (real (numObs - 1)))"

text \<open>The flat matrix, row by row; a missing return counts as zero.\<close>

definition return_series :: "dataframe \<Rightarrow> asset \<Rightarrow> f64 list" where
  "return_series returns a =
     map (\<lambda>t. let val = df_ValueAt returns a AdjClose t in if isNaN val then 0 else val) (df_times returns)"

definition computeCovMatrix :: "dataframe \<Rightarrow> asset list \<Rightarrow> f64 list option" where
  "computeCovMatrix returns chosen =
     (if length (df_times returns) < 2 then None
      else Some (concat (map (\<lambda>a. map (\<lambda>b. sampleCovariance (return_series returns a) (return_series returns b)) chosen) chosen)))"

definition matVecMul :: "f64 list \<Rightarrow> f64 list \<Rightarrow> nat \<Rightarrow> f64 list" where
  "matVecMul matrix vec size' =
     map (\<lambda>i. foldl (\<lambda>s j. s + matrix ! (i * size' + j) * vec ! j) 0 [0..<size']) [0..<size']"

definition quadForm :: "f64 list \<Rightarrow> f64 list \<Rightarrow> nat \<Rightarrow> f64" where
  "quadForm matrix vec size' =
     foldl (\<lambda>s i. foldl (\<lambda>s j. s + vec ! i * matrix ! (i * size' + j) * vec ! j) s [0..<size']) 0 [0..<size']"

definition fast_weights :: "dataframe \<Rightarrow> asset list \<Rightarrow> f64 list \<Rightarrow> f64 list \<Rightarrow> (asset, f64) gomap option" where
  "fast_weights returns chosen vols covMatrix =
     (let n = length chosen;
          weights = map (\<lambda>vol. if vol > 0 then 1 / vol else 0) vols;
          marginal = matVecMul covMatrix weights n;
          adjusted = map (\<lambda>(w, r). if r > 0 then w / r else 0) (zip weights marginal);
          sumWeights = foldl (+) 0 adjusted
      in if feq sumWeights 0 then None
         else Some (positive_members chosen (map (\<lambda>w. w / sumWeights) adjusted)))"

definition riskParityFastWeights :: "dataframe \<Rightarrow> asset list \<Rightarrow> (asset, f64) gomap option" where
  "riskParityFastWeights returns chosen =
     (let vols = map (\<lambda>a. let vol = nanSafeStd returns a AdjClose in if vol \<le> 0 then 0 else vol) chosen;
          allZero = list_all (\<lambda>a. nanSafeStd returns a AdjClose \<le> 0) chosen
      in if allZero then None
         else case computeCovMatrix returns chosen of None \<Rightarrow> None
              | Some covMatrix \<Rightarrow> fast_weights returns chosen vols covMatrix)"

definition fast_rule :: "dataframe \<Rightarrow> asset list \<Rightarrow> (asset, f64) gomap" where
  "fast_rule returns chosen =
     (case riskParityFastWeights returns chosen of None \<Rightarrow> equalWeightMembers chosen | Some members \<Rightarrow> members)"

definition RiskParityFast :: "weight_source option \<Rightarrow> dataframe \<Rightarrow> Period \<Rightarrow> plan_result" where
  "RiskParityFast = trailing_plan ''RiskParityFast'' fast_rule"

definition riskParityMaxIter :: nat where "riskParityMaxIter = 1000"
definition riskParityTolerance :: f64 where "riskParityTolerance = Fin (1 / 10 ^ 10)"

definition risk_contributions :: "f64 list \<Rightarrow> f64 list \<Rightarrow> nat \<Rightarrow> f64 list" where
  "risk_contributions covMatrix weights n =
     (let portVar = quadForm covMatrix weights n; marginal = matVecMul covMatrix weights n
      in map (\<lambda>i. weights ! i * marginal ! i / portVar) [0..<n])"

definition contribution_error :: "f64 \<Rightarrow> f64 list \<Rightarrow> f64" where
  "contribution_error targetRC rcs =
     foldl (\<lambda>maxErr rc. let errVal = absF (rc - targetRC) in if errVal > maxErr then errVal else maxErr) 0 rcs"

text \<open>\<open>math.Pow\<close> with exponent one half is the square root.\<close>

definition parity_step :: "f64 \<Rightarrow> f64 list \<Rightarrow> f64 list \<Rightarrow> f64 list" where
  "parity_step targetRC weights rcs =
     map (\<lambda>(w, rc). let v = (if rc > 0 then w * sqrtF (targetRC / rc) else w) in if v < 0 then 0 else v) (zip weights rcs)"

fun parity_loop :: "nat \<Rightarrow> f64 list \<Rightarrow> nat \<Rightarrow> f64 list \<Rightarrow> f64 list \<Rightarrow> f64 \<Rightarrow> f64 list option \<times> bool" where
  "parity_loop 0 covMatrix n weights bestWeights bestError = (Some bestWeights, False)"
| "parity_loop (Suc k) covMatrix n weights bestWeights bestError =
     (let targetRC = 1 / Fin (real n) in
      if quadForm covMatrix weights n \<le> 0 then (None, False)
      else
        let rcs = risk_contributions covMatrix weights n;
            maxErr = contribution_error targetRC rcs;
            (bestWeights', bestError') = (if maxErr < bestError then (weights, maxErr) else (bestWeights, bestError))
        in if maxErr < riskParityTolerance then (Some weights, True)
           else
             let newWeights = parity_step targetRC weights rcs; sumNew = foldl (+) 0 newWeights
             in if sumNew \<le> 0 then (None, False)
                else parity_loop k covMatrix n (map (\<lambda>w. w / sumNew) newWeights) bestWeights' bestError')"

definition solveRiskParity :: "f64 list \<Rightarrow> nat \<Rightarrow> f64 list option \<times> bool" where
  "solveRiskParity covMatrix numAssets =
     (let weights = replicate numAssets (1 / Fin (real numAssets))
      in parity_loop riskParityMaxIter covMatrix numAssets weights weights PInf)"

definition parity_rule :: "dataframe \<Rightarrow> asset list \<Rightarrow> (asset, f64) gomap" where
  "parity_rule returns chosen =
     (case computeCovMatrix returns chosen of None \<Rightarrow> equalWeightMembers chosen
      | Some covMatrix \<Rightarrow>
          (case fst (solveRiskParity covMatrix (length chosen)) of None \<Rightarrow> equalWeightMembers chosen
           | Some weights \<Rightarrow>
               let members = positive_members chosen weights in
               if members = [] then equalWeightMembers chosen else members))"

definition RiskParity :: "weight_source option \<Rightarrow> dataframe \<Rightarrow> Period \<Rightarrow> plan_result" where
  "RiskParity = trailing_plan ''RiskParity'' parity_rule"

section \<open>Selectors\<close>

record topBottomN =
  tb_count :: int
  tb_metric :: metric
  tb_ascending :: bool

record assetValue =
  av_asset :: asset
  av_value :: f64

type_synonym sel_cols = "(string, f64 list) gomap"

definition empty_sel :: "asset list \<Rightarrow> nat \<Rightarrow> sel_cols" where
  "empty_sel assets nTimes = foldl (\<lambda>m a. mput (CompositeFigi a) (replicate nTimes 0) m) [] assets"

definition mark_row :: "nat \<Rightarrow> sel_cols \<Rightarrow> string \<Rightarrow> sel_cols" where
  "mark_row timeIdx cols figi = mput figi ((mget [] cols figi)[timeIdx := 1]) cols"

text \<open>A failed insertion is only logged.\<close>

definition insert_logged :: "metric \<Rightarrow> dataframe \<Rightarrow> asset \<times> f64 list \<Rightarrow> dataframe" where
  "insert_logged m df = (\<lambda>(a, vals). case df_Insert a m vals df of Inl _ \<Rightarrow> df | Inr df' \<Rightarrow> df')"

definition ranked_at :: "topBottomN \<Rightarrow> dataframe \<Rightarrow> gotime \<Rightarrow> assetValue list" where
  "ranked_at tb df t =
     sort_Slice (\<lambda>x y. if tb_ascending tb then av_value x < av_value y else av_value x > av_value y)
       (List.map_filter (\<lambda>a. let v = df_ValueAt df a (tb_metric tb) t in
          if isNaN v then None else Some \<lparr>av_asset = a, av_value = v\<rparr>) (df_assets df))"

definition topBottomN_Select :: "topBottomN \<Rightarrow> dataframe \<Rightarrow> dataframe" where
  "topBottomN_Select tb df =
     (let cols = foldl (\<lambda>cols (timeIdx, t).
              foldl (\<lambda>cols r. mark_row timeIdx cols (CompositeFigi (av_asset r))) cols (take (nat (tb_count tb)) (ranked_at tb df t)))
            (empty_sel (df_assets df) (length (df_times df))) (enumerate 0 (df_times df))
      in foldl (insert_logged Selected) df (map (\<lambda>a. (a, mget [] cols (CompositeFigi a))) (df_assets df)))"

text \<open>\<open>TopN\<close> and \<open>BottomN\<close> panic for a count below one.\<close>

definition TopN :: "int \<Rightarrow> metric \<Rightarrow> topBottomN option" where
  "TopN n metric = (if n < 1 then None else Some \<lparr>tb_count = n, tb_metric = metric, tb_ascending = False\<rparr>)"

definition BottomN :: "int \<Rightarrow> metric \<Rightarrow> topBottomN option" where
  "BottomN n metric = (if n < 1 then None else Some \<lparr>tb_count = n, tb_metric = metric, tb_ascending = True\<rparr>)"

record maxAboveZero =
  mz_metric :: metric
  mz_fallback :: "dataframe option"

definition best_figi :: "metric \<Rightarrow> dataframe \<Rightarrow> gotime \<Rightarrow> string" where
  "best_figi metric df t =
     snd (foldl (\<lambda>(bestVal, bestFigi) a.
            let v = df_ValueAt df a metric t in if v > bestVal then (v, CompositeFigi a) else (bestVal, bestFigi))
          (0, []) (df_assets df))"

definition merge_sel :: "f64 list \<Rightarrow> f64 list \<Rightarrow> f64 list" where
  "merge_sel sel fbSel = map (\<lambda>(v, s). if v > s then v else s) (zip fbSel sel)"

definition maxAboveZero_Select :: "maxAboveZero \<Rightarrow> dataframe \<Rightarrow> dataframe" where
  "maxAboveZero_Select m df =
     (let ts = df_times df; assets = df_assets df; nTimes = length ts;
          fbAssets = (case mz_fallback m of None \<Rightarrow> [] | Some fb \<Rightarrow> df_assets fb);
          best = best_figi (mz_metric m) df;
          selCols = foldl (\<lambda>cols (i, t). if best t \<noteq> [] then mark_row i cols (best t) else cols)
                      (empty_sel assets nTimes) (enumerate 0 ts);
          fbSelCols = foldl (\<lambda>cols (i, t). if best t = [] then foldl (mark_row i) cols (map CompositeFigi fbAssets) else cols)
                      (empty_sel fbAssets nTimes) (enumerate 0 ts);
          needsFallback = (mz_fallback m \<noteq> None \<and> list_ex (\<lambda>t. best t = []) ts);
          df1 = (case mz_fallback m of Some fb \<Rightarrow>
                   if needsFallback then
                     foldl (\<lambda>df a. foldl (\<lambda>df met. insert_logged met df (a, case df_Column fb a met of None \<Rightarrow> [] | Some c \<Rightarrow> c)) df (df_metrics fb))
                       df fbAssets
                   else df
                 | None \<Rightarrow> df);
          selCols' = foldl (\<lambda>cols a. case map_of cols (CompositeFigi a) of None \<Rightarrow> cols
                       | Some sel \<Rightarrow> mput (CompositeFigi a) (merge_sel sel (mget [] fbSelCols (CompositeFigi a))) cols) selCols fbAssets;
          df2 = foldl (insert_logged Selected) df1 (map (\<lambda>a. (a, mget [] selCols' (CompositeFigi a))) assets)
      in foldl (insert_logged Selected) df2
           (map (\<lambda>a. (a, mget [] fbSelCols (CompositeFigi a))) (filter (\<lambda>a. \<not> mhas selCols' (CompositeFigi a)) fbAssets)))"

section \<open>The contract of a weighting\<close>

text \<open>A whole portfolio over the chosen assets: positive weights that sum to one.\<close>

definition allocates :: "asset list \<Rightarrow> (asset, f64) gomap \<Rightarrow> bool" where
  "allocates chosen m \<longleftrightarrow> mwf m \<and> set (mkeys m) \<subseteq> set chosen \<and> list_all (\<lambda>(_, w). fin w \<and> 0 < fval w) m
     \<and> (chosen \<noteq> [] \<longrightarrow> (\<Sum>(_, w)\<leftarrow>m. fval w) = 1)"

definition plan_for :: "dataframe \<Rightarrow> Allocation list \<Rightarrow> bool" where
  "plan_for df plan \<longleftrightarrow> map al_Date plan = df_times df
     \<and> list_all (\<lambda>al. allocates (CollectSelected df (al_Date al)) (al_Members al)) plan"

lemma foldl_add_map: "foldl (\<lambda>s x. s + f x) z xs = z + sum_list (map f xs)" for z :: "'a::monoid_add"
  by (induction xs arbitrary: z) (simp_all add: add.assoc)

lemma foldl_plus [simp]: "foldl (+) (Fin 0) xs = sum_list xs"
  using foldl_add_map [of "\<lambda>x. x" "Fin 0" xs] by simp

definition weight_vector :: "f64 list \<Rightarrow> bool" where
  "weight_vector ws \<longleftrightarrow> list_all (\<lambda>w. fin w \<and> 0 \<le> fval w) ws"

lemma weight_vectorD: "weight_vector ws \<Longrightarrow> w \<in> set ws \<Longrightarrow> \<exists>x. w = Fin x \<and> 0 \<le> x"
  by (auto simp: weight_vector_def list_all_iff) (metis fin_iff fval.simps(1))

lemma all_finD: "list_all fin xs \<Longrightarrow> x \<in> set xs \<Longrightarrow> \<exists>r. x = Fin r"
  by (auto simp: list_all_iff fin_iff)

lemma foldl_mput_new:
  assumes "distinct (map fst xs)" "set (map fst xs) \<inter> set (mkeys m) = {}"
  shows "foldl (\<lambda>m (k, v). if P v then mput k v m else m) m xs = m @ filter (\<lambda>(k, v). P v) xs"
  using assms
proof (induction xs arbitrary: m)
  case (Cons x xs)
  obtain k v where x: "x = (k, v)" by force
  have "mput k v m = m @ [(k, v)]" using Cons.prems(2) x by (induction m) auto
  then show ?case using Cons x by auto
qed simp

lemma positive_members_eq:
  assumes "distinct chosen" "length ws = length chosen"
  shows "positive_members chosen ws = filter (\<lambda>(_, w). w > 0) (zip chosen ws)"
  using assms foldl_mput_new [of "zip chosen ws" "[]" "\<lambda>w. w > 0"] by (simp add: positive_members_def)

lemma equalWeightMembers_eq:
  assumes "distinct chosen"
  shows "equalWeightMembers chosen = map (\<lambda>a. (a, 1 / Fin (real (length chosen)))) chosen"
proof -
  define w where "w = 1 / Fin (real (length chosen))"
  have "foldl (\<lambda>m a. mput a w m) m as = foldl (\<lambda>m (k, v). if True then mput k v m else m) m (map (\<lambda>a. (a, w)) as)" for m as
    by (induction as arbitrary: m) auto
  from this [of "[]" chosen] have "foldl (\<lambda>m a. mput a w m) [] chosen = map (\<lambda>a. (a, w)) chosen"
    using foldl_mput_new [of "map (\<lambda>a. (a, w)) chosen" "[]" "\<lambda>_. True"] assms by (simp add: o_def)
  then show ?thesis unfolding equalWeightMembers_def w_def .
qed

lemma equal_allocates: "distinct chosen \<Longrightarrow> allocates chosen (equalWeightMembers chosen)"
  by (cases "chosen = []")
     (auto simp: allocates_def equalWeightMembers_eq o_def list_all_iff sum_list_triv field_simps)

lemma positive_sum:
  assumes "weight_vector ws" "length ws = length as"
  shows "(\<Sum>(_, w)\<leftarrow>filter (\<lambda>(_, w). w > 0) (zip as ws). fval w) = (\<Sum>w\<leftarrow>ws. fval w)"
  using assms(2,1)
proof (induction ws as rule: list_induct2)
  case (Cons w ws a as)
  then obtain r where "w = Fin r" "0 \<le> r" by (auto simp: weight_vector_def fin_iff)
  then show ?case using Cons by (auto simp: weight_vector_def)
qed simp

lemma positive_allocates:
  assumes "distinct chosen" "length ws = length chosen" "weight_vector ws" "(\<Sum>w\<leftarrow>ws. fval w) = 1"
  shows "allocates chosen (positive_members chosen ws)"
proof -
  have "fin w \<and> 0 < fval w" if "(a, w) \<in> set (zip chosen ws)" "w > 0" for a w
    using that assms(3) set_zip_rightD [of a w] by (auto simp: weight_vector_def list_all_iff fin_less)
  moreover have "set (mkeys (filter (\<lambda>(_, w). w > 0) (zip chosen ws))) \<subseteq> set chosen" by (auto dest: set_zip_leftD)
  ultimately show ?thesis unfolding allocates_def positive_members_eq [OF assms(1,2)] positive_sum [OF assms(3,2)]
    using assms by (auto simp: list_all_iff distinct_map_filter)
qed

lemma weight_vector_sum:
  assumes "weight_vector vs"
  shows "sum_list vs = Fin (\<Sum>v\<leftarrow>vs. fval v)" "0 \<le> (\<Sum>v\<leftarrow>vs. fval v)"
  using assms by (induction vs) (auto simp: weight_vector_def fin_iff)

text \<open>Division by the sum gives weights that sum to one.\<close>

lemma normalized:
  assumes "weight_vector vs" "\<not> feq (sum_list vs) 0"
  shows "weight_vector (map (\<lambda>v. v / sum_list vs) vs)" "(\<Sum>w\<leftarrow>map (\<lambda>v. v / sum_list vs) vs. fval w) = 1"
proof -
  note s = weight_vector_sum [OF assms(1)]
  define S where "S = (\<Sum>v\<leftarrow>vs. fval v)"
  have S: "sum_list vs = Fin S" "0 < S" using s assms(2) by (auto simp: S_def feq_def)
  have e: "v / sum_list vs = Fin (fval v / S)" if "v \<in> set vs" for v
    using that assms(1) S by (auto simp: weight_vector_def list_all_iff fin_iff)
  then show "weight_vector (map (\<lambda>v. v / sum_list vs) vs)"
    using assms(1) S by (auto simp: weight_vector_def list_all_iff)
  have "(\<Sum>w\<leftarrow>map (\<lambda>v. v / sum_list vs) vs. fval w) = (\<Sum>v\<leftarrow>vs. fval v / S)"
    using e by (intro arg_cong [where f = sum_list]) simp
  also have "\<dots> = 1" using S(2) by (simp add: divide_inverse sum_list_mult_const flip: S_def)
  finally show "(\<Sum>w\<leftarrow>map (\<lambda>v. v / sum_list vs) vs. fval w) = 1" .
qed

lemma normalized_allocates:
  assumes "distinct chosen" "length vs = length chosen" "weight_vector vs" "\<not> feq (sum_list vs) 0"
  shows "allocates chosen (positive_members chosen (map (\<lambda>v. v / sum_list vs) vs))"
  using assms(1,2) normalized [OF assms(3,4)] by (intro positive_allocates) simp_all

lemma proportional_allocates:
  assumes "distinct chosen" "length vs = length chosen" "weight_vector vs" "total' = sum_list vs"
  shows "allocates chosen (proportional chosen vs total')"
proof (cases "chosen = []")
  case True
  then show ?thesis by (simp add: proportional_def allocates_def positive_members_def)
next
  case False
  then show ?thesis using assms equal_allocates normalized_allocates by (simp add: proportional_def)
qed

lemma counted_weights:
  assumes "list_all (\<lambda>v. v \<noteq> PInf) vs"
  shows "weight_vector (map counted vs)" "counted_sum vs = sum_list (map counted vs)"
proof -
  have c: "fin (counted v) \<and> 0 \<le> fval (counted v)" if "v \<noteq> PInf" for v using that by (cases v) (auto simp: counted_def)
  then show "weight_vector (map counted vs)" using assms by (auto simp: weight_vector_def list_all_iff)
  have "counted_sum vs = foldl (\<lambda>s v. s + counted v) 0 vs"
    unfolding counted_sum_def by (rule foldl_cong) (auto simp: counted_def)
  then show "counted_sum vs = sum_list (map counted vs)" by (simp add: foldl_add_map)
qed

lemma plan_loop_ok:
  assumes "\<And>t. t \<in> set (df_times df) \<Longrightarrow> \<exists>m. members t = Some m \<and> allocates (CollectSelected df t) m"
  shows "\<exists>plan. plan_loop members (df_times df) = Some plan \<and> plan_for df plan"
proof -
  obtain h where h: "\<And>t. t \<in> set (df_times df) \<Longrightarrow> members t = Some (h t) \<and> allocates (CollectSelected df t) (h t)"
    using assms by metis
  then have "plan_loop members (df_times df) = Some (map (\<lambda>t. \<lparr>al_Date = t, al_Members = h t, al_Justification = []\<rparr>) (df_times df))"
    unfolding plan_loop_def by (intro those_map_Some) simp
  then show ?thesis using h by (auto simp: plan_for_def o_def list_all_iff)
qed

lemma selected_same:
  "filter (\<lambda>a. df_ValueAt df a Selected t > 0) (df_assets df) = CollectSelected df t"
  "filter (\<lambda>a. let sel = df_ValueAt df a Selected t in \<not> (sel \<le> 0 \<or> isNaN sel)) (df_assets df) = CollectSelected df t"
proof -
  have "v > 0 \<longleftrightarrow> v > 0 \<and> \<not> isNaN v" "\<not> (v \<le> 0 \<or> isNaN v) \<longleftrightarrow> v > 0 \<and> \<not> isNaN v" for v :: f64 by (cases v; auto)+
  then show "filter (\<lambda>a. df_ValueAt df a Selected t > 0) (df_assets df) = CollectSelected df t"
    "filter (\<lambda>a. let sel = df_ValueAt df a Selected t in \<not> (sel \<le> 0 \<or> isNaN sel)) (df_assets df) = CollectSelected df t"
    by (simp_all add: CollectSelected_def Let_def)
qed

lemma CollectSelected_distinct: "distinct (df_assets df) \<Longrightarrow> distinct (CollectSelected df t)"
  by (simp add: CollectSelected_def)

lemma counted_allocates:
  assumes "distinct (df_assets df)" "\<And>a. raw a \<noteq> PInf"
  shows "allocates (CollectSelected df t) (proportional (CollectSelected df t)
    (map counted (map raw (CollectSelected df t))) (counted_sum (map raw (CollectSelected df t))))"
  by (intro proportional_allocates counted_weights CollectSelected_distinct assms(1))
     (simp_all add: list_all_iff assms(2))

lemma EqualWeight_plan:
  assumes "HasSelectedColumn df" "distinct (df_assets df)"
  shows "\<exists>plan. EqualWeight df = Some (Inr plan) \<and> plan_for df plan"
proof -
  obtain plan where "plan_loop (\<lambda>t. Some (equalWeightMembers (CollectSelected df t))) (df_times df) = Some plan" "plan_for df plan"
    using plan_loop_ok [of df "\<lambda>t. Some (equalWeightMembers (CollectSelected df t))"] equal_allocates CollectSelected_distinct assms(2) by auto
  then show ?thesis using assms(1) unfolding EqualWeight_def selected_same Let_def HasSelectedColumn_def by simp
qed

lemma WeightedBySignal_plan:
  assumes "HasSelectedColumn df" "distinct (df_assets df)" "\<And>a t. df_ValueAt df a metric t \<noteq> PInf"
  shows "\<exists>plan. WeightedBySignal metric df = Some (Inr plan) \<and> plan_for df plan"
proof -
  let ?m = "\<lambda>t. Some (proportional (CollectSelected df t) (map counted (map (\<lambda>a. df_ValueAt df a metric t) (CollectSelected df t)))
      (counted_sum (map (\<lambda>a. df_ValueAt df a metric t) (CollectSelected df t))))"
  have "\<exists>plan. plan_loop ?m (df_times df) = Some plan \<and> plan_for df plan"
    by (rule plan_loop_ok, rule exI, rule conjI, rule refl, rule counted_allocates [OF assms(2,3)])
  then show ?thesis using assms(1) unfolding WeightedBySignal_def selected_same HasSelectedColumn_def unfolding Let_def by auto
qed

lemma MarketCapWeighted_plan:
  assumes "HasSelectedColumn df" "distinct (df_assets df)" "ensureMarketCap source df (df_assets df) = Inr mcapDF"
    "\<And>a t. df_ValueAt mcapDF a MarketCap t \<noteq> PInf"
  shows "\<exists>plan. MarketCapWeighted source df = Some (Inr plan) \<and> plan_for df plan"
proof -
  let ?m = "\<lambda>t. Some (proportional (CollectSelected df t) (map counted (map (\<lambda>a. df_ValueAt mcapDF a MarketCap t) (CollectSelected df t)))
      (counted_sum (map (\<lambda>a. df_ValueAt mcapDF a MarketCap t) (CollectSelected df t))))"
  have "\<exists>plan. plan_loop ?m (df_times df) = Some plan \<and> plan_for df plan"
    by (rule plan_loop_ok, rule exI, rule conjI, rule refl, rule counted_allocates [OF assms(2,4)])
  then show ?thesis using assms(1,3) unfolding MarketCapWeighted_def Let_def by auto
qed

section \<open>Rules over trailing returns\<close>

text \<open>A frame of returns: every return that is there is finite.\<close>

definition returns_ok :: "dataframe \<Rightarrow> bool" where
  "returns_ok r \<longleftrightarrow> (\<forall>a t. isNaN (df_ValueAt r a AdjClose t) \<or> fin (df_ValueAt r a AdjClose t))"

definition prices_ok :: "dataframe \<Rightarrow> bool" where
  "prices_ok df \<longleftrightarrow> df_wf df \<and> (\<forall>a col. df_Column df a AdjClose = Some col \<longrightarrow> list_all (\<lambda>v. isNaN v \<or> fin v \<and> 0 < fval v) col)"

lemma Between_column:
  assumes "df_wf df" "df_err df = None" "Between s e df = Some r"
  shows "df_wf r" "df_err r = None" "df_Column r a m = Some col \<Longrightarrow> \<exists>c. df_Column df a m = Some c \<and> set col \<subseteq> set c"
proof -
  have w: "df_wf (with_dates df)" "df_err (with_dates df) = None" using assms by simp_all
  from assms(2,3) have "r = df_zero \<or> (\<exists>i j. r = time_slice i j (with_dates df))"
    by (auto simp: Between_def Let_def empty_frame_eq simp flip: with_dates_def split: if_splits dest!: sliceByTimeIndices_Some [OF w])
  then consider "r = df_zero" | i j where "r = time_slice i j (with_dates df)" by blast
  then have "df_wf r \<and> df_err r = None \<and> (df_Column r a m = Some col \<longrightarrow> (\<exists>c. df_Column df a m = Some c \<and> set col \<subseteq> set c))"
  proof cases
    case 1
    then show ?thesis by (simp add: df_Column_def df_zero_def df_wf_def mk_assetIndex_def)
  next
    case (2 i j)
    then have "df_Column r a m = map_option (slice i j) (df_Column df a m)"
      by (intro df_Column_map [OF assms(1,2)]) (simp_all add: time_slice_def assms(2))
    moreover have "set (slice i j c) \<subseteq> set c" for c :: "f64 list"
      by (auto simp: slice_def dest: in_set_takeD in_set_dropD)
    ultimately show ?thesis using 2 w time_slice_wf [OF w(1)] by (auto simp: time_slice_def)
  qed
  then show "df_wf r" "df_err r = None" "df_Column r a m = Some col \<Longrightarrow> \<exists>c. df_Column df a m = Some c \<and> set col \<subseteq> set c" by blast+
qed

lemma pct_entry:
  assumes "list_all (\<lambda>v. isNaN v \<or> fin v \<and> 0 < fval v) c" "pct_column 1 c = Some p" "v \<in> set p"
  shows "isNaN v \<or> fin v"
proof -
  have pair: "isNaN ((x - y) / y) \<or> fin ((x - y) / y)" if "isNaN x \<or> fin x \<and> 0 < fval x" "isNaN y \<or> fin y \<and> 0 < fval y" for x y :: f64
    using that by (cases x; cases y) auto
  define g where "g = (\<lambda>i. if i < 1 then NaN else (c ! i - c ! (i - 1)) / c ! (i - 1))"
  have "p = map g [0..<length c]" using assms(2) by (auto simp: pct_column_def g_def)
  with assms(3) obtain i where i: "i < length c" "v = g i" by auto
  note i = i [unfolded g_def]
  show ?thesis
  proof (cases "i < 1")
    case False
    then have "isNaN (c ! i) \<or> fin (c ! i) \<and> 0 < fval (c ! i)" "isNaN (c ! (i - 1)) \<or> fin (c ! (i - 1)) \<and> 0 < fval (c ! (i - 1))"
      using assms(1) i(1) by (auto simp: list_all_length)
    then show ?thesis using pair i(2) False by simp
  qed (simp add: i)
qed

lemma trailing_returns_ok:
  assumes "prices_ok priceDF"
  shows "\<exists>r. trailing_returns priceDF lookback t = Some r \<and> returns_ok r"
proof (cases "df_err priceDF")
  case (Some e)
  then show ?thesis by (simp add: trailing_returns_def Between_def df_Pct_def WithErr_def returns_ok_def df_ValueAt_def)
next
  case None
  have wf: "df_wf priceDF" using assms by (simp add: prices_ok_def)
  obtain b where b: "Between (Period_Before lookback t) t priceDF = Some b"
    using Between_yields [OF wf] by (auto simp: yields_def)
  note bw = Between_column [OF wf None b]
  have h: "\<And>c. length c = length (df_times b) \<Longrightarrow> pct_column 1 c = Some (the (pct_column 1 c)) \<and> length (the (pct_column 1 c)) = length c"
    by (simp add: pct_column_def)
  obtain r where r: "df_Apply (pct_column 1) b = Some r" "df_wf r" using df_Apply_eq [OF bw(1,2) h] by blast
  have "isNaN (df_ValueAt r a AdjClose t') \<or> fin (df_ValueAt r a AdjClose t')" for a t'
  proof (cases "df_Column r a AdjClose")
    case (Some col)
    then obtain c0 where c0: "df_Column b a AdjClose = Some c0" "col = the (pct_column 1 c0)"
      using df_Apply_column [OF bw(1,2) r(1) h, of a AdjClose] by auto
    obtain c1 where c1: "df_Column priceDF a AdjClose = Some c1" "set c0 \<subseteq> set c1" using bw(3) [OF c0(1)] by blast
    have "list_all (\<lambda>v. isNaN v \<or> fin v \<and> 0 < fval v) c0"
      using assms c1 by (auto simp: prices_ok_def list_all_iff)
    then have ent: "v \<in> set col \<Longrightarrow> isNaN v \<or> fin v" for v
      using pct_entry [of c0 col v] c0(2) by (simp add: pct_column_def)
    have "length col = length (df_times r)" using df_Column_length [OF r(2) Some] .
    then show ?thesis using ent nth_mem [of _ col] timeIndex_bound [OF r(2)]
      by (auto simp: df_ValueAt_Column Some split: option.splits)
  qed (simp add: df_ValueAt_Column)
  then show ?thesis using b r bw(2) by (auto simp: trailing_returns_def df_Pct_def returns_ok_def)
qed

locale trailing_rule =
  fixes rule :: "dataframe \<Rightarrow> asset list \<Rightarrow> (asset, f64) gomap"
  assumes rule_allocates: "returns_ok r \<Longrightarrow> distinct chosen \<Longrightarrow> 2 \<le> length chosen \<Longrightarrow> allocates chosen (rule r chosen)"
begin

lemma invests:
  assumes "HasSelectedColumn df" "distinct (df_assets df)" "ensureMetric source df (df_assets df) (defaultLookback lookback) AdjClose = Inr priceDF"
    "prices_ok priceDF"
  shows "\<exists>plan. trailing_plan name rule source df lookback = Some (Inr plan) \<and> plan_for df plan"
proof -
  let ?m = "\<lambda>t. let chosen = CollectSelected df t in
      if length chosen \<le> 1 then Some (equalWeightMembers chosen)
      else map_option (\<lambda>returns. rule returns chosen) (trailing_returns priceDF (defaultLookback lookback) t)"
  have "\<exists>m. ?m t = Some m \<and> allocates (CollectSelected df t) m" for t
    using trailing_returns_ok [OF assms(4), of "defaultLookback lookback" t] rule_allocates [of _ "CollectSelected df t"]
      equal_allocates CollectSelected_distinct [OF assms(2)] by (auto simp: Let_def)
  then obtain plan where "plan_loop ?m (df_times df) = Some plan" "plan_for df plan" using plan_loop_ok [of df ?m] by blast
  then show ?thesis using assms(1,3) unfolding trailing_plan_def Let_def by simp
qed

end

lemma nanSafeStd_fin:
  assumes "returns_ok r"
  shows "fin (nanSafeStd r a AdjClose)" "0 \<le> fval (nanSafeStd r a AdjClose)"
proof -
  define vs where "vs = filter (\<lambda>v. \<not> isNaN v) (map (df_ValueAt r a AdjClose) (df_times r))"
  have vs: "\<And>v. v \<in> set vs \<Longrightarrow> fin v" using assms by (auto simp: vs_def returns_ok_def)
  have "fin (nanSafeStd r a AdjClose) \<and> 0 \<le> fval (nanSafeStd r a AdjClose)"
  proof (cases "length vs < 2")
    case False
    define mean where "mean = foldl (+) 0 vs / Fin (real (length vs))"
    have m: "fin mean" using False vs fin_sum_list [of vs] by (auto simp: mean_def)
    define sq where "sq = map (\<lambda>v. (v - mean) * (v - mean)) vs"
    have sq: "fin x \<and> 0 \<le> fval x" if "x \<in> set sq" for x using that vs m by (auto simp: sq_def)
    have "foldl (\<lambda>s v. s + (v - mean) * (v - mean)) 0 vs = sum_list sq" by (simp add: foldl_add_map sq_def)
    moreover have "weight_vector sq" using sq by (simp add: weight_vector_def list_all_iff)
    ultimately have "nanSafeStd r a AdjClose = sqrtF (Fin (\<Sum>v\<leftarrow>sq. fval v) / Fin (real (length vs - 1)))" "0 \<le> (\<Sum>v\<leftarrow>sq. fval v)"
      using False weight_vector_sum [of sq] unfolding nanSafeStd_def Let_def vs_def [symmetric] mean_def [symmetric] by auto
    then show ?thesis using False by (auto simp: not_less)
  qed (simp add: nanSafeStd_def flip: vs_def)
  then show "fin (nanSafeStd r a AdjClose)" "0 \<le> fval (nanSafeStd r a AdjClose)" by simp_all
qed

interpretation iv: trailing_rule inverse_vol_rule
proof
  fix r and chosen :: "asset list"
  assume r: "returns_ok r" and d: "distinct chosen" "2 \<le> length chosen"
  define vols where "vols = map (\<lambda>a. nanSafeStd r a AdjClose) chosen"
  define inv where "inv = map (\<lambda>vol. if vol \<le> 0 then 0 else 1 / vol) vols"
  have "fin v \<and> 0 \<le> fval v" if "v \<in> set inv" for v
    using that nanSafeStd_fin [OF r] by (auto simp: inv_def vols_def fin_less_eq)
  then have w: "weight_vector inv" by (simp add: weight_vector_def list_all_iff)
  have "foldl (\<lambda>s vol. if vol \<le> 0 then s else s + 1 / vol) 0 vols = foldl (\<lambda>s vol. s + (if vol \<le> 0 then 0 else 1 / vol)) 0 vols"
    by (rule foldl_cong) auto
  then have "foldl (\<lambda>s vol. if vol \<le> 0 then s else s + 1 / vol) 0 vols = sum_list inv" by (simp add: foldl_add_map inv_def)
  then have "inverse_vol_rule r chosen = (if feq (sum_list inv) 0 then equalWeightMembers chosen
      else positive_members chosen (map (\<lambda>v. v / sum_list inv) inv))"
    by (simp add: inverse_vol_rule_def Let_def inv_def vols_def)
  then show "allocates chosen (inverse_vol_rule r chosen)"
    using equal_allocates [OF d(1)] normalized_allocates [OF d(1) _ w] by (simp add: inv_def vols_def)
qed


text \<open>Covariances of finite returns are finite.\<close>

lemma return_series_fin: "returns_ok r \<Longrightarrow> x \<in> set (return_series r a) \<Longrightarrow> fin x"
  by (auto simp: return_series_def returns_ok_def Let_def)

lemma fin_foldl: "fin z \<Longrightarrow> (\<And>x. x \<in> set xs \<Longrightarrow> fin (f x)) \<Longrightarrow> fin (foldl (\<lambda>s x. s + f x) z xs)"
  by (induction xs arbitrary: z) simp_all

lemma sampleCovariance_fin:
  assumes "\<And>x. x \<in> set xs \<Longrightarrow> fin x" "\<And>y. y \<in> set ys \<Longrightarrow> fin y"
  shows "fin (sampleCovariance xs ys)"
proof (cases "length xs < 2")
  case False
  have m: "fin (sum_list zs / Fin (real (length xs)))" if "\<And>x. x \<in> set zs \<Longrightarrow> fin x" for zs
    using that fin_sum_list [of zs] False by auto
  define mx my where "mx = sum_list xs / Fin (real (length xs))" and "my = sum_list ys / Fin (real (length xs))"
  have mf: "fin mx" "fin my" using m [of xs, OF assms(1)] m [of ys, OF assms(2)] by (simp_all add: mx_def my_def)
  have "fin ((fst p - mx) * (snd p - my))" if p: "p \<in> set (zip xs ys)" for p
    using assms(1) [of "fst p"] assms(2) [of "snd p"] set_zip_leftD [of "fst p" "snd p" xs ys] set_zip_rightD [of "fst p" "snd p" xs ys] p mf by simp
  then have "fin (foldl (\<lambda>cov p. cov + (fst p - mx) * (snd p - my)) (Fin 0) (zip xs ys))" by (intro fin_foldl) simp_all
  then show ?thesis using False by (auto simp: sampleCovariance_def Let_def case_prod_unfold mx_def my_def)
qed (simp add: sampleCovariance_def)

definition fin_matrix :: "nat \<Rightarrow> f64 list \<Rightarrow> bool" where
  "fin_matrix n c \<longleftrightarrow> length c = n * n \<and> list_all fin c"

lemma fin_matrix_at: "fin_matrix n c \<Longrightarrow> i < n \<Longrightarrow> j < n \<Longrightarrow> fin (c ! (i * n + j))"
  using grid_index_bound [of i n j n] by (auto simp: fin_matrix_def list_all_length)

lemma computeCovMatrix_fin:
  assumes "returns_ok r" "computeCovMatrix r chosen = Some c"
  shows "fin_matrix (length chosen) c"
  using assms return_series_fin [OF assms(1)]
  by (auto simp: computeCovMatrix_def fin_matrix_def list_all_iff length_concat o_def sum_list_triv split: if_splits
      intro!: sampleCovariance_fin)

lemma matVecMul_fin:
  assumes "fin_matrix n c" "length v = n" "list_all fin v"
  shows "length (matVecMul c v n) = n" "list_all fin (matVecMul c v n)"
  using assms fin_matrix_at [OF assms(1)] by (auto simp: matVecMul_def list_all_length intro!: fin_foldl)

lemma quadForm_fin:
  assumes "fin_matrix n c" "length v = n" "list_all fin v"
  shows "fin (quadForm c v n)"
proof -
  have "fin (foldl (\<lambda>s i. foldl (\<lambda>s j. s + v ! i * c ! (i * n + j) * v ! j) s [0..<n]) z is)"
    if "fin z" "\<forall>i\<in>set is. i < n" for z "is"
    using that
  proof (induction "is" arbitrary: z)
    case (Cons i "is")
    have "fin (foldl (\<lambda>s j. s + v ! i * c ! (i * n + j) * v ! j) z [0..<n])"
      using Cons.prems assms fin_matrix_at [OF assms(1)] by (intro fin_foldl) (auto simp: list_all_length)
    then show ?case using Cons by simp
  qed simp
  from this [of "Fin 0" "[0..<n]"] show ?thesis by (simp add: quadForm_def)
qed

interpretation fast: trailing_rule fast_rule
proof
  fix r and chosen :: "asset list"
  assume r: "returns_ok r" and d: "distinct chosen" "2 \<le> length chosen"
  define vols where "vols = map (\<lambda>a. let vol = nanSafeStd r a AdjClose in if vol \<le> 0 then 0 else vol) chosen"
  have "allocates chosen m" if m: "riskParityFastWeights r chosen = Some m" for m
  proof -
    obtain c where c: "computeCovMatrix r chosen = Some c" "fast_weights r chosen vols c = Some m"
      using m by (auto simp: riskParityFastWeights_def vols_def Let_def split: if_splits option.splits)
    note cf = computeCovMatrix_fin [OF r c(1)]
    define ws where "ws = map (\<lambda>vol. if vol > 0 then 1 / vol else 0) vols"
    have "fin v \<and> 0 \<le> fval v" if "v \<in> set ws" for v
      using that nanSafeStd_fin [OF r] by (auto simp: ws_def vols_def fin_less Let_def)
    then have w: "weight_vector ws" "list_all fin ws" by (simp_all add: weight_vector_def list_all_iff)
    have l: "length ws = length chosen" by (simp add: ws_def vols_def)
    note mv = matVecMul_fin [OF cf l w(2)]
    define adj where "adj = map (\<lambda>(w, r). if r > 0 then w / r else 0) (zip ws (matVecMul c ws (length chosen)))"
    have "fin v \<and> 0 \<le> fval v" if v: "v \<in> set adj" for v
    proof -
      obtain p where p: "p \<in> set (zip ws (matVecMul c ws (length chosen)))" "v = (\<lambda>(w, r). if r > 0 then w / r else 0) p"
        using v unfolding adj_def set_map by (elim imageE) auto
      obtain x y where xy: "p = (x, y)" by force
      have "x \<in> set ws" "y \<in> set (matVecMul c ws (length chosen))" using p(1) xy by (auto dest: set_zip_leftD set_zip_rightD)
      then obtain a b where "x = Fin a" "0 \<le> a" "y = Fin b" using weight_vectorD [OF w(1)] all_finD [OF mv(2)] by blast
      then show ?thesis using p(2) xy by auto
    qed
    then have "weight_vector adj" by (simp add: weight_vector_def list_all_iff)
    moreover have "length adj = length chosen" using l mv(1) by (simp add: adj_def)
    moreover have "\<not> feq (sum_list adj) 0 \<and> m = positive_members chosen (map (\<lambda>w. w / sum_list adj) adj)"
      using c(2) by (simp add: fast_weights_def Let_def ws_def adj_def split: if_splits)
    ultimately show ?thesis using normalized_allocates [OF d(1)] by simp
  qed
  then show "allocates chosen (fast_rule r chosen)"
    using equal_allocates [OF d(1)] by (auto simp: fast_rule_def split: option.split)
qed

section \<open>Risk parity\<close>

text \<open>Every vector the solver keeps is a vector of weights that sum to one.\<close>

definition simplex :: "nat \<Rightarrow> f64 list \<Rightarrow> bool" where
  "simplex n ws \<longleftrightarrow> length ws = n \<and> weight_vector ws \<and> (\<Sum>w\<leftarrow>ws. fval w) = 1"

lemma simplex_fin: "simplex n ws \<Longrightarrow> length ws = n \<and> list_all fin ws"
  by (simp add: simplex_def weight_vector_def list_all_iff)

lemma contributions_fin:
  assumes "fin_matrix n c" "simplex n ws" "\<not> quadForm c ws n \<le> 0"
  shows "length (risk_contributions c ws n) = n" "list_all fin (risk_contributions c ws n)"
proof -
  note f = simplex_fin [OF assms(2)]
  have q: "fin (quadForm c ws n)" "fval (quadForm c ws n) \<noteq> 0"
    using quadForm_fin [OF assms(1)] f assms(3) by (auto simp: fin_less_eq)
  have mv: "length (matVecMul c ws n) = n" "list_all fin (matVecMul c ws n)" using matVecMul_fin [OF assms(1)] f by auto
  show "length (risk_contributions c ws n) = n" "list_all fin (risk_contributions c ws n)"
    using q mv f by (auto simp: risk_contributions_def Let_def list_all_length)
qed

lemma parity_step_ok:
  assumes "weight_vector ws" "list_all fin rcs" "length rcs = length ws" "0 < n"
  shows "weight_vector (parity_step (1 / Fin (real n)) ws rcs)" "length (parity_step (1 / Fin (real n)) ws rcs) = length ws"
proof -
  have "fin v \<and> 0 \<le> fval v" if v: "v \<in> set (parity_step (1 / Fin (real n)) ws rcs)" for v
  proof -
    obtain w rc where p: "(w, rc) \<in> set (zip ws rcs)"
      "v = (let v = (if rc > 0 then w * sqrtF (1 / Fin (real n) / rc) else w) in if v < 0 then 0 else v)"
      using v by (auto simp: parity_step_def)
    obtain x y where xy: "w = Fin x" "0 \<le> x" "rc = Fin y"
      using weight_vectorD [OF assms(1) set_zip_leftD [OF p(1)]] all_finD [OF assms(2) set_zip_rightD [OF p(1)]] by blast
    show ?thesis using p(2) assms(4) xy by (auto simp: Let_def mult_less_0_iff)
  qed
  then show "weight_vector (parity_step (1 / Fin (real n)) ws rcs)" by (simp add: weight_vector_def list_all_iff)
  show "length (parity_step (1 / Fin (real n)) ws rcs) = length ws" using assms(3) by (simp add: parity_step_def)
qed

lemma contribution_error_bound:
  assumes "list_all fin rcs" "fin target"
  shows "contribution_error target rcs < e \<Longrightarrow> rc \<in> set rcs \<Longrightarrow> absF (rc - target) < e"
proof -
  have "fin z \<Longrightarrow> list_all fin rcs \<Longrightarrow>
      (let m = foldl (\<lambda>maxErr rc. let errVal = absF (rc - target) in if errVal > maxErr then errVal else maxErr) z rcs
       in fin m \<and> fval z \<le> fval m \<and> (\<forall>rc\<in>set rcs. \<bar>fval rc - fval target\<bar> \<le> fval m))" for z
  proof (induction rcs arbitrary: z)
    case (Cons rc rcs)
    have f: "fin (absF (rc - target))" "fval (absF (rc - target)) = \<bar>fval rc - fval target\<bar>" using Cons.prems assms(2) by (auto simp: fin_iff)
    define z' where "z' = (if absF (rc - target) > z then absF (rc - target) else z)"
    have z': "fin z'" "fval z \<le> fval z'" "\<bar>fval rc - fval target\<bar> \<le> fval z'"
      using f Cons.prems(1) by (auto simp: z'_def fin_less)
    have "list_all fin rcs" using Cons.prems by simp
    from Cons.IH [OF z'(1) this] show ?case using z' by (auto simp: Let_def z'_def intro: order_trans)
  qed (simp add: Let_def)
  from this [of "Fin 0", OF _ assms(1)] have b: "fin (contribution_error target rcs)"
    "\<forall>rc\<in>set rcs. \<bar>fval rc - fval target\<bar> \<le> fval (contribution_error target rcs)"
    by (simp_all add: contribution_error_def Let_def)
  assume "contribution_error target rcs < e" and rc: "rc \<in> set rcs"
  then show "absF (rc - target) < e"
    using b assms(2) all_finD [OF assms(1) rc] by (cases e) (auto simp: fin_iff)
qed

lemma parity_loop_ok:
  assumes "fin_matrix n c" "0 < n"
  shows "simplex n ws \<Longrightarrow> simplex n best \<Longrightarrow> parity_loop k c n ws best bestError = (Some res, conv) \<Longrightarrow>
    simplex n res \<and> (conv \<longrightarrow> \<not> quadForm c res n \<le> 0 \<and>
       (\<forall>rc\<in>set (risk_contributions c res n). absF (rc - 1 / Fin (real n)) < riskParityTolerance))"
proof (induction k arbitrary: ws best bestError)
  case (Suc k)
  define target where "target = 1 / Fin (real n)"
  define rcs where "rcs = risk_contributions c ws n"
  define maxErr where "maxErr = contribution_error target rcs"
  have q: "\<not> quadForm c ws n \<le> 0" using Suc.prems(3) by (auto simp: Let_def split: if_splits)
  note rf = contributions_fin [OF assms(1) Suc.prems(1) q, folded rcs_def]
  show ?case
  proof (cases "maxErr < riskParityTolerance")
    case True
    then have "res = ws" "conv" using Suc.prems(3) q
      by (auto simp: Let_def maxErr_def rcs_def target_def split: if_splits prod.splits)
    moreover have "absF (rc - target) < riskParityTolerance" if "rc \<in> set rcs" for rc
      using contribution_error_bound [OF rf(2) _ True [unfolded maxErr_def] that] assms(2) by (simp add: target_def)
    ultimately show ?thesis using Suc.prems(1) q by (simp add: rcs_def target_def)
  next
    case False
    define nw where "nw = parity_step target ws rcs"
    define ws' where "ws' = map (\<lambda>w. w / sum_list nw) nw"
    obtain best' err' where be: "(best', err') = (if maxErr < bestError then (ws, maxErr) else (best, bestError))" by (metis surj_pair)
    have s: "simplex n best'" using be Suc.prems(1,2) by (auto split: if_splits)
    have step: "\<not> sum_list nw \<le> 0" "parity_loop k c n ws' best' err' = (Some res, conv)"
      using Suc.prems(3) q False be
      by (simp_all add: Let_def maxErr_def rcs_def target_def nw_def ws'_def split: if_splits prod.splits)
    have "length rcs = length ws" "weight_vector ws" "length ws = n" using rf Suc.prems(1) by (simp_all add: simplex_def)
    note nw = parity_step_ok [OF this(2) rf(2) this(1) assms(2), folded target_def nw_def]
    have "\<not> feq (sum_list nw) 0" using step(1) weight_vector_sum [OF nw(1)] by (auto simp: feq_def)
    then have "simplex n ws'" using normalized [OF nw(1)] nw(2) Suc.prems(1) by (simp add: simplex_def ws'_def)
    from Suc.IH [OF this s step(2)] show ?thesis .
  qed
qed simp

lemma solveRiskParity_ok:
  assumes "fin_matrix n c" "0 < n" "solveRiskParity c n = (Some ws, conv)"
  shows "simplex n ws" "conv \<Longrightarrow> \<not> quadForm c ws n \<le> 0" "conv \<Longrightarrow> rc \<in> set (risk_contributions c ws n) \<Longrightarrow> absF (rc - 1 / Fin (real n)) < riskParityTolerance"
proof -
  have "simplex n (replicate n (1 / Fin (real n)))"
    using assms(2) by (auto simp: simplex_def weight_vector_def list_all_iff sum_list_replicate)
  from parity_loop_ok [OF assms(1,2) this this] assms(3)
  show "simplex n ws" "conv \<Longrightarrow> \<not> quadForm c ws n \<le> 0" "conv \<Longrightarrow> rc \<in> set (risk_contributions c ws n) \<Longrightarrow> absF (rc - 1 / Fin (real n)) < riskParityTolerance"
    unfolding solveRiskParity_def Let_def by blast+
qed

interpretation rp: trailing_rule parity_rule
proof
  fix r and chosen :: "asset list"
  assume r: "returns_ok r" and d: "distinct chosen" "2 \<le> length chosen"
  have "allocates chosen (positive_members chosen ws)"
    if c: "computeCovMatrix r chosen = Some c" "fst (solveRiskParity c (length chosen)) = Some ws" for c ws
  proof -
    have "simplex (length chosen) ws"
      using solveRiskParity_ok(1) [OF computeCovMatrix_fin [OF r c(1)], of ws] c(2) d(2) by (metis Suc_le_lessD gr_zeroI not_less_eq_eq numeral_2_eq_2 prod.collapse zero_le)
    then show ?thesis using d(1) by (intro positive_allocates) (simp_all add: simplex_def)
  qed
  then show "allocates chosen (parity_rule r chosen)"
    using equal_allocates [OF d(1)] by (auto simp: parity_rule_def Let_def split: option.split)
qed


section \<open>What the selectors pick\<close>

lemma mget_empty_sel:
  assumes "f \<in> CompositeFigi ` set assets"
  shows "mget [] (empty_sel assets n) f = replicate n 0"
proof -
  define z where "z = replicate n (0 :: f64)"
  have "mget [] (foldl (\<lambda>m a. mput (CompositeFigi a) z m) m as) f = (if f \<in> CompositeFigi ` set as then z else mget [] m f)" for m as
    by (induction as arbitrary: m) auto
  from this [of "[]" assets] show ?thesis using assms unfolding empty_sel_def z_def by (simp del: zero_f64_Fin)
qed

text \<open>The columns after all rows have been marked: entry \<open>i\<close> is set exactly for the identifiers marked in row \<open>i\<close>.\<close>

definition marked_row :: "(nat \<times> 'a \<Rightarrow> string list) \<Rightarrow> sel_cols \<Rightarrow> nat \<times> 'a \<Rightarrow> sel_cols" where
  "marked_row figis cols row = foldl (mark_row (fst row)) cols (figis row)"

lemma mget_mark: "mget [] (mark_row i cols f) g = (if g = f then (mget [] cols f)[i := 1] else mget [] cols g)"
  by (simp add: mark_row_def)

lemma mget_marks:
  "mget [] (foldl (mark_row i) cols fs) g = (if g \<in> set fs then (mget [] cols g)[i := 1] else mget [] cols g)"
  by (induction fs arbitrary: cols) (auto simp: mget_mark)

lemma marked_rows_length:
  "length (mget [] (foldl (marked_row figis) cols rows) g) = length (mget [] cols g)"
  by (induction rows arbitrary: cols) (simp_all add: marked_row_def mget_marks)

lemma marked_rows:
  assumes "i < length (mget [] cols g)"
  shows "mget [] (foldl (marked_row figis) cols (enumerate k xs)) g ! i
       = (if k \<le> i \<and> i < k + length xs \<and> g \<in> set (figis (i, xs ! (i - k))) then 1 else mget [] cols g ! i)"
  using assms
proof (induction xs arbitrary: k cols)
  case (Cons x xs)
  define c where "c = marked_row figis cols (k, x)"
  have len: "i < length (mget [] c g)" using Cons.prems by (simp add: c_def marked_row_def mget_marks)
  have c: "mget [] c g ! i = (if i = k \<and> g \<in> set (figis (k, x)) then 1 else mget [] cols g ! i)"
    using Cons.prems by (simp add: c_def marked_row_def mget_marks nth_list_update del: one_f64_Fin)
  have "mget [] (foldl (marked_row figis) cols (enumerate k (x # xs))) g ! i
      = mget [] (foldl (marked_row figis) c (enumerate (Suc k) xs)) g ! i" by (simp add: c_def)
  also have "\<dots> = (if Suc k \<le> i \<and> i < Suc k + length xs \<and> g \<in> set (figis (i, xs ! (i - Suc k))) then 1 else mget [] c g ! i)"
    by (rule Cons.IH [OF len])
  finally show ?case using c by (cases "i = k") (auto simp: nth_Cons' Suc_le_eq simp del: one_f64_Fin)
qed auto

lemma df_Insert_known:
  assumes "df_wf df" "df_err df = None" "a \<in> set (df_assets df)" "length vs = length (df_times df)"
  shows "\<exists>r. df_Insert a m vs df = Inr r \<and> df_assets r = df_assets df \<and> df_freq r = df_freq df"
  using df_Insert_eq [OF assms(1,2,4), of a m] assms(3) by (auto simp: all_assets_def)

text \<open>Writing one column of a metric for known assets.\<close>

lemma insert_columns:
  fixes m
  assumes "df_wf df" "df_err df = None" "set as \<subseteq> set (df_assets df)" "\<And>a. a \<in> set as \<Longrightarrow> length (f (CompositeFigi a)) = length (df_times df)"
  defines "r \<equiv> foldl (insert_logged m) df (map (\<lambda>a. (a, f (CompositeFigi a))) as)"
  shows "df_wf r \<and> df_err r = None \<and> df_times r = df_times df \<and> df_freq r = df_freq df \<and> df_assets r = df_assets df
    \<and> (\<forall>b\<in>set as. df_Column r b m = Some (f (CompositeFigi b)))"
  using assms(3,4) unfolding r_def
proof (induction as rule: rev_induct)
  case (snoc a as)
  define q where "q = foldl (insert_logged m) df (map (\<lambda>a. (a, f (CompositeFigi a))) as)"
  have ih: "df_wf q" "df_err q = None" "df_times q = df_times df" "df_freq q = df_freq df" "df_assets q = df_assets df"
    "\<forall>b\<in>set as. df_Column q b m = Some (f (CompositeFigi b))"
    using snoc by (auto simp: q_def)
  have l: "length (f (CompositeFigi a)) = length (df_times q)" using snoc.prems(2) ih(3) by simp
  obtain r where r: "df_Insert a m (f (CompositeFigi a)) q = Inr r" "df_assets r = df_assets df" "df_freq r = df_freq df"
    using df_Insert_known [OF ih(1,2) _ l, of a m] snoc.prems(1) ih(4,5) by auto
  note ins = df_Insert_column [OF ih(1) r(1)]
  have "df_Column r b m = Some (f (CompositeFigi b))" if b: "b \<in> set (as @ [a])" for b
  proof (cases "CompositeFigi b = CompositeFigi a")
    case False
    then have b': "df_Column q b m = Some (f (CompositeFigi b))" using b ih(6) by auto
    then have "df_has q b m" using df_Column_has [OF ih(1,2), of b m] by simp
    then show ?thesis using ins(6) [of b m] False b' by simp
  qed (simp add: ins(6))
  moreover have "insert_logged m q (a, f (CompositeFigi a)) = r" using r(1) by (simp add: insert_logged_def)
  ultimately show ?case using ins(3-5) r ih by (simp flip: q_def)
qed (simp add: assms)

lemma timeIndex_at: "df_wf df \<Longrightarrow> df_chrono df \<Longrightarrow> i < length (df_times df) \<Longrightarrow> timeIndex df (df_times df ! i) = Some i"
  using timeIndex_iff by simp

text \<open>The assets selected in a row are those marked in it.\<close>

lemma selected_marked:
  assumes "df_wf df" "df_err df = None" "df_chrono df" "i < length (df_times df)"
    "r = foldl (insert_logged Selected) df (map (\<lambda>a. (a, mget [] (foldl (marked_row figis) (empty_sel (df_assets df) (length (df_times df)))
       (enumerate 0 (df_times df))) (CompositeFigi a))) (df_assets df))"
  shows "set (CollectSelected r (df_times df ! i)) = {a \<in> set (df_assets df). CompositeFigi a \<in> set (figis (i, df_times df ! i))}"
proof -
  define f where "f = (\<lambda>g. mget [] (foldl (marked_row figis) (empty_sel (df_assets df) (length (df_times df))) (enumerate 0 (df_times df))) g)"
  have len: "length (f (CompositeFigi a)) = length (df_times df)" if "a \<in> set (df_assets df)" for a
    using that mget_empty_sel [of "CompositeFigi a" "df_assets df"] by (simp add: f_def marked_rows_length)
  have r: "df_wf r" "df_err r = None" "df_times r = df_times df" "df_freq r = df_freq df" "df_assets r = df_assets df"
    "\<And>b. b \<in> set (df_assets df) \<Longrightarrow> df_Column r b Selected = Some (f (CompositeFigi b))"
    using insert_columns [where f = f and as = "df_assets df" and m = Selected, OF assms(1,2) order_refl len] assms(5) by (auto simp: f_def)
  have "df_chrono r" using assms(3) r(3,4) by (simp add: df_chrono_def)
  then have ti: "timeIndex r (df_times df ! i) = Some i" using timeIndex_at [OF r(1)] assms(4) r(3) by simp
  have v: "df_ValueAt r a Selected (df_times df ! i) = (if CompositeFigi a \<in> set (figis (i, df_times df ! i)) then 1 else 0)"
    if a: "a \<in> set (df_assets df)" for a
  proof -
    have e: "mget [] (empty_sel (df_assets df) (length (df_times df))) (CompositeFigi a) = replicate (length (df_times df)) 0"
      by (rule mget_empty_sel) (use a in simp)
    have "f (CompositeFigi a) ! i = (if CompositeFigi a \<in> set (figis (i, df_times df ! i)) then 1 else 0)"
      using marked_rows [of i "empty_sel (df_assets df) (length (df_times df))" "CompositeFigi a" figis 0 "df_times df"] assms(4)
      by (simp add: f_def e)
    then show ?thesis using r(6) [OF a] ti by (simp add: df_ValueAt_Column)
  qed
  show ?thesis using v by (auto simp: CollectSelected_def r(5) Let_def split: if_splits)
qed

definition rank_value :: "topBottomN \<Rightarrow> dataframe \<Rightarrow> gotime \<Rightarrow> asset \<Rightarrow> real" where
  "rank_value tb df t a = (if tb_ascending tb then 1 else - 1) * fval (df_ValueAt df a (tb_metric tb) t)"

lemma ranked_at_facts:
  assumes "\<And>a. isNaN (df_ValueAt df a (tb_metric tb) t) \<or> fin (df_ValueAt df a (tb_metric tb) t)" "distinct (df_assets df)"
  shows "sorted_wrt (\<lambda>x y. rank_value tb df t x \<le> rank_value tb df t y) (map av_asset (ranked_at tb df t))"
    "distinct (map av_asset (ranked_at tb df t))"
    "set (map av_asset (ranked_at tb df t)) = {a \<in> set (df_assets df). \<not> isNaN (df_ValueAt df a (tb_metric tb) t)}"
proof -
  define v where "v = (\<lambda>a. df_ValueAt df a (tb_metric tb) t)"
  define xs where "xs = List.map_filter (\<lambda>a. let w = v a in if isNaN w then None else Some \<lparr>av_asset = a, av_value = w\<rparr>) (df_assets df)"
  have xs: "xs = map (\<lambda>a. \<lparr>av_asset = a, av_value = v a\<rparr>) (filter (\<lambda>a. \<not> isNaN (v a)) (df_assets df))"
    unfolding xs_def by (induction "df_assets df") (auto simp: map_filter_def Let_def)
  define lt where "lt = (\<lambda>(x :: assetValue) (y :: assetValue). if tb_ascending tb then av_value x < av_value y else av_value x > av_value y)"
  have rk: "ranked_at tb df t = sort_Slice lt xs" by (simp add: ranked_at_def lt_def xs_def v_def)
  have "lt x y \<longleftrightarrow> rank_value tb df t (av_asset x) < rank_value tb df t (av_asset y)" if "x \<in> set xs" "y \<in> set xs" for x y
  proof -
    have "fin (v a)" if "\<not> isNaN (v a)" for a using that assms(1) [of a] by (simp add: v_def)
    moreover have "rank_value tb df t a = (if tb_ascending tb then 1 else - 1) * fval (v a)" for a by (simp add: rank_value_def v_def)
    ultimately show ?thesis using that by (auto simp: xs lt_def fin_less)
  qed
  from sort_Slice_sorted [of xs lt "\<lambda>x. rank_value tb df t (av_asset x)", OF this]
  show "sorted_wrt (\<lambda>x y. rank_value tb df t x \<le> rank_value tb df t y) (map av_asset (ranked_at tb df t))"
    by (simp add: rk sorted_wrt_map)
  have "mset (map av_asset (ranked_at tb df t)) = mset (map av_asset xs)" by (simp add: rk)
  moreover have "map av_asset xs = filter (\<lambda>a. \<not> isNaN (v a)) (df_assets df)" by (simp add: xs o_def)
  ultimately have m: "mset (map av_asset (ranked_at tb df t)) = mset (filter (\<lambda>a. \<not> isNaN (v a)) (df_assets df))" by (simp only:)
  show "distinct (map av_asset (ranked_at tb df t))" using assms(2) mset_eq_imp_distinct_iff [OF m] by simp
  show "set (map av_asset (ranked_at tb df t)) = {a \<in> set (df_assets df). \<not> isNaN (df_ValueAt df a (tb_metric tb) t)}"
    using mset_eq_setD [OF m] by (simp add: v_def)
qed

lemma topBottomN_picks:
  fixes df tb t
  assumes "df_wf df" "df_err df = None" "df_chrono df" "distinct (map CompositeFigi (df_assets df))" "i < length (df_times df)"
    "\<And>a. isNaN (df_ValueAt df a (tb_metric tb) t) \<or> fin (df_ValueAt df a (tb_metric tb) t)" "t = df_times df ! i"
  defines "S \<equiv> set (CollectSelected (topBottomN_Select tb df) t)" and "K \<equiv> {a \<in> set (df_assets df). \<not> isNaN (df_ValueAt df a (tb_metric tb) t)}"
  shows "S \<subseteq> K" "card S = min (nat (tb_count tb)) (card K)" "a \<in> S \<Longrightarrow> b \<in> K - S \<Longrightarrow> rank_value tb df t a \<le> rank_value tb df t b"
proof -
  define figis where "figis = (\<lambda>(i :: nat, t). map (CompositeFigi \<circ> av_asset) (take (nat (tb_count tb)) (ranked_at tb df t)))"
  have da: "distinct (df_assets df)" using assms(4) by (simp add: distinct_map)
  have row: "(\<lambda>cols (timeIdx, t). foldl (\<lambda>cols r. mark_row timeIdx cols (CompositeFigi (av_asset r))) cols (take (nat (tb_count tb)) (ranked_at tb df t)))
      = marked_row figis"
    by (auto simp: fun_eq_iff marked_row_def figis_def foldl_map)
  have sel: "S = {a \<in> set (df_assets df). CompositeFigi a \<in> set (figis (i, t))}"
    unfolding S_def assms(7) by (rule selected_marked [OF assms(1-3,5)]) (simp add: topBottomN_Select_def Let_def row)
  define R where "R = map av_asset (ranked_at tb df t)"
  note rk = ranked_at_facts [OF assms(6) da, folded R_def]
  have RK: "set R = K" using rk(3) by (simp add: K_def)
  have fig: "set (figis (i, t)) = CompositeFigi ` set (take (nat (tb_count tb)) R)" by (simp add: figis_def R_def take_map image_image)
  have sub: "set (take (nat (tb_count tb)) R) \<subseteq> set (df_assets df)"
    using set_take_subset [of "nat (tb_count tb)" R] RK by (auto simp: K_def)
  have "inj_on CompositeFigi (set (df_assets df))" using assms(4) by (simp add: distinct_map)
  from inj_on_image_mem_iff [OF this _ sub] sub have S: "S = set (take (nat (tb_count tb)) R)" unfolding sel fig by blast
  show "S \<subseteq> K" using S RK set_take_subset by metis
  show "card S = min (nat (tb_count tb)) (card K)"
    using rk(2) unfolding S RK [symmetric] by (simp add: distinct_card min.commute)
  show "rank_value tb df t a \<le> rank_value tb df t b" if "a \<in> S" "b \<in> K - S"
  proof -
    have "b \<in> set (drop (nat (tb_count tb)) R)" using that S RK by (metis DiffE Un_iff append_take_drop_id set_append)
    then show ?thesis using rk(1) that(1) S by (metis append_take_drop_id sorted_wrt_append)
  qed
qed


lemma f64_less_trans: "x < y \<Longrightarrow> y < z \<Longrightarrow> x < z" for x y z :: f64
  by (cases x; cases y; cases z) auto

lemma best_scan:
  fixes v :: "asset \<Rightarrow> f64"
  defines "step \<equiv> \<lambda>(bestVal, bestFigi) a. let w = v a in if w > bestVal then (w, CompositeFigi a) else (bestVal, bestFigi)"
  shows "foldl step (bv, bf) as = (bv, bf) \<and> (\<forall>b\<in>set as. \<not> v b > bv)
    \<or> (\<exists>a\<in>set as. foldl step (bv, bf) as = (v a, CompositeFigi a) \<and> v a > bv \<and> (\<forall>b\<in>set as. \<not> v b > v a))"
proof (induction as arbitrary: bv bf)
  case (Cons x xs)
  show ?case
  proof (cases "v x > bv")
    case True
    then have "foldl step (bv, bf) (x # xs) = foldl step (v x, CompositeFigi x) xs" by (simp add: step_def)
    moreover have "\<not> v x > v x" by (cases "v x") auto
    moreover have "\<not> v x > v a" if "v a > v x" for a using that f64_less_trans [of "v a" "v x" "v a"] by (cases "v a") auto
    ultimately show ?thesis using Cons.IH [of "v x" "CompositeFigi x"] True f64_less_trans [of bv "v x"] by (auto simp del: foldl_Cons)
  next
    case False
    then have "foldl step (bv, bf) (x # xs) = foldl step (bv, bf) xs" by (simp add: step_def)
    moreover have "\<not> v x > v a" if "v a > bv" for a using that False f64_less_trans [of bv "v a" "v x"] by blast
    ultimately show ?thesis using Cons.IH [of bv bf] False by (auto simp del: foldl_Cons)
  qed
qed simp

lemma best_figi_spec:
  assumes "\<forall>a\<in>set (df_assets df). CompositeFigi a \<noteq> []"
  shows "best_figi metric df t = [] \<and> (\<forall>b\<in>set (df_assets df). \<not> df_ValueAt df b metric t > 0)
    \<or> (\<exists>a\<in>set (df_assets df). best_figi metric df t = CompositeFigi a \<and> df_ValueAt df a metric t > 0
         \<and> (\<forall>b\<in>set (df_assets df). \<not> df_ValueAt df b metric t > df_ValueAt df a metric t))"
  using best_scan [of "\<lambda>a. df_ValueAt df a metric t" 0 "[]" "df_assets df"] assms unfolding best_figi_def by force

lemma maxAboveZero_picks:
  assumes "df_wf df" "df_err df = None" "df_chrono df" "distinct (map CompositeFigi (df_assets df))" "\<forall>a\<in>set (df_assets df). CompositeFigi a \<noteq> []"
    "i < length (df_times df)" "t = df_times df ! i" "mz_fallback m = None"
  shows "set (CollectSelected (maxAboveZero_Select m df) t) = {} \<and> (\<forall>b\<in>set (df_assets df). \<not> df_ValueAt df b (mz_metric m) t > 0)
    \<or> (\<exists>a\<in>set (df_assets df). set (CollectSelected (maxAboveZero_Select m df) t) = {a} \<and> df_ValueAt df a (mz_metric m) t > 0
         \<and> (\<forall>b\<in>set (df_assets df). \<not> df_ValueAt df b (mz_metric m) t > df_ValueAt df a (mz_metric m) t))"
proof -
  define best where "best = best_figi (mz_metric m) df"
  define figis where "figis = (\<lambda>(i :: nat, t). if best t \<noteq> [] then [best t] else [])"
  have row: "(\<lambda>cols (i, t). if best t \<noteq> [] then mark_row i cols (best t) else cols) = marked_row figis"
    by (auto simp: fun_eq_iff marked_row_def figis_def)
  have "set (CollectSelected (maxAboveZero_Select m df) t) = {a \<in> set (df_assets df). CompositeFigi a \<in> set (figis (i, t))}"
    unfolding assms(7)
    by (rule selected_marked [OF assms(1-3,6)]) (simp add: maxAboveZero_Select_def Let_def assms(8) row flip: best_def)
  moreover have "{b \<in> set (df_assets df). CompositeFigi b = CompositeFigi a} = {a}" if "a \<in> set (df_assets df)" for a
    using that assms(4) by (auto simp: distinct_map inj_on_def)
  ultimately show ?thesis using best_figi_spec [OF assms(5), of "mz_metric m" t] assms(5)
    by (auto simp: figis_def best_def)
qed

end
