(* ===== verification/SamplePortfolio.thy ===== *)
theory SamplePortfolio
  imports SampleMarket PortfolioMetrics TaxMiddleware Weighting
begin

text \<open>
  Concrete accounts with a history, frames of signals and configurations on which the witnesses
  about metrics, middleware and portfolio construction run.
\<close>

section \<open>An account with a history\<close>

definition curve :: "(int \<times> real) list \<Rightarrow> dataframe" where
  "curve ps = df_zero\<lparr>df_times := map (\<lambda>p. day (fst p)) ps, df_assets := [portfolioAsset], df_metrics := [PortfolioEquity], df_freq := Daily,
     df_columns := [map (\<lambda>p. Fin (snd p)) ps], df_assetIndex := mk_assetIndex [portfolioAsset]\<rparr>"

definition cash_move :: "txtype \<Rightarrow> int \<Rightarrow> real \<Rightarrow> transaction" where
  "cash_move ty d amount = transaction_zero\<lparr>t_Date := day d, t_Type := ty, t_Amount := Fin amount\<rparr>"

text \<open>Five shares bought at 100 out of 1000 in cash, now quoted at 80.\<close>

definition sinking :: account where
  "sinking = account_new\<lparr>a_cash := Fin 500, a_holdings := [(spy, Fin 5)], a_taxLots := [(spy, [lot1])],
     a_transactions := [cash_move DepositTransaction 0 1000, trade BuyTransaction ''t1'' 1 spy 5 100],
     a_prices := Some (quotes [(spy, 80)]), a_perfData := Some (curve [(1, 1000), (2, 900)])\<rparr>"

lemma curve_facts [simp]:
  "df_wf (curve ps)" "df_keys (curve ps)" "df_err (curve ps) = None" "df_times (curve ps) = map (\<lambda>p. day (fst p)) ps"
  "df_Column (curve ps) portfolioAsset PortfolioEquity = Some (map (\<lambda>p. Fin (snd p)) ps)"
  by (simp_all add: curve_def df_wf_def df_keys_def df_zero_def mk_assetIndex_def df_Column_def metricIndex_def colSlice_def colIdx_def)

lemma curve_window: "df_Window None (curve ps) = Some (curve ps)"
proof -
  have "df_Window None (curve ps) = Some (time_slice 0 (length ps) (curve ps))"
    using sliceByTimeIndices_eq [of "curve ps" 0 "length ps"] by (simp add: df_Window_def)
  then show ?thesis by (simp add: time_slice_def slice_def curve_def df_zero_def)
qed

lemma sinking_sel [simp]:
  "a_cash sinking = Fin 500" "a_holdings sinking = [(spy, Fin 5)]" "a_taxLots sinking = [(spy, [lot1])]" "a_substitutions sinking = []"
  "a_perfData sinking = Some (curve [(1, 1000), (2, 900)])" "a_prices sinking = Some (quotes [(spy, 80)])"
  "a_transactions sinking = [cash_move DepositTransaction 0 1000, trade BuyTransaction ''t1'' 1 spy 5 100]"
  "a_shortLots sinking = []" "a_washSales sinking = []" "a_recentBuys sinking = []" "a_recentLossSales sinking = []"
  by (simp_all add: sinking_def account_new_def)

lemma sinking_books: "books_ok sinking"
proof -
  have "position_inv sinking ast" for ast
    by (cases "ast = spy") (simp_all add: position_inv_def lots_match_def mget_def)
  then show ?thesis
    by (simp add: books_ok_def acct_inv_def tracking_ok_def tracking_fin_def ledger_def open_holdings_def cash_move_def trade_def)
qed

lemma sinking_drawdown: "current_drawdown plain_gonum sinking = Some (Fin (- 1 / 10))"
  by code_simp

section \<open>A selection\<close>

definition pair_quotes :: dataframe where "pair_quotes = quotes [(spy, 3), (tlt, 5)]"

definition best_close :: topBottomN where "best_close = \<lparr>tb_count = 1, tb_metric = MetricClose, tb_ascending = False\<rparr>"

lemma best_close_sel: "tb_count best_close = 1" "tb_metric best_close = MetricClose" "tb_ascending best_close = False"
  by (simp_all add: best_close_def)

lemma pair_values:
  "df_ValueAt pair_quotes spy MetricClose (day 1) = Fin 3" "df_ValueAt pair_quotes tlt MetricClose (day 1) = Fin 5"
  "df_assets pair_quotes = [spy, tlt]" "spy \<noteq> tlt"
proof -
  show "df_ValueAt pair_quotes spy MetricClose (day 1) = Fin 3" "df_ValueAt pair_quotes tlt MetricClose (day 1) = Fin 5" by code_simp+
  show "df_assets pair_quotes = [spy, tlt]" by (simp add: pair_quotes_def quotes_def)
  have "CompositeFigi spy \<noteq> CompositeFigi tlt" by (simp add: spy_def tlt_def mk_asset_def)
  then show "spy \<noteq> tlt" by metis
qed

lemma pair_quotes_ok:
  "df_wf pair_quotes" "df_err pair_quotes = None" "df_chrono pair_quotes" "distinct (map CompositeFigi (df_assets pair_quotes))"
  "0 < length (df_times pair_quotes)" "day 1 = df_times pair_quotes ! 0"
  "\<forall>a. isNaN (df_ValueAt pair_quotes a MetricClose (day 1)) \<or> fin (df_ValueAt pair_quotes a MetricClose (day 1))"
proof -
  show "df_wf pair_quotes" "df_err pair_quotes = None" using quotes_wf unfolding pair_quotes_def by blast+
  show "df_chrono pair_quotes" "distinct (map CompositeFigi (df_assets pair_quotes))" "0 < length (df_times pair_quotes)" "day 1 = df_times pair_quotes ! 0"
    by (simp_all add: pair_quotes_def df_chrono_def quotes_def spy_def tlt_def mk_asset_def)
  have t: "timeIndex pair_quotes (day 1) = Some 0" by code_simp
  have "col = [Fin 3] \<or> col = [Fin 5]" if c: "df_Column pair_quotes a MetricClose = Some col" for a col
    using c by (auto simp: pair_quotes_def quotes_def df_Column_def metricIndex_def colSlice_def colIdx_def mk_assetIndex_def df_zero_def split: option.splits if_splits)
  then show "\<forall>a. isNaN (df_ValueAt pair_quotes a MetricClose (day 1)) \<or> fin (df_ValueAt pair_quotes a MetricClose (day 1))"
    by (fastforce simp: df_ValueAt_Column t split: option.splits)
qed

end
