(* ===== verification/Spec2Isabelle.thy ===== *)
theory Spec2Isabelle
  imports SampleCalendar SamplePortfolio
begin

text \<open>
  A model of pvbt, a back-testing and live-trading engine for portfolio strategies, and the
  properties that make its accounting, its data access and its back-test loop correct.

  \<^bold>\<open>The program.\<close> A strategy looks at price frames (data/), selects and weights assets
  (portfolio/top_bottom_n.go, equal_weight.go and their siblings) and asks for trades through a batch
  (portfolio/batch.go). The engine (engine/) finds the trading days and firings of a range
  (tradecron/), serves data through a cache of the providers, and executes each batch against a
  broker: it runs the middleware (engine/middleware/), submits the orders, drains the fill channel
  and books every fill on the account (portfolio/account.go). In a back-test the broker is simulated
  (engine/simulated_broker.go): it fills at modelled prices (broker/fill*.go), checks margin and
  leverage, holds bracket exits and produces dividends, splits, borrow fees and delistings. The
  account keeps cash, positions, tax lots, wash-sale tracking, trade details, pending orders and order
  groups, records equity once per step, and answers performance metrics from that record.

  \<^bold>\<open>The theories\<close>, in import order.
  \<^item> \<open>Prelude\<close>: association lists for Go maps, decimal printing, list lemmas.
  \<^item> \<open>Float64\<close>: \<open>float64\<close> as real numbers with NaN and infinities, with Go's comparisons.
  \<^item> \<open>GoTime\<close>: \<open>time.Time\<close> as the reading of the New York clock, civil dates, saturating \<open>Sub\<close>.
  \<^item> \<open>Assets\<close>: asset/, and errors.
  \<^item> \<open>DataFrame\<close>: data/data_frame.go (construction, access, lookup by time, append),
    data/metric.go, data/frequency.go.
  \<^item> \<open>FrameOps\<close>, \<open>FrameAlgebra\<close>, \<open>FrameStats\<close>: the operations of data/data_frame.go that select,
    combine and transform frames, data/merge.go, rolling_data_frame.go, downsample.go, period.go.
    Selecting rows stays inside a well-formed frame; element-wise operations act on the common columns.
  \<^item> \<open>Lots\<close>: portfolio/lot_selection.go and the lot consumption of account.go.
  \<^item> \<open>Broker\<close>: broker/broker.go and the fill pipeline broker/fill*.go.
  \<^item> \<open>AccountState\<close>: the account record, its options and queries.
  \<^item> \<open>WashSale\<close>, \<open>Account\<close>, \<open>Ledger\<close>: \<open>Record\<close>, \<open>SyncTransactions\<close>, \<open>ApplySplit\<close> and the
    wash-sale rules of account.go; the accounts they can build.
  \<^item> \<open>Margin\<close>: portfolio/margin.go, margin_option.go, engine/margin_config.go and the orders of
    engine/margin_call.go; \<open>Liquidation\<close>: what those orders achieve.
  \<^item> \<open>Batch\<close>, \<open>Rebalance\<close>: portfolio/batch.go and order.go; projections and rebalancing.
  \<^item> \<open>Execution\<close>: \<open>ExecuteBatch\<close>, fill draining, brackets, OCO groups, cancellation.
  \<^item> \<open>SimBroker\<close>: engine/simulated_broker.go; the margin check foresees the books exactly.
  \<^item> \<open>Performance\<close>: \<open>UpdatePrices\<close> and the position histories; \<open>SimInvariant\<close>: what draining and
    executing keep of the account and the broker.
  \<^item> \<open>GainReplay\<close>, \<open>PortfolioStats\<close>, \<open>PortfolioMetrics\<close>: the replay of the log behind the tax metrics
    (portfolio/metric_helpers.go), the statistics an account offers and the query of a metric
    (metric_query.go, windowed_stats.go, benchmark_view.go, drawdown_detail.go), and the return, trade,
    tax, drawdown and withdrawal metrics. Realised gains account for every traded dollar, time-weighted
    returns cancel external flows, the maximum drawdown is the worst fall of the curve, and the
    withdrawal rates are the largest sustainable ones.
  \<^item> \<open>RiskMiddleware\<close>, \<open>TaxMiddleware\<close>: engine/middleware/risk and tax and engine/middleware_config.go.
    What each middleware does to the batch, and that every configured chain keeps the interface.
  \<^item> \<open>DataCache\<close>: engine/data_cache.go and \<open>fetchRange\<close> of engine/engine.go; \<open>CacheSound\<close>: the
    cache against what the providers quote, prices and fundamentals.
  \<^item> \<open>EngineData\<close>: the clock of the engine, \<open>Fetch\<close>, \<open>FetchAt\<close>, \<open>Prices\<close>, forward filling and
    minute bars of engine/engine.go, intraday_fetch.go and intraday_fill_cache.go.
  \<^item> \<open>Weighting\<close>: the selectors and weightings of portfolio/ (top_bottom_n.go, max_above_zero.go,
    equal_weight.go, weighted_by_signal.go, market_cap_weighted.go, inverse_volatility.go,
    risk_parity.go, risk_parity_fast.go). A locale states what a rule over trailing returns owes, and
    the three rules of the code interpret it.
  \<^item> \<open>EngineLoop\<close>: the step loop of engine/backtest.go with margin_call.go and reconciler.go;
    \<open>EngineSound\<close>: the loop returns and keeps every account consistent.
  \<^item> \<open>TradeCron\<close>: tradecron/: market days, holidays and early closes, schedule strings and \<open>Next\<close>.
  \<^item> \<open>Backtest\<close>: the enumeration of the steps of a range; \<open>BacktestSetup\<close>: funding, snapshots, the
    warm-up check, the last day with data, child allocations, and the run from its funding on.
  \<^item> \<open>Samples\<close>, \<open>SampleMarket\<close>, \<open>SampleCalendar\<close>, \<open>SamplePortfolio\<close>: the concrete inputs of the
    witnesses.

  \<^bold>\<open>Correspondence.\<close> A Go struct is a record with the fields of the struct behind a short prefix
  (\<open>a_\<close> account, \<open>o_\<close> order, \<open>b_\<close> batch, \<open>sb_\<close> simulated broker), an enum is a datatype, and a
  function or method is a definition with the same name, split into named parts where the Go body
  is long. Methods pass the state explicitly and return it updated. Errors are values of
  \<open>goerr\<close>, with \<open>Wrap\<close> for \<open>%w\<close>; the texts leave out interpolated values. A panic is \<open>None\<close>; the
  row selections of frames check every index and slice bound. The iteration order of a
  Go map is the order of the association list; where the result could depend on it, the range
  order is an argument and the theorem holds for every order that visits all entries. Brokers
  are a record of operations, so the execution code is proved for any broker that meets the
  contract of the locale \<open>fill_queue\<close>; the simulated broker interprets it. Schedules are likewise
  reached through the locales \<open>ticker\<close> and \<open>schedule\<close>, which the schedules of tradecron interpret.

  \<^bold>\<open>What is shown.\<close> Positions always equal long lots less short lots and cash equals the logged
  amounts, for every account built by transactions and splits; trade details and bases add up to
  the money that moved; wash sales move disallowed losses into the basis; broker feeds are booked
  once. Margin deficiency is characterised exactly, liquidation orders clear it on one-sided
  books, and the margin check accepts exactly the orders that, booked alone on the account it reads,
  stay within the limits. Rebalancing ends within one share of each target. Draining the channel ends,
  keeps the books, and one exit leg cancels the other. Histories stay aligned with the time axis and
  recorded equity is the account value. Fetched data follows from what the providers quote, whatever
  the cache holds, and never from after the current date. The steps of a back-test are the closes of
  its range with every firing attached, and a back-test returns with all books consistent, for
  every strategy within its interface and for every configured middleware chain.
  The drain loop may not end for an arbitrary broker, so it is a partial function with value
  \<open>None\<close>; for the simulated broker it is proved to return. A phase of the engine returns
  \<open>None\<close> where the code would panic; for the whole back-test this is shown never to happen. The
  reconcile loop is bounded by the code itself (16 passes), the searches for trading days by the
  density of the calendar, which is a hypothesis.

  \<^bold>\<open>Abstractions.\<close> Floating-point rounding and overflow are not modelled: finite values are exact
  reals, so equations between sums hold up to rounding in the program. Times are readings of the New
  York clock, the location the command line, the providers, the calendar and the engine put their
  times in; the length of a day on which the clocks change is not modelled. Contexts and cancellation,
  logging, mutexes and metric registration are left out. Data providers, the numerical library,
  strategies and foreign middleware are arguments, with what the code relies on of them as named
  predicates (\<open>providers_quote\<close>, \<open>services_ok\<close>, \<open>strategy_ok\<close>, \<open>middleware_ok\<close>, \<open>gonum_ok\<close>). Market
  quotes are assumed not to be negative; fundamentals may be. The price source of the simulated broker
  is the engine as it is when the source is set: a read through it does not change the cache. The
  warm-up check and the trimming of the end are shown on their own; the run takes the start and the
  end they leave.

  \<^bold>\<open>Not modelled.\<close> The live broker adapters (broker/alpaca and its siblings), the database and
  snapshot providers, the command line, reports, studies and their user interface are input and
  output around this core. Prediction and live trading (engine/live.go), the reflection that fills the
  fields of a strategy, account cloning, annotations and metadata, the metrics that rest on the
  deviation and regression routines of the numerical library (Sharpe, Sortino, alpha, beta, MWRR and
  their kin), signals and universes are not modelled yet.
\<close>

section \<open>The ledger\<close>

text \<open>
  C2: in every account the program can build, the position of each asset is the quantity of its
  open long lots less that of its open short lots, every lot quantity and basis is finite, and
  an asset is never long and short at once.
\<close>
theorem positions_reconcile_with_lots:
  assumes "reachable a"
  shows "fin (a_cash a) \<and> fin (Position a ast)
    \<and> fval (Position a ast) = lots_sum (long_lots a ast) - lots_sum (short_lots a ast)
    \<and> lots_fin (long_lots a ast) \<and> lots_ok (short_lots a ast) \<and> 0 \<le> lots_sum (long_lots a ast)
    \<and> (lots_sum (long_lots a ast) = 0 \<or> short_lots a ast = [])"
  using reachable_inv [OF assms]
  by (simp add: acct_inv_def position_inv_def lots_match_def Position_def)

theorem positions_reconcile_with_lots_witness:
  "fval (Position invested spy) = lots_sum (long_lots invested spy) - lots_sum (short_lots invested spy)"
  using positions_reconcile_with_lots [OF invested_reachable] by simp

text \<open>
  C3: the cash balance of every account the program can build is the sum of the amounts in its
  transaction log: no operation moves money without logging it.
\<close>
theorem cash_is_logged:
  assumes "reachable a"
  shows "a_cash a = sum_list (map t_Amount (a_transactions a))"
  using reachable_ledger [OF assms] by (simp add: ledger_def)

theorem cash_is_logged_witness:
  "a_cash invested = sum_list (map t_Amount (a_transactions invested))"
  using cash_is_logged [OF invested_reachable] .

text \<open>
  C26: recording a transaction with finite numbers moves the position of its asset by its quantity
  (up for a buy, down for a sale, not at all for other kinds), leaves every other position alone,
  changes cash by its amount and logs it; a transaction with a NaN or infinite field is dropped.
\<close>
theorem Record_books_transaction:
  "Position (Record txn a) x =
     (if isFiniteTransaction txn \<and> x = t_Asset txn then
        (case t_Type txn of BuyTransaction \<Rightarrow> Position a x + t_Qty txn
         | SellTransaction \<Rightarrow> Position a x - t_Qty txn
         | _ \<Rightarrow> Position a x)
      else Position a x)
   \<and> a_cash (Record txn a) = (if isFiniteTransaction txn then a_cash a + t_Amount txn else a_cash a)
   \<and> map t_Amount (a_transactions (Record txn a))
     = map t_Amount (a_transactions a) @ (if isFiniteTransaction txn then [t_Amount txn] else [])"
  by (rule Record_effect)

text \<open>
  C22: closing part or all of a long position realises exactly the difference between the sale
  price and the average basis of the lots consumed: the trade details appended add up to the
  quantity sold and to that profit.
\<close>
theorem realised_profit:
  fixes txn a q
  defines "ast \<equiv> t_Asset txn"
  assumes "lots_fin (long_lots a ast)" "fin q" "0 < fval q" "fval q \<le> lots_sum (long_lots a ast)"
    and "fin (t_Price txn)" "mhas (a_excursions a) ast"
  shows "\<exists>ds. a_tradeDetails (sell_close txn q a) = a_tradeDetails a @ ds
     \<and> (\<Sum>t\<leftarrow>ds. fval (td_Qty t)) = fval q
     \<and> (\<Sum>t\<leftarrow>ds. fval (td_PnL t))
       = (fval (t_Price txn) - fval (avgCostBasis (computeConsumedLotInfo (long_lots a ast) q (lot_method a txn)))) * fval q"
  using assms(2-) unfolding ast_def by (rule sell_close_trade_details)

theorem realised_profit_witness:
  "\<exists>ds. a_tradeDetails (sell_close (trade SellTransaction ''t2'' 9 spy 2 110) (Fin 2) holder) = a_tradeDetails holder @ ds
     \<and> (\<Sum>t\<leftarrow>ds. fval (td_Qty t)) = 2
     \<and> (\<Sum>t\<leftarrow>ds. fval (td_PnL t)) = (110 - fval (avgCostBasis (computeConsumedLotInfo (long_lots holder spy) (Fin 2)
            (lot_method holder (trade SellTransaction ''t2'' 9 spy 2 110))))) * 2"
  using realised_profit [of holder "trade SellTransaction ''t2'' 9 spy 2 110" "Fin 2"]
  by simp



section \<open>Synchronisation with the broker\<close>

text \<open>
  C25: synchronising with a well-formed broker feed always succeeds, and the account it leaves is
  one the earlier invariants hold for.
\<close>
theorem sync_succeeds:
  assumes "reachable a" "list_all bt_ok bts"
  shows "\<exists>b. SyncTransactions bts a = (None, b) \<and> reachable b"
  using assms by (rule SyncTransactions_reachable)

theorem sync_succeeds_witness: "\<exists>b. SyncTransactions feed invested = (None, b) \<and> reachable b"
  by (rule sync_succeeds [OF invested_reachable]) (simp add: feed_def bt_zero_def bt_ok_def)

text \<open>
  C16: synchronisation is idempotent: when every transaction of the feed carries an identifier,
  repeating a successful synchronisation changes nothing.
\<close>
theorem sync_idempotent:
  assumes "SyncTransactions bts a = (None, b)" "\<forall>bt\<in>set bts. bt_ID bt \<noteq> []"
  shows "SyncTransactions bts b = (None, b)"
  using SyncTransactions_settled SyncTransactions_settles [OF assms] by blast

theorem sync_idempotent_witness:
  "\<exists>b. SyncTransactions feed invested = (None, b) \<and> SyncTransactions feed b = (None, b)"
proof -
  obtain b where b: "SyncTransactions feed invested = (None, b)"
    using SyncTransactions_reachable [OF invested_reachable, of feed] by (auto simp: feed_def bt_zero_def bt_ok_def)
  then show ?thesis using sync_idempotent [OF b] by (simp add: feed_def)
qed

text \<open>
  C17: no broker transaction is booked twice: the identifiers in the log stay distinct, and each
  is remembered, whatever feed is synchronised and however the call ends.
\<close>
theorem sync_books_once:
  assumes "distinct (logged_ids a)" "set (logged_ids a) \<subseteq> set (a_seenTransactions a)"
    and "SyncTransactions bts a = (e, b)"
  shows "distinct (logged_ids b) \<and> set (logged_ids b) \<subseteq> set (a_seenTransactions b)"
  using SyncTransactions_applied_once [OF _ assms(3)] assms(1,2) by (simp add: applied_once_def)

theorem sync_books_once_witness:
  "distinct (logged_ids (snd (SyncTransactions feed account_new)))"
  using sync_books_once [of account_new feed] by (simp add: logged_ids_def account_new_def prod_eq_iff)

section \<open>Wash sales\<close>

text \<open>
  C21: when a purchase matches recent loss sales, the loss disallowed is not lost: the cost of the
  open lots grows by exactly the disallowed amounts recorded. The hypotheses describe the call in
  Record: the lot just opened is the last one, and no earlier lot has an identifier that extends
  its own.
\<close>
theorem wash_sale_moves_loss_into_basis:
  assumes "checkWashSaleOnBuy a ast d q lid = (b, lid', r)"
    and "mget [] (a_taxLots a) ast = pre @ [x]" "lot_ID x = lid" "lot_Qty x = q" "fresh_prefix lid pre"
    and "lots_fin (pre @ [x])" "list_all loss_ok (mget [] (a_recentLossSales a) ast)"
  shows "\<exists>new. a_washSales b = a_washSales a @ new
     \<and> lots_cost (mget [] (a_taxLots b) ast) = lots_cost (mget [] (a_taxLots a) ast) + disallowed_total new"
  using assms by (rule checkWashSaleOnBuy_cost)

theorem wash_sale_moves_loss_into_basis_witness:
  "\<exists>new. a_washSales (fst (checkWashSaleOnBuy after_loss spy (day 1) (Fin 5) ''lot-1'')) = a_washSales after_loss @ new
     \<and> lots_cost (mget [] (a_taxLots (fst (checkWashSaleOnBuy after_loss spy (day 1) (Fin 5) ''lot-1''))) spy)
       = lots_cost (mget [] (a_taxLots after_loss) spy) + disallowed_total new"
  by (rule wash_sale_moves_loss_into_basis [where x = lot1 and pre = "[]" and lid = "''lot-1''"
        and lid' = "fst (snd (checkWashSaleOnBuy after_loss spy (day 1) (Fin 5) ''lot-1''))"
        and r = "snd (snd (checkWashSaleOnBuy after_loss spy (day 1) (Fin 5) ''lot-1''))" and d = "day 1" and q = "Fin 5"])
     (simp_all add: after_loss_def loss_ok_def)

section \<open>Valuation and margin\<close>

text \<open>
  C30: in every account the program can build, equity computed from long and short market values
  is the account value computed from the signed holdings, whatever prices are set.
\<close>
theorem equity_is_account_value:
  assumes "reachable a"
  shows "Equity (a\<lparr>a_prices := pr\<rparr>) = AccountValue (a\<lparr>a_prices := pr\<rparr>)"
  using reachable_open_holdings [OF assms] by (intro Equity_AccountValue) simp

theorem equity_is_account_value_witness:
  "Equity (invested\<lparr>a_prices := None\<rparr>) = AccountValue (invested\<lparr>a_prices := None\<rparr>)"
  by (rule equity_is_account_value [OF invested_reachable])



text \<open>
  C13: on a book that is only long or only short, automatic liquidation clears the margin call:
  once its orders are filled at the closing prices, no deficiency is left.
\<close>
theorem liquidation_restores_margin:
  assumes "marked df a" "\<forall>e\<in>set (a_holdings a). mark_fin df (fst e)" "a_substitutions a = []"
    and "LongMarketValue a = 0 \<or> ShortMarketValue a = 0"
  shows "MarginDeficiency (fold (book_fill df t) (autoLiquidate_orders a) a) = 0"
  using assms by (rule autoLiquidate_restores)

theorem liquidation_restores_margin_witness:
  "MarginDeficiency (fold (book_fill (quotes [(spy, 1)]) (day 2)) (autoLiquidate_orders short_seller) short_seller) = 0"
  by (rule liquidation_restores_margin)
     (simp_all add: marked_def mark_fin_def mark_def open_holdings_def short_seller_def account_new_def quotes_value
        LongMarketValue_def)

section \<open>Execution\<close>

text \<open>
  C12: the margin check of the simulated broker is exact for the order it judges. It accepts a fill at
  the marked close exactly when the account it read, with that fill booked, still has the initial
  margin if the order is a sale that leaves a short position, and has no more gross exposure than
  before or stays, with positive equity, within the leverage cap. Each order is judged on the account
  before any fill of its batch is booked.
\<close>
theorem margin_check_exact:
  assumes "a_prices a = Some df" "marks_ok df" "open_holdings (a_holdings a)" "mwf (a_holdings a)" "fin (a_cash a)"
    and "f_Price fl = fr_Price r" "f_Qty fl = fr_Quantity r" "fin (fr_Quantity r)" "fin (fr_Price r)"
    and "df_Value df (o_Asset ord) MetricClose = fr_Price r"
    and "sb_maxLeverage k = Fin m" "sb_initialMarginRate k = Fin \<rho>"
  shows "margin_check a ord r k = None \<longleftrightarrow>
     (o_Side ord = Sell \<and> Position (Record (fill_txn ord fl) a) (o_Asset ord) < 0 \<and> 0 < ShortMarketValue (Record (fill_txn ord fl) a)
        \<longrightarrow> Fin (if \<rho> = 0 then 1 / 2 else \<rho>) * ShortMarketValue (Record (fill_txn ord fl) a) \<le> Equity (Record (fill_txn ord fl) a))
   \<and> (0 < m \<longrightarrow>
        LongMarketValue (Record (fill_txn ord fl) a) + ShortMarketValue (Record (fill_txn ord fl) a) \<le> LongMarketValue a + ShortMarketValue a
      \<or> 0 < Equity (Record (fill_txn ord fl) a)
        \<and> LongMarketValue (Record (fill_txn ord fl) a) + ShortMarketValue (Record (fill_txn ord fl) a) \<le> Fin m * Equity (Record (fill_txn ord fl) a))"
  using assms by (rule margin_check_books)

theorem margin_check_exact_witness:
  "LongMarketValue (Record (fill_txn buy_order buy_fill) buyer) + ShortMarketValue (Record (fill_txn buy_order buy_fill) buyer)
         \<le> LongMarketValue buyer + ShortMarketValue buyer
     \<or> 0 < Equity (Record (fill_txn buy_order buy_fill) buyer)
       \<and> LongMarketValue (Record (fill_txn buy_order buy_fill) buyer) + ShortMarketValue (Record (fill_txn buy_order buy_fill) buyer)
         \<le> Fin 2 * Equity (Record (fill_txn buy_order buy_fill) buyer)"
proof -
  obtain r where r: "margin_check buyer buy_order r sample_broker = None" "f_Price buy_fill = fr_Price r" "f_Qty buy_fill = fr_Quantity r"
    using sim_Submit_filled [OF sample_submit, of buy_fill]
    by (auto simp: sample_broker_def NewSimulatedBroker_def buy_fill_def is_exit_def buy_order_def order_zero_def)
  have "a_prices buyer = Some (quotes [(spy, 1)])" "marks_ok (quotes [(spy, 1)])" "open_holdings (a_holdings buyer)" "mwf (a_holdings buyer)" "fin (a_cash buyer)"
    "fin (fr_Quantity r)" "fin (fr_Price r)" "df_Value (quotes [(spy, 1)]) (o_Asset buy_order) MetricClose = fr_Price r"
    "sb_maxLeverage sample_broker = Fin 2" "sb_initialMarginRate sample_broker = Fin 0"
    using r(2,3) [symmetric]
    by (simp_all add: sample_broker_def NewSimulatedBroker_def buy_fill_def buy_order_def order_zero_def buyer_def account_new_def open_holdings_def quotes_value)
  from margin_check_exact [OF this(1-5) r(2,3) this(6-10)] r(1) show ?thesis by simp
qed

text \<open>
  C14: draining the simulated broker's channel ends, empties it, and keeps every position equal to
  its lots, provided the fills that report success carry non-negative quantities.
\<close>
theorem drain_keeps_books:
  assumes "acct_inv (ds_acct s)" "list_all (\<lambda>fl. f_Err fl = None \<longrightarrow> 0 \<le> fval (f_Qty fl)) (sb_fills (ds_brk s))"
  shows "\<exists>s'. drain_loop sim_ops s = Some s' \<and> sb_fills (ds_brk s') = [] \<and> acct_inv (ds_acct s')"
  by (rule sq.drain_returns [where Q = "\<lambda>fl. f_Err fl = None \<longrightarrow> 0 \<le> fval (f_Qty fl)"])
     (use assms in \<open>auto intro!: process_fill_inv\<close>)

theorem drain_keeps_books_witness:
  "\<exists>s'. drain_loop sim_ops \<lparr>ds_acct = invested, ds_brk = sample_broker\<lparr>sb_fills := [buy_fill]\<rparr>, ds_batch = None, ds_exits = []\<rparr>
      = Some s' \<and> sb_fills (ds_brk s') = [] \<and> acct_inv (ds_acct s')"
  by (rule drain_keeps_books) (simp_all add: reachable_inv [OF invested_reachable] buy_fill_def)

text \<open>
  C15: executing a batch against the simulated broker always returns, whatever the orders, groups
  and middleware: the receive loop is finite.
\<close>
theorem execute_batch_returns: "\<exists>r. ExecuteBatch sim_ops mws (a, k, b) = Some r"
  by (rule sq.ExecuteBatch_total)

section \<open>Exit orders in the simulated broker\<close>

text \<open>
  C36: evaluating a bracket's exit group on a bar does nothing or fills exactly one leg, the stop
  at its stop price or the take-profit at its limit price, and then removes both legs and the group.
\<close>
theorem exit_group_fills_once:
  "evaluate_group df (gid, ids) k = k \<or>
   (\<exists>leg price. (group_leg RoleStopLoss (sb_pending k) ids = Some leg \<and> price = o_StopPrice leg
         \<or> group_leg RoleTakeProfit (sb_pending k) ids = Some leg \<and> price = o_LimitPrice leg)
     \<and> sb_fills (evaluate_group df (gid, ids) k) = sb_fills k @ [\<lparr>f_OrderID = o_ID leg, f_Price = price,
          f_Qty = o_Qty leg, f_FilledAt = sb_date k, f_Err = None\<rparr>]
     \<and> map_of (sb_groups (evaluate_group df (gid, ids) k)) gid = None
     \<and> (\<forall>ord. group_leg RoleStopLoss (sb_pending k) ids = Some ord \<or> group_leg RoleTakeProfit (sb_pending k) ids = Some ord
          \<longrightarrow> map_of (sb_pending (evaluate_group df (gid, ids) k)) (o_ID ord) = None))"
  by (rule evaluate_group_once)

theorem exit_group_fills_once_witness:
  "evaluate_group (quotes [(spy, 80)]) (''g'', [''g-sl'', ''g-tp'']) guarded = guarded
   \<or> length (sb_fills (evaluate_group (quotes [(spy, 80)]) (''g'', [''g-sl'', ''g-tp'']) guarded)) = Suc (length (sb_fills guarded))"
  using exit_group_fills_once [of "quotes [(spy, 80)]" "''g''" "[''g-sl'', ''g-tp'']" guarded] by auto

text \<open>
  C40: a percentage stop-loss on a short entry is placed below the entry price, so a bar that
  trades at the entry price triggers it, as a purchase below the entry.
\<close>
theorem short_stop_inverted:
  assumes "dx_entrySide info = Sell" "dx_fillPrice info = Fin p" "0 < p"
    and "gs_StopLoss (dx_spec info) = StopLossPercent (Fin pct)" "0 < pct" "pct < 100"
    and "\<not> isNaN high" "Fin p \<le> high"
  shows "stop_triggered (stopLossOrder info) high low closePrice
     \<and> o_StopPrice (stopLossOrder info) < dx_fillPrice info \<and> o_Side (stopLossOrder info) = Buy"
  using assms by (rule short_stop_percent)

theorem short_stop_inverted_witness:
  "stop_triggered (stopLossOrder short_entry) (Fin 101) (Fin 99) (Fin 100)
     \<and> o_StopPrice (stopLossOrder short_entry) < Fin 100"
  using short_stop_inverted [of short_entry 100 5 "Fin 101" "Fin 99" "Fin 100"] by (simp add: short_entry_def)

section \<open>Batches and rebalancing\<close>

text \<open>
  C11: after a rebalance every target member is held, in projection, within one share of its weight
  of the projected portfolio value; the value is that after the selling half, and the result holds
  for every iteration order of the maps involved.
\<close>
theorem rebalance_reaches_targets:
  assumes "projectable port b" "visits_all itHeld" "visits_all itSell" "visits_all itBuy"
    and "target_ok alloc" "map_of (alloc_members alloc) x = Some w" "batch_priceOf port x > 0"
  shows "absF (w * ProjectedValue port (after_sells itHeld itSell port alloc b)
           - mget 0 (ProjectedHoldings port (rebalance_one itHeld itSell itBuy port alloc b)) x * batch_priceOf port x)
         < batch_priceOf port x"
  using assms by (rule rebalance_member)

theorem rebalance_reaches_targets_witness:
  "absF (Fin (1/2) * ProjectedValue priced_holder (after_sells (\<lambda>m. m) (\<lambda>m. m) priced_holder half_half (NewBatch (day 2)))
       - mget 0 (ProjectedHoldings priced_holder (rebalance_one (\<lambda>m. m) (\<lambda>m. m) (\<lambda>m. m) priced_holder half_half (NewBatch (day 2)))) tlt * Fin 7)
     < Fin 7"
  using rebalance_reaches_targets [OF priced_holder_projectable [of "day 2"], of "\<lambda>m. m" "\<lambda>m. m" "\<lambda>m. m" half_half tlt "Fin (1/2)"]
  by (simp add: priced_holder_prices)

section \<open>Recording performance\<close>

text \<open>
  C37: every equity step extends the performance frame by one row and leaves the market value and
  quantity histories of every known position, cash included, exactly as long as the frame.
\<close>
theorem histories_stay_aligned:
  assumes "hist_ok n a" "n = (case a_perfData a of None \<Rightarrow> 0 | Some pd \<Rightarrow> df_Len pd)"
    and "mwf (a_holdings a)" "\<not> mhas (a_holdings a) cashSentinel" "mwf (a_positionMV a)"
    and "df_Len df > 0" "record_equity (a\<lparr>a_prices := Some df\<rparr>) df = Inr pd"
  shows "a_perfData (UpdatePrices df a) = Some pd \<and> df_Len pd = Suc n
    \<and> (\<forall>ast. mhas (a_positionMV (UpdatePrices df a)) ast \<longrightarrow> aligned (Suc n) ast (UpdatePrices df a))
    \<and> mhas (a_positionMV (UpdatePrices df a)) cashSentinel
    \<and> (\<forall>ast. mhas (a_holdings a) ast \<longrightarrow> mhas (a_positionMV (UpdatePrices df a)) ast)"
  using UpdatePrices_aligned [OF assms] by blast

theorem histories_stay_aligned_witness:
  "\<exists>pd. a_perfData (UpdatePrices (quotes [(spy, 90)]) holder) = Some pd \<and> df_Len pd = 1
     \<and> aligned 1 spy (UpdatePrices (quotes [(spy, 90)]) holder)"
proof -
  obtain pd where pd: "record_equity (holder\<lparr>a_prices := Some (quotes [(spy, 90)])\<rparr>) (quotes [(spy, 90)]) = Inr pd"
    using first_row by blast
  have h: "hist_ok 0 holder" "0 = (case a_perfData holder of None \<Rightarrow> 0 | Some pd \<Rightarrow> df_Len pd)" "mwf (a_holdings holder)"
    "\<not> mhas (a_holdings holder) cashSentinel" "mwf (a_positionMV holder)" "df_Len (quotes [(spy, 90)]) > 0" "mhas (a_holdings holder) spy"
    by (simp_all add: hist_ok_def holder_def account_new_def cashSentinel_def spy_def quotes_def df_Len_def)
  show ?thesis using histories_stay_aligned [OF h(1-6) pd] h(7) by auto
qed

section \<open>Data frames\<close>

section \<open>Fills and lots\<close>

text \<open>
  C39: no fill model or adjuster fills more than was ordered, and a fill not marked partial is for
  the full quantity.
\<close>
theorem fill_never_exceeds_order:
  assumes "pipeline_Fill pp order bar = Inr r" "\<not> isNaN (o_Qty order)"
  shows "fr_Quantity r \<le> o_Qty order \<and> (\<not> fr_Partial r \<longrightarrow> fr_Quantity r = o_Qty order)"
  using assms by (rule pipeline_Fill_quantity)

theorem fill_never_exceeds_order_witness:
  "\<exists>r. pipeline_Fill \<lparr>pp_base = CloseFill, pp_adjusters = [SlippageAdjuster (Percent (Fin (1/100)))]\<rparr> buy_order (quotes [(spy, 90)])
      = Inr r \<and> fr_Quantity r \<le> o_Qty buy_order"
proof -
  obtain r where r: "pipeline_Fill \<lparr>pp_base = CloseFill, pp_adjusters = [SlippageAdjuster (Percent (Fin (1/100)))]\<rparr> buy_order
      (quotes [(spy, 90)]) = Inr r"
    by (simp add: pipeline_Fill_def pipeline_FillBase_def pipeline_Adjust_def closeFill_Fill_def Let_def buy_order_def)
  then show ?thesis using fill_never_exceeds_order [OF r] by (simp add: buy_order_def)
qed

text \<open>
  C23: consuming lots conserves cost under every selection method: the average basis times the
  quantity consumed plus the cost of the lots left is the cost of the lots before.
\<close>
theorem consumed_basis_conserved:
  assumes "lots_fin ls" "fin q" "0 < fval q" "fval q \<le> lots_sum ls"
  shows "avgCostBasis (computeConsumedLotInfo ls q m) * q + Fin (lots_cost (consumeLotList q m ls))
       = Fin (lots_cost ls)"
  using assms by (rule avgCostBasis_conserves_cost)

theorem consumed_basis_conserved_witness:
  "avgCostBasis (computeConsumedLotInfo [lot1] (Fin 2) LotHighestCost) * Fin 2
     + Fin (lots_cost (consumeLotList (Fin 2) LotHighestCost [lot1])) = Fin (lots_cost [lot1])"
  by (rule consumed_basis_conserved) simp_all

section \<open>The engine\<close>







text \<open>
  C35: the byte count of the cache is the sum of the sizes of its entries: it stays so when a
  column is added or replaced and when old years are evicted, and eviction removes exactly the
  columns from before the previous calendar year.
\<close>
theorem cache_bytes_exact:
  assumes "bytes_ok c"
  shows "bytes_ok (cache_put key entry c) \<and> bytes_ok (evictBefore z t c)
    \<and> cache_get (evictBefore z t c) k
      = (if ck_chunkStart k < unix_of (nz_jan1 z (nz_year z t - 1)) then None else cache_get c k)"
  using assms by (simp add: cache_put_bytes evictBefore_bytes)

theorem cache_bytes_exact_witness: "bytes_ok (evictBefore nyc market_day (newDataCache 0))"
  using cache_bytes_exact [of "newDataCache 0"] by (simp add: bytes_ok_def newDataCache_def)



section \<open>Frames\<close>

text \<open>
  C32: selecting rows never runs out of a frame. On a frame whose columns, dates and rates all fit its
  time axis, At, Last, Between, Window, Filter, Drop and Copy index and slice within every column, so
  that none of them panics, and the frame they return is well-formed again, also when the frame
  carries an error.
\<close>
theorem row_selection_in_range:
  assumes "df_wf df"
  shows "yields (df_At df t) \<and> yields (df_Last df) \<and> yields (Between s e df) \<and> yields (df_Window w df)
    \<and> yields (df_Filter p df) \<and> yields (df_Drop v df) \<and> yields (df_Copy df)"
  using assms by (simp add: df_At_yields df_Last_yields Between_yields df_Window_yields df_Filter_yields df_Drop_yields df_Copy_yields)

theorem row_selection_in_range_witness:
  "yields (Between (day 0) (day 9) (quotes [(spy, 3)])) \<and> yields (df_At (quotes [(spy, 3)]) (day 1))"
  using row_selection_in_range [of "quotes [(spy, 3)]" "day 1" "day 0" "day 9"] quotes_wf [of "[(spy, 3)]"] by blast

text \<open>
  C33: element-wise arithmetic on two frames over one time axis has exactly the columns both frames
  have, each the operation applied to the two columns.
\<close>
theorem elementwise_on_common_columns:
  assumes "df_wf df" "df_wf other" "df_keys df" "df_err df = None" "df_err other = None" "df_times other = df_times df"
    and "\<And>s t. length s = length (df_times df) \<Longrightarrow> length t = length (df_times df) \<Longrightarrow> length (f s t) = length (df_times df)"
  shows "\<exists>r. elemWiseOp f df other = Some r \<and> df_wf r \<and> df_err r = None \<and>
    (\<forall>a m. df_Column r a m = (case (df_Column df a m, df_Column other a m) of (Some s, Some t) \<Rightarrow> Some (f s t) | _ \<Rightarrow> None))"
  using assms by (rule elemWiseOp_spec)

theorem elementwise_on_common_columns_witness:
  "\<exists>r. elemWiseOp (map2 (+)) (quotes [(spy, 3)]) (quotes [(spy, 4)]) = Some r \<and> df_wf r"
  using elementwise_on_common_columns [of "quotes [(spy, 3)]" "quotes [(spy, 4)]" "map2 (+)"] quotes_wf quotes_keys by auto

section \<open>Trading calendar\<close>

text \<open>
  C7: a backtest enumerates its range completely: with the daily schedule at the close, and parent and child
  schedules that answer every query and share its calendar, the enumeration returns; its steps are exactly the
  closes of the trading days of the range, in order; and the firings of the parent, and of every child, are
  the firings attached to the steps, none lost, repeated or reordered.
\<close>
theorem steps_cover_every_firing:
  assumes "at_daily_close daily" "tc_DateFlag daily = []" "0 < mh_Open (ms_hours ms)" "calendar_dense ms" "tc_marketStatus daily = ms"
    and "answering parent" "tc_marketStatus parent = ms"
    and "\<forall>(n, tc)\<in>set children. answering tc \<and> tc_marketStatus tc = ms" "distinct (map fst children)"
  shows "\<exists>steps. enumerate_steps daily parent children start (inclusive_end end') = Some steps
    \<and> sorted_wrt (<) (map bs_date steps)
    \<and> set (map bs_date steps) = {u. market_close ms u \<and> start \<le> u \<and> u \<le> inclusive_end end'}
    \<and> firings (Next parent) start (inclusive_end end') = Some (concat (map bs_parentFirings steps))
    \<and> (\<forall>n tc. map_of children n = Some tc \<longrightarrow>
         firings (Next tc) start (inclusive_end end') = Some (concat (map (\<lambda>s. mget [] (bs_childFirings s) n) steps)))"
  by (rule enumeration_complete [OF assms])

theorem steps_cover_every_firing_witness:
  "\<exists>steps. enumerate_steps (bell [] []) (bell [] AtMonthEnd) [(''child'', bell [] [])] 0 (inclusive_end day_ns) = Some steps
    \<and> set (map bs_date steps) = {u. market_close nyse u \<and> 0 \<le> u \<and> u \<le> inclusive_end day_ns}
    \<and> firings (Next (bell [] AtMonthEnd)) 0 (inclusive_end day_ns) = Some (concat (map bs_parentFirings steps))"
  using steps_cover_every_firing [of "bell [] []" nyse "bell [] AtMonthEnd" "[(''child'', bell [] [])]" 0 day_ns]
  by (auto simp: bell_at_close nyse_ok bell_answers)

text \<open>
  C8: a schedule at the close of the last trading day of the month fires exactly at those closes, early or
  regular, in order and without omission.
\<close>
theorem month_end_firings_exact:
  assumes "at_daily_close tc" "tc_DateFlag tc = AtMonthEnd" "0 < mh_Open (ms_hours (tc_marketStatus tc))"
  shows "\<exists>xs. firings (Next tc) start end' = Some xs \<and> sorted_wrt (<) xs
    \<and> set xs = {u. is_month_end (tc_marketStatus tc) u \<and> u = close_of (tc_marketStatus tc) u \<and> start \<le> u \<and> u \<le> end'}"
  using schedule.firings_exact [OF month_end_closes [OF assms], of start end'] by (simp only: month_end_close_def conj_assoc)

theorem month_end_firings_exact_witness:
  "\<exists>xs. firings (Next (bell [] AtMonthEnd)) 0 day_ns = Some xs \<and> sorted_wrt (<) xs"
  using month_end_firings_exact [of "bell [] AtMonthEnd" 0 day_ns] nyse_ok(3) by (simp add: bell_at_close) blast

text \<open>
  C38: an offset from the open or the close is added exactly: a specification whose total is a time of the day
  becomes that hour and minute, and any other is out of bounds.
\<close>
theorem schedule_offset_exact:
  assumes "\<not> length tokens < 5" "token_value (tokens ! 0) = Some mins" "token_value (tokens ! 1) = Some hrs"
    and "\<bar>mins\<bar> \<le> 2 ^ 60" "\<bar>hrs\<bar> \<le> 2 ^ 60" "\<bar>hours\<bar> \<le> 2 ^ 60" "\<bar>minutes\<bar> \<le> 2 ^ 60"
  shows "parseTimeRelativeTo tokens hours minutes =
    (let total = 60 * (hrs + hours) + (mins + minutes) in
     if 0 \<le> total \<and> total < 24 * 60
     then Inr (join_space [show_int (total mod 60), show_int (total div 60), tokens ! 2, tokens ! 3, tokens ! 4])
     else Inl ErrFieldOutOfBounds)"
  using parse_exact [OF assms] by (simp only: Let_def)

theorem schedule_offset_exact_witness:
  "parseTimeRelativeTo [''-45'', ''*'', ''*'', ''*'', ''*''] 9 30 = Inr ''45 8 * * *''"
proof -
  have "token_value ''-45'' = Some (- 45)" "token_value ''*'' = Some 0" by code_simp+
  then have "parseTimeRelativeTo [''-45'', ''*'', ''*'', ''*'', ''*''] 9 30 = Inr (join_space [show_int 45, show_int 8, ''*'', ''*'', ''*''])"
    using schedule_offset_exact [of "[''-45'', ''*'', ''*'', ''*'', ''*'']" "- 45" 0 9 30] by simp
  moreover have "join_space [show_int 45, show_int 8, ''*'', ''*'', ''*''] = ''45 8 * * *''" by code_simp
  ultimately show ?thesis by simp
qed

section \<open>Setting up a backtest\<close>

text \<open>
  C1: a backtest from its funding to its last day returns. Either the account cannot be funded,
  and the run reports exactly that error, or every trading day of the range is processed, or the
  run stops at an error of a phase; in both of the latter cases the books of the parent and of
  every child account are consistent, the brokers hold no negative quantities, and the cache
  agrees with what the providers quote. It holds for every strategy, middleware and provider
  that keeps to its interface and for every schedule that answers.
\<close>
theorem whole_backtest_sound:
  assumes "program_ok p q" "engine_ok (pg_services p) q e"
    and "funding_ok (cf_funding cf)" "\<forall>pp. cf_fillModel cf = Some pp \<longrightarrow> pipe_ok pp"
    and "at_daily_close daily" "tc_DateFlag daily = []" "0 < mh_Open (ms_hours ms)" "calendar_dense ms" "tc_marketStatus daily = ms"
    and "answering parent" "tc_marketStatus parent = ms"
    and "\<forall>(n, tc)\<in>set children. answering tc \<and> tc_marketStatus tc = ms" "distinct (map fst children)"
    and "fst ` set children \<subseteq> fst ` set (pg_children p)"
  shows "(\<exists>err. run_backtest p cf daily parent children start (inclusive_end end') e = Some (Inl err)
        \<and> createAccount (cf_funding cf) start = Inl err)
    \<or> (\<exists>er w. run_backtest p cf daily parent children start (inclusive_end end') e = Some (Inr (er, w)) \<and> world_ok p q w)"
  by (rule backtest_sound [OF assms])

theorem whole_backtest_sound_witness:
  "\<exists>er w. run_backtest buy_program plain_config (bell [] []) (bell [] AtMonthEnd) [(''child'', bell [] [])]
      third_of_january (inclusive_end third_of_january) fresh_engine = Some (Inr (er, w)) \<and> world_ok buy_program market w"
proof -
  have f: "funding_ok (cf_funding plain_config)" "cf_fillModel plain_config = None"
    "createAccount (cf_funding plain_config) t \<noteq> Inl err" for t err
    by (simp_all add: plain_config_def funding_ok_def createAccount_def)
  have c: "fst ` set [(''child'', bell [] [])] \<subseteq> fst ` set (pg_children buy_program)" by (simp add: buy_program_def)
  show ?thesis
    using whole_backtest_sound [OF buy_program_ok fresh_engine_ok f(1), of "bell [] []" nyse "bell [] AtMonthEnd" "[(''child'', bell [] [])]"
        third_of_january third_of_january] f c by (simp add: bell_at_close nyse_ok bell_answers)
qed

text \<open>
  C9: in strict mode a start date that passes the warm-up check is the date asked for, the
  window checked starts exactly the warm-up number of trading days before the first firing, and
  every asset has at least that many distinct dates with a quoted close in it.
\<close>
theorem strict_start_has_warmup_data:
  assumes "services_ok sv q" "engine_ok sv q e"
    and "at_daily_close daily" "tc_DateFlag daily = []" "0 < mh_Open (ms_hours (tc_marketStatus daily))" "calendar_dense (tc_marketStatus daily)"
    and "warmup = fold max ws w" "0 < warmup" "assets \<noteq> []"
    and "validateWarmup sv (Next daily) sched True (w # ws) assets start end' e = Some (Inr s, e')"
  shows "s = start \<and> (\<exists>first from. sched (start - 1) = Some first \<and> market_close (tc_marketStatus daily) from
      \<and> int (card {u. market_close (tc_marketStatus daily) u \<and> from < u \<and> u \<le> first}) = warmup
      \<and> (\<forall>a\<in>set assets. warmup \<le> int (card (quoted_dates q (CompositeFigi a) from first))))"
  by (rule strict_warmup_enough [OF assms(1,2) daily_closes [OF assms(3-6)] assms(7-10)])

theorem strict_start_has_warmup_data_witness:
  "\<exists>first from. Next (bell [] []) (third_of_january - 1) = Some first \<and> market_close nyse from
      \<and> int (card {u. market_close nyse u \<and> from < u \<and> u \<le> first}) = 1
      \<and> 1 \<le> int (card (quoted_dates market (CompositeFigi spy) from first))"
proof -
  obtain e where v: "validateWarmup market_services (Next (bell [] [])) (Next (bell [] [])) True [1] [spy]
      third_of_january (third_of_january + day_ns) fresh_engine = Some (Inr third_of_january, e)" using warmup_checked by blast
  show ?thesis
    using strict_start_has_warmup_data [OF market_ok fresh_engine_ok bell_at_close _ _ _ _ _ _ v] nyse_ok by auto
qed

text \<open>
  C10: the end of a run is never moved later, and every market close up to it has already
  happened when the run is set up.
\<close>
theorem run_ends_on_closed_day:
  assumes "adjustEndForExpectedEOD sv ms assets end' now e = (Some x, e')" "calendar_ok ms" "mh_Close (ms_hours ms) = 1600"
    and "market_close ms u" "u \<le> x"
  shows "x \<le> end' \<and> u \<le> now"
  using trimmed_end_closed [OF assms(1-3), of u] assms(4,5) unfolding market_close_def by blast

theorem run_ends_on_closed_day_witness:
  "\<exists>x e. adjustEndForExpectedEOD market_services nyse [] (third_of_january + 10 * day_ns) (third_of_january + 9 * hour_ns) fresh_engine = (Some x, e)
    \<and> x \<le> third_of_january + 10 * day_ns \<and> time_Date 2024 1 2 (16 * hour_ns) \<le> third_of_january + 9 * hour_ns"
proof -
  have t: "at_clock (third_of_january + 9 * hour_ns) 0 = third_of_january" "third_of_january + 9 * hour_ns < at_clock third_of_january (marketCloseHour * hour_ns)"
    "at_clock (previousTradingDay third_of_january nyse) end_of_day_clock = time_Date 2024 1 2 end_of_day_clock"
    "third_of_january + 10 * day_ns > time_Date 2024 1 2 end_of_day_clock" by code_simp+
  obtain x e where a: "adjustEndForExpectedEOD market_services nyse [] (third_of_january + 10 * day_ns) (third_of_january + 9 * hour_ns) fresh_engine = (Some x, e)"
      "x = time_Date 2024 1 2 end_of_day_clock"
    using t by (simp add: adjustEndForExpectedEOD_def Let_def)
  have "market_close nyse (time_Date 2024 1 2 (16 * hour_ns))" "time_Date 2024 1 2 (16 * hour_ns) \<le> time_Date 2024 1 2 end_of_day_clock"
    "mh_Close (ms_hours nyse) = 1600" by code_simp+
  then show ?thesis using run_ends_on_closed_day [OF a(1) nyse_ok(1), of "time_Date 2024 1 2 (16 * hour_ns)"] a by blast
qed

text \<open>
  C18: an account restored from the snapshot of an earlier one has its cash, positions,
  transactions and tax lots, and consistent books.
\<close>
theorem snapshot_round_trip:
  assumes "books_ok snap" "a_substitutions snap = []" "mwf (a_taxLots snap)" "mwf (a_shortLots snap)"
    and "fd_account fd = None" "fd_snapshot fd = Some snap"
  shows "\<exists>r. createAccount fd start = Inr r \<and> a_cash r = a_cash snap \<and> a_holdings r = a_holdings snap \<and> a_transactions r = a_transactions snap
    \<and> a_taxLots r = a_taxLots snap \<and> a_shortLots r = a_shortLots snap \<and> books_ok r"
  using snapshot_restores [OF assms(1-4)] assms(5,6) by (simp add: createAccount_def)

theorem snapshot_round_trip_witness:
  "\<exists>r. createAccount \<lparr>fd_account = None, fd_snapshot = Some saved, fd_initialDeposit = 0\<rparr> 0 = Inr r \<and> a_holdings r = [(spy, Fin 5)] \<and> books_ok r"
  using snapshot_round_trip [OF saved_ok, of "\<lparr>fd_account = None, fd_snapshot = Some saved, fd_initialDeposit = 0\<rparr>" 0] by (auto simp: saved_def)

text \<open>
  C27: expanding child portfolios into asset weights loses and invents nothing: the member
  weights add up to the weights of the children, when every child has a positive value and no
  negative cash.
\<close>
theorem child_allocations_add_up:
  assumes "\<forall>(n, w, a)\<in>set children. child_ok a"
    and "\<forall>(n, w, a)\<in>set children. fin (mget 0 (child_weights (map (\<lambda>(n, w, a). (n, w)) children) overrides) n)"
    and "ChildAllocations children overrides = Inr members"
  shows "sum_list (map snd members)
     = sum_list (map (\<lambda>(n, w, a). mget 0 (child_weights (map (\<lambda>(n, w, a). (n, w)) children) overrides) n) children)"
  using assms by (rule child_allocations_sum)

theorem child_allocations_add_up_witness:
  "\<exists>members. ChildAllocations [(''child'', Fin (1 / 2), SetBroker True funded)] None = Inr members \<and> sum_list (map snd members) = Fin (1 / 2)"
proof -
  have "child_ok (SetBroker True funded)"
    using fresh_books [of "Fin 1000" "day 0"] by (simp add: child_ok_def AccountValue_def SetBroker_def WithCash_def account_new_def)
  moreover obtain members where "ChildAllocations [(''child'', Fin (1 / 2), SetBroker True funded)] None = Inr members"
    by (auto simp: ChildAllocations_def child_weights_def put_all_entries_def Let_def)
  ultimately show ?thesis
    using child_allocations_add_up [of "[(''child'', Fin (1 / 2), SetBroker True funded)]" None members]
    by (auto simp: child_weights_def put_all_entries_def mget_def)
qed

section \<open>Middleware, selection and metrics\<close>




text \<open>
  C28: TopN and BottomN select, at every date of the frame, only assets that have a value, as
  many as asked for or all there are, and no asset that has a value and is left out ranks before
  a selected one.
\<close>
theorem selection_takes_the_best:
  assumes "df_wf df" "df_err df = None" "df_chrono df" "distinct (map CompositeFigi (df_assets df))"
    and "i < length (df_times df)" "t = df_times df ! i"
    and "\<forall>a. isNaN (df_ValueAt df a (tb_metric tb) t) \<or> fin (df_ValueAt df a (tb_metric tb) t)"
  shows "set (CollectSelected (topBottomN_Select tb df) t) \<subseteq> {a \<in> set (df_assets df). \<not> isNaN (df_ValueAt df a (tb_metric tb) t)}
    \<and> card (set (CollectSelected (topBottomN_Select tb df) t))
      = min (nat (tb_count tb)) (card {a \<in> set (df_assets df). \<not> isNaN (df_ValueAt df a (tb_metric tb) t)})
    \<and> (\<forall>a\<in>set (CollectSelected (topBottomN_Select tb df) t). \<forall>b\<in>set (df_assets df) - set (CollectSelected (topBottomN_Select tb df) t).
        isNaN (df_ValueAt df b (tb_metric tb) t)
      \<or> (if tb_ascending tb then df_ValueAt df a (tb_metric tb) t \<le> df_ValueAt df b (tb_metric tb) t
         else df_ValueAt df b (tb_metric tb) t \<le> df_ValueAt df a (tb_metric tb) t))"
proof -
  let ?v = "\<lambda>a. df_ValueAt df a (tb_metric tb) t" and ?S = "set (CollectSelected (topBottomN_Select tb df) t)"
  have v: "isNaN (?v a) \<or> fin (?v a)" for a using assms(7) by blast
  note P = topBottomN_picks [OF assms(1-5) v assms(6)]
  have "isNaN (?v b) \<or> (if tb_ascending tb then ?v a \<le> ?v b else ?v b \<le> ?v a)" if a: "a \<in> ?S" and b: "b \<in> set (df_assets df) - ?S" for a b
  proof (cases "isNaN (?v b)")
    case False
    have "rank_value tb df t a \<le> rank_value tb df t b" by (rule P(3)) (use a b False in auto)
    moreover have "fin (?v b)" using v [of b] False by blast
    moreover have "fin (?v a)" using v [of a] P(1) a by blast
    ultimately show ?thesis by (cases "?v a"; cases "?v b") (auto simp: rank_value_def)
  qed simp
  then show ?thesis using P(1,2) by blast
qed

theorem selection_takes_the_best_witness:
  "set (CollectSelected (topBottomN_Select best_close pair_quotes) (day 1)) = {tlt}"
proof -
  let ?S = "set (CollectSelected (topBottomN_Select best_close pair_quotes) (day 1))"
  have T: "?S \<subseteq> {a \<in> set (df_assets pair_quotes). \<not> isNaN (df_ValueAt pair_quotes a MetricClose (day 1))}"
    "card ?S = min (nat 1) (card {a \<in> set (df_assets pair_quotes). \<not> isNaN (df_ValueAt pair_quotes a MetricClose (day 1))})"
    "\<forall>a\<in>?S. \<forall>b\<in>set (df_assets pair_quotes) - ?S. isNaN (df_ValueAt pair_quotes b MetricClose (day 1))
      \<or> df_ValueAt pair_quotes b MetricClose (day 1) \<le> df_ValueAt pair_quotes a MetricClose (day 1)"
    using selection_takes_the_best [OF pair_quotes_ok(1-6) pair_quotes_ok(7) [folded best_close_sel(2)]]
    unfolding best_close_sel if_False by blast+
  have K: "{a \<in> set (df_assets pair_quotes). \<not> isNaN (df_ValueAt pair_quotes a MetricClose (day 1))} = {spy, tlt}"
    using pair_values by auto
  have "card ?S = 1" using T(2) pair_values(4) unfolding K by simp
  then obtain x where x: "?S = {x}" by (rule card_1_singletonE)
  have "x \<noteq> spy"
  proof
    assume "x = spy"
    then have "tlt \<in> set (df_assets pair_quotes) - ?S" "spy \<in> ?S" using pair_values(3,4) x by auto
    from T(3) [rule_format, OF this(2,1)] show False unfolding pair_values(1,2) by simp
  qed
  then show ?thesis using T(1) x unfolding K by auto
qed

text \<open>
  C29: the maximum drawdown of an equity curve of positive values is the largest relative fall
  from any point of the curve to a later one, and such a fall occurs.
\<close>
theorem drawdown_is_worst_fall:
  assumes "a_perfData a = Some pd" "df_wf pd" "df_keys pd" "df_err pd = None" "gonum_ok g"
    and "acct_EquitySeries a window = Some (Some w)" "df_Column w portfolioAsset PortfolioEquity = Some col"
    and "\<forall>v\<in>set col. fin v \<and> 0 < fval v" "col \<noteq> []"
  shows "\<exists>d. maxDrawdown_Compute (account_stats g a) window = Some (Inr (Fin d)) \<and> - 1 < d \<and> d \<le> 0
    \<and> (\<forall>i j. i \<le> j \<longrightarrow> j < length col \<longrightarrow> d \<le> (fval (col ! j) - fval (col ! i)) / fval (col ! i))
    \<and> (\<exists>i j. i \<le> j \<and> j < length col \<and> d = (fval (col ! j) - fval (col ! i)) / fval (col ! i))"
  using assms by (rule max_drawdown_worst)

theorem drawdown_is_worst_fall_witness:
  "\<exists>d. maxDrawdown_Compute (account_stats plain_gonum sinking) None = Some (Inr (Fin d)) \<and> d \<le> - 1 / 10"
proof -
  have e: "acct_EquitySeries sinking None = Some (Some (curve [(1, 1000), (2, 900)]))"
    by (simp add: acct_EquitySeries_def on_frame_def curve_window)
  obtain d where d: "maxDrawdown_Compute (account_stats plain_gonum sinking) None = Some (Inr (Fin d))"
    "\<forall>i j. i \<le> j \<longrightarrow> j < length [Fin 1000, Fin 900] \<longrightarrow> d \<le> (fval ([Fin 1000, Fin 900] ! j) - fval ([Fin 1000, Fin 900] ! i)) / fval ([Fin 1000, Fin 900] ! i)"
    using drawdown_is_worst_fall [OF sinking_sel(5) curve_facts(1-3) plain_gonum_ok e, where col = "[Fin 1000, Fin 900]"] by auto
  from d(2) [rule_format, of 0 1] show ?thesis using d(1) by simp
qed

end
